(* ===== verification/Mesh_Prelude.thy ===== *)
theory Mesh_Prelude
  imports Main "HOL-Library.AList" "HOL-Library.Multiset" "HOL-Library.Sublist" "HOL-Library.List_Lexorder"
    "HOL-Library.Char_ord"
begin

text \<open>
  Shared vocabulary of the development: the names of the model's base types, the
  reading of Go's built-in containers and integers, and the generic lemmas the
  component theories rest on.

  \<^item> A Go \<^verbatim>\<open>string\<close> or \<^verbatim>\<open>[]byte\<close> is a HOL \<open>string\<close>: a list of bytes.
  \<^item> A Go \<^verbatim>\<open>map[K]V\<close> is an association list with distinct keys, read with \<open>map_of\<close>,
    written with \<open>AList.update\<close> and \<open>AList.delete\<close>; the order of the list is the
    order in which one particular \<^verbatim>\<open>range\<close> over the map visits it.
  \<^item> An instant or a duration is an integer number of nanoseconds; the zero
    \<^verbatim>\<open>time.Time\<close> is \<open>None\<close> where the code tests for it.
  \<^item> A 64-bit signed integer is an \<open>int\<close>; where the code can overflow, the wrap-around
    is written out with \<open>wrap64\<close>.
  \<^item> An object reached through pointers lives at an address, a natural number.
\<close>

type_synonym addr = nat
type_synonym time = int
type_synonym ('k, 'v) gomap = "('k \<times> 'v) list"

abbreviation map_keys :: "('k, 'v) gomap \<Rightarrow> 'k list" where
  "map_keys m \<equiv> map fst m"

named_theorems go_simps \<open>unfolding rules for the model's small operations\<close>
named_theorems inv_intros \<open>preservation rules of component invariants\<close>

section \<open>Machine integers\<close>

definition maxInt64 :: int where
  "maxInt64 = 9223372036854775807"

text \<open>The two's-complement value of an \<^verbatim>\<open>int64\<close> computation whose exact result is \<open>x\<close>.\<close>

definition wrap64 :: "int \<Rightarrow> int" where
  "wrap64 x = (x + 9223372036854775808) mod 18446744073709551616 - 9223372036854775808"

definition millisecond :: int where "millisecond = 1000000"
definition second :: int where "second = 1000000000"

lemma wrap64_id: "- 9223372036854775808 \<le> x \<Longrightarrow> x \<le> maxInt64 \<Longrightarrow> wrap64 x = x"
  by (simp add: wrap64_def maxInt64_def)

lemma wrap64_bounds: "- 9223372036854775808 \<le> wrap64 x \<and> wrap64 x \<le> maxInt64"
proof -
  have "0 \<le> (x + 9223372036854775808) mod 18446744073709551616"
    and "(x + 9223372036854775808) mod 18446744073709551616 < 18446744073709551616"
    by simp_all
  then show ?thesis by (auto simp: wrap64_def maxInt64_def)
qed

section \<open>Maps\<close>

lemma map_of_update [simp]: "map_of (AList.update k v m) k' = (if k' = k then Some v else map_of m k')"
  by (simp add: AList.update_conv')

lemma map_of_delete [simp]: "map_of (AList.delete k m) k' = (if k' = k then None else map_of m k')"
  by (simp add: AList.delete_conv')

lemma distinct_keys_update [simp, intro]: "distinct (map_keys m) \<Longrightarrow> distinct (map_keys (AList.update k v m))"
  by (rule distinct_update)

lemma distinct_keys_delete [simp, intro]: "distinct (map_keys m) \<Longrightarrow> distinct (map_keys (AList.delete k m))"
  by (rule distinct_delete)

lemma keys_update [simp]: "fst ` set (AList.update k v m) = insert k (fst ` set m)"
  by (induction m) auto

lemma keys_delete [simp]: "fst ` set (AList.delete k m) = fst ` set m - {k}"
  by (induction m) auto

lemma map_of_eq_None_keys: "map_of m k = None \<longleftrightarrow> k \<notin> set (map_keys m)"
  by (simp add: map_of_eq_None_iff)

lemma map_of_None_update: "map_of m k = None \<Longrightarrow> AList.update k v m = m @ [(k, v)]"
  by (induction m) (auto split: if_splits)

lemma delete_absent: "map_of m k = None \<Longrightarrow> AList.delete k m = m"
  by (induction m) (auto split: if_splits)

lemma map_of_SomeD_set: "map_of m k = Some v \<Longrightarrow> (k, v) \<in> set m"
  by (rule map_of_SomeD)

lemma map_of_distinct_eq:
  "distinct (map_keys m) \<Longrightarrow> map_of m k = Some v \<longleftrightarrow> (k, v) \<in> set m"
  by (rule map_of_eq_Some_iff)

text \<open>Counting the entries of a map that satisfy a predicate: what an insertion and a deletion
  do to the count.  These carry the accounting invariants of the Router.\<close>

definition count_where :: "('k \<times> 'v \<Rightarrow> bool) \<Rightarrow> ('k, 'v) gomap \<Rightarrow> int" where
  "count_where P m = int (length (filter P m))"

lemma count_where_Nil [simp]: "count_where P [] = 0"
  by (simp add: count_where_def)

lemma count_where_Cons [simp]: "count_where P (x # m) = (if P x then 1 else 0) + count_where P m"
  by (simp add: count_where_def)

lemma count_where_append [simp]: "count_where P (m @ n) = count_where P m + count_where P n"
  by (simp add: count_where_def)

lemma count_where_nonneg [simp]: "0 \<le> count_where P m"
  by (simp add: count_where_def)

lemma count_where_insert:
  "map_of m k = None \<Longrightarrow> count_where P (AList.update k v m) = count_where P m + (if P (k, v) then 1 else 0)"
  by (simp add: map_of_None_update)

lemma count_where_delete:
  assumes "distinct (map_keys m)" and "map_of m k = Some v"
  shows "count_where P (AList.delete k m) = count_where P m - (if P (k, v) then 1 else 0)"
  using assms
proof (induction m)
  case Nil
  then show ?case by simp
next
  case (Cons x m)
  obtain k' v' where x: "x = (k', v')" by (cases x)
  show ?case
  proof (cases "k' = k")
    case True
    with Cons.prems x have "map_of m k = None" by (simp add: map_of_eq_None_iff)
    then have "AList.delete k m = m" by (rule delete_absent)
    with True x Cons.prems show ?thesis by simp
  next
    case False
    with Cons x show ?thesis by auto
  qed
qed

lemma count_where_cong: "(\<And>x. x \<in> set m \<Longrightarrow> P x = Q x) \<Longrightarrow> count_where P m = count_where Q m"
  by (simp add: count_where_def cong: filter_cong)

lemma count_where_pos: "x \<in> set m \<Longrightarrow> P x \<Longrightarrow> 0 < count_where P m"
  by (induction m) (auto simp: add_nonneg_pos add_pos_nonneg)

lemma count_where_zero: "count_where P m = 0 \<longleftrightarrow> (\<forall>x \<in> set m. \<not> P x)"
  by (auto simp: count_where_def filter_empty_conv)

lemma length_delete_key:
  assumes "distinct (map_keys m)" and "map_of m k = Some v"
  shows "Suc (length (AList.delete k m)) = length m"
  using count_where_delete [OF assms, of "\<lambda>_. True"] by (simp add: count_where_def)

section \<open>Lists\<close>

lemma sum_list_remove_nth:
  fixes f :: "'a \<Rightarrow> int"
  shows "i < length xs \<Longrightarrow> (\<Sum>x\<leftarrow>take i xs @ drop (Suc i) xs. f x) = (\<Sum>x\<leftarrow>xs. f x) - f (xs ! i)"
  by (subst (3) id_take_nth_drop [of i xs]) auto

lemma set_remove_nth_distinct:
  "distinct xs \<Longrightarrow> i < length xs \<Longrightarrow> set (take i xs @ drop (Suc i) xs) = set xs - {xs ! i}"
  by (subst (3) id_take_nth_drop [of i xs], assumption, subst (asm) id_take_nth_drop [of i xs])
    (auto simp: distinct_append)

lemma distinct_remove_nth: "distinct xs \<Longrightarrow> distinct (take i xs @ drop (Suc i) xs)"
  by (metis distinct_append distinct_drop distinct_take set_take_disj_set_drop_if_distinct
      lessI less_imp_le_nat)

lemma mset_remove_nth: "i < length xs \<Longrightarrow> mset (take i xs @ drop (Suc i) xs) = mset xs - {# xs ! i #}"
  by (subst (3) id_take_nth_drop [of i xs]) auto

lemma mem_removeAll_iff: "x \<in> set (removeAll y xs) \<longleftrightarrow> x \<in> set xs \<and> x \<noteq> y"
  by auto

end
