(* ===== verification/Go_Text.thy ===== *)
theory Go_Text
  imports Mesh_Prelude
begin

text \<open>
  The functions of Go's \<^verbatim>\<open>strings\<close>, \<^verbatim>\<open>strconv\<close>, \<^verbatim>\<open>encoding/hex\<close> and \<^verbatim>\<open>unicode/utf8\<close>
  packages that the sources call, on byte strings, with the facts about them that the
  component proofs use: what a split and a join give back, which concatenations are
  injective, and that decoding undoes encoding for every Unicode scalar value.
\<close>

section \<open>Package strings\<close>

definition hasPrefix :: "string \<Rightarrow> string \<Rightarrow> bool" where
  "hasPrefix s p \<longleftrightarrow> take (length p) s = p"

definition hasSuffix :: "string \<Rightarrow> string \<Rightarrow> bool" where
  "hasSuffix s p \<longleftrightarrow> length p \<le> length s \<and> drop (length s - length p) s = p"

definition trimPrefix :: "string \<Rightarrow> string \<Rightarrow> string" where
  "trimPrefix s p = (if hasPrefix s p then drop (length p) s else s)"

definition containsAny :: "string \<Rightarrow> string \<Rightarrow> bool" where
  "containsAny s cs \<longleftrightarrow> list_ex (\<lambda>c. List.member cs c) s"

definition containsChar :: "string \<Rightarrow> char \<Rightarrow> bool" where
  "containsChar s c \<longleftrightarrow> List.member s c"

text \<open>\<^verbatim>\<open>strings.Cut(s, sep)\<close> for a one-byte separator: what is before and after its first
  occurrence, and whether it occurs.\<close>

fun cut :: "char \<Rightarrow> string \<Rightarrow> string \<times> string \<times> bool" where
  "cut c [] = ([], [], False)"
| "cut c (x # xs) =
     (if x = c then ([], xs, True)
      else (case cut c xs of (a, b, ok) \<Rightarrow> (x # a, b, ok)))"

text \<open>\<^verbatim>\<open>strings.Split(s, sep)\<close> for a one-byte separator.\<close>

fun splitOn :: "char \<Rightarrow> string \<Rightarrow> string list" where
  "splitOn c [] = [[]]"
| "splitOn c (x # xs) =
     (if x = c then [] # splitOn c xs
      else (case splitOn c xs of [] \<Rightarrow> [[x]] | p # ps \<Rightarrow> (x # p) # ps))"

fun joinWith :: "string \<Rightarrow> string list \<Rightarrow> string" where
  "joinWith sep [] = []"
| "joinWith sep [x] = x"
| "joinWith sep (x # y # ys) = x @ sep @ joinWith sep (y # ys)"

definition repeatStr :: "string \<Rightarrow> nat \<Rightarrow> string" where
  "repeatStr s n = concat (replicate n s)"

text \<open>\<^verbatim>\<open>strings.LastIndexByte\<close>: the position of the last occurrence, if there is one.\<close>

fun lastIndexByte :: "string \<Rightarrow> char \<Rightarrow> nat option" where
  "lastIndexByte [] c = None"
| "lastIndexByte (x # xs) c =
     (case lastIndexByte xs c of
        Some i \<Rightarrow> Some (Suc i)
      | None \<Rightarrow> if x = c then Some 0 else None)"

definition byte :: "char \<Rightarrow> nat" where
  "byte c = of_char c"

definition asciiLower :: "char \<Rightarrow> char" where
  "asciiLower c = (if 65 \<le> byte c \<and> byte c \<le> 90 then char_of (byte c + 32) else c)"

definition asciiUpper :: "char \<Rightarrow> char" where
  "asciiUpper c = (if 97 \<le> byte c \<and> byte c \<le> 122 then char_of (byte c - 32) else c)"

text \<open>ASCII whitespace, as \<^verbatim>\<open>bytes.TrimSpace\<close> treats it.\<close>

definition isSpace :: "char \<Rightarrow> bool" where
  "isSpace c \<longleftrightarrow> byte c = 32 \<or> (9 \<le> byte c \<and> byte c \<le> 13)"

definition trimSpace :: "string \<Rightarrow> string" where
  "trimSpace s = rev (dropWhile isSpace (rev (dropWhile isSpace s)))"

definition isDigit :: "char \<Rightarrow> bool" where
  "isDigit c \<longleftrightarrow> 48 \<le> byte c \<and> byte c \<le> 57"

definition isLetter :: "char \<Rightarrow> bool" where
  "isLetter c \<longleftrightarrow> (65 \<le> byte c \<and> byte c \<le> 90) \<or> (97 \<le> byte c \<and> byte c \<le> 122)"

section \<open>Packages strconv and encoding/hex\<close>

fun natDigits :: "nat \<Rightarrow> string" where
  "natDigits n = (if n < 10 then [char_of (48 + n)] else natDigits (n div 10) @ [char_of (48 + n mod 10)])"

declare natDigits.simps [simp del]

definition itoa :: "int \<Rightarrow> string" where
  "itoa n = (if n < 0 then CHR ''-'' # natDigits (nat (- n)) else natDigits (nat n))"

definition hexDigit :: "nat \<Rightarrow> char" where
  "hexDigit n = (if n < 10 then char_of (48 + n) else char_of (87 + n))"

definition hexEncode :: "string \<Rightarrow> string" where
  "hexEncode s = concat (map (\<lambda>c. [hexDigit (byte c div 16), hexDigit (byte c mod 16)]) s)"

definition fromHexChar :: "char \<Rightarrow> nat option" where
  "fromHexChar c =
     (let n = byte c in
      if 48 \<le> n \<and> n \<le> 57 then Some (n - 48)
      else if 97 \<le> n \<and> n \<le> 102 then Some (n - 87)
      else if 65 \<le> n \<and> n \<le> 70 then Some (n - 55)
      else None)"

text \<open>\<^verbatim>\<open>hex.DecodeString\<close>; \<open>None\<close> is its error (an odd length or a byte that is no digit).\<close>

fun hexDecode :: "string \<Rightarrow> string option" where
  "hexDecode [] = Some []"
| "hexDecode [c] = None"
| "hexDecode (a # b # s) =
     (case (fromHexChar a, fromHexChar b, hexDecode s) of
        (Some x, Some y, Some r) \<Rightarrow> Some (char_of (16 * x + y) # r)
      | _ \<Rightarrow> None)"

section \<open>Package utf8\<close>

definition runeError :: nat where "runeError = 65533"

definition contByte :: "char \<Rightarrow> bool" where
  "contByte c \<longleftrightarrow> 128 \<le> byte c \<and> byte c \<le> 191"

text \<open>\<^verbatim>\<open>utf8.DecodeRune\<close>: the first rune and its width; an invalid or truncated sequence is
  \<open>runeError\<close> of width 1.\<close>

definition decodeRune :: "string \<Rightarrow> nat \<times> nat" where
  "decodeRune s = (case s of
      [] \<Rightarrow> (runeError, 0)
    | c0 # s1 \<Rightarrow>
      (let b0 = byte c0 in
       if b0 < 128 then (b0, 1)
       else if b0 < 194 \<or> 244 < b0 then (runeError, 1)
       else (case s1 of
           [] \<Rightarrow> (runeError, 1)
         | c1 # s2 \<Rightarrow>
           (let b1 = byte c1;
                lo = (if b0 = 224 then 160 else if b0 = 240 then 144 else 128);
                hi = (if b0 = 237 then 159 else if b0 = 244 then 143 else 191) in
            if b1 < lo \<or> hi < b1 then (runeError, 1)
            else if b0 < 224 then ((b0 - 192) * 64 + (b1 - 128), 2)
            else (case s2 of
                [] \<Rightarrow> (runeError, 1)
              | c2 # s3 \<Rightarrow>
                if \<not> contByte c2 then (runeError, 1)
                else if b0 < 240 then ((b0 - 224) * 4096 + (b1 - 128) * 64 + (byte c2 - 128), 3)
                else (case s3 of
                    [] \<Rightarrow> (runeError, 1)
                  | c3 # _ \<Rightarrow>
                    if \<not> contByte c3 then (runeError, 1)
                    else ((b0 - 240) * 262144 + (b1 - 128) * 4096 + (byte c2 - 128) * 64 + (byte c3 - 128), 4)))))))"

definition validRune :: "nat \<Rightarrow> bool" where
  "validRune r \<longleftrightarrow> r < 55296 \<or> (57343 < r \<and> r \<le> 1114111)"

text \<open>\<^verbatim>\<open>utf8.EncodeRune\<close>, which is what \<^verbatim>\<open>WriteRune\<close> writes.\<close>

definition encodeRune :: "nat \<Rightarrow> string" where
  "encodeRune r0 =
     (let r = (if validRune r0 then r0 else runeError) in
      if r < 128 then [char_of r]
      else if r < 2048 then [char_of (192 + r div 64), char_of (128 + r mod 64)]
      else if r < 65536 then
        [char_of (224 + r div 4096), char_of (128 + r div 64 mod 64), char_of (128 + r mod 64)]
      else
        [char_of (240 + r div 262144), char_of (128 + r div 4096 mod 64),
         char_of (128 + r div 64 mod 64), char_of (128 + r mod 64)])"

lemma decodeRune_width: "s \<noteq> [] \<Longrightarrow> 0 < snd (decodeRune s)"
  by (auto simp: decodeRune_def Let_def split: list.splits)

text \<open>The runes a \<^verbatim>\<open>for _, c := range s\<close> visits, each with its width.\<close>

function runesW :: "string \<Rightarrow> (nat \<times> nat) list" where
  "runesW s = (if s = [] then [] else decodeRune s # runesW (drop (snd (decodeRune s)) s))"
  by pat_completeness auto
termination
  by (relation "measure length") (use decodeRune_width in \<open>auto simp: Suc_le_eq diff_less\<close>)

declare runesW.simps [simp del]

definition runes :: "string \<Rightarrow> nat list" where
  "runes s = map fst (runesW s)"

section \<open>Facts\<close>

lemma byte_lt [simp]: "byte c < 256"
  using nat_of_char_less_256 [of c] by (simp add: byte_def)

lemma byte_char_of [simp]: "n < 256 \<Longrightarrow> byte (char_of n) = n"
  unfolding byte_def by (simp add: of_char_mod_256)

lemma char_of_byte [simp]: "char_of (byte c) = c"
  by (simp add: byte_def)

lemma byte_inj: "byte a = byte b \<Longrightarrow> a = b"
  by (metis char_of_byte)

lemma hasPrefix_append [simp]: "hasPrefix (p @ s) p"
  by (simp add: hasPrefix_def)

lemma hasPrefix_iff: "hasPrefix s p \<longleftrightarrow> (\<exists>t. s = p @ t)"
  by (metis append_eq_conv_conj append_take_drop_id hasPrefix_def)

lemma containsAny_iff: "containsAny s cs \<longleftrightarrow> (\<exists>c \<in> set s. c \<in> set cs)"
  by (auto simp: containsAny_def list_ex_iff)

lemma containsChar_iff: "containsChar s c \<longleftrightarrow> c \<in> set s"
  by (simp add: containsChar_def)

lemma cut_False: "c \<notin> set s \<Longrightarrow> cut c s = (s, [], False)"
  by (induction s) auto

lemma cut_append: "c \<notin> set a \<Longrightarrow> cut c (a @ c # b) = (a, b, True)"
  by (induction a) auto

lemma cut_True: "cut c s = (a, b, True) \<Longrightarrow> s = a @ c # b \<and> c \<notin> set a"
  by (induction s arbitrary: a b) (auto split: if_splits prod.splits)

lemma splitOn_nonempty [simp]: "splitOn c s \<noteq> []"
  by (induction s) (auto split: list.splits)

lemma join_splitOn: "joinWith [c] (splitOn c s) = s"
proof (induction s)
  case Nil
  show ?case by simp
next
  case (Cons x xs)
  obtain p ps where p: "splitOn c xs = p # ps"
    by (metis neq_Nil_conv splitOn_nonempty)
  show ?case
    by (cases ps) (use Cons p in auto)
qed

lemma splitOn_single: "c \<notin> set s \<Longrightarrow> splitOn c s = [s]"
  by (induction s) auto

lemma splitOn_append: "c \<notin> set a \<Longrightarrow> splitOn c (a @ c # b) = a # splitOn c b"
  by (induction a) auto

lemma splitOn_pieces: "p \<in> set (splitOn c s) \<Longrightarrow> c \<notin> set p"
  by (induction s arbitrary: p) (auto split: list.splits if_splits)

text \<open>A byte that does not occur in two left parts makes concatenation with it injective: the
  fact behind ACL rules \<open>service/method\<close> and the keys joined with NUL bytes.\<close>

lemma sep_append_inject:
  "c \<notin> set a \<Longrightarrow> c \<notin> set a' \<Longrightarrow> a @ c # b = a' @ c # b' \<longleftrightarrow> a = a' \<and> b = b'"
proof (induction a arbitrary: a')
  case Nil
  then show ?case by (cases a') auto
next
  case (Cons x xs)
  then show ?case by (cases a') auto
qed

lemma fromHexChar_hexDigit: "n < 16 \<Longrightarrow> fromHexChar (hexDigit n) = Some n"
  by (auto simp: fromHexChar_def hexDigit_def Let_def)

lemma hexDecode_hexEncode: "hexDecode (hexEncode s) = Some s"
proof (induction s)
  case Nil
  show ?case by (simp add: hexEncode_def)
next
  case (Cons c s)
  have "byte c div 16 < 16" using byte_lt [of c] by linarith
  then have "fromHexChar (hexDigit (byte c div 16)) = Some (byte c div 16)"
    and "fromHexChar (hexDigit (byte c mod 16)) = Some (byte c mod 16)"
    by (auto intro: fromHexChar_hexDigit)
  with Cons show ?case by (simp add: hexEncode_def)
qed

lemma length_hexEncode [simp]: "length (hexEncode s) = 2 * length s"
  by (induction s) (auto simp: hexEncode_def)

lemma natDigits_nonempty [simp]: "natDigits n \<noteq> []"
  by (subst natDigits.simps) simp

lemma natDigits_digits: "c \<in> set (natDigits n) \<Longrightarrow> isDigit c"
proof (induction n rule: natDigits.induct)
  case (1 n)
  show ?case
  proof (cases "n < 10")
    case True
    with "1.prems" show ?thesis by (subst (asm) natDigits.simps) (auto simp: isDigit_def)
  next
    case False
    with "1.prems" have "c \<in> set (natDigits (n div 10)) \<or> c = char_of (48 + n mod 10)"
      by (subst (asm) natDigits.simps) auto
    with "1.IH" False show ?thesis by (auto simp: isDigit_def)
  qed
qed

lemma split64:
  fixes r :: nat
  shows "r div 4096 * 4096 + r div 64 mod 64 * 64 + r mod 64 = r"
proof -
  have "r div 4096 = r div 64 div 64" by (simp add: div_mult2_eq [symmetric])
  moreover have "r div 64 div 64 * 64 + r div 64 mod 64 = r div 64" by simp
  moreover have "r div 64 * 64 + r mod 64 = r" by simp
  ultimately show ?thesis by linarith
qed

lemma split64_3:
  fixes r :: nat
  shows "r div 262144 * 262144 + r div 4096 mod 64 * 4096 + r div 64 mod 64 * 64 + r mod 64 = r"
proof -
  have "r div 262144 = r div 4096 div 64" by (simp add: div_mult2_eq [symmetric])
  moreover have "r div 4096 div 64 * 64 + r div 4096 mod 64 = r div 4096" by simp
  ultimately show ?thesis using split64 [of r] by linarith
qed

lemma split64_bounds:
  fixes r :: nat
  shows "r mod 64 < 64" "r div 64 mod 64 < 64" "r div 4096 mod 64 < 64"
  by simp_all

lemma decodeRune_encodeRune:
  assumes "validRune r"
  shows "decodeRune (encodeRune r @ s) = (r, length (encodeRune r))"
proof -
  consider "r < 128" | "128 \<le> r" "r < 2048" | "2048 \<le> r" "r < 65536" | "65536 \<le> r" "r \<le> 1114111"
    using assms unfolding validRune_def by linarith
  then show ?thesis
  proof cases
    case 1
    then show ?thesis using assms by (simp add: encodeRune_def decodeRune_def Let_def)
  next
    case 2
    then have "2 \<le> r div 64" "r div 64 < 32" by auto
    with 2 assms show ?thesis
      by (simp add: encodeRune_def decodeRune_def Let_def)
  next
    case 3
    have q: "r div 4096 < 16" using 3 by auto
    have lo: "r div 4096 = 0 \<Longrightarrow> 32 \<le> r div 64 mod 64"
      using 3 split64 [of r] by (auto simp: div_eq_0_iff)
    have hi: "r div 4096 = 13 \<Longrightarrow> r div 64 mod 64 < 32"
      using assms 3 split64 [of r] split64_bounds [of r] unfolding validRune_def by linarith
    from 3 assms q lo hi split64 [of r] show ?thesis
      by (auto simp: encodeRune_def decodeRune_def Let_def contByte_def)
  next
    case 4
    have q: "r div 262144 < 5" using 4 by auto
    have lo: "r div 262144 = 0 \<Longrightarrow> 16 \<le> r div 4096 mod 64"
      using 4 split64_3 [of r] split64_bounds [of r] by linarith
    have hi: "r div 262144 = 4 \<Longrightarrow> r div 4096 mod 64 < 16"
      using 4 split64_3 [of r] split64_bounds [of r] by linarith
    have b: "r div 64 mod 64 \<le> 63" "r mod 64 \<le> 63" "r div 4096 mod 64 \<le> 63"
      using split64_bounds [of r] by linarith+
    from 4 assms q lo hi b split64_3 [of r] show ?thesis
      by (auto simp: encodeRune_def decodeRune_def Let_def contByte_def)
  qed
qed

lemma encodeRune_nonempty [simp]: "encodeRune r \<noteq> []"
  by (auto simp: encodeRune_def Let_def)

lemma runesW_encodeRune:
  "validRune r \<Longrightarrow> runesW (encodeRune r @ s) = (r, length (encodeRune r)) # runesW s"
  by (subst runesW.simps) (simp add: decodeRune_encodeRune)

lemma runes_encode: "list_all validRune rs \<Longrightarrow> runes (concat (map encodeRune rs)) = rs"
proof (induction rs)
  case Nil
  show ?case by (simp add: runes_def runesW.simps)
next
  case (Cons r rs)
  then show ?case by (simp add: runes_def runesW_encodeRune)
qed

lemma runesW_ascii: "byte c < 128 \<Longrightarrow> runesW (c # s) = (byte c, 1) # runesW s"
  by (subst runesW.simps) (simp add: decodeRune_def Let_def)

lemma runesW_Nil [simp]: "runesW [] = []"
  by (simp add: runesW.simps)

end
