(* ===== verification/Json.thy ===== *)
theory Json
  imports Go_Text
begin

text \<open>
  JSON texts as Go's \<^verbatim>\<open>encoding/json\<close> reads and writes them.  The sources hand bytes to this
  package and get values or raw messages back, so the model works on bytes too: a scanner
  for one value (\<open>parseValue\<close>), the raw texts of an object's members and of an array's
  elements (what a \<^verbatim>\<open>json.RawMessage\<close> field receives), \<^verbatim>\<open>json.Valid\<close>, \<^verbatim>\<open>json.Compact\<close> and
  the string quoting of \<^verbatim>\<open>json.Marshal\<close>.
\<close>

datatype json =
    JNull
  | JBool bool
  | JNum string      \<comment> \<open>\<^verbatim>\<open>json.Number\<close>: the literal itself\<close>
  | JStr string
  | JArr "json list"
  | JObj "(string \<times> json) list"

abbreviation quoteChar :: char where "quoteChar \<equiv> CHR 0x22"
abbreviation backslash :: char where "backslash \<equiv> CHR 0x5C"

section \<open>Reading\<close>

definition jsonSpace :: "char \<Rightarrow> bool" where
  "jsonSpace c \<longleftrightarrow> byte c = 32 \<or> byte c = 9 \<or> byte c = 10 \<or> byte c = 13"

definition skipWs :: "string \<Rightarrow> string" where
  "skipWs s = dropWhile jsonSpace s"

definition hex4 :: "string \<Rightarrow> nat option" where
  "hex4 s = (case s of a # b # c # d # _ \<Rightarrow>
       (case (fromHexChar a, fromHexChar b, fromHexChar c, fromHexChar d) of
          (Some w, Some x, Some y, Some z) \<Rightarrow> Some (((w * 16 + x) * 16 + y) * 16 + z)
        | _ \<Rightarrow> None)
     | _ \<Rightarrow> None)"

definition isSurrogate :: "nat \<Rightarrow> bool" where
  "isSurrogate r \<longleftrightarrow> 55296 \<le> r \<and> r < 57344"

definition utf16Decode :: "nat \<Rightarrow> nat \<Rightarrow> nat" where
  "utf16Decode a b =
     (if 55296 \<le> a \<and> a < 56320 \<and> 56320 \<le> b \<and> b < 57344
      then (a - 55296) * 1024 + (b - 56320) + 65536 else runeError)"

definition simpleEscape :: "char \<Rightarrow> string option" where
  "simpleEscape c =
     (if c = quoteChar \<or> c = backslash \<or> c = CHR ''/'' then Some [c]
      else if c = CHR ''b'' then Some [char_of (8::nat)]
      else if c = CHR ''f'' then Some [char_of (12::nat)]
      else if c = CHR ''n'' then Some [char_of (10::nat)]
      else if c = CHR ''r'' then Some [char_of (13::nat)]
      else if c = CHR ''t'' then Some [char_of (9::nat)]
      else None)"

text \<open>One \<open>\\uXXXX\<close> escape (the text after the \<open>u\<close>): the bytes it stands for and what follows.
  A surrogate pair is one rune; a lone surrogate is replaced.\<close>

definition unicodeEscape :: "string \<Rightarrow> (string \<times> string) option" where
  "unicodeEscape s = (case hex4 s of
      None \<Rightarrow> None
    | Some r \<Rightarrow>
      (let rest = drop 4 s in
       if \<not> isSurrogate r then Some (encodeRune r, rest)
       else (case (take 2 rest = [backslash, CHR ''u''], hex4 (drop 2 rest)) of
           (True, Some r2) \<Rightarrow>
             if utf16Decode r r2 \<noteq> runeError then Some (encodeRune (utf16Decode r r2), drop 6 rest)
             else Some (encodeRune runeError, rest)
         | _ \<Rightarrow> Some (encodeRune runeError, rest))))"

text \<open>The body of a string literal after its opening quote.\<close>

function parseString :: "string \<Rightarrow> (string \<times> string) option" where
  "parseString s = (case s of
      [] \<Rightarrow> None
    | c # s1 \<Rightarrow>
      if c = quoteChar then Some ([], s1)
      else if c = backslash then
        (case s1 of
           [] \<Rightarrow> None
         | e # s2 \<Rightarrow>
           if e = CHR ''u'' then
             (case unicodeEscape s2 of
                None \<Rightarrow> None
              | Some (bs, s3) \<Rightarrow>
                if length s3 < length s then map_option (\<lambda>(t, r). (bs @ t, r)) (parseString s3) else None)
           else (case simpleEscape e of
                None \<Rightarrow> None
              | Some bs \<Rightarrow> map_option (\<lambda>(t, r). (bs @ t, r)) (parseString s2)))
      else if byte c < 32 then None
      else (case decodeRune s of (r, w) \<Rightarrow>
          map_option (\<lambda>(t, u). ((if w = 1 \<and> r = runeError then encodeRune runeError else take w s) @ t, u))
            (parseString (drop (max 1 w) s))))"
  by pat_completeness auto
termination
  by (relation "measure length") (auto split: prod.splits simp: max_def)

declare parseString.simps [simp del]

definition takeDigits :: "string \<Rightarrow> string" where
  "takeDigits s = takeWhile isDigit s"

text \<open>A number literal: \<^verbatim>\<open>-?(0|[1-9][0-9]*)(\.[0-9]+)?([eE][+-]?[0-9]+)?\<close>\<close>

definition parseNumber :: "string \<Rightarrow> (string \<times> string) option" where
  "parseNumber s =
     (let sign = (if take 1 s = ''-'' then ''-'' else []);
          s1 = drop (length sign) s;
          ip = (if take 1 s1 = ''0'' then ''0'' else takeDigits s1);
          s2 = drop (length ip) s1 in
      if ip = [] then None
      else
        (let fd = takeDigits (drop 1 s2);
             hasFrac = (take 1 s2 = ''.'');
             frac = (if hasFrac then CHR ''.'' # fd else []);
             s3 = drop (length frac) s2 in
         if hasFrac \<and> fd = [] then None
         else
           (let hasExp = (take 1 s3 = ''e'' \<or> take 1 s3 = ''E'');
                s4 = drop 1 s3;
                es = (if take 1 s4 = ''+'' \<or> take 1 s4 = ''-'' then take 1 s4 else []);
                ed = takeDigits (drop (length es) s4);
                ex = (if hasExp then take 1 s3 @ es @ ed else []) in
            if hasExp \<and> ed = [] then None
            else Some (sign @ ip @ frac @ ex, drop (length ex) s3))))"

text \<open>\<open>parseValue n s\<close> reads one value from \<open>s\<close>; \<open>n\<close> bounds the recursion (the length of the
  text is always enough, \<open>parseJson\<close> below).  \<open>parseElems\<close> and \<open>parseMembers\<close> read the rest of
  an array or object after a first element or member is known to follow, and keep each
  value's raw text.\<close>

fun parseValue :: "nat \<Rightarrow> string \<Rightarrow> (json \<times> string) option"
and parseElems :: "nat \<Rightarrow> string \<Rightarrow> ((string \<times> json) list \<times> string) option"
and parseMembers :: "nat \<Rightarrow> string \<Rightarrow> ((string \<times> string \<times> json) list \<times> string) option" where
  "parseValue 0 s = None"
| "parseValue (Suc n) s0 =
     (case skipWs s0 of
        [] \<Rightarrow> None
      | c # s \<Rightarrow>
        if c = quoteChar then map_option (\<lambda>(t, r). (JStr t, r)) (parseString s)
        else if c = CHR ''{'' then
          (if take 1 (skipWs s) = ''}'' then Some (JObj [], drop 1 (skipWs s))
           else map_option (\<lambda>(ms, r). (JObj (map (\<lambda>(k, t, v). (k, v)) ms), r)) (parseMembers n s))
        else if c = CHR ''['' then
          (if take 1 (skipWs s) = '']'' then Some (JArr [], drop 1 (skipWs s))
           else map_option (\<lambda>(vs, r). (JArr (map snd vs), r)) (parseElems n s))
        else if take 4 (c # s) = ''null'' then Some (JNull, drop 4 (c # s))
        else if take 4 (c # s) = ''true'' then Some (JBool True, drop 4 (c # s))
        else if take 5 (c # s) = ''false'' then Some (JBool False, drop 5 (c # s))
        else map_option (\<lambda>(t, r). (JNum t, r)) (parseNumber (c # s)))"
| "parseElems 0 s = None"
| "parseElems (Suc n) s0 =
     (let s = skipWs s0 in
      case parseValue n s of
        None \<Rightarrow> None
      | Some (v, r) \<Rightarrow>
        (let e = (take (length s - length r) s, v) in
         case skipWs r of
           [] \<Rightarrow> None
         | c # r1 \<Rightarrow>
           if c = CHR '']'' then Some ([e], r1)
           else if c = CHR '','' then map_option (\<lambda>(es, r2). (e # es, r2)) (parseElems n r1)
           else None))"
| "parseMembers 0 s = None"
| "parseMembers (Suc n) s0 =
     (case skipWs s0 of
        [] \<Rightarrow> None
      | q # s1 \<Rightarrow>
        if q \<noteq> quoteChar then None
        else (case parseString s1 of
            None \<Rightarrow> None
          | Some (k, s2) \<Rightarrow>
            (case skipWs s2 of
               [] \<Rightarrow> None
             | col # s3 \<Rightarrow>
               if col \<noteq> CHR '':'' then None
               else
                 (let s = skipWs s3 in
                  case parseValue n s of
                    None \<Rightarrow> None
                  | Some (v, r) \<Rightarrow>
                    (let m = (k, take (length s - length r) s, v) in
                     case skipWs r of
                       [] \<Rightarrow> None
                     | c # r1 \<Rightarrow>
                       if c = CHR ''}'' then Some ([m], r1)
                       else if c = CHR '','' then map_option (\<lambda>(ms, r2). (m # ms, r2)) (parseMembers n r1)
                       else None)))))"

definition parseJson :: "string \<Rightarrow> (json \<times> string) option" where
  "parseJson s = parseValue (Suc (length s)) s"

text \<open>\<^verbatim>\<open>json.Unmarshal\<close> into an untyped value, and \<^verbatim>\<open>json.Valid\<close>: one value and nothing but
  white space after it.\<close>

definition unmarshalAny :: "string \<Rightarrow> json option" where
  "unmarshalAny s = (case parseJson s of
      Some (v, r) \<Rightarrow> if skipWs r = [] then Some v else None
    | None \<Rightarrow> None)"

definition jsonValid :: "string \<Rightarrow> bool" where
  "jsonValid s \<longleftrightarrow> unmarshalAny s \<noteq> None"

text \<open>The members of an object text and the elements of an array text, each with its raw bytes.\<close>

definition rawMembers :: "string \<Rightarrow> (string \<times> string \<times> json) list option" where
  "rawMembers s0 = (case skipWs s0 of
      c # s \<Rightarrow>
        if c \<noteq> CHR ''{'' then None
        else if take 1 (skipWs s) = ''}'' then Some []
        else map_option fst (parseMembers (Suc (length s)) s)
    | [] \<Rightarrow> None)"

definition rawElems :: "string \<Rightarrow> (string \<times> json) list option" where
  "rawElems s0 = (case skipWs s0 of
      c # s \<Rightarrow>
        if c \<noteq> CHR ''['' then None
        else if take 1 (skipWs s) = '']'' then Some []
        else map_option fst (parseElems (Suc (length s)) s)
    | [] \<Rightarrow> None)"

section \<open>Writing\<close>

definition u4 :: "nat \<Rightarrow> string" where
  "u4 n = [backslash, CHR ''u'', hexDigit (n div 4096 mod 16), hexDigit (n div 256 mod 16),
           hexDigit (n div 16 mod 16), hexDigit (n mod 16)]"

text \<open>What \<^verbatim>\<open>json.Marshal\<close> writes for one ASCII byte of a string (HTML escaping is on).\<close>

definition quoteAscii :: "char \<Rightarrow> string" where
  "quoteAscii c =
     (if c = quoteChar \<or> c = backslash then [backslash, c]
      else if byte c = 8 then [backslash, CHR ''b'']
      else if byte c = 12 then [backslash, CHR ''f'']
      else if byte c = 10 then [backslash, CHR ''n'']
      else if byte c = 13 then [backslash, CHR ''r'']
      else if byte c = 9 then [backslash, CHR ''t'']
      else if byte c < 32 \<or> c = CHR ''<'' \<or> c = CHR ''>'' \<or> c = CHR ''&'' then u4 (byte c)
      else [c])"

function quoteBody :: "string \<Rightarrow> string" where
  "quoteBody s = (case s of
      [] \<Rightarrow> []
    | c # _ \<Rightarrow>
      (case decodeRune s of (r, w) \<Rightarrow>
        (if byte c < 128 then quoteAscii c
         else if r = runeError \<and> w = 1 then u4 runeError
         else if r = 8232 \<or> r = 8233 then u4 r
         else take w s)
        @ quoteBody (drop (max 1 w) s)))"
  by pat_completeness auto
termination
  by (relation "measure length") (auto simp: max_def)

declare quoteBody.simps [simp del]

definition jsonQuote :: "string \<Rightarrow> string" where
  "jsonQuote s = quoteChar # quoteBody s @ [quoteChar]"

text \<open>\<^verbatim>\<open>json.Marshal\<close> of a \<^verbatim>\<open>map[string]string\<close>: the keys sorted.\<close>

definition marshalStringMap :: "(string, string) gomap \<Rightarrow> string" where
  "marshalStringMap m =
     ''{'' @ joinWith '','' (map (\<lambda>k. jsonQuote k @ '':'' @ jsonQuote (the (map_of m k))) (sort (map_keys m))) @ ''}''"

text \<open>\<^verbatim>\<open>json.Compact\<close>, and with \<open>esc\<close> the form \<^verbatim>\<open>json.Marshal\<close> gives a \<^verbatim>\<open>RawMessage\<close>: white space
  outside strings is dropped; inside strings the HTML characters and U+2028/U+2029 are
  escaped when \<open>esc\<close>.  The first flag says whether the scan is inside a string, the second
  whether the previous byte was a backslash there.\<close>

fun compactFrom :: "bool \<Rightarrow> bool \<Rightarrow> bool \<Rightarrow> string \<Rightarrow> string" where
  "compactFrom esc inStr bs [] = []"
| "compactFrom esc inStr bs (c # s) =
     (if \<not> inStr then
        (if jsonSpace c then compactFrom esc False False s
         else c # compactFrom esc (c = quoteChar) False s)
      else if esc \<and> (c = CHR ''<'' \<or> c = CHR ''>'' \<or> c = CHR ''&'') then
        u4 (byte c) @ compactFrom esc True False s
      else if esc \<and> byte c = 226 \<and> length s \<ge> 2 \<and> byte (s ! 0) = 128 \<and> byte (s ! 1) div 2 = 84 then
        u4 (8192 + 32 + byte (s ! 1) mod 16) @ compactFrom esc True False (drop 2 s)
      else if bs then c # compactFrom esc True False s
      else if c = backslash then c # compactFrom esc True True s
      else c # compactFrom esc (c \<noteq> quoteChar) False s)"

definition compactRaw :: "string \<Rightarrow> string" where
  "compactRaw s = compactFrom True False False s"

definition compactPlain :: "string \<Rightarrow> string" where
  "compactPlain s = compactFrom False False False s"

section \<open>Facts\<close>

lemma skipWs_nonspace [simp]: "\<not> jsonSpace c \<Longrightarrow> skipWs (c # s) = c # s"
  by (simp add: skipWs_def)

lemma quoteBody_Nil [simp]: "quoteBody [] = []"
  by (simp add: quoteBody.simps)

lemma quoteBody_ascii: "byte c < 128 \<Longrightarrow> quoteBody (c # s) = quoteAscii c @ quoteBody s"
  by (subst quoteBody.simps) (simp add: decodeRune_def Let_def)

lemma quoteBody_rune:
  assumes "validRune r" "128 \<le> r"
  shows "quoteBody (encodeRune r @ s) = (if r = 8232 \<or> r = 8233 then u4 r else encodeRune r) @ quoteBody s"
proof -
  obtain c t where ct: "encodeRune r = c # t"
    by (metis encodeRune_nonempty neq_Nil_conv)
  from assms ct have c: "\<not> byte c < 128"
    by (auto simp: encodeRune_def Let_def validRune_def split: if_splits)
  from assms ct have w: "length t > 0"
    by (auto simp: encodeRune_def Let_def validRune_def split: if_splits)
  have d: "decodeRune (c # t @ s) = (r, Suc (length t))"
    using decodeRune_encodeRune [OF assms(1), of s] ct by simp
  show ?thesis
    unfolding ct append_Cons
    by (subst quoteBody.simps) (use c w d in simp)
qed

end
