(* ===== verification/Protocol.thy ===== *)
theory Protocol
  imports Json
begin

text \<open>
  The wire protocol of the Router (\<^verbatim>\<open>meshcall-router/internal/router/protocol.go\<close>): the frame
  record, the decoder with every check it makes, the encoder for frames the Router builds
  itself, and the constructors of Router-made error frames.  Decoding follows
  \<^verbatim>\<open>encoding/json\<close>: unknown fields are ignored, keys match case-insensitively, a field of the
  wrong type is remembered as an error while the other fields are still filled in (which is
  what lets the Router attribute a malformed frame to its call).
\<close>

section \<open>Data\<close>

record balance =
  bKind :: string
  bKey :: "string option"

record meth =
  mName :: string
  mStream :: string
  mBalance :: balance

record service =
  sName :: string
  sMethods :: "meth list"
  sTargeted :: bool
  sContract :: "string option"

record errorPayload =
  eCode :: string
  eMessage :: string
  eRetryable :: bool
  eDetails :: "string option"

record frame =
  fKind :: string
  fCallID :: string
  fProtocol :: string
  fRole :: string
  fPeerID :: string
  fCapabilities :: "string list"
  fConnection :: string
  fInstanceID :: string
  fServices :: "service list option"
  fMaxInflight :: int
  fService :: string
  fMethod :: string
  fPayload :: "string option"
  fTimeoutMS :: "int option"
  fIdempotency :: string
  fIdleTimeout :: "int option"
  fMetadata :: "string option"
  fError :: "errorPayload option"
  fReason :: string
  fDirection :: string
  fSequence :: "int option"
  fCredit :: "int option"
  fNonce :: string
  fraw :: "string option"

definition ProtocolName :: string where "ProtocolName = ''meshcall/1''"

definition zeroFrame :: frame where
  "zeroFrame = \<lparr>fKind = [], fCallID = [], fProtocol = [], fRole = [], fPeerID = [], fCapabilities = [],
     fConnection = [], fInstanceID = [], fServices = None, fMaxInflight = 0, fService = [], fMethod = [],
     fPayload = None, fTimeoutMS = None, fIdempotency = [], fIdleTimeout = None, fMetadata = None,
     fError = None, fReason = [], fDirection = [], fSequence = None, fCredit = None, fNonce = [], fraw = None\<rparr>"

section \<open>Decoding a struct\<close>

text \<open>Case folding of field names: ASCII letters, and the two non-ASCII runes that fold to one
  (U+017F to \<open>s\<close>, U+212A to \<open>k\<close>).\<close>

fun foldName :: "string \<Rightarrow> string" where
  "foldName [] = []"
| "foldName (c # s) =
     (if byte c = 197 \<and> s \<noteq> [] \<and> byte (hd s) = 191 then CHR ''s'' # foldName (drop 1 s)
      else if byte c = 226 \<and> length s \<ge> 2 \<and> byte (s ! 0) = 132 \<and> byte (s ! 1) = 170 then CHR ''k'' # foldName (drop 2 s)
      else asciiLower c # foldName s)"

type_synonym 'a setter = "string \<Rightarrow> json \<Rightarrow> 'a \<Rightarrow> 'a \<times> bool"

fun findField :: "(string \<times> 'a setter) list \<Rightarrow> string \<Rightarrow> 'a setter option" where
  "findField [] k = None"
| "findField ((n, st) # fs) k = (if foldName k = foldName n then Some st else findField fs k)"

fun decodeStruct :: "(string \<times> 'a setter) list \<Rightarrow> (string \<times> string \<times> json) list \<Rightarrow> 'a \<Rightarrow> 'a \<times> bool" where
  "decodeStruct fs [] x = (x, True)"
| "decodeStruct fs ((k, raw, v) # ms) x =
     (case findField fs k of
        None \<Rightarrow> decodeStruct fs ms x
      | Some st \<Rightarrow> (case st raw v x of (x', ok) \<Rightarrow>
          (case decodeStruct fs ms x' of (y, ok') \<Rightarrow> (y, ok \<and> ok'))))"

definition strVal :: "json \<Rightarrow> string \<Rightarrow> string \<times> bool" where
  "strVal v old = (case v of JStr s \<Rightarrow> (s, True) | JNull \<Rightarrow> (old, True) | _ \<Rightarrow> (old, False))"

definition boolVal :: "json \<Rightarrow> bool \<Rightarrow> bool \<times> bool" where
  "boolVal v old = (case v of JBool b \<Rightarrow> (b, True) | JNull \<Rightarrow> (old, True) | _ \<Rightarrow> (old, False))"

text \<open>\<^verbatim>\<open>strconv.ParseInt\<close> of a number literal, base 10, 64 bits.\<close>

definition digitsVal :: "string \<Rightarrow> int" where
  "digitsVal s = foldl (\<lambda>a c. a * 10 + (int (byte c) - 48)) 0 s"

definition parseInt64 :: "string \<Rightarrow> int option" where
  "parseInt64 s =
     (let neg = (take 1 s = ''-''); ds = (if neg then drop 1 s else s);
          v = (if neg then - digitsVal ds else digitsVal ds) in
      if ds \<noteq> [] \<and> list_all isDigit ds \<and> - maxInt64 - 1 \<le> v \<and> v \<le> maxInt64 then Some v else None)"

definition intVal :: "json \<Rightarrow> int \<Rightarrow> int \<times> bool" where
  "intVal v old = (case v of
      JNum t \<Rightarrow> (case parseInt64 t of Some i \<Rightarrow> (i, True) | None \<Rightarrow> (old, False))
    | JNull \<Rightarrow> (old, True) | _ \<Rightarrow> (old, False))"

definition optIntVal :: "json \<Rightarrow> int option \<Rightarrow> int option \<times> bool" where
  "optIntVal v old = (case v of
      JNull \<Rightarrow> (None, True)
    | _ \<Rightarrow> (case intVal v (case old of Some i \<Rightarrow> i | None \<Rightarrow> 0) of (i, ok) \<Rightarrow> (Some i, ok)))"

definition optStrVal :: "json \<Rightarrow> string option \<Rightarrow> string option \<times> bool" where
  "optStrVal v old = (case v of
      JNull \<Rightarrow> (None, True)
    | _ \<Rightarrow> (case strVal v (case old of Some s \<Rightarrow> s | None \<Rightarrow> []) of (s, ok) \<Rightarrow> (Some s, ok)))"

text \<open>A slice field: \<open>null\<close> is the nil slice, an array decodes element by element, anything else
  is a type error.\<close>

definition sliceVal :: "(string \<Rightarrow> json \<Rightarrow> 'a \<times> bool) \<Rightarrow> string \<Rightarrow> json \<Rightarrow> 'a list option \<Rightarrow> 'a list option \<times> bool" where
  "sliceVal el raw v old = (case v of
      JNull \<Rightarrow> (None, True)
    | JArr _ \<Rightarrow>
        (let rs = map (\<lambda>(r, w). el r w) (case rawElems raw of Some es \<Rightarrow> es | None \<Rightarrow> []) in
         (Some (map fst rs), list_all snd rs))
    | _ \<Rightarrow> (old, False))"

definition structVal :: "(string \<times> 'a setter) list \<Rightarrow> string \<Rightarrow> json \<Rightarrow> 'a \<Rightarrow> 'a \<times> bool" where
  "structVal fs raw v old = (case v of
      JNull \<Rightarrow> (old, True)
    | JObj _ \<Rightarrow> decodeStruct fs (case rawMembers raw of Some ms \<Rightarrow> ms | None \<Rightarrow> []) old
    | _ \<Rightarrow> (old, False))"

definition zeroBalance :: balance where "zeroBalance = \<lparr>bKind = [], bKey = None\<rparr>"
definition zeroMethod :: meth where "zeroMethod = \<lparr>mName = [], mStream = [], mBalance = zeroBalance\<rparr>"
definition zeroService :: service where
  "zeroService = \<lparr>sName = [], sMethods = [], sTargeted = False, sContract = None\<rparr>"
definition zeroError :: errorPayload where
  "zeroError = \<lparr>eCode = [], eMessage = [], eRetryable = False, eDetails = None\<rparr>"

definition balanceFields :: "(string \<times> balance setter) list" where
  "balanceFields =
    [(''kind'', \<lambda>raw v x. map_prod (\<lambda>y. x\<lparr>bKind := y\<rparr>) id (strVal v (bKind x))),
     (''key'', \<lambda>raw v x. map_prod (\<lambda>y. x\<lparr>bKey := y\<rparr>) id (optStrVal v (bKey x)))]"

definition methodFields :: "(string \<times> meth setter) list" where
  "methodFields =
    [(''name'', \<lambda>raw v x. map_prod (\<lambda>y. x\<lparr>mName := y\<rparr>) id (strVal v (mName x))),
     (''stream'', \<lambda>raw v x. map_prod (\<lambda>y. x\<lparr>mStream := y\<rparr>) id (strVal v (mStream x))),
     (''balance'', \<lambda>raw v x. map_prod (\<lambda>y. x\<lparr>mBalance := y\<rparr>) id (structVal balanceFields raw v (mBalance x)))]"

definition serviceFields :: "(string \<times> service setter) list" where
  "serviceFields =
    [(''name'', \<lambda>raw v x. map_prod (\<lambda>y. x\<lparr>sName := y\<rparr>) id (strVal v (sName x))),
     (''methods'', \<lambda>raw v x. map_prod (\<lambda>y. x\<lparr>sMethods := case_option [] id y\<rparr>) id
        (sliceVal (\<lambda>r w. structVal methodFields r w zeroMethod) raw v (Some (sMethods x)))),
     (''targeted'', \<lambda>raw v x. map_prod (\<lambda>y. x\<lparr>sTargeted := y\<rparr>) id (boolVal v (sTargeted x))),
     (''contract'', \<lambda>raw v x. (x\<lparr>sContract := Some raw\<rparr>, True))]"

definition errorFields :: "(string \<times> errorPayload setter) list" where
  "errorFields =
    [(''code'', \<lambda>raw v x. map_prod (\<lambda>y. x\<lparr>eCode := y\<rparr>) id (strVal v (eCode x))),
     (''message'', \<lambda>raw v x. map_prod (\<lambda>y. x\<lparr>eMessage := y\<rparr>) id (strVal v (eMessage x))),
     (''retryable'', \<lambda>raw v x. map_prod (\<lambda>y. x\<lparr>eRetryable := y\<rparr>) id (boolVal v (eRetryable x))),
     (''details'', \<lambda>raw v x. (x\<lparr>eDetails := Some raw\<rparr>, True))]"

definition errorPtr :: "string \<Rightarrow> json \<Rightarrow> errorPayload option \<Rightarrow> errorPayload option \<times> bool" where
  "errorPtr raw v old = (case v of
      JNull \<Rightarrow> (None, True)
    | _ \<Rightarrow> map_prod Some id (structVal errorFields raw v (case old of Some e \<Rightarrow> e | None \<Rightarrow> zeroError)))"

definition frameFields :: "(string \<times> frame setter) list" where
  "frameFields =
    [(''kind'', \<lambda>raw v x. map_prod (\<lambda>y. x\<lparr>fKind := y\<rparr>) id (strVal v (fKind x))),
     (''call_id'', \<lambda>raw v x. map_prod (\<lambda>y. x\<lparr>fCallID := y\<rparr>) id (strVal v (fCallID x))),
     (''protocol'', \<lambda>raw v x. map_prod (\<lambda>y. x\<lparr>fProtocol := y\<rparr>) id (strVal v (fProtocol x))),
     (''role'', \<lambda>raw v x. map_prod (\<lambda>y. x\<lparr>fRole := y\<rparr>) id (strVal v (fRole x))),
     (''peer_id'', \<lambda>raw v x. map_prod (\<lambda>y. x\<lparr>fPeerID := y\<rparr>) id (strVal v (fPeerID x))),
     (''capabilities'', \<lambda>raw v x. map_prod (\<lambda>y. x\<lparr>fCapabilities := case_option [] id y\<rparr>) id
        (sliceVal (\<lambda>r w. strVal w []) raw v (Some (fCapabilities x)))),
     (''connection_id'', \<lambda>raw v x. map_prod (\<lambda>y. x\<lparr>fConnection := y\<rparr>) id (strVal v (fConnection x))),
     (''instance_id'', \<lambda>raw v x. map_prod (\<lambda>y. x\<lparr>fInstanceID := y\<rparr>) id (strVal v (fInstanceID x))),
     (''services'', \<lambda>raw v x. map_prod (\<lambda>y. x\<lparr>fServices := y\<rparr>) id
        (sliceVal (\<lambda>r w. structVal serviceFields r w zeroService) raw v (fServices x))),
     (''max_inflight'', \<lambda>raw v x. map_prod (\<lambda>y. x\<lparr>fMaxInflight := y\<rparr>) id (intVal v (fMaxInflight x))),
     (''service'', \<lambda>raw v x. map_prod (\<lambda>y. x\<lparr>fService := y\<rparr>) id (strVal v (fService x))),
     (''method'', \<lambda>raw v x. map_prod (\<lambda>y. x\<lparr>fMethod := y\<rparr>) id (strVal v (fMethod x))),
     (''payload'', \<lambda>raw v x. (x\<lparr>fPayload := Some raw\<rparr>, True)),
     (''timeout_ms'', \<lambda>raw v x. map_prod (\<lambda>y. x\<lparr>fTimeoutMS := y\<rparr>) id (optIntVal v (fTimeoutMS x))),
     (''idempotency_key'', \<lambda>raw v x. map_prod (\<lambda>y. x\<lparr>fIdempotency := y\<rparr>) id (strVal v (fIdempotency x))),
     (''idle_timeout_ms'', \<lambda>raw v x. map_prod (\<lambda>y. x\<lparr>fIdleTimeout := y\<rparr>) id (optIntVal v (fIdleTimeout x))),
     (''metadata'', \<lambda>raw v x. (x\<lparr>fMetadata := Some raw\<rparr>, True)),
     (''error'', \<lambda>raw v x. map_prod (\<lambda>y. x\<lparr>fError := y\<rparr>) id (errorPtr raw v (fError x))),
     (''reason'', \<lambda>raw v x. map_prod (\<lambda>y. x\<lparr>fReason := y\<rparr>) id (strVal v (fReason x))),
     (''direction'', \<lambda>raw v x. map_prod (\<lambda>y. x\<lparr>fDirection := y\<rparr>) id (strVal v (fDirection x))),
     (''sequence'', \<lambda>raw v x. map_prod (\<lambda>y. x\<lparr>fSequence := y\<rparr>) id (optIntVal v (fSequence x))),
     (''credit'', \<lambda>raw v x. map_prod (\<lambda>y. x\<lparr>fCredit := y\<rparr>) id (optIntVal v (fCredit x))),
     (''nonce'', \<lambda>raw v x. map_prod (\<lambda>y. x\<lparr>fNonce := y\<rparr>) id (strVal v (fNonce x)))]"

section \<open>decode\<close>

datatype decodeError =
    InvalidFrame | ExpectedOneFrame | InvalidHello | InvalidRegistration | InvalidCallOpen
  | TimeoutsMustBePositive | IdempotencyTooLong | InvalidMetadata | InvalidCallError
  | InvalidStreamDirection | InvalidStreamItem | InvalidStreamCredit | MissingNonce
  | UnexpectedKind string | MissingCallID

text \<open>\<^verbatim>\<open>validMetadata\<close>: absent, or an object whose values are all strings (or null) with non-empty
  keys; \<open>null\<close> is the empty map.\<close>

definition validMetadata :: "string option \<Rightarrow> bool" where
  "validMetadata raw = (case raw of
      None \<Rightarrow> True
    | Some s \<Rightarrow> (case unmarshalAny s of
        Some JNull \<Rightarrow> True
      | Some (JObj ms) \<Rightarrow> list_all (\<lambda>(k, v). (case v of JStr _ \<Rightarrow> True | JNull \<Rightarrow> True | _ \<Rightarrow> False) \<and> k \<noteq> []) ms
      | _ \<Rightarrow> False))"

text \<open>The nonce of a ping or pong must be given as a string, however its key is spelled exactly
  \<open>nonce\<close>: the raw text of the last such member starts with a quote.\<close>

definition nonceGiven :: "string \<Rightarrow> bool" where
  "nonceGiven data = (case rawMembers data of
      None \<Rightarrow> False
    | Some ms \<Rightarrow> (case map_of (rev (map (\<lambda>(k, raw, v). (k, raw)) ms)) ''nonce'' of
        Some raw \<Rightarrow> take 1 raw = [quoteChar]
      | None \<Rightarrow> False))"

definition callKinds :: "string list" where
  "callKinds = [''call.open'', ''call.result'', ''call.error'', ''call.cancel'', ''stream.item'', ''stream.end'', ''stream.window'']"

definition checkFrame :: "string \<Rightarrow> frame \<Rightarrow> decodeError option" where
  "checkFrame data f =
     (if fKind f = ''hello'' then
        (if fProtocol f \<noteq> ProtocolName \<or> (fRole f \<noteq> ''client'' \<and> fRole f \<noteq> ''server'') \<or> fPeerID f = []
         then Some InvalidHello else None)
      else if fKind f = ''server.register'' then
        (if fInstanceID f = [] \<or> fServices f = None \<or> fMaxInflight f < 0 then Some InvalidRegistration else None)
      else if fKind f = ''call.open'' then
        (if fService f = [] \<or> fMethod f = [] \<or> fPayload f = None then Some InvalidCallOpen
         else if (\<exists>t \<in> set_option (fTimeoutMS f). t \<le> 0) \<or> (\<exists>t \<in> set_option (fIdleTimeout f). t \<le> 0)
           then Some TimeoutsMustBePositive
         else if length (fIdempotency f) > 128 then Some IdempotencyTooLong
         else if \<not> validMetadata (fMetadata f) then Some InvalidMetadata
         else None)
      else if fKind f = ''call.result'' then
        (if \<not> validMetadata (fMetadata f) then Some InvalidMetadata else None)
      else if fKind f = ''call.error'' then
        (if (case fError f of None \<Rightarrow> True | Some e \<Rightarrow> eCode e = []) \<or> \<not> validMetadata (fMetadata f)
         then Some InvalidCallError else None)
      else if fKind f = ''stream.item'' \<or> fKind f = ''stream.end'' \<or> fKind f = ''stream.window'' then
        (if fDirection f \<noteq> ''client'' \<and> fDirection f \<noteq> ''server'' then Some InvalidStreamDirection
         else if fKind f = ''stream.item'' \<and>
             (case fSequence f of None \<Rightarrow> True | Some n \<Rightarrow> n < 0 \<or> fPayload f = None)
           then Some InvalidStreamItem
         else if fKind f = ''stream.window'' \<and> (case fCredit f of None \<Rightarrow> True | Some n \<Rightarrow> n \<le> 0)
           then Some InvalidStreamCredit
         else None)
      else if fKind f = ''ping'' \<or> fKind f = ''pong'' then
        (if nonceGiven data then None else Some MissingNonce)
      else if fKind f = ''call.cancel'' \<or> fKind f = ''server.drain'' \<or> fKind f = ''server.drain.ack'' then None
      else Some (UnexpectedKind (fKind f)))"

definition decode :: "string \<Rightarrow> frame \<times> decodeError option" where
  "decode data = (case parseJson data of
      None \<Rightarrow> (zeroFrame, Some InvalidFrame)
    | Some (v, rest) \<Rightarrow>
      (case structVal frameFields data v zeroFrame of (f, ok) \<Rightarrow>
         if \<not> ok then (f, Some InvalidFrame)
         else if skipWs rest \<noteq> [] then (f, Some ExpectedOneFrame)
         else (case checkFrame data f of
             Some e \<Rightarrow> (f, Some e)
           | None \<Rightarrow>
             if List.member callKinds (fKind f) \<and> fCallID f = [] then (f, Some MissingCallID)
             else (f\<lparr>fraw := Some data\<rparr>, None))))"

section \<open>Encoding\<close>

text \<open>The object \<^verbatim>\<open>json.Marshal\<close> writes: the members whose text is given, in field order.\<close>

definition marshalObject :: "(string \<times> string option) list \<Rightarrow> string" where
  "marshalObject ms =
     ''{'' @ joinWith '','' (concat (map (\<lambda>(k, t). case t of None \<Rightarrow> [] | Some x \<Rightarrow> [jsonQuote k @ '':'' @ x]) ms)) @ ''}''"

definition omitStr :: "string \<Rightarrow> string option" where
  "omitStr s = (if s = [] then None else Some (jsonQuote s))"

definition omitRaw :: "string option \<Rightarrow> string option" where
  "omitRaw r = (case r of None \<Rightarrow> None | Some [] \<Rightarrow> None | Some s \<Rightarrow> Some (compactRaw s))"

definition marshalArray :: "string list \<Rightarrow> string" where
  "marshalArray xs = ''['' @ joinWith '','' xs @ '']''"

definition marshalBalance :: "balance \<Rightarrow> string" where
  "marshalBalance b = marshalObject [(''kind'', Some (jsonQuote (bKind b))), (''key'', map_option jsonQuote (bKey b))]"

definition marshalMethod :: "meth \<Rightarrow> string" where
  "marshalMethod m = marshalObject
     [(''name'', Some (jsonQuote (mName m))), (''stream'', Some (jsonQuote (mStream m))),
      (''balance'', Some (marshalBalance (mBalance m)))]"

definition marshalService :: "service \<Rightarrow> string" where
  "marshalService s = marshalObject
     [(''name'', Some (jsonQuote (sName s))), (''methods'', Some (marshalArray (map marshalMethod (sMethods s)))),
      (''targeted'', if sTargeted s then Some ''true'' else None), (''contract'', omitRaw (sContract s))]"

definition marshalError :: "errorPayload \<Rightarrow> string" where
  "marshalError e = marshalObject
     [(''code'', Some (jsonQuote (eCode e))), (''message'', Some (jsonQuote (eMessage e))),
      (''retryable'', Some (if eRetryable e then ''true'' else ''false'')), (''details'', omitRaw (eDetails e))]"

definition marshalFrame :: "frame \<Rightarrow> string" where
  "marshalFrame f = marshalObject
     [(''kind'', Some (jsonQuote (fKind f))), (''call_id'', omitStr (fCallID f)), (''protocol'', omitStr (fProtocol f)),
      (''role'', omitStr (fRole f)), (''peer_id'', omitStr (fPeerID f)),
      (''capabilities'', if fCapabilities f = [] then None else Some (marshalArray (map jsonQuote (fCapabilities f)))),
      (''connection_id'', omitStr (fConnection f)), (''instance_id'', omitStr (fInstanceID f)),
      (''services'', case fServices f of None \<Rightarrow> None | Some [] \<Rightarrow> None | Some ss \<Rightarrow> Some (marshalArray (map marshalService ss))),
      (''max_inflight'', if fMaxInflight f = 0 then None else Some (itoa (fMaxInflight f))),
      (''service'', omitStr (fService f)), (''method'', omitStr (fMethod f)), (''payload'', omitRaw (fPayload f)),
      (''timeout_ms'', map_option itoa (fTimeoutMS f)), (''idempotency_key'', omitStr (fIdempotency f)),
      (''idle_timeout_ms'', map_option itoa (fIdleTimeout f)), (''metadata'', omitRaw (fMetadata f)),
      (''error'', map_option marshalError (fError f)), (''reason'', omitStr (fReason f)),
      (''direction'', omitStr (fDirection f)), (''sequence'', map_option itoa (fSequence f)),
      (''credit'', map_option itoa (fCredit f)), (''nonce'', omitStr (fNonce f))]"

text \<open>\<^verbatim>\<open>frame.bytes\<close>: the received bytes when the frame still has them.\<close>

definition frameBytes :: "frame \<Rightarrow> string" where
  "frameBytes f = (case fraw f of
      Some data \<Rightarrow> data
    | None \<Rightarrow>
      if fKind f = ''ping'' \<or> fKind f = ''pong''
      then marshalObject [(''kind'', Some (jsonQuote (fKind f))), (''nonce'', Some (jsonQuote (fNonce f)))]
      else marshalFrame f)"

section \<open>Error frames\<close>

definition callError :: "string \<Rightarrow> string \<Rightarrow> string \<Rightarrow> bool \<Rightarrow> frame" where
  "callError cid code message retryable =
     zeroFrame\<lparr>fKind := ''call.error'', fCallID := cid,
       fError := Some \<lparr>eCode = code, eMessage = message, eRetryable = retryable, eDetails = None\<rparr>\<rparr>"

definition routerError :: "string \<Rightarrow> string \<Rightarrow> string \<Rightarrow> bool \<Rightarrow> string \<Rightarrow> string \<Rightarrow> frame" where
  "routerError cid code message retryable reason inst =
     (let f = callError cid code message retryable;
          details = [(''source'', ''router''), (''reason'', reason)] @ (if inst \<noteq> [] then [(''instance_id'', inst)] else []) in
      f\<lparr>fError := map_option (\<lambda>e. e\<lparr>eDetails := Some (marshalStringMap details)\<rparr>) (fError f)\<rparr>)"

definition sourceRouter :: string where
  "sourceRouter = [CHR ''{'', quoteChar] @ ''source'' @ [quoteChar, CHR '':'', quoteChar] @ ''router'' @ [quoteChar, CHR ''}'']"

definition deadlineError :: "string \<Rightarrow> frame" where
  "deadlineError cid =
     (let f = callError cid ''deadline_exceeded'' ''Call deadline exceeded'' False in
      f\<lparr>fError := map_option (\<lambda>e. e\<lparr>eDetails := Some sourceRouter\<rparr>) (fError f)\<rparr>)"

definition priority :: "frame \<Rightarrow> bool" where
  "priority f \<longleftrightarrow> fKind f = ''call.cancel'' \<or> fKind f = ''stream.window'' \<or> fKind f = ''ping'' \<or> fKind f = ''pong''"

definition withCallID :: "frame \<Rightarrow> string \<Rightarrow> frame" where
  "withCallID f cid = f\<lparr>fCallID := cid, fraw := None\<rparr>"

text \<open>\<^verbatim>\<open>readFrame\<close> after the socket read: on a decoding error only the kind and call id are kept.\<close>

definition readFrame :: "string \<Rightarrow> frame \<times> decodeError option" where
  "readFrame data = (case decode data of
      (f, Some e) \<Rightarrow> (zeroFrame\<lparr>fKind := fKind f, fCallID := fCallID f\<rparr>, Some e)
    | (f, None) \<Rightarrow> (f, None))"

definition isTerminal :: "frame \<Rightarrow> bool" where
  "isTerminal f \<longleftrightarrow> fKind f = ''call.result'' \<or> fKind f = ''call.error''"

section \<open>Well-formed frames\<close>

text \<open>What the rest of the Router may assume of a decoded frame.\<close>

definition wfFrame :: "frame \<Rightarrow> bool" where
  "wfFrame f \<longleftrightarrow>
     (List.member callKinds (fKind f) \<longrightarrow> fCallID f \<noteq> []) \<and>
     (fKind f = ''call.open'' \<longrightarrow> fService f \<noteq> [] \<and> fMethod f \<noteq> [] \<and> fPayload f \<noteq> None \<and>
        pred_option (\<lambda>t. 0 < t) (fTimeoutMS f) \<and> pred_option (\<lambda>t. 0 < t) (fIdleTimeout f) \<and>
        length (fIdempotency f) \<le> 128) \<and>
     (fKind f = ''call.error'' \<longrightarrow> (\<exists>e. fError f = Some e \<and> eCode e \<noteq> [])) \<and>
     (fKind f \<in> {''stream.item'', ''stream.end'', ''stream.window''} \<longrightarrow> fDirection f \<in> {''client'', ''server''}) \<and>
     (fKind f = ''stream.item'' \<longrightarrow> (\<exists>n. fSequence f = Some n \<and> 0 \<le> n) \<and> fPayload f \<noteq> None) \<and>
     (fKind f = ''stream.window'' \<longrightarrow> (\<exists>n. fCredit f = Some n \<and> 0 < n)) \<and>
     (fKind f = ''server.register'' \<longrightarrow> fInstanceID f \<noteq> [] \<and> fServices f \<noteq> None \<and> 0 \<le> fMaxInflight f) \<and>
     (fKind f = ''hello'' \<longrightarrow> fRole f \<in> {''client'', ''server''} \<and> fProtocol f = ProtocolName \<and> fPeerID f \<noteq> [])"

lemma checkFrame_wf:
  assumes "checkFrame data f = None" and "List.member callKinds (fKind f) \<Longrightarrow> fCallID f \<noteq> []"
  shows "wfFrame f"
  using assms
  by (auto simp: checkFrame_def wfFrame_def pred_option_def not_le split: if_splits option.splits)

lemma decode_Some:
  assumes "decode data = (f, None)"
  obtains v rest g where "parseJson data = Some (v, rest)" "structVal frameFields data v zeroFrame = (g, True)"
    "skipWs rest = []" "checkFrame data g = None" "List.member callKinds (fKind g) \<Longrightarrow> fCallID g \<noteq> []"
    "f = g\<lparr>fraw := Some data\<rparr>"
  using assms by (auto simp: decode_def split: option.splits prod.splits if_splits)

end
