(* ===== verification/Outbox.thy ===== *)
theory Outbox
  imports Protocol
begin

text \<open>
  The per-peer send queue (\<^verbatim>\<open>meshcall-router/internal/router/queue.go\<close>): one FIFO per call,
  served round-robin, with control frames at a call's head served first, bounded by bytes.
  \<open>Panic\<close> is the run-time error Go raises when an empty slice is indexed; the invariant shows
  that \<open>pop\<close> never raises it.
\<close>

datatype 'a go = Panic | Ret 'a

record outbox =
  oCalls :: "(string, frame list) gomap"
  oOrder :: "string list"
  oBytes :: int
  oLimit :: int
  oClosed :: bool
  oReady :: bool   \<comment> \<open>the one-slot wake-up channel holds a token\<close>

definition frameOverhead :: int where "frameOverhead = 512"

definition newOutbox :: "int \<Rightarrow> outbox" where
  "newOutbox limit = \<lparr>oCalls = [], oOrder = [], oBytes = 0, oLimit = limit, oClosed = False, oReady = False\<rparr>"

text \<open>Indexing the Go map: a missing key reads as the empty slice.\<close>

definition callQueue :: "outbox \<Rightarrow> string \<Rightarrow> frame list" where
  "callQueue q k = (case map_of (oCalls q) k of Some fs \<Rightarrow> fs | None \<Rightarrow> [])"

definition push :: "frame \<Rightarrow> outbox \<Rightarrow> outbox \<times> bool" where
  "push f0 q =
     (let data = frameBytes f0; f = f0\<lparr>fraw := Some data\<rparr>; size = int (length data) + frameOverhead in
      if oClosed q \<or> (oBytes q > 0 \<and> oBytes q + size > oLimit q) then (q, False)
      else
        (let order' = (if callQueue q (fCallID f) = [] then oOrder q @ [fCallID f] else oOrder q) in
         (q\<lparr>oOrder := order', oCalls := AList.update (fCallID f) (callQueue q (fCallID f) @ [f]) (oCalls q),
            oBytes := oBytes q + size, oReady := True\<rparr>, True)))"

text \<open>The scan for a call whose head frame has priority; 0 when there is none.\<close>

fun scanPriority :: "outbox \<Rightarrow> nat \<Rightarrow> string list \<Rightarrow> nat go" where
  "scanPriority q i [] = Ret 0"
| "scanPriority q i (k # ks) =
     (case callQueue q k of
        [] \<Rightarrow> Panic
      | f # _ \<Rightarrow> if priority f then Ret i else scanPriority q (Suc i) ks)"

definition rawLen :: "frame \<Rightarrow> int" where
  "rawLen f = (case fraw f of Some d \<Rightarrow> int (length d) | None \<Rightarrow> 0)"

definition pop :: "outbox \<Rightarrow> (outbox \<times> frame option) go" where
  "pop q =
     (if oOrder q = [] then Ret (q, None)
      else (case scanPriority q 0 (oOrder q) of
          Panic \<Rightarrow> Panic
        | Ret index \<Rightarrow>
          (let k = oOrder q ! index in
           case callQueue q k of
             [] \<Rightarrow> Panic
           | f # fs \<Rightarrow>
             (let order' = take index (oOrder q) @ drop (Suc index) (oOrder q);
                  calls' = (if fs = [] then AList.delete k (oCalls q) else AList.update k fs (oCalls q)) in
              Ret (q\<lparr>oCalls := calls', oOrder := (if fs = [] then order' else order' @ [k]),
                     oBytes := oBytes q - (rawLen f + frameOverhead)\<rparr>, Some f)))))"

definition outboxEmpty :: "outbox \<Rightarrow> bool" where
  "outboxEmpty q \<longleftrightarrow> oOrder q = []"

definition wakeOutbox :: "outbox \<Rightarrow> outbox" where
  "wakeOutbox q = q\<lparr>oReady := True\<rparr>"

definition closeOutbox :: "outbox \<Rightarrow> outbox" where
  "closeOutbox q = q\<lparr>oClosed := True, oCalls := [], oOrder := [], oBytes := 0\<rparr>"

section \<open>The interface: FIFO queues multiplexed over one channel\<close>

datatype 'f muxOp = PushOp 'f | PopOp

text \<open>Running a schedule of operations: the final queue, the frames accepted, the frames popped.\<close>

fun muxRun :: "('f \<Rightarrow> 'q \<Rightarrow> 'q \<times> bool) \<Rightarrow> ('q \<Rightarrow> ('q \<times> 'f option) go) \<Rightarrow> 'f muxOp list \<Rightarrow> 'q \<Rightarrow> ('q \<times> 'f list \<times> 'f list) go" where
  "muxRun psh pp [] q = Ret (q, [], [])"
| "muxRun psh pp (PushOp f # ops) q =
     (case psh f q of (q', ok) \<Rightarrow>
       (case muxRun psh pp ops q' of
          Panic \<Rightarrow> Panic
        | Ret (q'', acc, out) \<Rightarrow> Ret (q'', (if ok then f # acc else acc), out)))"
| "muxRun psh pp (PopOp # ops) q =
     (case pp q of
        Panic \<Rightarrow> Panic
      | Ret (q', r) \<Rightarrow>
        (case muxRun psh pp ops q' of
           Panic \<Rightarrow> Panic
         | Ret (q'', acc, out) \<Rightarrow> Ret (q'', acc, (case r of Some f \<Rightarrow> f # out | None \<Rightarrow> out))))"

locale fifo_mux =
  fixes psh :: "'f \<Rightarrow> 'q \<Rightarrow> 'q \<times> bool"
    and pp :: "'q \<Rightarrow> ('q \<times> 'f option) go"
    and queue :: "'q \<Rightarrow> 'k \<Rightarrow> 'f list"
    and key :: "'f \<Rightarrow> 'k"
    and stamp :: "'f \<Rightarrow> 'f"
    and invar :: "'q \<Rightarrow> bool"
  assumes push_True: "invar q \<Longrightarrow> psh f q = (q', True) \<Longrightarrow>
      queue q' k = (if k = key f then queue q k @ [stamp f] else queue q k)"
    and push_False: "invar q \<Longrightarrow> psh f q = (q', False) \<Longrightarrow> queue q' k = queue q k"
    and push_invar: "invar q \<Longrightarrow> psh f q = (q', ok) \<Longrightarrow> invar q'"
    and pop_total: "invar q \<Longrightarrow> pp q \<noteq> Panic"
    and pop_None: "invar q \<Longrightarrow> pp q = Ret (q', None) \<Longrightarrow> q' = q \<and> queue q k = []"
    and pop_Some: "invar q \<Longrightarrow> pp q = Ret (q', Some f) \<Longrightarrow>
      queue q k = (if k = key f then f # queue q' k else queue q' k)"
    and pop_invar: "invar q \<Longrightarrow> pp q = Ret (q', r) \<Longrightarrow> invar q'"
    and key_stamp: "key (stamp f) = key f"
begin

text \<open>Whatever the schedule, the frames popped for one key followed by those still queued are the
  frames queued at the start followed by those accepted: nothing is lost, invented, duplicated
  or reordered within a call.\<close>

lemma run_fifo:
  "invar q \<Longrightarrow> \<exists>q' acc out. muxRun psh pp ops q = Ret (q', acc, out) \<and> invar q' \<and>
     (\<forall>k. filter (\<lambda>f. key f = k) out @ queue q' k = queue q k @ filter (\<lambda>f. key f = k) (map stamp acc))"
proof (induction ops arbitrary: q)
  case Nil
  then show ?case by simp
next
  case (Cons a ops)
  show ?case
  proof (cases a)
    case (PushOp f)
    obtain q1 ok where p: "psh f q = (q1, ok)" by (cases "psh f q")
    with Cons.prems have "invar q1" by (rule push_invar)
    from Cons.IH [OF this] obtain q' acc out where
      r: "muxRun psh pp ops q1 = Ret (q', acc, out)" "invar q'" and
      eq: "\<And>k. filter (\<lambda>f. key f = k) out @ queue q' k = queue q1 k @ filter (\<lambda>f. key f = k) (map stamp acc)"
      by blast
    have "queue q1 k @ filter (\<lambda>f. key f = k) (map stamp acc) =
        queue q k @ filter (\<lambda>f. key f = k) (map stamp (if ok then f # acc else acc))" for k
      using push_True [OF Cons.prems, of f q1 k] push_False [OF Cons.prems, of f q1 k] p
      by (cases ok) (auto simp: key_stamp)
    with r eq p PushOp show ?thesis by auto
  next
    case PopOp
    obtain q1 x where p: "pp q = Ret (q1, x)"
      using pop_total [OF Cons.prems] by (cases "pp q") auto
    with Cons.prems have "invar q1" by (rule pop_invar)
    from Cons.IH [OF this] obtain q' acc out where
      r: "muxRun psh pp ops q1 = Ret (q', acc, out)" "invar q'" and
      eq: "\<And>k. filter (\<lambda>f. key f = k) out @ queue q' k = queue q1 k @ filter (\<lambda>f. key f = k) (map stamp acc)"
      by blast
    have "filter (\<lambda>f. key f = k) (case x of Some f \<Rightarrow> f # out | None \<Rightarrow> out) @ queue q' k =
        queue q k @ filter (\<lambda>f. key f = k) (map stamp acc)" for k
      using pop_None [OF Cons.prems, of q1 k] pop_Some [OF Cons.prems, of q1 _ k] p eq [of k]
      by (cases x) auto
    with r p PopOp show ?thesis by auto
  qed
qed

end

section \<open>The invariant\<close>

definition queuedFrames :: "outbox \<Rightarrow> frame list" where
  "queuedFrames q = concat (map snd (oCalls q))"

definition bytesOf :: "frame list \<Rightarrow> int" where
  "bytesOf fs = (\<Sum>f\<leftarrow>fs. rawLen f + frameOverhead)"

definition outboxInv :: "outbox \<Rightarrow> bool" where
  "outboxInv q \<longleftrightarrow>
     distinct (map_keys (oCalls q)) \<and> distinct (oOrder q) \<and> set (oOrder q) = set (map_keys (oCalls q)) \<and>
     (\<forall>(k, fs) \<in> set (oCalls q). fs \<noteq> [] \<and> (\<forall>f \<in> set fs. fCallID f = k \<and> fraw f \<noteq> None)) \<and>
     oBytes q = bytesOf (queuedFrames q) \<and>
     (oBytes q \<le> oLimit q \<or> length (queuedFrames q) \<le> 1) \<and>
     (oClosed q \<longrightarrow> oCalls q = [])"

lemma rawLen_nonneg [simp]: "0 \<le> rawLen f"
  by (simp add: rawLen_def split: option.splits)

lemma bytesOf_simps [simp]:
  "bytesOf [] = 0" "bytesOf (f # fs) = rawLen f + frameOverhead + bytesOf fs"
  "bytesOf (fs @ gs) = bytesOf fs + bytesOf gs"
  by (simp_all add: bytesOf_def)

lemma bytesOf_lower: "512 * int (length fs) \<le> bytesOf fs"
proof (induction fs)
  case (Cons f fs)
  show ?case using Cons rawLen_nonneg [of f] by (simp add: frameOverhead_def del: rawLen_nonneg)
qed simp

lemma bytesOf_zero: "bytesOf fs \<le> 0 \<longleftrightarrow> fs = []"
  using bytesOf_lower [of fs] by (cases fs) auto

lemma queuedFrames_update:
  assumes "distinct (map_keys m)" "map_of m k = Some gs"
  shows "bytesOf (concat (map snd (AList.update k fs m))) = bytesOf (concat (map snd m)) - bytesOf gs + bytesOf fs"
    and "length (concat (map snd (AList.update k fs m))) + length gs = length (concat (map snd m)) + length fs"
  using assms by (induction m) (auto split: if_splits)

lemma queuedFrames_delete:
  assumes "distinct (map_keys m)" "map_of m k = Some gs"
  shows "bytesOf (concat (map snd (AList.delete k m))) = bytesOf (concat (map snd m)) - bytesOf gs"
    and "length (concat (map snd (AList.delete k m))) + length gs = length (concat (map snd m))"
  using assms
proof (induction m)
  case (Cons x m)
  {
    case 1
    with Cons(1) show ?case
      by (cases x) (auto simp: delete_absent map_of_eq_None_iff)
  next
    case 2
    with Cons(2) show ?case
      by (cases x) (auto simp: delete_absent map_of_eq_None_iff)
  }
qed simp_all

lemma outboxInvI:
  assumes "distinct (map_keys (oCalls q))" "distinct (oOrder q) \<and> set (oOrder q) = set (map_keys (oCalls q))"
    and "\<And>k fs. (k, fs) \<in> set (oCalls q) \<Longrightarrow> fs \<noteq> [] \<and> (\<forall>f \<in> set fs. fCallID f = k \<and> fraw f \<noteq> None)"
    and "oBytes q = bytesOf (queuedFrames q)" "oBytes q \<le> oLimit q \<or> length (queuedFrames q) \<le> 1"
    and "\<not> oClosed q"
  shows "outboxInv q"
  unfolding outboxInv_def using assms by blast

lemma outboxInv_memD:
  "outboxInv q \<Longrightarrow> (k, fs) \<in> set (oCalls q) \<Longrightarrow> fs \<noteq> [] \<and> (\<forall>f \<in> set fs. fCallID f = k \<and> fraw f \<noteq> None)"
  unfolding outboxInv_def by blast

lemma outboxInv_orderD:
  "outboxInv q \<Longrightarrow> distinct (map_keys (oCalls q)) \<and> distinct (oOrder q) \<and> set (oOrder q) = set (map_keys (oCalls q))"
  unfolding outboxInv_def by blast

lemma outboxInv_new: "outboxInv (newOutbox limit)"
  by (simp add: outboxInv_def newOutbox_def queuedFrames_def)

lemma outboxInv_close: "outboxInv q \<Longrightarrow> outboxInv (closeOutbox q)"
  by (simp add: outboxInv_def closeOutbox_def queuedFrames_def)

lemma outboxInv_wake [simp]: "outboxInv (wakeOutbox q) = outboxInv q"
  by (simp add: outboxInv_def wakeOutbox_def queuedFrames_def)

lemma callQueue_empty_iff: "outboxInv q \<Longrightarrow> callQueue q k = [] \<longleftrightarrow> k \<notin> set (oOrder q)"
proof -
  assume inv: "outboxInv q"
  have "k \<in> set (oOrder q) \<longleftrightarrow> map_of (oCalls q) k \<noteq> None"
    using inv unfolding outboxInv_def by (simp add: map_of_eq_None_iff)
  moreover have "map_of (oCalls q) k = Some fs \<Longrightarrow> fs \<noteq> []" for fs
    using outboxInv_memD [OF inv map_of_SomeD] by blast
  ultimately show ?thesis by (auto simp: callQueue_def split: option.splits)
qed

lemma push_accepts:
  "push f0 q = (q', ok) \<Longrightarrow>
     ok = (\<not> (oClosed q \<or> (oBytes q > 0 \<and> oBytes q + (int (length (frameBytes f0)) + frameOverhead) > oLimit q)))"
  by (auto simp: push_def Let_def split: if_splits)

lemma push_False_eq: "push f0 q = (q', False) \<Longrightarrow> q' = q"
  by (auto simp: push_def Let_def split: if_splits)

lemma push_queue:
  "push f0 q = (q', True) \<Longrightarrow>
     callQueue q' k = (if k = fCallID f0 then callQueue q k @ [f0\<lparr>fraw := Some (frameBytes f0)\<rparr>] else callQueue q k)"
  by (auto simp: push_def Let_def callQueue_def split: if_splits)

lemma update_fresh_frames:
  "map_of m k = None \<Longrightarrow> concat (map snd (AList.update k fs m)) = concat (map snd m) @ fs"
  by (simp add: map_of_None_update)

lemma callQueue_update_bytes:
  assumes "distinct (map_keys (oCalls q))"
  shows "bytesOf (concat (map snd (AList.update k (callQueue q k @ [f]) (oCalls q)))) =
      bytesOf (queuedFrames q) + (rawLen f + frameOverhead)"
    and "length (concat (map snd (AList.update k (callQueue q k @ [f]) (oCalls q)))) = Suc (length (queuedFrames q))"
  using assms queuedFrames_update [OF assms, of k "callQueue q k" "callQueue q k @ [f]"]
  by (auto simp: callQueue_def queuedFrames_def update_fresh_frames split: option.splits simp del: map_of_eq_Some_iff)

lemma set_update_distinct:
  "distinct (map_keys m) \<Longrightarrow> x \<in> set (AList.update k v m) \<Longrightarrow> x = (k, v) \<or> (x \<in> set m \<and> fst x \<noteq> k)"
  by (induction m) (auto split: if_splits simp: image_iff)

lemma set_delete_subset: "x \<in> set (AList.delete k m) \<Longrightarrow> x \<in> set m \<and> fst x \<noteq> k"
  by (induction m) (auto split: if_splits)

lemma callQueue_mem:
  "outboxInv q \<Longrightarrow> f \<in> set (callQueue q k) \<Longrightarrow> fCallID f = k \<and> fraw f \<noteq> None"
  by (fastforce simp: outboxInv_def callQueue_def split: option.splits dest: map_of_SomeD)

lemma push_inv:
  assumes inv: "outboxInv q" and p: "push f0 q = (q', ok)"
  shows "outboxInv q'"
proof (cases ok)
  case False
  with p have "q' = q" by (auto dest: push_False_eq)
  with inv show ?thesis by simp
next
  case True
  define f where "f = f0\<lparr>fraw := Some (frameBytes f0)\<rparr>"
  have f: "fCallID f = fCallID f0" "fraw f = Some (frameBytes f0)" by (simp_all add: f_def)
  have guard: "\<not> oClosed q" "\<not> (oBytes q > 0 \<and> oBytes q + (rawLen f + frameOverhead) > oLimit q)"
    using push_accepts [OF p] True by (auto simp: f rawLen_def)
  have q': "q' = q\<lparr>oOrder := (if callQueue q (fCallID f) = [] then oOrder q @ [fCallID f] else oOrder q),
      oCalls := AList.update (fCallID f) (callQueue q (fCallID f) @ [f]) (oCalls q),
      oBytes := oBytes q + (rawLen f + frameOverhead), oReady := True\<rparr>"
    using p True by (auto simp: push_def Let_def f_def rawLen_def split: if_splits)
  have d: "distinct (map_keys (oCalls q))" using inv by (simp add: outboxInv_def)
  have mem: "fs \<noteq> [] \<and> (\<forall>g \<in> set fs. fCallID g = k \<and> fraw g \<noteq> None)"
    if "(k, fs) \<in> set (oCalls q')" for k fs
  proof -
    from that q' have "(k, fs) = (fCallID f, callQueue q (fCallID f) @ [f]) \<or> (k, fs) \<in> set (oCalls q)"
      using set_update_distinct [OF d] by auto
    then show ?thesis
    proof
      assume "(k, fs) = (fCallID f, callQueue q (fCallID f) @ [f])"
      then show ?thesis using callQueue_mem [OF inv] f by auto
    qed (rule outboxInv_memD [OF inv])
  qed
  have order: "distinct (oOrder q') \<and> set (oOrder q') = set (map_keys (oCalls q'))"
    using outboxInv_orderD [OF inv] callQueue_empty_iff [OF inv, of "fCallID f"] q' by auto
  have bytes: "oBytes q' = bytesOf (queuedFrames q')"
      and len: "length (queuedFrames q') = Suc (length (queuedFrames q))"
    using q' inv callQueue_update_bytes [OF d, of "fCallID f" f]
    by (simp_all add: outboxInv_def queuedFrames_def)
  have "oBytes q' \<le> oLimit q' \<or> length (queuedFrames q') \<le> 1"
  proof (cases "oBytes q > 0")
    case True
    with guard q' show ?thesis by simp
  next
    case False
    with inv have "bytesOf (queuedFrames q) \<le> 0" by (simp add: outboxInv_def)
    then have "queuedFrames q = []" by (simp add: bytesOf_zero)
    with len show ?thesis by simp
  qed
  moreover have "distinct (map_keys (oCalls q'))" "\<not> oClosed q'" using d guard(1) q' by simp_all
  ultimately show ?thesis using mem order bytes by (intro outboxInvI)
qed

lemma scanPriority_total:
  "(\<And>k. k \<in> set ks \<Longrightarrow> callQueue q k \<noteq> []) \<Longrightarrow> scanPriority q i ks \<noteq> Panic"
  by (induction ks arbitrary: i) (auto split: list.splits)

lemma scanPriority_index:
  "scanPriority q i ks = Ret n \<Longrightarrow>
     (i \<le> n \<and> n < i + length ks \<and> priority (hd (callQueue q (ks ! (n - i)))) \<and>
        (\<forall>j < n - i. \<not> priority (hd (callQueue q (ks ! j))))) \<or>
     (n = 0 \<and> (\<forall>k \<in> set ks. \<not> priority (hd (callQueue q k))))"
proof (induction ks arbitrary: i)
  case Nil
  then show ?case by simp
next
  case (Cons k ks)
  obtain f fs where c: "callQueue q k = f # fs"
    using Cons.prems by (cases "callQueue q k") auto
  show ?case
  proof (cases "priority f")
    case True
    with Cons.prems c show ?thesis by auto
  next
    case False
    with Cons.prems c have "scanPriority q (Suc i) ks = Ret n" by simp
    from Cons.IH [OF this] show ?thesis
    proof (elim disjE)
      assume a: "Suc i \<le> n \<and> n < Suc i + length ks \<and> priority (hd (callQueue q (ks ! (n - Suc i)))) \<and>
        (\<forall>j < n - Suc i. \<not> priority (hd (callQueue q (ks ! j))))"
      then have "n - i = Suc (n - Suc i)" by linarith
      with a c False show ?thesis by (auto simp: nth_Cons split: nat.splits)
    next
      assume "n = 0 \<and> (\<forall>k \<in> set ks. \<not> priority (hd (callQueue q k)))"
      with c False show ?thesis by auto
    qed
  qed
qed

lemma scanPriority_lt: "scanPriority q 0 ks = Ret n \<Longrightarrow> ks \<noteq> [] \<Longrightarrow> n < length ks"
  using scanPriority_index [of q 0 ks n] by auto

text \<open>The anatomy of a successful pop, which every fact about it uses.\<close>

lemma pop_cases:
  assumes inv: "outboxInv q"
  obtains (empty) "oOrder q = []" "pop q = Ret (q, None)"
  | (frame) i k f fs where "oOrder q \<noteq> []" "scanPriority q 0 (oOrder q) = Ret i" "i < length (oOrder q)"
      "k = oOrder q ! i" "callQueue q k = f # fs" "map_of (oCalls q) k = Some (f # fs)"
      "pop q = Ret (q\<lparr>oCalls := (if fs = [] then AList.delete k (oCalls q) else AList.update k fs (oCalls q)),
          oOrder := (let o' = take i (oOrder q) @ drop (Suc i) (oOrder q) in if fs = [] then o' else o' @ [k]),
          oBytes := oBytes q - (rawLen f + frameOverhead)\<rparr>, Some f)"
proof (cases "oOrder q = []")
  case True
  then show ?thesis using empty by (simp add: pop_def)
next
  case False
  obtain i where i: "scanPriority q 0 (oOrder q) = Ret i"
    using scanPriority_total [of "oOrder q" q 0] callQueue_empty_iff [OF inv]
    by (cases "scanPriority q 0 (oOrder q)") auto
  with False have lt: "i < length (oOrder q)" by (rule scanPriority_lt [rotated])
  then have "callQueue q (oOrder q ! i) \<noteq> []" using callQueue_empty_iff [OF inv] by simp
  then obtain f fs where c: "callQueue q (oOrder q ! i) = f # fs" by (cases "callQueue q (oOrder q ! i)") auto
  then have "map_of (oCalls q) (oOrder q ! i) = Some (f # fs)"
    by (auto simp: callQueue_def split: option.splits)
  with False i lt c frame show ?thesis by (simp add: pop_def Let_def)
qed

lemma pop_inv:
  assumes inv: "outboxInv q" and p: "pop q = Ret (q', r)"
  shows "outboxInv q'"
  using inv
proof (cases rule: pop_cases)
  case empty
  with p inv show ?thesis by simp
next
  case (frame i k f fs)
  have d: "distinct (map_keys (oCalls q))" "distinct (oOrder q)" using inv by (simp_all add: outboxInv_def)
  define c' where "c' = (if fs = [] then AList.delete k (oCalls q) else AList.update k fs (oCalls q))"
  define o' where "o' = (let o' = take i (oOrder q) @ drop (Suc i) (oOrder q) in if fs = [] then o' else o' @ [k])"
  from p frame have q': "q' = q\<lparr>oCalls := c', oOrder := o', oBytes := oBytes q - (rawLen f + frameOverhead)\<rparr>"
    by (simp add: c'_def o'_def)
  have o: "distinct (take i (oOrder q) @ drop (Suc i) (oOrder q))"
      "set (take i (oOrder q) @ drop (Suc i) (oOrder q)) = set (oOrder q) - {k}"
    using d(2) frame(3,4) by (auto intro: distinct_remove_nth simp only: set_remove_nth_distinct)
  have order: "distinct o' \<and> set o' = set (map_keys c')"
    using o outboxInv_orderD [OF inv] frame(3,4) by (auto simp: o'_def c'_def Let_def)
  have mem: "gs \<noteq> [] \<and> (\<forall>g \<in> set gs. fCallID g = j \<and> fraw g \<noteq> None)" if "(j, gs) \<in> set c'" for j gs
  proof -
    have "(fs \<noteq> [] \<and> (j, gs) = (k, fs)) \<or> (j, gs) \<in> set (oCalls q)"
      using that set_update_distinct [OF d(1), of "(j, gs)" k fs] set_delete_subset [of "(j, gs)" k "oCalls q"]
      by (auto simp: c'_def split: if_splits)
    then show ?thesis
    proof
      assume "fs \<noteq> [] \<and> (j, gs) = (k, fs)"
      then show ?thesis using callQueue_mem [OF inv, of _ k] frame(5) by auto
    qed (rule outboxInv_memD [OF inv])
  qed
  have bytes: "oBytes q' = bytesOf (queuedFrames q')" and len: "Suc (length (queuedFrames q')) = length (queuedFrames q)"
  proof -
    have b: "bytesOf (concat (map snd c')) = bytesOf (queuedFrames q) - (rawLen f + frameOverhead)"
      and l: "Suc (length (concat (map snd c'))) = length (queuedFrames q)"
      using queuedFrames_update [OF d(1) frame(6), of fs] queuedFrames_delete [OF d(1) frame(6)]
      by (auto simp: c'_def queuedFrames_def)
    have "oBytes q = bytesOf (queuedFrames q)" using inv by (simp add: outboxInv_def)
    with b l q' show "oBytes q' = bytesOf (queuedFrames q')" "Suc (length (queuedFrames q')) = length (queuedFrames q)"
      by (simp_all add: queuedFrames_def)
  qed
  have cap: "oBytes q' \<le> oLimit q' \<or> length (queuedFrames q') \<le> 1"
  proof -
    have "oBytes q \<le> oLimit q \<or> length (queuedFrames q) \<le> 1" using inv unfolding outboxInv_def by blast
    with len q' rawLen_nonneg [of f] show ?thesis by (auto simp: frameOverhead_def simp del: rawLen_nonneg)
  qed
  have "oClosed q \<longrightarrow> oCalls q = []" using inv by (simp add: outboxInv_def)
  then have "\<not> oClosed q'" using frame q' by auto
  moreover have "oCalls q' = c'" "oOrder q' = o'" "distinct (map_keys c')"
    using d(1) q' by (simp_all add: c'_def)
  ultimately show ?thesis using order mem bytes cap by (intro outboxInvI) simp_all
qed

lemma pop_queue:
  assumes inv: "outboxInv q" and p: "pop q = Ret (q', Some f)"
  shows "callQueue q k = (if k = fCallID f then f # callQueue q' k else callQueue q' k)"
  using inv
proof (cases rule: pop_cases)
  case empty
  with p show ?thesis by simp
next
  case (frame i k' f' fs)
  with p have "f' = f" by simp
  moreover have "fCallID f' = k'" using callQueue_mem [OF inv, of f' k'] frame by simp
  ultimately show ?thesis using frame p by (auto simp: callQueue_def)
qed

interpretation ob: fifo_mux push pop callQueue fCallID "\<lambda>f. f\<lparr>fraw := Some (frameBytes f)\<rparr>" outboxInv
proof
  fix q q' f k
  show "outboxInv q \<Longrightarrow> push f q = (q', True) \<Longrightarrow>
      callQueue q' k = (if k = fCallID f then callQueue q k @ [f\<lparr>fraw := Some (frameBytes f)\<rparr>] else callQueue q k)"
    by (rule push_queue)
  show "outboxInv q \<Longrightarrow> push f q = (q', False) \<Longrightarrow> callQueue q' k = callQueue q k"
    using push_False_eq by blast
  show "outboxInv q \<Longrightarrow> pop q \<noteq> Panic"
    by (erule pop_cases) simp_all
  show "outboxInv q \<Longrightarrow> pop q = Ret (q', None) \<Longrightarrow> q' = q \<and> callQueue q k = []"
    by (frule callQueue_empty_iff [of q k], erule pop_cases) simp_all
  show "outboxInv q \<Longrightarrow> pop q = Ret (q', Some f) \<Longrightarrow>
      callQueue q k = (if k = fCallID f then f # callQueue q' k else callQueue q' k)"
    by (rule pop_queue)
qed (auto intro: push_inv pop_inv)

section \<open>What the queue guarantees\<close>

text \<open>C1. Whatever sequence of pushes and pops runs on a new outbox, no operation panics, and for every call
  the frames popped followed by those still queued are exactly the accepted frames, in the order
  in which they were pushed: per-call FIFO, nothing lost, duplicated or invented.  Control-frame
  priority therefore never lets a frame overtake an earlier frame of its own call.\<close>

theorem outbox_per_call_fifo:
  "\<exists>q acc out. muxRun push pop ops (newOutbox limit) = Ret (q, acc, out) \<and> outboxInv q \<and>
     (\<forall>cid. filter (\<lambda>f. fCallID f = cid) out @ callQueue q cid =
        filter (\<lambda>f. fCallID f = cid) (map (\<lambda>f. f\<lparr>fraw := Some (frameBytes f)\<rparr>) acc))"
  using ob.run_fifo [OF outboxInv_new [of limit], of ops]
  by (simp add: callQueue_def newOutbox_def)

text \<open>C2. The byte budget: in every state an outbox can reach, the accounted bytes are exactly the
  encoded lengths plus the per-frame overhead of the frames it holds, and they exceed the limit
  only when a single frame is queued (the exception that lets a maximum-size frame through).\<close>

theorem outbox_byte_budget:
  "\<exists>q acc out. muxRun push pop ops (newOutbox limit) = Ret (q, acc, out) \<and>
     oBytes q = (\<Sum>f\<leftarrow>queuedFrames q. rawLen f + frameOverhead) \<and>
     (oBytes q \<le> oLimit q \<or> length (queuedFrames q) \<le> 1)"
  using ob.run_fifo [OF outboxInv_new [of limit], of ops]
  by (auto simp: outboxInv_def bytesOf_def)

lemma pop_priority_head:
  assumes inv: "outboxInv q" and p: "pop q = Ret (q', Some f)"
    and k: "k \<in> set (oOrder q)" "priority (hd (callQueue q k))"
  shows "priority f"
  using inv
proof (cases rule: pop_cases)
  case empty
  with p show ?thesis by simp
next
  case (frame i k' f' fs)
  with p have "f = f'" by simp
  moreover from scanPriority_index [OF frame(2)] k have "priority (hd (callQueue q (oOrder q ! i)))"
    by auto
  ultimately show ?thesis using frame by simp
qed

text \<open>Without priority heads a pop serves the front of the rotation and sends the call to its back.\<close>

lemma pop_front:
  assumes inv: "outboxInv q" and k: "oOrder q = k # ks" and no: "\<forall>f \<in> set (queuedFrames q). \<not> priority f"
  shows "\<exists>q' f. pop q = Ret (q', Some f) \<and> fCallID f = k \<and> outboxInv q' \<and>
     (\<exists>rest. oOrder q' = ks @ rest) \<and> set (queuedFrames q') \<subseteq> set (queuedFrames q)"
  using inv
proof (cases rule: pop_cases)
  case empty
  with k show ?thesis by simp
next
  case (frame i k' f fs)
  have head: "hd (callQueue q j) \<in> set (queuedFrames q)" if "j \<in> set (oOrder q)" for j
  proof -
    from that obtain gs where "map_of (oCalls q) j = Some gs" "gs \<noteq> []"
      using callQueue_empty_iff [OF inv, of j] by (auto simp: callQueue_def split: option.splits)
    then show ?thesis by (force simp: callQueue_def queuedFrames_def dest: map_of_SomeD)
  qed
  from scanPriority_index [OF frame(2)] head no have i: "i = 0" by auto
  have cid: "fCallID f = k" using callQueue_mem [OF inv, of f k'] frame i k by simp
  obtain q' where q': "pop q = Ret (q', Some f)"
    and c: "oCalls q' = (if fs = [] then AList.delete k' (oCalls q) else AList.update k' fs (oCalls q))"
    and o: "oOrder q' = ks @ (if fs = [] then [] else [k'])"
    using frame i k by simp
  have sub: "set (queuedFrames q') \<subseteq> set (queuedFrames q)"
  proof
    fix g assume "g \<in> set (queuedFrames q')"
    then obtain j gs where "(j, gs) \<in> set (oCalls q')" "g \<in> set gs" by (auto simp: queuedFrames_def)
    then have "(j, gs) \<in> set (oCalls q) \<or> gs = fs"
      using c set_update_distinct [of "oCalls q" "(j, gs)" k' fs] set_delete_subset [of "(j, gs)" k' "oCalls q"]
        outboxInv_orderD [OF inv] by (auto split: if_splits)
    then show "g \<in> set (queuedFrames q)"
      using \<open>g \<in> set gs\<close> map_of_SomeD [OF frame(6)] by (force simp: queuedFrames_def)
  qed
  from q' cid o sub pop_inv [OF inv q'] show ?thesis by (intro exI conjI) auto
qed

text \<open>\<open>popMany n\<close> is a writer that takes \<open>n\<close> frames in a row.\<close>

fun popMany :: "nat \<Rightarrow> outbox \<Rightarrow> (outbox \<times> frame list) go" where
  "popMany 0 q = Ret (q, [])"
| "popMany (Suc n) q =
     (case pop q of
        Panic \<Rightarrow> Panic
      | Ret (q', None) \<Rightarrow> Ret (q', [])
      | Ret (q', Some f) \<Rightarrow>
        (case popMany n q' of Panic \<Rightarrow> Panic | Ret (q'', fs) \<Rightarrow> Ret (q'', f # fs)))"

lemma popMany_rotation:
  "outboxInv q \<Longrightarrow> oOrder q = ks @ rest \<Longrightarrow> \<forall>f \<in> set (queuedFrames q). \<not> priority f \<Longrightarrow>
     \<exists>q' fs. popMany (length ks) q = Ret (q', fs) \<and> map fCallID fs = ks"
proof (induction ks arbitrary: q rest)
  case Nil
  then show ?case by simp
next
  case (Cons k ks)
  from Cons.prems(2) have "oOrder q = k # (ks @ rest)" by simp
  from pop_front [OF Cons.prems(1) this Cons.prems(3)] obtain q' f rest' where
    p: "pop q = Ret (q', Some f)" "fCallID f = k" "outboxInv q'" "oOrder q' = ks @ (rest @ rest')"
      "set (queuedFrames q') \<subseteq> set (queuedFrames q)" by auto
  from Cons.IH [OF p(3,4)] p(5) Cons.prems(3) obtain q'' fs where
    "popMany (length ks) q' = Ret (q'', fs)" "map fCallID fs = ks" by blast
  with p show ?case by auto
qed

lemma pop_length:
  assumes inv: "outboxInv q" and p: "pop q = Ret (q', Some f)"
  shows "Suc (length (queuedFrames q')) = length (queuedFrames q)"
  using inv
proof (cases rule: pop_cases)
  case empty
  with p show ?thesis by simp
next
  case (frame i k' f' fs)
  have d: "distinct (map_keys (oCalls q))" using inv by (simp add: outboxInv_def)
  have c: "oCalls q' = (if fs = [] then AList.delete k' (oCalls q) else AList.update k' fs (oCalls q))"
    using frame p by auto
  show ?thesis
    using queuedFrames_update(2) [OF d frame(6), of fs] queuedFrames_delete(2) [OF d frame(6)] c
    by (cases "fs = []") (simp_all add: queuedFrames_def)
qed

lemma popMany_drains:
  "outboxInv q \<Longrightarrow> \<exists>q' fs. popMany (length (queuedFrames q)) q = Ret (q', fs) \<and> outboxEmpty q' \<and>
     length fs = length (queuedFrames q)"
proof (induction "length (queuedFrames q)" arbitrary: q)
  case 0
  then have "queuedFrames q = []" by simp
  then have "fs = []" if "(k, fs) \<in> set (oCalls q)" for k fs
    using that by (force simp: queuedFrames_def)
  with outboxInv_memD [OF 0(2)] have "oCalls q = []" by (cases "oCalls q") force+
  then have "oOrder q = []" using outboxInv_orderD [OF 0(2)] by simp
  with 0 show ?case by (simp add: outboxEmpty_def)
next
  case (Suc n)
  show ?case
    using Suc.prems
  proof (cases rule: pop_cases)
    case empty
    then have "oCalls q = []" using outboxInv_orderD [OF Suc.prems] by simp
    with Suc(2) show ?thesis by (simp add: queuedFrames_def)
  next
    case (frame i k f fs)
    then obtain q' where p: "pop q = Ret (q', Some f)" by simp
    have l: "n = length (queuedFrames q')" using pop_length [OF Suc.prems p] Suc(2) by simp
    from Suc.hyps(1) [OF l pop_inv [OF Suc.prems p]] obtain q'' gs where
      "popMany n q' = Ret (q'', gs)" "outboxEmpty q''" "length gs = n" using l by auto
    with p Suc(2) show ?thesis by (simp flip: Suc(2))
  qed
qed


definition sampleItem :: "string \<Rightarrow> frame" where
  "sampleItem cid = zeroFrame\<lparr>fKind := ''stream.item'', fCallID := cid, fraw := Some ''{}''\<rparr>"


end
