(* ===== verification/Breaker.thy ===== *)
theory Breaker
  imports Protocol
begin

text \<open>
  The per-instance circuit breaker (\<^verbatim>\<open>meshcall-router/internal/router/breaker.go\<close>).
  \<open>hOpenUntil\<close> is \<open>None\<close> for the zero \<^verbatim>\<open>time.Time\<close> (closed).  Every operation takes the current
  time as an argument.
\<close>

definition DefaultBreakerThreshold :: int where "DefaultBreakerThreshold = 5"
definition DefaultBreakerCooldown :: time where "DefaultBreakerCooldown = 10 * second"

datatype breakerState = BreakerClosed | BreakerOpen | BreakerHalfOpen

fun breakerName :: "breakerState \<Rightarrow> string" where
  "breakerName BreakerClosed = ''closed''"
| "breakerName BreakerOpen = ''open''"
| "breakerName BreakerHalfOpen = ''half_open''"

record health =
  hFailures :: int
  hOpenUntil :: "time option"
  hProbing :: bool

definition zeroHealth :: health where
  "zeroHealth = \<lparr>hFailures = 0, hOpenUntil = None, hProbing = False\<rparr>"

definition healthState :: "time \<Rightarrow> health \<Rightarrow> breakerState" where
  "healthState now h = (case hOpenUntil h of
      None \<Rightarrow> BreakerClosed
    | Some t \<Rightarrow> if now < t then BreakerOpen else BreakerHalfOpen)"

definition admit :: "time \<Rightarrow> health \<Rightarrow> health \<times> bool" where
  "admit now h = (case healthState now h of
      BreakerClosed \<Rightarrow> (h, True)
    | BreakerHalfOpen \<Rightarrow> if hProbing h then (h, False) else (h\<lparr>hProbing := True\<rparr>, True)
    | BreakerOpen \<Rightarrow> (h, False))"

definition observeHealth :: "int \<Rightarrow> time \<Rightarrow> time \<Rightarrow> bool \<Rightarrow> health \<Rightarrow> health" where
  "observeHealth threshold cooldown now ok h =
     (if ok then h\<lparr>hFailures := 0, hOpenUntil := None, hProbing := False\<rparr>
      else
        (let h' = h\<lparr>hFailures := hFailures h + 1, hProbing := False\<rparr> in
         if hFailures h' \<ge> threshold then h'\<lparr>hOpenUntil := Some (now + cooldown)\<rparr> else h'))"

definition instanceFailed :: "frame \<Rightarrow> bool" where
  "instanceFailed f \<longleftrightarrow> fKind f = ''call.error'' \<and>
     (case fError f of None \<Rightarrow> False | Some e \<Rightarrow> eCode e = ''internal'' \<or> eCode e = ''unavailable'')"

section \<open>The breaker as a state machine\<close>

datatype breakerEvent = Admit time | Observe time bool

fun breakerStep :: "int \<Rightarrow> time \<Rightarrow> health \<Rightarrow> breakerEvent \<Rightarrow> health" where
  "breakerStep threshold cooldown h (Admit now) = fst (admit now h)"
| "breakerStep threshold cooldown h (Observe now ok) = observeHealth threshold cooldown now ok h"

definition breakerRun :: "int \<Rightarrow> time \<Rightarrow> breakerEvent list \<Rightarrow> health" where
  "breakerRun threshold cooldown es = foldl (breakerStep threshold cooldown) zeroHealth es"

definition healthInv :: "int \<Rightarrow> health \<Rightarrow> bool" where
  "healthInv threshold h \<longleftrightarrow> 0 \<le> hFailures h \<and> (hOpenUntil h = None \<longleftrightarrow> hFailures h < threshold) \<and>
     (hProbing h \<longrightarrow> hOpenUntil h \<noteq> None)"

lemma healthInv_zero: "1 \<le> threshold \<Longrightarrow> healthInv threshold zeroHealth"
  by (simp add: healthInv_def zeroHealth_def)

lemma healthInv_admit [inv_intros]: "healthInv threshold h \<Longrightarrow> healthInv threshold (fst (admit now h))"
  by (auto simp: healthInv_def admit_def healthState_def split: option.splits breakerState.splits)

lemma healthInv_observe [inv_intros]:
  "1 \<le> threshold \<Longrightarrow> healthInv threshold h \<Longrightarrow> healthInv threshold (observeHealth threshold cooldown now ok h)"
  by (auto simp: healthInv_def observeHealth_def Let_def)

lemma healthInv_run: "1 \<le> threshold \<Longrightarrow> healthInv threshold (breakerRun threshold cooldown es)"
  unfolding breakerRun_def
proof (induction es rule: rev_induct)
  case Nil
  then show ?case by (simp add: healthInv_zero)
next
  case (snoc e es)
  then show ?case by (cases e) (auto intro: inv_intros)
qed

text \<open>The trailing run of failures of an event sequence, ignoring admissions: what the counter counts.\<close>

fun trailingFailures :: "breakerEvent list \<Rightarrow> int" where
  "trailingFailures [] = 0"
| "trailingFailures (Admit _ # es) = trailingFailures es"
| "trailingFailures (Observe _ ok # es) = (if ok then 0 else trailingFailures es + 1)"

lemma failures_count: "hFailures (breakerRun threshold cooldown es) = trailingFailures (rev es)"
  unfolding breakerRun_def
proof (induction es rule: rev_induct)
  case Nil
  then show ?case by (simp add: zeroHealth_def)
next
  case (snoc e es)
  then show ?case
    by (cases e) (auto simp: admit_def observeHealth_def Let_def split: breakerState.splits)
qed

text \<open>C4. The breaker is closed exactly while fewer than \<open>threshold\<close> consecutive failures have been
  observed since the last success, whatever admissions happened in between; only then does
  \<open>admit\<close> let every call through.\<close>

theorem breaker_closed_iff:
  assumes "1 \<le> threshold"
  shows "healthState now (breakerRun threshold cooldown es) = BreakerClosed \<longleftrightarrow> trailingFailures (rev es) < threshold"
  using healthInv_run [OF assms, of cooldown es] failures_count [of threshold cooldown es]
  by (auto simp: healthInv_def healthState_def split: option.splits)

theorem breaker_closed_iff_witness:
  "healthState 100 (breakerRun 2 50 [Observe 10 False, Admit 11, Observe 12 False]) = BreakerClosed \<longleftrightarrow>
     trailingFailures (rev [Observe 10 False, Admit 11, Observe 12 False]) < 2"
  by (rule breaker_closed_iff) simp

text \<open>C5. Tripping and probing.  When a failure at time \<open>t\<close> brings the run of consecutive failures to the
  threshold, no call is admitted before \<open>t + cooldown\<close>; from then on the first admission succeeds
  and marks the probe, every later one is refused until the probe's outcome is observed; a
  successful outcome closes the breaker and a failed one reopens it for another cooldown.\<close>

theorem breaker_trips_then_probes_once:
  assumes "1 \<le> threshold" and "0 < cooldown"
    and "trailingFailures (rev (es @ [Observe t False])) \<ge> threshold"
    and h: "h = breakerRun threshold cooldown (es @ [Observe t False])"
  shows "(now < t + cooldown \<longrightarrow> admit now h = (h, False)) \<and>
         (t + cooldown \<le> now \<longrightarrow> snd (admit now h) \<and>
            (\<forall>now'. snd (admit now' (fst (admit now h))) = False) \<and>
            healthState now' (observeHealth threshold cooldown t' True (fst (admit now h))) = BreakerClosed \<and>
            (\<forall>u < t' + cooldown. \<not> snd (admit u (observeHealth threshold cooldown t' False (fst (admit now h))))))"
proof -
  have f: "hFailures h = trailingFailures (rev (es @ [Observe t False]))"
    using failures_count h by simp
  have h': "h = observeHealth threshold cooldown t False (breakerRun threshold cooldown es)"
    by (simp add: h breakerRun_def)
  have "hOpenUntil h = Some (t + cooldown)" "\<not> hProbing h"
    using h' f assms(3) by (auto simp: observeHealth_def Let_def split: if_splits)
  moreover have "hFailures h \<ge> threshold" using f assms(3) by simp
  ultimately show ?thesis
    using assms(1,2)
    by (auto simp: admit_def healthState_def observeHealth_def Let_def
        split: option.splits breakerState.splits if_splits)
qed

theorem breaker_trips_then_probes_once_witness:
  "trailingFailures (rev ([Observe 0 False] @ [Observe 5 False])) \<ge> 2 \<and>
   admit 14 (breakerRun 2 10 ([Observe 0 False] @ [Observe 5 False])) =
     (breakerRun 2 10 ([Observe 0 False] @ [Observe 5 False]), False)"
proof -
  let ?h = "breakerRun 2 10 ([Observe 0 False] @ [Observe 5 False])"
  have a: "trailingFailures (rev ([Observe 0 False] @ [Observe 5 False])) \<ge> 2" by simp
  show ?thesis
    using breaker_trips_then_probes_once [of 2 10 "[Observe 0 False]" 5 ?h 14, OF _ _ a refl] a by simp
qed

end
