(* ===== verification/Deadline_Heap.thy ===== *)
theory Deadline_Heap
  imports Mesh_Prelude
begin

text \<open>
  The deadline heap (\<^verbatim>\<open>meshcall-router/internal/router/deadline.go\<close>, \<^verbatim>\<open>deadlineHeap\<close>) under the
  algorithms of Go's \<^verbatim>\<open>container/heap\<close>.  The heap is a slice of route addresses; \<open>hIndex\<close> holds
  each route's \<^verbatim>\<open>index\<close> field (\<open>-1\<close>: not in the heap), which \<open>Swap\<close>, \<open>Push\<close> and \<open>Pop\<close> maintain.
  \<open>dl\<close> gives each route's deadline.
\<close>

record dheap =
  hList :: "addr list"
  hIndex :: "addr \<Rightarrow> int"

definition emptyHeap :: dheap where
  "emptyHeap = \<lparr>hList = [], hIndex = (\<lambda>_. - 1)\<rparr>"

definition heapLess :: "(addr \<Rightarrow> time) \<Rightarrow> dheap \<Rightarrow> nat \<Rightarrow> nat \<Rightarrow> bool" where
  "heapLess dl h i j \<longleftrightarrow> dl (hList h ! i) < dl (hList h ! j)"

definition heapSwap :: "nat \<Rightarrow> nat \<Rightarrow> dheap \<Rightarrow> dheap" where
  "heapSwap i j h =
     (let xs = hList h; ys = xs[i := xs ! j, j := xs ! i] in
      h\<lparr>hList := ys, hIndex := (hIndex h)(ys ! i := int i, ys ! j := int j)\<rparr>)"

text \<open>The methods \<^verbatim>\<open>Push\<close> and \<^verbatim>\<open>Pop\<close> of \<^verbatim>\<open>deadlineHeap\<close>: append, and take the last.\<close>

definition sliceAppend :: "addr \<Rightarrow> dheap \<Rightarrow> dheap" where
  "sliceAppend a h = h\<lparr>hIndex := (hIndex h)(a := int (length (hList h))), hList := hList h @ [a]\<rparr>"

definition slicePop :: "dheap \<Rightarrow> dheap \<times> addr" where
  "slicePop h =
     (let a = last (hList h) in
      (h\<lparr>hList := butlast (hList h), hIndex := (hIndex h)(a := - 1)\<rparr>, a))"

definition par :: "nat \<Rightarrow> nat" where
  "par c = (c - 1) div 2"

lemma par_lt: "0 < c \<Longrightarrow> par c < c"
  by (auto simp: par_def div_less_dividend)

lemma par_le: "par c \<le> c"
  by (simp add: par_def)

lemma par_children: "0 < c \<Longrightarrow> par c = i \<longleftrightarrow> c = 2 * i + 1 \<or> c = 2 * i + 2"
  by (auto simp: par_def)

function up :: "(addr \<Rightarrow> time) \<Rightarrow> nat \<Rightarrow> dheap \<Rightarrow> dheap" where
  "up dl j h =
     (let i = par j in
      if i = j \<or> \<not> heapLess dl h j i then h else up dl i (heapSwap i j h))"
  by pat_completeness auto
termination
  by (relation "measure (\<lambda>(dl, j, h). j)") (auto intro: le_neq_implies_less par_le)

function downFrom :: "(addr \<Rightarrow> time) \<Rightarrow> nat \<Rightarrow> nat \<Rightarrow> dheap \<Rightarrow> dheap \<times> nat" where
  "downFrom dl i n h =
     (let j1 = 2 * i + 1 in
      if j1 \<ge> n then (h, i)
      else
        (let j = (if j1 + 1 < n \<and> heapLess dl h (j1 + 1) j1 then j1 + 1 else j1) in
         if \<not> heapLess dl h j i then (h, i) else downFrom dl j n (heapSwap i j h)))"
  by pat_completeness auto
termination
  by (relation "measure (\<lambda>(dl, i, n, h). n - i)") (auto split: if_splits)

declare up.simps [simp del] downFrom.simps [simp del]

text \<open>\<^verbatim>\<open>down\<close> also reports whether it moved.\<close>

definition down :: "(addr \<Rightarrow> time) \<Rightarrow> nat \<Rightarrow> nat \<Rightarrow> dheap \<Rightarrow> dheap \<times> bool" where
  "down dl i0 n h = (case downFrom dl i0 n h of (h', i) \<Rightarrow> (h', i0 < i))"

definition heapPush :: "(addr \<Rightarrow> time) \<Rightarrow> addr \<Rightarrow> dheap \<Rightarrow> dheap" where
  "heapPush dl a h = (let h' = sliceAppend a h in up dl (length (hList h') - 1) h')"

definition heapPop :: "(addr \<Rightarrow> time) \<Rightarrow> dheap \<Rightarrow> dheap \<times> addr" where
  "heapPop dl h =
     (let n = length (hList h) - 1; h1 = heapSwap 0 n h; h2 = fst (down dl 0 n h1) in slicePop h2)"

definition heapRemove :: "(addr \<Rightarrow> time) \<Rightarrow> nat \<Rightarrow> dheap \<Rightarrow> dheap \<times> addr" where
  "heapRemove dl i h =
     (let n = length (hList h) - 1 in
      if n \<noteq> i then
        (let h1 = heapSwap i n h; (h2, moved) = down dl i n h1 in
         slicePop (if moved then h2 else up dl i h2))
      else slicePop h)"

section \<open>The interface: a queue ordered by deadline\<close>

text \<open>Popping everything that is due, as the expiry loop does: \<open>fuel\<close> bounds the number of pops.\<close>

fun takeDue :: "nat \<Rightarrow> ('q \<Rightarrow> bool) \<Rightarrow> ('q \<Rightarrow> 'q \<times> 'a) \<Rightarrow> 'q \<Rightarrow> 'q \<times> 'a list" where
  "takeDue 0 due pp q = (q, [])"
| "takeDue (Suc n) due pp q =
     (if due q then (case pp q of (q', a) \<Rightarrow> (case takeDue n due pp q' of (q'', as) \<Rightarrow> (q'', a # as)))
      else (q, []))"

locale deadline_queue =
  fixes elems :: "'q \<Rightarrow> 'a multiset"
    and invar :: "'q \<Rightarrow> bool"
    and dl :: "'a \<Rightarrow> int"
    and first :: "'q \<Rightarrow> 'a"
    and pp :: "'q \<Rightarrow> 'q \<times> 'a"
  assumes pop_elems: "invar q \<Longrightarrow> elems q \<noteq> {#} \<Longrightarrow> pp q = (q', a) \<Longrightarrow>
      a \<in># elems q \<and> elems q' = elems q - {#a#} \<and> invar q' \<and> a = first q"
    and first_min: "invar q \<Longrightarrow> b \<in># elems q \<Longrightarrow> dl (first q) \<le> dl b"
begin

lemma takeDue_spec:
  "invar q \<Longrightarrow> size (elems q) \<le> n \<Longrightarrow>
     takeDue n (\<lambda>q. elems q \<noteq> {#} \<and> dl (first q) \<le> now) pp q = (q', as) \<Longrightarrow>
     invar q' \<and> elems q = mset as + elems q' \<and> (\<forall>a \<in> set as. dl a \<le> now) \<and> (\<forall>a \<in># elems q'. now < dl a) \<and>
     sorted (map dl as)"
proof (induction n arbitrary: q as)
  case 0
  then show ?case by auto
next
  case (Suc n)
  show ?case
  proof (cases "elems q \<noteq> {#} \<and> dl (first q) \<le> now")
    case False
    with Suc.prems first_min [OF Suc.prems(1)] show ?thesis
      by (auto split: if_splits) (meson not_le order_trans)+
  next
    case True
    obtain q1 a as' where p: "pp q = (q1, a)"
      and t: "takeDue n (\<lambda>q. elems q \<noteq> {#} \<and> dl (first q) \<le> now) pp q1 = (q', as')" "as = a # as'"
      using True Suc.prems(3) by (auto split: prod.splits)
    have e: "a \<in># elems q" "elems q1 = elems q - {#a#}" "invar q1" "a = first q"
      using pop_elems [OF Suc.prems(1) _ p] True by auto
    have "size (elems q1) \<le> n" using e Suc.prems(2) by (simp add: size_Diff_singleton)
    from Suc.IH [OF e(3) this t(1)] have IH: "invar q'" "elems q1 = mset as' + elems q'"
      "\<forall>a \<in> set as'. dl a \<le> now" "\<forall>a \<in># elems q'. now < dl a" "sorted (map dl as')" by auto
    have "elems q = mset as + elems q'" using e IH(2) t(2) by (metis (no_types) add_mset_add_single
          insert_DiffM mset.simps(2) union_mset_add_mset_left)
    moreover have "dl a \<le> dl b" if "b \<in> set as'" for b
    proof -
      from that IH(2) have "b \<in># elems q1" by simp
      then have "b \<in># elems q" using e(2) in_diffD by metis
      then show ?thesis using first_min [OF Suc.prems(1)] e(4) by simp
    qed
    ultimately show ?thesis using IH t(2) True e(4) by auto
  qed
qed

end

section \<open>Invariants\<close>

definition indexOk :: "dheap \<Rightarrow> bool" where
  "indexOk h \<longleftrightarrow> (\<forall>i < length (hList h). hIndex h (hList h ! i) = int i) \<and>
     (\<forall>a. a \<notin> set (hList h) \<longrightarrow> hIndex h a = - 1)"

lemma indexOk_distinct: "indexOk h \<Longrightarrow> distinct (hList h)"
  by (metis distinct_conv_nth indexOk_def of_nat_eq_iff)

lemma heapSwap_length [simp]: "length (hList (heapSwap i j h)) = length (hList h)"
  by (simp add: heapSwap_def Let_def)

lemma heapSwap_nth:
  "i < length (hList h) \<Longrightarrow> j < length (hList h) \<Longrightarrow> k < length (hList h) \<Longrightarrow>
     hList (heapSwap i j h) ! k = (if k = j then hList h ! i else if k = i then hList h ! j else hList h ! k)"
  by (simp add: heapSwap_def Let_def nth_list_update)

lemma heapSwap_mset:
  "i < length (hList h) \<Longrightarrow> j < length (hList h) \<Longrightarrow> mset (hList (heapSwap i j h)) = mset (hList h)"
  by (simp add: heapSwap_def Let_def mset_swap)

lemma heapSwap_index:
  assumes "indexOk h" "i < length (hList h)" "j < length (hList h)"
  shows "indexOk (heapSwap i j h)"
proof -
  let ?h = "heapSwap i j h"
  have d: "distinct (hList h)" using assms(1) by (rule indexOk_distinct)
  have s: "set (hList ?h) = set (hList h)" using heapSwap_mset [OF assms(2,3)] by (metis set_mset_mset)
  have ix: "hIndex ?h = (hIndex h)(hList ?h ! i := int i, hList ?h ! j := int j)"
    by (simp add: heapSwap_def Let_def)
  have "hIndex ?h (hList ?h ! k) = int k" if "k < length (hList h)" for k
    using that assms d heapSwap_nth [OF assms(2,3)] ix
    by (auto simp: indexOk_def nth_eq_iff_index_eq)
  moreover have "hIndex ?h a = - 1" if "a \<notin> set (hList h)" for a
    using that assms heapSwap_nth [OF assms(2,3)] ix by (auto simp: indexOk_def)
  ultimately show ?thesis using s by (auto simp: indexOk_def)
qed

text \<open>One induction over the \<open>up\<close> loop serves every structural fact about it.\<close>

lemma up_struct:
  "indexOk h \<Longrightarrow> j < length (hList h) \<Longrightarrow>
     indexOk (up dl j h) \<and> mset (hList (up dl j h)) = mset (hList h) \<and> length (hList (up dl j h)) = length (hList h) \<and>
     (\<forall>k. j < k \<and> k < length (hList h) \<longrightarrow> hList (up dl j h) ! k = hList h ! k)"
proof (induction dl j h rule: up.induct)
  case (1 dl j h)
  show ?case
  proof (cases "par j = j \<or> \<not> heapLess dl h j (par j)")
    case True
    then show ?thesis using "1.prems" by (subst (1 2 3 4) up.simps) (auto simp: Let_def)
  next
    case False
    have p: "par j < j" using False par_le [of j] by linarith
    have lt: "par j < length (hList h)" using p "1.prems" by simp
    let ?h = "heapSwap (par j) j h"
    have ih: "indexOk (up dl (par j) ?h) \<and> mset (hList (up dl (par j) ?h)) = mset (hList ?h) \<and>
        length (hList (up dl (par j) ?h)) = length (hList ?h) \<and>
        (\<forall>k. par j < k \<and> k < length (hList ?h) \<longrightarrow> hList (up dl (par j) ?h) ! k = hList ?h ! k)"
      using "1.IH" [OF refl False] heapSwap_index [OF "1.prems"(1) lt "1.prems"(2)] lt by simp
    have "up dl j h = up dl (par j) ?h" using False by (subst up.simps) (simp add: Let_def)
    moreover have "hList ?h ! k = hList h ! k" if "j < k" "k < length (hList h)" for k
      using heapSwap_nth [OF lt "1.prems"(2) that(2)] that(1) p by simp
    ultimately show ?thesis using ih p heapSwap_mset [OF lt "1.prems"(2)] by simp
  qed
qed

text \<open>
  The order arguments look only at the deadlines by position, \<open>vals\<close>, on which a swap is a pair of
  function updates.
\<close>

definition vals :: "(addr \<Rightarrow> time) \<Rightarrow> dheap \<Rightarrow> nat \<Rightarrow> time" where
  "vals dl h k = dl (hList h ! k)"

lemma vals_swap:
  "i < length (hList h) \<Longrightarrow> j < length (hList h) \<Longrightarrow>
     vals dl (heapSwap i j h) = (vals dl h)(i := vals dl h j, j := vals dl h i)"
  by (rule ext) (auto simp: vals_def heapSwap_def Let_def nth_list_update)

lemma heapLess_vals: "heapLess dl h i j \<longleftrightarrow> vals dl h i < vals dl h j"
  by (simp add: heapLess_def vals_def)

text \<open>
  \<open>ordN v n\<close>: every edge between the first \<open>n\<close> positions is ordered.  \<open>upReady\<close>
  and \<open>downReady\<close> say that the only violation is between a position and its parent, or its children.
\<close>

definition ordN :: "(nat \<Rightarrow> time) \<Rightarrow> nat \<Rightarrow> bool" where
  "ordN v n \<longleftrightarrow> (\<forall>c. c < n \<longrightarrow> 0 < c \<longrightarrow> v (par c) \<le> v c)"

definition upReady :: "(nat \<Rightarrow> time) \<Rightarrow> nat \<Rightarrow> nat \<Rightarrow> bool" where
  "upReady v j n \<longleftrightarrow>
     (\<forall>c. c < n \<longrightarrow> 0 < c \<longrightarrow> c \<noteq> j \<longrightarrow> v (par c) \<le> v c) \<and>
     (\<forall>c. c < n \<longrightarrow> 0 < c \<longrightarrow> par c = j \<longrightarrow> 0 < j \<longrightarrow> v (par j) \<le> v c)"

definition downReady :: "(nat \<Rightarrow> time) \<Rightarrow> nat \<Rightarrow> nat \<Rightarrow> bool" where
  "downReady v i n \<longleftrightarrow>
     (\<forall>c. c < n \<longrightarrow> 0 < c \<longrightarrow> c \<noteq> i \<longrightarrow> par c \<noteq> i \<longrightarrow> v (par c) \<le> v c) \<and>
     (\<forall>c. c < n \<longrightarrow> 0 < c \<longrightarrow> par c = i \<longrightarrow> 0 < i \<longrightarrow> v (par i) \<le> v c)"

lemma upReady_swap:
  assumes r: "upReady v j n" and j: "0 < j" and lt: "v j < v (par j)"
  shows "upReady (v(par j := v j, j := v (par j))) (par j) n"
proof -
  let ?w = "v(par j := v j, j := v (par j))"
  have pj: "par j < j" using j by (rule par_lt)
  have r1: "v (par c) \<le> v c" if "c < n" "0 < c" "c \<noteq> j" for c using r that by (simp add: upReady_def)
  have r2: "v (par j) \<le> v c" if "c < n" "0 < c" "par c = j" for c using r j that by (simp add: upReady_def)
  have "?w (par c) \<le> ?w c" if c: "c < n" "0 < c" "c \<noteq> par j" for c
  proof -
    have pc: "par c < c" using c(2) by (rule par_lt)
    show ?thesis using r1 [OF c(1,2)] r2 [OF c(1,2)] lt pj pc c(3) by (auto simp: fun_upd_apply)
  qed
  moreover have "?w (par (par j)) \<le> ?w c" if c: "c < n" "0 < c" "par c = par j" "0 < par j" for c
  proof -
    have pp: "par (par j) < par j" using c(4) by (rule par_lt)
    have pc: "par j < c" using par_lt [OF c(2)] c(3) by simp
    have "v (par (par j)) \<le> v (par j)" if "par j < n" using r1 [of "par j"] that c(4) pj by simp
    moreover have "par j < n" using pc c(1) by simp
    ultimately show ?thesis using r1 [OF c(1,2)] c(3) pp pc pj by (auto simp: fun_upd_apply)
  qed
  ultimately show ?thesis by (simp add: upReady_def)
qed

lemma up_ord:
  "upReady (vals dl h) j n \<Longrightarrow> j < length (hList h) \<Longrightarrow> ordN (vals dl (up dl j h)) n"
proof (induction dl j h rule: up.induct)
  case (1 dl j h)
  show ?case
  proof (cases "par j = j \<or> \<not> heapLess dl h j (par j)")
    case True
    have "vals dl h (par j) \<le> vals dl h j" if "0 < j"
      using True that par_lt [OF that] by (simp add: heapLess_vals)
    with "1.prems"(1) have "ordN (vals dl h) n" unfolding ordN_def upReady_def by blast
    then show ?thesis using True by (subst up.simps) (simp add: Let_def)
  next
    case False
    have p: "par j < j" using False par_le [of j] by linarith
    have lt: "vals dl h j < vals dl h (par j)" using False by (simp add: heapLess_vals)
    have l: "par j < length (hList h)" using p "1.prems"(2) by simp
    have "upReady (vals dl (heapSwap (par j) j h)) (par j) n"
      unfolding vals_swap [OF l "1.prems"(2)] using "1.prems"(1) p lt by (intro upReady_swap) simp_all
    then have "ordN (vals dl (up dl (par j) (heapSwap (par j) j h))) n"
      using "1.IH" [OF refl False] l by simp
    moreover have "up dl j h = up dl (par j) (heapSwap (par j) j h)"
      using False by (subst up.simps) (simp add: Let_def)
    ultimately show ?thesis by simp
  qed
qed

lemma downReady_swap:
  assumes r: "downReady v i n" and c: "0 < j" "par j = i" "j < n" and lt: "v j < v i"
    and small: "\<And>c. c < n \<Longrightarrow> 0 < c \<Longrightarrow> par c = i \<Longrightarrow> v j \<le> v c"
  shows "downReady (v(i := v j, j := v i)) j n \<and> (v(i := v j, j := v i)) (par j) \<le> (v(i := v j, j := v i)) j"
proof -
  let ?w = "v(i := v j, j := v i)"
  have ij: "i < j" using par_lt [OF c(1)] c(2) by simp
  have r1: "v (par c) \<le> v c" if "c < n" "0 < c" "c \<noteq> i" "par c \<noteq> i" for c
    using r that by (simp add: downReady_def)
  have r2: "v (par i) \<le> v j" if "0 < i" using r that c by (simp add: downReady_def)
  have "?w (par k) \<le> ?w k" if k: "k < n" "0 < k" "k \<noteq> j" "par k \<noteq> j" for k
  proof -
    have pk: "par k < k" using k(2) by (rule par_lt)
    show ?thesis using r1 [OF k(1,2)] r2 small [OF k(1,2)] k pk ij by (auto simp: fun_upd_apply)
  qed
  moreover have "?w (par j) \<le> ?w k" if k: "k < n" "0 < k" "par k = j" for k
  proof -
    have pk: "par k < k" using k(2) by (rule par_lt)
    show ?thesis using r1 [OF k(1,2)] k pk ij c by (auto simp: fun_upd_apply)
  qed
  ultimately show ?thesis using lt c ij by (simp add: downReady_def)
qed

lemma downReady_stop:
  "downReady v i n \<Longrightarrow> (\<And>c. c < n \<Longrightarrow> 0 < c \<Longrightarrow> par c = i \<Longrightarrow> v i \<le> v c) \<Longrightarrow> upReady v i n"
  unfolding downReady_def upReady_def by blast

lemma upReady_ord: "upReady v i n \<Longrightarrow> (0 < i \<Longrightarrow> v (par i) \<le> v i) \<Longrightarrow> ordN v n"
  unfolding ordN_def upReady_def by blast

text \<open>The child the loop compares with, \<open>minChild\<close>, has the smaller deadline of the two.\<close>

definition minChild :: "(addr \<Rightarrow> time) \<Rightarrow> dheap \<Rightarrow> nat \<Rightarrow> nat \<Rightarrow> nat" where
  "minChild dl h i n =
     (let j1 = 2 * i + 1 in if j1 + 1 < n \<and> heapLess dl h (j1 + 1) j1 then j1 + 1 else j1)"

lemma minChild_props:
  assumes "2 * i + 1 < n"
  shows "0 < minChild dl h i n" "par (minChild dl h i n) = i" "minChild dl h i n < n" "i < minChild dl h i n"
    "\<And>c. c < n \<Longrightarrow> 0 < c \<Longrightarrow> par c = i \<Longrightarrow> vals dl h (minChild dl h i n) \<le> vals dl h c"
  using assms by (auto simp: minChild_def Let_def heapLess_vals par_children)

lemma downFrom_unfold:
  "downFrom dl i n h =
     (if 2 * i + 1 \<ge> n \<or> \<not> heapLess dl h (minChild dl h i n) i then (h, i)
      else downFrom dl (minChild dl h i n) n (heapSwap i (minChild dl h i n) h))"
  by (subst downFrom.simps) (simp add: Let_def minChild_def)

lemma downFrom_struct:
  "indexOk h \<Longrightarrow> n \<le> length (hList h) \<Longrightarrow> i < length (hList h) \<Longrightarrow> downFrom dl i n h = (h', i') \<Longrightarrow>
     indexOk h' \<and> mset (hList h') = mset (hList h) \<and> length (hList h') = length (hList h) \<and> i \<le> i' \<and>
     (\<forall>k. n \<le> k \<longrightarrow> hList h' ! k = hList h ! k)"
proof (induction "n - i" arbitrary: i h rule: less_induct)
  case less
  let ?j = "minChild dl h i n"
  show ?case
  proof (cases "2 * i + 1 \<ge> n \<or> \<not> heapLess dl h ?j i")
    case True
    then show ?thesis using less.prems downFrom_unfold [of dl i n h] by simp
  next
    case False
    then have j: "?j < n" "i < ?j" using minChild_props [where dl = dl and h = h and i = i and n = n] by auto
    have l: "i < length (hList h)" "?j < length (hList h)" using j less.prems by auto
    let ?h = "heapSwap i ?j h"
    have d: "downFrom dl ?j n ?h = (h', i')" using False less.prems(4) downFrom_unfold [of dl i n h] by simp
    have ih: "indexOk h' \<and> mset (hList h') = mset (hList ?h) \<and> length (hList h') = length (hList ?h) \<and> ?j \<le> i' \<and>
        (\<forall>k. n \<le> k \<longrightarrow> hList h' ! k = hList ?h ! k)"
      by (rule less.hyps [OF _ _ _ _ d]) (use j l less.prems heapSwap_index [OF less.prems(1) l] in auto)
    have "hList ?h ! k = hList h ! k" if "n \<le> k" for k
      using that j by (simp add: heapSwap_def Let_def)
    then show ?thesis using ih j heapSwap_mset [OF l] by auto
  qed
qed

lemma downFrom_ord:
  "downReady (vals dl h) i n \<Longrightarrow> n \<le> length (hList h) \<Longrightarrow> downFrom dl i n h = (h', i') \<Longrightarrow>
     (i' = i \<and> h' = h \<and> upReady (vals dl h) i n) \<or> (i < i' \<and> ordN (vals dl h') n)"
proof (induction "n - i" arbitrary: i h rule: less_induct)
  case less
  let ?j = "minChild dl h i n"
  show ?case
  proof (cases "2 * i + 1 \<ge> n \<or> \<not> heapLess dl h ?j i")
    case True
    have "vals dl h i \<le> vals dl h c" if c: "c < n" "0 < c" "par c = i" for c
    proof -
      have "2 * i + 1 < n" using c par_children [of c i] by auto
      then show ?thesis using True minChild_props(5) [where dl = dl and h = h and i = i and n = n and c = c] c by (simp add: heapLess_vals)
    qed
    then have "upReady (vals dl h) i n" using less.prems(1) by (rule downReady_stop [rotated])
    then show ?thesis using True less.prems(3) downFrom_unfold [of dl i n h] by simp
  next
    case False
    then have j: "0 < ?j" "par ?j = i" "?j < n" "i < ?j"
      "\<And>c. c < n \<Longrightarrow> 0 < c \<Longrightarrow> par c = i \<Longrightarrow> vals dl h ?j \<le> vals dl h c"
      using minChild_props [where dl = dl and h = h and i = i and n = n] by auto
    have l: "i < length (hList h)" "?j < length (hList h)" using j less.prems by auto
    let ?h = "heapSwap i ?j h"
    have sw: "downReady (vals dl ?h) ?j n \<and> vals dl ?h (par ?j) \<le> vals dl ?h ?j"
      unfolding vals_swap [OF l]
      by (rule downReady_swap [OF less.prems(1) j(1-3) _ j(5)]) (use False in \<open>simp_all add: heapLess_vals\<close>)
    have d: "downFrom dl ?j n ?h = (h', i')" using False less.prems(3) downFrom_unfold [of dl i n h] by simp
    have "(i' = ?j \<and> h' = ?h \<and> upReady (vals dl ?h) ?j n) \<or> (?j < i' \<and> ordN (vals dl h') n)"
      by (rule less.hyps [OF _ _ _ d]) (use j l less.prems sw in auto)
    then show ?thesis using sw j(4) upReady_ord [of "vals dl ?h" ?j n] by auto
  qed
qed

definition heapInv :: "(addr \<Rightarrow> time) \<Rightarrow> dheap \<Rightarrow> bool" where
  "heapInv dl h \<longleftrightarrow> indexOk h \<and> ordN (vals dl h) (length (hList h))"

lemma heapInv_empty: "heapInv dl emptyHeap"
  by (simp add: heapInv_def indexOk_def ordN_def emptyHeap_def)

lemma heapInv_index: "heapInv dl h \<Longrightarrow> indexOk h"
  by (simp add: heapInv_def)

lemma root_min_at: "ordN v n \<Longrightarrow> k < n \<Longrightarrow> v 0 \<le> v k"
proof (induction k rule: less_induct)
  case (less k)
  show ?case
  proof (cases "k = 0")
    case False
    then have "par k < k" using par_lt by simp
    moreover from this have "v 0 \<le> v (par k)" using less by simp
    moreover have "v (par k) \<le> v k" using less.prems False unfolding ordN_def by blast
    ultimately show ?thesis by simp
  qed simp
qed

lemma root_min: "heapInv dl h \<Longrightarrow> b \<in> set (hList h) \<Longrightarrow> dl (hList h ! 0) \<le> dl b"
  using root_min_at [of "vals dl h" "length (hList h)"]
  by (metis heapInv_def in_set_conv_nth vals_def)

lemma ordN_cong: "(\<And>k. k < n \<Longrightarrow> v k = w k) \<Longrightarrow> ordN v n = ordN w n"
  unfolding ordN_def using par_le order_le_less_trans by metis

lemma slicePop_spec:
  assumes "indexOk h" "hList h \<noteq> []" "ordN (vals dl h) (length (hList h) - 1)" "slicePop h = (h', a)"
  shows "heapInv dl h' \<and> a = last (hList h) \<and> mset (hList h) = add_mset a (mset (hList h'))"
proof -
  obtain ys a' where xs: "hList h = ys @ [a']" using assms(2) rev_exhaust by blast
  have h': "a = a'" "hList h' = ys" "hIndex h' = (hIndex h)(a' := - 1)"
    using assms(4) xs by (auto simp: slicePop_def Let_def)
  have d: "distinct (ys @ [a'])" using indexOk_distinct [OF assms(1)] xs by simp
  have "hIndex h' (ys ! i) = int i" if "i < length ys" for i
  proof -
    have "hIndex h (hList h ! i) = int i" using assms(1) that xs by (simp add: indexOk_def)
    moreover have "ys ! i \<noteq> a'" using d that by (metis distinct_append disjoint_iff list.set_intros(1) nth_mem)
    ultimately show ?thesis using that xs h' by (simp add: nth_append)
  qed
  moreover have "hIndex h' b = - 1" if "b \<notin> set ys" for b
    using assms(1) that xs h' by (auto simp: indexOk_def)
  ultimately have "indexOk h'" using h' by (simp add: indexOk_def)
  moreover have "ordN (vals dl h') (length ys)"
    using assms(3) xs h' ordN_cong [of "length ys" "vals dl h'" "vals dl h"] by (simp add: vals_def nth_append)
  ultimately show ?thesis using h' xs by (simp add: heapInv_def)
qed

lemma heapPush_spec:
  assumes "heapInv dl h" "a \<notin> set (hList h)"
  shows "heapInv dl (heapPush dl a h) \<and> mset (hList (heapPush dl a h)) = add_mset a (mset (hList h))"
proof -
  let ?h = "sliceAppend a h" and ?n = "length (hList h)"
  have l: "hList ?h = hList h @ [a]" "hIndex ?h = (hIndex h)(a := int ?n)"
    by (simp_all add: sliceAppend_def)
  have ix: "indexOk ?h" using assms by (auto simp: indexOk_def heapInv_def l nth_append less_Suc_eq)
  have "upReady (vals dl ?h) ?n (Suc ?n)"
  proof -
    have "vals dl ?h (par c) \<le> vals dl ?h c" if c: "c < ?n" "0 < c" for c
      using assms(1) c par_lt [OF c(2)] by (auto simp: heapInv_def ordN_def vals_def l nth_append)
    moreover have "par c \<noteq> ?n" if "c < Suc ?n" "0 < c" for c using par_lt [OF that(2)] that(1) by simp
    ultimately show ?thesis by (auto simp: upReady_def less_Suc_eq)
  qed
  then have "ordN (vals dl (up dl ?n ?h)) (Suc ?n)" by (rule up_ord) (simp add: l)
  moreover have "heapPush dl a h = up dl ?n ?h" by (simp add: heapPush_def Let_def l)
  ultimately show ?thesis using up_struct [OF ix, of ?n dl] by (simp add: heapInv_def l)
qed

lemma swap_last_ready:
  assumes "heapInv dl h" "i < n" "n = length (hList h) - 1"
  shows "downReady (vals dl (heapSwap i n h)) i n"
proof -
  have l: "i < length (hList h)" "n < length (hList h)" using assms by auto
  have o: "vals dl h (par c) \<le> vals dl h c" if "c < n" "0 < c" for c
    using assms that unfolding heapInv_def ordN_def by simp
  have g: "vals dl h (par i) \<le> vals dl h c" if "c < n" "0 < c" "par c = i" "0 < i" for c
    using o [of c] o [of i] that assms(2) by simp
  have pl: "par c < n" if "c < n" for c using par_le [of c] that by simp
  have pi: "par i \<noteq> i" "par c \<noteq> c" if "0 < i" "0 < c" for c using par_lt that by (metis less_irrefl)+
  show ?thesis unfolding vals_swap [OF l] downReady_def
    using o g pl pi assms(2) by (auto simp: fun_upd_apply)
qed

lemma heapPop_spec:
  assumes "heapInv dl h" "hList h \<noteq> []" "heapPop dl h = (h', a)"
  shows "heapInv dl h' \<and> a = hList h ! 0 \<and> mset (hList h) = add_mset a (mset (hList h'))"
proof -
  let ?n = "length (hList h) - 1"
  let ?h1 = "heapSwap 0 ?n h"
  obtain h2 i2 where d: "downFrom dl 0 ?n ?h1 = (h2, i2)" by fastforce
  have l: "0 < length (hList h)" "?n < length (hList h)" using assms(2) by auto
  have ix: "indexOk ?h1" using heapSwap_index [OF heapInv_index [OF assms(1)] l] .
  have s: "indexOk h2 \<and> mset (hList h2) = mset (hList ?h1) \<and> length (hList h2) = length (hList ?h1) \<and>
      (\<forall>k. ?n \<le> k \<longrightarrow> hList h2 ! k = hList ?h1 ! k)"
    using downFrom_struct [OF ix _ _ d] l by simp
  have o: "ordN (vals dl h2) ?n"
  proof (cases "?n = 0")
    case False
    then have "downReady (vals dl ?h1) 0 ?n" using swap_last_ready [OF assms(1)] by simp
    from downFrom_ord [OF this _ d] show ?thesis using upReady_ord by auto
  qed (simp add: ordN_def)
  have p: "slicePop h2 = (h', a)" using assms(3) d by (simp add: heapPop_def Let_def down_def)
  have ne: "hList h2 \<noteq> []" using s assms(2) by (metis heapSwap_length length_0_conv)
  have "last (hList h2) = hList h ! 0"
    using s ne l heapSwap_nth [OF l l(2)] by (simp add: last_conv_nth)
  then show ?thesis using slicePop_spec [OF _ ne _ p, of dl] s o heapSwap_mset [OF l] by simp
qed

lemma heapRemove_spec:
  assumes "heapInv dl h" "i < length (hList h)" "heapRemove dl i h = (h', a)"
  shows "heapInv dl h' \<and> a = hList h ! i \<and> mset (hList h) = add_mset a (mset (hList h'))"
proof (cases "i = length (hList h) - 1")
  case True
  have "ordN (vals dl h) (length (hList h) - 1)" using assms(1) by (simp add: heapInv_def ordN_def)
  moreover have "slicePop h = (h', a)" using assms(3) True by (simp add: heapRemove_def Let_def)
  moreover have "hList h \<noteq> []" using assms(2) by auto
  ultimately show ?thesis
    using slicePop_spec [OF heapInv_index [OF assms(1)]] True by (simp add: last_conv_nth)
next
  case False
  let ?n = "length (hList h) - 1"
  let ?h1 = "heapSwap i ?n h"
  have lt: "i < ?n" using False assms(2) by simp
  obtain h2 i2 where d: "downFrom dl i ?n ?h1 = (h2, i2)" by fastforce
  have l: "i < length (hList h)" "?n < length (hList h)" using assms(2) by auto
  have ix: "indexOk ?h1" using heapSwap_index [OF heapInv_index [OF assms(1)] l] .
  have s: "indexOk h2 \<and> mset (hList h2) = mset (hList ?h1) \<and> length (hList h2) = length (hList h) \<and>
      (\<forall>k. ?n \<le> k \<longrightarrow> hList h2 ! k = hList ?h1 ! k)"
    using downFrom_struct [OF ix _ _ d] l by simp
  have o: "(i2 = i \<and> h2 = ?h1 \<and> upReady (vals dl ?h1) i ?n) \<or> (i < i2 \<and> ordN (vals dl h2) ?n)"
    using downFrom_ord [OF swap_last_ready [OF assms(1) lt refl] _ d] by simp
  define h3 where "h3 = (if i < i2 then h2 else up dl i h2)"
  have u: "indexOk (up dl i h2) \<and> mset (hList (up dl i h2)) = mset (hList h2) \<and>
      length (hList (up dl i h2)) = length (hList h2) \<and>
      (\<forall>k. i < k \<and> k < length (hList h2) \<longrightarrow> hList (up dl i h2) ! k = hList h2 ! k)"
    using up_struct [of h2 i dl] s l by simp
  have len: "length (hList h3) = length (hList h)" "indexOk h3" "mset (hList h3) = mset (hList h)"
    using u s heapSwap_mset [OF l] by (simp_all add: h3_def)
  have "ordN (vals dl h3) ?n" using o up_ord [of dl h2 i ?n] s l by (auto simp: h3_def)
  moreover have "slicePop h3 = (h', a)"
    using assms(3) d False by (auto simp: heapRemove_def Let_def down_def h3_def)
  moreover have ne: "hList h3 \<noteq> []" using len(1) l by auto
  moreover have "hList h3 ! ?n = hList h ! i"
    using u s l lt heapSwap_nth [OF l l(2)] by (simp add: h3_def)
  ultimately show ?thesis using slicePop_spec [OF len(2)] len by (simp add: last_conv_nth)
qed

interpretation dq: deadline_queue "\<lambda>h. mset (hList h)" "heapInv dl" dl "\<lambda>h. hList h ! 0" "heapPop dl" for dl
  using heapPop_spec root_min by unfold_locales (auto simp: in_multiset_in_set)

section \<open>What the router sees of the heap\<close>

text \<open>\<^verbatim>\<open>untrack\<close>: a route leaves the heap at the position its own \<^verbatim>\<open>index\<close> field names.\<close>

definition untrackHeap :: "(addr \<Rightarrow> time) \<Rightarrow> addr \<Rightarrow> dheap \<Rightarrow> dheap" where
  "untrackHeap dl a h = (if hIndex h a \<ge> 0 then fst (heapRemove dl (nat (hIndex h a)) h) else h)"

text \<open>The inner loop of \<^verbatim>\<open>expireLoop\<close> on the heap alone.\<close>

definition expireDue :: "(addr \<Rightarrow> time) \<Rightarrow> time \<Rightarrow> dheap \<Rightarrow> dheap \<times> addr list" where
  "expireDue dl now h =
     takeDue (length (hList h)) (\<lambda>h. mset (hList h) \<noteq> {#} \<and> dl (hList h ! 0) \<le> now) (heapPop dl) h"

lemma index_member: "indexOk h \<Longrightarrow> 0 \<le> hIndex h a \<longleftrightarrow> a \<in> set (hList h)"
  unfolding indexOk_def by (metis in_set_conv_nth neg_0_le_iff_le not_one_le_zero of_nat_0_le_iff)

lemma index_nth: "indexOk h \<Longrightarrow> a \<in> set (hList h) \<Longrightarrow>
    nat (hIndex h a) < length (hList h) \<and> hList h ! nat (hIndex h a) = a"
  unfolding indexOk_def by (metis in_set_conv_nth nat_int)

lemma untrackHeap_spec:
  assumes "heapInv dl h"
  shows "heapInv dl (untrackHeap dl a h) \<and> set (hList (untrackHeap dl a h)) = set (hList h) - {a}"
proof (cases "a \<in> set (hList h)")
  case True
  have ix: "indexOk h" using assms by (rule heapInv_index)
  obtain h' b where r: "heapRemove dl (nat (hIndex h a)) h = (h', b)" by fastforce
  have n: "nat (hIndex h a) < length (hList h)" "hList h ! nat (hIndex h a) = a"
    using index_nth [OF ix True] by auto
  have m: "heapInv dl h'" "b = a" "mset (hList h) = add_mset a (mset (hList h'))"
    using heapRemove_spec [OF assms n(1) r] n(2) by auto
  have "distinct (hList h)" using indexOk_distinct [OF ix] .
  then have "a \<notin> set (hList h')" using m(3) by (metis distinct.simps(2) mset.simps(2) mset_eq_imp_distinct_iff)
  moreover have "set (hList h) = insert a (set (hList h'))" using m(3) by (metis set_mset_add_mset_insert set_mset_mset)
  ultimately show ?thesis using r m True index_member [OF ix] by (simp add: untrackHeap_def)
next
  case False
  then show ?thesis using assms index_member [OF heapInv_index [OF assms]] by (simp add: untrackHeap_def)
qed

lemma heapPush_set:
  assumes "heapInv dl h" "a \<notin> set (hList h)"
  shows "heapInv dl (heapPush dl a h) \<and> set (hList (heapPush dl a h)) = insert a (set (hList h))"
  using heapPush_spec [OF assms] by (metis set_mset_add_mset_insert set_mset_mset)

lemma expireDue_spec:
  assumes "heapInv dl h" "expireDue dl now h = (h', as)"
  shows "heapInv dl h' \<and> set as = {a \<in> set (hList h). dl a \<le> now} \<and>
    set (hList h') = {a \<in> set (hList h). now < dl a} \<and> distinct as \<and> sorted (map dl as)"
proof -
  have t: "heapInv dl h'" "mset (hList h) = mset as + mset (hList h')" "\<forall>a \<in> set as. dl a \<le> now"
    "\<forall>a \<in> set (hList h'). now < dl a" "sorted (map dl as)"
    using dq.takeDue_spec [OF assms(1) _ assms(2) [unfolded expireDue_def]] by auto
  have "distinct (as @ hList h')"
    using indexOk_distinct [OF heapInv_index [OF assms(1)]] t(2) by (metis mset_append mset_eq_imp_distinct_iff)
  moreover have "set (hList h) = set as \<union> set (hList h')"
    using t(2) by (metis set_mset_mset set_mset_union)
  ultimately show ?thesis using t by auto
qed

text \<open>
  The histories of the heap: routes are tracked once, untracked at any time, and expired in batches;
  the set is the routes that are still waiting for their deadline.
\<close>

inductive heapRun :: "(addr \<Rightarrow> time) \<Rightarrow> dheap \<Rightarrow> addr set \<Rightarrow> bool" for dl where
  hrEmpty: "heapRun dl emptyHeap {}"
| hrTrack: "heapRun dl h S \<Longrightarrow> a \<notin> S \<Longrightarrow> heapRun dl (heapPush dl a h) (insert a S)"
| hrUntrack: "heapRun dl h S \<Longrightarrow> heapRun dl (untrackHeap dl a h) (S - {a})"
| hrExpire: "heapRun dl h S \<Longrightarrow> expireDue dl now h = (h', as) \<Longrightarrow> heapRun dl h' (S - set as)"

lemma heapRun_inv: "heapRun dl h S \<Longrightarrow> heapInv dl h \<and> set (hList h) = S"
proof (induction rule: heapRun.induct)
  case hrEmpty
  show ?case using heapInv_empty by (simp add: emptyHeap_def)
next
  case (hrTrack h S a)
  then show ?case using heapPush_set by simp
next
  case (hrUntrack h S a)
  then show ?case using untrackHeap_spec by simp
next
  case (hrExpire h S now h' as)
  then show ?case using expireDue_spec [of dl h now h' as] by auto
qed

text \<open>
  C6.  After any history of tracking, early ends and expiries, a route's \<^verbatim>\<open>index\<close> field is
  non-negative exactly when the route is waiting, and the expiry loop at time \<open>now\<close> takes exactly the
  waiting routes whose deadline has passed, once each and in deadline order, and leaves the others.
\<close>

theorem deadline_heap_expires_exactly_due:
  assumes "heapRun dl h S" "expireDue dl now h = (h', as)"
  shows "(\<forall>a. 0 \<le> hIndex h a \<longleftrightarrow> a \<in> S) \<and> set as = {a \<in> S. dl a \<le> now} \<and> distinct as \<and> sorted (map dl as) \<and>
    set (hList h') = {a \<in> S. now < dl a}"
  using heapRun_inv [OF assms(1)] expireDue_spec [OF _ assms(2)] index_member [OF heapInv_index] by blast

theorem deadline_heap_expires_exactly_due_witness:
  "snd (expireDue (\<lambda>a. int (10 - a)) 8
     (untrackHeap (\<lambda>a. int (10 - a)) 3 (heapPush (\<lambda>a. int (10 - a)) 4
       (heapPush (\<lambda>a. int (10 - a)) 3 (heapPush (\<lambda>a. int (10 - a)) 1 (heapPush (\<lambda>a. int (10 - a)) 2 emptyHeap)))))) = [4, 2]
   \<and> set [4, 2] = {a \<in> {1, 2, 3, 4::nat} - {3}. int (10 - a) \<le> 8}"
proof -
  let ?dl = "\<lambda>a::nat. int (10 - a)"
  let ?h = "untrackHeap ?dl 3 (heapPush ?dl 4 (heapPush ?dl 3 (heapPush ?dl 1 (heapPush ?dl 2 emptyHeap))))"
  have "heapRun ?dl ?h (insert 4 (insert 3 (insert 1 (insert 2 {}))) - {3})"
    by (intro heapRun.intros) auto
  moreover have e: "snd (expireDue ?dl 8 ?h) = [4, 2]" by code_simp
  moreover obtain h' where "expireDue ?dl 8 ?h = (h', [4, 2])" using e by (metis prod.collapse)
  ultimately show ?thesis using deadline_heap_expires_exactly_due by force
qed

end
