(* ===== verification/Auth.thy ===== *)
theory Auth
  imports Protocol
begin

text \<open>
  Accounts, API keys and temporary tokens (\<^verbatim>\<open>meshcall-router/internal/router/auth.go\<close> and the token
  half of \<^verbatim>\<open>management.go\<close>).  A nil \<^verbatim>\<open>*User\<close> or \<^verbatim>\<open>*Auth\<close> is \<open>None\<close>.  \<open>uAddr\<close> stands for the address of
  the user object, which \<^verbatim>\<open>valid\<close> compares; \<open>aNext\<close> is the next free one.  The digest and the key
  derivation of Go's crypto packages are the parameters \<open>sha256\<close> and \<open>pbkdf2\<close>; random bytes and the
  current time are arguments.
\<close>

section \<open>Data\<close>

datatype identityKind = IdentityAccount | IdentityToken | IdentityAPIKey | IdentityAnonymous

record user =
  uAddr :: addr
  uUsername :: string
  uPasswordHash :: string
  uRoles :: "string list"
  uRegister :: "string list"
  uCall :: "string list option"   \<comment> \<open>\<open>None\<close>: the nil slice\<close>
  uSalt :: string
  uKey :: string
  uExpires :: "time option"       \<comment> \<open>\<open>None\<close>: the zero time\<close>
  uTokenID :: string
  uKind :: identityKind

record apiKey =
  kID :: string
  kKeyHash :: string
  kRoles :: "string list"
  kRegister :: "string list"
  kCall :: "string list option"

record auth =
  aUsers :: "(string, user) gomap"
  aApiKeys :: "(string, string \<times> user) gomap"   \<comment> \<open>id to digest and user\<close>
  aAnonymous :: user
  aSlots :: nat                                  \<comment> \<open>password checks running now\<close>
  aDummy :: "user option"
  aTokens :: "(string, user) gomap"
  aVerified :: "(string, user \<times> time) gomap"
  aNext :: addr

datatype authFailure = AuthFailure (afStatus: int) (afMessage: string) (afChallenge: bool)

definition AnonymousUser :: string where "AnonymousUser = ''anonymous''"
definition apiKeyPrefix :: string where "apiKeyPrefix = ''mk_''"
definition basicCacheTTL :: time where "basicCacheTTL = 60 * second"
definition basicCacheSize :: nat where "basicCacheSize = 1024"

definition zeroUser :: user where
  "zeroUser = \<lparr>uAddr = 0, uUsername = [], uPasswordHash = [], uRoles = [], uRegister = [], uCall = None,
     uSalt = [], uKey = [], uExpires = None, uTokenID = [], uKind = IdentityAccount\<rparr>"

definition zeroKey :: apiKey where
  "zeroKey = \<lparr>kID = [], kKeyHash = [], kRoles = [], kRegister = [], kCall = None\<rparr>"

definition callRules :: "user \<Rightarrow> string list" where
  "callRules u = (case uCall u of None \<Rightarrow> [] | Some rs \<Rightarrow> rs)"

section \<open>Permissions\<close>

definition mayIssueTokens :: "user option \<Rightarrow> bool" where
  "mayIssueTokens u = (case u of None \<Rightarrow> False | Some x \<Rightarrow> uKind x = IdentityAccount)"

definition allowsRole :: "user option \<Rightarrow> string \<Rightarrow> bool" where
  "allowsRole u role = (case u of None \<Rightarrow> True | Some x \<Rightarrow> List.member (uRoles x) role)"

definition allowsRegistration :: "user option \<Rightarrow> string \<Rightarrow> bool" where
  "allowsRegistration u name = (case u of None \<Rightarrow> True
    | Some x \<Rightarrow> List.member (uRegister x) ''*'' \<or> List.member (uRegister x) name)"

definition allowsCall :: "user option \<Rightarrow> string \<Rightarrow> string \<Rightarrow> bool" where
  "allowsCall u svc mth = (case u of None \<Rightarrow> True
    | Some x \<Rightarrow> List.member (callRules x) ''*'' \<or> List.member (callRules x) (svc @ ''/*'') \<or>
        List.member (callRules x) (svc @ ''/'' @ mth))"

text \<open>\<^verbatim>\<open>validatePermissions\<close>: \<open>None\<close> when the lists are acceptable, otherwise the error.\<close>

definition validRegisterRule :: "string \<Rightarrow> bool" where
  "validRegisterRule rule \<longleftrightarrow> rule = ''*'' \<or> \<not> (rule = [] \<or> containsAny rule ''*/'')"

definition validCallRule :: "string \<Rightarrow> bool" where
  "validCallRule rule \<longleftrightarrow> rule = ''*'' \<or>
     (case cut CHR ''/'' rule of (svc, mth, ok) \<Rightarrow>
        \<not> (\<not> ok \<or> svc = [] \<or> containsChar svc CHR ''*'' \<or> mth = [] \<or> containsChar mth CHR ''/'' \<or>
           (containsChar mth CHR ''*'' \<and> mth \<noteq> ''*'')))"

definition validatePermissions :: "string list \<Rightarrow> string list \<Rightarrow> string list \<Rightarrow> string option" where
  "validatePermissions roles register calls =
     (if list_ex (\<lambda>r. r \<noteq> ''client'' \<and> r \<noteq> ''server'') roles then Some ''auth role must be client or server''
      else if list_ex (\<lambda>r. \<not> validRegisterRule r) register then Some ''register ACL requires exact service names or *''
      else if list_ex (\<lambda>r. \<not> validCallRule r) calls then Some ''call ACL requires service/method, service/*, or *''
      else None)"

section \<open>Reading the auth document\<close>

text \<open>\<^verbatim>\<open>DisallowUnknownFields\<close>: an unknown member is an error, remembered like a type error.\<close>

fun decodeStrict :: "(string \<times> 'a setter) list \<Rightarrow> (string \<times> string \<times> json) list \<Rightarrow> 'a \<Rightarrow> 'a \<times> bool" where
  "decodeStrict fs [] x = (x, True)"
| "decodeStrict fs ((k, raw, v) # ms) x =
     (case findField fs k of
        None \<Rightarrow> (case decodeStrict fs ms x of (y, ok) \<Rightarrow> (y, False))
      | Some st \<Rightarrow> (case st raw v x of (x', ok) \<Rightarrow>
          (case decodeStrict fs ms x' of (y, ok') \<Rightarrow> (y, ok \<and> ok'))))"

definition structStrict :: "(string \<times> 'a setter) list \<Rightarrow> string \<Rightarrow> json \<Rightarrow> 'a \<Rightarrow> 'a \<times> bool" where
  "structStrict fs raw v old = (case v of
      JNull \<Rightarrow> (old, True)
    | JObj _ \<Rightarrow> decodeStrict fs (case rawMembers raw of Some ms \<Rightarrow> ms | None \<Rightarrow> []) old
    | _ \<Rightarrow> (old, False))"

definition strSlice :: "string \<Rightarrow> json \<Rightarrow> string list option \<Rightarrow> string list option \<times> bool" where
  "strSlice raw v old = sliceVal (\<lambda>r w. strVal w []) raw v old"

definition strList :: "string \<Rightarrow> json \<Rightarrow> string list \<Rightarrow> string list \<times> bool" where
  "strList raw v old = map_prod (case_option [] id) id (strSlice raw v (Some old))"

definition userFields :: "(string \<times> user setter) list" where
  "userFields =
    [(''username'', \<lambda>raw v x. map_prod (\<lambda>y. x\<lparr>uUsername := y\<rparr>) id (strVal v (uUsername x))),
     (''password_hash'', \<lambda>raw v x. map_prod (\<lambda>y. x\<lparr>uPasswordHash := y\<rparr>) id (strVal v (uPasswordHash x))),
     (''roles'', \<lambda>raw v x. map_prod (\<lambda>y. x\<lparr>uRoles := y\<rparr>) id (strList raw v (uRoles x))),
     (''register'', \<lambda>raw v x. map_prod (\<lambda>y. x\<lparr>uRegister := y\<rparr>) id (strList raw v (uRegister x))),
     (''call'', \<lambda>raw v x. map_prod (\<lambda>y. x\<lparr>uCall := y\<rparr>) id (strSlice raw v (uCall x)))]"

definition apiKeyFields :: "(string \<times> apiKey setter) list" where
  "apiKeyFields =
    [(''id'', \<lambda>raw v x. map_prod (\<lambda>y. x\<lparr>kID := y\<rparr>) id (strVal v (kID x))),
     (''key_hash'', \<lambda>raw v x. map_prod (\<lambda>y. x\<lparr>kKeyHash := y\<rparr>) id (strVal v (kKeyHash x))),
     (''roles'', \<lambda>raw v x. map_prod (\<lambda>y. x\<lparr>kRoles := y\<rparr>) id (strList raw v (kRoles x))),
     (''register'', \<lambda>raw v x. map_prod (\<lambda>y. x\<lparr>kRegister := y\<rparr>) id (strList raw v (kRegister x))),
     (''call'', \<lambda>raw v x. map_prod (\<lambda>y. x\<lparr>kCall := y\<rparr>) id (strSlice raw v (kCall x)))]"

definition configFields :: "(string \<times> (user list \<times> apiKey list) setter) list" where
  "configFields =
    [(''users'', \<lambda>raw v x. map_prod (\<lambda>y. (case_option [] id y, snd x)) id
        (sliceVal (\<lambda>r w. structStrict userFields r w zeroUser) raw v (Some (fst x)))),
     (''api_keys'', \<lambda>raw v x. map_prod (\<lambda>y. (fst x, case_option [] id y)) id
        (sliceVal (\<lambda>r w. structStrict apiKeyFields r w zeroKey) raw v (Some (snd x))))]"

definition HashPassword :: "(string \<Rightarrow> string \<Rightarrow> string option) \<Rightarrow> string \<Rightarrow> string \<Rightarrow> string + string" where
  "HashPassword pbkdf2 salt password =
     (if length password = 0 \<or> length password > 1024 then Inl ''password must contain 1 to 1024 UTF-8 bytes''
      else (case pbkdf2 password salt of
          None \<Rightarrow> Inl ''pbkdf2''
        | Some key \<Rightarrow> Inr (''pbkdf2-sha256$600000$'' @ hexEncode salt @ ''$'' @ hexEncode key)))"

definition newAuth :: auth where
  "newAuth = \<lparr>aUsers = [], aApiKeys = [],
     aAnonymous = zeroUser\<lparr>uUsername := AnonymousUser, uRoles := [''client''], uKind := IdentityAnonymous\<rparr>,
     aSlots = 0, aDummy = None, aTokens = [], aVerified = [], aNext = 1\<rparr>"

text \<open>One step of the loop over the accounts, with every early return.\<close>

definition addUser :: "user \<Rightarrow> auth \<Rightarrow> string + auth" where
  "addUser u a =
     (if uUsername u = [] \<or> containsAny (uUsername u) (CHR '':'' # [CHR 0x0D, CHR 0x0A]) \<or> uRoles u = []
        then Inl ''auth user requires a username and roles''
      else if map_of (aUsers a) (uUsername u) \<noteq> None \<or>
          (uUsername u = AnonymousUser \<and> uCall (aAnonymous a) \<noteq> None)
        then Inl ''duplicate auth username''
      else (case validatePermissions (uRoles u) (uRegister u) (callRules u) of
          Some e \<Rightarrow> Inl e
        | None \<Rightarrow>
          if uUsername u = AnonymousUser then
            (if uPasswordHash u \<noteq> [] \<or> length (uRegister u) > 0 \<or> uRoles u \<noteq> [''client'']
             then Inl (''the '' @ [quoteChar] @ ''anonymous'' @ [quoteChar] @ '' user takes no password_hash, no register list, and roles ['' @
               [quoteChar] @ ''client'' @ [quoteChar] @ ''] only'')
             else Inr (a\<lparr>aAnonymous := zeroUser\<lparr>uUsername := AnonymousUser, uRoles := uRoles u,
                    uCall := Some (callRules u), uKind := IdentityAnonymous\<rparr>\<rparr>))
          else
            (let parts = splitOn CHR ''$'' (uPasswordHash u) in
             if length parts \<noteq> 4 \<or> parts ! 0 \<noteq> ''pbkdf2-sha256'' \<or> parts ! 1 \<noteq> ''600000''
               then Inl ''unsupported password hash; use hash-password''
             else (case hexDecode (parts ! 2) of
                 None \<Rightarrow> Inl ''invalid password hash salt''
               | Some salt \<Rightarrow>
                 if length salt \<noteq> 16 then Inl ''invalid password hash salt''
                 else (case hexDecode (parts ! 3) of
                     None \<Rightarrow> Inl ''invalid password hash key''
                   | Some key \<Rightarrow>
                     if length key \<noteq> 32 then Inl ''invalid password hash key''
                     else
                       (let u' = u\<lparr>uAddr := aNext a, uSalt := salt, uKey := key\<rparr> in
                        Inr (a\<lparr>aUsers := AList.update (uUsername u) u' (aUsers a), aDummy := Some u',
                               aNext := aNext a + 1\<rparr>)))))))"

definition addKey :: "apiKey \<Rightarrow> auth \<Rightarrow> string + auth" where
  "addKey k a =
     (if kID k = [] \<or> containsAny (kID k) (''_:'' @ [CHR 0x0D, CHR 0x0A] @ '' '') \<or> kRoles k = []
        then Inl ''API key requires an id (no '_' or spaces) and roles''
      else if map_of (aApiKeys a) (kID k) \<noteq> None then Inl ''duplicate API key id''
      else (case hexDecode (kKeyHash k) of
          None \<Rightarrow> Inl ''API key key_hash must be a SHA-256 hex digest; use new-api-key''
        | Some digest \<Rightarrow>
          if length digest \<noteq> 32 then Inl ''API key key_hash must be a SHA-256 hex digest; use new-api-key''
          else (case validatePermissions (kRoles k) (kRegister k) (case_option [] id (kCall k)) of
              Some e \<Rightarrow> Inl e
            | None \<Rightarrow>
              Inr (a\<lparr>aApiKeys := AList.update (kID k)
                     (digest, zeroUser\<lparr>uAddr := aNext a, uUsername := ''api-key:'' @ kID k, uRoles := kRoles k,
                        uRegister := kRegister k, uCall := kCall k, uKind := IdentityAPIKey\<rparr>) (aApiKeys a),
                     aNext := aNext a + 1\<rparr>))))"

fun foldE :: "('x \<Rightarrow> 's \<Rightarrow> 'e + 's) \<Rightarrow> 'x list \<Rightarrow> 's \<Rightarrow> 'e + 's" where
  "foldE f [] s = Inr s"
| "foldE f (x # xs) s = (case f x s of Inl e \<Rightarrow> Inl e | Inr s' \<Rightarrow> foldE f xs s')"

definition withDummy :: "(string \<Rightarrow> string \<Rightarrow> string option) \<Rightarrow> string \<Rightarrow> auth \<Rightarrow> string + auth" where
  "withDummy pbkdf2 salt a = (case aDummy a of
      Some _ \<Rightarrow> Inr a
    | None \<Rightarrow> (case HashPassword pbkdf2 salt ''unused-dummy-password'' of
        Inl e \<Rightarrow> Inl e
      | Inr hash \<Rightarrow>
        (let parts = splitOn CHR ''$'' hash in
         Inr (a\<lparr>aDummy := Some (zeroUser\<lparr>uSalt := case_option [] id (hexDecode (parts ! 2)),
                                         uKey := case_option [] id (hexDecode (parts ! 3))\<rparr>)\<rparr>))))"

definition ParseAuth :: "(string \<Rightarrow> string \<Rightarrow> string option) \<Rightarrow> string \<Rightarrow> string \<Rightarrow> string + auth" where
  "ParseAuth pbkdf2 salt data = (case parseJson data of
      None \<Rightarrow> Inl ''invalid auth file''
    | Some (v, rest) \<Rightarrow> (case structStrict configFields data v ([], []) of ((users, keys), ok) \<Rightarrow>
        if \<not> ok then Inl ''invalid auth file''
        else if skipWs rest \<noteq> [] \<or> length users + length keys = 0
          then Inl ''auth file must contain at least one user or API key''
        else (case foldE addUser users newAuth of
            Inl e \<Rightarrow> Inl e
          | Inr a1 \<Rightarrow> (case withDummy pbkdf2 salt a1 of
              Inl e \<Rightarrow> Inl e
            | Inr a2 \<Rightarrow> foldE addKey keys a2))))"

definition NewAPIKey :: "(string \<Rightarrow> string) \<Rightarrow> string \<Rightarrow> string \<Rightarrow> string + (string \<times> string)" where
  "NewAPIKey sha256 secret kid =
     (if kid = [] \<or> containsAny kid (''_:'' @ [CHR 0x0D, CHR 0x0A] @ '' '')
      then Inl ''API key id must be non-empty without '_', ':' or spaces''
      else
        (let key = apiKeyPrefix @ kid @ ''_'' @ hexEncode secret in Inr (key, hexEncode (sha256 key))))"

section \<open>Checking a request\<close>

text \<open>\<^verbatim>\<open>encoding/base64\<close>: the standard alphabet with padding (line breaks are skipped, trailing bits
  ignored), and the URL alphabet without padding, which names the tokens.\<close>

definition b64Value :: "char \<Rightarrow> nat option" where
  "b64Value c =
     (let n = byte c in
      if 65 \<le> n \<and> n \<le> 90 then Some (n - 65)
      else if 97 \<le> n \<and> n \<le> 122 then Some (n - 71)
      else if 48 \<le> n \<and> n \<le> 57 then Some (n + 4)
      else if c = CHR ''+'' then Some 62
      else if c = CHR ''/'' then Some 63
      else None)"

definition b64Last :: "char \<Rightarrow> char \<Rightarrow> char \<Rightarrow> char \<Rightarrow> string option" where
  "b64Last a b c d = (case (b64Value a, b64Value b) of
      (Some x, Some y) \<Rightarrow>
        if c = CHR ''='' \<and> d = CHR ''='' then Some [char_of (4 * x + y div 16)]
        else (case b64Value c of
            None \<Rightarrow> None
          | Some z \<Rightarrow>
            if d = CHR ''='' then Some [char_of (4 * x + y div 16), char_of (16 * (y mod 16) + z div 4)]
            else (case b64Value d of
                None \<Rightarrow> None
              | Some w \<Rightarrow> Some [char_of (4 * x + y div 16), char_of (16 * (y mod 16) + z div 4), char_of (64 * (z mod 4) + w)]))
    | _ \<Rightarrow> None)"

function b64Groups :: "string \<Rightarrow> string option" where
  "b64Groups s =
     (if s = [] then Some []
      else if length s < 4 then None
      else if length s = 4 then b64Last (s ! 0) (s ! 1) (s ! 2) (s ! 3)
      else (case (b64Value (s ! 0), b64Value (s ! 1), b64Value (s ! 2), b64Value (s ! 3), b64Groups (drop 4 s)) of
          (Some x, Some y, Some z, Some w, Some r) \<Rightarrow>
            Some ([char_of (4 * x + y div 16), char_of (16 * (y mod 16) + z div 4), char_of (64 * (z mod 4) + w)] @ r)
        | _ \<Rightarrow> None))"
  by pat_completeness auto
termination
  by (relation "measure length") auto

declare b64Groups.simps [simp del]

definition stdDecode :: "string \<Rightarrow> string option" where
  "stdDecode s = b64Groups (filter (\<lambda>c. c \<noteq> CHR 0x0D \<and> c \<noteq> CHR 0x0A) s)"

definition urlChar :: "nat \<Rightarrow> char" where
  "urlChar n =
     (if n < 26 then char_of (65 + n) else if n < 52 then char_of (71 + n)
      else if n < 62 then char_of (n - 4) else if n = 62 then CHR ''-'' else CHR ''_'')"

fun rawURLEncode :: "string \<Rightarrow> string" where
  "rawURLEncode [] = []"
| "rawURLEncode [a] = [urlChar (byte a div 4), urlChar (16 * (byte a mod 4))]"
| "rawURLEncode [a, b] =
     [urlChar (byte a div 4), urlChar (16 * (byte a mod 4) + byte b div 16), urlChar (4 * (byte b mod 16))]"
| "rawURLEncode (a # b # c # s) =
     [urlChar (byte a div 4), urlChar (16 * (byte a mod 4) + byte b div 16),
      urlChar (4 * (byte b mod 16) + byte c div 64), urlChar (byte c mod 64)] @ rawURLEncode s"

definition equalFold :: "string \<Rightarrow> string \<Rightarrow> bool" where
  "equalFold s t \<longleftrightarrow> map asciiLower s = map asciiLower t"

text \<open>\<^verbatim>\<open>Request.BasicAuth\<close>.\<close>

definition basicAuth :: "string \<Rightarrow> (string \<times> string) option" where
  "basicAuth header =
     (if length header < 6 \<or> \<not> equalFold (take 6 header) ''Basic '' then None
      else (case stdDecode (drop 6 header) of
          None \<Rightarrow> None
        | Some cs \<Rightarrow> (case cut CHR '':'' cs of (usr, pass, ok) \<Rightarrow> if ok then Some (usr, pass) else None)))"

definition unauthorized :: authFailure where
  "unauthorized = AuthFailure 401 ''authentication failed'' False"

definition authBusy :: authFailure where
  "authBusy = AuthFailure 503 ''authentication busy'' False"

definition authRequired :: authFailure where
  "authRequired = AuthFailure 401 ''authentication required'' True"

definition authRejected :: authFailure where
  "authRejected = AuthFailure 401 ''authentication failed'' True"

lemma failure_status [simp]:
  "afStatus unauthorized = 401" "afStatus authBusy = 503" "afStatus authRequired = 401" "afStatus authRejected = 401"
  by (simp_all add: unauthorized_def authBusy_def authRequired_def authRejected_def)

text \<open>The last part of \<^verbatim>\<open>check\<close>: HTTP Basic, after a miss in the cache of recent successes.\<close>

definition checkPassword :: "(string \<Rightarrow> string) \<Rightarrow> (string \<Rightarrow> string \<Rightarrow> string option) \<Rightarrow> time \<Rightarrow> string \<Rightarrow> auth \<Rightarrow> auth \<times> (authFailure + user)" where
  "checkPassword sha256 pbkdf2 now header a =
     (if aSlots a \<ge> 8 then (a, Inl authBusy)
      else (case basicAuth header of
          None \<Rightarrow> (a, Inl authRequired)
        | Some (username, password) \<Rightarrow>
          if length password > 1024 then (a, Inl authRequired)
          else
            (let found = map_of (aUsers a) username;
                 u = (case found of Some x \<Rightarrow> x | None \<Rightarrow> case_option zeroUser id (aDummy a)) in
             if pbkdf2 password (uSalt u) \<noteq> Some (uKey u) \<or> found = None
             then (a, Inl authRejected)
             else
               (let v = (if length (aVerified a) \<ge> basicCacheSize then [] else aVerified a) in
                (a\<lparr>aVerified := AList.update (sha256 header) (u, now + basicCacheTTL) v\<rparr>, Inr u)))))"

text \<open>\<^verbatim>\<open>Auth.check\<close>: the caller's identity (\<open>None\<close>: no accounts are configured) or why it is refused.\<close>

definition checkAuth :: "(string \<Rightarrow> string) \<Rightarrow> (string \<Rightarrow> string \<Rightarrow> string option) \<Rightarrow> time \<Rightarrow> string \<Rightarrow> auth option \<Rightarrow> auth option \<times> (authFailure + user option)" where
  "checkAuth sha256 pbkdf2 now header ao = (case ao of
      None \<Rightarrow> (None, Inr None)
    | Some a \<Rightarrow>
      if header = [] then (ao, Inr (Some (aAnonymous a)))
      else (case cut CHR '' '' header of (scheme, token, ok) \<Rightarrow>
        if ok \<and> equalFold scheme ''Bearer'' \<and> hasPrefix token apiKeyPrefix then
          (case map_of (aApiKeys a) (fst (cut CHR ''_'' (trimPrefix token apiKeyPrefix))) of
             Some (digest, u) \<Rightarrow> if sha256 token = digest then (ao, Inr (Some u)) else (ao, Inl unauthorized)
           | None \<Rightarrow> (ao, Inl unauthorized))
        else if ok \<and> equalFold scheme ''Bearer'' then
          (case map_of (aTokens a) (hexEncode (sha256 token)) of
             Some u \<Rightarrow> (case uExpires u of
                 Some e \<Rightarrow> if now < e then (ao, Inr (Some u)) else (ao, Inl unauthorized)
               | None \<Rightarrow> (ao, Inl unauthorized))
           | None \<Rightarrow> (ao, Inl unauthorized))
        else
          (case map_of (aVerified a) (sha256 header) of
             Some (u, expires) \<Rightarrow>
               if now < expires then (ao, Inr (Some u))
               else map_prod Some (map_sum id Some) (checkPassword sha256 pbkdf2 now header a)
           | None \<Rightarrow> map_prod Some (map_sum id Some) (checkPassword sha256 pbkdf2 now header a))))"

definition validUser :: "time \<Rightarrow> auth option \<Rightarrow> user option \<Rightarrow> bool" where
  "validUser now ao uo = (case uo of
      None \<Rightarrow> True
    | Some u \<Rightarrow> uTokenID u = [] \<or>
        (case ao of
           None \<Rightarrow> False
         | Some a \<Rightarrow> (case map_of (aTokens a) (uTokenID u) of
             Some t \<Rightarrow> uAddr t = uAddr u \<and> (case uExpires u of Some e \<Rightarrow> now < e | None \<Rightarrow> False)
           | None \<Rightarrow> False)))"

section \<open>Temporary tokens\<close>

record scope =
  scService :: string
  scMethods :: "string list"
  scRegister :: bool

record issueTokenRequest =
  irTTLSeconds :: int
  irScopes :: "scope list"

record issueTokenResult =
  itToken :: string
  itTokenID :: string
  itExpires :: time
  itScopes :: "scope list"

datatype issueError = BadRequest string | ScopeError string

definition reservedPrefix :: string where "reservedPrefix = ''meshcall.router.''"

fun grantMethods :: "user option \<Rightarrow> string \<Rightarrow> string list \<Rightarrow> string list \<Rightarrow> issueError + string list" where
  "grantMethods issuer svc [] calls = Inr calls"
| "grantMethods issuer svc (m # ms) calls =
     (if m = [] \<or> containsChar m CHR ''/'' \<or> (containsChar m CHR ''*'' \<and> m \<noteq> ''*'') then Inl (BadRequest ''invalid method scope'')
      else if \<not> allowsRole issuer ''client'' \<or> \<not> allowsCall issuer svc m
        then Inl (ScopeError ''requested call scope exceeds issuer permissions'')
      else grantMethods issuer svc ms (calls @ [svc @ ''/'' @ m]))"

text \<open>The loop over the scopes: the call and register rules granted so far, and the services seen.\<close>

fun grantScopes :: "user option \<Rightarrow> scope list \<Rightarrow> string list \<Rightarrow> string list \<Rightarrow> string list \<Rightarrow> issueError + (string list \<times> string list)" where
  "grantScopes issuer [] seen calls regs = Inr (calls, regs)"
| "grantScopes issuer (sc # scs) seen calls regs =
     (let svc = scService sc in
      if svc = [] \<or> containsAny svc ''*/'' \<or> hasPrefix svc reservedPrefix \<or> List.member seen svc
        then Inl (BadRequest ''scopes require unique, concrete business service names'')
      else if length (scMethods sc) = 0 \<and> \<not> scRegister sc then Inl (BadRequest ''scope grants no permissions'')
      else (case grantMethods issuer svc (scMethods sc) calls of
          Inl e \<Rightarrow> Inl e
        | Inr calls' \<Rightarrow>
          if scRegister sc then
            (if \<not> allowsRole issuer ''server'' \<or> \<not> allowsRegistration issuer svc
             then Inl (ScopeError ''requested registration scope exceeds issuer permissions'')
             else grantScopes issuer scs (svc # seen) calls' (regs @ [svc]))
          else grantScopes issuer scs (svc # seen) calls' regs))"

definition expireTokens :: "time \<Rightarrow> (string, user) gomap \<Rightarrow> (string, user) gomap" where
  "expireTokens now ts = filter (\<lambda>(k, u). case uExpires u of Some e \<Rightarrow> now < e | None \<Rightarrow> False) ts"

definition tokenUser :: "auth \<Rightarrow> user \<Rightarrow> string list \<Rightarrow> string list \<Rightarrow> string \<Rightarrow> time \<Rightarrow> user" where
  "tokenUser a issuer calls regs tid expires =
     zeroUser\<lparr>uAddr := aNext a, uUsername := uUsername issuer,
       uRoles := (if calls \<noteq> [] then [''client''] else []) @ (if regs \<noteq> [] then [''server''] else []),
       uRegister := regs, uCall := (if calls = [] then None else Some calls),
       uTokenID := tid, uKind := IdentityToken, uExpires := Some expires\<rparr>"

definition issue :: "(string \<Rightarrow> string) \<Rightarrow> string \<Rightarrow> time \<Rightarrow> user \<Rightarrow> issueTokenRequest \<Rightarrow> auth \<Rightarrow> auth \<times> (issueError + issueTokenResult)" where
  "issue sha256 secret now issuer req a =
     (if uTokenID issuer \<noteq> [] then (a, Inl (BadRequest ''temporary tokens cannot issue tokens''))
      else if irTTLSeconds req < 1 \<or> irTTLSeconds req > 3600 \<or> length (irScopes req) = 0 \<or> length (irScopes req) > 128
        then (a, Inl (BadRequest ''ttl_seconds must be 1..3600 and scopes must contain 1..128 services''))
      else (case grantScopes (Some issuer) (irScopes req) [] [] [] of
          Inl e \<Rightarrow> (a, Inl e)
        | Inr (calls, regs) \<Rightarrow>
          (let token = ''mt_'' @ rawURLEncode secret;
               tid = hexEncode (sha256 token);
               expires = now + irTTLSeconds req * second;
               u = tokenUser a issuer calls regs tid expires;
               live = expireTokens now (aTokens a) in
           if length live \<ge> 4096 then (a\<lparr>aTokens := live\<rparr>, Inl (BadRequest ''temporary token capacity reached''))
           else (a\<lparr>aTokens := AList.update tid u live, aNext := aNext a + 1\<rparr>,
                 Inr \<lparr>itToken = token, itTokenID = tid, itExpires = expires, itScopes = irScopes req\<rparr>))))"

text \<open>The token half of \<^verbatim>\<open>revoke_token\<close>: only the account that issued a token may revoke it.\<close>

definition revokeToken :: "string \<Rightarrow> string \<Rightarrow> auth \<Rightarrow> auth \<times> bool" where
  "revokeToken username tid a = (case map_of (aTokens a) tid of
      Some u \<Rightarrow> if uUsername u = username then (a\<lparr>aTokens := AList.delete tid (aTokens a)\<rparr>, True) else (a, False)
    | None \<Rightarrow> (a, False))"

section \<open>Permission rules read unambiguously\<close>

lemma validCallRule_cut:
  "validCallRule rule \<Longrightarrow> rule \<noteq> ''*'' \<Longrightarrow>
     \<exists>svc mth. rule = svc @ ''/'' @ mth \<and> CHR ''/'' \<notin> set svc \<and> CHR ''/'' \<notin> set mth \<and> CHR ''*'' \<notin> set svc \<and>
       svc \<noteq> [] \<and> mth \<noteq> [] \<and> (CHR ''*'' \<in> set mth \<longrightarrow> mth = ''*'')"
  using cut_True [of "CHR ''/''" rule]
  by (fastforce simp: validCallRule_def containsChar_iff split: prod.splits)

lemma slash_unique:
  assumes "CHR ''/'' \<notin> set svc" "CHR ''/'' \<notin> set mth"
  shows "s @ ''/'' @ m = svc @ ''/'' @ mth \<longleftrightarrow> s = svc \<and> m = mth"
proof
  assume e: "s @ ''/'' @ m = svc @ ''/'' @ mth"
  have "CHR ''/'' \<notin> set s"
  proof
    assume "CHR ''/'' \<in> set s"
    then have "count_list s CHR ''/'' \<noteq> 0" by (simp add: count_list_0_iff)
    moreover have "count_list (s @ ''/'' @ m) CHR ''/'' = count_list s CHR ''/'' + 1 + count_list m CHR ''/''" by simp
    moreover have "count_list (s @ ''/'' @ m) CHR ''/'' = 1"
      unfolding e using assms by (simp add: count_notin)
    ultimately show False by linarith
  qed
  then show "s = svc \<and> m = mth" using e assms sep_append_inject [of "CHR ''/''" s svc m mth] by simp
qed simp

lemma allowsCall_rule:
  "cut CHR ''/'' rule = (s, m, True) \<Longrightarrow> rule \<in> set (callRules u) \<Longrightarrow> m = ''*'' \<or> m = mth \<Longrightarrow> allowsCall (Some u) s mth"
  using cut_True [of "CHR ''/''" rule s m] by (auto simp: allowsCall_def)

lemma allowsCall_cases:
  "allowsCall (Some u) svc mth \<Longrightarrow>
     ''*'' \<in> set (callRules u) \<or> (\<exists>m. svc @ ''/'' @ m \<in> set (callRules u) \<and> (m = ''*'' \<or> m = mth))"
  by (auto simp: allowsCall_def)

text \<open>
  C8.  With a validated rule list the plain string comparison of \<^verbatim>\<open>allowsCall\<close> means what the rules
  say: a call is permitted exactly when there is a \<open>*\<close> rule or a rule whose two halves are that
  very service and that very method or \<open>*\<close>.  In particular no service or method name, whatever
  slashes it contains, can be composed to match a rule written for another service.
\<close>

theorem allowsCall_means_rules:
  assumes "list_all validCallRule (callRules u)"
  shows "allowsCall (Some u) svc mth \<longleftrightarrow>
    (\<exists>rule \<in> set (callRules u). rule = ''*'' \<or>
       (\<exists>s m. cut CHR ''/'' rule = (s, m, True) \<and> svc = s \<and> (m = ''*'' \<or> m = mth)))"
    (is "?L \<longleftrightarrow> ?R")
proof
  assume ?L
  then consider "''*'' \<in> set (callRules u)" | m where "svc @ ''/'' @ m \<in> set (callRules u)" "m = ''*'' \<or> m = mth"
    using allowsCall_cases by blast
  then show ?R
  proof cases
    case 2
    have v: "validCallRule (svc @ ''/'' @ m)" using assms 2(1) by (simp add: list_all_iff)
    have ne: "svc @ ''/'' @ m \<noteq> ''*''" by (cases svc) auto
    from validCallRule_cut [OF v ne] obtain s m' where
      c: "svc @ ''/'' @ m = s @ ''/'' @ m'" "CHR ''/'' \<notin> set s" "CHR ''/'' \<notin> set m'" by blast
    have "svc = s" using slash_unique [OF c(2,3), of svc m] c(1) by blast
    then have "cut CHR ''/'' (svc @ ''/'' @ m) = (svc, m, True)" using cut_append [of "CHR ''/''" svc m] c(2) by simp
    then show ?thesis using 2 by (intro bexI [OF _ 2(1)] disjI2 exI [of _ svc] exI [of _ m]) simp
  qed (rule bexI [of _ "''*''"], simp)
next
  assume ?R
  then obtain rule where r: "rule \<in> set (callRules u)"
    "rule = ''*'' \<or> (\<exists>m. cut CHR ''/'' rule = (svc, m, True) \<and> (m = ''*'' \<or> m = mth))" by blast
  from r(2) show ?L
  proof
    assume "rule = ''*''"
    then show ?L using r(1) by (simp add: allowsCall_def)
  next
    assume "\<exists>m. cut CHR ''/'' rule = (svc, m, True) \<and> (m = ''*'' \<or> m = mth)"
    then show ?L using allowsCall_rule r(1) by blast
  qed
qed

theorem allowsCall_means_rules_witness:
  "let u = zeroUser\<lparr>uCall := Some [''a.v1.B/run'', ''c.v1.D/*'']\<rparr> in
   allowsCall (Some u) ''c.v1.D'' ''x'' \<and>
   (allowsCall (Some u) ''c.v1.D'' ''x'' \<longleftrightarrow>
    (\<exists>rule \<in> set (callRules u). rule = ''*'' \<or>
       (\<exists>s m. cut CHR ''/'' rule = (s, m, True) \<and> ''c.v1.D'' = s \<and> (m = ''*'' \<or> m = ''x''))))"
proof -
  let ?u = "zeroUser\<lparr>uCall := Some [''a.v1.B/run'', ''c.v1.D/*'']\<rparr>"
  have "list_all validCallRule (callRules ?u)" by code_simp
  moreover have "allowsCall (Some ?u) ''c.v1.D'' ''x''" by code_simp
  ultimately show ?thesis
    using allowsCall_means_rules [of ?u "''c.v1.D''" "''x''"] unfolding Let_def by blast
qed

section \<open>Tokens never widen permissions\<close>

definition grantedCall :: "user option \<Rightarrow> string \<Rightarrow> bool" where
  "grantedCall issuer rule \<longleftrightarrow> (\<exists>svc m. rule = svc @ ''/'' @ m \<and> CHR ''/'' \<notin> set svc \<and> CHR ''/'' \<notin> set m \<and>
     svc \<noteq> [] \<and> \<not> hasPrefix svc reservedPrefix \<and> allowsRole issuer ''client'' \<and> allowsCall issuer svc m)"

definition grantedReg :: "user option \<Rightarrow> string \<Rightarrow> bool" where
  "grantedReg issuer svc \<longleftrightarrow> svc \<noteq> ''*'' \<and> \<not> hasPrefix svc reservedPrefix \<and>
     allowsRole issuer ''server'' \<and> allowsRegistration issuer svc"

lemma grantMethods_granted:
  assumes "svc \<noteq> []" "\<not> containsAny svc ''*/''" "\<not> hasPrefix svc reservedPrefix"
  shows "grantMethods issuer svc ms calls = Inr calls' \<Longrightarrow> list_all (grantedCall issuer) calls \<Longrightarrow>
     list_all (grantedCall issuer) calls'"
proof (induction ms arbitrary: calls)
  case (Cons m ms)
  have ok: "CHR ''/'' \<notin> set m" "allowsRole issuer ''client''" "allowsCall issuer svc m"
    "grantMethods issuer svc ms (calls @ [svc @ ''/'' @ m]) = Inr calls'"
    using Cons.prems(1) by (simp_all add: containsChar_iff split: if_splits)
  moreover have "CHR ''/'' \<notin> set svc" using assms(2) by (auto simp: containsAny_iff)
  ultimately have "grantedCall issuer (svc @ ''/'' @ m)"
    unfolding grantedCall_def using assms(1,3) by blast
  then show ?case using Cons.IH [OF ok(4)] Cons.prems(2) by simp
qed simp

lemma star_contains: "containsAny ''*'' ''*/''"
  by (simp add: containsAny_iff)

lemma grantScopes_ConsD:
  assumes "grantScopes issuer (sc # scs) seen calls regs = Inr r"
  shows "scService sc \<noteq> []" "\<not> containsAny (scService sc) ''*/''" "\<not> hasPrefix (scService sc) reservedPrefix"
    "\<exists>cs. grantMethods issuer (scService sc) (scMethods sc) calls = Inr cs"
  using assms by (simp_all add: Let_def split: if_splits sum.splits)

lemma grantScopes_register:
  "grantScopes issuer (sc # scs) seen calls regs = Inr r \<Longrightarrow> scRegister sc \<Longrightarrow>
     grantMethods issuer (scService sc) (scMethods sc) calls = Inr cs \<Longrightarrow>
     allowsRole issuer ''server'' \<and> allowsRegistration issuer (scService sc) \<and>
     grantScopes issuer scs (scService sc # seen) cs (regs @ [scService sc]) = Inr r"
  by (simp add: Let_def split: if_splits)

lemma grantScopes_plain:
  "grantScopes issuer (sc # scs) seen calls regs = Inr r \<Longrightarrow> \<not> scRegister sc \<Longrightarrow>
     grantMethods issuer (scService sc) (scMethods sc) calls = Inr cs \<Longrightarrow>
     grantScopes issuer scs (scService sc # seen) cs regs = Inr r"
  by (simp add: Let_def split: if_splits)

lemma grantScopes_granted:
  "grantScopes issuer scs seen calls regs = Inr (calls', regs') \<Longrightarrow>
     list_all (grantedCall issuer) calls \<Longrightarrow> list_all (grantedReg issuer) regs \<Longrightarrow>
     list_all (grantedCall issuer) calls' \<and> list_all (grantedReg issuer) regs'"
proof (induction scs arbitrary: seen calls regs)
  case (Cons sc scs)
  let ?svc = "scService sc"
  note ok = grantScopes_ConsD [OF Cons.prems(1)]
  obtain cs where m: "grantMethods issuer ?svc (scMethods sc) calls = Inr cs" using ok(4) by blast
  have cs: "list_all (grantedCall issuer) cs" using grantMethods_granted [OF ok(1-3) m Cons.prems(2)] .
  show ?case
  proof (cases "scRegister sc")
    case True
    have g: "allowsRole issuer ''server''" "allowsRegistration issuer ?svc"
      "grantScopes issuer scs (?svc # seen) cs (regs @ [?svc]) = Inr (calls', regs')"
      using grantScopes_register [OF Cons.prems(1) True m] by simp_all
    have "grantedReg issuer ?svc"
      unfolding grantedReg_def using ok(2,3) g(1,2) star_contains by metis
    then have regs: "list_all (grantedReg issuer) (regs @ [?svc])" using Cons.prems(3) by simp
    show ?thesis using Cons.IH [OF g(3) cs regs] .
  next
    case False
    show ?thesis using Cons.IH [OF grantScopes_plain [OF Cons.prems(1) False m] cs Cons.prems(3)] .
  qed
qed simp

lemma tokenUser_sel [simp]:
  "uAddr (tokenUser a issuer calls regs tid e) = aNext a"
  "uUsername (tokenUser a issuer calls regs tid e) = uUsername issuer"
  "uRoles (tokenUser a issuer calls regs tid e) =
     (if calls \<noteq> [] then [''client''] else []) @ (if regs \<noteq> [] then [''server''] else [])"
  "uRegister (tokenUser a issuer calls regs tid e) = regs"
  "callRules (tokenUser a issuer calls regs tid e) = calls"
  "uTokenID (tokenUser a issuer calls regs tid e) = tid"
  "uKind (tokenUser a issuer calls regs tid e) = IdentityToken"
  "uExpires (tokenUser a issuer calls regs tid e) = Some e"
  by (simp_all add: tokenUser_def callRules_def)

lemma issue_Inr:
  assumes "issue sha256 secret now issuer req a = (a', Inr res)"
  obtains calls regs where "grantScopes (Some issuer) (irScopes req) [] [] [] = Inr (calls, regs)"
    "map_of (aTokens a') (itTokenID res) = Some (tokenUser a issuer calls regs (itTokenID res) (itExpires res))"
    "itExpires res = now + irTTLSeconds req * second" "1 \<le> irTTLSeconds req" "irTTLSeconds req \<le> 3600"
    "itToken res = ''mt_'' @ rawURLEncode secret" "itTokenID res = hexEncode (sha256 (itToken res))"
proof -
  have ttl: "uTokenID issuer = []" "\<not> (irTTLSeconds req < 1 \<or> irTTLSeconds req > 3600 \<or> length (irScopes req) = 0 \<or> length (irScopes req) > 128)"
    using assms by (simp_all add: issue_def split: if_splits)
  obtain calls regs where g: "grantScopes (Some issuer) (irScopes req) [] [] [] = Inr (calls, regs)"
    using assms ttl unfolding issue_def by (cases "grantScopes (Some issuer) (irScopes req) [] [] []") auto
  let ?token = "''mt_'' @ rawURLEncode secret"
  let ?tid = "hexEncode (sha256 ?token)" and ?e = "now + irTTLSeconds req * second"
  have i: "issue sha256 secret now issuer req a =
      (if length (expireTokens now (aTokens a)) \<ge> 4096
       then (a\<lparr>aTokens := expireTokens now (aTokens a)\<rparr>, Inl (BadRequest ''temporary token capacity reached''))
       else (a\<lparr>aTokens := AList.update ?tid (tokenUser a issuer calls regs ?tid ?e) (expireTokens now (aTokens a)),
               aNext := aNext a + 1\<rparr>,
             Inr \<lparr>itToken = ?token, itTokenID = ?tid, itExpires = ?e, itScopes = irScopes req\<rparr>))"
    using ttl g by (simp add: issue_def Let_def)
  have r: "a' = a\<lparr>aTokens := AList.update ?tid (tokenUser a issuer calls regs ?tid ?e) (expireTokens now (aTokens a)),
        aNext := aNext a + 1\<rparr>" "res = \<lparr>itToken = ?token, itTokenID = ?tid, itExpires = ?e, itScopes = irScopes req\<rparr>"
    using assms unfolding i by (simp_all split: if_splits)
  show thesis by (rule that [OF g]) (use r ttl in simp_all)
qed

lemma star_not_granted: "\<not> grantedCall issuer ''*''"
proof
  assume "grantedCall issuer ''*''"
  then obtain svc m where e: "''*'' = svc @ ''/'' @ m" "svc \<noteq> []" unfolding grantedCall_def by blast
  from e show False by (cases svc) auto
qed

lemma granted_roles:
  "list_all (grantedCall issuer) calls \<Longrightarrow> calls \<noteq> [] \<Longrightarrow> allowsRole issuer ''client''"
  "list_all (grantedReg issuer) regs \<Longrightarrow> regs \<noteq> [] \<Longrightarrow> allowsRole issuer ''server''"
  by (auto simp: neq_Nil_conv grantedCall_def grantedReg_def)

lemma grantedReg_allows:
  "list_all (grantedReg issuer) (uRegister t) \<Longrightarrow> allowsRegistration (Some t) svc \<Longrightarrow>
     allowsRegistration issuer svc \<and> \<not> hasPrefix svc reservedPrefix"
  by (auto simp: list_all_iff grantedReg_def allowsRegistration_def)

lemma allowsCall_star: "allowsCall u svc ''*'' \<Longrightarrow> allowsCall u svc mth"
  by (cases u) (auto simp: allowsCall_def)

lemma grantedCall_allows:
  assumes "list_all (grantedCall issuer) (callRules t)" "allowsCall (Some t) svc mth"
  shows "allowsCall issuer svc mth \<and> \<not> hasPrefix svc reservedPrefix"
proof -
  have "''*'' \<notin> set (callRules t)" using assms(1) star_not_granted by (auto simp: list_all_iff)
  with allowsCall_cases [OF assms(2)] obtain m where
    m: "svc @ ''/'' @ m \<in> set (callRules t)" "m = ''*'' \<or> m = mth" by blast
  then have "grantedCall issuer (svc @ ''/'' @ m)" using assms(1) by (simp add: list_all_iff)
  then obtain s' m' where g: "svc @ ''/'' @ m = s' @ ''/'' @ m'" "CHR ''/'' \<notin> set s'" "CHR ''/'' \<notin> set m'"
    "\<not> hasPrefix s' reservedPrefix" "allowsCall issuer s' m'" unfolding grantedCall_def by blast
  have "svc = s'" "m = m'" using slash_unique [OF g(2,3)] g(1) by blast+
  then show ?thesis using g(4,5) m(2) allowsCall_star by blast
qed

text \<open>
  C9.  A token that \<^verbatim>\<open>issue\<close> hands out is stored under its id and never allows more than its issuer:
  every call it permits its issuer permits, and none of them is on the Router's own services; every
  service name it may register its issuer may register; every role it has its issuer has.  It
  expires within an hour and cannot issue tokens itself.
\<close>

theorem token_attenuates_issuer:
  assumes "issue sha256 secret now issuer req a = (a', Inr res)"
  shows "\<exists>t. map_of (aTokens a') (itTokenID res) = Some t \<and>
    (\<forall>svc mth. allowsCall (Some t) svc mth \<longrightarrow> allowsCall (Some issuer) svc mth \<and> \<not> hasPrefix svc reservedPrefix) \<and>
    (\<forall>svc. allowsRegistration (Some t) svc \<longrightarrow> allowsRegistration (Some issuer) svc \<and> \<not> hasPrefix svc reservedPrefix) \<and>
    (\<forall>role. allowsRole (Some t) role \<longrightarrow> allowsRole (Some issuer) role) \<and>
    (\<exists>e. uExpires t = Some e \<and> now < e \<and> e \<le> now + 3600 * second) \<and>
    \<not> mayIssueTokens (Some t)"
proof -
  from issue_Inr [OF assms] obtain calls regs where
    g: "grantScopes (Some issuer) (irScopes req) [] [] [] = Inr (calls, regs)"
    and m: "map_of (aTokens a') (itTokenID res) = Some (tokenUser a issuer calls regs (itTokenID res) (itExpires res))"
    and e: "itExpires res = now + irTTLSeconds req * second" "1 \<le> irTTLSeconds req" "irTTLSeconds req \<le> 3600"
    by metis
  define t where "t = tokenUser a issuer calls regs (itTokenID res) (itExpires res)"
  have gr: "list_all (grantedCall (Some issuer)) calls" "list_all (grantedReg (Some issuer)) regs"
    using grantScopes_granted [OF g] by auto
  have role: "allowsRole (Some issuer) r" if "allowsRole (Some t) r" for r
  proof -
    have "(r = ''client'' \<and> calls \<noteq> []) \<or> (r = ''server'' \<and> regs \<noteq> [])"
      using that by (simp add: t_def allowsRole_def split: if_splits)
    then show ?thesis using granted_roles(1) [OF gr(1)] granted_roles(2) [OF gr(2)] by blast
  qed
  have exp: "now < itExpires res" "itExpires res \<le> now + 3600 * second"
    using e by (simp_all add: second_def)
  have t: "\<not> mayIssueTokens (Some t)" "uExpires t = Some (itExpires res)" "uRegister t = regs" "callRules t = calls"
    by (simp_all add: t_def mayIssueTokens_def)
  show ?thesis
  proof (intro exI [of _ t] conjI allI impI)
    show "map_of (aTokens a') (itTokenID res) = Some t" using m by (simp add: t_def)
    show "allowsCall (Some issuer) svc mth" "\<not> hasPrefix svc reservedPrefix" if "allowsCall (Some t) svc mth" for svc mth
      using grantedCall_allows [of "Some issuer" t svc mth] gr(1) t(4) that by simp_all
    show "allowsRegistration (Some issuer) svc" "\<not> hasPrefix svc reservedPrefix" if "allowsRegistration (Some t) svc" for svc
      using grantedReg_allows [of "Some issuer" t svc] gr(2) t(3) that by simp_all
    show "\<exists>e. uExpires t = Some e \<and> now < e \<and> e \<le> now + 3600 * second" using t(2) exp by blast
  qed (use role t(1) in blast)+
qed

definition sampleIssuer :: user where
  "sampleIssuer = zeroUser\<lparr>uUsername := ''ops'', uRoles := [''client''], uCall := Some [''chat.v1.Chat/*'']\<rparr>"

definition sampleRequest :: issueTokenRequest where
  "sampleRequest = \<lparr>irTTLSeconds = 900, irScopes = [\<lparr>scService = ''chat.v1.Chat'', scMethods = [''send''], scRegister = False\<rparr>]\<rparr>"

theorem token_attenuates_issuer_witness:
  "\<exists>a' res t. issue (\<lambda>s. s) ''k'' 0 sampleIssuer sampleRequest newAuth = (a', Inr res) \<and>
     map_of (aTokens a') (itTokenID res) = Some t \<and>
     (\<forall>svc mth. allowsCall (Some t) svc mth \<longrightarrow> allowsCall (Some sampleIssuer) svc mth \<and> \<not> hasPrefix svc reservedPrefix)"
proof -
  have "\<not> isl (snd (issue (\<lambda>s. s) ''k'' 0 sampleIssuer sampleRequest newAuth))" by code_simp
  then obtain a' res where "issue (\<lambda>s. s) ''k'' 0 sampleIssuer sampleRequest newAuth = (a', Inr res)"
    by (metis prod.collapse sum.collapse(2))
  with token_attenuates_issuer [OF this] show ?thesis by blast
qed

section \<open>Who a request is taken for\<close>

definition validRules :: "user \<Rightarrow> bool" where
  "validRules u \<longleftrightarrow> validatePermissions (uRoles u) (uRegister u) (callRules u) = None"

text \<open>The proof of an account's password that a Basic header carries.\<close>

definition basicProof :: "(string \<Rightarrow> string \<Rightarrow> string option) \<Rightarrow> auth \<Rightarrow> string \<Rightarrow> user \<Rightarrow> bool" where
  "basicProof pbkdf2 a header u \<longleftrightarrow> (\<exists>username password. basicAuth header = Some (username, password) \<and>
     map_of (aUsers a) username = Some u \<and> pbkdf2 password (uSalt u) = Some (uKey u))"

definition authInv :: "(string \<Rightarrow> string) \<Rightarrow> (string \<Rightarrow> string \<Rightarrow> string option) \<Rightarrow> auth \<Rightarrow> bool" where
  "authInv sha256 pbkdf2 a \<longleftrightarrow>
     (\<forall>n u. map_of (aUsers a) n = Some u \<longrightarrow> uKind u = IdentityAccount \<and> uUsername u = n \<and> n \<noteq> AnonymousUser \<and> uTokenID u = [] \<and> validRules u) \<and>
     (\<forall>k d u. map_of (aApiKeys a) k = Some (d, u) \<longrightarrow> uKind u = IdentityAPIKey \<and> length d = 32 \<and> CHR ''_'' \<notin> set k \<and> uTokenID u = [] \<and> validRules u) \<and>
     (\<forall>t u. map_of (aTokens a) t = Some u \<longrightarrow> uKind u = IdentityToken \<and> uTokenID u = t) \<and>
     uKind (aAnonymous a) = IdentityAnonymous \<and> uRoles (aAnonymous a) = [''client''] \<and> uRegister (aAnonymous a) = [] \<and>
     validRules (aAnonymous a) \<and>
     (\<forall>k u e. map_of (aVerified a) k = Some (u, e) \<longrightarrow> (\<exists>h. sha256 h = k \<and> basicProof pbkdf2 a h u))"

lemma authInv_new: "authInv sha256 pbkdf2 newAuth"
  by (simp add: authInv_def newAuth_def validRules_def validatePermissions_def callRules_def zeroUser_def)

lemma addUser_Inr:
  assumes "addUser u a = Inr a'"
  shows "(uUsername u = AnonymousUser \<and> validRules u \<and> uRoles u = [''client''] \<and>
      a' = a\<lparr>aAnonymous := zeroUser\<lparr>uUsername := AnonymousUser, uRoles := uRoles u, uCall := Some (callRules u), uKind := IdentityAnonymous\<rparr>\<rparr>) \<or>
    (uUsername u \<noteq> AnonymousUser \<and> validRules u \<and>
      (\<exists>salt key. let u' = u\<lparr>uAddr := aNext a, uSalt := salt, uKey := key\<rparr> in
         a' = a\<lparr>aUsers := AList.update (uUsername u) u' (aUsers a), aDummy := Some u', aNext := aNext a + 1\<rparr>))"
proof -
  have v: "validRules u" using assms by (simp add: addUser_def validRules_def split: if_splits option.splits)
  show ?thesis
  proof (cases "uUsername u = AnonymousUser")
    case True
    then show ?thesis using assms v by (simp add: addUser_def validRules_def split: if_splits)
  next
    case False
    then show ?thesis using assms v
      by (simp add: addUser_def validRules_def Let_def split: if_splits option.splits) blast+
  qed
qed

lemma authInvI:
  assumes "\<And>n u. map_of (aUsers a) n = Some u \<Longrightarrow>
      uKind u = IdentityAccount \<and> uUsername u = n \<and> n \<noteq> AnonymousUser \<and> uTokenID u = [] \<and> validRules u"
    and "\<And>k d u. map_of (aApiKeys a) k = Some (d, u) \<Longrightarrow>
      uKind u = IdentityAPIKey \<and> length d = 32 \<and> CHR ''_'' \<notin> set k \<and> uTokenID u = [] \<and> validRules u"
    and "\<And>t u. map_of (aTokens a) t = Some u \<Longrightarrow> uKind u = IdentityToken \<and> uTokenID u = t"
    and "uKind (aAnonymous a) = IdentityAnonymous" "uRoles (aAnonymous a) = [''client'']"
      "uRegister (aAnonymous a) = []" "validRules (aAnonymous a)"
    and "\<And>k u e. map_of (aVerified a) k = Some (u, e) \<Longrightarrow> \<exists>h. sha256 h = k \<and> basicProof pbkdf2 a h u"
  shows "authInv sha256 pbkdf2 a"
  unfolding authInv_def using assms by blast

lemma authInvD:
  assumes "authInv sha256 pbkdf2 a"
  shows "map_of (aUsers a) n = Some u \<Longrightarrow>
      uKind u = IdentityAccount \<and> uUsername u = n \<and> n \<noteq> AnonymousUser \<and> uTokenID u = [] \<and> validRules u"
    and "map_of (aApiKeys a) k = Some (d, u) \<Longrightarrow>
      uKind u = IdentityAPIKey \<and> length d = 32 \<and> CHR ''_'' \<notin> set k \<and> uTokenID u = [] \<and> validRules u"
    and "map_of (aTokens a) t = Some u \<Longrightarrow> uKind u = IdentityToken \<and> uTokenID u = t"
    and "uKind (aAnonymous a) = IdentityAnonymous" "uRoles (aAnonymous a) = [''client'']"
      "uRegister (aAnonymous a) = []" "validRules (aAnonymous a)"
    and "map_of (aVerified a) k = Some (u, e) \<Longrightarrow> \<exists>h. sha256 h = k \<and> basicProof pbkdf2 a h u"
  using assms unfolding authInv_def by blast+

lemma addUser_inv:
  assumes "addUser u a = Inr a'" "authInv sha256 pbkdf2 a" "aVerified a = []" "uKind u = IdentityAccount" "uTokenID u = []"
  shows "authInv sha256 pbkdf2 a' \<and> aVerified a' = []"
proof -
  consider (anon) "validRules u" "uRoles u = [''client'']"
      "a' = a\<lparr>aAnonymous := zeroUser\<lparr>uUsername := AnonymousUser, uRoles := uRoles u, uCall := Some (callRules u), uKind := IdentityAnonymous\<rparr>\<rparr>"
    | (acct) salt key where "uUsername u \<noteq> AnonymousUser" "validRules u"
      "a' = a\<lparr>aUsers := AList.update (uUsername u) (u\<lparr>uAddr := aNext a, uSalt := salt, uKey := key\<rparr>) (aUsers a),
              aDummy := Some (u\<lparr>uAddr := aNext a, uSalt := salt, uKey := key\<rparr>), aNext := aNext a + 1\<rparr>"
    using addUser_Inr [OF assms(1)] unfolding Let_def by blast
  then show ?thesis
  proof cases
    case anon
    have "validRules (zeroUser\<lparr>uUsername := AnonymousUser, uRoles := uRoles u, uCall := Some (callRules u), uKind := IdentityAnonymous\<rparr>)"
      using anon(1,2) by (simp add: validRules_def validatePermissions_def zeroUser_def callRules_def split: if_splits)
    then have "authInv sha256 pbkdf2 a'"
      by (intro authInvI) (use anon(2,3) assms(3) authInvD [OF assms(2)] in \<open>simp_all add: zeroUser_def\<close>)
    then show ?thesis using anon(3) assms(3) by simp
  next
    case acct
    let ?u = "u\<lparr>uAddr := aNext a, uSalt := salt, uKey := key\<rparr>"
    have v: "validRules ?u" using acct(2) by (simp add: validRules_def callRules_def)
    have "authInv sha256 pbkdf2 a'"
    proof (rule authInvI)
      fix n w assume "map_of (aUsers a') n = Some w"
      then show "uKind w = IdentityAccount \<and> uUsername w = n \<and> n \<noteq> AnonymousUser \<and> uTokenID w = [] \<and> validRules w"
        using acct(1,3) v assms(4,5) authInvD(1) [OF assms(2)] by (auto split: if_splits)
    qed (use acct(3) assms(3) authInvD [OF assms(2)] in simp_all)
    then show ?thesis using acct(3) assms(3) by simp
  qed
qed

lemma addKey_inv:
  assumes "addKey k a = Inr a'" "authInv sha256 pbkdf2 a" "aVerified a = []"
  shows "authInv sha256 pbkdf2 a' \<and> aVerified a' = []"
proof -
  obtain digest where d: "length digest = 32" "validatePermissions (kRoles k) (kRegister k) (case_option [] id (kCall k)) = None"
    "\<not> containsAny (kID k) (''_:'' @ [CHR 0x0D, CHR 0x0A] @ '' '')"
    "a' = a\<lparr>aApiKeys := AList.update (kID k)
           (digest, zeroUser\<lparr>uAddr := aNext a, uUsername := ''api-key:'' @ kID k, uRoles := kRoles k,
              uRegister := kRegister k, uCall := kCall k, uKind := IdentityAPIKey\<rparr>) (aApiKeys a), aNext := aNext a + 1\<rparr>"
    using assms(1) unfolding addKey_def by (simp split: if_splits option.splits)
  have us: "CHR ''_'' \<notin> set (kID k)" using d(3) by (auto simp: containsAny_iff)
  have "authInv sha256 pbkdf2 a'"
  proof (rule authInvI)
    fix i e w assume m: "map_of (aApiKeys a') i = Some (e, w)"
    show "uKind w = IdentityAPIKey \<and> length e = 32 \<and> CHR ''_'' \<notin> set i \<and> uTokenID w = [] \<and> validRules w"
    proof (cases "i = kID k")
      case True
      then show ?thesis using m d(1,2,4) us
        by (auto simp: validRules_def callRules_def zeroUser_def id_def split: option.splits)
    next
      case False
      then show ?thesis using m d(4) authInvD(2) [OF assms(2)] by simp
    qed
  qed (use d(4) assms(3) authInvD [OF assms(2)] in simp_all)
  then show ?thesis using d(4) assms(3) by simp
qed

lemma foldE_inv:
  "foldE f xs s = Inr s' \<Longrightarrow> P s \<Longrightarrow> \<forall>x s s'. x \<in> set xs \<longrightarrow> f x s = Inr s' \<longrightarrow> P s \<longrightarrow> P s' \<Longrightarrow> P s'"
proof (induction xs arbitrary: s)
  case (Cons x xs)
  then obtain s1 where "f x s = Inr s1" "foldE f xs s1 = Inr s'" by (auto split: sum.splits)
  then show ?case using Cons by (metis list.set_intros)
qed simp

definition keeps :: "('a \<Rightarrow> bool) \<Rightarrow> (string \<times> 'a setter) list \<Rightarrow> bool" where
  "keeps P fs \<longleftrightarrow> (\<forall>n st raw v x. (n, st) \<in> set fs \<longrightarrow> P x \<longrightarrow> P (fst (st raw v x)))"

lemma findField_mem: "findField fs k = Some st \<Longrightarrow> \<exists>n. (n, st) \<in> set fs"
  by (induction fs k rule: findField.induct) (auto split: if_splits)

lemma decodeStrict_inv: "keeps P fs \<Longrightarrow> P x \<Longrightarrow> P (fst (decodeStrict fs ms x))"
proof (induction ms arbitrary: x)
  case (Cons m ms)
  obtain k raw v where m: "m = (k, raw, v)" by (cases m)
  show ?case
  proof (cases "findField fs k")
    case None
    then show ?thesis using Cons m by (simp add: case_prod_beta)
  next
    case (Some st)
    then have "P (fst (st raw v x))" using findField_mem [OF Some] Cons.prems unfolding keeps_def by blast
    from Cons.IH [OF Cons.prems(1) this] show ?thesis using Some m by (simp add: case_prod_beta)
  qed
qed simp

lemma structStrict_inv: "keeps P fs \<Longrightarrow> P x \<Longrightarrow> P (fst (structStrict fs raw v x))"
  using decodeStrict_inv [of P fs x] by (simp add: structStrict_def split: json.splits)

definition plainUser :: "user \<Rightarrow> bool" where
  "plainUser u \<longleftrightarrow> uKind u = IdentityAccount \<and> uTokenID u = []"

lemma userFields_plain: "keeps plainUser userFields"
  by (auto simp: keeps_def userFields_def plainUser_def)

lemma structStrict_plain: "plainUser (fst (structStrict userFields raw v zeroUser))"
  by (rule structStrict_inv [OF userFields_plain]) (simp add: plainUser_def zeroUser_def)

lemma sliceUsers_plain:
  "list_all plainUser us \<Longrightarrow>
     list_all plainUser (case_option [] id (fst (sliceVal (\<lambda>r w. structStrict userFields r w zeroUser) raw v (Some us))))"
  using structStrict_plain by (auto simp: sliceVal_def Let_def list_all_iff split: json.splits)

lemma configUsers_plain:
  assumes "structStrict configFields raw v ([], []) = ((users, keys), ok)"
  shows "list_all plainUser users"
proof -
  have "keeps (\<lambda>x. list_all plainUser (fst x)) configFields"
    unfolding keeps_def configFields_def using sliceUsers_plain by auto
  from structStrict_inv [OF this, of "([], [])" raw v] assms show ?thesis by simp
qed

lemma authInv_dummy [simp]: "authInv sha256 pbkdf2 (a\<lparr>aDummy := d\<rparr>) = authInv sha256 pbkdf2 a"
  by (simp add: authInv_def basicProof_def)

lemma withDummy_inv:
  "withDummy pbkdf2 salt a = Inr a' \<Longrightarrow> authInv sha256 pbkdf2 a \<Longrightarrow> aVerified a = [] \<Longrightarrow>
     authInv sha256 pbkdf2 a' \<and> aVerified a' = []"
  by (auto simp: withDummy_def Let_def split: option.splits sum.splits)

lemma ParseAuth_Inr:
  assumes "ParseAuth pbkdf2 salt data = Inr a"
  obtains v users keys a1 a2 where "structStrict configFields data v ([], []) = ((users, keys), True)"
    "foldE addUser users newAuth = Inr a1" "withDummy pbkdf2 salt a1 = Inr a2" "foldE addKey keys a2 = Inr a"
proof -
  obtain v rest where p: "parseJson data = Some (v, rest)"
    using assms unfolding ParseAuth_def by (cases "parseJson data") auto
  obtain users keys ok where c: "structStrict configFields data v ([], []) = ((users, keys), ok)"
    by (metis prod.collapse)
  have ok: "ok" using assms p c unfolding ParseAuth_def by (cases ok) simp_all
  obtain a1 where a1: "foldE addUser users newAuth = Inr a1"
    using assms p c ok unfolding ParseAuth_def by (cases "foldE addUser users newAuth") (simp_all split: if_splits)
  obtain a2 where a2: "withDummy pbkdf2 salt a1 = Inr a2"
    using assms p c ok a1 unfolding ParseAuth_def by (cases "withDummy pbkdf2 salt a1") (simp_all split: if_splits)
  have "foldE addKey keys a2 = Inr a"
    using assms p c ok a1 a2 unfolding ParseAuth_def by (simp split: if_splits)
  then show thesis using that c ok a1 a2 by simp
qed

lemma ParseAuth_inv:
  assumes "ParseAuth pbkdf2 salt data = Inr a"
  shows "authInv sha256 pbkdf2 a \<and> aVerified a = []"
proof -
  let ?Q = "\<lambda>a. authInv sha256 pbkdf2 a \<and> aVerified a = []"
  from ParseAuth_Inr [OF assms] obtain v users keys a1 a2 where
    p: "structStrict configFields data v ([], []) = ((users, keys), True)"
    "foldE addUser users newAuth = Inr a1" "withDummy pbkdf2 salt a1 = Inr a2" "foldE addKey keys a2 = Inr a" .
  have "?Q newAuth" using authInv_new by (simp add: newAuth_def)
  moreover have "\<forall>x s s'. x \<in> set users \<longrightarrow> addUser x s = Inr s' \<longrightarrow> ?Q s \<longrightarrow> ?Q s'"
    using configUsers_plain [OF p(1)] addUser_inv unfolding list_all_iff plainUser_def by metis
  ultimately have "?Q a1" by (rule foldE_inv [where P = ?Q, OF p(2)])
  then have "?Q a2" using withDummy_inv [OF p(3)] by blast
  moreover have "\<forall>x s s'. x \<in> set keys \<longrightarrow> addKey x s = Inr s' \<longrightarrow> ?Q s \<longrightarrow> ?Q s'" using addKey_inv by metis
  ultimately show ?thesis by (rule foldE_inv [where P = ?Q, OF p(4)])
qed

lemma checkPassword_busy:
  "aSlots a \<ge> 8 \<Longrightarrow> checkPassword sha256 pbkdf2 now header a = (a, Inl authBusy)"
  by (simp add: checkPassword_def)

lemma checkPassword_no_basic:
  "\<not> aSlots a \<ge> 8 \<Longrightarrow> basicAuth header = None \<Longrightarrow> checkPassword sha256 pbkdf2 now header a = (a, Inl authRequired)"
  by (simp add: checkPassword_def)

lemma checkPassword_long:
  "\<not> aSlots a \<ge> 8 \<Longrightarrow> basicAuth header = Some (usr, pw) \<Longrightarrow> length pw > 1024 \<Longrightarrow>
     checkPassword sha256 pbkdf2 now header a = (a, Inl authRequired)"
  by (simp add: checkPassword_def)

lemma checkPassword_reject:
  "\<not> aSlots a \<ge> 8 \<Longrightarrow> basicAuth header = Some (usr, pw) \<Longrightarrow> \<not> length pw > 1024 \<Longrightarrow>
     map_of (aUsers a) usr = None \<or> (\<exists>u. map_of (aUsers a) usr = Some u \<and> pbkdf2 pw (uSalt u) \<noteq> Some (uKey u)) \<Longrightarrow>
     checkPassword sha256 pbkdf2 now header a = (a, Inl authRejected)"
  by (auto simp: checkPassword_def)

lemma checkPassword_accept:
  "\<not> aSlots a \<ge> 8 \<Longrightarrow> basicAuth header = Some (usr, pw) \<Longrightarrow> \<not> length pw > 1024 \<Longrightarrow>
     map_of (aUsers a) usr = Some u \<Longrightarrow> pbkdf2 pw (uSalt u) = Some (uKey u) \<Longrightarrow>
     checkPassword sha256 pbkdf2 now header a =
       (a\<lparr>aVerified := AList.update (sha256 header) (u, now + basicCacheTTL)
            (if length (aVerified a) \<ge> basicCacheSize then [] else aVerified a)\<rparr>, Inr u)"
  by (simp add: checkPassword_def Let_def)

lemma checkPassword_cases:
  assumes "checkPassword sha256 pbkdf2 now header a = (a', r)"
  shows "(\<exists>f. r = Inl f \<and> a' = a \<and> afStatus f \<in> {401, 503}) \<or>
    (\<exists>u v. r = Inr u \<and> basicProof pbkdf2 a header u \<and> (v = [] \<or> v = aVerified a) \<and>
       a' = a\<lparr>aVerified := AList.update (sha256 header) (u, now + basicCacheTTL) v\<rparr>)"
proof -
  consider f where "(a', r) = (a, Inl f)" "afStatus f \<in> {401, 503}"
    | usr pw u where "basicAuth header = Some (usr, pw)" "map_of (aUsers a) usr = Some u"
      "pbkdf2 pw (uSalt u) = Some (uKey u)" "\<not> aSlots a \<ge> 8" "\<not> length pw > 1024"
  proof (cases "aSlots a \<ge> 8 \<or> basicAuth header = None")
    case True
    then have "(a', r) = (a, Inl authBusy) \<or> (a', r) = (a, Inl authRequired)"
      using assms checkPassword_busy checkPassword_no_basic by metis
    then show ?thesis using that(1) failure_status by fastforce
  next
    case False
    then obtain usr pw where b: "basicAuth header = Some (usr, pw)" "\<not> aSlots a \<ge> 8" by auto
    show ?thesis
    proof (cases "length pw > 1024 \<or> (\<forall>u. map_of (aUsers a) usr = Some u \<longrightarrow> pbkdf2 pw (uSalt u) \<noteq> Some (uKey u))")
      case True
      then have "(a', r) = (a, Inl authRejected) \<or> (a', r) = (a, Inl authRequired)"
        using assms checkPassword_long [OF b(2,1)] checkPassword_reject [OF b(2,1)] by (metis not_Some_eq)
      then show ?thesis using that(1) failure_status by fastforce
    qed (use that(2) b in blast)
  qed
  then show ?thesis
  proof cases
    case (2 usr pw u)
    let ?v = "if length (aVerified a) \<ge> basicCacheSize then [] else aVerified a"
    have "basicProof pbkdf2 a header u" using 2 by (auto simp: basicProof_def)
    moreover have "(a', r) = (a\<lparr>aVerified := AList.update (sha256 header) (u, now + basicCacheTTL) ?v\<rparr>, Inr u)"
      using assms checkPassword_accept [of a header usr pw u pbkdf2, OF 2(4,1,5,2,3)] by simp
    moreover have "?v = [] \<or> ?v = aVerified a" by simp
    ultimately show ?thesis by blast
  qed blast
qed

lemma checkPassword_inv:
  assumes "checkPassword sha256 pbkdf2 now header a = (a', r)" "authInv sha256 pbkdf2 a"
  shows "authInv sha256 pbkdf2 a'"
  using checkPassword_cases [OF assms(1)]
proof
  assume "\<exists>u v. r = Inr u \<and> basicProof pbkdf2 a header u \<and> (v = [] \<or> v = aVerified a) \<and>
       a' = a\<lparr>aVerified := AList.update (sha256 header) (u, now + basicCacheTTL) v\<rparr>"
  then obtain u v where u: "basicProof pbkdf2 a header u" "v = [] \<or> v = aVerified a"
    "a' = a\<lparr>aVerified := AList.update (sha256 header) (u, now + basicCacheTTL) v\<rparr>" by blast
  have bp: "basicProof pbkdf2 a' h w = basicProof pbkdf2 a h w" for h w using u(3) by (simp add: basicProof_def)
  show ?thesis
  proof (rule authInvI)
    fix k w e assume m: "map_of (aVerified a') k = Some (w, e)"
    show "\<exists>h. sha256 h = k \<and> basicProof pbkdf2 a' h w"
    proof (cases "k = sha256 header")
      case True
      then show ?thesis using m u(1,3) bp by auto
    next
      case False
      then have "map_of (aVerified a) k = Some (w, e)" using m u(2,3) by auto
      then show ?thesis using authInvD(8) [OF assms(2)] bp by blast
    qed
  qed (use u(3) authInvD(1-7) [OF assms(2)] in simp_all)
qed (use assms(2) in blast)

text \<open>Whom each credential names: the evidence behind an identity.\<close>

definition evidence :: "(string \<Rightarrow> string) \<Rightarrow> (string \<Rightarrow> string \<Rightarrow> string option) \<Rightarrow> time \<Rightarrow> string \<Rightarrow> auth \<Rightarrow> user \<Rightarrow> bool" where
  "evidence sha256 pbkdf2 now header a u = (case uKind u of
      IdentityAccount \<Rightarrow> \<exists>h. sha256 h = sha256 header \<and> basicProof pbkdf2 a h u
    | IdentityToken \<Rightarrow> \<exists>scheme token e. cut CHR '' '' header = (scheme, token, True) \<and>
        map_of (aTokens a) (hexEncode (sha256 token)) = Some u \<and> uExpires u = Some e \<and> now < e
    | IdentityAPIKey \<Rightarrow> \<exists>scheme token kid. cut CHR '' '' header = (scheme, token, True) \<and>
        map_of (aApiKeys a) kid = Some (sha256 token, u)
    | IdentityAnonymous \<Rightarrow> header = [])"

lemma evidence_basic:
  assumes "authInv sha256 pbkdf2 a" "sha256 h = sha256 header" "basicProof pbkdf2 a h u"
  shows "evidence sha256 pbkdf2 now header a u"
proof -
  have "uKind u = IdentityAccount" using assms(3) authInvD(1) [OF assms(1)] by (auto simp: basicProof_def)
  then show ?thesis using assms by (auto simp: evidence_def)
qed

lemma checkAuth_basic:
  assumes inv: "authInv sha256 pbkdf2 a"
    and c: "(case map_of (aVerified a) (sha256 header) of
             Some (u, expires) \<Rightarrow>
               if now < expires then (Some a, Inr (Some u))
               else map_prod Some (map_sum id Some) (checkPassword sha256 pbkdf2 now header a)
           | None \<Rightarrow> map_prod Some (map_sum id Some) (checkPassword sha256 pbkdf2 now header a)) = (ao', r)"
  shows "\<exists>a'. ao' = Some a' \<and> authInv sha256 pbkdf2 a' \<and>
    (case r of Inl f \<Rightarrow> afStatus f \<in> {401, 503} | Inr uo \<Rightarrow> \<exists>u. uo = Some u \<and> evidence sha256 pbkdf2 now header a u)"
proof (cases "\<exists>u e. map_of (aVerified a) (sha256 header) = Some (u, e) \<and> now < e")
  case True
  then obtain u e where u: "map_of (aVerified a) (sha256 header) = Some (u, e)" "now < e" by blast
  then show ?thesis using c inv authInvD(8) [OF inv u(1)] evidence_basic [OF inv] by auto
next
  case False
  obtain a' q where q: "checkPassword sha256 pbkdf2 now header a = (a', q)" by fastforce
  have r: "ao' = Some a'" "r = map_sum id Some q" using c False q by (auto split: option.splits if_splits)
  from checkPassword_cases [OF q] show ?thesis
    using r checkPassword_inv [OF q inv] evidence_basic [OF inv refl] by auto
qed

text \<open>
  C10.  Starting from a parsed auth document, every answer of \<^verbatim>\<open>check\<close> is backed by evidence: an account
  by its password (possibly proved less than a minute ago by a header with the same digest), a token by
  an unexpired entry under the digest of the presented token, an API key by the configured digest.
  A request that presents credentials is never taken for the anonymous user: it is accepted on such
  evidence or refused with 401 or 503.  The invariant behind this is kept by every check.
\<close>

theorem checkAuth_needs_evidence:
  assumes "authInv sha256 pbkdf2 a" "checkAuth sha256 pbkdf2 now header (Some a) = (ao', r)"
  shows "(\<exists>a'. ao' = Some a' \<and> authInv sha256 pbkdf2 a') \<and>
    (case r of
       Inl f \<Rightarrow> header \<noteq> [] \<and> afStatus f \<in> {401, 503}
     | Inr uo \<Rightarrow> \<exists>u. uo = Some u \<and> evidence sha256 pbkdf2 now header a u \<and> (header \<noteq> [] \<longleftrightarrow> uKind u \<noteq> IdentityAnonymous))"
proof (cases "header = []")
  case True
  then show ?thesis using assms authInvD(4) [OF assms(1)] by (auto simp: checkAuth_def evidence_def)
next
  case False
  obtain scheme token ok where c: "cut CHR '' '' header = (scheme, token, ok)" by (metis prod_cases3)
  let ?G = "(\<exists>a'. ao' = Some a' \<and> authInv sha256 pbkdf2 a') \<and>
    (case r of Inl f \<Rightarrow> afStatus f \<in> {401, 503} | Inr uo \<Rightarrow> \<exists>u. uo = Some u \<and> evidence sha256 pbkdf2 now header a u)"
  have "?G"
  proof (cases "ok \<and> equalFold scheme ''Bearer''")
    case bearer: True
    show ?thesis
    proof (cases "hasPrefix token apiKeyPrefix")
      case True
      then show ?thesis using assms False c bearer authInvD(2) [OF assms(1)]
        by (auto simp: checkAuth_def evidence_def split: option.splits if_splits prod.splits)
    next
      case no: False
      then show ?thesis using assms False c bearer authInvD(3) [OF assms(1)]
        by (auto simp: checkAuth_def evidence_def split: option.splits if_splits prod.splits)
    qed
  next
    case no: False
    have "checkAuth sha256 pbkdf2 now header (Some a) = (case map_of (aVerified a) (sha256 header) of
             Some (u, expires) \<Rightarrow>
               if now < expires then (Some a, Inr (Some u))
               else map_prod Some (map_sum id Some) (checkPassword sha256 pbkdf2 now header a)
           | None \<Rightarrow> map_prod Some (map_sum id Some) (checkPassword sha256 pbkdf2 now header a))"
      using False c no by (auto simp: checkAuth_def)
    from checkAuth_basic [OF assms(1) this [symmetric, THEN trans, OF assms(2)]] show ?thesis by blast
  qed
  moreover have "uKind u \<noteq> IdentityAnonymous" if "evidence sha256 pbkdf2 now header a u" for u
    using that False by (auto simp: evidence_def)
  ultimately show ?thesis using False by (auto split: sum.splits)
qed

lemma cut_bearer: "cut CHR '' '' (''Bearer '' @ t) = (''Bearer'', t, True)"
  using cut_append [of "CHR '' ''" "''Bearer''" t] by simp

lemma equalFold_refl [simp]: "equalFold s s"
  by (simp add: equalFold_def)

lemma checkAuth_apiKey:
  assumes "CHR ''_'' \<notin> set kid" "map_of (aApiKeys a) kid = Some (sha256 (apiKeyPrefix @ kid @ ''_'' @ rest), u)"
  shows "checkAuth sha256 pbkdf2 now (''Bearer '' @ apiKeyPrefix @ kid @ ''_'' @ rest) (Some a) = (Some a, Inr (Some u))"
proof -
  let ?t = "apiKeyPrefix @ kid @ ''_'' @ rest"
  have "trimPrefix ?t apiKeyPrefix = kid @ CHR ''_'' # rest" by (simp add: trimPrefix_def)
  then have "fst (cut CHR ''_'' (trimPrefix ?t apiKeyPrefix)) = kid" using cut_append [OF assms(1)] by simp
  then show ?thesis using assms(2) unfolding checkAuth_def cut_bearer by (simp del: append.simps append_Cons append_assoc)
qed

definition apiUser :: "apiKey \<Rightarrow> auth \<Rightarrow> user" where
  "apiUser k a = zeroUser\<lparr>uAddr := aNext a, uUsername := ''api-key:'' @ kID k, uRoles := kRoles k,
     uRegister := kRegister k, uCall := kCall k, uKind := IdentityAPIKey\<rparr>"

lemma addKey_entry:
  assumes "addKey k a = Inr a'" "hexDecode (kKeyHash k) = Some digest"
  shows "map_of (aApiKeys a') (kID k) = Some (digest, apiUser k a)"
  using assms unfolding addKey_def apiUser_def by (auto split: if_splits option.splits)

text \<open>
  C11.  Round trip of an API key: a key that \<^verbatim>\<open>NewAPIKey\<close> makes for an id, once its printed hash is
  accepted into the auth document under that id, authenticates as exactly that key's identity (its
  roles and rule lists), whatever other accounts, keys and tokens there are.
\<close>

theorem apiKey_roundtrip:
  assumes "NewAPIKey sha256 secret (kID k) = Inr (key, hash)" "kKeyHash k = hash" "addKey k a = Inr a'"
  shows "checkAuth sha256 pbkdf2 now (''Bearer '' @ key) (Some a') = (Some a', Inr (Some (apiUser k a)))"
proof -
  have n: "\<not> containsAny (kID k) (''_:'' @ [CHR 0x0D, CHR 0x0A] @ '' '')"
    "key = apiKeyPrefix @ kID k @ ''_'' @ hexEncode secret" "hash = hexEncode (sha256 key)"
    using assms(1) by (auto simp: NewAPIKey_def Let_def split: if_splits)
  have u: "CHR ''_'' \<notin> set (kID k)" using n(1) by (auto simp: containsAny_iff)
  have "hexDecode (kKeyHash k) = Some (sha256 key)" using n(3) assms(2) hexDecode_hexEncode by simp
  from addKey_entry [OF assms(3) this] show ?thesis
    unfolding n(2) by (rule checkAuth_apiKey [OF u])
qed

definition pad32 :: "string \<Rightarrow> string" where
  "pad32 s = take 32 (s @ replicate 32 CHR ''0'')"

definition sampleKey :: apiKey where
  "sampleKey = \<lparr>kID = ''ci'', kKeyHash = hexEncode (pad32 ''mk_ci_6b''), kRoles = [''client''], kRegister = [], kCall = Some [''*'']\<rparr>"

theorem apiKey_roundtrip_witness:
  "\<exists>a'. addKey sampleKey newAuth = Inr a' \<and> NewAPIKey pad32 ''k'' (kID sampleKey) = Inr (''mk_ci_6b'', kKeyHash sampleKey) \<and>
     checkAuth pad32 (\<lambda>_ _. None) 0 (''Bearer '' @ ''mk_ci_6b'') (Some a') = (Some a', Inr (Some (apiUser sampleKey newAuth)))"
proof -
  have h: "hexEncode ''k'' = ''6b''" by code_simp
  have n: "NewAPIKey pad32 ''k'' (kID sampleKey) = Inr (''mk_ci_6b'', kKeyHash sampleKey)"
    by (simp add: NewAPIKey_def sampleKey_def apiKeyPrefix_def containsAny_def h Let_def)
  have "hexDecode (kKeyHash sampleKey) = Some (pad32 ''mk_ci_6b'')"
    by (simp add: sampleKey_def hexDecode_hexEncode)
  moreover have "validatePermissions (kRoles sampleKey) (kRegister sampleKey) (case_option [] id (kCall sampleKey)) = None"
    by (simp add: validatePermissions_def sampleKey_def validCallRule_def)
  moreover have "length (pad32 ''mk_ci_6b'') = 32" by (simp add: pad32_def)
  moreover have "\<not> containsAny ''ci'' (''_:'' @ [CHR 0x0D, CHR 0x0A] @ '' '')" by code_simp
  moreover have "kID sampleKey = ''ci''" "kRoles sampleKey = [''client'']" by (simp_all add: sampleKey_def)
  ultimately obtain a' where a': "addKey sampleKey newAuth = Inr a'"
    unfolding addKey_def by (simp add: newAuth_def del: append.simps)
  show ?thesis using apiKey_roundtrip [OF n refl a'] n a' by blast
qed

theorem checkAuth_needs_evidence_witness:
  "checkAuth pad32 (\<lambda>_ _. None) 0 ''Bearer mk_ci_6b'' (Some newAuth) = (Some newAuth, Inl unauthorized) \<and>
   afStatus unauthorized \<in> {401, 503}"
proof -
  have c: "checkAuth pad32 (\<lambda>_ _. None) 0 ''Bearer mk_ci_6b'' (Some newAuth) = (Some newAuth, Inl unauthorized)"
    by code_simp
  from checkAuth_needs_evidence [OF authInv_new c] c show ?thesis by simp
qed

text \<open>
  C12.  Revocation is immediate and final: once \<^verbatim>\<open>revoke_token\<close> reports success, the token itself no
  longer authenticates (401) and every connection that was opened with it fails \<^verbatim>\<open>valid\<close>, at any
  later time; a refused revocation (an unknown token, or one issued by another account) changes nothing.
\<close>

theorem revoked_token_is_refused:
  assumes "revokeToken username tid a = (a', ok)"
  shows "(ok \<longrightarrow> (\<forall>now u. uTokenID u = tid \<and> tid \<noteq> [] \<longrightarrow> \<not> validUser now (Some a') (Some u)) \<and>
      (\<forall>now token. hexEncode (sha256 token) = tid \<and> \<not> hasPrefix token apiKeyPrefix \<longrightarrow>
         checkAuth sha256 pbkdf2 now (''Bearer '' @ token) (Some a') = (Some a', Inl unauthorized)) \<and>
      (\<exists>u. map_of (aTokens a) tid = Some u \<and> uUsername u = username)) \<and>
    (\<not> ok \<longrightarrow> a' = a) \<and> (\<forall>t. t \<noteq> tid \<longrightarrow> map_of (aTokens a') t = map_of (aTokens a) t)"
proof (cases ok)
  case True
  then obtain u where u: "map_of (aTokens a) tid = Some u" "uUsername u = username"
    "a' = a\<lparr>aTokens := AList.delete tid (aTokens a)\<rparr>"
    using assms by (auto simp: revokeToken_def split: option.splits if_splits)
  have gone: "map_of (aTokens a') tid = None" using u(3) by simp
  have "\<not> validUser now (Some a') (Some w)" if "uTokenID w = tid" "tid \<noteq> []" for now w
    using gone that by (simp add: validUser_def)
  moreover have "checkAuth sha256 pbkdf2 now (''Bearer '' @ token) (Some a') = (Some a', Inl unauthorized)"
    if "hexEncode (sha256 token) = tid" "\<not> hasPrefix token apiKeyPrefix" for now token
    using gone that unfolding checkAuth_def cut_bearer by simp
  ultimately show ?thesis using True u by simp
next
  case False
  then show ?thesis using assms by (auto simp: revokeToken_def split: option.splits if_splits)
qed

theorem revoked_token_is_refused_witness:
  "\<exists>a' res a''. issue (\<lambda>s. s) ''k'' 0 sampleIssuer sampleRequest newAuth = (a', Inr res) \<and>
     revokeToken ''ops'' (itTokenID res) a' = (a'', True) \<and>
     checkAuth (\<lambda>s. s) (\<lambda>_ _. None) 1 (''Bearer '' @ itToken res) (Some a'') = (Some a'', Inl unauthorized)"
proof -
  have "\<not> isl (snd (issue (\<lambda>s. s) ''k'' 0 sampleIssuer sampleRequest newAuth))" by code_simp
  then obtain a' res where i: "issue (\<lambda>s. s) ''k'' 0 sampleIssuer sampleRequest newAuth = (a', Inr res)"
    by (metis prod.collapse sum.collapse(2))
  from issue_Inr [OF i] obtain calls regs where t:
    "map_of (aTokens a') (itTokenID res) = Some (tokenUser newAuth sampleIssuer calls regs (itTokenID res) (itExpires res))"
    "itToken res = ''mt_'' @ rawURLEncode ''k''" "itTokenID res = hexEncode (itToken res)" by metis
  have r: "revokeToken ''ops'' (itTokenID res) a' = (a'\<lparr>aTokens := AList.delete (itTokenID res) (aTokens a')\<rparr>, True)"
    using t(1) by (simp add: revokeToken_def sampleIssuer_def)
  have "\<not> hasPrefix (itToken res) apiKeyPrefix" unfolding t(2) by (simp add: hasPrefix_def apiKeyPrefix_def)
  then have "checkAuth (\<lambda>s. s) (\<lambda>_ _. None) 1 (''Bearer '' @ itToken res) (Some (a'\<lparr>aTokens := AList.delete (itTokenID res) (aTokens a')\<rparr>)) =
      (Some (a'\<lparr>aTokens := AList.delete (itTokenID res) (aTokens a')\<rparr>), Inl unauthorized)"
    using t(3) by (intro revoked_token_is_refused [OF r, of "\<lambda>s. s" "\<lambda>_ _. None", THEN conjunct1, THEN mp, OF TrueI,
          THEN conjunct2, THEN conjunct1, rule_format]) simp
  then show ?thesis using i r by blast
qed

end
