(* ===== verification/Names.thy ===== *)
theory Names
  imports Protocol
begin

text \<open>
  Service names and the frames each role may send
  (\<^verbatim>\<open>validServiceName\<close> and \<^verbatim>\<open>allowedFrame\<close> in \<^verbatim>\<open>meshcall-router/internal/router/router.go\<close>).
  The four regular expressions of the source are predicates on the whole segment; the scan over
  the dotted segments is a recursion that keeps the two counters of the source.
\<close>

definition nameChar :: "char \<Rightarrow> bool" where
  "nameChar c \<longleftrightarrow> isLetter c \<or> isDigit c \<or> c = CHR ''_''"

definition nameSegment :: "string \<Rightarrow> bool" where
  "nameSegment s = (case s of [] \<Rightarrow> False | c # cs \<Rightarrow> isLetter c \<and> list_all nameChar cs)"

definition numericSegment :: "string \<Rightarrow> bool" where
  "numericSegment s \<longleftrightarrow> s = ''0'' \<or> (s \<noteq> [] \<and> hd s \<noteq> CHR ''0'' \<and> list_all isDigit s)"

definition majorSegment :: "string \<Rightarrow> bool" where
  "majorSegment s = (case s of [] \<Rightarrow> False | c # cs \<Rightarrow> c = CHR ''v'' \<and> numericSegment cs)"

definition patchSegment :: "string \<Rightarrow> bool" where
  "patchSegment s = (case cut CHR ''-'' s of (a, b, ok) \<Rightarrow>
     numericSegment a \<and> (ok \<longrightarrow> b \<noteq> [] \<and> list_all (\<lambda>c. isDigit c \<or> isLetter c \<or> c = CHR ''-'') b))"

text \<open>How many segments after a major version belong to its group: two when a minor and a patch
  version follow, otherwise none.\<close>

definition groupRest :: "string list \<Rightarrow> nat" where
  "groupRest ss = (case ss of
      a # b # _ \<Rightarrow> if numericSegment a \<and> patchSegment b then 2 else 0
    | _ \<Rightarrow> 0)"

text \<open>The loop over the segments: \<open>None\<close> is the early \<^verbatim>\<open>return false\<close>, otherwise the counters
  \<^verbatim>\<open>versions\<close> and \<^verbatim>\<open>names\<close> at its end.\<close>

fun scanSegments :: "string list \<Rightarrow> nat \<Rightarrow> nat \<Rightarrow> (nat \<times> nat) option" where
  "scanSegments [] versions names = Some (versions, names)"
| "scanSegments (s # ss) versions names =
     (if majorSegment s then scanSegments (drop (groupRest ss) ss) (Suc versions) names
      else if nameSegment s then scanSegments ss versions (Suc names)
      else None)"

definition validServiceName :: "string \<Rightarrow> bool" where
  "validServiceName name = (case scanSegments (splitOn CHR ''.'' name) 0 0 of
      None \<Rightarrow> False
    | Some (versions, names) \<Rightarrow> versions = 1 \<and> names > 0)"

definition allowedFrame :: "string \<Rightarrow> frame \<Rightarrow> bool" where
  "allowedFrame role f =
     (if role = ''client'' then
        fKind f = ''call.open'' \<or> fKind f = ''call.cancel'' \<or>
        ((fKind f = ''stream.item'' \<or> fKind f = ''stream.end'') \<and> fDirection f = ''client'') \<or>
        (fKind f = ''stream.window'' \<and> fDirection f = ''server'')
      else
        fKind f = ''call.result'' \<or> fKind f = ''call.error'' \<or>
        ((fKind f = ''stream.item'' \<or> fKind f = ''stream.end'') \<and> fDirection f = ''server'') \<or>
        (fKind f = ''stream.window'' \<and> fDirection f = ''client''))"

section \<open>The grammar of service names\<close>

text \<open>The documented form: plain name segments around exactly one version group, \<open>v1\<close> or
  \<open>v1.2.0[-pre]\<close>, and at least one name.\<close>

definition plainName :: "string \<Rightarrow> bool" where
  "plainName s \<longleftrightarrow> nameSegment s \<and> \<not> majorSegment s"

definition versionGroup :: "string list \<Rightarrow> bool" where
  "versionGroup vs = (case vs of
      [m] \<Rightarrow> majorSegment m
    | [m, n, p] \<Rightarrow> majorSegment m \<and> numericSegment n \<and> patchSegment p
    | _ \<Rightarrow> False)"

lemma numeric_hd: "numericSegment s \<Longrightarrow> s \<noteq> [] \<and> isDigit (hd s)"
  by (cases s) (auto simp: numericSegment_def isDigit_def byte_def)

lemma digit_not_letter: "isDigit c \<Longrightarrow> \<not> isLetter c"
  by (auto simp: isDigit_def isLetter_def)

lemma numeric_not_name: "numericSegment s \<Longrightarrow> \<not> nameSegment s"
  using numeric_hd [of s] digit_not_letter by (cases s) (auto simp: nameSegment_def)

lemma numeric_not_major: "numericSegment s \<Longrightarrow> \<not> majorSegment s"
  using numeric_hd [of s] by (cases s) (auto simp: majorSegment_def isDigit_def byte_def)

lemma scan_plain:
  "list_all plainName ns \<Longrightarrow> scanSegments (ns @ ss) v n = scanSegments ss v (n + length ns)"
  by (induction ns arbitrary: n) (auto simp: plainName_def)

lemma scan_count: "scanSegments ss v n = Some (v', n') \<Longrightarrow> v \<le> v' \<and> n \<le> n'"
proof (induction ss v n rule: scanSegments.induct)
  case (2 s ss v n)
  then show ?case by (cases "majorSegment s"; cases "nameSegment s") auto
qed simp

lemma scan_plain_only: "scanSegments ss v n = Some (v, n') \<Longrightarrow> list_all plainName ss"
proof (induction ss v n rule: scanSegments.induct)
  case (2 s ss v n)
  have "\<not> majorSegment s" using 2(3) scan_count [of "drop (groupRest ss) ss" "Suc v" n v n'] by auto
  then show ?case using 2(2,3) by (auto simp: plainName_def split: if_splits)
qed simp

lemma groupRest_group:
  "majorSegment s \<Longrightarrow> versionGroup (s # take (groupRest ss) ss)"
  by (auto simp: versionGroup_def groupRest_def split: list.splits)

lemma scan_one_version:
  "scanSegments ss v n = Some (Suc v, n') \<Longrightarrow>
     \<exists>pre vs post. ss = pre @ vs @ post \<and> list_all plainName (pre @ post) \<and> versionGroup vs"
proof (induction ss v n rule: scanSegments.induct)
  case (2 s ss v n)
  show ?case
  proof (cases "majorSegment s")
    case True
    let ?k = "groupRest ss"
    have "list_all plainName (drop ?k ss)" using 2(3) True scan_plain_only by auto
    then have "s # ss = [] @ (s # take ?k ss) @ drop ?k ss \<and> list_all plainName ([] @ drop ?k ss) \<and>
        versionGroup (s # take ?k ss)" using groupRest_group [OF True] by simp
    then show ?thesis by blast
  next
    case False
    then have n: "nameSegment s" "scanSegments ss v (Suc n) = Some (Suc v, n')"
      using 2(3) by (auto split: if_splits)
    from 2(2) [OF False n] obtain pre vs post where
      "ss = pre @ vs @ post" "list_all plainName (pre @ post)" "versionGroup vs" by blast
    then have "s # ss = (s # pre) @ vs @ post \<and> list_all plainName ((s # pre) @ post) \<and> versionGroup vs"
      using False n by (simp add: plainName_def)
    then show ?thesis by blast
  qed
qed simp

lemma groupRest_plain: "list_all plainName post \<Longrightarrow> groupRest post = 0"
  using numeric_not_name by (auto simp: groupRest_def plainName_def split: list.splits)

lemma scan_version_group:
  assumes "versionGroup vs" "list_all plainName post"
  shows "scanSegments (vs @ post) v n = Some (Suc v, n + length post)"
proof -
  have p: "scanSegments post (Suc v) n = Some (Suc v, n + length post)"
    using scan_plain [OF assms(2), of "[]" "Suc v" n] by simp
  consider m where "vs = [m]" "majorSegment m"
    | m a b where "vs = [m, a, b]" "majorSegment m" "numericSegment a" "patchSegment b"
    using assms(1) by (auto simp: versionGroup_def split: list.splits)
  then show ?thesis
  proof cases
    case 1
    then show ?thesis using p groupRest_plain [OF assms(2)] by simp
  next
    case 2
    then show ?thesis using p by (simp add: groupRest_def)
  qed
qed

text \<open>
  C7.  The single left-to-right scan of \<^verbatim>\<open>validServiceName\<close>, with its greedy choice between a
  one-segment and a three-segment version, accepts exactly the documented grammar: dotted plain
  names around exactly one version group, with at least one name.
\<close>

theorem validServiceName_grammar:
  "validServiceName name \<longleftrightarrow>
     (\<exists>pre vs post. splitOn CHR ''.'' name = pre @ vs @ post \<and> list_all plainName (pre @ post) \<and>
        versionGroup vs \<and> pre @ post \<noteq> [])"
proof
  assume "validServiceName name"
  then obtain n where n: "scanSegments (splitOn CHR ''.'' name) 0 0 = Some (Suc 0, n)" "n > 0"
    by (auto simp: validServiceName_def split: option.splits)
  from scan_one_version [OF n(1)] obtain pre vs post where
    e: "splitOn CHR ''.'' name = pre @ vs @ post" "list_all plainName (pre @ post)" "versionGroup vs" by blast
  have "scanSegments (pre @ vs @ post) 0 0 = Some (Suc 0, length pre + length post)"
    using e(2,3) scan_plain [of pre "vs @ post" 0 0] scan_version_group [of vs post 0 "length pre"] by simp
  with n e show "\<exists>pre vs post. splitOn CHR ''.'' name = pre @ vs @ post \<and> list_all plainName (pre @ post) \<and>
        versionGroup vs \<and> pre @ post \<noteq> []" by auto
next
  assume "\<exists>pre vs post. splitOn CHR ''.'' name = pre @ vs @ post \<and> list_all plainName (pre @ post) \<and>
        versionGroup vs \<and> pre @ post \<noteq> []"
  then obtain pre vs post where e: "splitOn CHR ''.'' name = pre @ vs @ post"
    "list_all plainName (pre @ post)" "versionGroup vs" "pre @ post \<noteq> []" by blast
  have "scanSegments (pre @ vs @ post) 0 0 = Some (Suc 0, length pre + length post)"
    using e(2,3) scan_plain [of pre "vs @ post" 0 0] scan_version_group [of vs post 0 "length pre"] by simp
  with e show "validServiceName name" by (auto simp: validServiceName_def)
qed

end
