(* ===== verification/Router_State.thy ===== *)
theory Router_State
  imports Outbox Breaker Deadline_Heap Auth Names
begin

text \<open>
  The state behind the Router's mutex (\<^verbatim>\<open>meshcall-router/internal/router/router.go\<close>,
  \<^verbatim>\<open>balance.go\<close>, \<^verbatim>\<open>dedup.go\<close>, \<^verbatim>\<open>metrics.go\<close>).  Peers, routes and idempotency entries are heap
  objects that several structures point to, so they live in stores indexed by address and the
  structures hold addresses; pointer comparisons of the source are comparisons of addresses.
  A Go map is an association list whose order is the order a \<^verbatim>\<open>range\<close> loop happens to visit.
  The current time and other outside inputs come in an \<open>env\<close>.  The position of a route in the
  deadline heap (its \<^verbatim>\<open>index\<close> field) is kept by the heap component.
\<close>

section \<open>Data\<close>

record config =
  cMaxFrameSize :: int
  cMaxCallsPerConnection :: int
  cShutdownTimeout :: time
  cOutboxSize :: int
  cDeadlineGrace :: time
  cIdleTimeout :: time
  cBreakerThreshold :: int
  cBreakerCooldown :: time
  cMaxAnonymousConnections :: int
  cHTTPDefaultTimeout :: time
  cHTTPMaxTimeout :: time
  cHTTPMaxInflight :: int
  cHTTPCORSOrigins :: "string list"
  cMaxConnections :: int

record peer =
  pOut :: outbox
  pUser :: "user option"
  pId :: string
  pRole :: string
  pInstanceID :: string
  pServices :: "service list"
  pInflight :: int
  pCalls :: int
  pMaxInflight :: int
  pHealth :: health
  pDraining :: bool
  pCancelled :: bool   \<comment> \<open>its context is done: \<^verbatim>\<open>p.ctx.Err() != nil\<close>\<close>

record route =
  rtId :: string
  rtService :: string
  rtMethod :: string
  rtStarted :: time
  rtClient :: addr
  rtInstance :: addr
  rtDeadline :: time
  rtDedup :: "addr option"
  rtClientCredit :: int
  rtServerCredit :: int

record dedupEntry =
  deKey :: string
  deRoute :: "addr option"
  deWaiters :: "(addr \<times> string) list"
  deResult :: "frame option"
  deExpires :: time
  deLastInstance :: "addr option"
  deListed :: bool     \<comment> \<open>\<^verbatim>\<open>element != nil\<close>: it is in the eviction order\<close>

record pool =
  plTargeted :: bool
  plMethods :: "(string, meth) gomap"
  plContract :: "string option"
  plContractMethods :: nat
  plInstances :: "addr list"
  plCursors :: "(string, nat) gomap"

record histogram =
  hgCounts :: "nat list"
  hgSum :: time
  hgTotal :: nat

record metrics =
  mtCalls :: "(string \<times> string \<times> string, nat) gomap"
  mtDuration :: "(string \<times> string, histogram) gomap"
  mtOutboxDrops :: nat

record router =
  rConfig :: config
  rAuth :: "auth option"
  rClosed :: bool
  rDraining :: bool
  rDrained :: bool       \<comment> \<open>the channel \<^verbatim>\<open>drained\<close> is closed\<close>
  rPeersGone :: bool     \<comment> \<open>the channel \<^verbatim>\<open>peersGone\<close> is closed\<close>
  rPeers :: "addr list"
  rPeerObj :: "addr \<Rightarrow> peer"
  rInstances :: "(string, addr) gomap"
  rServices :: "(string, pool) gomap"
  rRoutes :: "(string, addr) gomap"
  rRouteObj :: "addr \<Rightarrow> route"
  rDeadlines :: dheap
  rDeadlineWake :: bool
  rDedup :: "(string, addr) gomap"
  rDedupObj :: "addr \<Rightarrow> dedupEntry"
  rDedupOrder :: "addr list"
  rMetrics :: metrics
  rNext :: addr          \<comment> \<open>the next unused address\<close>

record env =
  eNow :: time
  ePick :: nat                          \<comment> \<open>the random draw of the \<open>random\<close> balance\<close>
  eSha256 :: "string \<Rightarrow> string"
  eFloat :: "string \<Rightarrow> string option"    \<comment> \<open>a number literal with a fraction or exponent, reformatted\<close>
  eSecret :: string                     \<comment> \<open>random bytes of a new token\<close>

section \<open>Store access\<close>

definition updPeer :: "addr \<Rightarrow> (peer \<Rightarrow> peer) \<Rightarrow> router \<Rightarrow> router" where
  "updPeer p g s = s\<lparr>rPeerObj := (rPeerObj s)(p := g (rPeerObj s p))\<rparr>"

definition updRoute :: "addr \<Rightarrow> (route \<Rightarrow> route) \<Rightarrow> router \<Rightarrow> router" where
  "updRoute a g s = s\<lparr>rRouteObj := (rRouteObj s)(a := g (rRouteObj s a))\<rparr>"

definition updEntry :: "addr \<Rightarrow> (dedupEntry \<Rightarrow> dedupEntry) \<Rightarrow> router \<Rightarrow> router" where
  "updEntry a g s = s\<lparr>rDedupObj := (rDedupObj s)(a := g (rDedupObj s a))\<rparr>"

section \<open>Metrics\<close>

definition newMetrics :: metrics where
  "newMetrics = \<lparr>mtCalls = [], mtDuration = [], mtOutboxDrops = 0\<rparr>"

text \<open>The bucket bounds of \<^verbatim>\<open>durationBuckets\<close>, in nanoseconds.\<close>

definition durationBuckets :: "time list" where
  "durationBuckets = map (\<lambda>ms. ms * millisecond)
     [5, 10, 25, 50, 100, 250, 500, 1000, 2500, 5000, 10000, 30000, 60000]"

fun bumpBucket :: "time \<Rightarrow> time list \<Rightarrow> nat list \<Rightarrow> nat list" where
  "bumpBucket d (b # bs) (c # cs) = (if d \<le> b then Suc c # cs else c # bumpBucket d bs cs)"
| "bumpBucket d _ cs = cs"

text \<open>\<^verbatim>\<open>metrics.call\<close>; \<open>started\<close> is \<open>None\<close> for the zero time.  The sum is kept exactly, in nanoseconds.\<close>

definition metricsCall :: "string \<Rightarrow> string \<Rightarrow> string \<Rightarrow> time option \<Rightarrow> time \<Rightarrow> metrics \<Rightarrow> metrics" where
  "metricsCall svc mth code started now m =
     (let key = (svc, mth, code);
          m1 = m\<lparr>mtCalls := AList.update key (Suc (case map_of (mtCalls m) key of Some n \<Rightarrow> n | None \<Rightarrow> 0)) (mtCalls m)\<rparr> in
      case started of
        None \<Rightarrow> m1
      | Some t \<Rightarrow>
        (let h = (case map_of (mtDuration m) (svc, mth) of
                    Some h \<Rightarrow> h
                  | None \<Rightarrow> \<lparr>hgCounts = replicate (length durationBuckets) 0, hgSum = 0, hgTotal = 0\<rparr>);
             d = now - t;
             h' = h\<lparr>hgCounts := bumpBucket d durationBuckets (hgCounts h), hgSum := hgSum h + d, hgTotal := Suc (hgTotal h)\<rparr> in
         m1\<lparr>mtDuration := AList.update (svc, mth) h' (mtDuration m)\<rparr>))"

definition methodStream :: "router \<Rightarrow> string \<Rightarrow> string \<Rightarrow> string" where
  "methodStream s svc mth = (case map_of (rServices s) svc of
      None \<Rightarrow> []
    | Some p \<Rightarrow> (case map_of (plMethods p) mth of Some m \<Rightarrow> mStream m | None \<Rightarrow> []))"

definition refuseMetric :: "time \<Rightarrow> frame \<Rightarrow> string \<Rightarrow> router \<Rightarrow> router" where
  "refuseMetric now f code s =
     (let known = methodStream s (fService f) (fMethod f) \<noteq> [] in
      s\<lparr>rMetrics := metricsCall (if known then fService f else []) (if known then fMethod f else []) code None now (rMetrics s)\<rparr>)"

definition finishRoute :: "time \<Rightarrow> addr \<Rightarrow> string \<Rightarrow> router \<Rightarrow> router" where
  "finishRoute now a code s =
     (let rt = rRouteObj s a in
      s\<lparr>rMetrics := metricsCall (rtService rt) (rtMethod rt) code (Some (rtStarted rt)) now (rMetrics s)\<rparr>)"

section \<open>Peers\<close>

text \<open>A freshly admitted connection.\<close>

definition newPeer :: "int \<Rightarrow> user option \<Rightarrow> peer" where
  "newPeer limit u = \<lparr>pOut = newOutbox limit, pUser = u, pId = [], pRole = [], pInstanceID = [], pServices = [],
     pInflight = 0, pCalls = 0, pMaxInflight = 0, pHealth = zeroHealth, pDraining = False, pCancelled = False\<rparr>"

definition cancelPeer :: "addr \<Rightarrow> router \<Rightarrow> router" where
  "cancelPeer p s = updPeer p (\<lambda>x. x\<lparr>pCancelled := True\<rparr>) s"

text \<open>\<^verbatim>\<open>peer.send\<close>: an outbox that refuses the frame costs the peer its connection.\<close>

definition sendTo :: "addr \<Rightarrow> frame \<Rightarrow> router \<Rightarrow> router" where
  "sendTo p f s = (case push f (pOut (rPeerObj s p)) of
      (q, True) \<Rightarrow> updPeer p (\<lambda>x. x\<lparr>pOut := q\<rparr>) s
    | (q, False) \<Rightarrow>
        cancelPeer p (s\<lparr>rMetrics := (rMetrics s)\<lparr>mtOutboxDrops := Suc (mtOutboxDrops (rMetrics s))\<rparr>\<rparr>))"

definition wakePeer :: "addr \<Rightarrow> router \<Rightarrow> router" where
  "wakePeer p s = updPeer p (\<lambda>x. x\<lparr>pOut := wakeOutbox (pOut x)\<rparr>) s"

definition observe :: "time \<Rightarrow> addr \<Rightarrow> bool \<Rightarrow> router \<Rightarrow> router" where
  "observe now p ok s =
     updPeer p (\<lambda>x. x\<lparr>pHealth := observeHealth (cBreakerThreshold (rConfig s)) (cBreakerCooldown (rConfig s)) now ok (pHealth x)\<rparr>) s"

definition serves :: "peer \<Rightarrow> string \<Rightarrow> string \<Rightarrow> bool" where
  "serves p svc name = (case find (\<lambda>s. sName s = svc) (pServices p) of
      Some s \<Rightarrow> list_ex (\<lambda>m. mName m = name) (sMethods s)
    | None \<Rightarrow> False)"

text \<open>\<^verbatim>\<open>route.credit\<close>: spend or grant item credit; the new route, and whether to forward.\<close>

definition credit :: "frame \<Rightarrow> route \<Rightarrow> route \<times> bool" where
  "credit f rt =
     (let server = (fDirection f = ''server'');
          counter = (if server then rtServerCredit rt else rtClientCredit rt);
          put = (\<lambda>n. if server then rt\<lparr>rtServerCredit := n\<rparr> else rt\<lparr>rtClientCredit := n\<rparr>) in
      if fKind f = ''stream.window'' then
        (case fCredit f of
           None \<Rightarrow> (rt, True)
         | Some c \<Rightarrow> (put (if counter > maxInt64 - c then maxInt64 else counter + c), True))
      else if fKind f = ''stream.item'' then
        (if counter = 0 then (rt, False) else (put (counter - 1), True))
      else (rt, True))"

section \<open>Start\<close>

text \<open>The configuration part of \<^verbatim>\<open>Start\<close>: defaults for zero values, then the bounds; \<open>Inl\<close> is the error.\<close>

definition dflt :: "int \<Rightarrow> int \<Rightarrow> int" where
  "dflt d x = (if x = 0 then d else x)"

definition withDefaults :: "config \<Rightarrow> config" where
  "withDefaults c =
     c\<lparr>cMaxFrameSize := dflt 67108864 (cMaxFrameSize c),
       cMaxCallsPerConnection := dflt 1000 (cMaxCallsPerConnection c),
       cShutdownTimeout := dflt (10 * second) (cShutdownTimeout c),
       cOutboxSize := dflt 268435456 (cOutboxSize c),
       cDeadlineGrace := dflt (500 * millisecond) (cDeadlineGrace c),
       cIdleTimeout := dflt (45 * second) (cIdleTimeout c),
       cMaxConnections := dflt 10000 (cMaxConnections c),
       cHTTPDefaultTimeout := dflt (30 * second) (cHTTPDefaultTimeout c),
       cHTTPMaxInflight := dflt 10000 (cHTTPMaxInflight c),
       cMaxAnonymousConnections := dflt 1000 (cMaxAnonymousConnections c),
       cBreakerThreshold := dflt DefaultBreakerThreshold (cBreakerThreshold c),
       cBreakerCooldown := dflt DefaultBreakerCooldown (cBreakerCooldown c)\<rparr>"

definition startConfig :: "config \<Rightarrow> string + config" where
  "startConfig c0 =
     (let c = withDefaults c0 in
      if cMaxFrameSize c < 1 \<or> cMaxFrameSize c > 67108864 then Inl ''max-frame-size must be between 1 and 67108864''
      else if cOutboxSize c < cMaxFrameSize c then Inl ''outbox-size must be at least max-frame-size''
      else if cDeadlineGrace c < 0 \<or> cIdleTimeout c < second then
        Inl ''deadline-grace must be non-negative and idle-timeout at least 1s''
      else if cMaxConnections c < 0 then Inl ''max connections must be positive''
      else if cHTTPDefaultTimeout c < 0 \<or> cHTTPMaxTimeout c < 0 \<or> cHTTPMaxInflight c < 0 then
        Inl ''HTTP timeouts and limits must be positive''
      else if cMaxAnonymousConnections c < 0 then Inl ''max anonymous connections must be positive''
      else if cBreakerThreshold c < 1 \<or> cBreakerCooldown c \<le> 0 then
        Inl ''breaker-threshold must be positive and breaker-cooldown greater than zero''
      else Inr (if cHTTPMaxTimeout c > 0 \<and> cHTTPDefaultTimeout c > cHTTPMaxTimeout c
                then c\<lparr>cHTTPDefaultTimeout := cHTTPMaxTimeout c\<rparr> else c))"

definition zeroConfig :: config where
  "zeroConfig = \<lparr>cMaxFrameSize = 0, cMaxCallsPerConnection = 0, cShutdownTimeout = 0, cOutboxSize = 0, cDeadlineGrace = 0,
     cIdleTimeout = 0, cBreakerThreshold = 0, cBreakerCooldown = 0, cMaxAnonymousConnections = 0, cHTTPDefaultTimeout = 0,
     cHTTPMaxTimeout = 0, cHTTPMaxInflight = 0, cHTTPCORSOrigins = [], cMaxConnections = 0\<rparr>"

definition newRouter :: "config \<Rightarrow> auth option \<Rightarrow> router" where
  "newRouter c a = \<lparr>rConfig = c, rAuth = a, rClosed = False, rDraining = False, rDrained = False, rPeersGone = False,
     rPeers = [], rPeerObj = (\<lambda>_. newPeer 0 None), rInstances = [], rServices = [], rRoutes = [],
     rRouteObj = (\<lambda>_. \<lparr>rtId = [], rtService = [], rtMethod = [], rtStarted = 0, rtClient = 0, rtInstance = 0, rtDeadline = 0,
        rtDedup = None, rtClientCredit = 0, rtServerCredit = 0\<rparr>),
     rDeadlines = emptyHeap, rDeadlineWake = False, rDedup = [],
     rDedupObj = (\<lambda>_. \<lparr>deKey = [], deRoute = None, deWaiters = [], deResult = None, deExpires = 0, deLastInstance = None,
        deListed = False\<rparr>),
     rDedupOrder = [], rMetrics = newMetrics, rNext = 1\<rparr>"

end
