(* ===== verification/Balance.thy ===== *)
theory Balance
  imports Router_State
begin

text \<open>
  Choosing the instance a call goes to (\<^verbatim>\<open>meshcall-router/internal/router/balance.go\<close>): the
  eligibility filter with its breaker side effect, the five balance policies, calls that name
  their instance, the canonical JSON text of a sticky key and rendezvous hashing.  The digest
  (\<^verbatim>\<open>sha256.Sum256\<close>) and the float reformatting of \<^verbatim>\<open>strconv\<close> are the fields \<open>eSha256\<close> and
  \<open>eFloat\<close> of the environment.
\<close>

section \<open>Canonical JSON\<close>

definition canonicalRune :: "nat \<Rightarrow> string" where
  "canonicalRune c =
     (if c = 34 \<or> c = 92 then [backslash, char_of c]
      else if c = 8 then [backslash, CHR ''b'']
      else if c = 12 then [backslash, CHR ''f'']
      else if c = 10 then [backslash, CHR ''n'']
      else if c = 13 then [backslash, CHR ''r'']
      else if c = 9 then [backslash, CHR ''t'']
      else if c < 32 \<or> 126 < c then
        (if 65535 < c then u4 (55296 + (c - 65536) div 1024) @ u4 (56320 + (c - 65536) mod 1024) else u4 c)
      else [char_of c])"

definition canonicalString :: "string \<Rightarrow> string" where
  "canonicalString v = [quoteChar] @ concat (map canonicalRune (runes v)) @ [quoteChar]"

definition canonicalNumber :: "(string \<Rightarrow> string option) \<Rightarrow> string \<Rightarrow> string option" where
  "canonicalNumber fl v =
     (if \<not> containsAny v ''.eE'' then Some (if v = ''-0'' then ''0'' else v) else fl v)"

fun allSome :: "'a option list \<Rightarrow> 'a list option" where
  "allSome [] = Some []"
| "allSome (None # xs) = None"
| "allSome (Some x # xs) = map_option ((#) x) (allSome xs)"

text \<open>\<^verbatim>\<open>canonicalJSON\<close>; \<open>None\<close> is its error.  An object is the Go map it was decoded into: of repeated
  keys the last counts, and the keys are written in byte order.\<close>

fun canonicalJSON :: "(string \<Rightarrow> string option) \<Rightarrow> json \<Rightarrow> string option" where
  "canonicalJSON fl JNull = Some ''null''"
| "canonicalJSON fl (JBool b) = Some (if b then ''true'' else ''false'')"
| "canonicalJSON fl (JStr v) = Some (canonicalString v)"
| "canonicalJSON fl (JNum v) = canonicalNumber fl v"
| "canonicalJSON fl (JArr vs) =
     map_option (\<lambda>ts. ''['' @ joinWith '','' ts @ '']'') (allSome (map (canonicalJSON fl) vs))"
| "canonicalJSON fl (JObj ms) =
     (let texts = map (\<lambda>(k, v). (k, canonicalJSON fl v)) ms;
          member = (\<lambda>k. case map_of (rev texts) k of
             Some (Some t) \<Rightarrow> Some (canonicalString k @ '':'' @ t) | _ \<Rightarrow> None) in
      map_option (\<lambda>ts. ''{'' @ joinWith '','' ts @ ''}'') (allSome (map member (sort (remdups (map fst ms))))))"

section \<open>Rendezvous hashing\<close>

definition bigEndian64 :: "string \<Rightarrow> nat" where
  "bigEndian64 s = foldl (\<lambda>a c. a * 256 + byte c) 0 (take 8 s)"

definition score :: "(string \<Rightarrow> string) \<Rightarrow> string \<Rightarrow> string \<Rightarrow> nat" where
  "score sha256 key inst = bigEndian64 (sha256 (inst @ [CHR 0x00] @ key))"

text \<open>The loop of \<^verbatim>\<open>rendezvous\<close> over the instances, with the best so far; \<open>sc\<close> is the score.\<close>

fun rendezvousFrom :: "('p \<Rightarrow> nat) \<Rightarrow> 'p list \<Rightarrow> 'p option \<Rightarrow> 'p option" where
  "rendezvousFrom sc [] best = best"
| "rendezvousFrom sc (c # cs) best =
     rendezvousFrom sc cs (case best of
        None \<Rightarrow> Some c
      | Some b \<Rightarrow> if sc c > sc b then Some c else Some b)"

definition rendezvous :: "(string \<Rightarrow> string) \<Rightarrow> (addr \<Rightarrow> peer) \<Rightarrow> addr list \<Rightarrow> string \<Rightarrow> addr option" where
  "rendezvous sha256 obj insts key = rendezvousFrom (\<lambda>p. score sha256 key (pInstanceID (obj p))) insts None"

section \<open>Selection\<close>

definition selectFail :: "frame \<Rightarrow> string \<Rightarrow> string \<Rightarrow> frame" where
  "selectFail f code message =
     routerError (fCallID f) code message (code = ''unavailable'') (if code = ''unavailable'' then ''no_instances'' else []) []"

definition targetInstance :: "frame \<Rightarrow> router \<Rightarrow> frame + addr" where
  "targetInstance f s = (case map_of (rInstances s) (fInstanceID f) of
      None \<Rightarrow> Inl (routerError (fCallID f) ''unavailable''
          (''Instance '' @ fInstanceID f @ '' is not registered for '' @ fService f) False ''instance_unknown'' (fInstanceID f))
    | Some p \<Rightarrow>
      (let t = rPeerObj s p in
       if \<not> list_ex (\<lambda>sv. sName sv = fService f) (pServices t) then
         Inl (routerError (fCallID f) ''unavailable''
          (''Instance '' @ fInstanceID f @ '' is not registered for '' @ fService f) False ''instance_unknown'' (fInstanceID f))
       else if \<not> serves t (fService f) (fMethod f) then
         Inl (routerError (fCallID f) ''method_not_found''
          (''Instance '' @ fInstanceID f @ '' does not serve '' @ fService f @ ''.'' @ fMethod f) False [] (fInstanceID f))
       else if pDraining t then
         Inl (routerError (fCallID f) ''unavailable''
          (''Instance '' @ fInstanceID f @ '' is draining'') True ''instance_draining'' (fInstanceID f))
       else if pMaxInflight t > 0 \<and> pInflight t \<ge> pMaxInflight t then
         Inl (routerError (fCallID f) ''resource_exhausted''
          (''Instance '' @ fInstanceID f @ '' is at its max_inflight'') True ''overloaded'' (fInstanceID f))
       else Inr p))"

text \<open>The eligibility loop: the new state (an admitted half-open breaker is now probing), the eligible
  instances, and how many were full or tripped.\<close>

fun eligibleLoop :: "time \<Rightarrow> addr option \<Rightarrow> nat \<Rightarrow> addr list \<Rightarrow> router \<Rightarrow> router \<times> addr list \<times> nat \<times> nat" where
  "eligibleLoop now avoid n [] s = (s, [], 0, 0)"
| "eligibleLoop now avoid n (c # cs) s =
     (let x = rPeerObj s c in
      if avoid = Some c \<and> n > 1 then eligibleLoop now avoid n cs s
      else if pMaxInflight x > 0 \<and> pInflight x \<ge> pMaxInflight x then
        (case eligibleLoop now avoid n cs s of (s', es, full, tripped) \<Rightarrow> (s', es, Suc full, tripped))
      else (case admit now (pHealth x) of (h, ok) \<Rightarrow>
        (let s1 = updPeer c (\<lambda>y. y\<lparr>pHealth := h\<rparr>) s in
         if \<not> ok then (case eligibleLoop now avoid n cs s1 of (s', es, full, tripped) \<Rightarrow> (s', es, full, Suc tripped))
         else (case eligibleLoop now avoid n cs s1 of (s', es, full, tripped) \<Rightarrow> (s', c # es, full, tripped)))))"

fun leastInflight :: "(addr \<Rightarrow> peer) \<Rightarrow> addr list \<Rightarrow> addr \<Rightarrow> addr" where
  "leastInflight obj [] best = best"
| "leastInflight obj (c # cs) best =
     leastInflight obj cs (if pInflight (obj c) < pInflight (obj best) then c else best)"

fun walkKey :: "string list \<Rightarrow> json \<Rightarrow> json option" where
  "walkKey [] v = Some v"
| "walkKey (k # ks) v = (case v of
      JObj ms \<Rightarrow> (case map_of (rev ms) k of Some w \<Rightarrow> walkKey ks w | None \<Rightarrow> None)
    | _ \<Rightarrow> None)"

text \<open>The policies, on the instances that remain; \<open>insts\<close> is not empty.\<close>

definition stickyInstance :: "env \<Rightarrow> frame \<Rightarrow> string \<Rightarrow> addr list \<Rightarrow> router \<Rightarrow> frame + addr" where
  "stickyInstance e f key insts s = (case parseJson (case_option [] id (fPayload f)) of
      None \<Rightarrow> Inl (selectFail f ''invalid_argument'' ''Invalid sticky request'')
    | Some (v, _) \<Rightarrow> (case walkKey (drop 1 (splitOn CHR ''.'' key)) v of
        None \<Rightarrow> Inl (selectFail f ''invalid_argument'' ''Sticky key is missing'')
      | Some w \<Rightarrow> (case canonicalJSON (eFloat e) w of
          None \<Rightarrow> Inl (selectFail f ''invalid_argument'' ''Invalid sticky key'')
        | Some text \<Rightarrow> (case rendezvous (eSha256 e) (rPeerObj s) insts text of
            Some p \<Rightarrow> Inr p
          | None \<Rightarrow> Inl (selectFail f ''invalid_argument'' ''Invalid sticky key'')))))"

definition cursorOf :: "pool \<Rightarrow> string \<Rightarrow> nat" where
  "cursorOf pl m = (case map_of (plCursors pl) m of Some n \<Rightarrow> n | None \<Rightarrow> 0)"

definition balanceInstance :: "env \<Rightarrow> frame \<Rightarrow> pool \<Rightarrow> balance \<Rightarrow> addr list \<Rightarrow> router \<Rightarrow> router \<times> (frame + addr)" where
  "balanceInstance e f pl b insts s =
     (if bKind b = ''round_robin'' then
        (let cursor = cursorOf pl (fMethod f) mod length insts;
             pl' = pl\<lparr>plCursors := AList.update (fMethod f) ((cursor + 1) mod length insts) (plCursors pl)\<rparr> in
         (s\<lparr>rServices := AList.update (fService f) pl' (rServices s)\<rparr>, Inr (insts ! cursor)))
      else if bKind b = ''least_inflight'' then (s, Inr (leastInflight (rPeerObj s) (drop 1 insts) (insts ! 0)))
      else if bKind b = ''random'' then (s, Inr (insts ! (ePick e mod length insts)))
      else if bKind b = ''sticky'' then (s, stickyInstance e f (case_option [] id (bKey b)) insts s)
      else if length insts \<noteq> 1 then
        (s, Inl (routerError (fCallID f) ''unavailable''
          (''Balance is disabled for '' @ fService f @ ''.'' @ fMethod f @ '' and several instances are registered'')
          True ''balance_disabled'' []))
      else (s, Inr (insts ! 0)))"

text \<open>The error when no instance is eligible.\<close>

definition noneEligible :: "frame \<Rightarrow> nat \<Rightarrow> nat \<Rightarrow> frame" where
  "noneEligible f full tripped =
     (if full > 0 then
        routerError (fCallID f) ''resource_exhausted''
          (''Every instance of '' @ fService f @ '' is at its max_inflight'') True ''overloaded'' []
      else if tripped > 0 then
        routerError (fCallID f) ''unavailable''
          (''Every instance of '' @ fService f @ '' has an open circuit'') True ''circuit_open'' []
      else selectFail f ''unavailable'' (''No instances registered for '' @ fService f))"

text \<open>The part of \<^verbatim>\<open>selectInstance\<close> after the pool \<open>pl\<close> and its method \<open>m\<close> are found.\<close>

definition selectKnown :: "env \<Rightarrow> frame \<Rightarrow> addr option \<Rightarrow> pool \<Rightarrow> meth \<Rightarrow> router \<Rightarrow> router \<times> (frame + addr)" where
  "selectKnown e f avoid pl m s =
     (if fInstanceID f \<noteq> [] then (s, targetInstance f s)
      else if plTargeted pl then
        (s, Inl (routerError (fCallID f) ''invalid_argument''
           (fService f @ '' is a targeted service: call.open needs instance_id'') False ''instance_required'' []))
      else
        (let serving = filter (\<lambda>c. serves (rPeerObj s c) (fService f) (fMethod f)) (plInstances pl) in
         case eligibleLoop (eNow e) avoid (length serving) serving s of (s1, eligible, full, tripped) \<Rightarrow>
           if eligible = [] then
             (s1, Inl (noneEligible f full tripped))
           else
             balanceInstance e f pl (mBalance m)
               (if length eligible \<noteq> length (plInstances pl) then eligible else plInstances pl) s1))"

definition selectInstance :: "env \<Rightarrow> frame \<Rightarrow> addr option \<Rightarrow> router \<Rightarrow> router \<times> (frame + addr)" where
  "selectInstance e f avoid s = (case map_of (rServices s) (fService f) of
      None \<Rightarrow> (s, Inl (selectFail f ''unavailable'' (''No instances registered for '' @ fService f)))
    | Some pl \<Rightarrow>
      if plInstances pl = [] \<and> fInstanceID f = [] then
        (s, Inl (selectFail f ''unavailable'' (''No instances registered for '' @ fService f)))
      else (case map_of (plMethods pl) (fMethod f) of
          None \<Rightarrow> (s, Inl (selectFail f ''method_not_found'' (''Unknown method '' @ fService f @ ''.'' @ fMethod f)))
        | Some m \<Rightarrow> selectKnown e f avoid pl m s))"

text \<open>\<^verbatim>\<open>pool.rebuildMethods\<close>: later registrations overwrite earlier ones of the same name.\<close>

definition putMethods :: "meth list \<Rightarrow> (string, meth) gomap \<Rightarrow> (string, meth) gomap" where
  "putMethods ms m0 = foldl (\<lambda>acc m. AList.update (mName m) m acc) m0 ms"

definition rebuildMethods :: "(addr \<Rightarrow> peer) \<Rightarrow> pool \<Rightarrow> pool" where
  "rebuildMethods obj pl =
     pl\<lparr>plMethods := putMethods (concat (map (\<lambda>p. concat (map sMethods (pServices (obj p)))) (plInstances pl))) []\<rparr>"

section \<open>Rendezvous moves as few keys as possible\<close>

text \<open>The winner is the first instance with the greatest score.\<close>

definition firstMax :: "('p \<Rightarrow> nat) \<Rightarrow> 'p list \<Rightarrow> 'p \<Rightarrow> bool" where
  "firstMax sc xs w \<longleftrightarrow> (\<exists>us vs. xs = us @ w # vs \<and> (\<forall>u \<in> set us. sc u < sc w) \<and> (\<forall>v \<in> set vs. sc v \<le> sc w))"

lemma rendezvousFrom_firstMax:
  "firstMax sc us b \<Longrightarrow> \<exists>w. rendezvousFrom sc cs (Some b) = Some w \<and> firstMax sc (us @ cs) w"
proof (induction cs arbitrary: us b)
  case (Cons c cs)
  obtain xs ys where b: "us = xs @ b # ys" "\<forall>u \<in> set xs. sc u < sc b" "\<forall>v \<in> set ys. sc v \<le> sc b"
    using Cons.prems by (auto simp: firstMax_def)
  show ?case
  proof (cases "sc c > sc b")
    case True
    then have "firstMax sc (us @ [c]) c" unfolding firstMax_def using b
      by (intro exI [of _ us] exI [of _ "[]"]) auto
    from Cons.IH [OF this] True show ?thesis by simp
  next
    case False
    then have "firstMax sc (us @ [c]) b" unfolding firstMax_def using b
      by (intro exI [of _ xs] exI [of _ "ys @ [c]"]) auto
    from Cons.IH [OF this] False show ?thesis by simp
  qed
qed simp

lemma firstMax_max: "firstMax sc xs w \<Longrightarrow> w \<in> set xs \<and> (\<forall>p \<in> set xs. sc p \<le> sc w)"
  unfolding firstMax_def by (fastforce intro: less_imp_le)

lemma rendezvous_total:
  assumes "xs \<noteq> []"
  shows "\<exists>w. rendezvousFrom sc xs None = Some w \<and> firstMax sc xs w"
proof -
  obtain c cs where xs: "xs = c # cs" using assms by (cases xs) auto
  have "firstMax sc [c] c" unfolding firstMax_def by (intro exI [of _ "[]"]) simp
  from rendezvousFrom_firstMax [OF this, of cs] xs show ?thesis by simp
qed

lemma rendezvous_firstMax: "rendezvousFrom sc xs None = Some w \<longleftrightarrow> firstMax sc xs w"
proof -
  have uniq: "a = b" if ab: "firstMax sc xs a" "firstMax sc xs b" for a b
  proof -
    obtain us vs where x1: "xs = us @ a # vs" "\<forall>u \<in> set us. sc u < sc a" "\<forall>v \<in> set vs. sc v \<le> sc a"
      using ab(1) unfolding firstMax_def by blast
    obtain us' vs' where x2: "xs = us' @ b # vs'" "\<forall>u \<in> set us'. sc u < sc b" "\<forall>v \<in> set vs'. sc v \<le> sc b"
      using ab(2) unfolding firstMax_def by blast
    note x = x1 x2
    have le: "sc a \<le> sc b" "sc b \<le> sc a" using firstMax_max [OF ab(1)] firstMax_max [OF ab(2)] by blast+
    have "us @ a # vs = us' @ b # vs'" using x by simp
    then consider "us = us'" | "b \<in> set us" | "a \<in> set us'"
      by (auto simp: append_eq_append_conv2 append_eq_Cons_conv Cons_eq_append_conv)
    then show ?thesis
    proof cases
      case 1
      then show ?thesis using x by simp
    qed (use x le in force)+
  qed
  show ?thesis
  proof (cases "xs = []")
    case True
    then show ?thesis by (simp add: firstMax_def)
  next
    case False
    then show ?thesis using rendezvous_total uniq by (metis option.inject)
  qed
qed

lemma firstMax_filter: "firstMax sc xs w \<Longrightarrow> P w \<Longrightarrow> firstMax sc (filter P xs) w"
  unfolding firstMax_def by (elim exE) (rule_tac x = "filter P us" in exI, rule_tac x = "filter P vs" in exI, auto)

lemma firstMax_append_cases:
  assumes "firstMax sc (us @ vs) w" "firstMax sc (us @ c # vs) w'"
  shows "w' = w \<or> w' = c"
proof (cases "w' = c")
  case False
  have "firstMax sc (us @ vs) w'"
  proof -
    obtain as bs where e: "us @ c # vs = as @ w' # bs" "\<forall>u \<in> set as. sc u < sc w'" "\<forall>v \<in> set bs. sc v \<le> sc w'"
      using assms(2) by (auto simp: firstMax_def)
    from e(1) False consider ms where "as = us @ c # ms" "vs = ms @ w' # bs" | ms where "us = as @ w' # ms" "bs = ms @ c # vs"
      by (auto simp: append_eq_append_conv2 append_eq_Cons_conv Cons_eq_append_conv)
    then show ?thesis
    proof cases
      case 1
      then show ?thesis unfolding firstMax_def using e(2,3) by (intro exI [of _ "us @ ms"] exI [of _ bs]) auto
    next
      case 2
      then show ?thesis unfolding firstMax_def using e(2,3) by (intro exI [of _ as] exI [of _ "ms @ vs"]) auto
    qed
  qed
  then show ?thesis using assms(1) rendezvous_firstMax by (metis option.inject)
qed simp



section \<open>What selection guarantees\<close>

text \<open>Selection changes nothing but breaker states and round-robin cursors.\<close>

definition healthOnly :: "router \<Rightarrow> router \<Rightarrow> bool" where
  "healthOnly s s' \<longleftrightarrow> s' = s\<lparr>rPeerObj := rPeerObj s'\<rparr> \<and>
     (\<forall>p. rPeerObj s' p = (rPeerObj s p)\<lparr>pHealth := pHealth (rPeerObj s' p)\<rparr>)"

lemma healthOnly_refl [simp]: "healthOnly s s"
  by (simp add: healthOnly_def)

lemma healthOnly_upd: "healthOnly s (updPeer c (\<lambda>y. y\<lparr>pHealth := h\<rparr>) s)"
  by (simp add: healthOnly_def updPeer_def)

lemma healthOnly_trans:
  assumes "healthOnly s s1" "healthOnly s1 s2"
  shows "healthOnly s s2"
proof -
  have "s2 = s\<lparr>rPeerObj := rPeerObj s2\<rparr>"
    using assms unfolding healthOnly_def by (metis (no_types) router.update_convs(8) router.surjective router.ext_inject)
  moreover have "rPeerObj s2 p = (rPeerObj s p)\<lparr>pHealth := pHealth (rPeerObj s2 p)\<rparr>" for p
    using assms unfolding healthOnly_def by (metis (no_types) peer.update_convs(10) peer.surjective peer.ext_inject)
  ultimately show ?thesis unfolding healthOnly_def by blast
qed

definition roomy :: "peer \<Rightarrow> bool" where
  "roomy x \<longleftrightarrow> (pMaxInflight x > 0 \<longrightarrow> pInflight x < pMaxInflight x)"

lemma healthOnly_peer:
  assumes "healthOnly s s'"
  shows "pServices (rPeerObj s' p) = pServices (rPeerObj s p)" "pMaxInflight (rPeerObj s' p) = pMaxInflight (rPeerObj s p)"
    "pInflight (rPeerObj s' p) = pInflight (rPeerObj s p)" "pInstanceID (rPeerObj s' p) = pInstanceID (rPeerObj s p)"
    "pCalls (rPeerObj s' p) = pCalls (rPeerObj s p)" "pOut (rPeerObj s' p) = pOut (rPeerObj s p)"
    "pRole (rPeerObj s' p) = pRole (rPeerObj s p)" "pDraining (rPeerObj s' p) = pDraining (rPeerObj s p)"
    "roomy (rPeerObj s' p) = roomy (rPeerObj s p)"
proof -
  obtain h where "rPeerObj s' p = (rPeerObj s p)\<lparr>pHealth := h\<rparr>" using assms unfolding healthOnly_def by metis
  then show "pServices (rPeerObj s' p) = pServices (rPeerObj s p)" "pMaxInflight (rPeerObj s' p) = pMaxInflight (rPeerObj s p)"
    "pInflight (rPeerObj s' p) = pInflight (rPeerObj s p)" "pInstanceID (rPeerObj s' p) = pInstanceID (rPeerObj s p)"
    "pCalls (rPeerObj s' p) = pCalls (rPeerObj s p)" "pOut (rPeerObj s' p) = pOut (rPeerObj s p)"
    "pRole (rPeerObj s' p) = pRole (rPeerObj s p)" "pDraining (rPeerObj s' p) = pDraining (rPeerObj s p)"
    "roomy (rPeerObj s' p) = roomy (rPeerObj s p)" by (simp_all add: roomy_def)
qed

text \<open>The cases of one iteration of the eligibility loop.\<close>

lemma eligibleLoop_Cons:
  assumes "eligibleLoop now avoid n (c # cs) s = (s', es, full, tripped)"
  obtains (skip) "avoid = Some c" "n > 1" "eligibleLoop now avoid n cs s = (s', es, full, tripped)"
    | (full) full' where "\<not> (avoid = Some c \<and> n > 1)" "\<not> roomy (rPeerObj s c)" "full = Suc full'"
        "eligibleLoop now avoid n cs s = (s', es, full', tripped)"
    | (tripped) h tripped' where "\<not> (avoid = Some c \<and> n > 1)" "roomy (rPeerObj s c)" "admit now (pHealth (rPeerObj s c)) = (h, False)"
        "tripped = Suc tripped'" "eligibleLoop now avoid n cs (updPeer c (\<lambda>y. y\<lparr>pHealth := h\<rparr>) s) = (s', es, full, tripped')"
    | (ok) h es' where "\<not> (avoid = Some c \<and> n > 1)" "roomy (rPeerObj s c)" "admit now (pHealth (rPeerObj s c)) = (h, True)"
        "es = c # es'" "eligibleLoop now avoid n cs (updPeer c (\<lambda>y. y\<lparr>pHealth := h\<rparr>) s) = (s', es', full, tripped)"
proof (cases "avoid = Some c \<and> n > 1")
  case True
  then show thesis using assms skip by (simp add: Let_def)
next
  case no: False
  show thesis
  proof (cases "roomy (rPeerObj s c)")
    case False
    obtain a b d e where "eligibleLoop now avoid n cs s = (a, b, d, e)" by (metis prod_cases4)
    then show thesis using assms no False full [of d] by (auto simp: Let_def roomy_def split: if_splits)
  next
    case True
    obtain h ok where h: "admit now (pHealth (rPeerObj s c)) = (h, ok)" by fastforce
    obtain a b d e where r: "eligibleLoop now avoid n cs (updPeer c (\<lambda>y. y\<lparr>pHealth := h\<rparr>) s) = (a, b, d, e)"
      by (metis prod_cases4)
    have nr: "\<not> (pMaxInflight (rPeerObj s c) > 0 \<and> pInflight (rPeerObj s c) \<ge> pMaxInflight (rPeerObj s c))"
      using True by (auto simp: roomy_def)
    show thesis
    proof (cases ok)
      case True
      have "(s', es, full, tripped) = (a, c # b, d, e)"
        using assms unfolding eligibleLoop.simps Let_def if_not_P [OF no] if_not_P [OF nr] h r by (simp add: True r)
      then show thesis using ok [OF no \<open>roomy (rPeerObj s c)\<close>, of h b] h r True by simp
    next
      case False
      have "(s', es, full, tripped) = (a, b, d, Suc e)"
        using assms unfolding eligibleLoop.simps Let_def if_not_P [OF no] if_not_P [OF nr] h r by (simp add: False r)
      then show thesis using tripped [OF no \<open>roomy (rPeerObj s c)\<close>, of h e] h r False by simp
    qed
  qed
qed

lemma eligibleLoop_healthOnly: "eligibleLoop now avoid n cs s = (s', es, full, tripped) \<Longrightarrow> healthOnly s s'"
proof (induction cs arbitrary: s es full tripped)
  case (Cons c cs)
  from Cons.prems show ?case
    by (cases rule: eligibleLoop_Cons) (use Cons.IH healthOnly_upd healthOnly_trans in blast)+
qed simp

lemma eligibleLoop_mem:
  "eligibleLoop now avoid n cs s = (s', es, full, tripped) \<Longrightarrow> c \<in> set es \<Longrightarrow>
     c \<in> set cs \<and> roomy (rPeerObj s c) \<and> \<not> (avoid = Some c \<and> n > 1)"
proof (induction cs arbitrary: s es full tripped)
  case (Cons d cs)
  note up = healthOnly_peer(9) [OF healthOnly_upd]
  from Cons.prems(1) show ?case
  proof (cases rule: eligibleLoop_Cons)
    case skip
    then show ?thesis using Cons.IH Cons.prems(2) by fastforce
  next
    case (full full')
    then show ?thesis using Cons.IH Cons.prems(2) by fastforce
  next
    case (tripped h tripped')
    then show ?thesis using Cons.IH [OF tripped(5) Cons.prems(2)] up by simp
  next
    case (ok h es')
    show ?thesis
    proof (cases "c = d")
      case False
      then have "c \<in> set es'" using ok(4) Cons.prems(2) by simp
      from Cons.IH [OF ok(5) this] show ?thesis using up by simp
    qed (use ok in simp)
  qed
qed simp

lemma eligibleLoop_admit:
  "eligibleLoop now avoid n cs s = (s', es, full, tripped) \<Longrightarrow> distinct cs \<Longrightarrow> c \<in> set es \<Longrightarrow>
     snd (admit now (pHealth (rPeerObj s c)))"
proof (induction cs arbitrary: s es full tripped)
  case (Cons d cs)
  have oth: "rPeerObj (updPeer d g s) c = rPeerObj s c" if "c \<in> set cs" for g
    using that Cons.prems(2) by (auto simp: updPeer_def)
  from Cons.prems(1) show ?case
  proof (cases rule: eligibleLoop_Cons)
    case skip
    then show ?thesis using Cons.IH Cons.prems by fastforce
  next
    case (full full')
    then show ?thesis using Cons.IH Cons.prems by fastforce
  next
    case (tripped h tripped')
    then show ?thesis
      using Cons.IH [OF tripped(5) _ Cons.prems(3)] eligibleLoop_mem [OF tripped(5) Cons.prems(3)] oth Cons.prems(2) by simp
  next
    case (ok h es')
    show ?thesis
    proof (cases "c = d")
      case False
      then have "c \<in> set es'" using ok(4) Cons.prems(3) by simp
      from Cons.IH [OF ok(5) _ this] eligibleLoop_mem [OF ok(5) this] oth show ?thesis using Cons.prems(2) by simp
    qed (use ok in simp)
  qed
qed simp

lemma leastInflight_mem: "leastInflight obj cs b \<in> insert b (set cs)"
  by (induction obj cs b rule: leastInflight.induct) auto

lemma leastInflight_min:
  "x \<in> insert b (set cs) \<Longrightarrow> pInflight (obj (leastInflight obj cs b)) \<le> pInflight (obj x)"
proof (induction obj cs b arbitrary: x rule: leastInflight.induct)
  case (2 obj c cs best)
  let ?b = "if pInflight (obj c) < pInflight (obj best) then c else best"
  have m: "pInflight (obj ?b) \<le> pInflight (obj c)" "pInflight (obj ?b) \<le> pInflight (obj best)" by auto
  have "pInflight (obj (leastInflight obj cs ?b)) \<le> pInflight (obj ?b)" using 2(1) [of ?b] by simp
  then show ?case using 2 m by (cases "x \<in> set cs") fastforce+
qed simp

lemma sticky_mem: "stickyInstance e f key insts s = Inr p \<Longrightarrow> p \<in> set insts"
  using firstMax_max by (fastforce simp: stickyInstance_def rendezvous_def rendezvous_firstMax split: option.splits prod.splits)

lemma balanceInstance_mem:
  assumes "balanceInstance e f pl b insts s = (s', Inr p)" "insts \<noteq> []"
  shows "p \<in> set insts"
proof -
  have nth: "insts ! (n mod length insts) \<in> set insts" for n using assms(2) by simp
  consider "bKind b = ''round_robin''" | "bKind b = ''least_inflight''" | "bKind b = ''random''" | "bKind b = ''sticky''"
    | "bKind b \<noteq> ''round_robin''" "bKind b \<noteq> ''least_inflight''" "bKind b \<noteq> ''random''" "bKind b \<noteq> ''sticky''" by blast
  then show ?thesis
  proof cases
    case 1
    then show ?thesis using assms(1) nth by (auto simp: balanceInstance_def Let_def)
  next
    case 2
    then have "p = leastInflight (rPeerObj s) (drop 1 insts) (insts ! 0)" using assms(1) by (auto simp: balanceInstance_def)
    then show ?thesis using leastInflight_mem [of "rPeerObj s" "drop 1 insts" "insts ! 0"] assms(2)
      by (cases insts) auto
  next
    case 3
    then show ?thesis using assms(1) nth by (auto simp: balanceInstance_def)
  next
    case 4
    then show ?thesis using assms(1) sticky_mem by (simp add: balanceInstance_def) blast
  next
    case 5
    then show ?thesis using assms by (auto simp: balanceInstance_def split: if_splits)
  qed
qed

lemma targetInstance_Inr:
  assumes "targetInstance f s = Inr p"
  shows "map_of (rInstances s) (fInstanceID f) = Some p" "serves (rPeerObj s p) (fService f) (fMethod f)"
    "\<not> pDraining (rPeerObj s p)" "roomy (rPeerObj s p)"
  using assms by (auto simp: targetInstance_def Let_def roomy_def split: option.splits if_splits)

text \<open>The path of \<^verbatim>\<open>selectInstance\<close> through the balanced branch.\<close>

lemma selectInstance_Inr:
  assumes "selectInstance e f avoid s = (s', Inr p)"
  obtains (target) "fInstanceID f \<noteq> []" "targetInstance f s = Inr p" "s' = s"
    | (balanced) pl m s1 eligible full tripped where "fInstanceID f = []" "map_of (rServices s) (fService f) = Some pl"
        "map_of (plMethods pl) (fMethod f) = Some m" "\<not> plTargeted pl"
        "eligibleLoop (eNow e) avoid (length (filter (\<lambda>c. serves (rPeerObj s c) (fService f) (fMethod f)) (plInstances pl)))
           (filter (\<lambda>c. serves (rPeerObj s c) (fService f) (fMethod f)) (plInstances pl)) s = (s1, eligible, full, tripped)"
        "eligible \<noteq> []"
        "balanceInstance e f pl (mBalance m) (if length eligible \<noteq> length (plInstances pl) then eligible else plInstances pl) s1 = (s', Inr p)"
proof (cases "map_of (rServices s) (fService f)")
  case None
  then have "isl (snd (selectInstance e f avoid s))" by (simp add: selectInstance_def)
  then show thesis using assms by simp
next
  case pl: (Some pl)
  show thesis
  proof (cases "plInstances pl = [] \<and> fInstanceID f = []")
    case True
    then have "isl (snd (selectInstance e f avoid s))" using pl by (simp add: selectInstance_def)
    then show thesis using assms by simp
  next
    case ne: False
    show thesis
    proof (cases "map_of (plMethods pl) (fMethod f)")
      case None
      then have "isl (snd (selectInstance e f avoid s))" using pl by (simp add: selectInstance_def)
      then show thesis using assms by simp
    next
      case m: (Some m)
      have eq: "selectInstance e f avoid s = selectKnown e f avoid pl m s"
        unfolding selectInstance_def pl option.case(2) if_not_P [OF ne] m by (rule refl)
      show thesis
      proof (cases "fInstanceID f = []")
        case False
        then have "selectInstance e f avoid s = (s, targetInstance f s)" by (simp add: eq selectKnown_def)
        then show thesis using assms target [OF False] by simp
      next
        case iid: True
        let ?sv = "filter (\<lambda>c. serves (rPeerObj s c) (fService f) (fMethod f)) (plInstances pl)"
        obtain s1 el full tripped where l: "eligibleLoop (eNow e) avoid (length ?sv) ?sv s = (s1, el, full, tripped)"
          by (metis prod_cases4)
        have "isl (snd (selectInstance e f avoid s))" if "plTargeted pl" using that iid by (simp add: eq selectKnown_def)
        then have t: "\<not> plTargeted pl" using assms by auto
        have k: "selectKnown e f avoid pl m s = (if el = [] then (s1, Inl (noneEligible f full tripped))
             else balanceInstance e f pl (mBalance m) (if length el \<noteq> length (plInstances pl) then el else plInstances pl) s1)"
          unfolding selectKnown_def Let_def l using iid t by simp
        have ne: "el \<noteq> []" using assms unfolding eq k by auto
        show thesis by (rule balanced [OF iid pl m t l ne]) (use assms ne in \<open>simp add: eq k\<close>)
      qed
    qed
  qed
qed

lemma eligibleLoop_length:
  "eligibleLoop now avoid n cs s = (s', es, full, tripped) \<Longrightarrow> length es \<le> length cs"
proof (induction cs arbitrary: s es full tripped)
  case (Cons c cs)
  from Cons.prems show ?case by (cases rule: eligibleLoop_Cons) (use Cons.IH in fastforce)+
qed simp

lemma eligibleLoop_all:
  "eligibleLoop now avoid n cs s = (s', es, full, tripped) \<Longrightarrow> length es = length cs \<Longrightarrow> es = cs"
proof (induction cs arbitrary: s es full tripped)
  case (Cons c cs)
  from Cons.prems(1) show ?case
    by (cases rule: eligibleLoop_Cons) (use Cons.IH Cons.prems(2) eligibleLoop_length in fastforce)+
qed simp

lemma eligible_pool:
  assumes "eligibleLoop now avoid n (filter P insts) s = (s', es, full, tripped)"
  shows "(if length es \<noteq> length insts then es else insts) = es"
proof (cases "length es = length insts")
  case True
  then have "length (filter P insts) = length insts"
    using eligibleLoop_length [OF assms] length_filter_le [of P insts] by simp
  then have "\<forall>x \<in> set insts. P x" by (metis length_filter_less less_irrefl)
  then have "filter P insts = insts" by simp
  then show ?thesis using eligibleLoop_all [OF assms] True by simp
qed simp

text \<open>
  C14.  Whatever the policy, the instance chosen for a call serves the method and is below its
  \<^verbatim>\<open>max_inflight\<close>.  A call that names its instance gets that registered instance and never a draining
  one; any other call gets an instance of the service's pool whose breaker admits it at that moment,
  never for a targeted service, and never the instance to avoid unless it is the only one serving.
\<close>

theorem selectInstance_sound:
  assumes "selectInstance e f avoid s = (s', Inr p)"
    and "\<And>svc pl. map_of (rServices s) svc = Some pl \<Longrightarrow> distinct (plInstances pl)"
  shows "serves (rPeerObj s p) (fService f) (fMethod f) \<and>
    (pMaxInflight (rPeerObj s p) > 0 \<longrightarrow> pInflight (rPeerObj s p) < pMaxInflight (rPeerObj s p)) \<and>
    (fInstanceID f \<noteq> [] \<longrightarrow> map_of (rInstances s) (fInstanceID f) = Some p \<and> \<not> pDraining (rPeerObj s p)) \<and>
    (fInstanceID f = [] \<longrightarrow> (\<exists>pl. map_of (rServices s) (fService f) = Some pl \<and> \<not> plTargeted pl \<and>
       p \<in> set (plInstances pl) \<and> snd (admit (eNow e) (pHealth (rPeerObj s p))) \<and>
       (avoid = Some p \<longrightarrow> (\<forall>q \<in> set (plInstances pl). serves (rPeerObj s q) (fService f) (fMethod f) \<longrightarrow> q = p))))"
  using assms(1)
proof (cases rule: selectInstance_Inr)
  case target
  then show ?thesis using targetInstance_Inr [OF target(2)] by (simp add: roomy_def)
next
  case (balanced pl m s1 eligible full tripped)
  let ?P = "\<lambda>c. serves (rPeerObj s c) (fService f) (fMethod f)"
  have p: "p \<in> set eligible"
    using balanceInstance_mem [OF balanced(7)] balanced(6) eligible_pool [OF balanced(5)] by simp
  note mem = eligibleLoop_mem [OF balanced(5) p]
  have d: "distinct (filter ?P (plInstances pl))" using assms(2) [OF balanced(2)] by simp
  have only: "q = p" if "avoid = Some p" "q \<in> set (plInstances pl)" "?P q" for q
  proof -
    have "\<not> length (filter ?P (plInstances pl)) > 1" using mem that(1) by simp
    then show ?thesis using mem that(2,3) by (cases "filter ?P (plInstances pl)" rule: list.exhaust)
        (auto simp: filter_empty_conv dest!: arg_cong [where f = set])
  qed
  show ?thesis
    using mem balanced(1,2,4) only eligibleLoop_admit [OF balanced(5) d p] by (auto simp: roomy_def)
qed

definition samplePeer :: "string \<Rightarrow> peer" where
  "samplePeer iid = (newPeer 1000 None)\<lparr>pRole := ''server'', pInstanceID := iid,
     pServices := [\<lparr>sName = ''a.v1.B'', sMethods = [\<lparr>mName = ''m'', mStream = ''unary'', mBalance = \<lparr>bKind = ''round_robin'', bKey = None\<rparr>\<rparr>],
       sTargeted = False, sContract = None\<rparr>]\<rparr>"

definition samplePool :: "addr list \<Rightarrow> pool" where
  "samplePool insts = \<lparr>plTargeted = False,
     plMethods = [(''m'', \<lparr>mName = ''m'', mStream = ''unary'', mBalance = \<lparr>bKind = ''round_robin'', bKey = None\<rparr>\<rparr>)],
     plContract = None, plContractMethods = 0, plInstances = insts, plCursors = []\<rparr>"

definition sampleEnv :: "time \<Rightarrow> env" where
  "sampleEnv t = \<lparr>eNow = t, ePick = 0, eSha256 = (\<lambda>s. s), eFloat = (\<lambda>_. None), eSecret = []\<rparr>"

definition sampleRouter :: "router" where
  "sampleRouter = (newRouter (withDefaults zeroConfig) None)\<lparr>rPeers := [1, 2, 3],
     rPeerObj := (\<lambda>_. newPeer 1000 None)(1 := samplePeer ''i1'', 2 := samplePeer ''i2''),
     rInstances := [(''i1'', 1), (''i2'', 2)], rServices := [(''a.v1.B'', samplePool [1, 2])], rNext := 10\<rparr>"

definition sampleOpen :: "string \<Rightarrow> frame" where
  "sampleOpen cid = zeroFrame\<lparr>fKind := ''call.open'', fCallID := cid, fService := ''a.v1.B'', fMethod := ''m'',
     fPayload := Some ''{}'', fraw := Some ''{}''\<rparr>"

theorem selectInstance_sound_witness:
  "snd (selectInstance (sampleEnv 0) (sampleOpen ''c1'') None sampleRouter) = Inr 1 \<and>
   serves (rPeerObj sampleRouter 1) ''a.v1.B'' ''m''"
proof -
  have r: "snd (selectInstance (sampleEnv 0) (sampleOpen ''c1'') None sampleRouter) = Inr 1" by code_simp
  then obtain s' where "selectInstance (sampleEnv 0) (sampleOpen ''c1'') None sampleRouter = (s', Inr 1)"
    by (metis prod.collapse)
  moreover have "distinct (plInstances pl)" if "map_of (rServices sampleRouter) svc = Some pl" for svc pl
    using that by (auto simp: sampleRouter_def samplePool_def split: if_splits)
  ultimately have "serves (rPeerObj sampleRouter 1) (fService (sampleOpen ''c1'')) (fMethod (sampleOpen ''c1''))"
    using selectInstance_sound by blast
  then show ?thesis using r by (simp add: sampleOpen_def)
qed

section \<open>Half-open instances that are not selected\<close>

lemma eligibleLoop_other:
  "eligibleLoop now avoid n cs s = (s', es, full, tripped) \<Longrightarrow> c \<notin> set cs \<Longrightarrow> rPeerObj s' c = rPeerObj s c"
proof (induction cs arbitrary: s es full tripped)
  case (Cons d cs)
  from Cons.prems(1) show ?case
  proof (cases rule: eligibleLoop_Cons)
    case (tripped h tripped')
    then show ?thesis using Cons.IH [OF tripped(5)] Cons.prems(2) by (simp add: updPeer_def)
  next
    case (ok h es')
    then show ?thesis using Cons.IH [OF ok(5)] Cons.prems(2) by (simp add: updPeer_def)
  qed (use Cons.IH Cons.prems(2) in auto)
qed simp

lemma eligibleLoop_probes:
  assumes "distinct cs" "c \<in> set cs" "roomy (rPeerObj s c)" "avoid \<noteq> Some c"
    and "eligibleLoop now avoid n cs s = (s', es, full, tripped)"
  shows "pHealth (rPeerObj s' c) = fst (admit now (pHealth (rPeerObj s c)))"
  using assms
proof (induction cs arbitrary: s es full tripped)
  case (Cons d cs)
  show ?case
  proof (cases "c = d")
    case True
    then have nin: "c \<notin> set cs" using Cons.prems(1) by simp
    from Cons.prems(5) show ?thesis
    proof (cases rule: eligibleLoop_Cons)
      case (tripped h tripped')
      then show ?thesis using eligibleLoop_other [OF tripped(5) nin] True by (simp add: updPeer_def)
    next
      case (ok h es')
      then show ?thesis using eligibleLoop_other [OF ok(5) nin] True by (simp add: updPeer_def)
    qed (use True Cons.prems(3,4) in auto)
  next
    case False
    then have c: "c \<in> set cs" "distinct cs" using Cons.prems(1,2) by auto
    have up: "rPeerObj (updPeer d g s) c = rPeerObj s c" for g using False by (simp add: updPeer_def)
    from Cons.prems(5) show ?thesis
    proof (cases rule: eligibleLoop_Cons)
      case skip
      then show ?thesis using Cons.IH c Cons.prems(3,4) by blast
    next
      case (full full')
      then show ?thesis using Cons.IH c Cons.prems(3,4) by blast
    next
      case (tripped h tripped')
      then show ?thesis using Cons.IH [OF c(2,1) _ Cons.prems(4) tripped(5)] Cons.prems(3) up by simp
    next
      case (ok h es')
      then show ?thesis using Cons.IH [OF c(2,1) _ Cons.prems(4) ok(5)] Cons.prems(3) up by simp
    qed
  qed
qed simp

lemma balanceInstance_peers: "balanceInstance e f pl b insts s = (s', r) \<Longrightarrow> rPeerObj s' = rPeerObj s"
  by (auto simp: balanceInstance_def Let_def split: if_splits)

lemma probing_never_admitted: "hProbing h \<Longrightarrow> hOpenUntil h \<noteq> None \<Longrightarrow> \<not> snd (admit t h)"
  by (auto simp: admit_def healthState_def split: if_splits)

text \<open>
  C15.  A flaw the model makes visible.  The breaker promises that one probe call is admitted to a
  half-open instance.  But the eligibility loop asks \<^verbatim>\<open>admit\<close> of every candidate, and asking marks the
  candidate as probing; so a half-open instance that is eligible and then \<^emph>\<open>not\<close> chosen is left
  marked although no call was sent to it, and from then on its breaker admits it at no time
  whatsoever until some result is observed for it, which no call can bring about.
\<close>

theorem unselected_half_open_is_locked_out:
  assumes "selectInstance e f avoid s = (s', Inr p)" "fInstanceID f = []"
    and "map_of (rServices s) (fService f) = Some pl" "distinct (plInstances pl)"
    and "q \<in> set (plInstances pl)" "q \<noteq> p" "serves (rPeerObj s q) (fService f) (fMethod f)"
    and "pMaxInflight (rPeerObj s q) = 0" "avoid \<noteq> Some q"
    and "healthState (eNow e) (pHealth (rPeerObj s q)) = BreakerHalfOpen"
  shows "hProbing (pHealth (rPeerObj s' q)) \<and> (\<forall>t. \<not> snd (admit t (pHealth (rPeerObj s' q))))"
  using assms(1)
proof (cases rule: selectInstance_Inr)
  case (balanced pl' m s1 eligible full tripped)
  have pl: "pl' = pl" using balanced(2) assms(3) by simp
  have "roomy (rPeerObj s q)" using assms(8) by (simp add: roomy_def)
  then have "pHealth (rPeerObj s1 q) = fst (admit (eNow e) (pHealth (rPeerObj s q)))"
    using eligibleLoop_probes [OF _ _ _ assms(9) balanced(5)] assms(4,5,7) pl by simp
  then have h: "pHealth (rPeerObj s' q) = fst (admit (eNow e) (pHealth (rPeerObj s q)))"
    using balanceInstance_peers [OF balanced(7)] by simp
  have o: "hOpenUntil (pHealth (rPeerObj s q)) \<noteq> None" using assms(10) by (auto simp: healthState_def split: option.splits)
  have "hProbing (pHealth (rPeerObj s' q))" "hOpenUntil (pHealth (rPeerObj s' q)) = hOpenUntil (pHealth (rPeerObj s q))"
    using assms(10) unfolding h by (auto simp: admit_def)
  then show ?thesis using probing_never_admitted o by metis
qed (use assms(2) in simp)

definition halfOpen :: health where
  "halfOpen = \<lparr>hFailures = 5, hOpenUntil = Some 10, hProbing = False\<rparr>"

definition twoHalfOpen :: router where
  "twoHalfOpen = updPeer 2 (\<lambda>x. x\<lparr>pHealth := halfOpen\<rparr>) sampleRouter"

theorem unselected_half_open_is_locked_out_witness:
  "\<exists>s'. selectInstance (sampleEnv 20) (sampleOpen ''c1'') None twoHalfOpen = (s', Inr 1) \<and>
     snd (admit 20 (pHealth (rPeerObj twoHalfOpen 2))) \<and> (\<forall>t. \<not> snd (admit t (pHealth (rPeerObj s' 2))))"
proof -
  have r: "snd (selectInstance (sampleEnv 20) (sampleOpen ''c1'') None twoHalfOpen) = Inr 1" by code_simp
  then obtain s' where s': "selectInstance (sampleEnv 20) (sampleOpen ''c1'') None twoHalfOpen = (s', Inr 1)"
    by (metis prod.collapse)
  have a: "snd (admit 20 (pHealth (rPeerObj twoHalfOpen 2)))" by code_simp
  have "\<forall>t. \<not> snd (admit t (pHealth (rPeerObj s' 2)))"
  proof (rule unselected_half_open_is_locked_out [OF s', of "samplePool [1, 2]" 2, THEN conjunct2])
    show "serves (rPeerObj twoHalfOpen 2) (fService (sampleOpen ''c1'')) (fMethod (sampleOpen ''c1''))" by code_simp
    show "healthState (eNow (sampleEnv 20)) (pHealth (rPeerObj twoHalfOpen 2)) = BreakerHalfOpen" by code_simp
  qed (simp_all add: sampleOpen_def zeroFrame_def twoHalfOpen_def updPeer_def sampleRouter_def samplePool_def samplePeer_def newPeer_def)
  then show ?thesis using s' a by blast
qed

section \<open>Round robin\<close>

text \<open>Consecutive calls to one method balanced over the same instances: the picks.\<close>

fun balanceRun :: "nat \<Rightarrow> env \<Rightarrow> frame \<Rightarrow> balance \<Rightarrow> addr list \<Rightarrow> router \<Rightarrow> (frame + addr) list" where
  "balanceRun 0 e f b insts s = []"
| "balanceRun (Suc k) e f b insts s = (case map_of (rServices s) (fService f) of
      None \<Rightarrow> []
    | Some pl \<Rightarrow> (case balanceInstance e f pl b insts s of (s', r) \<Rightarrow> r # balanceRun k e f b insts s'))"

lemma balanceRun_round_robin:
  assumes "bKind b = ''round_robin''" "insts \<noteq> []"
  shows "map_of (rServices s) (fService f) = Some pl \<Longrightarrow>
     balanceRun k e f b insts s = map (\<lambda>i. Inr (insts ! ((cursorOf pl (fMethod f) + i) mod length insts))) [0..<k]"
proof (induction k arbitrary: s pl)
  case (Suc k)
  let ?n = "length insts" and ?c = "cursorOf pl (fMethod f)"
  let ?pl = "pl\<lparr>plCursors := AList.update (fMethod f) ((?c mod ?n + 1) mod ?n) (plCursors pl)\<rparr>"
  let ?s = "s\<lparr>rServices := AList.update (fService f) ?pl (rServices s)\<rparr>"
  have b: "balanceInstance e f pl b insts s = (?s, Inr (insts ! (?c mod ?n)))"
    using assms(1) by (simp add: balanceInstance_def Let_def)
  have c: "cursorOf ?pl (fMethod f) = (?c mod ?n + 1) mod ?n" by (simp add: cursorOf_def)
  have "balanceRun k e f b insts ?s = map (\<lambda>i. Inr (insts ! ((cursorOf ?pl (fMethod f) + i) mod ?n))) [0..<k]"
    by (rule Suc.IH) simp
  also have "\<dots> = map (\<lambda>i. Inr (insts ! ((?c + i) mod ?n))) (map Suc [0..<k])"
    unfolding c by (simp add: mod_simps)
  finally show ?case using Suc.prems b by (simp add: upt_conv_Cons map_Suc_upt del: upt_Suc)
qed simp

lemma rotate_mset:
  assumes "xs \<noteq> []"
  shows "mset (map (\<lambda>i. xs ! ((c + i) mod length xs)) [0..<length xs]) = mset xs"
proof -
  have "map (\<lambda>i. xs ! ((c + i) mod length xs)) [0..<length xs] = rotate c xs"
    by (rule nth_equalityI) (simp_all add: nth_rotate)
  moreover have "mset (rotate c xs) = mset xs"
    by (simp add: rotate_drop_take) (metis append_take_drop_id mset_append union_commute)
  ultimately show ?thesis by simp
qed

text \<open>
  C16.  Round robin is exactly fair: over consecutive calls to a method balanced over the same
  instances, the picks walk the instances cyclically from the stored cursor, so every window of as
  many calls as there are instances reaches each of them once, whatever cursor was stored when the
  number of instances was different.
\<close>

theorem round_robin_is_fair:
  assumes "bKind b = ''round_robin''" "insts \<noteq> []" "map_of (rServices s) (fService f) = Some pl"
  shows "balanceRun (length insts) e f b insts s =
      map (\<lambda>i. Inr (insts ! ((cursorOf pl (fMethod f) + i) mod length insts))) [0..<length insts] \<and>
    mset (balanceRun (length insts) e f b insts s) = image_mset Inr (mset insts)"
proof -
  let ?f = "\<lambda>i. insts ! ((cursorOf pl (fMethod f) + i) mod length insts)"
  have r: "balanceRun (length insts) e f b insts s = map (\<lambda>i. Inr (?f i)) [0..<length insts]"
    by (rule balanceRun_round_robin [OF assms])
  have "mset (map (\<lambda>i. Inr (?f i) :: frame + addr) [0..<length insts]) = image_mset Inr (mset (map ?f [0..<length insts]))"
    by (simp add: image_mset.compositionality comp_def)
  then show ?thesis using r rotate_mset [OF assms(2)] by simp
qed

theorem round_robin_is_fair_witness:
  "mset (balanceRun (length [1, 2 :: addr]) (sampleEnv 0) (sampleOpen ''c1'') \<lparr>bKind = ''round_robin'', bKey = None\<rparr> [1, 2] sampleRouter) =
     image_mset Inr (mset [1, 2])"
proof -
  have "map_of (rServices sampleRouter) (fService (sampleOpen ''c1'')) = Some (samplePool [1, 2])"
    by (simp add: sampleOpen_def sampleRouter_def)
  from round_robin_is_fair [of "\<lparr>bKind = ''round_robin'', bKey = None\<rparr>" "[1, 2]", OF _ _ this, of "sampleEnv 0"]
  have "mset (balanceRun (length [1, 2 :: addr]) (sampleEnv 0) (sampleOpen ''c1'') \<lparr>bKind = ''round_robin'', bKey = None\<rparr> [1, 2] sampleRouter) =
     image_mset Inr (mset [1, 2])" using conjunct2 by (metis balance.select_convs(1) list.distinct(1))
  then show ?thesis .
qed

end
