(* ===== verification/Contract.thy ===== *)
theory Contract
  imports Protocol
begin

text \<open>
  Portable contract documents (\<^verbatim>\<open>meshcall-router/internal/contract\<close>): the order-preserving JSON values
  of \<^verbatim>\<open>json.go\<close> and the reading of services and methods in \<^verbatim>\<open>contract.go\<close>.  An \<^verbatim>\<open>Object\<close> is the list of
  its members in key order, without repeated keys; a Go value of type \<^verbatim>\<open>any\<close> is a \<open>json\<close> value whose
  objects are such lists (\<open>ordered\<close>).
\<close>

lemma size_member: "(k, v) \<in> set ms \<Longrightarrow> size v < size (JObj ms)"
  by (induction ms) auto

lemma size_element: "v \<in> set vs \<Longrightarrow> size v < size (JArr vs)"
  by (induction vs) auto

section \<open>Ordered objects\<close>

type_synonym object = "(string \<times> json) list"

definition getKey :: "object option \<Rightarrow> string \<Rightarrow> json option" where
  "getKey ob k = (case ob of None \<Rightarrow> None | Some ms \<Rightarrow> map_of ms k)"

definition hasKey :: "object option \<Rightarrow> string \<Rightarrow> bool" where
  "hasKey ob k \<longleftrightarrow> getKey ob k \<noteq> None"

definition strKey :: "object option \<Rightarrow> string \<Rightarrow> string" where
  "strKey ob k = (case getKey ob k of Some (JStr s) \<Rightarrow> s | _ \<Rightarrow> [])"

definition objKey :: "object option \<Rightarrow> string \<Rightarrow> object option" where
  "objKey ob k = (case getKey ob k of Some (JObj ms) \<Rightarrow> Some ms | _ \<Rightarrow> None)"

definition arrKey :: "object option \<Rightarrow> string \<Rightarrow> json list" where
  "arrKey ob k = (case getKey ob k of Some (JArr vs) \<Rightarrow> vs | _ \<Rightarrow> [])"

definition stringsKey :: "object option \<Rightarrow> string \<Rightarrow> string list" where
  "stringsKey ob k = concat (map (\<lambda>v. case v of JStr s \<Rightarrow> [s] | _ \<Rightarrow> []) (arrKey ob k))"

text \<open>\<^verbatim>\<open>Object.Set\<close>: \<open>AList.update\<close> replaces in place or appends, which keeps first-insertion order.\<close>

definition setKey :: "string \<Rightarrow> json \<Rightarrow> object \<Rightarrow> object" where
  "setKey k v ob = AList.update k v ob"

definition withKey :: "string \<Rightarrow> json \<Rightarrow> object \<Rightarrow> object" where
  "withKey k v ob = setKey k v ob"

text \<open>\<^verbatim>\<open>decodeValue\<close> calls \<^verbatim>\<open>Set\<close> for the members in the order of the text.\<close>

fun orderJson :: "json \<Rightarrow> json" where
  "orderJson (JArr vs) = JArr (map orderJson vs)"
| "orderJson (JObj ms) = JObj (foldl (\<lambda>ob (k, v). setKey k v ob) [] (map (\<lambda>(k, v). (k, orderJson v)) ms))"
| "orderJson v = v"

definition DecodeOrdered :: "string \<Rightarrow> json option" where
  "DecodeOrdered data = map_option orderJson (unmarshalAny data)"

fun encodeJson :: "json \<Rightarrow> string" where
  "encodeJson (JObj ms) = ''{'' @ joinWith '','' (map (\<lambda>(k, v). jsonQuote k @ '':'' @ encodeJson v) ms) @ ''}''"
| "encodeJson (JArr vs) = ''['' @ joinWith '','' (map encodeJson vs) @ '']''"
| "encodeJson (JNum n) = n"
| "encodeJson (JStr s) = jsonQuote s"
| "encodeJson (JBool b) = (if b then ''true'' else ''false'')"
| "encodeJson JNull = ''null''"

text \<open>\<^verbatim>\<open>Equal\<close>: order-insensitive for objects; \<open>feq\<close> compares two number literals as \<^verbatim>\<open>float64\<close>.\<close>

definition numberEqual :: "(string \<Rightarrow> string \<Rightarrow> bool) \<Rightarrow> string \<Rightarrow> string \<Rightarrow> bool" where
  "numberEqual feq a b \<longleftrightarrow> a = b \<or> feq a b"

function equalJson :: "(string \<Rightarrow> string \<Rightarrow> bool) \<Rightarrow> json \<Rightarrow> json \<Rightarrow> bool" where
  "equalJson feq a b = (case a of
      JObj xs \<Rightarrow> (case b of
          JObj ys \<Rightarrow> length xs = length ys \<and>
            list_all (\<lambda>(k, v). case map_of ys k of None \<Rightarrow> False | Some w \<Rightarrow> equalJson feq v w) xs
        | _ \<Rightarrow> False)
    | JArr xs \<Rightarrow> (case b of
          JArr ys \<Rightarrow> length xs = length ys \<and> list_all (\<lambda>(x, y). equalJson feq x y) (zip xs ys)
        | _ \<Rightarrow> False)
    | JNum x \<Rightarrow> (case b of JNum y \<Rightarrow> numberEqual feq x y | _ \<Rightarrow> False)
    | _ \<Rightarrow> a = b)"
  by pat_completeness auto
termination
  by (relation "measure (\<lambda>(feq, a, b). size a)")
    (auto dest!: set_zip_leftD size_member size_element)

declare equalJson.simps [simp del]

section \<open>Contract documents\<close>

record annotations =
  anIdempotent :: bool
  anReadOnly :: bool
  anDestructive :: bool

record typeRef =
  trModule :: string
  trQualname :: string
  trSchema :: object

record cmethod =
  cmName :: string
  cmStream :: string
  cmRequest :: "typeRef option"
  cmParameters :: "string list"
  cmResponse :: "typeRef option"
  cmInputItem :: "typeRef option"
  cmOutputItem :: "typeRef option"
  cmBalance :: balance
  cmBinding :: string
  cmDescription :: "string option"
  cmAnnotations :: annotations
  cmDeprecated :: "string option"
  cmDuplexReason :: "string option"
  cmRaw :: object

record cservice =
  csName :: string
  csVersion :: string
  csSourceModule :: string
  csSourceQualname :: string
  csBalance :: balance
  csDescription :: "string option"
  csTargeted :: bool
  csMethods :: "cmethod list"
  csRaw :: object

record document =
  dcProtocol :: string
  dcServices :: "cservice list"
  dcRaw :: object

datatype contractError =
    NotJSON | NotAnObject | ServiceNotObject nat | ServiceNeedsName | MethodsMustBeObjects string
  | MethodNeedsName | UnknownStreamKind string string | RequestTypeRequired string | TypeRefNeedsSchema string
  | DuplexReasonOnOther string string | DuplexNeedsReason string | DuplexHasNoResponse string
  | DuplexNeedsItems string | DuplexNotIdempotent string
  | ManyServices | NoSuchService string

definition optionalString :: "object \<Rightarrow> string \<Rightarrow> string option" where
  "optionalString ob k = (case map_of ob k of Some (JStr s) \<Rightarrow> Some s | _ \<Rightarrow> None)"

definition boolKey :: "object \<Rightarrow> string \<Rightarrow> bool" where
  "boolKey ob k = (case map_of ob k of Some (JBool b) \<Rightarrow> b | _ \<Rightarrow> False)"

definition parseBalance :: "object option \<Rightarrow> balance" where
  "parseBalance ob = (case ob of
      None \<Rightarrow> \<lparr>bKind = ''round_robin'', bKey = None\<rparr>
    | Some ms \<Rightarrow> \<lparr>bKind = (if strKey ob ''kind'' = [] then ''round_robin'' else strKey ob ''kind''),
                  bKey = optionalString ms ''key''\<rparr>)"

text \<open>\<^verbatim>\<open>parseTypeRef\<close>: \<open>Inr None\<close> for an absent reference, \<open>Inl\<close> for one without a name or schema.\<close>

definition parseTypeRef :: "object option \<Rightarrow> unit + typeRef option" where
  "parseTypeRef ob = (case ob of
      None \<Rightarrow> Inr None
    | Some _ \<Rightarrow> (case objKey ob ''schema'' of
        Some sch \<Rightarrow> if strKey ob ''qualname'' = [] then Inl ()
          else Inr (Some \<lparr>trModule = strKey ob ''module'', trQualname = strKey ob ''qualname'', trSchema = sch\<rparr>)
      | None \<Rightarrow> Inl ()))"

text \<open>\<^verbatim>\<open>strings.TrimSpace(r) == ""\<close>: every rune is white space for \<^verbatim>\<open>unicode.IsSpace\<close>.\<close>

definition unicodeSpace :: "nat \<Rightarrow> bool" where
  "unicodeSpace r \<longleftrightarrow> (9 \<le> r \<and> r \<le> 13) \<or> (8192 \<le> r \<and> r \<le> 8202) \<or>
     List.member [32, 133, 160, 5760, 8232, 8233, 8239, 8287, 12288] r"

definition blankText :: "string \<Rightarrow> bool" where
  "blankText s \<longleftrightarrow> list_all unicodeSpace (runes s)"

definition checkDuplex :: "cmethod \<Rightarrow> contractError option" where
  "checkDuplex m =
     (if cmStream m \<noteq> ''duplex'' then
        (if cmDuplexReason m \<noteq> None then Some (DuplexReasonOnOther (cmName m) (cmStream m)) else None)
      else if (case cmDuplexReason m of None \<Rightarrow> True | Some r \<Rightarrow> blankText r) then Some (DuplexNeedsReason (cmName m))
      else if cmResponse m \<noteq> None then Some (DuplexHasNoResponse (cmName m))
      else if cmInputItem m = None \<or> cmOutputItem m = None then Some (DuplexNeedsItems (cmName m))
      else if anIdempotent (cmAnnotations m) \<or> anReadOnly (cmAnnotations m) then Some (DuplexNotIdempotent (cmName m))
      else None)"

definition streamKinds :: "string list" where
  "streamKinds = [''unary'', ''server_stream'', ''client_stream'', ''duplex'']"

definition parseMethod :: "object \<Rightarrow> contractError + cmethod" where
  "parseMethod ob =
     (let o1 = Some ob; name = strKey o1 ''name''; stream = strKey o1 ''stream'' in
      if name = [] then Inl MethodNeedsName
      else if \<not> List.member streamKinds stream then Inl (UnknownStreamKind name stream)
      else (case parseTypeRef (objKey o1 ''request'') of
          Inr (Some req) \<Rightarrow>
            (case (parseTypeRef (objKey o1 ''response''), parseTypeRef (objKey o1 ''input_item''), parseTypeRef (objKey o1 ''output_item'')) of
               (Inr resp, Inr inp, Inr outp) \<Rightarrow>
                 (let ann = (case objKey o1 ''annotations'' of
                        None \<Rightarrow> \<lparr>anIdempotent = False, anReadOnly = False, anDestructive = False\<rparr>
                      | Some a \<Rightarrow> \<lparr>anIdempotent = boolKey a ''idempotent'', anReadOnly = boolKey a ''read_only'',
                                   anDestructive = boolKey a ''destructive''\<rparr>);
                      m = \<lparr>cmName = name, cmStream = stream, cmRequest = Some req, cmParameters = stringsKey o1 ''parameters'',
                           cmResponse = resp, cmInputItem = inp, cmOutputItem = outp, cmBalance = parseBalance (objKey o1 ''balance''),
                           cmBinding = (if strKey o1 ''binding'' = [] then ''instance'' else strKey o1 ''binding''),
                           cmDescription = optionalString ob ''description'', cmAnnotations = ann,
                           cmDeprecated = optionalString ob ''deprecated'', cmDuplexReason = optionalString ob ''duplex_reason'',
                           cmRaw = ob\<rparr> in
                  case checkDuplex m of Some e \<Rightarrow> Inl e | None \<Rightarrow> Inr m)
             | _ \<Rightarrow> Inl (TypeRefNeedsSchema name))
        | _ \<Rightarrow> Inl (RequestTypeRequired name)))"

fun parseMethods :: "string \<Rightarrow> json list \<Rightarrow> contractError + cmethod list" where
  "parseMethods svc [] = Inr []"
| "parseMethods svc (v # vs) = (case v of
      JObj ob \<Rightarrow> (case parseMethod ob of
          Inl e \<Rightarrow> Inl e
        | Inr m \<Rightarrow> (case parseMethods svc vs of Inl e \<Rightarrow> Inl e | Inr ms \<Rightarrow> Inr (m # ms)))
    | _ \<Rightarrow> Inl (MethodsMustBeObjects svc))"

definition parseService :: "object \<Rightarrow> contractError + cservice" where
  "parseService ob =
     (let o1 = Some ob; name = strKey o1 ''name''; qual = strKey o1 ''source_qualname'' in
      if name = [] \<or> qual = [] then Inl ServiceNeedsName
      else (case parseMethods name (arrKey o1 ''methods'') of
          Inl e \<Rightarrow> Inl e
        | Inr ms \<Rightarrow> Inr \<lparr>csName = name, csVersion = (if strKey o1 ''version'' = [] then ''0'' else strKey o1 ''version''),
            csSourceModule = strKey o1 ''source_module'', csSourceQualname = qual, csBalance = parseBalance (objKey o1 ''balance''),
            csDescription = optionalString ob ''description'', csTargeted = boolKey ob ''targeted'', csMethods = ms, csRaw = ob\<rparr>))"

fun parseServices :: "nat \<Rightarrow> json list \<Rightarrow> contractError + cservice list" where
  "parseServices i [] = Inr []"
| "parseServices i (v # vs) = (case v of
      JObj ob \<Rightarrow> (case parseService ob of
          Inl e \<Rightarrow> Inl e
        | Inr s \<Rightarrow> (case parseServices (Suc i) vs of Inl e \<Rightarrow> Inl e | Inr ss \<Rightarrow> Inr (s # ss)))
    | _ \<Rightarrow> Inl (ServiceNotObject i))"

definition Parse :: "string \<Rightarrow> contractError + document" where
  "Parse data = (case DecodeOrdered data of
      None \<Rightarrow> Inl NotJSON
    | Some (JObj root) \<Rightarrow> (case parseServices 0 (arrKey (Some root) ''services'') of
        Inl e \<Rightarrow> Inl e
      | Inr ss \<Rightarrow> Inr \<lparr>dcProtocol = (if strKey (Some root) ''protocol'' = [] then ''meshcall/1'' else strKey (Some root) ''protocol''),
          dcServices = ss, dcRaw = root\<rparr>)
    | Some _ \<Rightarrow> Inl NotAnObject)"

definition selectService :: "document \<Rightarrow> string \<Rightarrow> contractError + cservice" where
  "selectService d name =
     (if name = [] then (case dcServices d of [s] \<Rightarrow> Inr s | _ \<Rightarrow> Inl ManyServices)
      else (case find (\<lambda>s. csName s = name) (dcServices d) of Some s \<Rightarrow> Inr s | None \<Rightarrow> Inl (NoSuchService name)))"

end
