(* ===== verification/Management.thy ===== *)
theory Management
  imports Balance Contract
begin

text \<open>
  The Router's own services (\<^verbatim>\<open>meshcall-router/internal/router/management.go\<close>): \<^verbatim>\<open>AuthService\<close> (who am I,
  issue and revoke tokens) and \<^verbatim>\<open>Registry\<close> (list and describe what is registered, filtered by what
  the caller may call).  Results are the JSON texts the Router sends.
\<close>

definition AuthService :: string where "AuthService = ''meshcall.router.v1.AuthService''"
definition RegistryService :: string where "RegistryService = ''meshcall.router.v1.Registry''"

text \<open>\<^verbatim>\<open>readRequest\<close>: one object with known fields only and nothing after it.\<close>

definition readRequest :: "(string \<times> 'a setter) list \<Rightarrow> 'a \<Rightarrow> string \<Rightarrow> 'a option" where
  "readRequest fs zero payload =
     (if \<not> hasPrefix (dropWhile isSpace payload) ''{'' then None
      else (case parseJson payload of
          None \<Rightarrow> None
        | Some (v, rest) \<Rightarrow> (case structStrict fs payload v zero of (x, ok) \<Rightarrow>
            if ok \<and> skipWs rest = [] then Some x else None)))"

definition scopeFields :: "(string \<times> scope setter) list" where
  "scopeFields =
    [(''service'', \<lambda>raw v x. map_prod (\<lambda>y. x\<lparr>scService := y\<rparr>) id (strVal v (scService x))),
     (''methods'', \<lambda>raw v x. map_prod (\<lambda>y. x\<lparr>scMethods := y\<rparr>) id (strList raw v (scMethods x))),
     (''register'', \<lambda>raw v x. map_prod (\<lambda>y. x\<lparr>scRegister := y\<rparr>) id (boolVal v (scRegister x)))]"

definition issueFields :: "(string \<times> issueTokenRequest setter) list" where
  "issueFields =
    [(''ttl_seconds'', \<lambda>raw v x. map_prod (\<lambda>y. x\<lparr>irTTLSeconds := y\<rparr>) id (intVal v (irTTLSeconds x))),
     (''scopes'', \<lambda>raw v x. map_prod (\<lambda>y. x\<lparr>irScopes := case_option [] id y\<rparr>) id
        (sliceVal (\<lambda>r w. structStrict scopeFields r w \<lparr>scService = [], scMethods = [], scRegister = False\<rparr>) raw v (Some (irScopes x))))]"

definition oneString :: "string \<Rightarrow> (string \<times> string setter) list" where
  "oneString name = [(name, \<lambda>raw v x. strVal v x)]"

definition marshalStrings :: "string list \<Rightarrow> string" where
  "marshalStrings xs = marshalArray (map jsonQuote xs)"

definition boolText :: "bool \<Rightarrow> string" where
  "boolText b = (if b then ''true'' else ''false'')"

definition unixMilli :: "time \<Rightarrow> int" where
  "unixMilli t = t div 1000000"

definition whoamiResult :: "user \<Rightarrow> string" where
  "whoamiResult u = marshalObject
     [(''username'', Some (jsonQuote (uUsername u))), (''roles'', Some (marshalStrings (uRoles u))),
      (''register'', Some (marshalStrings (uRegister u))), (''call'', Some (marshalStrings (callRules u))),
      (''expires_at_unix_ms'', Some (case uExpires u of None \<Rightarrow> ''null'' | Some e \<Rightarrow> itoa (unixMilli e)))]"

definition marshalScope :: "scope \<Rightarrow> string" where
  "marshalScope sc = marshalObject
     [(''service'', Some (jsonQuote (scService sc))),
      (''methods'', if scMethods sc = [] then None else Some (marshalStrings (scMethods sc))),
      (''register'', if scRegister sc then Some ''true'' else None)]"

definition issueResult :: "issueTokenResult \<Rightarrow> string" where
  "issueResult r = marshalObject
     [(''token'', Some (jsonQuote (itToken r))), (''token_id'', Some (jsonQuote (itTokenID r))),
      (''expires_at_unix_ms'', Some (itoa (unixMilli (itExpires r)))),
      (''scopes'', Some (marshalArray (map marshalScope (itScopes r))))]"

section \<open>Registry\<close>

record registryInstance =
  riID :: string
  riInflight :: int
  riMaxInflight :: int
  riBreaker :: string
  riDraining :: bool

record contractMethod =
  cnName :: string
  cnDescription :: "string option"
  cnAnnotations :: "string option"
  cnDeprecated :: "string option"
  cnParameters :: "string list"
  cnDuplexReason :: "string option"

record contractEntry =
  ceVersion :: string
  ceDescription :: "string option"
  ceMethods :: "contractMethod list"

record registryMethod =
  rmName :: string
  rmStream :: string
  rmBalance :: balance
  rmDescription :: "string option"
  rmAnnotations :: "string option"
  rmDeprecated :: "string option"
  rmParameters :: "string list"
  rmDuplexReason :: "string option"
  rmInstances :: "string list"

record registryService =
  rgName :: string
  rgVersion :: string
  rgDescription :: "string option"
  rgTargeted :: bool
  rgInstances :: "registryInstance list"
  rgMethods :: "registryMethod list"

definition contractMethodFields :: "(string \<times> contractMethod setter) list" where
  "contractMethodFields =
    [(''name'', \<lambda>raw v x. map_prod (\<lambda>y. x\<lparr>cnName := y\<rparr>) id (strVal v (cnName x))),
     (''description'', \<lambda>raw v x. map_prod (\<lambda>y. x\<lparr>cnDescription := y\<rparr>) id (optStrVal v (cnDescription x))),
     (''annotations'', \<lambda>raw v x. (x\<lparr>cnAnnotations := Some raw\<rparr>, True)),
     (''deprecated'', \<lambda>raw v x. map_prod (\<lambda>y. x\<lparr>cnDeprecated := y\<rparr>) id (optStrVal v (cnDeprecated x))),
     (''parameters'', \<lambda>raw v x. map_prod (\<lambda>y. x\<lparr>cnParameters := y\<rparr>) id (strList raw v (cnParameters x))),
     (''duplex_reason'', \<lambda>raw v x. map_prod (\<lambda>y. x\<lparr>cnDuplexReason := y\<rparr>) id (optStrVal v (cnDuplexReason x)))]"

definition zeroContractMethod :: contractMethod where
  "zeroContractMethod = \<lparr>cnName = [], cnDescription = None, cnAnnotations = None, cnDeprecated = None, cnParameters = [], cnDuplexReason = None\<rparr>"

definition contractEntryFields :: "(string \<times> contractEntry setter) list" where
  "contractEntryFields =
    [(''version'', \<lambda>raw v x. map_prod (\<lambda>y. x\<lparr>ceVersion := y\<rparr>) id (strVal v (ceVersion x))),
     (''description'', \<lambda>raw v x. map_prod (\<lambda>y. x\<lparr>ceDescription := y\<rparr>) id (optStrVal v (ceDescription x))),
     (''methods'', \<lambda>raw v x. map_prod (\<lambda>y. x\<lparr>ceMethods := case_option [] id y\<rparr>) id
        (sliceVal (\<lambda>r w. structVal contractMethodFields r w zeroContractMethod) raw v (Some (ceMethods x))))]"

text \<open>Decoding a contract entry: what was filled in, and whether \<^verbatim>\<open>json.Unmarshal\<close> reported no error.
  The methods are used even when it did.\<close>

definition readContractEntry :: "string option \<Rightarrow> contractEntry \<times> bool" where
  "readContractEntry raw =
     (let zero = \<lparr>ceVersion = [], ceDescription = None, ceMethods = []\<rparr> in
      case raw of
        None \<Rightarrow> (zero, False)
      | Some data \<Rightarrow> (case unmarshalAny data of
          None \<Rightarrow> (zero, False)
        | Some v \<Rightarrow> structVal contractEntryFields data v zero))"

definition allowsAnyCall :: "user option \<Rightarrow> string \<Rightarrow> pool \<Rightarrow> bool" where
  "allowsAnyCall u svc pl \<longleftrightarrow> list_ex (\<lambda>(name, m). allowsCall u svc name) (plMethods pl)"

definition visibleContract :: "string option \<Rightarrow> string \<Rightarrow> user option \<Rightarrow> string option" where
  "visibleContract raw svc u = (case (raw, u) of
      (None, _) \<Rightarrow> None
    | (Some data, None) \<Rightarrow> Some data
    | (Some data, Some _) \<Rightarrow> (case DecodeOrdered data of
        Some (JObj doc) \<Rightarrow>
          (let kept = filter (\<lambda>m. case m of JObj entry \<Rightarrow> allowsCall u svc (strKey (Some entry) ''name'') | _ \<Rightarrow> False)
                 (arrKey (Some doc) ''methods'') in
           Some (encodeJson (JObj (setKey ''methods'' (JArr kept) doc))))
      | _ \<Rightarrow> None))"

definition sortedMethods :: "(string, meth) gomap \<Rightarrow> meth list" where
  "sortedMethods ms = sort_key mName (map snd ms)"

definition registryInst :: "time \<Rightarrow> string \<Rightarrow> bool \<Rightarrow> peer \<Rightarrow> registryInstance" where
  "registryInst now iid draining x = \<lparr>riID = iid, riInflight = pInflight x, riMaxInflight = pMaxInflight x,
     riBreaker = breakerName (healthState now (pHealth x)), riDraining = draining\<rparr>"

fun mergeContract :: "contractMethod list \<Rightarrow> registryMethod \<Rightarrow> registryMethod" where
  "mergeContract [] rm = rm"
| "mergeContract (cm # cms) rm =
     mergeContract cms (if cnName cm = rmName rm
       then rm\<lparr>rmDescription := cnDescription cm, rmAnnotations := cnAnnotations cm, rmDeprecated := cnDeprecated cm,
              rmParameters := cnParameters cm, rmDuplexReason := cnDuplexReason cm\<rparr>
       else rm)"

definition describeService :: "time \<Rightarrow> string \<Rightarrow> pool \<Rightarrow> user option \<Rightarrow> router \<Rightarrow> registryService" where
  "describeService now name pl u s =
     (let live = map (\<lambda>p. registryInst now (pInstanceID (rPeerObj s p)) (pDraining (rPeerObj s p)) (rPeerObj s p)) (plInstances pl);
          leaving = map (\<lambda>(iid, p). registryInst now iid True (rPeerObj s p))
            (filter (\<lambda>(iid, p). pDraining (rPeerObj s p) \<and> list_ex (\<lambda>sv. sName sv = name) (pServices (rPeerObj s p))) (rInstances s));
          (entry, ok) = readContractEntry (plContract pl);
          methods = map (\<lambda>m. mergeContract (ceMethods entry)
              \<lparr>rmName = mName m, rmStream = mStream m, rmBalance = mBalance m, rmDescription = None, rmAnnotations = None,
               rmDeprecated = None, rmParameters = [], rmDuplexReason = None,
               rmInstances = map (\<lambda>p. pInstanceID (rPeerObj s p)) (filter (\<lambda>p. serves (rPeerObj s p) name (mName m)) (plInstances pl))\<rparr>)
            (filter (\<lambda>m. allowsCall u name (mName m)) (sortedMethods (plMethods pl))) in
      \<lparr>rgName = name, rgVersion = (if ok then ceVersion entry else []), rgDescription = (if ok then ceDescription entry else None),
       rgTargeted = plTargeted pl, rgInstances = live @ leaving, rgMethods = methods\<rparr>)"

definition marshalInstance :: "registryInstance \<Rightarrow> string" where
  "marshalInstance i = marshalObject
     [(''id'', Some (jsonQuote (riID i))), (''inflight'', Some (itoa (riInflight i))),
      (''max_inflight'', if riMaxInflight i = 0 then None else Some (itoa (riMaxInflight i))),
      (''breaker'', Some (jsonQuote (riBreaker i))), (''draining'', Some (boolText (riDraining i)))]"

definition marshalRegistryMethod :: "registryMethod \<Rightarrow> string" where
  "marshalRegistryMethod rm = marshalObject
     [(''name'', Some (jsonQuote (rmName rm))), (''stream'', Some (jsonQuote (rmStream rm))), (''balance'', Some (marshalBalance (rmBalance rm))),
      (''description'', map_option jsonQuote (rmDescription rm)), (''annotations'', omitRaw (rmAnnotations rm)),
      (''deprecated'', map_option jsonQuote (rmDeprecated rm)),
      (''parameters'', if rmParameters rm = [] then None else Some (marshalStrings (rmParameters rm))),
      (''duplex_reason'', map_option jsonQuote (rmDuplexReason rm)), (''instances'', Some (marshalStrings (rmInstances rm)))]"

definition serviceMembers :: "registryService \<Rightarrow> (string \<times> string option) list" where
  "serviceMembers g =
     [(''name'', Some (jsonQuote (rgName g))), (''version'', omitStr (rgVersion g)), (''description'', map_option jsonQuote (rgDescription g)),
      (''targeted'', Some (boolText (rgTargeted g))), (''instances'', Some (marshalArray (map marshalInstance (rgInstances g)))),
      (''methods'', Some (marshalArray (map marshalRegistryMethod (rgMethods g))))]"

definition resultFrame :: "string \<Rightarrow> string \<Rightarrow> frame" where
  "resultFrame cid payload = zeroFrame\<lparr>fKind := ''call.result'', fCallID := cid, fPayload := Some payload\<rparr>"

definition mgmtError :: "frame \<Rightarrow> string \<Rightarrow> string \<Rightarrow> frame" where
  "mgmtError f code message = callError (fCallID f) code message False"

definition payloadOf :: "frame \<Rightarrow> string" where
  "payloadOf f = (case fPayload f of Some p \<Rightarrow> p | None \<Rightarrow> [])"

text \<open>\<^verbatim>\<open>registry\<close>: the answer; it changes nothing else.\<close>

definition registryAnswer :: "time \<Rightarrow> user option \<Rightarrow> frame \<Rightarrow> router \<Rightarrow> frame" where
  "registryAnswer now u f s =
     (if fMethod f = ''list'' then
        (if readRequest [] () (payloadOf f) = None then mgmtError f ''invalid_argument'' ''list expects an empty object''
         else
           (let names = sort (map fst (filter (\<lambda>(name, pl). allowsAnyCall u name pl) (rServices s)));
                services = map (\<lambda>name. case map_of (rServices s) name of
                    Some pl \<Rightarrow> marshalObject (serviceMembers (describeService now name pl u s)) | None \<Rightarrow> []) names in
            resultFrame (fCallID f) (marshalObject [(''services'', Some (marshalArray services))])))
      else if fMethod f = ''describe'' then
        (case readRequest (oneString ''service'') [] (payloadOf f) of
           None \<Rightarrow> mgmtError f ''invalid_argument'' (''describe expects {'' @ [quoteChar] @ ''service'' @ [quoteChar] @ '': name}'')
         | Some name \<Rightarrow>
           if name = [] then mgmtError f ''invalid_argument'' (''describe expects {'' @ [quoteChar] @ ''service'' @ [quoteChar] @ '': name}'')
           else (case map_of (rServices s) name of
               Some pl \<Rightarrow>
                 if allowsAnyCall u name pl then
                   resultFrame (fCallID f) (marshalObject (serviceMembers (describeService now name pl u s) @
                     [(''contract'', omitRaw (visibleContract (plContract pl) name u))]))
                 else mgmtError f ''method_not_found'' (''No instances registered for '' @ name)
             | None \<Rightarrow> mgmtError f ''method_not_found'' (''No instances registered for '' @ name)))
      else mgmtError f ''method_not_found'' (''Unknown Registry method '' @ fMethod f))"

section \<open>AuthService\<close>

definition revokePeers :: "string \<Rightarrow> router \<Rightarrow> router" where
  "revokePeers tid s =
     fold (\<lambda>p s. case pUser (rPeerObj s p) of
         Some u \<Rightarrow> if uTokenID u = tid then cancelPeer p s else s
       | None \<Rightarrow> s) (rPeers s) s"

text \<open>The three methods, for a caller \<open>u\<close> of a Router with accounts \<open>a\<close>: the new state and the answer.\<close>

definition authAnswer :: "env \<Rightarrow> user \<Rightarrow> auth \<Rightarrow> frame \<Rightarrow> router \<Rightarrow> router \<times> frame" where
  "authAnswer e u a f s =
     (if fMethod f = ''whoami'' then
        (if readRequest [] () (payloadOf f) = None then (s, mgmtError f ''invalid_argument'' ''whoami expects an empty object'')
         else (s, resultFrame (fCallID f) (whoamiResult u)))
      else if fMethod f = ''issue_token'' then
        (if \<not> mayIssueTokens (Some u) then (s, mgmtError f ''permission_denied'' ''Temporary tokens cannot issue tokens'')
         else (case readRequest issueFields \<lparr>irTTLSeconds = 0, irScopes = []\<rparr> (payloadOf f) of
             None \<Rightarrow> (s, mgmtError f ''invalid_argument'' ''Invalid issue_token request'')
           | Some req \<Rightarrow> (case issue (eSha256 e) (eSecret e) (eNow e) u req a of
               (a', Inl (ScopeError m)) \<Rightarrow> (s\<lparr>rAuth := Some a'\<rparr>, mgmtError f ''permission_denied'' m)
             | (a', Inl (BadRequest m)) \<Rightarrow> (s\<lparr>rAuth := Some a'\<rparr>, mgmtError f ''invalid_argument'' m)
             | (a', Inr res) \<Rightarrow> (s\<lparr>rAuth := Some a'\<rparr>, resultFrame (fCallID f) (issueResult res)))))
      else if fMethod f = ''revoke_token'' then
        (if \<not> mayIssueTokens (Some u) then (s, mgmtError f ''permission_denied'' ''Temporary tokens cannot revoke tokens'')
         else (case readRequest (oneString ''token_id'') [] (payloadOf f) of
             None \<Rightarrow> (s, mgmtError f ''invalid_argument'' ''token_id is required'')
           | Some tid \<Rightarrow>
             if tid = [] then (s, mgmtError f ''invalid_argument'' ''token_id is required'')
             else (case revokeToken (uUsername u) tid a of (a', revoked) \<Rightarrow>
               (let s1 = s\<lparr>rAuth := Some a'\<rparr> in
                (if revoked then revokePeers tid s1 else s1,
                 resultFrame (fCallID f) (marshalObject [(''revoked'', Some (boolText revoked))]))))))
      else (s, mgmtError f ''method_not_found'' ''Unknown router method''))"

definition management :: "env \<Rightarrow> addr \<Rightarrow> frame \<Rightarrow> router \<Rightarrow> router" where
  "management e p f s =
     (if fService f = RegistryService then sendTo p (registryAnswer (eNow e) (pUser (rPeerObj s p)) f s) s
      else (case pUser (rPeerObj s p) of
          None \<Rightarrow> sendTo p (mgmtError f ''unauthenticated'' ''Router accounts are not configured'') s
        | Some u \<Rightarrow>
          if fService f \<noteq> AuthService then sendTo p (mgmtError f ''method_not_found'' ''Unknown router service'') s
          else (case rAuth s of
              None \<Rightarrow> s
            | Some a \<Rightarrow> (case authAnswer e u a f s of (s', answer) \<Rightarrow> sendTo p answer s'))))"

end
