(* ===== verification/Dedup.thy ===== *)
theory Dedup
  imports Router_State
begin

text \<open>
  Ending routes and deduplicating idempotent unary calls
  (\<^verbatim>\<open>meshcall-router/internal/router/deadline.go\<close> and \<^verbatim>\<open>dedup.go\<close>).  While the first call with a key
  is in flight, later calls with the key join it as waiters; its terminal frame is sent to every
  waiter and replayed for \<^verbatim>\<open>dedupTTL\<close>.
\<close>

section \<open>Deadlines and the end of a route\<close>

definition deadlines :: "router \<Rightarrow> addr \<Rightarrow> time" where
  "deadlines s a = rtDeadline (rRouteObj s a)"

text \<open>\<^verbatim>\<open>track\<close>: the timeout in milliseconds is multiplied as an \<^verbatim>\<open>int64\<close> number of nanoseconds.\<close>

definition track :: "time \<Rightarrow> addr \<Rightarrow> int \<Rightarrow> router \<Rightarrow> router" where
  "track now a timeout s =
     (let s1 = updRoute a (\<lambda>rt. rt\<lparr>rtDeadline := now + wrap64 (timeout + cDeadlineGrace (rConfig s))\<rparr>) s;
          h = heapPush (deadlines s1) a (rDeadlines s1) in
      s1\<lparr>rDeadlines := h, rDeadlineWake := rDeadlineWake s1 \<or> hIndex h a = 0\<rparr>)"

definition untrack :: "addr \<Rightarrow> router \<Rightarrow> router" where
  "untrack a s = s\<lparr>rDeadlines := untrackHeap (deadlines s) a (rDeadlines s)\<rparr>"

definition callEnded :: "addr \<Rightarrow> router \<Rightarrow> router" where
  "callEnded c s =
     (let s1 = updPeer c (\<lambda>x. x\<lparr>pCalls := pCalls x - 1\<rparr>) s in if rDraining s then wakePeer c s1 else s1)"

definition markDrained :: "router \<Rightarrow> router" where
  "markDrained s = s\<lparr>rDrained := True\<rparr>"

definition endRoute :: "string \<Rightarrow> addr \<Rightarrow> router \<Rightarrow> router" where
  "endRoute cid a s =
     (let rt = rRouteObj s a;
          s1 = s\<lparr>rRoutes := AList.delete cid (rRoutes s)\<rparr>;
          s2 = updPeer (rtInstance rt) (\<lambda>x. x\<lparr>pInflight := pInflight x - 1\<rparr>) s1;
          s3 = untrack a s2;
          s4 = callEnded (rtClient rt) s3 in
      if rDraining s4 then
        (let s5 = wakePeer (rtInstance rt) s4 in if rRoutes s5 = [] then markDrained s5 else s5)
      else s4)"

section \<open>The idempotency table\<close>

definition dedupTTL :: time where "dedupTTL = 60 * second"
definition dedupCapacity :: nat where "dedupCapacity = 4096"

definition dedupKey :: "frame \<Rightarrow> string" where
  "dedupKey f = fService f @ [CHR 0x00] @ fMethod f @ [CHR 0x00] @ fIdempotency f @ [CHR 0x00] @ fInstanceID f"

definition dedupRemove :: "addr \<Rightarrow> router \<Rightarrow> router" where
  "dedupRemove e s =
     (let entry = rDedupObj s e;
          s1 = (if deListed entry then updEntry e (\<lambda>x. x\<lparr>deListed := False\<rparr>) (s\<lparr>rDedupOrder := remove1 e (rDedupOrder s)\<rparr>) else s) in
      s1\<lparr>rDedup := AList.delete (deKey entry) (rDedup s1)\<rparr>)"

definition dedupLookup :: "time \<Rightarrow> string \<Rightarrow> router \<Rightarrow> router \<times> addr option" where
  "dedupLookup now key s = (case map_of (rDedup s) key of
      None \<Rightarrow> (s, None)
    | Some e \<Rightarrow>
      if deRoute (rDedupObj s e) = None \<and> now > deExpires (rDedupObj s e) then (dedupRemove e s, None) else (s, Some e))"

text \<open>The eviction loop of \<^verbatim>\<open>dedupInsert\<close>; every turn removes the front of the order, so its length is
  enough fuel.\<close>

fun dedupEvict :: "nat \<Rightarrow> router \<Rightarrow> router" where
  "dedupEvict 0 s = s"
| "dedupEvict (Suc n) s = (case rDedupOrder s of
      [] \<Rightarrow> s
    | oldest # _ \<Rightarrow>
      if length (rDedupOrder s) < dedupCapacity then s
      else if deRoute (rDedupObj s oldest) \<noteq> None then s
      else dedupEvict n (dedupRemove oldest s))"

definition newEntry :: "string \<Rightarrow> addr \<Rightarrow> dedupEntry" where
  "newEntry key rt = \<lparr>deKey = key, deRoute = Some rt, deWaiters = [], deResult = None, deExpires = 0,
     deLastInstance = None, deListed = True\<rparr>"

definition dedupInsert :: "string \<Rightarrow> addr \<Rightarrow> router \<Rightarrow> router" where
  "dedupInsert key rt s =
     (let s1 = dedupEvict (length (rDedupOrder s)) s; e = rNext s1;
          s2 = s1\<lparr>rDedupObj := (rDedupObj s1)(e := newEntry key rt), rNext := e + 1,
                  rDedupOrder := rDedupOrder s1 @ [e], rDedup := AList.update key e (rDedup s1)\<rparr> in
      updRoute rt (\<lambda>x. x\<lparr>rtDedup := Some e\<rparr>) s2)"

text \<open>Answering the waiters, in the order they joined.\<close>

fun answerWaiters :: "frame \<Rightarrow> (addr \<times> string) list \<Rightarrow> router \<Rightarrow> router" where
  "answerWaiters f [] s = s"
| "answerWaiters f ((c, cid) # ws) s = answerWaiters f ws (callEnded c (sendTo c (withCallID f cid) s))"

definition dedupSettle :: "time \<Rightarrow> addr \<Rightarrow> frame \<Rightarrow> router \<Rightarrow> router" where
  "dedupSettle now e terminal s =
     (let settled = terminal\<lparr>fraw := None\<rparr>;
          s1 = updEntry e (\<lambda>x. x\<lparr>deRoute := None, deResult := Some settled, deExpires := now + dedupTTL\<rparr>) s in
      updEntry e (\<lambda>x. x\<lparr>deWaiters := []\<rparr>) (answerWaiters settled (deWaiters (rDedupObj s e)) s1))"

definition dedupFail :: "time \<Rightarrow> addr \<Rightarrow> frame \<Rightarrow> addr option \<Rightarrow> router \<Rightarrow> router" where
  "dedupFail now e err lost s =
     (let s1 = answerWaiters err (deWaiters (rDedupObj s e)) s in
      updEntry e (\<lambda>x. x\<lparr>deWaiters := [], deRoute := None, deLastInstance := lost, deExpires := now + dedupTTL, deResult := None\<rparr>) s1)"

end
