(* ===== verification/Router_Core.thy ===== *)
theory Router_Core
  imports Management Dedup
begin

text \<open>
  The Router itself (\<^verbatim>\<open>meshcall-router/internal/router/router.go\<close> and the expiry loop of
  \<^verbatim>\<open>deadline.go\<close>): connections, registration, forwarding, flow control, draining, disconnection,
  deadlines and shutdown.  Every operation below runs under the Router's mutex in the source, so a
  run of the Router is a sequence of these operations.
\<close>

section \<open>Connections\<close>

text \<open>The end of \<^verbatim>\<open>handle\<close>'s admission: a new peer, unless the Router is draining or the identity is
  no longer valid.\<close>

definition connectPeer :: "env \<Rightarrow> user option \<Rightarrow> router \<Rightarrow> router \<times> addr option" where
  "connectPeer e u s =
     (if rDraining s \<or> \<not> validUser (eNow e) (rAuth s) u then (s, None)
      else
        (let p = rNext s in
         (s\<lparr>rPeers := rPeers s @ [p], rPeerObj := (rPeerObj s)(p := newPeer (cOutboxSize (rConfig s)) u), rNext := p + 1\<rparr>, Some p)))"

text \<open>The admission of an HTTP request (\<^verbatim>\<open>virtualClient\<close> of \<^verbatim>\<open>httpapi.go\<close>): a client peer without a connection;
  \<open>rid\<close> is its random id.\<close>

definition virtualClient :: "env \<Rightarrow> user option \<Rightarrow> string \<Rightarrow> router \<Rightarrow> router \<times> addr option" where
  "virtualClient e u rid s =
     (if rClosed s \<or> \<not> validUser (eNow e) (rAuth s) u then (s, None)
      else
        (let p = rNext s in
         (s\<lparr>rPeers := rPeers s @ [p],
            rPeerObj := (rPeerObj s)(p := (newPeer (cOutboxSize (rConfig s)) u)\<lparr>pRole := ''client'', pId := hexEncode rid\<rparr>),
            rNext := p + 1\<rparr>, Some p)))"

definition helloAck :: "string \<Rightarrow> frame" where
  "helloAck cid = zeroFrame\<lparr>fKind := ''hello.ack'', fProtocol := ProtocolName, fConnection := cid\<rparr>"

text \<open>The handshake: \<open>f\<close> is the first frame read, \<open>cid\<close> the random connection id; \<open>False\<close> ends the connection.\<close>

definition hello :: "string \<Rightarrow> addr \<Rightarrow> frame \<Rightarrow> router \<Rightarrow> router \<times> bool" where
  "hello cid p f s =
     (if fKind f \<noteq> ''hello'' \<or> \<not> allowsRole (pUser (rPeerObj s p)) (fRole f) then (s, False)
      else (sendTo p (helloAck (hexEncode cid)) (updPeer p (\<lambda>x. x\<lparr>pId := hexEncode cid, pRole := fRole f\<rparr>) s), True))"

section \<open>Registration\<close>

definition balanceKinds :: "string list" where
  "balanceKinds = [''round_robin'', ''least_inflight'', ''random'', ''sticky'', ''disabled'']"

definition stickyKeyOk :: "balance \<Rightarrow> bool" where
  "stickyKeyOk b = (case bKey b of None \<Rightarrow> False | Some k \<Rightarrow> hasPrefix k ''request.'' \<and> \<not> hasSuffix k ''.'')"

datatype registerError =
    BadService | BadMethod | BadStickyKey | DuplicateInstance | InvalidContract | TargetedDiffers | MethodDiffers string

fun checkMethods :: "string list \<Rightarrow> meth list \<Rightarrow> registerError option" where
  "checkMethods seen [] = None"
| "checkMethods seen (m # ms) =
     (if mName m = [] \<or> List.member seen (mName m) \<or> \<not> List.member streamKinds (mStream m) \<or> \<not> List.member balanceKinds (bKind (mBalance m))
        then Some BadMethod
      else if bKind (mBalance m) = ''sticky'' \<and> \<not> stickyKeyOk (mBalance m) then Some BadStickyKey
      else checkMethods (mName m # seen) ms)"

fun checkServices :: "user option \<Rightarrow> string list \<Rightarrow> service list \<Rightarrow> registerError option" where
  "checkServices u seen [] = None"
| "checkServices u seen (sv # svs) =
     (if \<not> validServiceName (sName sv) \<or> hasPrefix (sName sv) reservedPrefix \<or> List.member seen (sName sv) \<or> \<not> allowsRegistration u (sName sv)
        then Some BadService
      else (case checkMethods [] (sMethods sv) of
          Some e \<Rightarrow> Some e
        | None \<Rightarrow> checkServices u (sName sv # seen) svs))"

fun checkCompatible :: "router \<Rightarrow> service list \<Rightarrow> registerError option" where
  "checkCompatible s [] = None"
| "checkCompatible s (sv # svs) =
     (if (case sContract sv of None \<Rightarrow> False | Some c \<Rightarrow> \<not> jsonValid c) then Some InvalidContract
      else (case map_of (rServices s) (sName sv) of
          None \<Rightarrow> checkCompatible s svs
        | Some pl \<Rightarrow>
          if plTargeted pl \<noteq> sTargeted sv then Some TargetedDiffers
          else (case find (\<lambda>m. case map_of (plMethods pl) (mName m) of
                None \<Rightarrow> False
              | Some x \<Rightarrow> mStream x \<noteq> mStream m \<or> mBalance x \<noteq> mBalance m) (sMethods sv) of
              Some m \<Rightarrow> Some (MethodDiffers (mName m))
            | None \<Rightarrow> checkCompatible s svs)))"

definition joinPool :: "addr \<Rightarrow> service \<Rightarrow> router \<Rightarrow> router" where
  "joinPool p sv s =
     (let pl0 = (case map_of (rServices s) (sName sv) of
            Some pl \<Rightarrow> pl
          | None \<Rightarrow> \<lparr>plTargeted = sTargeted sv, plMethods = [], plContract = None, plContractMethods = 0, plInstances = [], plCursors = []\<rparr>);
          pl1 = pl0\<lparr>plMethods := putMethods (sMethods sv) (plMethods pl0)\<rparr>;
          pl2 = (if sContract sv \<noteq> None \<and> (plContract pl1 = None \<or> length (sMethods sv) > plContractMethods pl1)
                 then pl1\<lparr>plContract := sContract sv, plContractMethods := length (sMethods sv)\<rparr> else pl1);
          pl3 = pl2\<lparr>plInstances := sort_key (\<lambda>q. pInstanceID (rPeerObj s q)) (plInstances pl2 @ [p])\<rparr> in
      s\<lparr>rServices := AList.update (sName sv) pl3 (rServices s)\<rparr>)"

definition registerAck :: "string \<Rightarrow> frame" where
  "registerAck iid = zeroFrame\<lparr>fKind := ''server.register.ack'', fInstanceID := iid\<rparr>"

definition register :: "addr \<Rightarrow> frame \<Rightarrow> router \<Rightarrow> registerError + router" where
  "register p f s =
     (let svs = (case fServices f of Some x \<Rightarrow> x | None \<Rightarrow> []) in
      case checkServices (pUser (rPeerObj s p)) [] svs of
        Some e \<Rightarrow> Inl e
      | None \<Rightarrow>
        if map_of (rInstances s) (fInstanceID f) \<noteq> None then Inl DuplicateInstance
        else (case checkCompatible s svs of
            Some e \<Rightarrow> Inl e
          | None \<Rightarrow>
            (let s1 = updPeer p (\<lambda>x. x\<lparr>pInstanceID := fInstanceID f, pServices := svs, pMaxInflight := fMaxInflight f\<rparr>) s;
                 s2 = s1\<lparr>rInstances := AList.update (fInstanceID f) p (rInstances s1)\<rparr>;
                 s3 = sendTo p (registerAck (fInstanceID f)) s2 in
             Inr (fold (joinPool p) svs s3))))"

text \<open>The server half of the handshake: \<open>h\<close> is the hello, \<open>f\<close> the second frame.\<close>

definition registration :: "addr \<Rightarrow> frame \<Rightarrow> frame \<Rightarrow> router \<Rightarrow> router \<times> bool" where
  "registration p h f s =
     (if fKind f \<noteq> ''server.register'' \<or> fInstanceID h = [] \<or> fInstanceID h \<noteq> fInstanceID f then (s, False)
      else (case register p f s of Inl _ \<Rightarrow> (s, False) | Inr s' \<Rightarrow> (s', True)))"

definition leavePool :: "addr \<Rightarrow> service \<Rightarrow> router \<Rightarrow> router" where
  "leavePool p sv s = (case map_of (rServices s) (sName sv) of
      None \<Rightarrow> s
    | Some pl \<Rightarrow>
      (let pl' = pl\<lparr>plInstances := filter (\<lambda>q. q \<noteq> p) (plInstances pl)\<rparr> in
       if plInstances pl' = [] then s\<lparr>rServices := AList.delete (sName sv) (rServices s)\<rparr>
       else s\<lparr>rServices := AList.update (sName sv) (rebuildMethods (rPeerObj s) pl') (rServices s)\<rparr>))"

definition leavePools :: "addr \<Rightarrow> router \<Rightarrow> router" where
  "leavePools p s = fold (leavePool p) (pServices (rPeerObj s p)) s"

definition drain :: "addr \<Rightarrow> router \<Rightarrow> router" where
  "drain p s =
     (if pDraining (rPeerObj s p) \<or> map_of (rInstances s) (pInstanceID (rPeerObj s p)) \<noteq> Some p then s
      else leavePools p (updPeer p (\<lambda>x. x\<lparr>pDraining := True\<rparr>) s))"

section \<open>Forwarding\<close>

definition cancelFrame :: "string \<Rightarrow> string \<Rightarrow> frame" where
  "cancelFrame cid reason = zeroFrame\<lparr>fKind := ''call.cancel'', fCallID := cid, fReason := reason\<rparr>"

text \<open>The Router's own refusals of a \<^verbatim>\<open>call.open\<close>.\<close>

definition notPermitted :: "string \<Rightarrow> frame" where
  "notPermitted cid = callError cid ''permission_denied'' ''Call is not permitted'' False"

definition duplicateCall :: "string \<Rightarrow> frame" where
  "duplicateCall cid = callError cid ''protocol_error'' ''Duplicate call_id'' False"

definition shuttingDown :: "string \<Rightarrow> frame" where
  "shuttingDown cid = routerError cid ''unavailable'' ''Router is shutting down'' True ''router_draining'' []"

definition tooManyCalls :: "string \<Rightarrow> frame" where
  "tooManyCalls cid = routerError cid ''resource_exhausted'' ''Too many calls in flight on this connection'' True ''overloaded'' []"

definition atCapacity :: "string \<Rightarrow> frame" where
  "atCapacity cid = routerError cid ''resource_exhausted'' ''Router call capacity reached'' True ''overloaded'' []"

definition duplexKey :: "string \<Rightarrow> frame" where
  "duplexKey cid = routerError cid ''invalid_argument'' ''Duplex calls are never replayed and take no idempotency key'' False ''idempotency_key_on_duplex'' []"

definition refuse :: "time \<Rightarrow> addr \<Rightarrow> frame \<Rightarrow> frame \<Rightarrow> router \<Rightarrow> router" where
  "refuse now p f err s =
     sendTo p err (case fError err of Some x \<Rightarrow> refuseMetric now f (eCode x) s | None \<Rightarrow> s)"

definition maxRoutes :: nat where "maxRoutes = 65536"

definition keyed :: "frame \<Rightarrow> router \<Rightarrow> bool" where
  "keyed f s \<longleftrightarrow> fIdempotency f \<noteq> [] \<and> methodStream s (fService f) (fMethod f) = ''unary''"

text \<open>Opening the route on the chosen instance \<open>i\<close>; \<open>useKey\<close> says that the call carries a usable
  idempotency key.\<close>

definition newRoute :: "time \<Rightarrow> addr \<Rightarrow> addr \<Rightarrow> frame \<Rightarrow> route" where
  "newRoute now p i f = \<lparr>rtId = fCallID f, rtService = fService f, rtMethod = fMethod f, rtStarted = now, rtClient = p,
     rtInstance = i, rtDeadline = 0, rtDedup = None, rtClientCredit = 0, rtServerCredit = 0\<rparr>"

definition addRoute :: "time \<Rightarrow> addr \<Rightarrow> addr \<Rightarrow> frame \<Rightarrow> router \<Rightarrow> router" where
  "addRoute now p i f s =
     (let a = rNext s;
          s1 = s\<lparr>rRouteObj := (rRouteObj s)(a := newRoute now p i f), rNext := a + 1, rRoutes := AList.update (fCallID f) a (rRoutes s)\<rparr>;
          s2 = updPeer i (\<lambda>x. x\<lparr>pInflight := pInflight x + 1\<rparr>) s1 in
      updPeer p (\<lambda>x. x\<lparr>pCalls := pCalls x + 1\<rparr>) s2)"

definition openRoute :: "env \<Rightarrow> addr \<Rightarrow> addr \<Rightarrow> bool \<Rightarrow> frame \<Rightarrow> router \<Rightarrow> router" where
  "openRoute e p i useKey f s =
     (let a = rNext s;
          s3 = addRoute (eNow e) p i f s;
          s4 = (case fTimeoutMS f of None \<Rightarrow> s3 | Some t \<Rightarrow> track (eNow e) a (wrap64 (t * millisecond)) s3);
          s5 = (if useKey then dedupInsert (dedupKey f) a s4 else s4) in
      sendTo i f s5)"

definition routeCall :: "env \<Rightarrow> addr \<Rightarrow> addr option \<Rightarrow> bool \<Rightarrow> frame \<Rightarrow> router \<Rightarrow> router" where
  "routeCall e p avoid useKey f s = (case selectInstance e f avoid s of
      (s1, Inl err) \<Rightarrow> refuse (eNow e) p f err s1
    | (s1, Inr i) \<Rightarrow> openRoute e p i useKey f s1)"

text \<open>A keyed unary call: replay a settled result, join the call in flight, or route it.\<close>

definition joinWaiter :: "addr \<Rightarrow> addr \<Rightarrow> string \<Rightarrow> router \<Rightarrow> router" where
  "joinWaiter en p cid s =
     updPeer p (\<lambda>x. x\<lparr>pCalls := pCalls x + 1\<rparr>) (updEntry en (\<lambda>x. x\<lparr>deWaiters := deWaiters x @ [(p, cid)]\<rparr>) s)"

definition keyedCall :: "env \<Rightarrow> addr \<Rightarrow> frame \<Rightarrow> router \<Rightarrow> router" where
  "keyedCall e p f s = (case dedupLookup (eNow e) (dedupKey f) s of
      (s1, None) \<Rightarrow> routeCall e p None True f s1
    | (s1, Some en) \<Rightarrow>
      (let entry = rDedupObj s1 en in
       case deResult entry of
         Some res \<Rightarrow> sendTo p (withCallID res (fCallID f)) s1
       | None \<Rightarrow>
         if deRoute entry \<noteq> None then joinWaiter en p (fCallID f) s1
         else routeCall e p (deLastInstance entry) True f (dedupRemove en s1)))"

definition openCall :: "env \<Rightarrow> addr \<Rightarrow> frame \<Rightarrow> router \<Rightarrow> router" where
  "openCall e p f s =
     (let u = pUser (rPeerObj s p); cid = fCallID f; no = (\<lambda>err. refuse (eNow e) p f err s) in
      if \<not> (fService f = AuthService \<and> fMethod f = ''whoami'') \<and> \<not> allowsCall u (fService f) (fMethod f) then no (notPermitted cid)
      else if map_of (rRoutes s) cid \<noteq> None then no (duplicateCall cid)
      else if rDraining s then no (shuttingDown cid)
      else if hasPrefix (fService f) reservedPrefix then management e p f s
      else if cMaxCallsPerConnection (rConfig s) > 0 \<and> pCalls (rPeerObj s p) \<ge> cMaxCallsPerConnection (rConfig s) then no (tooManyCalls cid)
      else if length (rRoutes s) \<ge> maxRoutes then no (atCapacity cid)
      else if fIdempotency f \<noteq> [] \<and> methodStream s (fService f) (fMethod f) = ''duplex'' then no (duplexKey cid)
      else if keyed f s then keyedCall e p f s
      else routeCall e p None False f s)"

definition violationFrame :: "string \<Rightarrow> string \<Rightarrow> bool \<Rightarrow> frame" where
  "violationFrame cid iid byInstance =
     (if byInstance then routerError cid ''protocol_error'' ''Service instance sent a stream item beyond granted credit'' False ''flow_control_violation'' iid
      else routerError cid ''protocol_error'' ''Client sent a stream item beyond granted credit'' False ''flow_control_violation'' [])"

text \<open>Failing the idempotency entry that a route owns (\<^verbatim>\<open>rt.dedup != nil && rt.dedup.route == rt\<close>).\<close>

definition failOwned :: "time \<Rightarrow> addr \<Rightarrow> frame \<Rightarrow> addr option \<Rightarrow> router \<Rightarrow> router" where
  "failOwned now a err lost s = (case rtDedup (rRouteObj s a) of
      Some en \<Rightarrow> if deRoute (rDedupObj s en) = Some a then dedupFail now en err lost s else s
    | None \<Rightarrow> s)"

definition flowViolation :: "env \<Rightarrow> addr \<Rightarrow> bool \<Rightarrow> router \<Rightarrow> router" where
  "flowViolation e a byInstance s =
     (let rt = rRouteObj s a;
          v = violationFrame (rtId rt) (pInstanceID (rPeerObj s (rtInstance rt))) byInstance;
          s1 = (if byInstance then observe (eNow e) (rtInstance rt) False s else s);
          s2 = failOwned (eNow e) a v None s1;
          s3 = sendTo (rtClient rt) v s2;
          s4 = sendTo (rtInstance rt) (cancelFrame (rtId rt) ''flow_control_violation'') s3 in
      endRoute (rtId rt) a s4)"

definition terminal :: "frame \<Rightarrow> bool" where
  "terminal f \<longleftrightarrow> fKind f = ''call.result'' \<or> fKind f = ''call.error''"

definition relayClient :: "env \<Rightarrow> addr \<Rightarrow> frame \<Rightarrow> router \<Rightarrow> router" where
  "relayClient e a f s = (case credit f (rRouteObj s a) of
      (_, False) \<Rightarrow> flowViolation e a False s
    | (rt, True) \<Rightarrow>
      (let s1 = sendTo (rtInstance rt) f (updRoute a (\<lambda>_. rt) s) in
       if fKind f = ''call.cancel'' then endRoute (fCallID f) a (finishRoute (eNow e) a ''cancelled'' s1) else s1))"

definition relayServer :: "env \<Rightarrow> addr \<Rightarrow> addr \<Rightarrow> frame \<Rightarrow> router \<Rightarrow> router" where
  "relayServer e p a f s = (case credit f (rRouteObj s a) of
      (_, False) \<Rightarrow> flowViolation e a True s
    | (rt, True) \<Rightarrow>
      (let s1 = sendTo (rtClient rt) f (updRoute a (\<lambda>_. rt) s) in
       if terminal f then
         (let s2 = observe (eNow e) p (\<not> instanceFailed f) s1;
              s3 = (case rtDedup rt of Some en \<Rightarrow> dedupSettle (eNow e) en f s2 | None \<Rightarrow> s2);
              code = (case fError f of Some x \<Rightarrow> eCode x | None \<Rightarrow> ''ok'') in
          endRoute (fCallID f) a (finishRoute (eNow e) a code s3))
       else s1))"

definition forward :: "env \<Rightarrow> addr \<Rightarrow> frame \<Rightarrow> router \<Rightarrow> router" where
  "forward e p f s =
     (let x = rPeerObj s p in
      if pCancelled x \<or> \<not> validUser (eNow e) (rAuth s) (pUser x) then cancelPeer p s
      else if fKind f = ''call.open'' then openCall e p f s
      else (case map_of (rRoutes s) (fCallID f) of
          None \<Rightarrow> s
        | Some a \<Rightarrow>
          if pRole x = ''client'' \<and> rtClient (rRouteObj s a) = p then relayClient e a f s
          else if pRole x = ''server'' \<and> rtInstance (rRouteObj s a) = p then relayServer e p a f s
          else s))"

definition invalidFrame :: "frame \<Rightarrow> frame" where
  "invalidFrame f = callError (fCallID f) ''protocol_error'' (''Invalid '' @ fKind f @ '' frame'') False"

text \<open>The body of the read loop of \<^verbatim>\<open>handle\<close> for one message; \<open>False\<close> ends the connection.\<close>

definition handleMessage :: "env \<Rightarrow> addr \<Rightarrow> string \<Rightarrow> router \<Rightarrow> router \<times> bool" where
  "handleMessage e p data s = (case readFrame data of
      (f, Some _) \<Rightarrow>
        if fCallID f \<noteq> [] \<and> pRole (rPeerObj s p) = ''client'' \<and> fKind f \<noteq> []
        then (sendTo p (invalidFrame f) s, True) else (s, False)
    | (f, None) \<Rightarrow>
        if fKind f = ''ping'' then (sendTo p (zeroFrame\<lparr>fKind := ''pong'', fNonce := fNonce f\<rparr>) s, True)
        else if fKind f = ''pong'' then (s, True)
        else if fKind f = ''server.drain'' then
          (if pRole (rPeerObj s p) \<noteq> ''server'' then (s, False)
           else (sendTo p (zeroFrame\<lparr>fKind := ''server.drain.ack'', fInstanceID := pInstanceID (rPeerObj s p)\<rparr>) (drain p s), True))
        else if \<not> allowedFrame (pRole (rPeerObj s p)) f then (s, False)
        else (forward e p f s, True))"

section \<open>Ends\<close>

definition lostFrame :: "string \<Rightarrow> string \<Rightarrow> frame" where
  "lostFrame cid iid = routerError cid ''unavailable'' ''Service instance disconnected'' True ''instance_lost'' iid"

definition removeRoute :: "env \<Rightarrow> addr \<Rightarrow> string \<times> addr \<Rightarrow> router \<Rightarrow> router" where
  "removeRoute e p = (\<lambda>(cid, a) s.
     (let rt = rRouteObj s a in
      if rtClient rt = p then
        sendTo (rtInstance rt) (cancelFrame cid ''client_disconnected'')
          (endRoute cid a (finishRoute (eNow e) a ''cancelled'' s))
      else if rtInstance rt = p then
        (let lost = lostFrame cid (pInstanceID (rPeerObj s p));
             s1 = (case rtDedup rt of
                 Some en \<Rightarrow> if deRoute (rDedupObj s en) = Some a
                   then updRoute a (\<lambda>x. x\<lparr>rtDedup := None\<rparr>) (dedupFail (eNow e) en lost (Some p) s) else s
               | None \<Rightarrow> s) in
         sendTo (rtClient rt) lost (endRoute cid a (finishRoute (eNow e) a ''unavailable'' s1)))
      else s))"

definition remove :: "env \<Rightarrow> addr \<Rightarrow> router \<Rightarrow> router" where
  "remove e p s =
     (let s1 = s\<lparr>rPeers := removeAll p (rPeers s)\<rparr>;
          s2 = (if rClosed s1 \<and> rPeers s1 = [] then s1\<lparr>rPeersGone := True\<rparr> else s1);
          s3 = (if map_of (rInstances s2) (pInstanceID (rPeerObj s2 p)) = Some p
                then leavePools p (s2\<lparr>rInstances := AList.delete (pInstanceID (rPeerObj s2 p)) (rInstances s2)\<rparr>) else s2) in
      fold (removeRoute e p) (rRoutes s3) s3)"

text \<open>The deferred end of \<^verbatim>\<open>handle\<close>: cancel, close the queue, remove.\<close>

definition disconnect :: "env \<Rightarrow> addr \<Rightarrow> router \<Rightarrow> router" where
  "disconnect e p s = remove e p (updPeer p (\<lambda>x. x\<lparr>pCancelled := True, pOut := closeOutbox (pOut x)\<rparr>) s)"

text \<open>One turn of the expiry loop, and the loop; the length of the heap is enough fuel because every
  turn pops one route.\<close>

definition expireOne :: "env \<Rightarrow> router \<Rightarrow> router" where
  "expireOne e s = (case heapPop (deadlines s) (rDeadlines s) of (h, a) \<Rightarrow>
     (let s0 = s\<lparr>rDeadlines := h\<rparr>; rt = rRouteObj s0 a; cid = rtId rt in
      if map_of (rRoutes s0) cid \<noteq> Some a then s0
      else
        (let s1 = observe (eNow e) (rtInstance rt) False s0;
             s2 = finishRoute (eNow e) a ''deadline_exceeded'' s1;
             s3 = failOwned (eNow e) a (deadlineError cid) None s2;
             s4 = sendTo (rtClient rt) (deadlineError cid) s3;
             s5 = sendTo (rtInstance rt) (cancelFrame cid ''deadline_exceeded'') s4 in
         endRoute cid a s5)))"

fun expireLoop :: "nat \<Rightarrow> env \<Rightarrow> router \<Rightarrow> router" where
  "expireLoop 0 e s = s"
| "expireLoop (Suc n) e s =
     (if hList (rDeadlines s) \<noteq> [] \<and> deadlines s (hList (rDeadlines s) ! 0) \<le> eNow e then expireLoop n e (expireOne e s) else s)"

definition expire :: "env \<Rightarrow> router \<Rightarrow> router" where
  "expire e s = expireLoop (length (hList (rDeadlines s))) e s"

definition startDraining :: "router \<Rightarrow> router" where
  "startDraining s = (if rDraining s then s else fold wakePeer (rPeers s) (s\<lparr>rDraining := True\<rparr>))"

text \<open>The locked part of \<^verbatim>\<open>Shutdown\<close>.\<close>

definition shutdown :: "router \<Rightarrow> router" where
  "shutdown s = (let s1 = startDraining s in if rRoutes s1 = [] then markDrained s1 else s1)"

definition goingAway :: "addr \<Rightarrow> router \<Rightarrow> bool" where
  "goingAway p s \<longleftrightarrow> rDraining s \<and>
     (rClosed s \<or> (pCalls (rPeerObj s p) = 0 \<and> pInflight (rPeerObj s p) = 0)) \<and> outboxEmpty (pOut (rPeerObj s p))"

definition shutdownFrame :: "string \<Rightarrow> frame" where
  "shutdownFrame cid = routerError cid ''unavailable'' ''Router shut down'' True ''router_shutdown'' []"

definition closeRoute :: "env \<Rightarrow> string \<times> addr \<Rightarrow> router \<Rightarrow> router" where
  "closeRoute e = (\<lambda>(cid, a) s.
     (let rt = rRouteObj s a;
          s1 = failOwned (eNow e) a (shutdownFrame cid) None s;
          s2 = finishRoute (eNow e) a ''unavailable'' s1;
          s3 = sendTo (rtClient rt) (shutdownFrame cid) s2;
          s4 = sendTo (rtInstance rt) (cancelFrame cid ''router_shutdown'') s3 in
      endRoute cid a s4))"

text \<open>The locked part of \<^verbatim>\<open>Close\<close>.\<close>

definition closeRouter :: "env \<Rightarrow> router \<Rightarrow> router" where
  "closeRouter e s =
     (let s1 = (startDraining s)\<lparr>rClosed := True\<rparr>;
          s2 = markDrained (fold (closeRoute e) (rRoutes s1) s1) in
      if rPeers s2 = [] then s2\<lparr>rPeersGone := True\<rparr> else s2)"

end
