(* ===== verification/Router_Inv.thy ===== *)
theory Router_Inv
  imports Router_Core
begin

text \<open>
  The Router's books: what every operation does to the fields that count calls, and the invariant
  that the counters are exact, the limits are kept, the deadline heap and the idempotency table agree
  with the routes.  The first part gives, per primitive, its effect on every field it can touch;
  \<open>simp\<close> composes them.
\<close>

section \<open>Effects of the primitives\<close>

lemma updPeer_fields [simp]:
  "rConfig (updPeer p g s) = rConfig s" "rAuth (updPeer p g s) = rAuth s" "rClosed (updPeer p g s) = rClosed s"
  "rDraining (updPeer p g s) = rDraining s" "rDrained (updPeer p g s) = rDrained s" "rPeersGone (updPeer p g s) = rPeersGone s"
  "rPeers (updPeer p g s) = rPeers s" "rInstances (updPeer p g s) = rInstances s" "rServices (updPeer p g s) = rServices s"
  "rRoutes (updPeer p g s) = rRoutes s" "rRouteObj (updPeer p g s) = rRouteObj s" "rDeadlines (updPeer p g s) = rDeadlines s"
  "rDedup (updPeer p g s) = rDedup s" "rDedupObj (updPeer p g s) = rDedupObj s" "rDedupOrder (updPeer p g s) = rDedupOrder s"
  "rMetrics (updPeer p g s) = rMetrics s" "rNext (updPeer p g s) = rNext s"
  "rPeerObj (updPeer p g s) q = (if q = p then g (rPeerObj s p) else rPeerObj s q)"
  by (simp_all add: updPeer_def)

lemma updRoute_fields [simp]:
  "rConfig (updRoute a g s) = rConfig s" "rAuth (updRoute a g s) = rAuth s" "rClosed (updRoute a g s) = rClosed s"
  "rDraining (updRoute a g s) = rDraining s" "rDrained (updRoute a g s) = rDrained s" "rPeersGone (updRoute a g s) = rPeersGone s"
  "rPeers (updRoute a g s) = rPeers s" "rInstances (updRoute a g s) = rInstances s" "rServices (updRoute a g s) = rServices s"
  "rRoutes (updRoute a g s) = rRoutes s" "rPeerObj (updRoute a g s) = rPeerObj s" "rDeadlines (updRoute a g s) = rDeadlines s"
  "rDedup (updRoute a g s) = rDedup s" "rDedupObj (updRoute a g s) = rDedupObj s" "rDedupOrder (updRoute a g s) = rDedupOrder s"
  "rMetrics (updRoute a g s) = rMetrics s" "rNext (updRoute a g s) = rNext s"
  "rRouteObj (updRoute a g s) b = (if b = a then g (rRouteObj s a) else rRouteObj s b)"
  by (simp_all add: updRoute_def)

lemma updEntry_fields [simp]:
  "rConfig (updEntry a g s) = rConfig s" "rAuth (updEntry a g s) = rAuth s" "rClosed (updEntry a g s) = rClosed s"
  "rDraining (updEntry a g s) = rDraining s" "rDrained (updEntry a g s) = rDrained s" "rPeersGone (updEntry a g s) = rPeersGone s"
  "rPeers (updEntry a g s) = rPeers s" "rInstances (updEntry a g s) = rInstances s" "rServices (updEntry a g s) = rServices s"
  "rRoutes (updEntry a g s) = rRoutes s" "rPeerObj (updEntry a g s) = rPeerObj s" "rDeadlines (updEntry a g s) = rDeadlines s"
  "rDedup (updEntry a g s) = rDedup s" "rRouteObj (updEntry a g s) = rRouteObj s" "rDedupOrder (updEntry a g s) = rDedupOrder s"
  "rMetrics (updEntry a g s) = rMetrics s" "rNext (updEntry a g s) = rNext s"
  "rDedupObj (updEntry a g s) b = (if b = a then g (rDedupObj s a) else rDedupObj s b)"
  by (simp_all add: updEntry_def)

text \<open>The ledger part of a peer: everything but its queue, its breaker and its context.\<close>

definition ledger :: "peer \<Rightarrow> int \<times> int \<times> int \<times> string \<times> string \<times> service list \<times> user option \<times> bool" where
  "ledger x = (pInflight x, pCalls x, pMaxInflight x, pInstanceID x, pRole x, pServices x, pUser x, pDraining x)"

lemma ledgerD:
  assumes "ledger x = ledger y"
  shows "pInflight x = pInflight y" "pCalls x = pCalls y" "pMaxInflight x = pMaxInflight y" "pInstanceID x = pInstanceID y"
    "pRole x = pRole y" "pServices x = pServices y" "pUser x = pUser y" "pDraining x = pDraining y"
  using assms by (simp_all add: ledger_def)

text \<open>A quiet operation leaves the ledgers, routes, table, heap, pools and registrations alone: it can only
  queue frames, cancel contexts, move breakers and count metrics.\<close>

definition quiet :: "router \<Rightarrow> router \<Rightarrow> bool" where
  "quiet s s' \<longleftrightarrow> rConfig s' = rConfig s \<and> rClosed s' = rClosed s \<and> rDraining s' = rDraining s \<and> rPeers s' = rPeers s \<and>
     rInstances s' = rInstances s \<and> rServices s' = rServices s \<and> rRoutes s' = rRoutes s \<and> rRouteObj s' = rRouteObj s \<and>
     rDeadlines s' = rDeadlines s \<and> rDedup s' = rDedup s \<and> rDedupObj s' = rDedupObj s \<and> rDedupOrder s' = rDedupOrder s \<and>
     rNext s' = rNext s \<and> (\<forall>p. ledger (rPeerObj s' p) = ledger (rPeerObj s p))"

lemma quietD:
  assumes "quiet s s'"
  shows "rConfig s' = rConfig s" "rClosed s' = rClosed s" "rDraining s' = rDraining s" "rPeers s' = rPeers s"
    "rInstances s' = rInstances s" "rServices s' = rServices s" "rRoutes s' = rRoutes s" "rRouteObj s' = rRouteObj s"
    "rDeadlines s' = rDeadlines s" "rDedup s' = rDedup s" "rDedupObj s' = rDedupObj s" "rDedupOrder s' = rDedupOrder s"
    "rNext s' = rNext s" "ledger (rPeerObj s' p) = ledger (rPeerObj s p)"
  using assms by (simp_all add: quiet_def)

lemma quiet_refl [simp]: "quiet s s" by (simp add: quiet_def)

lemma quiet_trans: "quiet s s1 \<Longrightarrow> quiet s1 s2 \<Longrightarrow> quiet s s2"
  by (simp add: quiet_def)

lemma quiet_updPeer: "(\<And>x. ledger (g x) = ledger x) \<Longrightarrow> quiet s (updPeer p g s)"
  by (simp add: quiet_def)

lemma quiet_metrics: "quiet s (s\<lparr>rMetrics := m\<rparr>)" by (simp add: quiet_def)

lemma quiet_auth: "quiet s (s\<lparr>rAuth := m\<rparr>)" by (simp add: quiet_def)

lemma quiet_cancelPeer [intro]: "quiet s (cancelPeer p s)"
  unfolding cancelPeer_def by (rule quiet_updPeer) (simp add: ledger_def)

lemma quiet_wakePeer [intro]: "quiet s (wakePeer p s)"
  unfolding wakePeer_def by (rule quiet_updPeer) (simp add: ledger_def)

lemma quiet_observe [intro]: "quiet s (observe now p ok s)"
  unfolding observe_def by (rule quiet_updPeer) (simp add: ledger_def)

lemma quiet_sendTo [intro]: "quiet s (sendTo p f s)"
proof (cases "push f (pOut (rPeerObj s p))")
  case (Pair q ok)
  show ?thesis
  proof (cases ok)
    case True
    have "quiet s (updPeer p (\<lambda>x. x\<lparr>pOut := q\<rparr>) s)" by (rule quiet_updPeer) (simp add: ledger_def)
    then show ?thesis using Pair True by (simp add: sendTo_def)
  next
    case False
    then show ?thesis using Pair quiet_trans [OF quiet_metrics quiet_cancelPeer] by (simp add: sendTo_def)
  qed
qed

lemma quiet_finishRoute [intro]: "quiet s (finishRoute now a code s)"
  by (simp add: finishRoute_def Let_def quiet_metrics)

lemma quiet_refuse [intro]: "quiet s (refuse now p f err s)"
  unfolding refuse_def by (rule quiet_trans [OF _ quiet_sendTo])
    (simp add: refuseMetric_def Let_def quiet_metrics split: option.split)

lemma quiet_fold: "(\<And>x s. quiet s (g x s)) \<Longrightarrow> quiet s (fold g xs s)"
  by (induction xs arbitrary: s) (auto intro: quiet_trans)

lemma quiet_revokePeers [intro]: "quiet s (revokePeers tid s)"
  unfolding revokePeers_def by (rule quiet_fold) (auto split: option.splits)

lemma quiet_authAnswer: "authAnswer e u a f s = (s', r) \<Longrightarrow> quiet s s'"
  unfolding authAnswer_def
  by (auto simp: Let_def quiet_auth split: if_splits option.splits prod.splits sum.splits issueError.splits
      intro: quiet_trans [OF quiet_auth quiet_revokePeers])

lemma quiet_management [intro]: "quiet s (management e p f s)"
  unfolding management_def
  by (auto split: option.splits prod.splits intro: quiet_trans [OF _ quiet_sendTo] dest: quiet_authAnswer)

section \<open>Effects of the operations that end calls\<close>

lemma deadlines_obj: "rRouteObj s' = rRouteObj s \<Longrightarrow> deadlines s' = deadlines s"
  by (rule ext) (simp add: deadlines_def)

lemma deadlines_updPeer [simp]: "deadlines (updPeer p g s) = deadlines s"
  by (rule deadlines_obj) (simp add: updPeer_def)

lemma callEnded_fields [simp]:
  "rConfig (callEnded c s) = rConfig s" "rClosed (callEnded c s) = rClosed s" "rDraining (callEnded c s) = rDraining s"
  "rPeers (callEnded c s) = rPeers s" "rInstances (callEnded c s) = rInstances s" "rServices (callEnded c s) = rServices s"
  "rRoutes (callEnded c s) = rRoutes s" "rRouteObj (callEnded c s) = rRouteObj s" "rDeadlines (callEnded c s) = rDeadlines s"
  "rDedup (callEnded c s) = rDedup s" "rDedupObj (callEnded c s) = rDedupObj s" "rDedupOrder (callEnded c s) = rDedupOrder s"
  "rNext (callEnded c s) = rNext s"
  "pInflight (rPeerObj (callEnded c s) q) = pInflight (rPeerObj s q)"
  "pCalls (rPeerObj (callEnded c s) q) = pCalls (rPeerObj s q) - (if q = c then 1 else 0)"
  "pMaxInflight (rPeerObj (callEnded c s) q) = pMaxInflight (rPeerObj s q)"
  "pInstanceID (rPeerObj (callEnded c s) q) = pInstanceID (rPeerObj s q)"
  "pServices (rPeerObj (callEnded c s) q) = pServices (rPeerObj s q)"
  "pDraining (rPeerObj (callEnded c s) q) = pDraining (rPeerObj s q)"
  "pUser (rPeerObj (callEnded c s) q) = pUser (rPeerObj s q)"
  "pRole (rPeerObj (callEnded c s) q) = pRole (rPeerObj s q)"
  by (simp_all add: callEnded_def wakePeer_def Let_def)

lemma quiet_fields [simp]:
  assumes "quiet s s'"
  shows "pInflight (rPeerObj s' q) = pInflight (rPeerObj s q)" "pCalls (rPeerObj s' q) = pCalls (rPeerObj s q)"
    "pMaxInflight (rPeerObj s' q) = pMaxInflight (rPeerObj s q)" "pInstanceID (rPeerObj s' q) = pInstanceID (rPeerObj s q)"
    "pServices (rPeerObj s' q) = pServices (rPeerObj s q)" "pDraining (rPeerObj s' q) = pDraining (rPeerObj s q)"
    "pUser (rPeerObj s' q) = pUser (rPeerObj s q)" "pRole (rPeerObj s' q) = pRole (rPeerObj s q)"
  using ledgerD [OF quietD(14) [OF assms]] by simp_all

declare quiet_fields [simp del]

lemmas sendTo_sel [simp] = quietD(1-13) [OF quiet_sendTo] quiet_fields [OF quiet_sendTo]
lemmas observe_sel [simp] = quietD(1-13) [OF quiet_observe] quiet_fields [OF quiet_observe]
lemmas finishRoute_sel [simp] = quietD(1-13) [OF quiet_finishRoute] quiet_fields [OF quiet_finishRoute]
lemmas wakePeer_sel [simp] = quietD(1-13) [OF quiet_wakePeer] quiet_fields [OF quiet_wakePeer]
lemmas cancelPeer_sel [simp] = quietD(1-13) [OF quiet_cancelPeer] quiet_fields [OF quiet_cancelPeer]

lemma endRoute_fields:
  "rConfig (endRoute cid a s) = rConfig s" "rClosed (endRoute cid a s) = rClosed s" "rDraining (endRoute cid a s) = rDraining s"
  "rPeers (endRoute cid a s) = rPeers s" "rInstances (endRoute cid a s) = rInstances s" "rServices (endRoute cid a s) = rServices s"
  "rRoutes (endRoute cid a s) = AList.delete cid (rRoutes s)" "rRouteObj (endRoute cid a s) = rRouteObj s"
  "rDeadlines (endRoute cid a s) = untrackHeap (deadlines s) a (rDeadlines s)"
  "rDedup (endRoute cid a s) = rDedup s" "rDedupObj (endRoute cid a s) = rDedupObj s" "rDedupOrder (endRoute cid a s) = rDedupOrder s"
  "rNext (endRoute cid a s) = rNext s"
  "pInflight (rPeerObj (endRoute cid a s) q) = pInflight (rPeerObj s q) - (if q = rtInstance (rRouteObj s a) then 1 else 0)"
  "pCalls (rPeerObj (endRoute cid a s) q) = pCalls (rPeerObj s q) - (if q = rtClient (rRouteObj s a) then 1 else 0)"
  "pMaxInflight (rPeerObj (endRoute cid a s) q) = pMaxInflight (rPeerObj s q)"
  "pInstanceID (rPeerObj (endRoute cid a s) q) = pInstanceID (rPeerObj s q)"
  "pServices (rPeerObj (endRoute cid a s) q) = pServices (rPeerObj s q)"
  "pDraining (rPeerObj (endRoute cid a s) q) = pDraining (rPeerObj s q)"
  "pUser (rPeerObj (endRoute cid a s) q) = pUser (rPeerObj s q)"
  "pRole (rPeerObj (endRoute cid a s) q) = pRole (rPeerObj s q)"
  using deadlines_obj [of "s\<lparr>rRoutes := AList.delete cid (rRoutes s)\<rparr>" s]
  by (simp_all add: endRoute_def untrack_def markDrained_def Let_def)

lemma answerWaiters_fields:
  "rConfig (answerWaiters f ws s) = rConfig s \<and> rClosed (answerWaiters f ws s) = rClosed s \<and> rDraining (answerWaiters f ws s) = rDraining s \<and>
   rPeers (answerWaiters f ws s) = rPeers s \<and> rInstances (answerWaiters f ws s) = rInstances s \<and> rServices (answerWaiters f ws s) = rServices s \<and>
   rRoutes (answerWaiters f ws s) = rRoutes s \<and> rRouteObj (answerWaiters f ws s) = rRouteObj s \<and> rDeadlines (answerWaiters f ws s) = rDeadlines s \<and>
   rDedup (answerWaiters f ws s) = rDedup s \<and> rDedupObj (answerWaiters f ws s) = rDedupObj s \<and> rDedupOrder (answerWaiters f ws s) = rDedupOrder s \<and>
   rNext (answerWaiters f ws s) = rNext s \<and>
   (\<forall>q. pInflight (rPeerObj (answerWaiters f ws s) q) = pInflight (rPeerObj s q) \<and>
     pCalls (rPeerObj (answerWaiters f ws s) q) = pCalls (rPeerObj s q) - count_where (\<lambda>(c, cid). c = q) ws \<and>
     pMaxInflight (rPeerObj (answerWaiters f ws s) q) = pMaxInflight (rPeerObj s q) \<and>
     pInstanceID (rPeerObj (answerWaiters f ws s) q) = pInstanceID (rPeerObj s q) \<and>
     pServices (rPeerObj (answerWaiters f ws s) q) = pServices (rPeerObj s q) \<and>
     pDraining (rPeerObj (answerWaiters f ws s) q) = pDraining (rPeerObj s q) \<and>
     pUser (rPeerObj (answerWaiters f ws s) q) = pUser (rPeerObj s q) \<and>
     pRole (rPeerObj (answerWaiters f ws s) q) = pRole (rPeerObj s q))"
proof (induction f ws s rule: answerWaiters.induct)
  case (2 f c cid ws s)
  then show ?case by simp
qed simp

text \<open>Settling and failing an entry change the table in the same way as far as the books are concerned:
  the entry is no longer in flight and its waiters are released.\<close>

definition released :: "addr \<Rightarrow> router \<Rightarrow> router \<Rightarrow> bool" where
  "released en s s' \<longleftrightarrow> rConfig s' = rConfig s \<and> rClosed s' = rClosed s \<and> rDraining s' = rDraining s \<and>
   rPeers s' = rPeers s \<and> rInstances s' = rInstances s \<and> rServices s' = rServices s \<and>
   rRoutes s' = rRoutes s \<and> rRouteObj s' = rRouteObj s \<and> rDeadlines s' = rDeadlines s \<and>
   rDedup s' = rDedup s \<and> rDedupOrder s' = rDedupOrder s \<and> rNext s' = rNext s \<and>
   (\<forall>b. b \<noteq> en \<longrightarrow> rDedupObj s' b = rDedupObj s b) \<and>
   deKey (rDedupObj s' en) = deKey (rDedupObj s en) \<and> deListed (rDedupObj s' en) = deListed (rDedupObj s en) \<and>
   deRoute (rDedupObj s' en) = None \<and> deWaiters (rDedupObj s' en) = [] \<and>
   (\<forall>q. pInflight (rPeerObj s' q) = pInflight (rPeerObj s q) \<and>
     pCalls (rPeerObj s' q) = pCalls (rPeerObj s q) - count_where (\<lambda>(c, cid). c = q) (deWaiters (rDedupObj s en)) \<and>
     pMaxInflight (rPeerObj s' q) = pMaxInflight (rPeerObj s q) \<and> pInstanceID (rPeerObj s' q) = pInstanceID (rPeerObj s q) \<and>
     pServices (rPeerObj s' q) = pServices (rPeerObj s q) \<and> pDraining (rPeerObj s' q) = pDraining (rPeerObj s q) \<and>
     pUser (rPeerObj s' q) = pUser (rPeerObj s q) \<and> pRole (rPeerObj s' q) = pRole (rPeerObj s q))"

lemma released_settle: "released en s (dedupSettle now en f s)"
  using answerWaiters_fields [of "f\<lparr>fraw := None\<rparr>" "deWaiters (rDedupObj s en)"
      "updEntry en (\<lambda>x. x\<lparr>deRoute := None, deResult := Some (f\<lparr>fraw := None\<rparr>), deExpires := now + dedupTTL\<rparr>) s"]
  by (simp add: released_def dedupSettle_def Let_def)

lemma released_fail: "released en s (dedupFail now en f lost s)"
  using answerWaiters_fields [of f "deWaiters (rDedupObj s en)" s]
  by (simp add: released_def dedupFail_def Let_def)

section \<open>Weighted sums over a map\<close>

definition weigh :: "('v \<Rightarrow> int) \<Rightarrow> ('k, 'v) gomap \<Rightarrow> int" where
  "weigh f m = (\<Sum>(k, v)\<leftarrow>m. f v)"

lemma weigh_Nil [simp]: "weigh f [] = 0" by (simp add: weigh_def)
lemma weigh_Cons [simp]: "weigh f (x # m) = f (snd x) + weigh f m" by (simp add: weigh_def case_prod_beta)
lemma weigh_append [simp]: "weigh f (m @ n) = weigh f m + weigh f n" by (simp add: weigh_def)

lemma weigh_cong: "(\<And>k v. (k, v) \<in> set m \<Longrightarrow> f v = g v) \<Longrightarrow> weigh f m = weigh g m"
  unfolding weigh_def by (rule arg_cong [where f = sum_list], rule map_cong) auto

lemma weigh_nonneg: "(\<And>v. 0 \<le> f v) \<Longrightarrow> 0 \<le> weigh f m"
  by (induction m) auto

lemma weigh_insert: "map_of m k = None \<Longrightarrow> weigh f (AList.update k v m) = weigh f m + f v"
  by (simp add: map_of_None_update)

lemma weigh_delete:
  "distinct (map_keys m) \<Longrightarrow> map_of m k = Some v \<Longrightarrow> weigh f (AList.delete k m) = weigh f m - f v"
proof (induction m)
  case (Cons x m)
  obtain k' v' where x: "x = (k', v')" by (cases x)
  show ?case
  proof (cases "k' = k")
    case True
    then have "map_of m k = None" using Cons.prems x by (simp add: map_of_eq_None_iff)
    then show ?thesis using True x Cons.prems by (simp add: delete_absent)
  next
    case False
    then show ?thesis using Cons x by simp
  qed
qed simp

lemma weigh_change:
  "distinct (map_keys m) \<Longrightarrow> (k, e) \<in> set m \<Longrightarrow> (\<And>k'. (k', e) \<in> set m \<Longrightarrow> k' = k) \<Longrightarrow> (\<And>v. v \<noteq> e \<Longrightarrow> g v = f v) \<Longrightarrow>
     weigh g m = weigh f m - f e + g e"
proof (induction m)
  case (Cons x m)
  show ?case
  proof (cases "x = (k, e)")
    case True
    have "v \<noteq> e" if "(k', v) \<in> set m" for k' v
      using that True Cons.prems(1) Cons.prems(3) [of k'] by force
    then have "weigh g m = weigh f m" using Cons.prems(4) by (intro weigh_cong) blast
    then show ?thesis using True by simp
  next
    case False
    then have m: "(k, e) \<in> set m" using Cons.prems(2) by simp
    have "snd x \<noteq> e"
    proof
      assume "snd x = e"
      then have "fst x = k" using Cons.prems(3) [of "fst x"] by (cases x) auto
      then show False using \<open>snd x = e\<close> False by (cases x) auto
    qed
    then show ?thesis using Cons.IH [OF _ m] Cons.prems by simp
  qed
qed simp

section \<open>The invariant\<close>

definition routesOk :: "router \<Rightarrow> bool" where
  "routesOk s \<longleftrightarrow> distinct (map_keys (rRoutes s)) \<and>
     (\<forall>cid a. map_of (rRoutes s) cid = Some a \<longrightarrow> rtId (rRouteObj s a) = cid \<and> a < rNext s \<and>
        rtClient (rRouteObj s a) < rNext s \<and> rtInstance (rRouteObj s a) < rNext s \<and>
        pInstanceID (rPeerObj s (rtInstance (rRouteObj s a))) \<noteq> [])"

text \<open>The table agrees with the routes, except possibly for the routes in \<open>X\<close>, which are being ended.\<close>

definition tableOk :: "addr set \<Rightarrow> router \<Rightarrow> bool" where
  "tableOk X s \<longleftrightarrow> distinct (map_keys (rDedup s)) \<and> distinct (rDedupOrder s) \<and>
     set (rDedupOrder s) = ran (map_of (rDedup s)) \<and>
     (\<forall>k en. map_of (rDedup s) k = Some en \<longrightarrow> deKey (rDedupObj s en) = k \<and> en < rNext s \<and> deListed (rDedupObj s en) \<and>
        (deRoute (rDedupObj s en) = None \<longrightarrow> deWaiters (rDedupObj s en) = []) \<and>
        (\<forall>w \<in> set (deWaiters (rDedupObj s en)). fst w < rNext s)) \<and>
     (\<forall>cid a en. map_of (rRoutes s) cid = Some a \<longrightarrow> a \<notin> X \<longrightarrow> rtDedup (rRouteObj s a) = Some en \<longrightarrow>
        map_of (rDedup s) (deKey (rDedupObj s en)) = Some en \<and> deRoute (rDedupObj s en) = Some a)"

definition joined :: "router \<Rightarrow> addr \<Rightarrow> addr \<Rightarrow> int" where
  "joined s q en = count_where (\<lambda>(c, cid). c = q) (deWaiters (rDedupObj s en))"

definition routedTo :: "router \<Rightarrow> addr \<Rightarrow> int" where
  "routedTo s q = count_where (\<lambda>(cid, a). rtInstance (rRouteObj s a) = q) (rRoutes s)"

definition routedFrom :: "router \<Rightarrow> addr \<Rightarrow> int" where
  "routedFrom s q = count_where (\<lambda>(cid, a). rtClient (rRouteObj s a) = q) (rRoutes s)"

definition waiting :: "router \<Rightarrow> addr \<Rightarrow> int" where
  "waiting s q = weigh (joined s q) (rDedup s)"

definition countsOk :: "router \<Rightarrow> bool" where
  "countsOk s \<longleftrightarrow> (\<forall>q. pInflight (rPeerObj s q) = routedTo s q \<and> pCalls (rPeerObj s q) = routedFrom s q + waiting s q)"

definition heapOk :: "router \<Rightarrow> bool" where
  "heapOk s \<longleftrightarrow> heapInv (deadlines s) (rDeadlines s) \<and> set (hList (rDeadlines s)) \<subseteq> snd ` set (rRoutes s)"

definition poolsOk :: "router \<Rightarrow> bool" where
  "poolsOk s \<longleftrightarrow>
     (\<forall>iid p. map_of (rInstances s) iid = Some p \<longrightarrow> p < rNext s \<and> pInstanceID (rPeerObj s p) = iid \<and> iid \<noteq> []) \<and>
     (\<forall>svc pl. map_of (rServices s) svc = Some pl \<longrightarrow> distinct (plInstances pl) \<and> plInstances pl \<noteq> [] \<and>
        (\<forall>p \<in> set (plInstances pl). map_of (rInstances s) (pInstanceID (rPeerObj s p)) = Some p \<and> \<not> pDraining (rPeerObj s p) \<and>
           (\<exists>sv \<in> set (pServices (rPeerObj s p)). sName sv = svc))) \<and>
     (\<forall>p. pDraining (rPeerObj s p) \<longrightarrow> pInstanceID (rPeerObj s p) \<noteq> []) \<and>
     (\<forall>p \<in> set (rPeers s). p < rNext s)"

definition limitsOk :: "router \<Rightarrow> bool" where
  "limitsOk s \<longleftrightarrow> (\<forall>q. (pMaxInflight (rPeerObj s q) > 0 \<longrightarrow> pInflight (rPeerObj s q) \<le> pMaxInflight (rPeerObj s q)) \<and>
       (cMaxCallsPerConnection (rConfig s) > 0 \<longrightarrow> pCalls (rPeerObj s q) \<le> cMaxCallsPerConnection (rConfig s))) \<and>
     length (rRoutes s) \<le> maxRoutes"

definition invBut :: "addr set \<Rightarrow> router \<Rightarrow> bool" where
  "invBut X s \<longleftrightarrow> routesOk s \<and> tableOk X s \<and> countsOk s \<and> heapOk s \<and> poolsOk s \<and> limitsOk s"

abbreviation routerInv :: "router \<Rightarrow> bool" where
  "routerInv \<equiv> invBut {}"

lemma invButD:
  assumes "invBut X s"
  shows "routesOk s" "tableOk X s" "countsOk s" "heapOk s" "poolsOk s" "limitsOk s"
  using assms by (simp_all add: invBut_def)

lemma invBut_mono: "invBut X s \<Longrightarrow> X \<subseteq> Y \<Longrightarrow> invBut Y s"
  unfolding invBut_def tableOk_def by blast

lemma counts_same:
  assumes "rRoutes s' = rRoutes s" "rRouteObj s' = rRouteObj s" "rDedup s' = rDedup s" "rDedupObj s' = rDedupObj s"
  shows "routedTo s' = routedTo s" "routedFrom s' = routedFrom s" "waiting s' = waiting s"
proof -
  have "joined s' = joined s" by (intro ext) (simp add: joined_def assms)
  then show "routedTo s' = routedTo s" "routedFrom s' = routedFrom s" "waiting s' = waiting s"
    by (intro ext; simp add: routedTo_def routedFrom_def waiting_def assms)+
qed

lemma limits_less:
  assumes "limitsOk s" "rConfig s' = rConfig s" "\<And>q. pMaxInflight (rPeerObj s' q) = pMaxInflight (rPeerObj s q)"
    "\<And>q. pInflight (rPeerObj s' q) \<le> pInflight (rPeerObj s q)" "\<And>q. pCalls (rPeerObj s' q) \<le> pCalls (rPeerObj s q)"
    "length (rRoutes s') \<le> length (rRoutes s)"
  shows "limitsOk s'"
  using assms unfolding limitsOk_def by (metis order_trans)

text \<open>The invariant reads only these fields.\<close>

definition sameBooks :: "router \<Rightarrow> router \<Rightarrow> bool" where
  "sameBooks s s' \<longleftrightarrow> rConfig s' = rConfig s \<and> rPeers s' = rPeers s \<and> rInstances s' = rInstances s \<and> rServices s' = rServices s \<and>
     rRoutes s' = rRoutes s \<and> rRouteObj s' = rRouteObj s \<and> rDeadlines s' = rDeadlines s \<and> rDedup s' = rDedup s \<and>
     rDedupObj s' = rDedupObj s \<and> rDedupOrder s' = rDedupOrder s \<and> rNext s' = rNext s \<and>
     (\<forall>q. pInflight (rPeerObj s' q) = pInflight (rPeerObj s q) \<and> pCalls (rPeerObj s' q) = pCalls (rPeerObj s q) \<and>
        pMaxInflight (rPeerObj s' q) = pMaxInflight (rPeerObj s q) \<and> pInstanceID (rPeerObj s' q) = pInstanceID (rPeerObj s q) \<and>
        pServices (rPeerObj s' q) = pServices (rPeerObj s q) \<and> pDraining (rPeerObj s' q) = pDraining (rPeerObj s q))"

lemma sameBooksD:
  assumes "sameBooks s s'"
  shows "rConfig s' = rConfig s" "rPeers s' = rPeers s" "rInstances s' = rInstances s" "rServices s' = rServices s"
    "rRoutes s' = rRoutes s" "rRouteObj s' = rRouteObj s" "rDeadlines s' = rDeadlines s" "rDedup s' = rDedup s"
    "rDedupObj s' = rDedupObj s" "rDedupOrder s' = rDedupOrder s" "rNext s' = rNext s"
    "pInflight (rPeerObj s' q) = pInflight (rPeerObj s q)" "pCalls (rPeerObj s' q) = pCalls (rPeerObj s q)"
    "pMaxInflight (rPeerObj s' q) = pMaxInflight (rPeerObj s q)" "pInstanceID (rPeerObj s' q) = pInstanceID (rPeerObj s q)"
    "pServices (rPeerObj s' q) = pServices (rPeerObj s q)" "pDraining (rPeerObj s' q) = pDraining (rPeerObj s q)"
  using assms unfolding sameBooks_def by blast+

lemma quiet_sameBooks: "quiet s s' \<Longrightarrow> sameBooks s s'"
  by (simp add: sameBooks_def quietD quiet_fields)

lemma inv_sameBooks:
  assumes "invBut X s" "sameBooks s s'"
  shows "invBut X s'"
proof -
  note q = sameBooksD [OF assms(2)]
  note c = counts_same [OF q(5,6,8,9)]
  note i = invButD [OF assms(1)]
  show ?thesis unfolding invBut_def
  proof (intro conjI)
    show "routesOk s'" using i(1) unfolding routesOk_def q .
    show "tableOk X s'" using i(2) unfolding tableOk_def q .
    show "countsOk s'" using i(3) unfolding countsOk_def q c .
    show "heapOk s'" using i(4) unfolding heapOk_def q deadlines_obj [OF q(6)] .
    show "poolsOk s'" using i(5) unfolding poolsOk_def q .
    show "limitsOk s'" using i(6) unfolding limitsOk_def q .
  qed
qed

lemmas inv_quiet = inv_sameBooks [OF _ quiet_sameBooks]

lemma inv_new: "routerInv (newRouter c a)"
  using heapInv_empty by (simp add: invBut_def routesOk_def tableOk_def countsOk_def heapOk_def poolsOk_def limitsOk_def
      newRouter_def newPeer_def routedTo_def routedFrom_def waiting_def emptyHeap_def)

text \<open>Reading the invariant.\<close>

lemma route_facts:
  assumes "invBut X s" "map_of (rRoutes s) cid = Some a"
  shows "rtId (rRouteObj s a) = cid" "a < rNext s" "rtClient (rRouteObj s a) < rNext s" "rtInstance (rRouteObj s a) < rNext s"
    "pInstanceID (rPeerObj s (rtInstance (rRouteObj s a))) \<noteq> []"
  using invButD(1) [OF assms(1)] assms(2) unfolding routesOk_def by blast+

lemma routes_distinct: "invBut X s \<Longrightarrow> distinct (map_keys (rRoutes s))"
  using invButD(1) unfolding routesOk_def by blast

lemma entry_facts:
  assumes "invBut X s" "map_of (rDedup s) k = Some en"
  shows "deKey (rDedupObj s en) = k" "en < rNext s" "deListed (rDedupObj s en)"
    "deRoute (rDedupObj s en) = None \<Longrightarrow> deWaiters (rDedupObj s en) = []"
    "w \<in> set (deWaiters (rDedupObj s en)) \<Longrightarrow> fst w < rNext s"
  using invButD(2) [OF assms(1)] assms(2) unfolding tableOk_def by blast+

lemma owner_facts:
  assumes "invBut X s" "map_of (rRoutes s) cid = Some a" "a \<notin> X" "rtDedup (rRouteObj s a) = Some en"
  shows "map_of (rDedup s) (deKey (rDedupObj s en)) = Some en" "deRoute (rDedupObj s en) = Some a"
  using invButD(2) [OF assms(1)] assms(2-4) unfolding tableOk_def by blast+

lemma order_facts:
  assumes "invBut X s"
  shows "distinct (map_keys (rDedup s))" "distinct (rDedupOrder s)" "set (rDedupOrder s) = ran (map_of (rDedup s))"
  using invButD(2) [OF assms] unfolding tableOk_def by blast+

lemma route_unique:
  assumes "invBut X s" "map_of (rRoutes s) c1 = Some a" "map_of (rRoutes s) c2 = Some a"
  shows "c1 = c2"
  using route_facts(1) [OF assms(1,2)] route_facts(1) [OF assms(1,3)] by simp

section \<open>Ending a route\<close>

lemma counts_endRoute:
  assumes "invBut X s" "map_of (rRoutes s) cid = Some a"
  shows "routedTo (endRoute cid a s) q = routedTo s q - (if q = rtInstance (rRouteObj s a) then 1 else 0)"
    "routedFrom (endRoute cid a s) q = routedFrom s q - (if q = rtClient (rRouteObj s a) then 1 else 0)"
    "waiting (endRoute cid a s) q = waiting s q"
proof -
  note d = routes_distinct [OF assms(1)]
  show "routedTo (endRoute cid a s) q = routedTo s q - (if q = rtInstance (rRouteObj s a) then 1 else 0)"
    unfolding routedTo_def endRoute_fields count_where_delete [OF d assms(2)] by auto
  show "routedFrom (endRoute cid a s) q = routedFrom s q - (if q = rtClient (rRouteObj s a) then 1 else 0)"
    unfolding routedFrom_def endRoute_fields count_where_delete [OF d assms(2)] by auto
  have "joined (endRoute cid a s) = joined s" by (intro ext) (simp add: joined_def endRoute_fields)
  then show "waiting (endRoute cid a s) q = waiting s q" by (simp add: waiting_def endRoute_fields)
qed

lemma inv_endRoute:
  assumes "invBut X s" "map_of (rRoutes s) cid = Some a"
  shows "invBut (X - {a}) (endRoute cid a s)"
proof -
  let ?s = "endRoute cid a s"
  note i = invButD [OF assms(1)] and d = routes_distinct [OF assms(1)]
  have r: "map_of (rRoutes ?s) c = Some b \<longleftrightarrow> c \<noteq> cid \<and> map_of (rRoutes s) c = Some b" for c b
    by (simp add: endRoute_fields)
  have ne: "b \<noteq> a" if "map_of (rRoutes ?s) c = Some b" for c b
    using that r route_unique [OF assms(1) _ assms(2)] by blast
  show ?thesis unfolding invBut_def
  proof (intro conjI)
    show "routesOk ?s" using i(1) unfolding routesOk_def by (simp add: endRoute_fields)
    show "tableOk (X - {a}) ?s" using i(2) ne unfolding tableOk_def r unfolding endRoute_fields by blast
    show "countsOk ?s" using i(3) unfolding countsOk_def by (simp add: endRoute_fields(14,15) counts_endRoute [OF assms])
    show "poolsOk ?s" using i(5) unfolding poolsOk_def endRoute_fields .
    have "length (rRoutes ?s) \<le> length (rRoutes s)"
      using length_delete_key [OF d assms(2)] by (simp add: endRoute_fields)
    then show "limitsOk ?s" by (intro limits_less [OF i(6)]) (simp_all add: endRoute_fields)
    show "heapOk ?s"
    proof -
      have h: "heapInv (deadlines s) (rDeadlines s)" "set (hList (rDeadlines s)) \<subseteq> snd ` set (rRoutes s)"
        using i(4) by (auto simp: heapOk_def)
      note u = untrackHeap_spec [OF h(1), of a]
      have "b \<in> snd ` set (AList.delete cid (rRoutes s))" if b: "b \<in> snd ` set (rRoutes s)" "b \<noteq> a" for b
      proof -
        obtain c where "(c, b) \<in> set (rRoutes s)" using b(1) by auto
        then have "map_of (rRoutes s) c = Some b" using map_of_distinct_eq [OF d] by blast
        then have "map_of (AList.delete cid (rRoutes s)) c = Some b" using b(2) assms(2) by auto
        then show ?thesis using map_of_SomeD by force
      qed
      then have "set (hList (rDeadlines s)) - {a} \<subseteq> snd ` set (AList.delete cid (rRoutes s))"
        using h(2) by (simp add: subset_iff)
      then show ?thesis using u unfolding heapOk_def endRoute_fields deadlines_obj [OF endRoute_fields(8)] by simp
    qed
  qed
qed

end
