(* ===== verification/Router_Ops.thy ===== *)
theory Router_Ops
  imports Router_Inv
begin

text \<open>
  Every operation of the Router keeps its books: preservation of the invariant of the previous theory
  by calls, replays, relayed frames, violations, disconnections, deadlines, draining and closing.
\<close>

section \<open>Releasing an idempotency entry\<close>

lemma releasedD:
  assumes "released en s s'"
  shows "rConfig s' = rConfig s" "rClosed s' = rClosed s" "rDraining s' = rDraining s"
   "rPeers s' = rPeers s" "rInstances s' = rInstances s" "rServices s' = rServices s"
   "rRoutes s' = rRoutes s" "rRouteObj s' = rRouteObj s" "rDeadlines s' = rDeadlines s"
   "rDedup s' = rDedup s" "rDedupOrder s' = rDedupOrder s" "rNext s' = rNext s"
   "b \<noteq> en \<Longrightarrow> rDedupObj s' b = rDedupObj s b"
   "deKey (rDedupObj s' en) = deKey (rDedupObj s en)" "deListed (rDedupObj s' en) = deListed (rDedupObj s en)"
   "deRoute (rDedupObj s' en) = None" "deWaiters (rDedupObj s' en) = []"
   "pInflight (rPeerObj s' q) = pInflight (rPeerObj s q)"
   "pCalls (rPeerObj s' q) = pCalls (rPeerObj s q) - joined s q en"
   "pMaxInflight (rPeerObj s' q) = pMaxInflight (rPeerObj s q)" "pInstanceID (rPeerObj s' q) = pInstanceID (rPeerObj s q)"
   "pServices (rPeerObj s' q) = pServices (rPeerObj s q)" "pDraining (rPeerObj s' q) = pDraining (rPeerObj s q)"
   "pUser (rPeerObj s' q) = pUser (rPeerObj s q)" "pRole (rPeerObj s' q) = pRole (rPeerObj s q)"
  using assms unfolding released_def joined_def by blast+

lemma released_key: "released en s s' \<Longrightarrow> deKey (rDedupObj s' b) = deKey (rDedupObj s b)"
  using releasedD(13,14) by (cases "b = en") simp_all

lemma released_listed: "released en s s' \<Longrightarrow> deListed (rDedupObj s' b) = deListed (rDedupObj s b)"
  using releasedD(13,15) by (cases "b = en") simp_all

lemma waiting_released:
  assumes "invBut X s" "map_of (rDedup s) (deKey (rDedupObj s en)) = Some en" "released en s s'"
  shows "waiting s' q = waiting s q - joined s q en"
proof -
  note r = releasedD [OF assms(3)]
  have "weigh (joined s' q) (rDedup s) = weigh (joined s q) (rDedup s) - joined s q en + joined s' q en"
  proof (rule weigh_change [OF order_facts(1) [OF assms(1)]])
    show "(deKey (rDedupObj s en), en) \<in> set (rDedup s)" using assms(2) by (rule map_of_SomeD)
    show "k = deKey (rDedupObj s en)" if "(k, en) \<in> set (rDedup s)" for k
      using entry_facts(1) [OF assms(1)] that map_of_distinct_eq [OF order_facts(1) [OF assms(1)]] by blast
    show "joined s' q v = joined s q v" if "v \<noteq> en" for v using r(13) [OF that] by (simp add: joined_def)
  qed
  then show ?thesis using r(10,17) by (simp add: waiting_def joined_def)
qed

lemma joined_nonneg: "0 \<le> joined s q en" by (simp add: joined_def)

lemma tableOk_released:
  assumes "invBut X s" "map_of (rRoutes s) cid = Some a" "a \<notin> X" "rtDedup (rRouteObj s a) = Some en" "released en s s'"
  shows "tableOk (insert a X) s'"
proof -
  note r = releasedD [OF assms(5)] and t = invButD(2) [OF assms(1)]
  have other: "rDedupObj s' en' = rDedupObj s en'"
    if "map_of (rRoutes s) c = Some b" "b \<notin> insert a X" "rtDedup (rRouteObj s b) = Some en'" for c b en'
  proof -
    have "deRoute (rDedupObj s en') = Some b" using owner_facts(2) [OF assms(1)] that by blast
    moreover have "deRoute (rDedupObj s en) = Some a" using owner_facts(2) [OF assms(1-4)] .
    ultimately have "en' \<noteq> en" using that(2) by auto
    then show ?thesis by (rule r(13))
  qed
  have own: "map_of (rDedup s) (deKey (rDedupObj s en')) = Some en' \<and> deRoute (rDedupObj s' en') = Some b"
    if "map_of (rRoutes s) c = Some b" "b \<notin> insert a X" "rtDedup (rRouteObj s b) = Some en'" for c b en'
    using owner_facts [OF assms(1) that(1) _ that(3)] that(2) other [OF that] by simp
  have ent: "(deRoute (rDedupObj s' e) = None \<longrightarrow> deWaiters (rDedupObj s' e) = []) \<and> (\<forall>w \<in> set (deWaiters (rDedupObj s' e)). fst w < rNext s)"
    if "map_of (rDedup s) k = Some e" for k e
    using entry_facts(4,5) [OF assms(1) that] r(13) [of e] r(16,17) by (cases "e = en") simp_all
  show ?thesis
    using t ent own unfolding tableOk_def r(7,8,10,11,12) released_key [OF assms(5)] released_listed [OF assms(5)] by blast
qed

lemma inv_released:
  assumes "invBut X s" "map_of (rRoutes s) cid = Some a" "a \<notin> X" "rtDedup (rRouteObj s a) = Some en" "released en s s'"
  shows "invBut (insert a X) s'"
proof -
  note r = releasedD [OF assms(5)] and i = invButD [OF assms(1)]
  note w = waiting_released [OF assms(1) owner_facts(1) [OF assms(1-4)] assms(5)]
  have c: "routedTo s' = routedTo s" "routedFrom s' = routedFrom s"
    by (intro ext; simp add: routedTo_def routedFrom_def r(7,8))+
  show ?thesis unfolding invBut_def
  proof (intro conjI)
    show "routesOk s'" using i(1) unfolding routesOk_def r(7,8,12,21) .
    show "tableOk (insert a X) s'" by (rule tableOk_released [OF assms])
    show "countsOk s'" using i(3) unfolding countsOk_def c w r(18,19) by simp
    show "heapOk s'" using i(4) unfolding heapOk_def r(7,9) deadlines_obj [OF r(8)] .
    show "poolsOk s'" using i(5) unfolding poolsOk_def r(4,5,6,12,21,22,23) .
    show "limitsOk s'" by (rule limits_less [OF i(6)]) (simp_all add: r(1,7,18,19,20) joined_nonneg)
  qed
qed

lemma failOwned_cases:
  obtains "failOwned now a err lost s = s"
    | en where "rtDedup (rRouteObj s a) = Some en" "deRoute (rDedupObj s en) = Some a" "released en s (failOwned now a err lost s)"
  by (cases "rtDedup (rRouteObj s a)"; cases "deRoute (rDedupObj s (the (rtDedup (rRouteObj s a)))) = Some a")
    (auto simp: failOwned_def released_fail)

lemma failOwned_sel [simp]:
  "rRoutes (failOwned now a err lost s) = rRoutes s" "rRouteObj (failOwned now a err lost s) = rRouteObj s"
  by (cases rule: failOwned_cases [of now a err lost s]; simp add: releasedD(7,8))+

lemma inv_failOwned:
  assumes "invBut X s" "map_of (rRoutes s) cid = Some a" "a \<notin> X"
  shows "invBut (insert a X) (failOwned now a err lost s)"
proof (cases rule: failOwned_cases [of now a err lost s])
  case 1
  then show ?thesis using invBut_mono [OF assms(1)] by auto
next
  case (2 en)
  show ?thesis by (rule inv_released [OF assms 2(1) 2(3)])
qed

lemma tableOk_updRoute:
  assumes "tableOk X s" "rtDedup (g (rRouteObj s a)) = rtDedup (rRouteObj s a) \<or> a \<in> X"
  shows "tableOk X (updRoute a g s)"
proof -
  have d: "rtDedup (rRouteObj (updRoute a g s) b) = rtDedup (rRouteObj s b)" if "b \<notin> X" for b
    using assms(2) that by auto
  have "tableOk X (updRoute a g s) = tableOk X s"
    unfolding tableOk_def updRoute_fields(1-17) using d by (intro conj_cong refl all_cong1 imp_cong) simp_all
  then show ?thesis using assms(1) by simp
qed

lemma inv_updRoute:
  assumes "invBut X s"
    "rtId (g (rRouteObj s a)) = rtId (rRouteObj s a)" "rtClient (g (rRouteObj s a)) = rtClient (rRouteObj s a)"
    "rtInstance (g (rRouteObj s a)) = rtInstance (rRouteObj s a)" "rtDeadline (g (rRouteObj s a)) = rtDeadline (rRouteObj s a)"
    "rtDedup (g (rRouteObj s a)) = rtDedup (rRouteObj s a) \<or> a \<in> X"
  shows "invBut X (updRoute a g s)"
proof -
  let ?s = "updRoute a g s"
  note i = invButD [OF assms(1)]
  have o: "rtId (rRouteObj ?s b) = rtId (rRouteObj s b)" "rtClient (rRouteObj ?s b) = rtClient (rRouteObj s b)"
    "rtInstance (rRouteObj ?s b) = rtInstance (rRouteObj s b)" "rtDeadline (rRouteObj ?s b) = rtDeadline (rRouteObj s b)" for b
    using assms(2-5) by simp_all
  have "joined ?s = joined s" by (intro ext) (simp add: joined_def)
  then have c: "routedTo ?s = routedTo s" "routedFrom ?s = routedFrom s" "waiting ?s = waiting s"
    by (intro ext; simp only: routedTo_def routedFrom_def waiting_def o updRoute_fields(1-17))+
  show ?thesis unfolding invBut_def
  proof (intro conjI)
    show "routesOk ?s" using i(1) unfolding routesOk_def o updRoute_fields(1-17) .
    show "tableOk X ?s" using i(2) assms(6) by (rule tableOk_updRoute)
    show "countsOk ?s" using i(3) unfolding countsOk_def c updRoute_fields(1-17) .
    have "deadlines ?s = deadlines s" by (intro ext) (simp only: deadlines_def o)
    then show "heapOk ?s" using i(4) unfolding heapOk_def by simp
    show "poolsOk ?s" using i(5) unfolding poolsOk_def updRoute_fields(1-17) .
    show "limitsOk ?s" using i(6) unfolding limitsOk_def updRoute_fields(1-17) .
  qed
qed

section \<open>Adding a route\<close>

lemma heapInv_cong: "(\<And>b. b \<in> set (hList h) \<Longrightarrow> dl b = dl' b) \<Longrightarrow> heapInv dl h = heapInv dl' h"
  using ordN_cong [of "length (hList h)" "vals dl h" "vals dl' h"] by (simp add: heapInv_def vals_def)

lemma heap_elements:
  assumes "invBut X s" "b \<in> set (hList (rDeadlines s))"
  obtains cid where "map_of (rRoutes s) cid = Some b"
proof -
  have "b \<in> snd ` set (rRoutes s)" using invButD(4) [OF assms(1)] assms(2) by (auto simp: heapOk_def)
  then show thesis using that map_of_distinct_eq [OF routes_distinct [OF assms(1)]] by force
qed

lemma addRoute_fields [simp]:
  "rConfig (addRoute now p i f s) = rConfig s" "rPeers (addRoute now p i f s) = rPeers s"
  "rInstances (addRoute now p i f s) = rInstances s" "rServices (addRoute now p i f s) = rServices s"
  "rRoutes (addRoute now p i f s) = AList.update (fCallID f) (rNext s) (rRoutes s)"
  "rRouteObj (addRoute now p i f s) = (rRouteObj s)(rNext s := newRoute now p i f)"
  "rDeadlines (addRoute now p i f s) = rDeadlines s" "rDedup (addRoute now p i f s) = rDedup s"
  "rDedupObj (addRoute now p i f s) = rDedupObj s" "rDedupOrder (addRoute now p i f s) = rDedupOrder s"
  "rNext (addRoute now p i f s) = rNext s + 1"
  "pInflight (rPeerObj (addRoute now p i f s) q) = pInflight (rPeerObj s q) + (if q = i then 1 else 0)"
  "pCalls (rPeerObj (addRoute now p i f s) q) = pCalls (rPeerObj s q) + (if q = p then 1 else 0)"
  "pMaxInflight (rPeerObj (addRoute now p i f s) q) = pMaxInflight (rPeerObj s q)"
  "pInstanceID (rPeerObj (addRoute now p i f s) q) = pInstanceID (rPeerObj s q)"
  "pServices (rPeerObj (addRoute now p i f s) q) = pServices (rPeerObj s q)"
  "pDraining (rPeerObj (addRoute now p i f s) q) = pDraining (rPeerObj s q)"
  by (simp_all add: addRoute_def Let_def)

lemma newRoute_sel [simp]:
  "rtId (newRoute now p i f) = fCallID f" "rtClient (newRoute now p i f) = p" "rtInstance (newRoute now p i f) = i"
  "rtDedup (newRoute now p i f) = None" "rtService (newRoute now p i f) = fService f" "rtMethod (newRoute now p i f) = fMethod f"
  "rtClientCredit (newRoute now p i f) = 0" "rtServerCredit (newRoute now p i f) = 0"
  by (simp_all add: newRoute_def)

text \<open>What has to hold for a call to be routed to instance \<open>i\<close>.\<close>

definition canRoute :: "addr \<Rightarrow> addr \<Rightarrow> frame \<Rightarrow> router \<Rightarrow> bool" where
  "canRoute p i f s \<longleftrightarrow> map_of (rRoutes s) (fCallID f) = None \<and> p < rNext s \<and> i < rNext s \<and> pInstanceID (rPeerObj s i) \<noteq> [] \<and>
     roomy (rPeerObj s i) \<and> length (rRoutes s) < maxRoutes \<and>
     (cMaxCallsPerConnection (rConfig s) > 0 \<longrightarrow> pCalls (rPeerObj s p) < cMaxCallsPerConnection (rConfig s))"

lemma addRoute_counts:
  assumes "routerInv s" "map_of (rRoutes s) (fCallID f) = None"
  shows "routedTo (addRoute now p i f s) q = routedTo s q + (if q = i then 1 else 0)"
    "routedFrom (addRoute now p i f s) q = routedFrom s q + (if q = p then 1 else 0)"
    "waiting (addRoute now p i f s) q = waiting s q"
proof -
  have lt: "a \<noteq> rNext s" if "(cid, a) \<in> set (rRoutes s)" for cid a
    using route_facts(2) [OF assms(1)] map_of_distinct_eq [OF routes_distinct [OF assms(1)]] that by blast
  show "routedTo (addRoute now p i f s) q = routedTo s q + (if q = i then 1 else 0)"
    using lt by (auto simp: routedTo_def count_where_insert [OF assms(2)] intro: count_where_cong)
  show "routedFrom (addRoute now p i f s) q = routedFrom s q + (if q = p then 1 else 0)"
    using lt by (auto simp: routedFrom_def count_where_insert [OF assms(2)] intro: count_where_cong)
  have "joined (addRoute now p i f s) = joined s" by (intro ext) (simp add: joined_def)
  then show "waiting (addRoute now p i f s) q = waiting s q" by (simp add: waiting_def)
qed

lemma inv_addRoute:
  assumes "routerInv s" "canRoute p i f s"
  shows "routerInv (addRoute now p i f s)"
proof -
  let ?s = "addRoute now p i f s"
  note inv = invButD [OF assms(1)]
  have c: "map_of (rRoutes s) (fCallID f) = None" "p < rNext s" "i < rNext s" "pInstanceID (rPeerObj s i) \<noteq> []"
    "roomy (rPeerObj s i)" "length (rRoutes s) < maxRoutes"
    "cMaxCallsPerConnection (rConfig s) > 0 \<Longrightarrow> pCalls (rPeerObj s p) < cMaxCallsPerConnection (rConfig s)"
    using assms(2) by (auto simp: canRoute_def)
  have ne: "a \<noteq> rNext s" if "map_of (rRoutes s) cid = Some a" for cid a
    using route_facts(2) [OF assms(1) that] by simp
  show ?thesis unfolding invBut_def
  proof (intro conjI)
    show "routesOk ?s" using inv(1) c(2-4) ne unfolding routesOk_def by (auto split: if_splits intro: less_SucI)
    show "tableOk {} ?s" using inv(2) ne unfolding tableOk_def by (fastforce split: if_splits intro: less_SucI)
    show "countsOk ?s" using inv(3) unfolding countsOk_def by (simp add: addRoute_counts [OF assms(1) c(1)])
    show "heapOk ?s"
    proof -
      have "heapInv (deadlines ?s) (rDeadlines s) = heapInv (deadlines s) (rDeadlines s)"
        by (rule heapInv_cong) (auto simp: deadlines_def dest: ne elim: heap_elements [OF assms(1)])
      then show ?thesis using inv(4) c(1) unfolding heapOk_def by (auto simp: map_of_None_update)
    qed
    show "poolsOk ?s" using inv(5) unfolding poolsOk_def by (auto intro: less_SucI)
    have "length (rRoutes ?s) \<le> maxRoutes" using c(1,6) by (simp add: map_of_None_update)
    moreover have "(0 < pMaxInflight (rPeerObj ?s q) \<longrightarrow> pInflight (rPeerObj ?s q) \<le> pMaxInflight (rPeerObj ?s q)) \<and>
       (0 < cMaxCallsPerConnection (rConfig ?s) \<longrightarrow> pCalls (rPeerObj ?s q) \<le> cMaxCallsPerConnection (rConfig ?s))" for q
      using inv(6) [unfolded limitsOk_def, THEN conjunct1, rule_format, of q] c(5,7) by (auto simp: roomy_def)
    ultimately show "limitsOk ?s" unfolding limitsOk_def by blast
  qed
qed

lemma inv_track:
  assumes "invBut X s" "map_of (rRoutes s) cid = Some a" "a \<notin> set (hList (rDeadlines s))"
  shows "invBut X (track now a timeout s)"
proof -
  let ?g = "\<lambda>rt. rt\<lparr>rtDeadline := now + wrap64 (timeout + cDeadlineGrace (rConfig s))\<rparr>"
  let ?s1 = "updRoute a ?g s"
  let ?s = "track now a timeout s"
  note i = invButD [OF assms(1)]
  have f: "rConfig ?s = rConfig s" "rClosed ?s = rClosed s" "rPeers ?s = rPeers s" "rPeerObj ?s = rPeerObj s"
    "rInstances ?s = rInstances s" "rServices ?s = rServices s" "rRoutes ?s = rRoutes s" "rRouteObj ?s = rRouteObj ?s1"
    "rDedup ?s = rDedup s" "rDedupObj ?s = rDedupObj s" "rDedupOrder ?s = rDedupOrder s" "rNext ?s = rNext s"
    "rDeadlines ?s = heapPush (deadlines ?s1) a (rDeadlines s)"
    by (simp_all add: track_def Let_def)
  have o: "rtId (rRouteObj ?s1 b) = rtId (rRouteObj s b)" "rtClient (rRouteObj ?s1 b) = rtClient (rRouteObj s b)"
    "rtInstance (rRouteObj ?s1 b) = rtInstance (rRouteObj s b)" "rtDedup (rRouteObj ?s1 b) = rtDedup (rRouteObj s b)" for b
    by simp_all
  have "joined ?s = joined s" by (intro ext) (simp add: joined_def f)
  then have c: "routedTo ?s = routedTo s" "routedFrom ?s = routedFrom s" "waiting ?s = waiting s"
    by (intro ext; simp only: routedTo_def routedFrom_def waiting_def o f)+
  show ?thesis unfolding invBut_def
  proof (intro conjI)
    show "routesOk ?s" using i(1) unfolding routesOk_def f o .
    show "tableOk X ?s" using i(2) unfolding tableOk_def f o .
    show "countsOk ?s" using i(3) unfolding countsOk_def c f .
    show "poolsOk ?s" using i(5) unfolding poolsOk_def f .
    show "limitsOk ?s" using i(6) unfolding limitsOk_def f .
    show "heapOk ?s"
    proof -
      have "heapInv (deadlines ?s1) (rDeadlines s) = heapInv (deadlines s) (rDeadlines s)"
        by (rule heapInv_cong) (use assms(3) in \<open>auto simp: deadlines_def\<close>)
      then have "heapInv (deadlines ?s1) (rDeadlines s)" using i(4) by (simp add: heapOk_def)
      note h = heapPush_set [OF this assms(3)]
      moreover have "a \<in> snd ` set (rRoutes s)" using map_of_SomeD [OF assms(2)] by force
      ultimately show ?thesis using i(4) unfolding heapOk_def f deadlines_obj [OF f(8)] by simp
    qed
  qed
qed

section \<open>The idempotency table\<close>

lemma dedupRemove_fields:
  "rConfig (dedupRemove en s) = rConfig s" "rClosed (dedupRemove en s) = rClosed s" "rDraining (dedupRemove en s) = rDraining s"
  "rAuth (dedupRemove en s) = rAuth s" "rDrained (dedupRemove en s) = rDrained s" "rPeersGone (dedupRemove en s) = rPeersGone s"
  "rPeers (dedupRemove en s) = rPeers s" "rPeerObj (dedupRemove en s) = rPeerObj s"
  "rInstances (dedupRemove en s) = rInstances s" "rServices (dedupRemove en s) = rServices s"
  "rRoutes (dedupRemove en s) = rRoutes s" "rRouteObj (dedupRemove en s) = rRouteObj s" "rDeadlines (dedupRemove en s) = rDeadlines s"
  "rNext (dedupRemove en s) = rNext s" "rDedup (dedupRemove en s) = AList.delete (deKey (rDedupObj s en)) (rDedup s)"
  "b \<noteq> en \<Longrightarrow> rDedupObj (dedupRemove en s) b = rDedupObj s b"
  "deListed (rDedupObj s en) \<Longrightarrow> rDedupOrder (dedupRemove en s) = remove1 en (rDedupOrder s)"
  "deKey (rDedupObj (dedupRemove en s) b) = deKey (rDedupObj s b)"
  "deRoute (rDedupObj (dedupRemove en s) b) = deRoute (rDedupObj s b)"
  "deWaiters (rDedupObj (dedupRemove en s) b) = deWaiters (rDedupObj s b)"
  by (simp_all add: dedupRemove_def Let_def)

lemma entry_unique:
  assumes "invBut X s" "map_of (rDedup s) k = Some en" "map_of (rDedup s) k' = Some en"
  shows "k = k'"
  using entry_facts(1) [OF assms(1)] assms(2,3) by metis

lemma tableOk_dedupRemove:
  assumes "invBut X s" "map_of (rDedup s) k = Some en" "deRoute (rDedupObj s en) = None"
  shows "tableOk X (dedupRemove en s)"
proof -
  let ?s = "dedupRemove en s"
  note d = dedupRemove_fields [where en = en and s = s] and e = entry_facts [OF assms(1)] and o = order_facts [OF assms(1)]
  have k: "deKey (rDedupObj s en) = k" "deListed (rDedupObj s en)" using e [OF assms(2)] by simp_all
  have mem: "map_of (rDedup ?s) k' = Some b \<longleftrightarrow> map_of (rDedup s) k' = Some b \<and> b \<noteq> en" for k' b
  proof (cases "k' = k")
    case True
    then show ?thesis using assms(2) k(1) by (auto simp: d(15))
  next
    case False
    then have "map_of (rDedup s) k' \<noteq> Some en" using entry_unique [OF assms(1,2), of k'] by blast
    then show ?thesis using False k(1) by (auto simp: d(15))
  qed
  have "ran (map_of (rDedup ?s)) = ran (map_of (rDedup s)) - {en}" unfolding ran_def mem by blast
  then have "set (rDedupOrder ?s) = ran (map_of (rDedup ?s))"
    by (simp only: d(17) [OF k(2)] set_remove1_eq [OF o(2)] o(3))
  moreover have "deKey (rDedupObj ?s b) = k' \<and> b < rNext ?s \<and> deListed (rDedupObj ?s b) \<and>
      (deRoute (rDedupObj ?s b) = None \<longrightarrow> deWaiters (rDedupObj ?s b) = []) \<and> (\<forall>w \<in> set (deWaiters (rDedupObj ?s b)). fst w < rNext ?s)"
    if "map_of (rDedup ?s) k' = Some b" for k' b
    using e [of k' b] that [unfolded mem] by (simp add: d(14,16))
  moreover have "map_of (rDedup ?s) (deKey (rDedupObj ?s b)) = Some b \<and> deRoute (rDedupObj ?s b) = Some a"
    if "map_of (rRoutes ?s) cid = Some a" "a \<notin> X" "rtDedup (rRouteObj ?s a) = Some b" for cid a b
  proof -
    note f = owner_facts [OF assms(1) that(1) [unfolded d(11)] that(2) that(3) [unfolded d(12)]]
    then have "b \<noteq> en" using assms(3) by auto
    then show ?thesis unfolding mem d(18,19) using f by blast
  qed
  ultimately show ?thesis using o d(15) d(17) [OF k(2)] unfolding tableOk_def by (simp add: distinct_remove1)
qed

lemma inv_dedupRemove:
  assumes "invBut X s" "map_of (rDedup s) k = Some en" "deRoute (rDedupObj s en) = None"
  shows "invBut X (dedupRemove en s)"
proof -
  let ?s = "dedupRemove en s"
  note d = dedupRemove_fields [where en = en and s = s] and i = invButD [OF assms(1)]
  have k: "deKey (rDedupObj s en) = k" and w: "deWaiters (rDedupObj s en) = []"
    using entry_facts [OF assms(1,2)] assms(3) by simp_all
  have j: "joined ?s = joined s" by (intro ext) (simp add: joined_def d)
  have "waiting ?s q = waiting s q" for q
    using weigh_delete [OF order_facts(1) [OF assms(1)] assms(2), of "joined s q"] w by (simp add: waiting_def j d k joined_def)
  moreover have "routedTo ?s = routedTo s" "routedFrom ?s = routedFrom s"
    by (intro ext; simp add: routedTo_def routedFrom_def d)+
  ultimately have "countsOk ?s" using i(3) by (simp add: countsOk_def d)
  moreover have "routesOk ?s" using i(1) unfolding routesOk_def d(1-14) .
  moreover have "heapOk ?s" using i(4) unfolding heapOk_def d(1-14) deadlines_obj [OF d(12)] .
  moreover have "poolsOk ?s" using i(5) unfolding poolsOk_def d(1-14) .
  moreover have "limitsOk ?s" using i(6) unfolding limitsOk_def d(1-14) .
  ultimately show ?thesis using tableOk_dedupRemove [OF assms] by (simp add: invBut_def)
qed

lemma inv_dedupEvict:
  assumes "invBut X s"
  shows "invBut X (dedupEvict n s)"
  using assms
proof (induction n s rule: dedupEvict.induct)
  case (2 n s)
  show ?case
  proof (cases "rDedupOrder s")
    case (Cons a as)
    then have "a \<in> ran (map_of (rDedup s))" using order_facts(3) [OF "2.prems"] by auto
    then obtain k where "map_of (rDedup s) k = Some a" by (auto simp: ran_def)
    then show ?thesis using Cons 2 inv_dedupRemove [OF "2.prems"] by simp
  qed (use 2 in simp)
qed simp

text \<open>Evicting only removes settled entries.\<close>

lemma dedupEvict_fields:
  "rConfig (dedupEvict n s) = rConfig s \<and> rRoutes (dedupEvict n s) = rRoutes s \<and> rRouteObj (dedupEvict n s) = rRouteObj s \<and>
   rNext (dedupEvict n s) = rNext s \<and> rPeerObj (dedupEvict n s) = rPeerObj s \<and>
   (map_of (rDedup s) k = None \<longrightarrow> map_of (rDedup (dedupEvict n s)) k = None)"
  by (induction n s rule: dedupEvict.induct) (auto simp: dedupRemove_fields split: list.split)

lemma dedupEvict_map: "map_of (rDedup s) k = None \<Longrightarrow> map_of (rDedup (dedupEvict n s)) k = None"
  using dedupEvict_fields [of n s k] by blast

lemmas dedupEvict_sel [simp] =
  dedupEvict_fields [THEN conjunct1] dedupEvict_fields [THEN conjunct2, THEN conjunct1]
  dedupEvict_fields [THEN conjunct2, THEN conjunct2, THEN conjunct1]
  dedupEvict_fields [THEN conjunct2, THEN conjunct2, THEN conjunct2, THEN conjunct1]

text \<open>The insertion itself, after the eviction.\<close>

definition putEntry :: "string \<Rightarrow> addr \<Rightarrow> router \<Rightarrow> router" where
  "putEntry key rt s1 =
     (let e = rNext s1;
          s2 = s1\<lparr>rDedupObj := (rDedupObj s1)(e := newEntry key rt), rNext := e + 1,
                  rDedupOrder := rDedupOrder s1 @ [e], rDedup := AList.update key e (rDedup s1)\<rparr> in
      updRoute rt (\<lambda>x. x\<lparr>rtDedup := Some e\<rparr>) s2)"

lemma dedupInsert_put: "dedupInsert key rt s = putEntry key rt (dedupEvict (length (rDedupOrder s)) s)"
  by (simp add: dedupInsert_def putEntry_def Let_def)

lemma putEntry_fields [simp]:
  "rConfig (putEntry k a s) = rConfig s" "rPeers (putEntry k a s) = rPeers s" "rPeerObj (putEntry k a s) = rPeerObj s"
  "rInstances (putEntry k a s) = rInstances s" "rServices (putEntry k a s) = rServices s" "rRoutes (putEntry k a s) = rRoutes s"
  "rDeadlines (putEntry k a s) = rDeadlines s" "rNext (putEntry k a s) = rNext s + 1"
  "rDedup (putEntry k a s) = AList.update k (rNext s) (rDedup s)" "rDedupOrder (putEntry k a s) = rDedupOrder s @ [rNext s]"
  "rDedupObj (putEntry k a s) = (rDedupObj s)(rNext s := newEntry k a)"
  "rRouteObj (putEntry k a s) b = (if b = a then (rRouteObj s a)\<lparr>rtDedup := Some (rNext s)\<rparr> else rRouteObj s b)"
  by (simp_all add: putEntry_def Let_def)

lemma newEntry_sel [simp]:
  "deKey (newEntry k a) = k" "deRoute (newEntry k a) = Some a" "deWaiters (newEntry k a) = []" "deListed (newEntry k a)"
  by (simp_all add: newEntry_def)

lemma tableOk_putEntry:
  assumes "routerInv s" "map_of (rDedup s) key = None"
  shows "tableOk {} (putEntry key a s)"
proof -
  let ?s = "putEntry key a s"
  note e = entry_facts [OF assms(1)] and o = order_facts [OF assms(1)]
  have ne: "b \<noteq> rNext s" if "map_of (rDedup s) k = Some b" for k b using e(2) [OF that] by simp
  have "rNext s \<notin> set (rDedupOrder s)" using ne unfolding o(3) ran_def by blast
  moreover have "ran (map_of (rDedup ?s)) = insert (rNext s) (ran (map_of (rDedup s)))"
    using assms(2) by (simp add: AList.update_conv' ran_map_upd)
  moreover have "deKey (rDedupObj ?s b) = k \<and> b < rNext ?s \<and> deListed (rDedupObj ?s b) \<and>
      (deRoute (rDedupObj ?s b) = None \<longrightarrow> deWaiters (rDedupObj ?s b) = []) \<and> (\<forall>w \<in> set (deWaiters (rDedupObj ?s b)). fst w < rNext ?s)"
    if m: "map_of (rDedup ?s) k = Some b" for k b
  proof (cases "k = key")
    case True
    then show ?thesis using m by simp
  next
    case False
    then have "map_of (rDedup s) k = Some b" using m by simp
    note f = e [OF this] ne [OF this]
    show ?thesis using f(1-4) f(6) f(5) [THEN less_SucI] by simp
  qed
  moreover have "map_of (rDedup ?s) (deKey (rDedupObj ?s b)) = Some b \<and> deRoute (rDedupObj ?s b) = Some c"
    if m: "map_of (rRoutes s) cid = Some c" "rtDedup (rRouteObj ?s c) = Some b" for cid c b
  proof (cases "c = a")
    case True
    then show ?thesis using m by auto
  next
    case False
    then have f: "map_of (rDedup s) (deKey (rDedupObj s b)) = Some b" "deRoute (rDedupObj s b) = Some c"
      using owner_facts [OF assms(1) m(1)] m(2) by simp_all
    then have "deKey (rDedupObj s b) \<noteq> key" using assms(2) by auto
    then show ?thesis using f ne by auto
  qed
  ultimately show ?thesis using o unfolding tableOk_def by (simp add: distinct_keys_update)
qed

lemma inv_putEntry:
  assumes "routerInv s" "map_of (rDedup s) key = None"
  shows "routerInv (putEntry key a s)"
proof -
  let ?s = "putEntry key a s"
  note i = invButD [OF assms(1)]
  have o: "rtId (rRouteObj ?s b) = rtId (rRouteObj s b)" "rtClient (rRouteObj ?s b) = rtClient (rRouteObj s b)"
    "rtInstance (rRouteObj ?s b) = rtInstance (rRouteObj s b)" "rtDeadline (rRouteObj ?s b) = rtDeadline (rRouteObj s b)" for b
    by simp_all
  have ne: "b \<noteq> rNext s" if "(k, b) \<in> set (rDedup s)" for k b
    using entry_facts(2) [OF assms(1)] that map_of_distinct_eq [OF order_facts(1) [OF assms(1)]] by blast
  have "weigh (joined ?s q) (rDedup s) = weigh (joined s q) (rDedup s)" for q
    using ne by (intro weigh_cong) (auto simp: joined_def)
  then have "waiting ?s q = waiting s q" for q
    by (simp add: waiting_def weigh_insert [OF assms(2)] joined_def [of ?s q "rNext s"])
  moreover have "routedTo ?s = routedTo s" "routedFrom ?s = routedFrom s"
    by (intro ext; simp only: routedTo_def routedFrom_def o putEntry_fields(6))+
  ultimately have "countsOk ?s" using i(3) by (simp add: countsOk_def)
  moreover have "routesOk ?s" using i(1) unfolding routesOk_def o by (auto intro: less_SucI)
  moreover have "deadlines ?s = deadlines s" by (intro ext) (simp only: deadlines_def o)
  then have "heapOk ?s" using i(4) by (simp add: heapOk_def)
  moreover have "poolsOk ?s" using i(5) unfolding poolsOk_def by (auto intro: less_SucI)
  moreover have "limitsOk ?s" using i(6) by (simp add: limitsOk_def)
  ultimately show ?thesis using tableOk_putEntry [OF assms] by (simp add: invBut_def)
qed

lemma inv_dedupInsert:
  assumes "routerInv s" "map_of (rDedup s) key = None"
  shows "routerInv (dedupInsert key a s)"
  unfolding dedupInsert_put by (rule inv_putEntry [OF inv_dedupEvict [OF assms(1)] dedupEvict_map [OF assms(2)]])

section \<open>Selection\<close>

definition moveCursor :: "string \<Rightarrow> pool \<Rightarrow> (string, nat) gomap \<Rightarrow> router \<Rightarrow> router" where
  "moveCursor svc pl c s = s\<lparr>rServices := AList.update svc (pl\<lparr>plCursors := c\<rparr>) (rServices s)\<rparr>"

lemma quiet_healthOnly: "healthOnly s s' \<Longrightarrow> quiet s s'"
proof -
  assume h: "healthOnly s s'"
  then obtain m where m: "s' = s\<lparr>rPeerObj := m\<rparr>" unfolding healthOnly_def by metis
  have "ledger (rPeerObj s' p) = ledger (rPeerObj s p)" for p
  proof -
    obtain k where "rPeerObj s' p = (rPeerObj s p)\<lparr>pHealth := k\<rparr>" using h unfolding healthOnly_def by metis
    then show ?thesis by (simp add: ledger_def)
  qed
  then show ?thesis by (simp add: quiet_def m)
qed

lemma balanceInstance_state:
  assumes "balanceInstance e f pl b insts s = (s', r)"
  shows "s' = s \<or> (\<exists>c. s' = moveCursor (fService f) pl c s)"
proof (cases "bKind b = ''round_robin''")
  case True
  then show ?thesis using assms unfolding balanceInstance_def moveCursor_def Let_def by auto
next
  case False
  have "fst (balanceInstance e f pl b insts s) = s" unfolding balanceInstance_def if_not_P [OF False] by (simp add: if_distrib)
  then show ?thesis using assms by simp
qed

lemma selectKnown_state:
  assumes "selectKnown e f avoid pl m s = (s', r)"
  obtains s1 where "healthOnly s s1" "s' = s1 \<or> (\<exists>c. s' = moveCursor (fService f) pl c s1)"
proof (cases "fInstanceID f \<noteq> [] \<or> plTargeted pl")
  case True
  then have "fst (selectKnown e f avoid pl m s) = s" by (auto simp: selectKnown_def)
  then show thesis using assms that [of s] by simp
next
  case False
  let ?sv = "filter (\<lambda>c. serves (rPeerObj s c) (fService f) (fMethod f)) (plInstances pl)"
  obtain s1 el full tripped where l: "eligibleLoop (eNow e) avoid (length ?sv) ?sv s = (s1, el, full, tripped)"
    by (metis prod_cases4)
  have k: "selectKnown e f avoid pl m s = (if el = [] then (s1, Inl (noneEligible f full tripped))
       else balanceInstance e f pl (mBalance m) (if length el \<noteq> length (plInstances pl) then el else plInstances pl) s1)"
    unfolding selectKnown_def Let_def l using False by simp
  show thesis
    using that [OF eligibleLoop_healthOnly [OF l]] assms balanceInstance_state unfolding k by (metis prod.inject)
qed

lemma selectInstance_state:
  assumes "selectInstance e f avoid s = (s', r)"
  obtains s1 where "healthOnly s s1" "s' = s1 \<or> (\<exists>pl c. map_of (rServices s) (fService f) = Some pl \<and> s' = moveCursor (fService f) pl c s1)"
proof (cases "map_of (rServices s) (fService f)")
  case None
  then have "fst (selectInstance e f avoid s) = s" by (simp add: selectInstance_def)
  then show thesis using assms that [of s] by simp
next
  case (Some pl)
  have "fst (selectInstance e f avoid s) = s \<or> (\<exists>m. selectInstance e f avoid s = selectKnown e f avoid pl m s)"
    unfolding selectInstance_def Some option.case(2) by (simp split: option.split) blast
  then show thesis
  proof
    assume "fst (selectInstance e f avoid s) = s"
    then show thesis using assms that [of s] by simp
  next
    assume "\<exists>m. selectInstance e f avoid s = selectKnown e f avoid pl m s"
    then obtain m where "selectKnown e f avoid pl m s = (s', r)" using assms by auto
    then show thesis by (rule selectKnown_state) (use that Some in blast)
  qed
qed

lemma selectInstance_place:
  assumes "selectInstance e f avoid s = (s', Inr p)"
  shows "roomy (rPeerObj s p) \<and> (map_of (rInstances s) (fInstanceID f) = Some p \<or>
    (\<exists>pl. map_of (rServices s) (fService f) = Some pl \<and> p \<in> set (plInstances pl)))"
  using assms
proof (cases rule: selectInstance_Inr)
  case target
  then show ?thesis using targetInstance_Inr [OF target(2)] by blast
next
  case (balanced pl m s1 eligible full tripped)
  have p: "p \<in> set eligible"
    using balanceInstance_mem [OF balanced(7)] balanced(6) eligible_pool [OF balanced(5)] by simp
  show ?thesis using eligibleLoop_mem [OF balanced(5) p] balanced(2) by auto
qed

lemma selectInstance_serves:
  assumes "selectInstance e f avoid s = (s', Inr p)"
  shows "serves (rPeerObj s p) (fService f) (fMethod f)"
  using assms
proof (cases rule: selectInstance_Inr)
  case target
  then show ?thesis using targetInstance_Inr [OF target(2)] by blast
next
  case (balanced pl m s1 eligible full tripped)
  have p: "p \<in> set eligible"
    using balanceInstance_mem [OF balanced(7)] balanced(6) eligible_pool [OF balanced(5)] by simp
  show ?thesis using eligibleLoop_mem [OF balanced(5) p] by auto
qed

lemma inv_moveCursor:
  assumes "invBut X s" "map_of (rServices s) svc = Some pl"
  shows "invBut X (moveCursor svc pl c s)"
proof -
  let ?s = "moveCursor svc pl c s"
  note i = invButD [OF assms(1)]
  have f: "rConfig ?s = rConfig s" "rPeers ?s = rPeers s" "rPeerObj ?s = rPeerObj s" "rInstances ?s = rInstances s"
    "rRoutes ?s = rRoutes s" "rRouteObj ?s = rRouteObj s" "rDeadlines ?s = rDeadlines s" "rNext ?s = rNext s"
    "rDedup ?s = rDedup s" "rDedupOrder ?s = rDedupOrder s" "rDedupObj ?s = rDedupObj s"
    "rServices ?s = AList.update svc (pl\<lparr>plCursors := c\<rparr>) (rServices s)" by (simp_all add: moveCursor_def)
  note c = counts_same [OF f(5,6,9,11)]
  show ?thesis unfolding invBut_def
  proof (intro conjI)
    show "routesOk ?s" using i(1) unfolding routesOk_def f .
    show "tableOk X ?s" using i(2) unfolding tableOk_def f .
    show "countsOk ?s" using i(3) unfolding countsOk_def f c .
    show "heapOk ?s" using i(4) unfolding heapOk_def f deadlines_obj [OF f(6)] .
    show "limitsOk ?s" using i(6) unfolding limitsOk_def f .
    show "poolsOk ?s" using i(5) assms(2) unfolding poolsOk_def f by simp
  qed
qed

lemma inv_select:
  assumes "invBut X s" "selectInstance e f avoid s = (s', r)"
  shows "invBut X s'"
  using assms(2)
proof (rule selectInstance_state)
  fix s1 assume h: "healthOnly s s1"
    and c: "s' = s1 \<or> (\<exists>pl c. map_of (rServices s) (fService f) = Some pl \<and> s' = moveCursor (fService f) pl c s1)"
  have "invBut X s1" "rServices s1 = rServices s" using inv_quiet [OF assms(1)] quietD(6) quiet_healthOnly [OF h] by blast+
  then show ?thesis using c inv_moveCursor by metis
qed

lemma select_sel:
  assumes "selectInstance e f avoid s = (s', r)"
  shows "rRoutes s' = rRoutes s" "rConfig s' = rConfig s" "rNext s' = rNext s" "rDedup s' = rDedup s" "rInstances s' = rInstances s"
    "rRouteObj s' = rRouteObj s" "rPeers s' = rPeers s" "rDraining s' = rDraining s"
    "pCalls (rPeerObj s' q) = pCalls (rPeerObj s q)" "roomy (rPeerObj s' q) = roomy (rPeerObj s q)"
    "pInstanceID (rPeerObj s' q) = pInstanceID (rPeerObj s q)"
proof -
  obtain s1 where h: "healthOnly s s1"
    and c: "s' = s1 \<or> (\<exists>pl c. map_of (rServices s) (fService f) = Some pl \<and> s' = moveCursor (fService f) pl c s1)"
    using assms by (rule selectInstance_state)
  note q = quietD [OF quiet_healthOnly [OF h]] and p = healthOnly_peer [OF h]
  show "rRoutes s' = rRoutes s" "rConfig s' = rConfig s" "rNext s' = rNext s" "rDedup s' = rDedup s" "rInstances s' = rInstances s"
    "rRouteObj s' = rRouteObj s" "rPeers s' = rPeers s" "rDraining s' = rDraining s"
    "pCalls (rPeerObj s' q) = pCalls (rPeerObj s q)" "roomy (rPeerObj s' q) = roomy (rPeerObj s q)"
    "pInstanceID (rPeerObj s' q) = pInstanceID (rPeerObj s q)"
    using c q p by (auto simp: moveCursor_def)
qed

section \<open>Opening a call\<close>

lemma inv_openRoute:
  assumes "routerInv s" "canRoute p i f s" "useKey \<Longrightarrow> map_of (rDedup s) (dedupKey f) = None"
  shows "routerInv (openRoute e p i useKey f s)"
proof -
  let ?s3 = "addRoute (eNow e) p i f s" and ?a = "rNext s"
  define s4 where "s4 = (case fTimeoutMS f of None \<Rightarrow> ?s3 | Some t \<Rightarrow> track (eNow e) ?a (wrap64 (t * millisecond)) ?s3)"
  note i3 = inv_addRoute [OF assms(1,2), of "eNow e"]
  have "?a \<notin> set (hList (rDeadlines ?s3))"
    using heap_elements [OF assms(1)] route_facts(2) [OF assms(1)] by (metis addRoute_fields(7) less_irrefl)
  then have i4: "routerInv s4" using i3 inv_track [OF i3, of "fCallID f"] by (simp add: s4_def split: option.split)
  have "rDedup s4 = rDedup s" by (simp add: s4_def track_def Let_def split: option.split)
  then have "routerInv (if useKey then dedupInsert (dedupKey f) ?a s4 else s4)"
    using i4 inv_dedupInsert [OF i4] assms(3) by simp
  then show ?thesis unfolding openRoute_def Let_def s4_def [symmetric] by (rule inv_quiet [OF _ quiet_sendTo])
qed

lemma instance_known:
  assumes "invBut X s" "map_of (rInstances s) iid = Some p"
  shows "p < rNext s" "pInstanceID (rPeerObj s p) \<noteq> []"
  using invButD(5) [OF assms(1)] assms(2) unfolding poolsOk_def by metis+

lemma pool_member:
  assumes "invBut X s" "map_of (rServices s) svc = Some pl" "p \<in> set (plInstances pl)"
  shows "map_of (rInstances s) (pInstanceID (rPeerObj s p)) = Some p" "\<not> pDraining (rPeerObj s p)"
  using invButD(5) [OF assms(1)] assms(2,3) unfolding poolsOk_def by blast+

lemma inv_routeCall:
  assumes "routerInv s" "map_of (rRoutes s) (fCallID f) = None" "p < rNext s" "length (rRoutes s) < maxRoutes"
    "cMaxCallsPerConnection (rConfig s) > 0 \<Longrightarrow> pCalls (rPeerObj s p) < cMaxCallsPerConnection (rConfig s)"
    "useKey \<Longrightarrow> map_of (rDedup s) (dedupKey f) = None"
  shows "routerInv (routeCall e p avoid useKey f s)"
proof (cases "selectInstance e f avoid s")
  case (Pair s1 r)
  note i1 = inv_select [OF assms(1) Pair] and sel = select_sel [OF Pair]
  show ?thesis
  proof (cases r)
    case (Inl err)
    then show ?thesis using Pair inv_quiet [OF i1 quiet_refuse] by (simp add: routeCall_def)
  next
    case (Inr i)
    note pl = selectInstance_place [OF Pair [unfolded Inr]]
    have "i < rNext s" "pInstanceID (rPeerObj s i) \<noteq> []"
      using pl instance_known [OF assms(1)] pool_member(1) [OF assms(1)] by blast+
    then have "canRoute p i f s1" using pl assms(2-5) sel by (simp add: canRoute_def)
    from inv_openRoute [OF i1 this, of useKey e] show ?thesis using assms(6) sel(4) by (simp add: routeCall_def Pair Inr)
  qed
qed

lemma inv_joinWaiter:
  assumes "routerInv s" "map_of (rDedup s) k = Some en" "deRoute (rDedupObj s en) \<noteq> None" "p < rNext s"
    "cMaxCallsPerConnection (rConfig s) > 0 \<Longrightarrow> pCalls (rPeerObj s p) < cMaxCallsPerConnection (rConfig s)"
  shows "routerInv (joinWaiter en p cid s)"
proof -
  let ?s = "joinWaiter en p cid s"
  note i = invButD [OF assms(1)] and d = order_facts(1) [OF assms(1)]
  have f: "rConfig ?s = rConfig s" "rPeers ?s = rPeers s" "rInstances ?s = rInstances s" "rServices ?s = rServices s"
    "rRoutes ?s = rRoutes s" "rRouteObj ?s = rRouteObj s" "rDeadlines ?s = rDeadlines s" "rNext ?s = rNext s"
    "rDedup ?s = rDedup s" "rDedupOrder ?s = rDedupOrder s"
    by (simp_all add: joinWaiter_def)
  have g: "deKey (rDedupObj ?s b) = deKey (rDedupObj s b)" "deRoute (rDedupObj ?s b) = deRoute (rDedupObj s b)"
    "deListed (rDedupObj ?s b) = deListed (rDedupObj s b)"
    "deWaiters (rDedupObj ?s b) = (if b = en then deWaiters (rDedupObj s en) @ [(p, cid)] else deWaiters (rDedupObj s b))" for b
    by (simp_all add: joinWaiter_def)
  have h: "pInflight (rPeerObj ?s q) = pInflight (rPeerObj s q)" "pMaxInflight (rPeerObj ?s q) = pMaxInflight (rPeerObj s q)"
    "pInstanceID (rPeerObj ?s q) = pInstanceID (rPeerObj s q)" "pServices (rPeerObj ?s q) = pServices (rPeerObj s q)"
    "pDraining (rPeerObj ?s q) = pDraining (rPeerObj s q)"
    "pCalls (rPeerObj ?s q) = pCalls (rPeerObj s q) + (if q = p then 1 else 0)" for q
    by (simp_all add: joinWaiter_def)
  have "weigh (joined ?s q) (rDedup s) = weigh (joined s q) (rDedup s) - joined s q en + joined ?s q en" for q
    using entry_unique [OF assms(1,2)] map_of_distinct_eq [OF d]
    by (intro weigh_change [OF d map_of_SomeD [OF assms(2)]]) (auto simp: joined_def g)
  then have w: "waiting ?s q = waiting s q + (if q = p then 1 else 0)" for q
    by (simp add: waiting_def f joined_def g)
  show ?thesis unfolding invBut_def
  proof (intro conjI)
    show "routesOk ?s" using i(1) unfolding routesOk_def f h .
    show "tableOk {} ?s" using i(2) assms(3,4) unfolding tableOk_def f g by (auto split: if_splits)
    have "routedTo ?s = routedTo s" "routedFrom ?s = routedFrom s" by (intro ext; simp add: routedTo_def routedFrom_def f)+
    then show "countsOk ?s" using i(3) by (simp add: countsOk_def h w)
    show "heapOk ?s" using i(4) unfolding heapOk_def f deadlines_obj [OF f(6)] .
    show "poolsOk ?s" using i(5) unfolding poolsOk_def f h(1-5) .
    show "limitsOk ?s" using i(6) assms(5) unfolding limitsOk_def f h by auto
  qed
qed

lemma inv_keyedCall:
  assumes "routerInv s" "map_of (rRoutes s) (fCallID f) = None" "p < rNext s" "length (rRoutes s) < maxRoutes"
    "cMaxCallsPerConnection (rConfig s) > 0 \<Longrightarrow> pCalls (rPeerObj s p) < cMaxCallsPerConnection (rConfig s)"
  shows "routerInv (keyedCall e p f s)"
proof (cases "map_of (rDedup s) (dedupKey f)")
  case None
  then show ?thesis using inv_routeCall [OF assms] by (simp add: keyedCall_def dedupLookup_def)
next
  case (Some en)
  let ?x = "rDedupObj s en"
  have gone: "routerInv (routeCall e p avoid True f (dedupRemove en s))" if "deRoute ?x = None" for avoid
    using inv_routeCall [OF inv_dedupRemove [OF assms(1) Some that]] assms(2-5) entry_facts(1) [OF assms(1) Some]
    by (simp add: dedupRemove_fields)
  consider (expired) "deRoute ?x = None" "eNow e > deExpires ?x"
    | (settled) r where "\<not> (deRoute ?x = None \<and> eNow e > deExpires ?x)" "deResult ?x = Some r"
    | (join) "deRoute ?x \<noteq> None" "deResult ?x = None"
    | (failed) "\<not> (deRoute ?x = None \<and> eNow e > deExpires ?x)" "deRoute ?x = None" "deResult ?x = None" by fastforce
  then show ?thesis
  proof cases
    case expired
    then show ?thesis using gone by (simp add: keyedCall_def dedupLookup_def Some)
  next
    case settled
    then have "keyedCall e p f s = sendTo p (withCallID r (fCallID f)) s" by (auto simp: keyedCall_def dedupLookup_def Some)
    then show ?thesis using inv_quiet [OF assms(1) quiet_sendTo] by simp
  next
    case join
    then have "keyedCall e p f s = joinWaiter en p (fCallID f) s" by (auto simp: keyedCall_def dedupLookup_def Some)
    then show ?thesis using inv_joinWaiter [OF assms(1) Some join(1) assms(3,5)] by simp
  next
    case failed
    then show ?thesis using gone by (auto simp: keyedCall_def dedupLookup_def Some)
  qed
qed

lemma inv_openCall:
  assumes "routerInv s" "p < rNext s"
  shows "routerInv (openCall e p f s)"
proof -
  let ?cap = "cMaxCallsPerConnection (rConfig s)"
  note no = inv_quiet [OF assms(1) quiet_refuse]
  show ?thesis
  proof (cases "map_of (rRoutes s) (fCallID f) \<noteq> None \<or> ?cap > 0 \<and> pCalls (rPeerObj s p) \<ge> ?cap \<or> length (rRoutes s) \<ge> maxRoutes")
    case True
    then show ?thesis using no inv_quiet [OF assms(1) quiet_management] by (auto simp: openCall_def Let_def)
  next
    case False
    then have r: "map_of (rRoutes s) (fCallID f) = None" "length (rRoutes s) < maxRoutes" "?cap > 0 \<Longrightarrow> pCalls (rPeerObj s p) < ?cap"
      by auto
    note k = inv_keyedCall [OF assms(1) r(1) assms(2) r(2,3)] and u = inv_routeCall [OF assms(1) r(1) assms(2) r(2,3), where useKey = False]
    show ?thesis
      unfolding openCall_def Let_def using no k u inv_quiet [OF assms(1) quiet_management] by (simp split: if_split)
  qed
qed

end
