(* ===== verification/Router_Run.thy ===== *)
theory Router_Run
  imports Router_Ops
begin

text \<open>
  Runs of the Router: the operations that relay frames, end calls and admit peers keep the invariant,
  and so does every sequence of operations a Router can perform.
\<close>

section \<open>Relayed frames\<close>

lemma credit_sel:
  assumes "credit f rt = (rt', b)"
  shows "rtId rt' = rtId rt" "rtClient rt' = rtClient rt" "rtInstance rt' = rtInstance rt" "rtDeadline rt' = rtDeadline rt"
    "rtDedup rt' = rtDedup rt" "rtService rt' = rtService rt" "rtMethod rt' = rtMethod rt"
  using assms by (auto simp: credit_def Let_def split: if_splits option.splits)

lemma inv_end:
  assumes "invBut {a} s" "map_of (rRoutes s) cid = Some a"
  shows "routerInv (endRoute cid a s)"
  using inv_endRoute [OF assms] by simp

lemma inv_flowViolation:
  assumes "routerInv s" "map_of (rRoutes s) cid = Some a"
  shows "routerInv (flowViolation e a b s)"
proof -
  let ?rt = "rRouteObj s a"
  let ?v = "violationFrame (rtId ?rt) (pInstanceID (rPeerObj s (rtInstance ?rt))) b"
  define s1 where "s1 = (if b then observe (eNow e) (rtInstance ?rt) False s else s)"
  have q: "quiet s s1" by (simp add: s1_def quiet_observe)
  have r: "map_of (rRoutes s1) cid = Some a" "rtId ?rt = cid" using quietD(7) [OF q] assms(2) route_facts(1) [OF assms] by simp_all
  have "invBut {a} (failOwned (eNow e) a ?v None s1)" using inv_failOwned [OF inv_quiet [OF assms(1) q] r(1)] by simp
  from inv_quiet [OF inv_quiet [OF this quiet_sendTo] quiet_sendTo] show ?thesis
    unfolding flowViolation_def Let_def s1_def [symmetric] r(2) by (rule inv_end) (simp add: r)
qed

lemma inv_relayClient:
  assumes "routerInv s" "map_of (rRoutes s) (fCallID f) = Some a"
  shows "routerInv (relayClient e a f s)"
proof (cases "credit f (rRouteObj s a)")
  case (Pair rt ok)
  let ?s = "sendTo (rtInstance rt) f (updRoute a (\<lambda>_. rt) s)"
  have "routerInv (updRoute a (\<lambda>_. rt) s)" by (rule inv_updRoute [OF assms(1)]) (simp_all add: credit_sel [OF Pair])
  then have i: "routerInv ?s" by (rule inv_quiet [OF _ quiet_sendTo])
  have "routerInv (endRoute (fCallID f) a (finishRoute (eNow e) a code ?s))" for code
    by (rule inv_end [OF invBut_mono [OF inv_quiet [OF i quiet_finishRoute]]]) (simp_all add: assms(2))
  then show ?thesis using i inv_flowViolation [OF assms] Pair by (simp add: relayClient_def Let_def split: bool.split)
qed

lemma inv_relayServer:
  assumes "routerInv s" "map_of (rRoutes s) (fCallID f) = Some a"
  shows "routerInv (relayServer e p a f s)"
proof (cases "credit f (rRouteObj s a)")
  case (Pair rt ok)
  note c = credit_sel [OF Pair]
  define s1 where "s1 = sendTo (rtClient rt) f (updRoute a (\<lambda>_. rt) s)"
  define s2 where "s2 = observe (eNow e) p (\<not> instanceFailed f) s1"
  have "routerInv (updRoute a (\<lambda>_. rt) s)" by (rule inv_updRoute [OF assms(1)]) (simp_all add: c)
  then have i: "routerInv s1" unfolding s1_def by (rule inv_quiet [OF _ quiet_sendTo])
  then have i2: "routerInv s2" unfolding s2_def by (rule inv_quiet [OF _ quiet_observe])
  have r: "map_of (rRoutes s2) (fCallID f) = Some a" "rRouteObj s2 a = rt" by (simp_all add: s2_def s1_def assms(2))
  define s3 where "s3 = (case rtDedup rt of Some en \<Rightarrow> dedupSettle (eNow e) en f s2 | None \<Rightarrow> s2)"
  have "invBut {a} s3 \<and> rRoutes s3 = rRoutes s2"
  proof (cases "rtDedup rt")
    case None
    then show ?thesis using invBut_mono [OF i2] by (simp add: s3_def)
  next
    case (Some en)
    have "released en s2 s3" by (simp add: s3_def Some released_settle)
    then show ?thesis using inv_released [OF i2 r(1), of en] releasedD(7) Some r(2) by auto
  qed
  then have i3: "invBut {a} s3" "map_of (rRoutes s3) (fCallID f) = Some a" using r(1) by simp_all
  have "routerInv (endRoute (fCallID f) a (finishRoute (eNow e) a code s3))" for code
    by (rule inv_end [OF inv_quiet [OF i3(1) quiet_finishRoute]]) (simp add: i3(2))
  then show ?thesis using i inv_flowViolation [OF assms] Pair
    by (simp add: relayServer_def Let_def s1_def [symmetric] s2_def [symmetric] s3_def [symmetric] split: bool.split)
qed

lemma inv_forward:
  assumes "routerInv s" "p < rNext s"
  shows "routerInv (forward e p f s)"
  using inv_openCall [OF assms] inv_relayClient [OF assms(1)] inv_relayServer [OF assms(1)] inv_quiet [OF assms(1) quiet_cancelPeer]
  by (simp add: forward_def Let_def assms(1) split: option.split)

section \<open>Ending many routes\<close>

text \<open>A loop over a snapshot of the routes whose body touches only the route it is given.\<close>

definition endsOnly :: "(string \<times> addr \<Rightarrow> router \<Rightarrow> router) \<Rightarrow> bool" where
  "endsOnly g \<longleftrightarrow> (\<forall>cid a s. routerInv s \<longrightarrow> map_of (rRoutes s) cid = Some a \<longrightarrow>
     routerInv (g (cid, a) s) \<and> (\<forall>c. c \<noteq> cid \<longrightarrow> map_of (rRoutes (g (cid, a) s)) c = map_of (rRoutes s) c))"

lemma inv_fold_routes:
  assumes "endsOnly g" "routerInv s" "distinct (map_keys xs)" "\<And>c a. (c, a) \<in> set xs \<Longrightarrow> map_of (rRoutes s) c = Some a"
  shows "routerInv (fold g xs s) \<and> (\<forall>c. c \<notin> set (map_keys xs) \<longrightarrow> map_of (rRoutes (fold g xs s)) c = map_of (rRoutes s) c)"
  using assms(2-)
proof (induction xs arbitrary: s)
  case (Cons x xs)
  obtain c a where x: "x = (c, a)" by (cases x)
  have s: "routerInv (g x s)" "\<And>c'. c' \<noteq> c \<Longrightarrow> map_of (rRoutes (g x s)) c' = map_of (rRoutes s) c'"
    using assms(1) Cons.prems(1,3) unfolding endsOnly_def x by simp_all
  have "map_of (rRoutes (g x s)) c' = Some a'" if "(c', a') \<in> set xs" for c' a'
  proof -
    have "c' \<noteq> c" using that Cons.prems(2) x by force
    then show ?thesis using s(2) Cons.prems(3) that by simp
  qed
  from Cons.IH [OF s(1) _ this] Cons.prems(2) s(2) x show ?case by simp
qed simp

lemma endsOnly_removeRoute: "endsOnly (removeRoute e p)"
  unfolding endsOnly_def
proof (intro allI impI)
  fix cid a and s :: router
  assume i: "routerInv s" and r: "map_of (rRoutes s) cid = Some a"
  let ?rt = "rRouteObj s a"
  let ?lost = "lostFrame cid (pInstanceID (rPeerObj s p))"
  define s1 where "s1 = (case rtDedup ?rt of
      Some en \<Rightarrow> if deRoute (rDedupObj s en) = Some a
        then updRoute a (\<lambda>x. x\<lparr>rtDedup := None\<rparr>) (dedupFail (eNow e) en ?lost (Some p) s) else s
    | None \<Rightarrow> s)"
  have s1: "invBut {a} s1 \<and> rRoutes s1 = rRoutes s"
  proof (cases "rtDedup ?rt")
    case None
    then show ?thesis using invBut_mono [OF i] by (simp add: s1_def)
  next
    case (Some en)
    let ?f = "dedupFail (eNow e) en ?lost (Some p) s"
    note rel = released_fail [of en s "eNow e" ?lost "Some p"]
    have "invBut {a} (updRoute a (\<lambda>x. x\<lparr>rtDedup := None\<rparr>) ?f)"
      by (rule inv_updRoute [OF inv_released [OF i r _ Some rel]]) simp_all
    then show ?thesis using owner_facts(2) [OF i r _ Some] releasedD(7) [OF rel] by (simp add: s1_def Some)
  qed
  have e1: "routerInv (endRoute cid a (finishRoute (eNow e) a code s))" for code
    by (rule inv_end [OF invBut_mono [OF inv_quiet [OF i quiet_finishRoute]]]) (simp_all add: r)
  have e2: "routerInv (endRoute cid a (finishRoute (eNow e) a code s1))" for code
    by (rule inv_end [OF inv_quiet [OF s1 [THEN conjunct1] quiet_finishRoute]]) (simp add: r s1)
  note q1 = inv_quiet [OF e1 quiet_sendTo] and q2 = inv_quiet [OF e2 quiet_sendTo]
  show "routerInv (removeRoute e p (cid, a) s) \<and>
      (\<forall>c. c \<noteq> cid \<longrightarrow> map_of (rRoutes (removeRoute e p (cid, a) s)) c = map_of (rRoutes s) c)"
    unfolding removeRoute_def Let_def case_prod_conv s1_def [symmetric]
    using q1 q2 i s1 by (simp add: endRoute_fields)
qed

lemma endsOnly_closeRoute: "endsOnly (closeRoute e)"
  unfolding endsOnly_def
proof (intro allI impI)
  fix cid a and s :: router
  assume i: "routerInv s" and r: "map_of (rRoutes s) cid = Some a"
  have "invBut {a} (failOwned (eNow e) a (shutdownFrame cid) None s)" using inv_failOwned [OF i r] by simp
  note q = inv_quiet [OF inv_quiet [OF inv_quiet [OF this quiet_finishRoute] quiet_sendTo] quiet_sendTo]
  have "routerInv (closeRoute e (cid, a) s)"
    unfolding closeRoute_def Let_def case_prod_conv by (rule inv_end [OF q]) (simp add: r)
  then show "routerInv (closeRoute e (cid, a) s) \<and>
      (\<forall>c. c \<noteq> cid \<longrightarrow> map_of (rRoutes (closeRoute e (cid, a) s)) c = map_of (rRoutes s) c)"
    by (simp add: closeRoute_def Let_def endRoute_fields)
qed

lemma routes_snapshot:
  assumes "routerInv s"
  shows "distinct (map_keys (rRoutes s))" "\<And>c a. (c, a) \<in> set (rRoutes s) \<Longrightarrow> map_of (rRoutes s) c = Some a"
  using routes_distinct [OF assms] by (simp_all add: map_of_distinct_eq)

lemma inv_flags:
  assumes "invBut X s"
  shows "invBut X (s\<lparr>rDraining := b\<rparr>)" "invBut X (s\<lparr>rClosed := b\<rparr>)" "invBut X (s\<lparr>rDrained := b\<rparr>)" "invBut X (s\<lparr>rPeersGone := b\<rparr>)"
  by (rule inv_sameBooks [OF assms]; simp add: sameBooks_def)+

lemma inv_startDraining:
  assumes "routerInv s"
  shows "routerInv (startDraining s)"
  unfolding startDraining_def using assms inv_quiet [OF inv_flags(1) [OF assms] quiet_fold [where g = wakePeer, OF quiet_wakePeer]] by simp

lemma inv_shutdown: "routerInv s \<Longrightarrow> routerInv (shutdown s)"
  using inv_startDraining inv_flags(3) by (simp add: shutdown_def Let_def markDrained_def)

lemma inv_closeRouter:
  assumes "routerInv s"
  shows "routerInv (closeRouter e s)"
proof -
  let ?s1 = "(startDraining s)\<lparr>rClosed := True\<rparr>"
  have i: "routerInv ?s1" by (rule inv_flags(2) [OF inv_startDraining [OF assms]])
  have "routerInv (fold (closeRoute e) (rRoutes ?s1) ?s1)"
    using inv_fold_routes [OF endsOnly_closeRoute i routes_snapshot [OF i]] by blast
  then show ?thesis unfolding closeRouter_def Let_def markDrained_def using inv_flags(3,4) by simp
qed

section \<open>Deadlines\<close>

lemma inv_heapShrink:
  assumes "invBut X s" "heapInv (deadlines s) h" "set (hList h) \<subseteq> set (hList (rDeadlines s))"
  shows "invBut X (s\<lparr>rDeadlines := h\<rparr>)"
proof -
  let ?s = "s\<lparr>rDeadlines := h\<rparr>"
  note i = invButD [OF assms(1)]
  have f: "rConfig ?s = rConfig s" "rPeers ?s = rPeers s" "rPeerObj ?s = rPeerObj s" "rInstances ?s = rInstances s"
    "rServices ?s = rServices s" "rRoutes ?s = rRoutes s" "rRouteObj ?s = rRouteObj s" "rNext ?s = rNext s"
    "rDedup ?s = rDedup s" "rDedupOrder ?s = rDedupOrder s" "rDedupObj ?s = rDedupObj s" by simp_all
  note c = counts_same [OF f(6,7,9,11)]
  show ?thesis unfolding invBut_def
  proof (intro conjI)
    show "routesOk ?s" using i(1) unfolding routesOk_def f .
    show "tableOk X ?s" using i(2) unfolding tableOk_def f .
    show "countsOk ?s" using i(3) unfolding countsOk_def f c .
    show "heapOk ?s" using i(4) assms(2,3) unfolding heapOk_def f deadlines_obj [OF f(7)] by auto
    show "poolsOk ?s" using i(5) unfolding poolsOk_def f .
    show "limitsOk ?s" using i(6) unfolding limitsOk_def f .
  qed
qed

lemma inv_expireOne:
  assumes "routerInv s" "hList (rDeadlines s) \<noteq> []"
  shows "routerInv (expireOne e s)"
proof (cases "heapPop (deadlines s) (rDeadlines s)")
  case (Pair h a)
  have hi: "heapInv (deadlines s) (rDeadlines s)" using invButD(4) [OF assms(1)] by (simp add: heapOk_def)
  have h: "heapInv (deadlines s) h" "mset (hList (rDeadlines s)) = add_mset a (mset (hList h))"
    using heapPop_spec [OF hi assms(2) Pair] by auto
  have sub: "set (hList h) \<subseteq> set (hList (rDeadlines s))" and a: "a \<in> set (hList (rDeadlines s))"
    using h(2) by (metis set_mset_add_mset_insert set_mset_mset subset_insertI, metis set_mset_add_mset_insert set_mset_mset insertI1)
  let ?s0 = "s\<lparr>rDeadlines := h\<rparr>"
  have i0: "routerInv ?s0" by (rule inv_heapShrink [OF assms(1) h(1) sub])
  obtain cid where r: "map_of (rRoutes s) cid = Some a" using heap_elements [OF assms(1) a] .
  have id: "rtId (rRouteObj s a) = cid" using route_facts(1) [OF assms(1) r] .
  define s2 where "s2 = finishRoute (eNow e) a ''deadline_exceeded'' (observe (eNow e) (rtInstance (rRouteObj s a)) False ?s0)"
  have i2: "routerInv s2" unfolding s2_def by (rule inv_quiet [OF inv_quiet [OF i0 quiet_observe] quiet_finishRoute])
  have r2: "map_of (rRoutes s2) cid = Some a" by (simp add: s2_def r)
  have "invBut {a} (failOwned (eNow e) a (deadlineError cid) None s2)" using inv_failOwned [OF i2 r2] by simp
  note q = inv_quiet [OF inv_quiet [OF this quiet_sendTo] quiet_sendTo]
  have "expireOne e s = endRoute cid a (sendTo (rtInstance (rRouteObj s a)) (cancelFrame cid ''deadline_exceeded'')
      (sendTo (rtClient (rRouteObj s a)) (deadlineError cid) (failOwned (eNow e) a (deadlineError cid) None s2)))"
    unfolding expireOne_def Pair s2_def by (simp add: Let_def id r)
  then show ?thesis using inv_end [OF q] r2 by simp
qed

lemma inv_expireLoop: "routerInv s \<Longrightarrow> routerInv (expireLoop n e s)"
  by (induction n e s rule: expireLoop.induct) (simp_all add: inv_expireOne)

section \<open>Peers\<close>

lemma inv_updPeer:
  assumes "invBut X s" "\<And>x. pInflight (g x) = pInflight x \<and> pCalls (g x) = pCalls x \<and> pMaxInflight (g x) = pMaxInflight x \<and>
    pInstanceID (g x) = pInstanceID x \<and> pServices (g x) = pServices x \<and> pDraining (g x) = pDraining x"
  shows "invBut X (updPeer p g s)"
  by (rule inv_sameBooks [OF assms(1)]) (simp add: sameBooks_def assms(2))

lemma weigh_zero: "weigh (\<lambda>_. 0) m = 0"
  by (induction m) simp_all

lemma fresh_counts:
  assumes "invBut X s" "rNext s \<le> p"
  shows "routedTo s p = 0" "routedFrom s p = 0" "waiting s p = 0"
proof -
  have r: "rtInstance (rRouteObj s a) < rNext s" "rtClient (rRouteObj s a) < rNext s" if "(c, a) \<in> set (rRoutes s)" for c a
    using route_facts [OF assms(1)] map_of_distinct_eq [OF routes_distinct [OF assms(1)], THEN iffD2, OF that] by simp_all
  show "routedTo s p = 0" "routedFrom s p = 0"
    unfolding routedTo_def routedFrom_def count_where_zero using r assms(2) by fastforce+
  have "joined s p en = 0" if "(k, en) \<in> set (rDedup s)" for k en
  proof -
    have "\<forall>w \<in> set (deWaiters (rDedupObj s en)). fst w < rNext s"
      using entry_facts(5) [OF assms(1)] map_of_distinct_eq [OF order_facts(1) [OF assms(1)], THEN iffD2, OF that] by blast
    then show ?thesis using assms(2) unfolding joined_def count_where_zero by fastforce
  qed
  then show "waiting s p = 0" unfolding waiting_def using weigh_cong [of "rDedup s" "joined s p" "\<lambda>_. 0"] 
    by (simp add: weigh_zero)
qed

text \<open>A peer before it has done anything, and its admission.\<close>

definition idle :: "peer \<Rightarrow> bool" where
  "idle x \<longleftrightarrow> pInflight x = 0 \<and> pCalls x = 0 \<and> pMaxInflight x = 0 \<and> pInstanceID x = [] \<and> pServices x = [] \<and> \<not> pDraining x"

lemma idle_newPeer: "idle (newPeer n u)" "idle ((newPeer n u)\<lparr>pRole := r, pId := i\<rparr>)"
  by (simp_all add: idle_def newPeer_def)

definition addPeer :: "peer \<Rightarrow> router \<Rightarrow> router" where
  "addPeer x s = s\<lparr>rPeers := rPeers s @ [rNext s], rPeerObj := (rPeerObj s)(rNext s := x), rNext := rNext s + 1\<rparr>"

lemma connectPeer_adds:
  assumes "connectPeer e u s = (s', Some p)"
  shows "s' = addPeer (newPeer (cOutboxSize (rConfig s)) u) s" "p = rNext s"
  using assms by (auto simp: connectPeer_def addPeer_def Let_def split: if_splits)

lemma virtualClient_adds:
  assumes "virtualClient e u rid s = (s', Some p)"
  shows "s' = addPeer ((newPeer (cOutboxSize (rConfig s)) u)\<lparr>pRole := ''client'', pId := hexEncode rid\<rparr>) s" "p = rNext s"
  using assms by (auto simp: virtualClient_def addPeer_def Let_def split: if_splits)

lemma addPeer_fields [simp]:
  "rConfig (addPeer x s) = rConfig s" "rPeers (addPeer x s) = rPeers s @ [rNext s]" "rPeerObj (addPeer x s) = (rPeerObj s)(rNext s := x)"
  "rInstances (addPeer x s) = rInstances s" "rServices (addPeer x s) = rServices s" "rRoutes (addPeer x s) = rRoutes s"
  "rRouteObj (addPeer x s) = rRouteObj s" "rNext (addPeer x s) = rNext s + 1" "rDedup (addPeer x s) = rDedup s"
  "rDedupOrder (addPeer x s) = rDedupOrder s" "rDedupObj (addPeer x s) = rDedupObj s" "rDeadlines (addPeer x s) = rDeadlines s"
  "rClosed (addPeer x s) = rClosed s" "rDraining (addPeer x s) = rDraining s" "rAuth (addPeer x s) = rAuth s"
  by (simp_all add: addPeer_def)

lemma inv_addPeer:
  assumes "routerInv s" "idle x"
  shows "routerInv (addPeer x s)"
proof -
  let ?s = "addPeer x s"
  note i = invButD [OF assms(1)] and f = addPeer_fields [of x s]
  note c = counts_same [OF f(6,7,9,11)] fresh_counts [OF assms(1) le_refl]
  have n: "pInflight x = 0" "pCalls x = 0" "pMaxInflight x = 0" "pInstanceID x = []" "\<not> pDraining x" using assms(2) by (simp_all add: idle_def)
  show ?thesis unfolding invBut_def
  proof (intro conjI)
    show "routesOk ?s" using i(1) unfolding routesOk_def f by (fastforce intro: less_SucI)
    show "tableOk {} ?s" using i(2) unfolding tableOk_def f by (fastforce intro: less_SucI)
    show "countsOk ?s" using i(3) unfolding countsOk_def c f by (simp add: c n)
    show "heapOk ?s" using i(4) unfolding heapOk_def f deadlines_obj [OF f(7)] .
    have m: "p < rNext s" if "map_of (rServices s) svc = Some pl" "p \<in> set (plInstances pl)" for svc pl p
      using instance_known(1) [OF assms(1)] pool_member(1) [OF assms(1) that] by blast
    show "poolsOk ?s" using i(5) m unfolding poolsOk_def f by (auto simp: n intro: less_SucI)
    show "limitsOk ?s" using i(6) unfolding limitsOk_def f by (simp add: n)
  qed
qed

lemma inv_hello: "routerInv s \<Longrightarrow> hello cid p f s = (s', ok) \<Longrightarrow> routerInv s'"
  unfolding hello_def by (auto split: if_splits intro!: inv_quiet [OF _ quiet_sendTo] inv_updPeer)

text \<open>Registration.\<close>

lemma checkServices_Cons:
  assumes "checkServices u seen (sv # svs) = None"
  shows "validServiceName (sName sv)" "\<not> hasPrefix (sName sv) reservedPrefix" "sName sv \<notin> set seen" "allowsRegistration u (sName sv)"
    "checkMethods [] (sMethods sv) = None" "checkServices u (sName sv # seen) svs = None"
  using assms unfolding checkServices.simps List.member_iff by (simp_all split: if_splits option.splits)

lemma checkServices_names:
  "checkServices u seen svs = None \<Longrightarrow> distinct (map sName svs) \<and> set (map sName svs) \<inter> set seen = {} \<and>
     (\<forall>sv \<in> set svs. validServiceName (sName sv) \<and> \<not> hasPrefix (sName sv) reservedPrefix \<and> allowsRegistration u (sName sv))"
proof (induction svs arbitrary: seen)
  case (Cons sv svs)
  note c = checkServices_Cons [OF Cons.prems]
  show ?case using Cons.IH [OF c(6)] c(1-4) by auto
qed simp

lemma joinPool_services: "joinPool p sv s = s\<lparr>rServices := rServices (joinPool p sv s)\<rparr>"
  by (simp add: joinPool_def Let_def)

lemma joinPool_map:
  "map_of (rServices (joinPool p sv s)) svc = (if svc = sName sv then
     Some (the (map_of (rServices (joinPool p sv s)) (sName sv))) else map_of (rServices s) svc)"
  "set (plInstances (the (map_of (rServices (joinPool p sv s)) (sName sv)))) =
     insert p (case map_of (rServices s) (sName sv) of Some pl \<Rightarrow> set (plInstances pl) | None \<Rightarrow> {})"
  "distinct (plInstances (the (map_of (rServices (joinPool p sv s)) (sName sv)))) =
     (case map_of (rServices s) (sName sv) of Some pl \<Rightarrow> distinct (plInstances pl) \<and> p \<notin> set (plInstances pl) | None \<Rightarrow> True)"
  by (auto simp: joinPool_def Let_def split: option.split)

lemma inv_services:
  assumes "invBut X s" "s' = s\<lparr>rServices := rServices s'\<rparr>" "poolsOk s'"
  shows "invBut X s'"
proof -
  note i = invButD [OF assms(1)]
  obtain m where m: "s' = s\<lparr>rServices := m\<rparr>" using assms(2) by metis
  have f: "rConfig s' = rConfig s" "rPeerObj s' = rPeerObj s" "rRoutes s' = rRoutes s" "rRouteObj s' = rRouteObj s" "rNext s' = rNext s"
    "rDedup s' = rDedup s" "rDedupOrder s' = rDedupOrder s" "rDedupObj s' = rDedupObj s" "rDeadlines s' = rDeadlines s" by (simp_all add: m)
  note c = counts_same [OF f(3,4,6,8)]
  show ?thesis unfolding invBut_def
  proof (intro conjI)
    show "routesOk s'" using i(1) unfolding routesOk_def f .
    show "tableOk X s'" using i(2) unfolding tableOk_def f .
    show "countsOk s'" using i(3) unfolding countsOk_def f c .
    show "heapOk s'" using i(4) unfolding heapOk_def f deadlines_obj [OF f(4)] .
    show "poolsOk s'" by fact
    show "limitsOk s'" using i(6) unfolding limitsOk_def f .
  qed
qed

definition registered :: "addr \<Rightarrow> router \<Rightarrow> bool" where
  "registered p s \<longleftrightarrow> map_of (rInstances s) (pInstanceID (rPeerObj s p)) = Some p"

definition inPool :: "addr \<Rightarrow> string \<Rightarrow> router \<Rightarrow> bool" where
  "inPool p svc s \<longleftrightarrow> (\<exists>pl. map_of (rServices s) svc = Some pl \<and> p \<in> set (plInstances pl))"

lemma pools_joinPool:
  assumes "poolsOk s" "registered p s" "\<not> pDraining (rPeerObj s p)" "sv \<in> set (pServices (rPeerObj s p))" "\<not> inPool p (sName sv) s"
  shows "poolsOk (joinPool p sv s)"
proof -
  let ?s = "joinPool p sv s"
  have f: "rInstances ?s = rInstances s" "rPeerObj ?s = rPeerObj s" "rNext ?s = rNext s" "rPeers ?s = rPeers s"
    by (simp_all add: joinPool_def Let_def)
  note m = joinPool_map [where p = p and sv = sv and s = s]
  have "distinct (plInstances pl) \<and> plInstances pl \<noteq> [] \<and> (\<forall>q \<in> set (plInstances pl). registered q s \<and> \<not> pDraining (rPeerObj s q) \<and>
      (\<exists>x \<in> set (pServices (rPeerObj s q)). sName x = svc))" if pl: "map_of (rServices ?s) svc = Some pl" for svc pl
  proof (cases "svc = sName sv")
    case False
    then have "map_of (rServices s) svc = Some pl" using pl m(1) [of svc] by simp
    then show ?thesis using assms(1) by (simp add: poolsOk_def registered_def)
  next
    case True
    then have pl': "pl = the (map_of (rServices ?s) (sName sv))" using pl by simp
    have old: "distinct (plInstances o')" "\<forall>q \<in> set (plInstances o'). registered q s \<and> \<not> pDraining (rPeerObj s q) \<and>
      (\<exists>x \<in> set (pServices (rPeerObj s q)). sName x = svc)" "p \<notin> set (plInstances o')" if "map_of (rServices s) svc = Some o'" for o'
      using assms(1,5) that True by (auto simp: poolsOk_def registered_def inPool_def)
    have set: "set (plInstances pl) = insert p (case map_of (rServices s) svc of Some o' \<Rightarrow> set (plInstances o') | None \<Rightarrow> {})"
      using m(2) True pl' by simp
    have "distinct (plInstances pl)" using m(3) True pl' old by (simp split: option.split)
    moreover have "plInstances pl \<noteq> []" using set by (metis empty_set insert_not_empty)
    moreover have "registered q s \<and> \<not> pDraining (rPeerObj s q) \<and> (\<exists>x \<in> set (pServices (rPeerObj s q)). sName x = svc)"
      if "q \<in> set (plInstances pl)" for q
      using that old(2) assms(2-4) True unfolding set by (auto split: option.splits)
    ultimately show ?thesis by blast
  qed
  then show ?thesis using assms(1) unfolding poolsOk_def f registered_def by blast
qed

lemma inv_joinPools:
  assumes "routerInv s" "registered p s" "\<not> pDraining (rPeerObj s p)" "set svs \<subseteq> set (pServices (rPeerObj s p))"
    "distinct (map sName svs)" "\<And>sv. sv \<in> set svs \<Longrightarrow> \<not> inPool p (sName sv) s"
  shows "routerInv (fold (joinPool p) svs s)"
  using assms
proof (induction svs arbitrary: s)
  case (Cons sv svs)
  let ?s = "joinPool p sv s"
  have i: "routerInv ?s"
    by (rule inv_services [OF Cons.prems(1) joinPool_services pools_joinPool])
      (use Cons.prems invButD(5) [OF Cons.prems(1)] in auto)
  have f: "rInstances ?s = rInstances s" "rPeerObj ?s = rPeerObj s" by (simp_all add: joinPool_def Let_def)
  have "\<not> inPool p (sName x) ?s" if "x \<in> set svs" for x
  proof -
    have "sName x \<noteq> sName sv" using that Cons.prems(5) by (metis distinct.simps(2) image_eqI list.simps(9) set_map)
    then show ?thesis using Cons.prems(6) [of x] that joinPool_map(1) [of p sv s "sName x"] by (simp add: inPool_def)
  qed
  then show ?case using Cons.IH [OF i] Cons.prems by (simp add: f registered_def)
qed simp

lemma inv_nameInstance:
  assumes "routerInv s" "p < rNext s" "pInstanceID (rPeerObj s p) = []" "iid \<noteq> []" "map_of (rInstances s) iid = None"
  shows "routerInv ((updPeer p (\<lambda>x. x\<lparr>pInstanceID := iid, pServices := svs, pMaxInflight := n\<rparr>) s)
      \<lparr>rInstances := AList.update iid p (rInstances s)\<rparr>)" (is "routerInv ?s")
proof -
  note i = invButD [OF assms(1)]
  have f: "rConfig ?s = rConfig s" "rPeers ?s = rPeers s" "rRoutes ?s = rRoutes s" "rRouteObj ?s = rRouteObj s" "rNext ?s = rNext s"
    "rDedup ?s = rDedup s" "rDedupOrder ?s = rDedupOrder s" "rDedupObj ?s = rDedupObj s" "rDeadlines ?s = rDeadlines s"
    "rServices ?s = rServices s" "rInstances ?s = AList.update iid p (rInstances s)"
    "rPeerObj ?s = (rPeerObj s)(p := (rPeerObj s p)\<lparr>pInstanceID := iid, pServices := svs, pMaxInflight := n\<rparr>)"
    by (simp_all add: updPeer_def)
  note c = counts_same [OF f(3,4,6,8)]
  have none: "routedTo s p = 0"
  proof -
    have "rtInstance (rRouteObj s a) \<noteq> p" if "(c, a) \<in> set (rRoutes s)" for c a
      using route_facts(5) [OF assms(1)] map_of_distinct_eq [OF routes_distinct [OF assms(1)], THEN iffD2, OF that] assms(3) by blast
    then show ?thesis unfolding routedTo_def count_where_zero by auto
  qed
  have old: "q \<noteq> p" if "map_of (rInstances s) k = Some q" for k q
    using instance_known(2) [OF assms(1) that] assms(3) by auto
  have mem: "q \<noteq> p \<and> pInstanceID (rPeerObj s q) \<noteq> iid" if "map_of (rServices s) svc = Some pl" "q \<in> set (plInstances pl)" for svc pl q
    using pool_member(1) [OF assms(1) that] old assms(5) by auto
  show ?thesis unfolding invBut_def
  proof (intro conjI)
    show "routesOk ?s" using i(1) assms(4) unfolding routesOk_def f by auto
    show "tableOk {} ?s" using i(2) unfolding tableOk_def f .
    show "countsOk ?s" using i(3) unfolding countsOk_def c f by simp
    show "heapOk ?s" using i(4) unfolding heapOk_def f deadlines_obj [OF f(4)] .
    show "limitsOk ?s" using i(3,6) none unfolding limitsOk_def countsOk_def f by simp
    have "\<forall>svc pl. map_of (rServices s) svc = Some pl \<longrightarrow> distinct (plInstances pl) \<and> plInstances pl \<noteq> [] \<and>
        (\<forall>q \<in> set (plInstances pl). map_of (rInstances ?s) (pInstanceID (rPeerObj ?s q)) = Some q \<and> \<not> pDraining (rPeerObj ?s q) \<and>
           (\<exists>sv \<in> set (pServices (rPeerObj ?s q)). sName sv = svc))"
      using i(5) mem unfolding poolsOk_def f by simp
    moreover have "\<forall>k q. map_of (rInstances ?s) k = Some q \<longrightarrow> q < rNext s \<and> pInstanceID (rPeerObj ?s q) = k \<and> k \<noteq> []"
      using i(5) old assms(2,4,5) unfolding poolsOk_def f by auto
    ultimately show "poolsOk ?s" using i(5) assms(4) unfolding poolsOk_def f(2,5,10) by (simp add: f(12))
  qed
qed

lemma inv_register:
  assumes "routerInv s" "p < rNext s" "pInstanceID (rPeerObj s p) = []" "fInstanceID f \<noteq> []" "register p f s = Inr s'"
  shows "routerInv s'"
proof -
  define svs where "svs = (case fServices f of Some x \<Rightarrow> x | None \<Rightarrow> [])"
  let ?s2 = "(updPeer p (\<lambda>x. x\<lparr>pInstanceID := fInstanceID f, pServices := svs, pMaxInflight := fMaxInflight f\<rparr>) s)
      \<lparr>rInstances := AList.update (fInstanceID f) p (rInstances s)\<rparr>"
  let ?s3 = "sendTo p (registerAck (fInstanceID f)) ?s2"
  have c: "checkServices (pUser (rPeerObj s p)) [] svs = None" "map_of (rInstances s) (fInstanceID f) = None"
    "s' = fold (joinPool p) svs ?s3"
    using assms(5) unfolding register_def Let_def svs_def [symmetric] by (auto split: option.splits if_splits)
  have i3: "routerInv ?s3" by (rule inv_quiet [OF inv_nameInstance [OF assms(1-4) c(2)] quiet_sendTo])
  have d: "\<not> pDraining (rPeerObj s p)" using invButD(5) [OF assms(1)] assms(3) by (auto simp: poolsOk_def)
  have "\<not> inPool p svc s" for svc
    using instance_known(2) [OF assms(1)] pool_member(1) [OF assms(1)] assms(3) unfolding inPool_def by blast
  then have "\<not> inPool p svc ?s3" for svc by (simp add: inPool_def)
  then show ?thesis unfolding c(3)
    by (intro inv_joinPools [OF i3]) (use d checkServices_names [OF c(1)] in \<open>simp_all add: registered_def\<close>)
qed

text \<open>Leaving pools, for draining and for disconnecting.\<close>

lemma leavePool_services: "leavePool p sv s = s\<lparr>rServices := rServices (leavePool p sv s)\<rparr>"
  by (simp add: leavePool_def Let_def split: option.split)

lemma leavePool_map:
  "map_of (rServices (leavePool p sv s)) svc = (case map_of (rServices s) svc of
     None \<Rightarrow> None
   | Some pl0 \<Rightarrow> if sName sv \<noteq> svc then Some pl0 else if filter (\<lambda>q. q \<noteq> p) (plInstances pl0) = [] then None
       else Some (rebuildMethods (rPeerObj s) (pl0\<lparr>plInstances := filter (\<lambda>q. q \<noteq> p) (plInstances pl0)\<rparr>)))"
  by (cases "map_of (rServices s) (sName sv)") (auto simp: leavePool_def Let_def split: option.split)

text \<open>How pool \<open>pl0\<close> of service \<open>svc\<close> becomes \<open>pl\<close> when \<open>p\<close> leaves the pools of \<open>svs\<close>.\<close>

definition leftPool :: "addr \<Rightarrow> service list \<Rightarrow> string \<Rightarrow> pool \<Rightarrow> pool \<Rightarrow> bool" where
  "leftPool p svs svc pl0 pl \<longleftrightarrow> (plInstances pl0 \<noteq> [] \<longrightarrow> plInstances pl \<noteq> []) \<and>
     (plInstances pl = plInstances pl0 \<or> plInstances pl = filter (\<lambda>q. q \<noteq> p) (plInstances pl0)) \<and>
     (svc \<in> sName ` set svs \<longrightarrow> p \<notin> set (plInstances pl))"

definition leftPools :: "addr \<Rightarrow> service list \<Rightarrow> router \<Rightarrow> router \<Rightarrow> bool" where
  "leftPools p svs s s' \<longleftrightarrow> s' = s\<lparr>rServices := rServices s'\<rparr> \<and>
     (\<forall>svc pl. map_of (rServices s') svc = Some pl \<longrightarrow> (\<exists>pl0. map_of (rServices s) svc = Some pl0 \<and> leftPool p svs svc pl0 pl))"

lemma leftPool_step:
  assumes "leftPool p svs svc pl1 pl" "map_of (rServices (leavePool p sv s)) svc = Some pl1"
  shows "\<exists>pl0. map_of (rServices s) svc = Some pl0 \<and> leftPool p (sv # svs) svc pl0 pl"
proof (cases "map_of (rServices s) svc")
  case None
  then show ?thesis using assms(2) by (simp add: leavePool_map)
next
  case (Some pl0)
  show ?thesis
  proof (cases "sName sv = svc")
    case False
    then show ?thesis using assms Some by (auto simp: leavePool_map leftPool_def)
  next
    case True
    then have "plInstances pl1 = filter (\<lambda>q. q \<noteq> p) (plInstances pl0)" "plInstances pl1 \<noteq> []"
      using assms(2) Some by (auto simp: leavePool_map rebuildMethods_def split: if_splits)
    then show ?thesis using assms(1) Some by (auto simp: leftPool_def)
  qed
qed

lemma leftPools_step:
  assumes "leftPools p svs (leavePool p sv s) s'"
  shows "leftPools p (sv # svs) s s'"
proof -
  obtain m where "leavePool p sv s = s\<lparr>rServices := m\<rparr>" using leavePool_services by metis
  moreover obtain n where "s' = (leavePool p sv s)\<lparr>rServices := n\<rparr>" using assms unfolding leftPools_def by metis
  ultimately have "s' = s\<lparr>rServices := rServices s'\<rparr>" by simp
  then show ?thesis using assms leftPool_step unfolding leftPools_def by metis
qed

lemma leftPools_fold: "leftPools p svs s (fold (leavePool p) svs s)"
proof (induction svs arbitrary: s)
  case Nil
  show ?case by (simp add: leftPools_def leftPool_def)
next
  case (Cons sv svs)
  show ?case using leftPools_step [OF Cons.IH] by simp
qed

text \<open>A peer that stops being routable (it is now draining, or no longer registered) and has left its pools.\<close>

lemma pools_left:
  assumes "poolsOk s" "leftPools p (pServices (rPeerObj s p)) s1 s'" "rServices s1 = rServices s" "rNext s1 = rNext s"
    "\<And>q. q \<noteq> p \<Longrightarrow> rPeerObj s1 q = rPeerObj s q" "pServices (rPeerObj s1 p) = pServices (rPeerObj s p)"
    "pInstanceID (rPeerObj s1 p) = pInstanceID (rPeerObj s p)" "set (rPeers s1) \<subseteq> set (rPeers s)"
    "\<And>k q. map_of (rInstances s1) k = Some q \<Longrightarrow> map_of (rInstances s) k = Some q"
    "\<And>k q. map_of (rInstances s) k = Some q \<Longrightarrow> q \<noteq> p \<Longrightarrow> map_of (rInstances s1) k = Some q"
    "pDraining (rPeerObj s1 p) \<Longrightarrow> pInstanceID (rPeerObj s p) \<noteq> []"
  shows "poolsOk s'"
proof -
  obtain m where m: "s' = s1\<lparr>rServices := m\<rparr>" using assms(2) unfolding leftPools_def by metis
  have id: "pInstanceID (rPeerObj s1 q) = pInstanceID (rPeerObj s q)" "pServices (rPeerObj s1 q) = pServices (rPeerObj s q)" for q
    using assms(5-7) by (cases "q = p"; simp)+
  have "distinct (plInstances pl) \<and> plInstances pl \<noteq> [] \<and> (\<forall>q \<in> set (plInstances pl).
      map_of (rInstances s1) (pInstanceID (rPeerObj s1 q)) = Some q \<and> \<not> pDraining (rPeerObj s1 q) \<and>
      (\<exists>sv \<in> set (pServices (rPeerObj s1 q)). sName sv = svc))" if pl: "map_of m svc = Some pl" for svc pl
  proof -
    obtain pl0 where 0: "map_of (rServices s) svc = Some pl0" "leftPool p (pServices (rPeerObj s p)) svc pl0 pl"
      using assms(2) pl unfolding leftPools_def assms(3) m by auto
    have ok: "distinct (plInstances pl0)" "plInstances pl0 \<noteq> []"
      "\<And>q. q \<in> set (plInstances pl0) \<Longrightarrow> map_of (rInstances s) (pInstanceID (rPeerObj s q)) = Some q \<and> \<not> pDraining (rPeerObj s q) \<and>
         (\<exists>sv \<in> set (pServices (rPeerObj s q)). sName sv = svc)"
      using assms(1) 0(1) unfolding poolsOk_def by blast+
    have sub: "set (plInstances pl) \<subseteq> set (plInstances pl0)" "distinct (plInstances pl)" "plInstances pl \<noteq> []" using 0(2) ok(1,2) by (auto simp: leftPool_def)
    have "p \<notin> set (plInstances pl)"
    proof
      assume p: "p \<in> set (plInstances pl)"
      then have "svc \<in> sName ` set (pServices (rPeerObj s p))" using ok(3) sub(1) by blast
      then show False using 0(2) p by (simp add: leftPool_def)
    qed
    then show ?thesis using sub ok(3) assms(5,10) id by (metis subsetD)
  qed
  then show ?thesis using assms(1) assms(4,5,8,9,11) id unfolding poolsOk_def m
    by simp (metis subsetD)
qed

lemma leavePools_left: "leftPools p (pServices (rPeerObj s p)) s (leavePools p s)"
  unfolding leavePools_def by (rule leftPools_fold)

lemma leavePools_fields:
  "leavePools p s = s\<lparr>rServices := rServices (leavePools p s)\<rparr>"
  using leavePools_left unfolding leftPools_def by blast

text \<open>Everything but the pools, the registrations and the draining mark is untouched.\<close>

lemma inv_pools:
  assumes "invBut X s" "poolsOk s'" "rConfig s' = rConfig s" "rRoutes s' = rRoutes s" "rRouteObj s' = rRouteObj s" "rNext s' = rNext s"
    "rDedup s' = rDedup s" "rDedupOrder s' = rDedupOrder s" "rDedupObj s' = rDedupObj s" "rDeadlines s' = rDeadlines s"
    "\<And>q. pInflight (rPeerObj s' q) = pInflight (rPeerObj s q) \<and> pCalls (rPeerObj s' q) = pCalls (rPeerObj s q) \<and>
        pMaxInflight (rPeerObj s' q) = pMaxInflight (rPeerObj s q) \<and> pInstanceID (rPeerObj s' q) = pInstanceID (rPeerObj s q)"
  shows "invBut X s'"
proof -
  note i = invButD [OF assms(1)] and f = assms(3-10)
  have g: "pInflight (rPeerObj s' q) = pInflight (rPeerObj s q)" "pCalls (rPeerObj s' q) = pCalls (rPeerObj s q)"
    "pMaxInflight (rPeerObj s' q) = pMaxInflight (rPeerObj s q)" "pInstanceID (rPeerObj s' q) = pInstanceID (rPeerObj s q)" for q
    using assms(11) by simp_all
  note c = counts_same [OF f(2,3,5,7)]
  show ?thesis unfolding invBut_def
  proof (intro conjI)
    show "routesOk s'" using i(1) unfolding routesOk_def f g .
    show "tableOk X s'" using i(2) unfolding tableOk_def f .
    show "countsOk s'" using i(3) unfolding countsOk_def f g c .
    show "heapOk s'" using i(4) unfolding heapOk_def f deadlines_obj [OF f(3)] .
    show "poolsOk s'" by fact
    show "limitsOk s'" using i(6) unfolding limitsOk_def f g .
  qed
qed

lemma inv_drain:
  assumes "routerInv s"
  shows "routerInv (drain p s)"
proof (cases "pDraining (rPeerObj s p) \<or> map_of (rInstances s) (pInstanceID (rPeerObj s p)) \<noteq> Some p")
  case True
  then show ?thesis using assms by (simp add: drain_def)
next
  case False
  let ?s1 = "updPeer p (\<lambda>x. x\<lparr>pDraining := True\<rparr>) s"
  obtain m where m: "leavePools p ?s1 = ?s1\<lparr>rServices := m\<rparr>" using leavePools_fields by metis
  have ne: "pInstanceID (rPeerObj s p) \<noteq> []" using instance_known(2) [OF assms] False by blast
  have "leftPools p (pServices (rPeerObj s p)) ?s1 (leavePools p ?s1)" using leavePools_left [of p ?s1] by simp
  then have "poolsOk (leavePools p ?s1)"
    by (rule pools_left [OF invButD(5) [OF assms]]) (simp_all add: ne)
  then have "routerInv (leavePools p ?s1)"
    by (rule inv_pools [OF assms]) (simp_all add: m)
  then show ?thesis using False by (simp add: drain_def)
qed

lemma inv_leave:
  assumes "routerInv s"
  shows "routerInv (if map_of (rInstances s) (pInstanceID (rPeerObj s p)) = Some p
    then leavePools p (s\<lparr>rInstances := AList.delete (pInstanceID (rPeerObj s p)) (rInstances s)\<rparr>) else s)"
proof (cases "map_of (rInstances s) (pInstanceID (rPeerObj s p)) = Some p")
  case True
  let ?s1 = "s\<lparr>rInstances := AList.delete (pInstanceID (rPeerObj s p)) (rInstances s)\<rparr>"
  obtain m where m: "leavePools p ?s1 = ?s1\<lparr>rServices := m\<rparr>" using leavePools_fields by metis
  have l: "leftPools p (pServices (rPeerObj s p)) ?s1 (leavePools p ?s1)" using leavePools_left [of p ?s1] by simp
  have "poolsOk (leavePools p ?s1)"
    by (rule pools_left [OF invButD(5) [OF assms] l])
      (use True instance_known(2) [OF assms True] in \<open>auto split: if_splits\<close>)
  then have "routerInv (leavePools p ?s1)"
    by (rule inv_pools [OF assms]) (simp_all add: m)
  then show ?thesis using True by simp
qed (simp add: assms)

lemma inv_dropPeer:
  assumes "routerInv s"
  shows "routerInv (s\<lparr>rPeers := removeAll p (rPeers s)\<rparr>)"
  by (rule inv_pools [OF assms]) (use invButD(5) [OF assms] in \<open>auto simp: poolsOk_def\<close>)

lemma inv_remove:
  assumes "routerInv s"
  shows "routerInv (remove e p s)"
proof -
  define s1 where "s1 = s\<lparr>rPeers := removeAll p (rPeers s)\<rparr>"
  define s2 where "s2 = (if rClosed s1 \<and> rPeers s1 = [] then s1\<lparr>rPeersGone := True\<rparr> else s1)"
  define s3 where "s3 = (if map_of (rInstances s2) (pInstanceID (rPeerObj s2 p)) = Some p
      then leavePools p (s2\<lparr>rInstances := AList.delete (pInstanceID (rPeerObj s2 p)) (rInstances s2)\<rparr>) else s2)"
  have "routerInv s1" unfolding s1_def by (rule inv_dropPeer [OF assms])
  then have "routerInv s2" using inv_flags(4) by (simp add: s2_def)
  then have i: "routerInv s3" unfolding s3_def by (rule inv_leave)
  show ?thesis unfolding remove_def Let_def s1_def [symmetric] s2_def [symmetric] s3_def [symmetric]
    using inv_fold_routes [OF endsOnly_removeRoute i routes_snapshot [OF i]] by blast
qed

lemma inv_disconnect: "routerInv s \<Longrightarrow> routerInv (disconnect e p s)"
  unfolding disconnect_def by (intro inv_remove inv_updPeer) simp_all

text \<open>A message leads to one of four effects.\<close>

lemma handleMessage_effect:
  assumes "P s" "\<And>f. P (sendTo p f s)" "\<And>f. P (sendTo p f (drain p s))" "\<And>f. P (forward e p f s)"
  shows "P (fst (handleMessage e p d s))"
  unfolding handleMessage_def by (simp only: fst_conv assms simp_thms split: prod.split option.split if_split)

lemma inv_handleMessage:
  assumes "routerInv s" "p < rNext s"
  shows "routerInv (fst (handleMessage e p d s))"
  by (rule handleMessage_effect)
    (rule assms(1) inv_quiet [OF assms(1) quiet_sendTo] inv_quiet [OF inv_drain [OF assms(1)] quiet_sendTo] inv_forward [OF assms])+

end
