(* ===== verification/Router_Props.thy ===== *)
theory Router_Props
  imports Router_Run
begin

text \<open>
  What a run of the Router guarantees: exact books and kept limits in every reachable state, every call
  answered when the Router closes, permissions enforced, calls isolated from third parties, and what
  deduplication does with the calls of an abandoned key.
\<close>

section \<open>Identities do not change under the calls of others\<close>

definition identity :: "peer \<Rightarrow> string \<times> service list \<times> string \<times> user option \<times> int" where
  "identity x = (pInstanceID x, pServices x, pRole x, pUser x, pMaxInflight x)"

text \<open>The parties and the method of a route, and that its caller may call it and its instance serves it.\<close>

definition ends :: "route \<Rightarrow> addr \<times> addr \<times> string \<times> string" where
  "ends rt = (rtClient rt, rtInstance rt, rtService rt, rtMethod rt)"

definition routeOk :: "router \<Rightarrow> addr \<Rightarrow> bool" where
  "routeOk s a \<longleftrightarrow> (let rt = rRouteObj s a in
     allowsCall (pUser (rPeerObj s (rtClient rt))) (rtService rt) (rtMethod rt) \<and>
     serves (rPeerObj s (rtInstance rt)) (rtService rt) (rtMethod rt))"

text \<open>A steady operation changes no identity, and every route after it is an old one or a proper one.\<close>

definition steady :: "router \<Rightarrow> router \<Rightarrow> bool" where
  "steady s s' \<longleftrightarrow> rNext s \<le> rNext s' \<and> rConfig s' = rConfig s \<and> (\<forall>q. identity (rPeerObj s' q) = identity (rPeerObj s q)) \<and>
     (\<forall>cid a. map_of (rRoutes s') cid = Some a \<longrightarrow>
        (map_of (rRoutes s) cid = Some a \<and> ends (rRouteObj s' a) = ends (rRouteObj s a)) \<or> routeOk s' a)"

lemma steadyD:
  assumes "steady s s'"
  shows "rNext s \<le> rNext s'" "rConfig s' = rConfig s" "identity (rPeerObj s' q) = identity (rPeerObj s q)"
    "map_of (rRoutes s') cid = Some a \<Longrightarrow>
       (map_of (rRoutes s) cid = Some a \<and> ends (rRouteObj s' a) = ends (rRouteObj s a)) \<or> routeOk s' a"
  using assms unfolding steady_def by blast+

text \<open>The common case: the routes are the same, up to what does not concern their ends.\<close>

lemma steady_same:
  assumes "rNext s \<le> rNext s'" "rConfig s' = rConfig s" "\<And>q. identity (rPeerObj s' q) = identity (rPeerObj s q)"
    "rRoutes s' = rRoutes s" "\<And>a. ends (rRouteObj s' a) = ends (rRouteObj s a)"
  shows "steady s s'"
  using assms by (simp add: steady_def)

lemma serves_cong: "pServices x = pServices y \<Longrightarrow> serves x svc m = serves y svc m"
  by (simp add: serves_def)

lemma routeOk_cong:
  assumes "\<And>q. identity (rPeerObj s' q) = identity (rPeerObj s q)" "ends (rRouteObj s' a) = ends (rRouteObj s a)"
  shows "routeOk s' a = routeOk s a"
proof -
  have "pUser (rPeerObj s' q) = pUser (rPeerObj s q)" "serves (rPeerObj s' q) svc m = serves (rPeerObj s q) svc m" for q svc m
    using assms(1) [of q] serves_cong [of "rPeerObj s' q" "rPeerObj s q"] by (simp_all add: identity_def)
  then show ?thesis using assms(2) by (simp add: routeOk_def ends_def Let_def)
qed

lemma steady_refl [simp]: "steady s s" by (simp add: steady_def)

lemma steady_trans:
  assumes "steady s t" "steady t u"
  shows "steady s u"
proof -
  note st = steadyD [OF assms(1)] and tu = steadyD [OF assms(2)]
  have "map_of (rRoutes s) cid = Some a \<and> ends (rRouteObj u a) = ends (rRouteObj s a) \<or> routeOk u a" if "map_of (rRoutes u) cid = Some a" for cid a
    using tu(4) [OF that] st(4) [of cid a] routeOk_cong [OF tu(3), of a] by auto
  then show ?thesis using st(1-3) tu(1-3) by (simp add: steady_def)
qed

lemma steady_fold: "(\<And>x s. steady s (g x s)) \<Longrightarrow> steady s (fold g xs s)"
  by (induction xs arbitrary: s) (auto intro: steady_trans)

lemma steady_quiet: "quiet s s' \<Longrightarrow> steady s s'"
  by (rule steady_same) (simp_all add: quietD identity_def quiet_fields)

lemma steady_released: "released en s s' \<Longrightarrow> steady s s'"
  by (rule steady_same) (simp_all add: identity_def releasedD)

lemma steady_updPeer: "(\<And>x. identity (g x) = identity x) \<Longrightarrow> steady s (updPeer p g s)"
  by (rule steady_same) simp_all

lemma steady_updRoute: "ends (g (rRouteObj s a)) = ends (rRouteObj s a) \<Longrightarrow> steady s (updRoute a g s)"
  by (rule steady_same) simp_all

lemma steady_updEntry: "steady s (updEntry a g s)"
  by (rule steady_same) simp_all

lemma steady_endRoute: "steady s (endRoute cid a s)"
  by (simp add: steady_def identity_def endRoute_fields)

lemma steady_failOwned: "steady s (failOwned now a err lost s)"
  by (cases rule: failOwned_cases [of now a err lost s]) (simp_all add: steady_released)

lemma steady_dedupRemove: "steady s (dedupRemove en s)"
  by (rule steady_same) (simp_all add: dedupRemove_fields)

lemma steady_dedupEvict: "steady s (dedupEvict n s)"
  by (rule steady_same) (simp_all add: dedupEvict_fields)

lemma steady_putEntry: "steady s (putEntry key a s)"
  by (rule steady_same) (simp_all add: ends_def)

lemma steady_dedupInsert: "steady s (dedupInsert key a s)"
  unfolding dedupInsert_put by (rule steady_trans [OF steady_dedupEvict steady_putEntry])

lemma steady_addRoute:
  assumes "\<And>cid a. map_of (rRoutes s) cid = Some a \<Longrightarrow> a < rNext s"
    "allowsCall (pUser (rPeerObj s p)) (fService f) (fMethod f)" "serves (rPeerObj s i) (fService f) (fMethod f)"
  shows "steady s (addRoute now p i f s)"
proof -
  let ?s = "addRoute now p i f s"
  have u: "pRole (rPeerObj ?s q) = pRole (rPeerObj s q)" "pUser (rPeerObj ?s q) = pUser (rPeerObj s q)" for q
    by (simp_all add: addRoute_def Let_def)
  then have "routeOk ?s (rNext s)" using assms(2,3) serves_cong [of "rPeerObj ?s i" "rPeerObj s i"] by (simp add: routeOk_def Let_def)
  moreover have "ends (rRouteObj ?s a) = ends (rRouteObj s a)" if "map_of (rRoutes s) cid = Some a" for cid a
    using assms(1) [OF that] by simp
  ultimately show ?thesis using u by (simp add: steady_def identity_def)
qed

lemma steady_track: "steady s (track now a n s)"
  by (rule steady_same) (simp_all add: track_def Let_def ends_def)

lemma steady_trackOpt: "steady s (case t of None \<Rightarrow> s | Some n \<Rightarrow> track now a (g n) s)"
  by (simp add: steady_track split: option.split)

lemma steady_insertOpt: "steady s (if k then dedupInsert key a s else s)"
  by (simp add: steady_dedupInsert)

lemma steady_openRoute:
  assumes "\<And>cid a. map_of (rRoutes s) cid = Some a \<Longrightarrow> a < rNext s"
    "allowsCall (pUser (rPeerObj s p)) (fService f) (fMethod f)" "serves (rPeerObj s i) (fService f) (fMethod f)"
  shows "steady s (openRoute e p i k f s)"
  unfolding openRoute_def Let_def
  by (rule steady_trans [OF steady_trans [OF steady_trans [OF steady_addRoute [OF assms] steady_trackOpt] steady_insertOpt] steady_quiet [OF quiet_sendTo]])

lemma steady_select:
  assumes "selectInstance e f avoid s = (s', r)"
  shows "steady s s'"
proof -
  obtain s1 where h: "healthOnly s s1"
    and c: "s' = s1 \<or> (\<exists>pl c. map_of (rServices s) (fService f) = Some pl \<and> s' = moveCursor (fService f) pl c s1)"
    using assms by (rule selectInstance_state)
  have "steady s1 (moveCursor (fService f) pl c s1)" for pl c by (rule steady_same) (simp_all add: moveCursor_def)
  then show ?thesis using c steady_trans [OF steady_quiet [OF quiet_healthOnly [OF h]]] steady_quiet [OF quiet_healthOnly [OF h]] by auto
qed

lemma steady_routeCall:
  assumes "\<And>cid a. map_of (rRoutes s) cid = Some a \<Longrightarrow> a < rNext s" "allowsCall (pUser (rPeerObj s p)) (fService f) (fMethod f)"
  shows "steady s (routeCall e p avoid k f s)"
proof (cases "selectInstance e f avoid s")
  case (Pair s1 r)
  note st = steady_select [OF Pair] and sel = select_sel [OF Pair]
  show ?thesis
  proof (cases r)
    case (Inl err)
    then show ?thesis using steady_trans [OF st steady_quiet [OF quiet_refuse]] by (simp add: routeCall_def Pair)
  next
    case (Inr i)
    have i: "pUser (rPeerObj s1 p) = pUser (rPeerObj s p)" "pServices (rPeerObj s1 i) = pServices (rPeerObj s i)"
      using steadyD(3) [OF st, of p] steadyD(3) [OF st, of i] by (simp_all add: identity_def)
    have "serves (rPeerObj s i) (fService f) (fMethod f)" using selectInstance_serves Pair Inr by blast
    then have "steady s1 (openRoute e p i k f s1)"
      by (intro steady_openRoute) (use assms sel(1,3) i in \<open>simp_all add: serves_def\<close>)
    then show ?thesis using steady_trans [OF st] by (simp add: routeCall_def Pair Inr)
  qed
qed

lemma steady_joinWaiter: "steady s (joinWaiter en p cid s)"
  by (rule steady_same) (simp_all add: joinWaiter_def identity_def)

lemma steady_keyedCall:
  assumes "\<And>cid a. map_of (rRoutes s) cid = Some a \<Longrightarrow> a < rNext s" "allowsCall (pUser (rPeerObj s p)) (fService f) (fMethod f)"
  shows "steady s (keyedCall e p f s)"
proof (cases "dedupLookup (eNow e) (dedupKey f) s")
  case (Pair s1 r)
  have l: "s1 = s \<or> (\<exists>en. s1 = dedupRemove en s)" using Pair by (auto simp: dedupLookup_def split: option.splits if_splits)
  then have s1: "steady s s1" using steady_dedupRemove by auto
  have f: "map_of (rRoutes s1) cid = Some a \<Longrightarrow> a < rNext s1" "allowsCall (pUser (rPeerObj s1 p)) (fService f) (fMethod f)" for cid a
    using l assms by (auto simp: dedupRemove_fields)
  have g: "steady s1 (routeCall e p av True f (dedupRemove en s1))" for av en
    by (rule steady_trans [OF steady_dedupRemove steady_routeCall]) (use f in \<open>simp_all add: dedupRemove_fields\<close>)
  have "steady s1 (keyedCall e p f s)"
    using steady_routeCall [OF f] steady_joinWaiter g steady_quiet [OF quiet_sendTo]
    by (simp add: keyedCall_def Pair Let_def split: option.split)
  then show ?thesis using s1 steady_trans by blast
qed

lemma steady_openCall:
  assumes "\<And>cid a. map_of (rRoutes s) cid = Some a \<Longrightarrow> a < rNext s"
  shows "steady s (openCall e p f s)"
proof (cases "allowsCall (pUser (rPeerObj s p)) (fService f) (fMethod f)")
  case True
  show ?thesis unfolding openCall_def Let_def
    by (simp only: steady_quiet [OF quiet_refuse] steady_quiet [OF quiet_management] steady_keyedCall [OF assms True]
        steady_routeCall [OF assms True] split: if_split) simp
next
  case False
  have "hasPrefix (fService f) reservedPrefix" if "fService f = AuthService"
    using that by (simp add: AuthService_def reservedPrefix_def hasPrefix_def)
  then show ?thesis using False steady_quiet [OF quiet_refuse] steady_quiet [OF quiet_management]
    by (auto simp: openCall_def Let_def)
qed

lemma steady_flowViolation: "steady s (flowViolation e a b s)"
proof -
  have "steady s (if b then observe (eNow e) i False s else s)" for i by (simp add: steady_quiet quiet_observe)
  then show ?thesis unfolding flowViolation_def Let_def
    by (intro steady_trans [OF _ steady_endRoute] steady_trans [OF _ steady_quiet [OF quiet_sendTo]] steady_trans [OF _ steady_failOwned])
qed

lemma steady_credit:
  assumes "credit f (rRouteObj s a) = (rt, ok)"
  shows "steady s (updRoute a (\<lambda>_. rt) s)"
  by (rule steady_updRoute) (simp add: ends_def credit_sel [OF assms])

lemma steady_relayClient: "steady s (relayClient e a f s)"
  unfolding relayClient_def Let_def
  by (auto split: prod.split bool.split intro!: steady_flowViolation steady_trans [OF _ steady_endRoute]
      steady_trans [OF _ steady_quiet [OF quiet_finishRoute]] steady_trans [OF _ steady_quiet [OF quiet_sendTo]] steady_credit)

lemma steady_settleOpt: "steady s (case d of Some en \<Rightarrow> dedupSettle now en f s | None \<Rightarrow> s)"
  by (simp add: steady_released [OF released_settle] split: option.split)

lemma steady_relayServer: "steady s (relayServer e p a f s)"
  unfolding relayServer_def Let_def
  by (auto split: prod.split bool.split intro!: steady_flowViolation steady_trans [OF _ steady_endRoute]
      steady_trans [OF _ steady_quiet [OF quiet_finishRoute]] steady_trans [OF _ steady_settleOpt]
      steady_trans [OF _ steady_quiet [OF quiet_observe]] steady_trans [OF _ steady_quiet [OF quiet_sendTo]] steady_credit)

lemma steady_forward:
  assumes "\<And>cid a. map_of (rRoutes s) cid = Some a \<Longrightarrow> a < rNext s"
  shows "steady s (forward e p f s)"
  using steady_openCall [OF assms]
  by (simp add: forward_def Let_def steady_relayClient steady_relayServer steady_quiet quiet_cancelPeer split: option.split)

lemma steady_leavePools: "steady s (leavePools p s)"
proof -
  obtain m where "leavePools p s = s\<lparr>rServices := m\<rparr>" using leavePools_fields by metis
  then show ?thesis by (simp add: steady_def)
qed

lemma steady_drain: "steady s (drain p s)"
  by (simp add: drain_def steady_trans [OF steady_updPeer steady_leavePools] identity_def)

lemma steady_handleMessage:
  assumes "\<And>cid a. map_of (rRoutes s) cid = Some a \<Longrightarrow> a < rNext s"
  shows "steady s (fst (handleMessage e p d s))"
  by (rule handleMessage_effect)
    (rule steady_refl steady_quiet [OF quiet_sendTo] steady_trans [OF steady_drain steady_quiet [OF quiet_sendTo]] steady_forward [OF assms] | assumption)+

lemma steady_removeRoute: "steady s (removeRoute e p x s)"
proof -
  have d: "steady s (case d of Some en \<Rightarrow> if deRoute (rDedupObj s en) = Some a
      then updRoute a (\<lambda>x. x\<lparr>rtDedup := None\<rparr>) (dedupFail now en lost i s) else s | None \<Rightarrow> s)" for d a now lost i
    by (simp add: steady_trans [OF steady_released [OF released_fail] steady_updRoute] ends_def split: option.split)
  note e = steady_trans [OF _ steady_trans [OF steady_quiet [OF quiet_finishRoute] steady_trans [OF steady_endRoute steady_quiet [OF quiet_sendTo]]]]
  show ?thesis unfolding removeRoute_def Let_def using e [OF d] e [OF steady_refl] by (simp split: prod.split)
qed

lemma steady_remove: "steady s (remove e p s)"
proof -
  have f: "steady t (t\<lparr>rPeers := ps\<rparr>)" "steady t (if c then t\<lparr>rPeersGone := b\<rparr> else t)" "steady t (t\<lparr>rInstances := m\<rparr>)" for t ps b c m
    by (simp_all add: steady_def)
  have l: "steady t (if c then leavePools p (t\<lparr>rInstances := m\<rparr>) else t)" for t c m
    by (simp add: steady_trans [OF f(3) steady_leavePools])
  show ?thesis unfolding remove_def Let_def
    by (rule steady_trans [OF steady_trans [OF steady_trans [OF f(1) f(2)] l] steady_fold [where g = "removeRoute e p", OF steady_removeRoute]])
qed

lemma steady_disconnect: "steady s (disconnect e p s)"
  unfolding disconnect_def by (rule steady_trans [OF steady_updPeer steady_remove]) (simp add: identity_def)

lemma steady_expireOne: "steady s (expireOne e s)"
proof -
  have h: "steady s (s\<lparr>rDeadlines := h\<rparr>)" for h by (simp add: steady_def)
  note e = steady_trans [OF steady_trans [OF steady_trans [OF steady_trans [OF steady_trans [OF steady_trans [OF h
    steady_quiet [OF quiet_observe]] steady_quiet [OF quiet_finishRoute]] steady_failOwned] steady_quiet [OF quiet_sendTo]]
    steady_quiet [OF quiet_sendTo]] steady_endRoute]
  show ?thesis unfolding expireOne_def Let_def using h e by (simp split: prod.split)
qed

lemma steady_expireLoop: "steady s (expireLoop n e s)"
proof (induction n e s rule: expireLoop.induct)
  case (2 n e s)
  then show ?case using steady_trans [OF steady_expireOne] by (auto split: if_splits)
qed simp

lemma steady_startDraining: "steady s (startDraining s)"
proof -
  have "steady s (s\<lparr>rDraining := True\<rparr>)" by (simp add: steady_def)
  then show ?thesis unfolding startDraining_def
    using steady_trans [OF _ steady_quiet [OF quiet_fold [where g = wakePeer, OF quiet_wakePeer]]] by simp
qed

lemma steady_shutdown: "steady s (shutdown s)"
proof -
  have "steady t (markDrained t)" for t by (simp add: steady_def markDrained_def)
  then show ?thesis unfolding shutdown_def Let_def using steady_trans [OF steady_startDraining] steady_startDraining by simp
qed

lemma steady_closeRoute: "steady s (closeRoute e x s)"
  unfolding closeRoute_def Let_def
  by (auto split: prod.split intro: steady_trans [OF steady_trans [OF steady_trans [OF steady_trans [OF steady_failOwned
    steady_quiet [OF quiet_finishRoute]] steady_quiet [OF quiet_sendTo]] steady_quiet [OF quiet_sendTo]] steady_endRoute])

lemma steady_closeRouter: "steady s (closeRouter e s)"
proof -
  have f: "steady t (t\<lparr>rClosed := b\<rparr>)" "steady t (markDrained t)" "steady t (t\<lparr>rPeersGone := b\<rparr>)" for t b
    by (simp_all add: steady_def markDrained_def)
  note c = steady_trans [OF steady_trans [OF steady_trans [OF steady_startDraining f(1)] steady_fold [where g = "closeRoute e", OF steady_closeRoute]] f(2)]
  show ?thesis unfolding closeRouter_def Let_def using c steady_trans [OF c f(3)] by simp
qed

section \<open>Runs\<close>

text \<open>Where the goroutine of a connection stands in \<^verbatim>\<open>handle\<close>: waiting for the hello, for the registration
  that has to follow the given hello, or in its read loop; or it is the virtual client of an HTTP request.\<close>

datatype phase = Greeting | Registering frame | Serving | Virtual

text \<open>The operations of the Router in any order the connections, the writers, the expiry loop and the
  owner of the Router can produce.  \<open>ph p\<close> is the phase of connection \<open>p\<close>, \<open>None\<close> when it is gone.\<close>

inductive step :: "router \<Rightarrow> (addr \<Rightarrow> phase option) \<Rightarrow> router \<Rightarrow> (addr \<Rightarrow> phase option) \<Rightarrow> bool" where
  connect: "connectPeer e u s = (s', Some p) \<Longrightarrow> step s ph s' (ph(p \<mapsto> Greeting))"
| greet: "ph p = Some Greeting \<Longrightarrow> hello cid p f s = (s', True) \<Longrightarrow>
    step s ph s' (ph(p \<mapsto> (if fRole f = ''server'' then Registering f else Serving)))"
| enrol: "ph p = Some (Registering h) \<Longrightarrow> registration p h f s = (s', True) \<Longrightarrow> step s ph s' (ph(p \<mapsto> Serving))"
| message: "ph p = Some Serving \<Longrightarrow> step s ph (fst (handleMessage e p d s)) ph"
| request: "virtualClient e u rid s = (s', Some p) \<Longrightarrow> step s ph s' (ph(p \<mapsto> Virtual))"
| http: "ph p = Some Virtual \<Longrightarrow> step s ph (forward e p f s) ph"
| leave: "ph p \<noteq> None \<Longrightarrow> step s ph (disconnect e p s) (ph(p := None))"
| credentials: "checkAuth sha256 pbkdf2 now header (rAuth s) = (a, r) \<Longrightarrow> step s ph (s\<lparr>rAuth := a\<rparr>) ph"
| expiry: "step s ph (expire e s) ph"
| stop: "step s ph (shutdown s) ph"
| close: "\<not> rClosed s \<Longrightarrow> step s ph (closeRouter e s) ph"
| writer: "pop (pOut (rPeerObj s p)) = Ret (q, f) \<Longrightarrow> step s ph (updPeer p (\<lambda>x. x\<lparr>pOut := q\<rparr>) s) ph"

text \<open>Any number of steps, and the states a new Router can reach.\<close>

inductive steps :: "router \<Rightarrow> (addr \<Rightarrow> phase option) \<Rightarrow> router \<Rightarrow> (addr \<Rightarrow> phase option) \<Rightarrow> bool" for s0 ph0 where
  here: "steps s0 ph0 s0 ph0"
| further: "steps s0 ph0 s ph \<Longrightarrow> step s ph s' ph' \<Longrightarrow> steps s0 ph0 s' ph'"

definition run :: "config \<Rightarrow> auth option \<Rightarrow> router \<Rightarrow> (addr \<Rightarrow> phase option) \<Rightarrow> bool" where
  "run c au s ph \<longleftrightarrow> steps (newRouter c au) (\<lambda>_. None) s ph"

lemma run_start: "run c au (newRouter c au) (\<lambda>_. None)"
  by (simp add: run_def steps.here)

lemma run_step: "run c au s ph \<Longrightarrow> step s ph s' ph' \<Longrightarrow> run c au s' ph'"
  unfolding run_def by (rule steps.further)

definition phaseOk :: "router \<Rightarrow> (addr \<Rightarrow> phase option) \<Rightarrow> bool" where
  "phaseOk s ph \<longleftrightarrow> (\<forall>p. ph p \<noteq> None \<longrightarrow> p < rNext s) \<and>
     (\<forall>p h. ph p = Some Greeting \<or> ph p = Some (Registering h) \<longrightarrow> pInstanceID (rPeerObj s p) = [])"

lemma phaseOk_steady: "phaseOk s ph \<Longrightarrow> steady s s' \<Longrightarrow> phaseOk s' ph"
  by (fastforce simp: phaseOk_def steady_def identity_def)

lemma phaseOk_drop: "phaseOk s ph \<Longrightarrow> phaseOk s (ph(p := None))"
  by (auto simp: phaseOk_def)

lemma phaseOk_serving: "phaseOk s ph \<Longrightarrow> ph p \<noteq> None \<Longrightarrow> phaseOk s (ph(p \<mapsto> Serving))"
  by (auto simp: phaseOk_def)

definition permitted :: "router \<Rightarrow> bool" where
  "permitted s \<longleftrightarrow> (\<forall>cid a. map_of (rRoutes s) cid = Some a \<longrightarrow> routeOk s a)"

definition enrolled :: "router \<Rightarrow> bool" where
  "enrolled s \<longleftrightarrow> (\<forall>p. \<forall>sv \<in> set (pServices (rPeerObj s p)). validServiceName (sName sv) \<and>
     \<not> hasPrefix (sName sv) reservedPrefix \<and> allowsRegistration (pUser (rPeerObj s p)) (sName sv))"

definition good :: "config \<Rightarrow> router \<Rightarrow> (addr \<Rightarrow> phase option) \<Rightarrow> bool" where
  "good c s ph \<longleftrightarrow> routerInv s \<and> phaseOk s ph \<and> rConfig s = c \<and> permitted s \<and> enrolled s"

lemma permitted_steady: "permitted s \<Longrightarrow> steady s s' \<Longrightarrow> permitted s'"
  unfolding permitted_def by (metis steadyD(3,4) routeOk_cong)

lemma enrolled_steady:
  assumes "enrolled s" "steady s s'"
  shows "enrolled s'"
proof -
  have "pServices (rPeerObj s' q) = pServices (rPeerObj s q)" "pUser (rPeerObj s' q) = pUser (rPeerObj s q)" for q
    using steadyD(3) [OF assms(2), of q] by (simp_all add: identity_def)
  then show ?thesis using assms(1) by (simp add: enrolled_def)
qed

lemma good_steady: "good c s ph \<Longrightarrow> steady s s' \<Longrightarrow> routerInv s' \<Longrightarrow> good c s' ph"
  unfolding good_def using phaseOk_steady permitted_steady enrolled_steady steadyD(2) by metis

lemma joinPools_peers: "rPeerObj (fold (joinPool p) svs s) = rPeerObj s \<and> rNext (fold (joinPool p) svs s) = rNext s \<and>
    rConfig (fold (joinPool p) svs s) = rConfig s \<and> rRoutes (fold (joinPool p) svs s) = rRoutes s \<and>
    rRouteObj (fold (joinPool p) svs s) = rRouteObj s"
  by (induction svs arbitrary: s) (simp_all add: joinPool_def Let_def)

lemma register_effect:
  assumes "register p f s = Inr s'"
  obtains svs where "checkServices (pUser (rPeerObj s p)) [] svs = None" "rNext s' = rNext s" "rConfig s' = rConfig s"
    "rRoutes s' = rRoutes s" "rRouteObj s' = rRouteObj s"
    "\<And>q. pUser (rPeerObj s' q) = pUser (rPeerObj s q)" "pServices (rPeerObj s' p) = svs"
    "\<And>q. q \<noteq> p \<Longrightarrow> pServices (rPeerObj s' q) = pServices (rPeerObj s q) \<and> pInstanceID (rPeerObj s' q) = pInstanceID (rPeerObj s q)"
proof -
  define svs where "svs = (case fServices f of Some x \<Rightarrow> x | None \<Rightarrow> [])"
  let ?s2 = "(updPeer p (\<lambda>x. x\<lparr>pInstanceID := fInstanceID f, pServices := svs, pMaxInflight := fMaxInflight f\<rparr>) s)
      \<lparr>rInstances := AList.update (fInstanceID f) p (rInstances s)\<rparr>"
  have c: "checkServices (pUser (rPeerObj s p)) [] svs = None"
    "s' = fold (joinPool p) svs (sendTo p (registerAck (fInstanceID f)) ?s2)"
    using assms unfolding register_def Let_def svs_def [symmetric] by (auto split: option.splits if_splits)
  show thesis by (rule that [OF c(1)]) (simp_all add: c(2) joinPools_peers)
qed

lemma good_addPeer:
  assumes "good c s ph" "idle x"
  shows "good c (addPeer x s) (ph(rNext s \<mapsto> k))"
proof -
  let ?s = "addPeer x s"
  have i: "routerInv s" "phaseOk s ph" "rConfig s = c" "permitted s" "enrolled s" using assms(1) by (simp_all add: good_def)
  have x: "pInstanceID x = []" "pServices x = []" using assms(2) by (simp_all add: idle_def)
  have "phaseOk ?s (ph(rNext s \<mapsto> k))" using i(2) x by (fastforce simp: phaseOk_def)
  moreover have "permitted ?s"
    unfolding permitted_def
  proof (intro allI impI)
    fix cid a assume "map_of (rRoutes ?s) cid = Some a"
    then have m: "map_of (rRoutes s) cid = Some a" by simp
    have "rtClient (rRouteObj s a) \<noteq> rNext s" "rtInstance (rRouteObj s a) \<noteq> rNext s" "routeOk s a"
      using m route_facts(3,4) [OF i(1) m] i(4) by (auto simp: permitted_def)
    then show "routeOk ?s a" by (simp add: routeOk_def Let_def)
  qed
  moreover have "enrolled ?s" using i(5) x by (simp add: enrolled_def)
  ultimately show ?thesis using i(3) inv_addPeer [OF i(1) assms(2)] by (simp add: good_def del: fun_upd_apply)
qed

lemma good_hello:
  assumes "good c s ph" "hello cid p f s = (s', True)" "ph p = Some Greeting"
  shows "good c s' (ph(p \<mapsto> (if fRole f = ''server'' then Registering f else Serving)))"
proof -
  have i: "pInstanceID (rPeerObj s' q) = pInstanceID (rPeerObj s q)" "pUser (rPeerObj s' q) = pUser (rPeerObj s q)"
    "pServices (rPeerObj s' q) = pServices (rPeerObj s q)" "rNext s' = rNext s" "rConfig s' = rConfig s"
    "rRoutes s' = rRoutes s" "rRouteObj s' = rRouteObj s" for q
    using assms(2) by (auto simp: hello_def split: if_splits)
  have "phaseOk s' (ph(p \<mapsto> (if fRole f = ''server'' then Registering f else Serving)))"
    using assms(1,3) i unfolding phaseOk_def good_def by auto
  moreover have "permitted s'" "enrolled s'" using assms(1) i by (simp_all add: good_def permitted_def routeOk_def serves_def enrolled_def Let_def)
  moreover have "routerInv s'" using assms(1) by (intro inv_hello [OF _ assms(2)]) (simp add: good_def)
  ultimately show ?thesis using assms(1) i(5) by (simp add: good_def del: fun_upd_apply)
qed

lemma good_enrol:
  assumes "good c s ph" "registration p h f s = (s', True)" "ph p = Some (Registering h)"
  shows "good c s' (ph(p \<mapsto> Serving))"
proof -
  have r: "fInstanceID f \<noteq> []" "register p f s = Inr s'"
    using assms(2) by (auto simp: registration_def split: if_splits sum.splits)
  obtain svs where g: "checkServices (pUser (rPeerObj s p)) [] svs = None" "rNext s' = rNext s" "rConfig s' = rConfig s"
    "rRoutes s' = rRoutes s" "rRouteObj s' = rRouteObj s" "\<And>q. pUser (rPeerObj s' q) = pUser (rPeerObj s q)" "pServices (rPeerObj s' p) = svs"
    "\<And>q. q \<noteq> p \<Longrightarrow> pServices (rPeerObj s' q) = pServices (rPeerObj s q) \<and> pInstanceID (rPeerObj s' q) = pInstanceID (rPeerObj s q)"
    by (rule register_effect [OF r(2)]) blast
  have inv: "routerInv s" and p: "p < rNext s" "pInstanceID (rPeerObj s p) = []" using assms(1,3) by (auto simp: good_def phaseOk_def)
  have "phaseOk s' (ph(p \<mapsto> Serving))" using assms(1,3) g(2,8) unfolding good_def phaseOk_def by auto
  moreover have "permitted s'"
    unfolding permitted_def g(4)
  proof (intro allI impI)
    fix cid a assume m: "map_of (rRoutes s) cid = Some a"
    have "rtInstance (rRouteObj s a) \<noteq> p" using route_facts(5) [OF inv m] p(2) by auto
    moreover have "routeOk s a" using assms(1) m by (simp add: good_def permitted_def)
    ultimately show "routeOk s' a" using g(5,6,8) by (simp add: routeOk_def Let_def serves_def)
  qed
  moreover have "enrolled s'"
    unfolding enrolled_def
  proof (intro allI ballI)
    fix q sv assume sv: "sv \<in> set (pServices (rPeerObj s' q))"
    show "validServiceName (sName sv) \<and> \<not> hasPrefix (sName sv) reservedPrefix \<and> allowsRegistration (pUser (rPeerObj s' q)) (sName sv)"
      using sv checkServices_names [OF g(1)] assms(1) g(6,7,8) by (cases "q = p") (auto simp: good_def enrolled_def)
  qed
  ultimately show ?thesis using inv_register [OF inv p r] assms(1) g(3) by (simp add: good_def)
qed

lemma good_step:
  assumes "good c s ph" "step s ph s' ph'"
  shows "good c s' ph'"
  using assms(2,1)
proof (induction rule: step.induct)
  case (connect e u s s' p ph)
  show ?case unfolding connectPeer_adds [OF connect(1)] by (rule good_addPeer [OF connect(2) idle_newPeer(1)])
next
  case (greet ph p cid f s s')
  then show ?case using good_hello by blast
next
  case (enrol ph p h f s s')
  then show ?case using good_enrol by blast
next
  case (message ph p s e d)
  then have i: "routerInv s" "p < rNext s" by (auto simp: good_def phaseOk_def)
  show ?case using good_steady [OF message(2) steady_handleMessage inv_handleMessage [OF i]] route_facts(2) [OF i(1)] by blast
next
  case (request e u rid s s' p ph)
  show ?case unfolding virtualClient_adds [OF request(1)] by (rule good_addPeer [OF request(2) idle_newPeer(2)])
next
  case (http ph p s e f)
  then have i: "routerInv s" "p < rNext s" by (auto simp: good_def phaseOk_def)
  show ?case using good_steady [OF http(2) steady_forward inv_forward [OF i]] route_facts(2) [OF i(1)] by blast
next
  case (leave ph p s e)
  then have "good c (disconnect e p s) ph" using good_steady [OF leave(2) steady_disconnect] inv_disconnect by (simp add: good_def)
  then show ?case using phaseOk_drop by (simp add: good_def del: fun_upd_apply)
next
  case (credentials sha256 pbkdf2 now header s a r ph)
  have "routerInv (s\<lparr>rAuth := a\<rparr>)" by (rule inv_sameBooks [OF _ quiet_sameBooks [OF quiet_auth]]) (use credentials in \<open>simp add: good_def\<close>)
  then show ?case by (rule good_steady [OF credentials(2) steady_quiet [OF quiet_auth]])
next
  case (expiry s ph e)
  then show ?case unfolding expire_def using good_steady [OF expiry(1) steady_expireLoop] inv_expireLoop by (simp add: good_def)
next
  case (stop s ph)
  then show ?case using good_steady [OF stop(1) steady_shutdown] inv_shutdown by (simp add: good_def)
next
  case (close s ph e)
  then show ?case using good_steady [OF close(2) steady_closeRouter] inv_closeRouter by (simp add: good_def)
next
  case (writer s p q f ph)
  have w: "steady s (updPeer p (\<lambda>x. x\<lparr>pOut := q\<rparr>) s)" by (rule steady_updPeer) (simp add: identity_def)
  have "routerInv (updPeer p (\<lambda>x. x\<lparr>pOut := q\<rparr>) s)" by (rule inv_updPeer) (use writer in \<open>simp_all add: good_def\<close>)
  then show ?case by (rule good_steady [OF writer(2) w])
qed

lemma good_steps: "steps s ph s' ph' \<Longrightarrow> good c s ph \<Longrightarrow> good c s' ph'"
  by (induction rule: steps.induct) (use good_step in blast)+

lemma run_good: "run c au s ph \<Longrightarrow> good c s ph"
proof -
  have "good c (newRouter c au) (\<lambda>_. None)"
    using inv_new by (simp add: good_def phaseOk_def permitted_def enrolled_def newRouter_def newPeer_def)
  then show "run c au s ph \<Longrightarrow> good c s ph" unfolding run_def using good_steps by blast
qed

end
