(* ===== verification/Router_Demo.thy ===== *)
theory Router_Demo
  imports Router_Props
begin

text \<open>
  A concrete run used to instantiate the theorems: one instance registers a service, an HTTP request
  calls it.  The states are built with the Router's own operations and evaluated symbolically.
\<close>

definition demoConfig :: config where
  "demoConfig = withDefaults zeroConfig"

definition demoEnv :: env where
  "demoEnv = \<lparr>eNow = 0, ePick = 0, eSha256 = (\<lambda>x. x), eFloat = (\<lambda>_. None), eSecret = []\<rparr>"

definition demoMethod :: meth where
  "demoMethod = \<lparr>mName = ''m'', mStream = ''unary'', mBalance = \<lparr>bKind = ''random'', bKey = None\<rparr>\<rparr>"

definition demoService :: service where
  "demoService = \<lparr>sName = ''a.v1.B'', sMethods = [demoMethod], sTargeted = False, sContract = None\<rparr>"

definition demoHello :: frame where
  "demoHello = zeroFrame\<lparr>fKind := ''hello'', fProtocol := ProtocolName, fRole := ''server'', fPeerID := ''p'', fInstanceID := ''i1''\<rparr>"

definition demoRegister :: frame where
  "demoRegister = zeroFrame\<lparr>fKind := ''server.register'', fInstanceID := ''i1'', fServices := Some [demoService]\<rparr>"

definition demoOpen :: frame where
  "demoOpen = zeroFrame\<lparr>fKind := ''call.open'', fCallID := ''c1'', fService := ''a.v1.B'', fMethod := ''m'',
     fPayload := Some ''{}'', fraw := Some ''{}'', fTimeoutMS := Some 5\<rparr>"

definition demo1 :: router where
  "demo1 = addPeer (newPeer (cOutboxSize demoConfig) None) (newRouter demoConfig None)"

definition demo2 :: router where
  "demo2 = sendTo 1 (helloAck (hexEncode ''x'')) (updPeer 1 (\<lambda>x. x\<lparr>pId := hexEncode ''x'', pRole := ''server''\<rparr>) demo1)"

definition demo3 :: router where
  "demo3 = joinPool 1 demoService (sendTo 1 (registerAck ''i1'')
     ((updPeer 1 (\<lambda>x. x\<lparr>pInstanceID := ''i1'', pServices := [demoService], pMaxInflight := 0\<rparr>) demo2)\<lparr>rInstances := [(''i1'', 1)]\<rparr>))"

definition demo4 :: router where
  "demo4 = addPeer ((newPeer (cOutboxSize demoConfig) None)\<lparr>pRole := ''client'', pId := hexEncode ''y''\<rparr>) demo3"

definition demoCall :: router where
  "demoCall = openRoute demoEnv 2 1 False demoOpen demo4"

definition demoPhase :: "addr \<Rightarrow> phase option" where
  "demoPhase = ((\<lambda>_. None)(1 := Some Serving))(2 := Some Virtual)"

lemmas demo_sel = demoEnv_def demoMethod_def demoService_def demoHello_def demoRegister_def demoOpen_def zeroFrame_def

lemma demo_next [simp]: "rNext demo1 = 2" "rNext demo2 = 2" "rNext demo3 = 2" "rNext demo4 = 3"
proof -
  show 1: "rNext demo1 = 2" by (simp add: demo1_def newRouter_def)
  show 2: "rNext demo2 = 2" by (simp add: demo2_def 1)
  show 3: "rNext demo3 = 2" by (simp add: demo3_def joinPool_def Let_def 2)
  show "rNext demo4 = 3" by (simp add: demo4_def 3)
qed

lemma demo1_fields [simp]:
  "rConfig demo1 = demoConfig" "rRoutes demo1 = []" "rInstances demo1 = []" "rServices demo1 = []" "rDraining demo1 = False"
  "rClosed demo1 = False" "rPeerObj demo1 = (\<lambda>_. newPeer 0 None)(1 := newPeer (cOutboxSize demoConfig) None)" "rDeadlines demo1 = emptyHeap"
  by (simp_all add: demo1_def newRouter_def)

lemma auth_sendTo [simp]: "rAuth (sendTo p f s) = rAuth s"
  by (simp add: sendTo_def cancelPeer_def split: prod.split bool.split)

lemma demo3_fields [simp]:
  "rConfig demo3 = demoConfig" "rRoutes demo3 = []" "rDraining demo3 = False" "rClosed demo3 = False" "rAuth demo3 = None"
  "rInstances demo3 = [(''i1'', 1)]" "pServices (rPeerObj demo3 (Suc 0)) = [demoService]" "pInflight (rPeerObj demo3 (Suc 0)) = 0"
  "pMaxInflight (rPeerObj demo3 (Suc 0)) = 0" "rDeadlines demo3 = emptyHeap" "pInstanceID (rPeerObj demo3 (Suc 0)) = ''i1''"
  "rServices demo3 = [(''a.v1.B'', \<lparr>plTargeted = False, plMethods = [(''m'', demoMethod)], plContract = None, plContractMethods = 0,
     plInstances = [1], plCursors = []\<rparr>)]"
  by (simp_all add: demo3_def demo2_def demo1_def joinPool_def Let_def demoService_def newRouter_def newPeer_def putMethods_def demoMethod_def)

lemma demo_checks: "checkServices None [] [demoService] = None"
proof -
  have "validServiceName ''a.v1.B''" by code_simp
  moreover have "\<not> hasPrefix ''a.v1.B'' reservedPrefix" "checkMethods [] [demoMethod] = None" by code_simp+
  ultimately show ?thesis by (simp add: demoService_def allowsRegistration_def)
qed

lemma demo_registered: "registration 1 demoHello demoRegister demo2 = (demo3, True)"
proof -
  have u: "pUser (rPeerObj demo2 (Suc 0)) = None" "rInstances demo2 = []" "rServices demo2 = []" by (simp_all add: demo2_def newPeer_def)
  have "checkCompatible demo2 [demoService] = None" by (simp add: u demoService_def)
  then have "register 1 demoRegister demo2 = Inr demo3"
    using demo_checks by (simp add: register_def u demo3_def demoRegister_def zeroFrame_def)
  then show ?thesis by (simp add: registration_def demoHello_def demoRegister_def zeroFrame_def)
qed

lemma demo_setup: "run demoConfig None demo4 demoPhase"
proof -
  have "connectPeer demoEnv None (newRouter demoConfig None) = (demo1, Some 1)"
    by (simp add: connectPeer_def demo1_def addPeer_def newRouter_def validUser_def)
  from run_step [OF run_start step.connect [OF this]] have r1: "run demoConfig None demo1 ((\<lambda>_. None)(1 \<mapsto> Greeting))" .
  have h: "hello ''x'' 1 demoHello demo1 = (demo2, True)"
    by (simp add: hello_def demo2_def demoHello_def zeroFrame_def newPeer_def allowsRole_def)
  have r2: "run demoConfig None demo2 ((\<lambda>_. None)(1 \<mapsto> Registering demoHello))"
    using run_step [OF r1 step.greet [OF _ h]] by (simp add: demoHello_def zeroFrame_def)
  have r3: "run demoConfig None demo3 ((\<lambda>_. None)(1 \<mapsto> Serving))" using run_step [OF r2 step.enrol [OF _ demo_registered]] by simp
  have "virtualClient demoEnv None ''y'' demo3 = (demo4, Some 2)"
    by (simp add: virtualClient_def demo4_def addPeer_def validUser_def)
  from run_step [OF r3 step.request [OF this]] show ?thesis by (simp add: demoPhase_def)
qed

lemma forward_routes:
  assumes "\<not> pCancelled (rPeerObj s p)" "validUser (eNow e) (rAuth s) (pUser (rPeerObj s p))" "fKind f = ''call.open''"
    "allowsCall (pUser (rPeerObj s p)) (fService f) (fMethod f)" "map_of (rRoutes s) (fCallID f) = None" "\<not> rDraining s"
    "\<not> hasPrefix (fService f) reservedPrefix" "pCalls (rPeerObj s p) < cMaxCallsPerConnection (rConfig s)"
    "length (rRoutes s) < maxRoutes" "fIdempotency f = []"
  shows "forward e p f s = routeCall e p None False f s"
  using assms by (simp add: forward_def openCall_def keyed_def Let_def)

lemma demo3_healthy: "pHealth (rPeerObj demo3 (Suc 0)) = zeroHealth"
proof -
  have "pHealth (rPeerObj (sendTo p f s) q) = pHealth (rPeerObj s q)" for p f s q
    by (simp add: sendTo_def cancelPeer_def split: prod.split bool.split)
  then show ?thesis by (simp add: demo3_def demo2_def joinPool_def Let_def newPeer_def)
qed

lemma demo_select: "selectInstance demoEnv demoOpen None demo4 = (demo4, Inr 1)"
proof -
  have f: "rServices demo4 = rServices demo3" "rPeerObj demo4 (Suc 0) = rPeerObj demo3 (Suc 0)" by (simp_all add: demo4_def)
  have "updPeer (Suc 0) (\<lambda>y. y\<lparr>pHealth := zeroHealth\<rparr>) demo4 = demo4"
    using demo3_healthy f(2) by (simp add: updPeer_def fun_upd_idem)
  then show ?thesis
    by (simp add: selectInstance_def selectKnown_def balanceInstance_def f demoOpen_def zeroFrame_def demoEnv_def serves_def demoService_def
        demoMethod_def Let_def demo3_healthy admit_def healthState_def zeroHealth_def del: updPeer_fields)
qed

lemma demo_forward: "forward demoEnv 2 demoOpen demo4 = demoCall"
proof -
  have "forward demoEnv 2 demoOpen demo4 = routeCall demoEnv 2 None False demoOpen demo4"
    by (rule forward_routes) (simp_all add: demo4_def demoOpen_def zeroFrame_def newPeer_def validUser_def allowsCall_def hasPrefix_def
        reservedPrefix_def demoConfig_def withDefaults_def zeroConfig_def dflt_def maxRoutes_def)
  then show ?thesis by (simp add: routeCall_def demo_select demoCall_def)
qed

text \<open>The run reaches a state with one call in flight.\<close>

lemma demo_run: "run demoConfig None demoCall demoPhase"
  using run_step [OF demo_setup step.http [of demoPhase 2 demo4 demoEnv demoOpen]] by (simp add: demo_forward demoPhase_def)

lemma heapPush_empty: "hList (heapPush dl a emptyHeap) = [a]"
  by (simp add: heapPush_def Let_def sliceAppend_def emptyHeap_def, subst up.simps) (simp add: par_def)

lemma demoCall_fields [simp]:
  "rRoutes demoCall = [(''c1'', 3)]" "rtClient (rRouteObj demoCall 3) = 2" "rtInstance (rRouteObj demoCall 3) = 1"
  "rtService (rRouteObj demoCall 3) = ''a.v1.B''" "rtMethod (rRouteObj demoCall 3) = ''m''" "rtDedup (rRouteObj demoCall 3) = None"
  "pInstanceID (rPeerObj demoCall (Suc 0)) = ''i1''" "rClosed demoCall = False" "hList (rDeadlines demoCall) = [3]"
  "pUser (rPeerObj demoCall q) = pUser (rPeerObj demo4 q)" "pServices (rPeerObj demoCall q) = pServices (rPeerObj demo4 q)"
  by (simp_all add: demoCall_def openRoute_def Let_def demoOpen_def zeroFrame_def track_def demo4_def demoEnv_def addRoute_def newRoute_def
      heapPush_empty)

end
