(* ===== verification/Router_Guarantees.thy ===== *)
theory Router_Guarantees
  imports Router_Demo
begin

text \<open>
  The guarantees of the Router: the books, permissions, the answers
  owed when calls end, isolation between connections, flow control and deduplication.
\<close>

section \<open>Frames that are on their way\<close>

text \<open>A frame is queued for a peer; it is answered when it is queued or the peer's connection is being cut.\<close>

definition queued :: "addr \<Rightarrow> frame \<Rightarrow> router \<Rightarrow> bool" where
  "queued p f s \<longleftrightarrow> f\<lparr>fraw := Some (frameBytes f)\<rparr> \<in> set (callQueue (pOut (rPeerObj s p)) (fCallID f))"

definition answered :: "addr \<Rightarrow> frame \<Rightarrow> router \<Rightarrow> bool" where
  "answered p f s \<longleftrightarrow> queued p f s \<or> pCancelled (rPeerObj s p)"

definition keeps :: "router \<Rightarrow> router \<Rightarrow> bool" where
  "keeps s s' \<longleftrightarrow> (\<forall>p. (\<forall>k. set (callQueue (pOut (rPeerObj s p)) k) \<subseteq> set (callQueue (pOut (rPeerObj s' p)) k)) \<and>
     (pCancelled (rPeerObj s p) \<longrightarrow> pCancelled (rPeerObj s' p)))"

lemma keeps_refl [simp]: "keeps s s" by (simp add: keeps_def)

lemma keeps_trans: "keeps s t \<Longrightarrow> keeps t u \<Longrightarrow> keeps s u" unfolding keeps_def by blast

lemma keeps_fold: "(\<And>x s. keeps s (g x s)) \<Longrightarrow> keeps s (fold g xs s)"
  by (induction xs arbitrary: s) (auto intro: keeps_trans)

lemma answered_keeps: "answered p f s \<Longrightarrow> keeps s s' \<Longrightarrow> answered p f s'"
  unfolding answered_def queued_def keeps_def by blast

lemma keeps_obj: "rPeerObj s' = rPeerObj s \<Longrightarrow> keeps s s'" by (simp add: keeps_def)

lemma keeps_updPeer:
  "(\<And>x. (\<forall>k. callQueue (pOut (g x)) k = callQueue (pOut x) k) \<and> (pCancelled x \<longrightarrow> pCancelled (g x))) \<Longrightarrow> keeps s (updPeer p g s)"
  by (simp add: keeps_def)

lemma push_lands:
  "callQueue (fst (push f q)) k = callQueue q k \<or>
     callQueue (fst (push f q)) k = callQueue q k @ [f\<lparr>fraw := Some (frameBytes f)\<rparr>]"
  by (auto simp: push_def Let_def callQueue_def)

lemma push_accepted: "snd (push f q) \<Longrightarrow> f\<lparr>fraw := Some (frameBytes f)\<rparr> \<in> set (callQueue (fst (push f q)) (fCallID f))"
  by (auto simp: push_def Let_def callQueue_def split: if_splits)

lemma sendTo_cases:
  obtains "snd (push f (pOut (rPeerObj s p)))" "sendTo p f s = updPeer p (\<lambda>x. x\<lparr>pOut := fst (push f (pOut (rPeerObj s p)))\<rparr>) s"
    | "\<not> snd (push f (pOut (rPeerObj s p)))"
      "rPeerObj (sendTo p f s) = (rPeerObj s)(p := (rPeerObj s p)\<lparr>pCancelled := True\<rparr>)"
  by (cases "push f (pOut (rPeerObj s p))"; cases "snd (push f (pOut (rPeerObj s p)))")
    (auto simp: sendTo_def cancelPeer_def updPeer_def)

lemma keeps_sendTo: "keeps s (sendTo p f s)"
proof (cases rule: sendTo_cases [of f s p])
  case 1
  have "set (callQueue q k) \<subseteq> set (callQueue (fst (push f q)) k)" for q k using push_lands [of f q k] by auto
  then show ?thesis using 1 by (simp add: keeps_def)
next
  case 2
  then show ?thesis by (simp add: keeps_def)
qed

lemma sendTo_answered: "answered p f (sendTo p f s)"
proof (cases rule: sendTo_cases [of f s p])
  case 1
  then show ?thesis using push_accepted [OF 1(1)] by (simp add: answered_def queued_def)
next
  case 2
  then show ?thesis by (simp add: answered_def)
qed

lemma keeps_wakePeer: "keeps s (wakePeer p s)"
  unfolding wakePeer_def by (rule keeps_updPeer) (simp add: wakeOutbox_def callQueue_def)

lemma keeps_observe: "keeps s (observe now p ok s)"
  unfolding observe_def by (rule keeps_updPeer) simp

lemma keeps_finishRoute: "keeps s (finishRoute now a code s)"
  by (rule keeps_obj) (simp add: finishRoute_def Let_def)

lemma keeps_callEnded: "keeps s (callEnded c s)"
proof -
  have "keeps s (updPeer c (\<lambda>x. x\<lparr>pCalls := pCalls x - 1\<rparr>) s)" by (rule keeps_updPeer) simp
  then show ?thesis using keeps_trans [OF _ keeps_wakePeer] by (simp add: callEnded_def Let_def)
qed

lemma keeps_endRoute: "keeps s (endRoute cid a s)"
proof -
  define s3 where "s3 = untrack a (updPeer (rtInstance (rRouteObj s a)) (\<lambda>x. x\<lparr>pInflight := pInflight x - 1\<rparr>)
    (s\<lparr>rRoutes := AList.delete cid (rRoutes s)\<rparr>))"
  define s4 where "s4 = callEnded (rtClient (rRouteObj s a)) s3"
  have "keeps s s3" by (simp add: keeps_def s3_def untrack_def)
  then have k: "keeps s s4" unfolding s4_def by (rule keeps_trans [OF _ keeps_callEnded])
  have m: "keeps t (if rRoutes t = [] then markDrained t else t)" for t by (simp add: keeps_def markDrained_def)
  have "keeps s4 (if rDraining s4 then let s5 = wakePeer (rtInstance (rRouteObj s a)) s4 in if rRoutes s5 = [] then markDrained s5 else s5 else s4)"
    using keeps_trans [OF keeps_wakePeer m] by (simp add: Let_def)
  then show ?thesis using keeps_trans [OF k] unfolding endRoute_def Let_def s4_def s3_def by blast
qed

lemma keeps_answerWaiters: "keeps s (answerWaiters f ws s)"
proof (induction f ws s rule: answerWaiters.induct)
  case (2 f c cid ws s)
  then show ?case using keeps_trans [OF keeps_trans [OF keeps_sendTo keeps_callEnded]] by simp
qed simp

lemma answerWaiters_answered: "(c, cid) \<in> set ws \<Longrightarrow> answered c (withCallID f cid) (answerWaiters f ws s)"
proof (induction f ws s rule: answerWaiters.induct)
  case (2 f c' cid' ws s)
  show ?case
  proof (cases "(c, cid) \<in> set ws")
    case True
    then show ?thesis using 2 by simp
  next
    case False
    then have "c = c'" "cid = cid'" using 2(2) by auto
    then show ?thesis
      using answered_keeps [OF answered_keeps [OF sendTo_answered keeps_callEnded] keeps_answerWaiters] by simp
  qed
qed simp

lemma keeps_updEntry: "keeps s (updEntry a g s)" by (rule keeps_obj) simp

lemma keeps_dedupFail: "keeps s (dedupFail now en err lost s)"
  unfolding dedupFail_def Let_def by (rule keeps_trans [OF keeps_answerWaiters keeps_updEntry])

lemma keeps_dedupSettle: "keeps s (dedupSettle now en f s)"
  unfolding dedupSettle_def Let_def by (rule keeps_trans [OF keeps_trans [OF keeps_updEntry keeps_answerWaiters] keeps_updEntry])

lemma keeps_failOwned: "keeps s (failOwned now a err lost s)"
  by (simp add: failOwned_def keeps_dedupFail split: option.split)

text \<open>The waiters of the idempotency entry that a route owns, and that failing the entry answers them.\<close>

definition ownWaiters :: "router \<Rightarrow> addr \<Rightarrow> (addr \<times> string) list" where
  "ownWaiters s a = (case rtDedup (rRouteObj s a) of
      Some en \<Rightarrow> if deRoute (rDedupObj s en) = Some a then deWaiters (rDedupObj s en) else []
    | None \<Rightarrow> [])"

lemma failOwned_answers:
  assumes "(c, w) \<in> set (ownWaiters s a)"
  shows "answered c (withCallID err w) (failOwned now a err lost s)"
proof -
  obtain en where en: "rtDedup (rRouteObj s a) = Some en" "deRoute (rDedupObj s en) = Some a" "(c, w) \<in> set (deWaiters (rDedupObj s en))"
    using assms by (cases "rtDedup (rRouteObj s a)") (auto simp: ownWaiters_def split: if_splits)
  then show ?thesis unfolding failOwned_def dedupFail_def Let_def
    by (simp add: answered_keeps [OF answerWaiters_answered keeps_updEntry])
qed

section \<open>Loops over a snapshot of the routes\<close>

text \<open>What each turn establishes for its own route, from a view of the route that the other turns keep.\<close>

lemma fold_each:
  assumes "\<And>cid a s. Post (view s a) cid (g (cid, a) s)"
    "\<And>cid a b s. b \<noteq> a \<Longrightarrow> view (g (cid, a) s) b = view s b"
    "\<And>v cid x s. Post v cid s \<Longrightarrow> Post v cid (g x s)"
    "distinct (map snd xs)" "(cid, a) \<in> set xs"
  shows "Post (view s a) cid (fold g xs s)"
  using assms(4,5)
proof (induction xs arbitrary: s)
  case (Cons x xs)
  have m: "Post v cid s \<Longrightarrow> Post v cid (fold g ys s)" for v ys s
    by (induction ys arbitrary: s) (auto intro: assms(3))
  show ?case
  proof (cases "x = (cid, a)")
    case True
    then show ?thesis using m [OF assms(1)] by simp
  next
    case False
    then have mem: "(cid, a) \<in> set xs" using Cons.prems(2) by auto
    then have "snd x \<noteq> a" using Cons.prems(1) by (metis distinct.simps(2) image_eqI list.simps(9) set_map snd_conv)
    then have "view (g x s) a = view s a" using assms(2) [of a "snd x" "fst x" s] by simp
    then show ?thesis using Cons.IH [of "g x s"] Cons.prems(1) mem by simp
  qed
qed simp

lemma routes_distinct_addr:
  assumes "routerInv s"
  shows "distinct (map snd (rRoutes s))"
proof -
  have "inj_on snd (set (rRoutes s))"
  proof (rule inj_onI)
    fix x y assume x: "x \<in> set (rRoutes s)" "y \<in> set (rRoutes s)" "snd x = snd y"
    then have "map_of (rRoutes s) (fst x) = Some (snd x)" "map_of (rRoutes s) (fst y) = Some (snd x)"
      using routes_snapshot(2) [OF assms] by (metis prod.collapse)+
    then have "fst x = fst y" by (rule route_unique [OF assms])
    then show "x = y" using x(3) by (simp add: prod_eq_iff)
  qed
  moreover have "distinct (rRoutes s)" using routes_distinct [OF assms] by (simp add: distinct_map)
  ultimately show ?thesis by (simp add: distinct_map)
qed

section \<open>Closing\<close>

text \<open>What the end of the Router owes the parties of a call.\<close>

definition closed :: "(addr \<times> addr \<times> string \<times> string) \<times> (addr \<times> string) list \<Rightarrow> string \<Rightarrow> router \<Rightarrow> bool" where
  "closed v cid s \<longleftrightarrow> answered (fst (fst v)) (shutdownFrame cid) s \<and>
     answered (fst (snd (fst v))) (cancelFrame cid ''router_shutdown'') s \<and>
     (\<forall>(c, w) \<in> set (snd v). answered c (withCallID (shutdownFrame cid) w) s)"

lemma closed_keeps: "closed v cid s \<Longrightarrow> keeps s s' \<Longrightarrow> closed v cid s'"
  unfolding closed_def using answered_keeps by fast

lemma keeps_closeRoute: "keeps s (closeRoute e x s)"
  unfolding closeRoute_def Let_def
  by (auto split: prod.split intro: keeps_trans [OF keeps_trans [OF keeps_trans [OF keeps_trans [OF keeps_failOwned
    keeps_finishRoute] keeps_sendTo] keeps_sendTo] keeps_endRoute])

lemma closeRoute_closed: "closed (ends (rRouteObj s a), ownWaiters s a) cid (closeRoute e (cid, a) s)"
proof -
  define s1 where "s1 = failOwned (eNow e) a (shutdownFrame cid) None s"
  define s2 where "s2 = finishRoute (eNow e) a ''unavailable'' s1"
  define s3 where "s3 = sendTo (rtClient (rRouteObj s a)) (shutdownFrame cid) s2"
  define s4 where "s4 = sendTo (rtInstance (rRouteObj s a)) (cancelFrame cid ''router_shutdown'') s3"
  have eq: "closeRoute e (cid, a) s = endRoute cid a s4" by (simp add: closeRoute_def s1_def s2_def s3_def s4_def Let_def)
  have k3: "keeps s3 (endRoute cid a s4)" unfolding s4_def by (rule keeps_trans [OF keeps_sendTo keeps_endRoute])
  have k1: "keeps s1 (endRoute cid a s4)"
    by (rule keeps_trans [OF keeps_trans [OF keeps_finishRoute keeps_sendTo] k3 [unfolded s3_def s2_def]])
  have "answered c (withCallID (shutdownFrame cid) w) (endRoute cid a s4)" if "(c, w) \<in> set (ownWaiters s a)" for c w
    using answered_keeps [OF failOwned_answers [OF that] k1 [unfolded s1_def]] .
  moreover have "answered (rtClient (rRouteObj s a)) (shutdownFrame cid) (endRoute cid a s4)"
    using answered_keeps [OF sendTo_answered k3 [unfolded s3_def]] .
  moreover have "answered (rtInstance (rRouteObj s a)) (cancelFrame cid ''router_shutdown'') (endRoute cid a s4)"
    using answered_keeps [OF sendTo_answered keeps_endRoute] by (simp only: s4_def)
  ultimately show ?thesis by (auto simp: closed_def eq ends_def)
qed

lemma ownWaiters_released:
  assumes "released en s s'" "deRoute (rDedupObj s en) = Some a" "b \<noteq> a"
  shows "ownWaiters s' b = ownWaiters s b"
  using assms(2,3) releasedD(8,13,16) [OF assms(1)]
  by (cases "rtDedup (rRouteObj s b)"; cases "rtDedup (rRouteObj s b) = Some en") (auto simp: ownWaiters_def)

lemma failOwned_view:
  assumes "b \<noteq> a"
  shows "ownWaiters (failOwned now a err lost s) b = ownWaiters s b"
proof (cases rule: failOwned_cases [of now a err lost s])
  case (2 en)
  then show ?thesis using ownWaiters_released [OF 2(3,2) assms] by simp
qed simp

lemma ownWaiters_obj: "rRouteObj s' = rRouteObj s \<Longrightarrow> rDedupObj s' = rDedupObj s \<Longrightarrow> ownWaiters s' b = ownWaiters s b"
  by (cases "rtDedup (rRouteObj s b)") (simp_all add: ownWaiters_def)

lemma closeRoute_view:
  assumes "b \<noteq> a"
  shows "(ends (rRouteObj (closeRoute e (cid, a) s) b), ownWaiters (closeRoute e (cid, a) s) b) = (ends (rRouteObj s b), ownWaiters s b)"
proof -
  let ?f = "failOwned (eNow e) a (shutdownFrame cid) None s"
  have f: "rRouteObj (closeRoute e (cid, a) s) = rRouteObj ?f" "rDedupObj (closeRoute e (cid, a) s) = rDedupObj ?f"
    by (simp_all add: closeRoute_def Let_def endRoute_fields)
  show ?thesis using ownWaiters_obj [OF f] failOwned_view [OF assms] f(1) by simp
qed

lemma closeRoute_gone: "map_of (rRoutes (closeRoute e (cid, a) s)) c = (if c = cid then None else map_of (rRoutes s) c)"
  by (simp add: closeRoute_def Let_def endRoute_fields)

lemma fold_closeRoute_gone:
  "c \<in> set (map_keys xs) \<or> map_of (rRoutes s) c = None \<Longrightarrow> map_of (rRoutes (fold (closeRoute e) xs s)) c = None"
proof (induction xs arbitrary: s)
  case (Cons x xs)
  have "c \<in> set (map_keys xs) \<or> map_of (rRoutes (closeRoute e x s)) c = None"
    using Cons.prems closeRoute_gone [of e "fst x" "snd x" s c] by auto
  then show ?case using Cons.IH by simp
qed simp

lemma empty_map: "(\<And>c. map_of m c = None) \<Longrightarrow> m = []"
  by (cases m) (auto, metis option.distinct(1))

lemma close_effect:
  assumes "routerInv s"
  shows "rRoutes (closeRouter e s) = []" "rDrained (closeRouter e s)"
    "(cid, a) \<in> set (rRoutes s) \<Longrightarrow> closed (ends (rRouteObj s a), ownWaiters s a) cid (closeRouter e s)"
proof -
  define s1 where "s1 = (startDraining s)\<lparr>rClosed := True\<rparr>"
  have f: "rRoutes s1 = rRoutes s" "rRouteObj s1 = rRouteObj s" "rDedupObj s1 = rDedupObj s"
    using quietD(7,8,11) [OF quiet_fold [where g = wakePeer, OF quiet_wakePeer]] by (simp_all add: s1_def startDraining_def)
  have i: "routerInv s1" unfolding s1_def by (rule inv_flags(2) [OF inv_startDraining [OF assms]])
  define s2 where "s2 = fold (closeRoute e) (rRoutes s1) s1"
  have eq: "rRoutes (closeRouter e s) = rRoutes s2" "rPeerObj (closeRouter e s) = rPeerObj s2" "rDrained (closeRouter e s)"
    by (simp_all add: closeRouter_def Let_def s1_def [symmetric] s2_def [symmetric] markDrained_def)
  have "map_of (rRoutes s2) c = None" for c
    unfolding s2_def by (rule fold_closeRoute_gone) (metis map_of_eq_None_keys)
  then show "rRoutes (closeRouter e s) = []" using empty_map eq(1) by metis
  show "rDrained (closeRouter e s)" by (rule eq(3))
  assume m: "(cid, a) \<in> set (rRoutes s)"
  have "closed (ends (rRouteObj s1 a), ownWaiters s1 a) cid s2" unfolding s2_def
    by (rule fold_each [where view = "\<lambda>s a. (ends (rRouteObj s a), ownWaiters s a)" and Post = closed,
      OF closeRoute_closed closeRoute_view closed_keeps [OF _ keeps_closeRoute] routes_distinct_addr [OF i]])
      (use m f(1) in simp_all)
  then show "closed (ends (rRouteObj s a), ownWaiters s a) cid (closeRouter e s)"
    using f(2) ownWaiters_obj [OF f(2,3)] eq(2) by (simp add: closed_def answered_def queued_def)
qed

section \<open>Disconnection\<close>

text \<open>What the end of connection \<open>p\<close>, which served as instance \<open>iid\<close>, owes the parties of a call.\<close>

definition dropped :: "addr \<Rightarrow> (addr \<times> addr \<times> string \<times> string) \<times> (addr \<times> string) list \<times> string \<Rightarrow> string \<Rightarrow> router \<Rightarrow> bool" where
  "dropped p v cid s \<longleftrightarrow> (case v of ((client, inst, svc, m), ws, iid) \<Rightarrow>
     if client = p then answered inst (cancelFrame cid ''client_disconnected'') s
     else inst = p \<longrightarrow> answered client (lostFrame cid iid) s \<and> (\<forall>(c, w) \<in> set ws. answered c (withCallID (lostFrame cid iid) w) s))"

lemma dropped_keeps: "dropped p v cid s \<Longrightarrow> keeps s s' \<Longrightarrow> dropped p v cid s'"
  unfolding dropped_def using answered_keeps by (auto split: prod.splits if_splits)

definition loseEntry :: "time \<Rightarrow> addr \<Rightarrow> addr \<Rightarrow> frame \<Rightarrow> router \<Rightarrow> router" where
  "loseEntry now p a lost s = (case rtDedup (rRouteObj s a) of
      Some en \<Rightarrow> if deRoute (rDedupObj s en) = Some a
        then updRoute a (\<lambda>x. x\<lparr>rtDedup := None\<rparr>) (dedupFail now en lost (Some p) s) else s
    | None \<Rightarrow> s)"

lemma loseEntry_fields:
  "rRoutes (loseEntry now p a lost s) = rRoutes s" "ends (rRouteObj (loseEntry now p a lost s) b) = ends (rRouteObj s b)"
  "pInstanceID (rPeerObj (loseEntry now p a lost s) q) = pInstanceID (rPeerObj s q)"
  using releasedD(7,8,21) [OF released_fail [of _ s now lost "Some p"]]
  by (cases "rtDedup (rRouteObj s a)"; simp add: loseEntry_def ends_def)+

lemma loseEntry_cases:
  obtains "loseEntry now p a lost s = s"
    | en where "rtDedup (rRouteObj s a) = Some en" "deRoute (rDedupObj s en) = Some a" "released en s (dedupFail now en lost (Some p) s)"
      "loseEntry now p a lost s = updRoute a (\<lambda>x. x\<lparr>rtDedup := None\<rparr>) (dedupFail now en lost (Some p) s)"
  by (cases "rtDedup (rRouteObj s a)"; cases "deRoute (rDedupObj s (the (rtDedup (rRouteObj s a)))) = Some a")
    (auto simp: loseEntry_def released_fail)

lemma ownWaiters_updRoute: "b \<noteq> a \<Longrightarrow> ownWaiters (updRoute a g s) b = ownWaiters s b"
  by (cases "rtDedup (rRouteObj s b)") (simp_all add: ownWaiters_def)

lemma loseEntry_view:
  assumes "b \<noteq> a"
  shows "ownWaiters (loseEntry now p a lost s) b = ownWaiters s b"
proof (cases rule: loseEntry_cases [of now p a lost s])
  case (2 en)
  then show ?thesis using ownWaiters_updRoute [OF assms] ownWaiters_released [OF 2(3,2) assms] by simp
qed simp

lemma keeps_updRoute: "keeps s (updRoute a g s)" by (rule keeps_obj) simp

lemma keeps_loseEntry: "keeps s (loseEntry now p a lost s)"
proof (cases rule: loseEntry_cases [of now p a lost s])
  case (2 en)
  show ?thesis unfolding 2(4) by (rule keeps_trans [OF keeps_dedupFail keeps_updRoute])
qed simp

lemma loseEntry_answers:
  assumes "(c, w) \<in> set (ownWaiters s a)"
  shows "answered c (withCallID lost w) (loseEntry now p a lost s)"
proof -
  obtain en where en: "rtDedup (rRouteObj s a) = Some en" "deRoute (rDedupObj s en) = Some a" "(c, w) \<in> set (deWaiters (rDedupObj s en))"
    using assms by (cases "rtDedup (rRouteObj s a)") (auto simp: ownWaiters_def split: if_splits)
  have "answered c (withCallID lost w) (dedupFail now en lost (Some p) s)" unfolding dedupFail_def Let_def
    by (rule answered_keeps [OF answerWaiters_answered [OF en(3)] keeps_updEntry])
  then show ?thesis using en answered_keeps [OF _ keeps_updRoute] by (simp add: loseEntry_def)
qed

lemma removeRoute_cases:
  obtains (client) "rtClient (rRouteObj s a) = p" "removeRoute e p (cid, a) s =
      sendTo (rtInstance (rRouteObj s a)) (cancelFrame cid ''client_disconnected'') (endRoute cid a (finishRoute (eNow e) a ''cancelled'' s))"
    | (server) "rtClient (rRouteObj s a) \<noteq> p" "rtInstance (rRouteObj s a) = p" "removeRoute e p (cid, a) s =
      sendTo (rtClient (rRouteObj s a)) (lostFrame cid (pInstanceID (rPeerObj s p))) (endRoute cid a (finishRoute (eNow e) a ''unavailable''
        (loseEntry (eNow e) p a (lostFrame cid (pInstanceID (rPeerObj s p))) s)))"
    | (other) "rtClient (rRouteObj s a) \<noteq> p" "rtInstance (rRouteObj s a) \<noteq> p" "removeRoute e p (cid, a) s = s"
  unfolding removeRoute_def Let_def case_prod_conv loseEntry_def by (cases "rtClient (rRouteObj s a) = p"; cases "rtInstance (rRouteObj s a) = p") simp_all

definition involves :: "addr \<Rightarrow> route \<Rightarrow> bool" where
  "involves p rt \<longleftrightarrow> rtClient rt = p \<or> rtInstance rt = p"

lemma involves_ends: "ends x = ends y \<Longrightarrow> involves p x = involves p y"
  by (simp add: involves_def ends_def)

lemma removeRoute_fields:
  "map_of (rRoutes (removeRoute e p (cid, a) s)) c = (if c = cid \<and> involves p (rRouteObj s a) then None else map_of (rRoutes s) c)"
  "ends (rRouteObj (removeRoute e p (cid, a) s) b) = ends (rRouteObj s b)"
  "pInstanceID (rPeerObj (removeRoute e p (cid, a) s) q) = pInstanceID (rPeerObj s q)"
  by (cases rule: removeRoute_cases [of s a p e cid]; simp add: involves_def endRoute_fields loseEntry_fields)+

lemma keeps_removeRoute: "keeps s (removeRoute e p x s)"
proof -
  obtain cid a where x: "x = (cid, a)" by (cases x)
  show ?thesis unfolding x
    by (cases rule: removeRoute_cases [of s a p e cid])
      (auto intro: keeps_trans [OF keeps_trans [OF keeps_trans [OF _ keeps_finishRoute] keeps_endRoute] keeps_sendTo] keeps_loseEntry)
qed

lemma removeRoute_view:
  assumes "b \<noteq> a"
  shows "ownWaiters (removeRoute e p (cid, a) s) b = ownWaiters s b"
proof (cases rule: removeRoute_cases [of s a p e cid])
  case client
  show ?thesis unfolding client(2) by (rule ownWaiters_obj) (simp_all add: endRoute_fields)
next
  case server
  let ?l = "loseEntry (eNow e) p a (lostFrame cid (pInstanceID (rPeerObj s p))) s"
  have "ownWaiters (removeRoute e p (cid, a) s) b = ownWaiters ?l b"
    unfolding server(3) by (rule ownWaiters_obj) (simp_all add: endRoute_fields)
  then show ?thesis using loseEntry_view [OF assms] by simp
qed simp

lemma removeRoute_dropped:
  "dropped p (ends (rRouteObj s a), ownWaiters s a, pInstanceID (rPeerObj s p)) cid (removeRoute e p (cid, a) s)"
proof (cases rule: removeRoute_cases [of s a p e cid])
  case client
  then show ?thesis using sendTo_answered by (simp add: dropped_def ends_def)
next
  case server
  let ?lost = "lostFrame cid (pInstanceID (rPeerObj s p))"
  let ?l = "loseEntry (eNow e) p a ?lost s"
  have k: "keeps ?l (removeRoute e p (cid, a) s)"
    unfolding server(3) by (rule keeps_trans [OF keeps_trans [OF keeps_finishRoute keeps_endRoute] keeps_sendTo])
  have "answered c (withCallID ?lost w) (removeRoute e p (cid, a) s)" if "(c, w) \<in> set (ownWaiters s a)" for c w
    by (rule answered_keeps [OF loseEntry_answers [OF that] k])
  then show ?thesis using server sendTo_answered by (auto simp: dropped_def ends_def)
next
  case other
  then show ?thesis by (simp add: dropped_def ends_def)
qed

lemma fold_removeRoute_map:
  assumes "distinct (map_keys xs)" "\<And>c a. (c, a) \<in> set xs \<Longrightarrow> map_of (rRoutes s) c = Some a"
  shows "map_of (rRoutes (fold (removeRoute e p) xs s)) c =
    (case map_of xs c of Some a \<Rightarrow> if involves p (rRouteObj s a) then None else Some a | None \<Rightarrow> map_of (rRoutes s) c)"
  using assms
proof (induction xs arbitrary: s)
  case (Cons x xs)
  obtain cid a where x: "x = (cid, a)" by (cases x)
  let ?s = "removeRoute e p (cid, a) s"
  have inv: "involves p (rRouteObj ?s b) = involves p (rRouteObj s b)" for b by (rule involves_ends [OF removeRoute_fields(2)])
  have ne: "c' \<noteq> cid" if "(c', a') \<in> set xs" for c' a' using that Cons.prems(1) x by force
  have "map_of (rRoutes ?s) c' = Some a'" if "(c', a') \<in> set xs" for c' a'
    using ne [OF that] Cons.prems(2) [of c' a'] that by (simp add: removeRoute_fields)
  note ih = Cons.IH [OF _ this]
  have "map_of xs cid = None" using Cons.prems(1) x by (simp add: map_of_eq_None_iff)
  moreover have "map_of (rRoutes s) cid = Some a" using Cons.prems(2) [of cid a] x by simp
  ultimately show ?case using ih Cons.prems(1) inv by (cases "c = cid") (simp_all add: x removeRoute_fields split: option.split)
qed simp

lemma disconnect_effect:
  assumes "routerInv s" "map_of (rRoutes s) cid = Some a"
  shows "dropped p (ends (rRouteObj s a), ownWaiters s a, pInstanceID (rPeerObj s p)) cid (disconnect e p s)"
    "map_of (rRoutes (disconnect e p s)) cid = (if involves p (rRouteObj s a) then None else Some a)"
proof -
  define s0 where "s0 = updPeer p (\<lambda>x. x\<lparr>pCancelled := True, pOut := closeOutbox (pOut x)\<rparr>) s"
  define s1 where "s1 = s0\<lparr>rPeers := removeAll p (rPeers s0)\<rparr>"
  define s2 where "s2 = (if rClosed s1 \<and> rPeers s1 = [] then s1\<lparr>rPeersGone := True\<rparr> else s1)"
  define s3 where "s3 = (if map_of (rInstances s2) (pInstanceID (rPeerObj s2 p)) = Some p
      then leavePools p (s2\<lparr>rInstances := AList.delete (pInstanceID (rPeerObj s2 p)) (rInstances s2)\<rparr>) else s2)"
  have eq: "disconnect e p s = fold (removeRoute e p) (rRoutes s3) s3"
    unfolding disconnect_def remove_def Let_def s0_def [symmetric] s1_def [symmetric] s2_def [symmetric] s3_def [symmetric] ..
  have l: "rRoutes (leavePools p t) = rRoutes t \<and> rRouteObj (leavePools p t) = rRouteObj t \<and> rDedupObj (leavePools p t) = rDedupObj t \<and>
      rPeerObj (leavePools p t) = rPeerObj t" for t
    using leavePools_fields [of p t] by (metis router.select_convs(8,11,12,16) router.surjective router.update_convs(10))
  have f: "rRoutes s3 = rRoutes s" "rRouteObj s3 = rRouteObj s" "rDedupObj s3 = rDedupObj s" "pInstanceID (rPeerObj s3 p) = pInstanceID (rPeerObj s p)"
    by (simp_all add: s3_def s2_def s1_def s0_def l)
  have m: "(cid, a) \<in> set (rRoutes s3)" using map_of_SomeD [OF assms(2)] f(1) by simp
  have "dropped p (ends (rRouteObj s3 a), ownWaiters s3 a, pInstanceID (rPeerObj s3 p)) cid (fold (removeRoute e p) (rRoutes s3) s3)"
    by (rule fold_each [where view = "\<lambda>s a. (ends (rRouteObj s a), ownWaiters s a, pInstanceID (rPeerObj s p))" and Post = "dropped p",
      OF removeRoute_dropped _ dropped_keeps [OF _ keeps_removeRoute] _ m])
      (simp_all add: removeRoute_fields removeRoute_view f(1) routes_distinct_addr [OF assms(1)])
  then show "dropped p (ends (rRouteObj s a), ownWaiters s a, pInstanceID (rPeerObj s p)) cid (disconnect e p s)"
    unfolding eq f(2,4) ownWaiters_obj [OF f(2,3)] .
  show "map_of (rRoutes (disconnect e p s)) cid = (if involves p (rRouteObj s a) then None else Some a)"
    unfolding eq using fold_removeRoute_map [of "rRoutes s3" s3 e p cid] routes_snapshot [OF assms(1)] assms(2) by (simp add: f)
qed

section \<open>Guarantees over runs\<close>

lemma run_books: "run c au s ph \<Longrightarrow> routerInv s"
  using run_good good_def by blast

text \<open>
  C17.  In every state a Router can reach, under any interleaving of connections, registrations, frames,
  HTTP requests, disconnections, deadlines and shutdown, the counters that admission reads are exact:
  an instance's inflight is the number of routes to it, a connection's calls the number of its routes
  plus the calls with which it has joined others.  So the limits hold: no instance is above its
  max_inflight, no connection above MaxCallsPerConnection, and the table holds at most 65536 routes.
\<close>

theorem router_books_are_exact:
  assumes "run c au s ph"
  shows "pInflight (rPeerObj s q) = routedTo s q \<and> pCalls (rPeerObj s q) = routedFrom s q + waiting s q \<and>
    (pMaxInflight (rPeerObj s q) > 0 \<longrightarrow> routedTo s q \<le> pMaxInflight (rPeerObj s q)) \<and>
    (cMaxCallsPerConnection c > 0 \<longrightarrow> routedFrom s q + waiting s q \<le> cMaxCallsPerConnection c) \<and> length (rRoutes s) \<le> 65536"
proof -
  note i = invButD [OF run_books [OF assms]]
  have "rConfig s = c" using run_good [OF assms] by (simp add: good_def)
  then show ?thesis using i(3) i(6) [unfolded limitsOk_def, THEN conjunct1, rule_format, of q] i(6)
    by (simp add: countsOk_def limitsOk_def maxRoutes_def)
qed

theorem router_books_are_exact_witness:
  "run demoConfig None demoCall demoPhase \<and> routedTo demoCall 1 = 1 \<and> pInflight (rPeerObj demoCall 1) = 1"
  using router_books_are_exact [OF demo_run, of 1] demo_run by (simp add: routedTo_def)

text \<open>
  C18.  Every call in flight is between a caller whose identity may call that method and an instance that
  serves the method and whose identity may register the service; a service reserved for the Router is
  never routed.
\<close>

theorem calls_in_flight_are_permitted:
  assumes "run c au s ph" "map_of (rRoutes s) cid = Some a"
  shows "allowsCall (pUser (rPeerObj s (rtClient (rRouteObj s a)))) (rtService (rRouteObj s a)) (rtMethod (rRouteObj s a)) \<and>
    serves (rPeerObj s (rtInstance (rRouteObj s a))) (rtService (rRouteObj s a)) (rtMethod (rRouteObj s a)) \<and>
    allowsRegistration (pUser (rPeerObj s (rtInstance (rRouteObj s a)))) (rtService (rRouteObj s a)) \<and>
    validServiceName (rtService (rRouteObj s a)) \<and> \<not> hasPrefix (rtService (rRouteObj s a)) reservedPrefix"
proof -
  let ?rt = "rRouteObj s a"
  have g: "permitted s" "enrolled s" using run_good [OF assms(1)] by (simp_all add: good_def)
  then have ok: "routeOk s a" using assms(2) by (simp add: permitted_def)
  then obtain sv where "sv \<in> set (pServices (rPeerObj s (rtInstance ?rt)))" "sName sv = rtService ?rt"
    by (auto simp: routeOk_def serves_def Let_def find_Some_iff split: option.splits intro: nth_mem)
  then show ?thesis using ok g(2) unfolding routeOk_def enrolled_def Let_def by fastforce
qed

theorem calls_in_flight_are_permitted_witness:
  "map_of (rRoutes demoCall) ''c1'' = Some 3 \<and> serves (rPeerObj demoCall 1) ''a.v1.B'' ''m'' \<and> allowsCall (pUser (rPeerObj demoCall 2)) ''a.v1.B'' ''m''"
  using calls_in_flight_are_permitted [OF demo_run, of "''c1''" 3] by simp

text \<open>
  C19.  The pools from which calls are routed hold registered instances only, each once, that offer the
  service and are not draining; a pool is never empty, and an instance id names one connection.
\<close>

theorem pools_hold_live_instances:
  assumes "run c au s ph" "map_of (rServices s) svc = Some pl"
  shows "plInstances pl \<noteq> [] \<and> distinct (plInstances pl) \<and>
    (\<forall>p \<in> set (plInstances pl). map_of (rInstances s) (pInstanceID (rPeerObj s p)) = Some p \<and> \<not> pDraining (rPeerObj s p) \<and>
       (\<exists>sv \<in> set (pServices (rPeerObj s p)). sName sv = svc))"
  using invButD(5) [OF run_books [OF assms(1)]] assms(2) unfolding poolsOk_def by blast

theorem pools_hold_live_instances_witness:
  "\<exists>pl. map_of (rServices demo4) ''a.v1.B'' = Some pl \<and> plInstances pl \<noteq> []"
proof -
  have "map_of (rServices demo4) ''a.v1.B'' \<noteq> None" by (simp add: demo4_def)
  then obtain pl where pl: "map_of (rServices demo4) ''a.v1.B'' = Some pl" by blast
  show ?thesis using pools_hold_live_instances [OF demo_setup pl] pl by blast
qed

text \<open>
  C20.  \<^verbatim>\<open>Close\<close> leaves no call in flight and tells everybody: for each route its caller is sent the
  router_shutdown error for its call id, its instance the cancellation, and each caller that had joined
  the call through its idempotency key the error under its own call id; a peer that cannot be told is
  disconnected.
\<close>

theorem close_answers_every_call:
  assumes "run c au s ph"
  shows "rRoutes (closeRouter e s) = [] \<and> rDrained (closeRouter e s) \<and> (\<forall>q. pInflight (rPeerObj (closeRouter e s) q) = 0) \<and>
    (\<forall>cid a. map_of (rRoutes s) cid = Some a \<longrightarrow>
       answered (rtClient (rRouteObj s a)) (shutdownFrame cid) (closeRouter e s) \<and>
       answered (rtInstance (rRouteObj s a)) (cancelFrame cid ''router_shutdown'') (closeRouter e s) \<and>
       (\<forall>(p, w) \<in> set (ownWaiters s a). answered p (withCallID (shutdownFrame cid) w) (closeRouter e s)))"
proof -
  note i = run_books [OF assms]
  note f = close_effect [OF i, where e = e]
  have "countsOk (closeRouter e s)" by (rule invButD(3) [OF inv_closeRouter [OF i]])
  then have "pInflight (rPeerObj (closeRouter e s) q) = 0" for q by (simp add: countsOk_def routedTo_def f(1))
  moreover have "closed (ends (rRouteObj s a), ownWaiters s a) cid (closeRouter e s)" if "map_of (rRoutes s) cid = Some a" for cid a
    by (rule f(3) [OF map_of_SomeD [OF that]])
  ultimately show ?thesis using f(1,2) by (simp add: closed_def ends_def)
qed

theorem close_answers_every_call_witness:
  "rRoutes demoCall \<noteq> [] \<and> rRoutes (closeRouter demoEnv demoCall) = [] \<and> answered 2 (shutdownFrame ''c1'') (closeRouter demoEnv demoCall)"
proof -
  note w = close_answers_every_call [OF demo_run, of demoEnv]
  have "map_of (rRoutes demoCall) ''c1'' = Some 3" by simp
  then have "answered (rtClient (rRouteObj demoCall 3)) (shutdownFrame ''c1'') (closeRouter demoEnv demoCall)" using w by blast
  then show ?thesis using w by simp
qed

text \<open>
  C21.  When a connection ends, exactly the calls it takes part in end.  The instance of each call it
  made is told to cancel; the caller of each call it served is sent the instance_lost error, and so is
  each caller that had joined that call.
\<close>

theorem disconnect_ends_exactly_its_calls:
  assumes "run c au s ph" "map_of (rRoutes s) cid = Some a"
  shows "map_of (rRoutes (disconnect e p s)) cid =
      (if rtClient (rRouteObj s a) = p \<or> rtInstance (rRouteObj s a) = p then None else Some a) \<and>
    (rtClient (rRouteObj s a) = p \<longrightarrow>
       answered (rtInstance (rRouteObj s a)) (cancelFrame cid ''client_disconnected'') (disconnect e p s)) \<and>
    (rtInstance (rRouteObj s a) = p \<and> rtClient (rRouteObj s a) \<noteq> p \<longrightarrow>
       answered (rtClient (rRouteObj s a)) (lostFrame cid (pInstanceID (rPeerObj s p))) (disconnect e p s) \<and>
       (\<forall>(q, w) \<in> set (ownWaiters s a). answered q (withCallID (lostFrame cid (pInstanceID (rPeerObj s p))) w) (disconnect e p s)))"
  using disconnect_effect [OF run_books [OF assms(1)] assms(2), where p = p and e = e] by (auto simp: dropped_def ends_def involves_def)

theorem disconnect_ends_exactly_its_calls_witness:
  "map_of (rRoutes (disconnect demoEnv 1 demoCall)) ''c1'' = None \<and> answered 2 (lostFrame ''c1'' ''i1'') (disconnect demoEnv 1 demoCall)"
  using disconnect_ends_exactly_its_calls [OF demo_run, of "''c1''" 3 demoEnv 1] by simp

end
