(* ===== verification/Router_Expiry.thy ===== *)
theory Router_Expiry
  imports Router_Guarantees
begin

text \<open>
  The expiry loop over the whole Router state: after it, exactly the calls that were due are gone and
  everybody who waited for one of them is answered.
\<close>

definition expired :: "(addr \<times> addr \<times> string \<times> string) \<times> (addr \<times> string) list \<Rightarrow> string \<Rightarrow> router \<Rightarrow> bool" where
  "expired v cid s \<longleftrightarrow> answered (fst (fst v)) (deadlineError cid) s \<and>
     answered (fst (snd (fst v))) (cancelFrame cid ''deadline_exceeded'') s \<and>
     (\<forall>(c, w) \<in> set (snd v). answered c (withCallID (deadlineError cid) w) s)"

lemma expired_keeps: "expired v cid s \<Longrightarrow> keeps s s' \<Longrightarrow> expired v cid s'"
  unfolding expired_def using answered_keeps by fast

text \<open>One turn of the loop: the route at the root of the heap ends.\<close>

lemma expireOne_effect:
  assumes "routerInv s" "hList (rDeadlines s) \<noteq> []" "hList (rDeadlines s) ! 0 = a"
  obtains cid where "map_of (rRoutes s) cid = Some a" "rRoutes (expireOne e s) = AList.delete cid (rRoutes s)"
    "rRouteObj (expireOne e s) = rRouteObj s" "set (hList (rDeadlines (expireOne e s))) = set (hList (rDeadlines s)) - {a}"
    "expired (ends (rRouteObj s a), ownWaiters s a) cid (expireOne e s)" "keeps s (expireOne e s)"
    "\<And>b. b \<noteq> a \<Longrightarrow> ownWaiters (expireOne e s) b = ownWaiters s b"
proof (cases "heapPop (deadlines s) (rDeadlines s)")
  case (Pair h a')
  have hi: "heapInv (deadlines s) (rDeadlines s)" using invButD(4) [OF assms(1)] by (simp add: heapOk_def)
  have h: "a' = a" "heapInv (deadlines s) h" "mset (hList (rDeadlines s)) = add_mset a (mset (hList h))"
    using heapPop_spec [OF hi assms(2) Pair] assms(3) by auto
  have "distinct (hList (rDeadlines s))" by (rule indexOk_distinct [OF heapInv_index [OF hi]])
  then have set: "set (hList h) = set (hList (rDeadlines s)) - {a}"
    using h(3) by (metis Diff_insert_absorb distinct.simps(2) mset.simps(2) mset_eq_imp_distinct_iff set_mset_add_mset_insert set_mset_mset)
  have "a \<in> set (hList (rDeadlines s))" using assms(2,3) by (metis length_greater_0_conv nth_mem)
  then obtain cid where r: "map_of (rRoutes s) cid = Some a" using heap_elements [OF assms(1)] by blast
  have rid: "rtId (rRouteObj s a) = cid" using route_facts(1) [OF assms(1) r] .
  define s0 where "s0 = s\<lparr>rDeadlines := h\<rparr>"
  define s2 where "s2 = finishRoute (eNow e) a ''deadline_exceeded'' (observe (eNow e) (rtInstance (rRouteObj s a)) False s0)"
  define s3 where "s3 = failOwned (eNow e) a (deadlineError cid) None s2"
  define s4 where "s4 = sendTo (rtClient (rRouteObj s a)) (deadlineError cid) s3"
  define s5 where "s5 = sendTo (rtInstance (rRouteObj s a)) (cancelFrame cid ''deadline_exceeded'') s4"
  have eq: "expireOne e s = endRoute cid a s5"
    unfolding expireOne_def Pair s5_def s4_def s3_def s2_def s0_def by (simp add: Let_def h(1) rid r)
  have f2: "rRouteObj s2 = rRouteObj s" "rDedupObj s2 = rDedupObj s" "rRoutes s2 = rRoutes s" "rDeadlines s2 = h" by (simp_all add: s2_def s0_def)
  have d3: "rDeadlines s3 = h"
    using f2(4) by (cases rule: failOwned_cases [of "eNow e" a "deadlineError cid" None s2]) (simp_all add: s3_def releasedD(9))
  have f5: "rRouteObj s5 = rRouteObj s" "rDedupObj s5 = rDedupObj s3" "rRoutes s5 = rRoutes s" "rDeadlines s5 = h"
    by (simp_all add: s5_def s4_def s3_def f2 d3 [unfolded s3_def])
  have k2: "keeps s s2" unfolding s2_def s0_def
    by (rule keeps_trans [OF keeps_trans [OF keeps_obj keeps_observe] keeps_finishRoute]) simp
  have k4: "keeps s4 (endRoute cid a s5)" unfolding s5_def by (rule keeps_trans [OF keeps_sendTo keeps_endRoute])
  have k3: "keeps s3 (endRoute cid a s5)" by (rule keeps_trans [OF keeps_sendTo k4 [unfolded s4_def]])
  have w: "ownWaiters s2 b = ownWaiters s b" for b by (rule ownWaiters_obj [OF f2(1,2)])
  show thesis
  proof (rule that [OF r])
    show "rRoutes (expireOne e s) = AList.delete cid (rRoutes s)" by (simp add: eq endRoute_fields f5)
    show "rRouteObj (expireOne e s) = rRouteObj s" by (simp add: eq endRoute_fields f5)
    have "deadlines s5 = deadlines s" by (rule deadlines_obj [OF f5(1)])
    then show "set (hList (rDeadlines (expireOne e s))) = set (hList (rDeadlines s)) - {a}"
      using untrackHeap_spec [OF h(2), of a] set by (simp add: eq endRoute_fields f5)
    have "answered c (withCallID (deadlineError cid) w) (endRoute cid a s5)" if "(c, w) \<in> set (ownWaiters s a)" for c w
      using answered_keeps [OF failOwned_answers k3 [unfolded s3_def]] that w by simp
    moreover have "answered (rtClient (rRouteObj s a)) (deadlineError cid) (endRoute cid a s5)"
      using answered_keeps [OF sendTo_answered k4 [unfolded s4_def]] .
    moreover have "answered (rtInstance (rRouteObj s a)) (cancelFrame cid ''deadline_exceeded'') (endRoute cid a s5)"
      using answered_keeps [OF sendTo_answered keeps_endRoute] by (simp only: s5_def)
    ultimately show "expired (ends (rRouteObj s a), ownWaiters s a) cid (expireOne e s)" by (auto simp: expired_def eq ends_def)
    show "keeps s (expireOne e s)" unfolding eq by (rule keeps_trans [OF k2 keeps_trans [OF keeps_failOwned k3 [unfolded s3_def]]])
    fix b assume "b \<noteq> a"
    then have "ownWaiters s3 b = ownWaiters s b" unfolding s3_def using failOwned_view w by simp
    moreover have "ownWaiters (expireOne e s) b = ownWaiters s3 b"
      by (rule ownWaiters_obj) (simp_all add: eq endRoute_fields f5(2) f5(1) s3_def f2)
    ultimately show "ownWaiters (expireOne e s) b = ownWaiters s b" by simp
  qed
qed

lemma expireLoop_stop:
  assumes "\<not> (hList (rDeadlines s) \<noteq> [] \<and> deadlines s (hList (rDeadlines s) ! 0) \<le> eNow e)"
  shows "expireLoop (Suc n) e s = s"
  by (simp only: expireLoop.simps if_not_P [OF assms])

text \<open>What the loop leaves of one route.\<close>

definition settledBy :: "time \<Rightarrow> router \<Rightarrow> router \<Rightarrow> string \<Rightarrow> addr \<Rightarrow> bool" where
  "settledBy now s s' cid a \<longleftrightarrow> (if a \<in> set (hList (rDeadlines s)) \<and> deadlines s a \<le> now
     then map_of (rRoutes s') cid = None \<and> expired (ends (rRouteObj s a), ownWaiters s a) cid s'
     else map_of (rRoutes s') cid = Some a)"

lemma heap_length:
  assumes "routerInv s"
  shows "length (hList (rDeadlines s)) = card (set (hList (rDeadlines s)))"
proof -
  have "heapInv (deadlines s) (rDeadlines s)" using invButD(4) [OF assms] by (simp add: heapOk_def)
  then show ?thesis using indexOk_distinct [OF heapInv_index] by (simp add: distinct_card)
qed

lemma keeps_expireLoop: "routerInv s \<Longrightarrow> keeps s (expireLoop n e s)"
proof (induction n e s rule: expireLoop.induct)
  case (2 n e s)
  show ?case
  proof (cases "hList (rDeadlines s) \<noteq> [] \<and> deadlines s (hList (rDeadlines s) ! 0) \<le> eNow e")
    case True
    have "keeps s (expireOne e s)" by (rule expireOne_effect [OF "2.prems" conjunct1 [OF True] refl, of e])
    then show ?thesis using keeps_trans [OF _ "2.IH" [OF True]] inv_expireOne [OF "2.prems", of e] True by simp
  next
    case False
    show ?thesis unfolding expireLoop_stop [OF False] by simp
  qed
qed simp

lemma absent_stays: "routerInv s \<Longrightarrow> map_of (rRoutes s) cid = None \<Longrightarrow> map_of (rRoutes (expireLoop n e s)) cid = None"
proof (induction n e s rule: expireLoop.induct)
  case (2 n e s)
  show ?case
  proof (cases "hList (rDeadlines s) \<noteq> [] \<and> deadlines s (hList (rDeadlines s) ! 0) \<le> eNow e")
    case True
    obtain c where "rRoutes (expireOne e s) = AList.delete c (rRoutes s)"
      by (rule expireOne_effect [OF "2.prems"(1) conjunct1 [OF True] refl, of e])
    then show ?thesis using "2.IH" [OF True inv_expireOne [OF "2.prems"(1)]] "2.prems"(2) True by simp
  next
    case False
    show ?thesis unfolding expireLoop_stop [OF False] by (rule "2.prems"(2))
  qed
qed simp

lemma expireLoop_effect:
  "routerInv s \<Longrightarrow> length (hList (rDeadlines s)) \<le> n \<Longrightarrow>
     (\<forall>b \<in> set (hList (rDeadlines (expireLoop n e s))). eNow e < deadlines s b) \<and> rRouteObj (expireLoop n e s) = rRouteObj s \<and>
     (\<forall>cid a. map_of (rRoutes s) cid = Some a \<longrightarrow> settledBy (eNow e) s (expireLoop n e s) cid a)"
proof (induction n e s rule: expireLoop.induct)
  case (1 e s)
  then show ?case by (simp add: settledBy_def)
next
  case (2 n e s)
  let ?l = "hList (rDeadlines s)"
  show ?case
  proof (cases "?l \<noteq> [] \<and> deadlines s (?l ! 0) \<le> eNow e")
    case False
    have hi: "heapInv (deadlines s) (rDeadlines s)" using invButD(4) [OF "2.prems"(1)] by (simp add: heapOk_def)
    have "eNow e < deadlines s b" if "b \<in> set ?l" for b
      using root_min [OF hi that] that False by (cases ?l) auto
    then show ?thesis unfolding expireLoop_stop [OF False] settledBy_def by (meson not_less)
  next
    case True
    define a where "a = ?l ! 0"
    obtain cid where r: "map_of (rRoutes s) cid = Some a" "rRoutes (expireOne e s) = AList.delete cid (rRoutes s)"
      "rRouteObj (expireOne e s) = rRouteObj s" "set (hList (rDeadlines (expireOne e s))) = set ?l - {a}"
      "expired (ends (rRouteObj s a), ownWaiters s a) cid (expireOne e s)"
      "\<And>b. b \<noteq> a \<Longrightarrow> ownWaiters (expireOne e s) b = ownWaiters s b"
      using expireOne_effect [OF "2.prems"(1) conjunct1 [OF True] a_def [symmetric], of e] by metis
    have i: "routerInv (expireOne e s)" using inv_expireOne "2.prems"(1) True by blast
    have aeq: "deadlines (expireOne e s) = deadlines s" by (rule deadlines_obj [OF r(3)])
    have am: "a \<in> set ?l" using True unfolding a_def by simp
    then have "length (hList (rDeadlines (expireOne e s))) < length ?l"
      unfolding heap_length [OF i] heap_length [OF "2.prems"(1)] r(4) by (rule card_Diff1_less [OF finite_set])
    then have "length (hList (rDeadlines (expireOne e s))) \<le> n" using "2.prems"(2) by simp
    note ih = "2.IH" [OF True i this]
    let ?s' = "expireLoop n e (expireOne e s)"
    have eq: "expireLoop (Suc n) e s = ?s'" using True by simp
    have "settledBy (eNow e) s ?s' c b" if m: "map_of (rRoutes s) c = Some b" for c b
    proof (cases "c = cid")
      case True': True
      then have "b = a" using m r(1) by simp
      moreover have "map_of (rRoutes ?s') cid = None" using absent_stays [OF i] r(2) by simp
      ultimately show ?thesis using expired_keeps [OF r(5) keeps_expireLoop [OF i]] am True True' by (simp add: settledBy_def a_def)
    next
      case False
      then have "map_of (rRoutes (expireOne e s)) c = Some b" using m r(2) by simp
      then have "settledBy (eNow e) (expireOne e s) ?s' c b" using ih by blast
      moreover have "b \<noteq> a" using route_unique [OF "2.prems"(1) m, of cid] r(1) False by blast
      ultimately show ?thesis using r(3,4) r(6) [of b] aeq by (auto simp: settledBy_def split: if_splits)
    qed
    then show ?thesis unfolding eq using ih aeq r(3) by simp
  qed
qed

text \<open>
  C22.  One pass of the expiry loop ends exactly the calls with a deadline that has come.  Each of them
  is removed, its caller (and each joined caller, under its own call id) is sent the deadline error and
  its instance the cancellation; every other call stays, and no deadline that is due is left.
\<close>

theorem expire_ends_exactly_the_due_calls:
  assumes "run c au s ph" "map_of (rRoutes s) cid = Some a"
  shows "(\<forall>b \<in> set (hList (rDeadlines (expire e s))). eNow e < rtDeadline (rRouteObj s b)) \<and>
    (if a \<in> set (hList (rDeadlines s)) \<and> rtDeadline (rRouteObj s a) \<le> eNow e
     then map_of (rRoutes (expire e s)) cid = None \<and>
       answered (rtClient (rRouteObj s a)) (deadlineError cid) (expire e s) \<and>
       answered (rtInstance (rRouteObj s a)) (cancelFrame cid ''deadline_exceeded'') (expire e s) \<and>
       (\<forall>(p, w) \<in> set (ownWaiters s a). answered p (withCallID (deadlineError cid) w) (expire e s))
     else map_of (rRoutes (expire e s)) cid = Some a)"
  using expireLoop_effect [OF run_books [OF assms(1)] le_refl, of e] assms(2)
  unfolding expire_def settledBy_def expired_def deadlines_def ends_def fst_conv snd_conv by blast

theorem expire_ends_exactly_the_due_calls_witness:
  "map_of (rRoutes (expire (demoEnv\<lparr>eNow := 600 * millisecond\<rparr>) demoCall)) ''c1'' = None \<and>
   answered 2 (deadlineError ''c1'') (expire (demoEnv\<lparr>eNow := 600 * millisecond\<rparr>) demoCall)"
proof -
  have "rtDeadline (rRouteObj demoCall 3) = 505 * millisecond"
    by (simp add: demoCall_def openRoute_def Let_def demoOpen_def zeroFrame_def track_def demo4_def demoEnv_def addRoute_def
        demoConfig_def withDefaults_def zeroConfig_def dflt_def millisecond_def wrap64_def)
  then show ?thesis
    using expire_ends_exactly_the_due_calls [OF demo_run, of "''c1''" 3 "demoEnv\<lparr>eNow := 600 * millisecond\<rparr>"]
    by (simp add: millisecond_def)
qed

end
