(* ===== verification/Router_Calls.thy ===== *)
theory Router_Calls
  imports Router_Guarantees
begin

text \<open>
  Calls as their parties see them: which connection can change which call, what flow control lets
  through, and what the idempotency table does with repeated calls.
\<close>

section \<open>Isolation: the Router refines a table of calls\<close>

text \<open>The abstract state: for each call id its caller, its instance, its service and its method.\<close>

definition calls :: "router \<Rightarrow> string \<Rightarrow> (addr \<times> addr \<times> string \<times> string) option" where
  "calls s cid = map_option (\<lambda>a. ends (rRouteObj s a)) (map_of (rRoutes s) cid)"

text \<open>What connection \<open>p\<close> may do to it: nothing, open a call of its own, or end a call it takes part in.\<close>

inductive tableStep :: "addr \<Rightarrow> (string \<Rightarrow> (addr \<times> addr \<times> string \<times> string) option) \<Rightarrow>
    (string \<Rightarrow> (addr \<times> addr \<times> string \<times> string) option) \<Rightarrow> bool" for p where
  same: "tableStep p T T"
| opened: "T cid = None \<Longrightarrow> tableStep p T (T(cid \<mapsto> (p, i, svc, m)))"
| ended: "T cid = Some (c, i, svc, m) \<Longrightarrow> c = p \<or> i = p \<Longrightarrow> tableStep p T (T(cid := None))"

lemma calls_same: "rRoutes s' = rRoutes s \<Longrightarrow> (\<And>a. ends (rRouteObj s' a) = ends (rRouteObj s a)) \<Longrightarrow> calls s' = calls s"
  by (rule ext) (simp add: calls_def)

lemma calls_quiet: "quiet s s' \<Longrightarrow> calls s' = calls s"
  by (rule calls_same) (simp_all add: quietD)

lemma calls_released: "released en s s' \<Longrightarrow> calls s' = calls s"
  by (rule calls_same) (simp_all add: releasedD)

lemma calls_failOwned: "calls (failOwned now a err lost s) = calls s"
  by (rule calls_same) simp_all

lemma calls_endRoute: "calls (endRoute cid a s) = (calls s)(cid := None)"
  by (rule ext) (simp add: calls_def endRoute_fields)

lemma calls_updRoute: "ends (g (rRouteObj s a)) = ends (rRouteObj s a) \<Longrightarrow> calls (updRoute a g s) = calls s"
  by (rule calls_same) simp_all

lemma calls_dedupRemove: "calls (dedupRemove en s) = calls s"
  by (rule calls_same) (simp_all add: dedupRemove_fields)

lemma calls_openRoute:
  assumes "\<And>cid a. map_of (rRoutes s) cid = Some a \<Longrightarrow> a < rNext s"
  shows "calls (openRoute e p i k f s) = (calls s)(fCallID f \<mapsto> (p, i, fService f, fMethod f))"
proof -
  let ?s3 = "addRoute (eNow e) p i f s" and ?a = "rNext s"
  define s4 where "s4 = (case fTimeoutMS f of None \<Rightarrow> ?s3 | Some t \<Rightarrow> track (eNow e) ?a (wrap64 (t * millisecond)) ?s3)"
  define s5 where "s5 = (if k then dedupInsert (dedupKey f) ?a s4 else s4)"
  have "calls s4 = calls ?s3" by (rule calls_same) (simp_all add: s4_def track_def Let_def ends_def split: option.split)
  moreover have "calls s5 = calls s4"
    by (rule calls_same) (simp_all add: s5_def dedupInsert_put ends_def)
  moreover have "calls ?s3 = (calls s)(fCallID f \<mapsto> (p, i, fService f, fMethod f))"
  proof (rule ext)
    fix c
    show "calls ?s3 c = ((calls s)(fCallID f \<mapsto> (p, i, fService f, fMethod f))) c"
      using assms [of c] by (cases "map_of (rRoutes s) c") (auto simp: calls_def ends_def)
  qed
  moreover have "calls (openRoute e p i k f s) = calls s5"
    unfolding openRoute_def Let_def s4_def [symmetric] s5_def [symmetric] by (rule calls_quiet [OF quiet_sendTo])
  ultimately show ?thesis by simp
qed

lemma table_routeCall:
  assumes "\<And>cid a. map_of (rRoutes s) cid = Some a \<Longrightarrow> a < rNext s" "map_of (rRoutes s) (fCallID f) = None"
  shows "tableStep p (calls s) (calls (routeCall e p avoid k f s))"
proof (cases "selectInstance e f avoid s")
  case (Pair s1 r)
  note sel = select_sel [OF Pair]
  have c: "calls s1 = calls s" by (rule calls_same) (simp_all add: sel)
  show ?thesis
  proof (cases r)
    case (Inl err)
    then show ?thesis using calls_quiet [OF quiet_refuse] c tableStep.same by (simp add: routeCall_def Pair)
  next
    case (Inr i)
    have "calls s (fCallID f) = None" using assms(2) by (simp add: calls_def)
    then show ?thesis using calls_openRoute [of s1 e p i k f] assms(1) sel(1,3) c tableStep.opened by (simp add: routeCall_def Pair Inr)
  qed
qed

lemma table_keyedCall:
  assumes "\<And>cid a. map_of (rRoutes s) cid = Some a \<Longrightarrow> a < rNext s" "map_of (rRoutes s) (fCallID f) = None"
  shows "tableStep p (calls s) (calls (keyedCall e p f s))"
proof (cases "dedupLookup (eNow e) (dedupKey f) s")
  case (Pair s1 r)
  have l: "s1 = s \<or> (\<exists>en. s1 = dedupRemove en s)" using Pair by (auto simp: dedupLookup_def split: option.splits if_splits)
  then have c: "calls s1 = calls s" using calls_dedupRemove by auto
  have r1: "tableStep p (calls s) (calls (routeCall e p av k f s1))" for av k
    using table_routeCall [of s1 f p e av k] assms l c by (auto simp: dedupRemove_fields)
  have r2: "tableStep p (calls s) (calls (routeCall e p av k f (dedupRemove en s1)))" for av k en
    using table_routeCall [of "dedupRemove en s1" f p e av k] assms l c by (auto simp: dedupRemove_fields calls_dedupRemove)
  have "calls (sendTo p g s1) = calls s" "calls (joinWaiter en p w s1) = calls s" for g en w
    using calls_quiet [OF quiet_sendTo] c calls_same [of "joinWaiter en p w s1" s1] by (simp_all add: joinWaiter_def)
  then show ?thesis using r1 r2 tableStep.same by (simp add: keyedCall_def Pair Let_def split: option.split)
qed

lemma table_openCall:
  assumes "\<And>cid a. map_of (rRoutes s) cid = Some a \<Longrightarrow> a < rNext s"
  shows "tableStep p (calls s) (calls (openCall e p f s))"
proof (cases "map_of (rRoutes s) (fCallID f)")
  case None
  then show ?thesis using table_routeCall [OF assms None] table_keyedCall [OF assms None] tableStep.same
    unfolding openCall_def Let_def
    by (simp only: calls_quiet [OF quiet_refuse] calls_quiet [OF quiet_management] split: if_split) simp
next
  case (Some a)
  then show ?thesis using tableStep.same unfolding openCall_def Let_def
    by (simp only: calls_quiet [OF quiet_refuse] calls_quiet [OF quiet_management] split: if_split) simp
qed

lemma calls_flowViolation: "calls (flowViolation e a b s) = (calls s)(rtId (rRouteObj s a) := None)"
proof -
  have "calls (if b then observe (eNow e) i False s else s) = calls s" for i by (simp add: calls_quiet [OF quiet_observe])
  then show ?thesis by (simp add: flowViolation_def Let_def calls_endRoute calls_quiet [OF quiet_sendTo] calls_failOwned)
qed

lemma calls_credit:
  assumes "credit f (rRouteObj s a) = (rt, ok)"
  shows "calls (updRoute a (\<lambda>_. rt) s) = calls s"
  by (rule calls_updRoute) (simp add: ends_def credit_sel [OF assms])

lemma calls_relayClient:
  assumes "rtId (rRouteObj s a) = fCallID f"
  shows "calls (relayClient e a f s) = calls s \<or> calls (relayClient e a f s) = (calls s)(fCallID f := None)"
  using assms calls_credit [of f s a]
  by (auto simp: relayClient_def Let_def calls_flowViolation calls_endRoute calls_quiet [OF quiet_finishRoute]
      calls_quiet [OF quiet_sendTo] split: prod.split bool.split)

lemma calls_relayServer:
  assumes "rtId (rRouteObj s a) = fCallID f"
  shows "calls (relayServer e p a f s) = calls s \<or> calls (relayServer e p a f s) = (calls s)(fCallID f := None)"
proof -
  have d: "calls (case d of Some en \<Rightarrow> dedupSettle now en f t | None \<Rightarrow> t) = calls t" for d now t
    by (simp add: calls_released [OF released_settle] split: option.split)
  show ?thesis using assms calls_credit [of f s a]
    by (auto simp: relayServer_def Let_def calls_flowViolation calls_endRoute calls_quiet [OF quiet_finishRoute]
        calls_quiet [OF quiet_sendTo] calls_quiet [OF quiet_observe] d split: prod.split bool.split)
qed

lemma table_end:
  assumes "map_of (rRoutes s) cid = Some a" "rtClient (rRouteObj s a) = p \<or> rtInstance (rRouteObj s a) = p" "T = calls s \<or> T = (calls s)(cid := None)"
  shows "tableStep p (calls s) T"
proof -
  have "calls s cid = Some (rtClient (rRouteObj s a), rtInstance (rRouteObj s a), rtService (rRouteObj s a), rtMethod (rRouteObj s a))"
    using assms(1) by (simp add: calls_def ends_def)
  then have "tableStep p (calls s) ((calls s)(cid := None))" using assms(2) by (rule tableStep.ended)
  then show ?thesis using assms(3) tableStep.same by blast
qed

lemma table_forward:
  assumes "routerInv s"
  shows "tableStep p (calls s) (calls (forward e p f s))"
proof -
  have o: "tableStep p (calls s) (calls (openCall e p f s))" using route_facts(2) [OF assms] by (rule table_openCall)
  have r: "tableStep p (calls s) (calls (relayClient e a f s))" if "map_of (rRoutes s) (fCallID f) = Some a" "rtClient (rRouteObj s a) = p" for a
    using table_end [OF that(1) _ calls_relayClient [OF route_facts(1) [OF assms that(1)]]] that(2) by blast
  have q: "tableStep p (calls s) (calls (relayServer e p a f s))" if "map_of (rRoutes s) (fCallID f) = Some a" "rtInstance (rRouteObj s a) = p" for a
    using table_end [OF that(1) _ calls_relayServer [OF route_facts(1) [OF assms that(1)]]] that(2) by blast
  show ?thesis using o r q tableStep.same by (simp add: forward_def Let_def calls_quiet [OF quiet_cancelPeer] split: option.split)
qed

lemma calls_leavePools: "calls (leavePools p s) = calls s"
proof -
  obtain m where "leavePools p s = s\<lparr>rServices := m\<rparr>" using leavePools_fields by metis
  then show ?thesis by (intro calls_same) simp_all
qed

lemma calls_drain: "calls (drain p s) = calls s"
proof -
  have "calls (updPeer p g s) = calls s" for g by (rule calls_same) simp_all
  then show ?thesis by (simp add: drain_def calls_leavePools)
qed

text \<open>
  C23.  Isolation.  Seen as a table of calls, everything a connection can do by sending bytes, or an HTTP
  request by sending frames, is to leave the table alone, to open one call of its own under an unused id,
  or to end one call in which it is the caller or the instance.  No frame touches a call of others.
\<close>

theorem connection_touches_only_its_calls:
  assumes "run c au s ph"
  shows "tableStep p (calls s) (calls (fst (handleMessage e p d s))) \<and> tableStep p (calls s) (calls (forward e p f s))"
proof
  note i = run_books [OF assms]
  show "tableStep p (calls s) (calls (forward e p f s))" by (rule table_forward [OF i])
  show "tableStep p (calls s) (calls (fst (handleMessage e p d s)))"
    by (rule handleMessage_effect)
      (simp_all add: calls_quiet [OF quiet_sendTo] calls_drain tableStep.same table_forward [OF i])
qed

theorem connection_touches_only_its_calls_witness:
  "tableStep 2 (calls demo4) (calls (forward demoEnv 2 demoOpen demo4)) \<and> calls demoCall ''c1'' = Some (2, 1, ''a.v1.B'', ''m'')"
  using connection_touches_only_its_calls [OF demo_setup, of 2] by (simp add: calls_def ends_def)

section \<open>Flow control\<close>

text \<open>The frames of one call pass one by one; a violation ends the call.\<close>

fun passFrames :: "route \<Rightarrow> frame list \<Rightarrow> route \<times> frame list" where
  "passFrames rt [] = (rt, [])"
| "passFrames rt (f # fs) = (case credit f rt of
      (rt', True) \<Rightarrow> (case passFrames rt' fs of (r, out) \<Rightarrow> (r, f # out))
    | (rt', False) \<Rightarrow> (rt, []))"

definition balanceOf :: "string \<Rightarrow> route \<Rightarrow> int" where
  "balanceOf dir rt = (if dir = ''server'' then rtServerCredit rt else rtClientCredit rt)"

definition itemsOf :: "string \<Rightarrow> frame list \<Rightarrow> int" where
  "itemsOf dir fs = int (length (filter (\<lambda>f. fKind f = ''stream.item'' \<and> (fDirection f = ''server'') = (dir = ''server'')) fs))"

definition grantOf :: "string \<Rightarrow> frame \<Rightarrow> int" where
  "grantOf dir f = (if fKind f = ''stream.window'' \<and> (fDirection f = ''server'') = (dir = ''server'')
     then case_option 0 id (fCredit f) else 0)"

definition grantsOf :: "string \<Rightarrow> frame list \<Rightarrow> int" where
  "grantsOf dir fs = sum_list (map (grantOf dir) fs)"

lemma items_Cons: "itemsOf dir (f # fs) = itemsOf dir [f] + itemsOf dir fs"
  by (simp add: itemsOf_def)

lemma grants_Cons: "grantsOf dir (f # fs) = grantOf dir f + grantsOf dir fs"
  by (simp add: grantsOf_def)

text \<open>One frame that passes: the balance moves by the grant and the item, or saturates.\<close>

lemma credit_balance:
  assumes "credit f rt = (rt', True)" "0 \<le> balanceOf dir rt" "0 \<le> grantOf dir f"
  shows "0 \<le> balanceOf dir rt' \<and> balanceOf dir rt' + itemsOf dir [f] \<le> balanceOf dir rt + grantOf dir f \<and>
    (balanceOf dir rt + grantOf dir f \<le> maxInt64 \<longrightarrow> balanceOf dir rt' + itemsOf dir [f] = balanceOf dir rt + grantOf dir f)"
  using assms
  by (auto simp: credit_def Let_def balanceOf_def grantOf_def itemsOf_def maxInt64_def split: if_splits option.splits)

lemma wf_credit: "wfFrame g \<Longrightarrow> fKind g = ''stream.window'' \<Longrightarrow> \<exists>n. fCredit g = Some n \<and> 0 < n"
  unfolding wfFrame_def by blast

lemma passFrames_balance:
  "0 \<le> balanceOf dir rt \<Longrightarrow> \<forall>f \<in> set fs. 0 \<le> grantOf dir f \<Longrightarrow> passFrames rt fs = (rt', out) \<Longrightarrow>
   0 \<le> balanceOf dir rt' \<and> balanceOf dir rt' + itemsOf dir out \<le> balanceOf dir rt + grantsOf dir out \<and>
   (balanceOf dir rt + grantsOf dir out \<le> maxInt64 \<longrightarrow> balanceOf dir rt' + itemsOf dir out = balanceOf dir rt + grantsOf dir out)"
proof (induction rt fs arbitrary: out rule: passFrames.induct)
  case (1 rt)
  then show ?case by (simp add: itemsOf_def grantsOf_def)
next
  case (2 rt f fs)
  obtain rt1 ok where c: "credit f rt = (rt1, ok)" by fastforce
  show ?case
  proof (cases ok)
    case False
    then show ?thesis using 2 c by (simp add: itemsOf_def grantsOf_def)
  next
    case True
    obtain r o' where p: "passFrames rt1 fs = (r, o')" by fastforce
    have out: "rt' = r" "out = f # o'" using "2.prems"(3) c True p by simp_all
    have b: "0 \<le> balanceOf dir rt1 \<and> balanceOf dir rt1 + itemsOf dir [f] \<le> balanceOf dir rt + grantOf dir f \<and>
      (balanceOf dir rt + grantOf dir f \<le> maxInt64 \<longrightarrow> balanceOf dir rt1 + itemsOf dir [f] = balanceOf dir rt + grantOf dir f)"
      using credit_balance c True "2.prems" by simp
    have ih: "0 \<le> balanceOf dir r \<and> balanceOf dir r + itemsOf dir o' \<le> balanceOf dir rt1 + grantsOf dir o' \<and>
      (balanceOf dir rt1 + grantsOf dir o' \<le> maxInt64 \<longrightarrow> balanceOf dir r + itemsOf dir o' = balanceOf dir rt1 + grantsOf dir o')"
      using "2.IH" c True p b "2.prems" by simp
    have "set o' \<subseteq> set fs" using p
    proof (induction fs arbitrary: rt1 r o')
      case (Cons g gs)
      then show ?case by (fastforce split: prod.splits bool.splits)
    qed simp
    then have "0 \<le> grantsOf dir o'" using "2.prems"(2) unfolding grantsOf_def by (intro sum_list_nonneg) auto
    moreover have "0 \<le> itemsOf dir [f]" by (simp add: itemsOf_def)
    ultimately show ?thesis using b ih unfolding out items_Cons [of dir f o'] grants_Cons by linarith
  qed
qed

text \<open>
  C24.  Flow control.  On one call, in either direction, the items the Router forwards never exceed the
  credit the consumer granted before them; while the grants stay within the 64-bit counter, grants are
  neither lost nor invented: what is granted is what was forwarded plus what is left.
\<close>

theorem items_forwarded_within_credit:
  assumes "passFrames (newRoute now p i f) fs = (rt, out)" "\<forall>g \<in> set fs. wfFrame g"
  shows "itemsOf dir out \<le> grantsOf dir out \<and>
    (grantsOf dir out \<le> maxInt64 \<longrightarrow> itemsOf dir out + balanceOf dir rt = grantsOf dir out)"
proof -
  have g: "0 \<le> grantOf dir g" if "g \<in> set fs" for g
    using wf_credit [OF assms(2) [rule_format, OF that]] by (auto simp: grantOf_def)
  have z: "balanceOf dir (newRoute now p i f) = 0" by (simp add: balanceOf_def)
  show ?thesis using passFrames_balance [OF _ _ assms(1), of dir] g z by (simp add: add.commute)
qed

text \<open>A grant of two, three items: two pass, the third is a violation.\<close>

definition flowItem :: frame where
  "flowItem = zeroFrame\<lparr>fKind := ''stream.item'', fCallID := ''c'', fDirection := ''server'', fSequence := Some 0, fPayload := Some ''1''\<rparr>"

definition flowGrant :: frame where
  "flowGrant = zeroFrame\<lparr>fKind := ''stream.window'', fCallID := ''c'', fDirection := ''server'', fCredit := Some 2\<rparr>"

theorem items_forwarded_within_credit_witness:
  "snd (passFrames (newRoute 0 1 2 demoOpen) [flowGrant, flowItem, flowItem, flowItem]) = [flowGrant, flowItem, flowItem] \<and>
   itemsOf ''server'' [flowGrant, flowItem, flowItem] \<le> grantsOf ''server'' [flowGrant, flowItem, flowItem]"
proof -
  let ?r = "newRoute 0 1 2 demoOpen" and ?fs = "[flowGrant, flowItem, flowItem, flowItem]"
  have c: "snd (passFrames ?r ?fs) = [flowGrant, flowItem, flowItem]"
    by (simp add: flowGrant_def flowItem_def zeroFrame_def credit_def newRoute_def Let_def maxInt64_def)
  then have p: "passFrames ?r ?fs = (fst (passFrames ?r ?fs), [flowGrant, flowItem, flowItem])" by (metis prod.collapse)
  have "wfFrame flowGrant" "wfFrame flowItem"
    by (simp_all add: wfFrame_def callKinds_def flowGrant_def flowItem_def zeroFrame_def)
  then have "\<forall>g \<in> set ?fs. wfFrame g" by simp
  from items_forwarded_within_credit [OF p this, of "''server''"] show ?thesis using c by blast
qed

end
