(* ===== verification/Codec.thy ===== *)
theory Codec
  imports Contract
begin

text \<open>
  Reading back what the Router writes: numbers, quoted strings and whole JSON values.  The encoder of
  \<^verbatim>\<open>internal/contract\<close> and the marshalling of the wire protocol share these facts.
\<close>

section \<open>Numbers\<close>

lemma digitsVal_snoc: "digitsVal (s @ [c]) = digitsVal s * 10 + (int (byte c) - 48)"
  by (simp add: digitsVal_def)

lemma digitsVal_natDigits: "digitsVal (natDigits n) = int n"
proof (induction n rule: natDigits.induct)
  case (1 n)
  show ?case
  proof (cases "n < 10")
    case True
    then show ?thesis by (subst natDigits.simps) (simp add: digitsVal_def)
  next
    case False
    have "byte (char_of (48 + n mod 10)) = 48 + n mod 10" by (rule byte_char_of) simp
    with False 1 show ?thesis by (subst natDigits.simps) (simp add: digitsVal_snoc zdiv_int zmod_int)
  qed
qed

lemma natDigits_inj: "natDigits m = natDigits n \<Longrightarrow> m = n"
  by (metis digitsVal_natDigits of_nat_eq_iff)

lemma itoa_inj: "itoa (int i) = itoa (int j) \<Longrightarrow> i = j"
  by (simp add: itoa_def natDigits_inj)

lemma natDigits_hd: "\<exists>c s. natDigits n = c # s \<and> isDigit c"
  using natDigits_digits [of _ n] natDigits_nonempty [of n] by (cases "natDigits n") auto

lemma parseInt64_itoa:
  assumes "- maxInt64 - 1 \<le> n" "n \<le> maxInt64"
  shows "parseInt64 (itoa n) = Some n"
proof -
  have d: "list_all isDigit (natDigits k)" for k using natDigits_digits by (auto simp: list_all_iff)
  obtain c s where c: "natDigits (nat n) = c # s" "isDigit c" using natDigits_hd by blast
  have "c \<noteq> CHR ''-''" using c(2) by (auto simp: isDigit_def byte_def)
  with c have "take 1 (natDigits (nat n)) \<noteq> ''-''" by simp
  with d assms show ?thesis by (simp add: parseInt64_def itoa_def Let_def digitsVal_natDigits)
qed

section \<open>Strings\<close>

text \<open>Valid UTF-8: a sequence of encoded runes.\<close>

definition validText :: "string \<Rightarrow> bool" where
  "validText s \<longleftrightarrow> (\<exists>rs. list_all validRune rs \<and> s = concat (map encodeRune rs))"

lemma validText_ascii: "list_all (\<lambda>c. byte c < 128) s \<Longrightarrow> validText s"
proof -
  assume a: "list_all (\<lambda>c. byte c < 128) s"
  then have "s = concat (map encodeRune (map byte s))"
    by (induction s) (auto simp: encodeRune_def Let_def validRune_def)
  moreover have "list_all validRune (map byte s)" using a by (auto simp: list_all_iff validRune_def)
  ultimately show ?thesis unfolding validText_def by blast
qed

lemma hexDigit_u4: "hex4 (drop 2 (u4 n) @ s) = Some (n mod 65536)"
proof -
  have q: "n div 16 div 16 = n div 256" "n div 256 div 16 = n div 4096" by (simp_all flip: div_mult2_eq)
  have "n mod (16 * 4096) = 16 * (n div 16 mod 4096) + n mod 16" by (rule mod_mult2_eq)
  moreover have "n div 16 mod (16 * 256) = 16 * (n div 256 mod 256) + n div 16 mod 16" by (subst mod_mult2_eq) (simp only: q)
  moreover have "n div 256 mod (16 * 16) = 16 * (n div 4096 mod 16) + n div 256 mod 16" by (subst mod_mult2_eq) (simp only: q)
  ultimately have "n mod 65536 = ((n div 4096 mod 16 * 16 + n div 256 mod 16) * 16 + n div 16 mod 16) * 16 + n mod 16" by simp
  then show ?thesis by (simp add: u4_def hex4_def fromHexChar_hexDigit)
qed

lemma parseString_u4:
  assumes "n < 65536" "\<not> isSurrogate n"
  shows "parseString (u4 n @ s) = map_option (\<lambda>(t, r). (encodeRune n @ t, r)) (parseString s)"
proof -
  define ds where "ds = drop 2 (u4 n)"
  have ds: "u4 n = backslash # CHR ''u'' # ds" "length ds = 4" by (simp_all add: ds_def u4_def)
  have "unicodeEscape (ds @ s) = Some (encodeRune n, s)"
    using hexDigit_u4 [of n s] assms by (simp add: unicodeEscape_def ds_def [symmetric] ds(2))
  then show ?thesis unfolding ds(1) append_Cons by (subst parseString.simps) simp
qed

lemma parseString_plain:
  assumes "byte c < 128" "32 \<le> byte c" "c \<noteq> quoteChar" "c \<noteq> backslash"
  shows "parseString (c # s) = map_option (\<lambda>(t, r). (c # t, r)) (parseString s)"
  using assms by (subst parseString.simps) (simp add: decodeRune_def Let_def max_def runeError_def)

lemma parseString_escape:
  assumes "simpleEscape x = Some bs" "x \<noteq> CHR ''u''"
  shows "parseString (backslash # x # s) = map_option (\<lambda>(t, r). (bs @ t, r)) (parseString s)"
  using assms by (subst parseString.simps) simp

lemma parseString_ascii:
  assumes "byte c < 128"
  shows "parseString (quoteAscii c @ s) = map_option (\<lambda>(t, r). (c # t, r)) (parseString s)"
proof -
  have u: "parseString (u4 (byte c) @ s) = map_option (\<lambda>(t, r). (c # t, r)) (parseString s)"
    using parseString_u4 [of "byte c" s] assms by (simp add: isSurrogate_def encodeRune_def validRune_def Let_def)
  consider "c = quoteChar \<or> c = backslash" | (esc) k :: nat where "k \<in> {8, 9, 10, 12, 13}" "c = char_of k"
    | (other) "c \<noteq> quoteChar" "c \<noteq> backslash" "byte c \<notin> {8, 9, 10, 12, 13}" by (metis char_of_byte)
  then show ?thesis
  proof cases
    case 1
    then show ?thesis by (auto simp: quoteAscii_def parseString_escape [of _ "[c]"] simpleEscape_def)
  next
    case esc
    then have b: "byte c = k" by auto
    with esc(1) have n: "c \<noteq> quoteChar" "c \<noteq> backslash" by (auto simp: byte_def)
    obtain x where "quoteAscii c = [backslash, x]" "simpleEscape x = Some [c]" "x \<noteq> CHR ''u''"
      using esc b n by (auto simp: quoteAscii_def simpleEscape_def)
    then show ?thesis by (simp add: parseString_escape)
  next
    case other
    then show ?thesis using u assms parseString_plain [of c s] by (auto simp: quoteAscii_def)
  qed
qed

lemma parseString_rune:
  assumes "validRune r" "128 \<le> r"
  shows "parseString (encodeRune r @ s) = map_option (\<lambda>(t, u). (encodeRune r @ t, u)) (parseString s)"
proof -
  obtain c t where ct: "encodeRune r = c # t" by (metis encodeRune_nonempty neq_Nil_conv)
  have c: "\<not> byte c < 128" and w: "length t > 0"
    using assms ct by (auto simp: encodeRune_def Let_def validRune_def split: if_splits)
  have d: "decodeRune (c # t @ s) = (r, Suc (length t))" using decodeRune_encodeRune [OF assms(1), of s] ct by simp
  have "c \<noteq> quoteChar" "c \<noteq> backslash" using c by (auto simp: byte_def)
  then show ?thesis unfolding ct append_Cons by (subst parseString.simps) (use c w d in \<open>simp add: max_def\<close>)
qed

lemma parseString_end: "parseString (quoteChar # r) = Some ([], r)"
  by (subst parseString.simps) simp

lemma parseString_quoteBody:
  assumes "list_all validRune rs"
  shows "parseString (quoteBody (concat (map encodeRune rs)) @ quoteChar # u) = Some (concat (map encodeRune rs), u)"
  using assms
proof (induction rs)
  case Nil
  then show ?case by (simp add: parseString_end)
next
  case (Cons r rs)
  let ?t = "concat (map encodeRune rs)"
  have ih: "parseString (quoteBody ?t @ quoteChar # u) = Some (?t, u)" using Cons by simp
  show ?case
  proof (cases "r < 128")
    case True
    then have e: "encodeRune r = [char_of r]" by (simp add: encodeRune_def validRune_def Let_def)
    then show ?thesis using True ih by (simp add: quoteBody_ascii parseString_ascii)
  next
    case False
    then have v: "validRune r" "128 \<le> r" using Cons by simp_all
    then show ?thesis using ih parseString_rune [OF v] parseString_u4 [of r]
      by (auto simp: quoteBody_rune [OF v] isSurrogate_def)
  qed
qed

lemma parseString_quote: "validText s \<Longrightarrow> parseString (quoteBody s @ quoteChar # r) = Some (s, r)"
  using parseString_quoteBody unfolding validText_def by blast

section \<open>Number literals\<close>

text \<open>What may follow a value inside a document.\<close>

definition delimited :: "string \<Rightarrow> bool" where
  "delimited r \<longleftrightarrow> r = [] \<or> hd r = CHR '','' \<or> hd r = CHR '']'' \<or> hd r = CHR ''}''"

definition validNumber :: "string \<Rightarrow> bool" where
  "validNumber n \<longleftrightarrow> parseNumber n = Some (n, [])"

lemma takeDigits_append: "delimited r \<Longrightarrow> takeDigits (s @ r) = takeDigits s"
  by (induction s) (cases r; auto simp: takeDigits_def delimited_def isDigit_def byte_def)+

lemma take1_append: "delimited r \<Longrightarrow> c \<notin> {CHR '','', CHR '']'', CHR ''}''} \<Longrightarrow> (take 1 (s @ r) = [c]) = (take 1 s = [c])"
  by (cases s; cases r) (auto simp: delimited_def)

lemma takeDigits_le: "length (takeDigits s) \<le> length s"
  by (simp add: takeDigits_def length_takeWhile_le)

lemma take1_drop: "take 1 s = [c] \<Longrightarrow> drop 1 (s @ r) = drop 1 s @ r"
  by (cases s) auto

text \<open>The parts of a literal: sign, integer, fraction (\<open>None\<close>: a point without digits) and exponent.\<close>

definition signPart :: "string \<Rightarrow> string" where
  "signPart s = (if take 1 s = ''-'' then ''-'' else [])"

definition intPart :: "string \<Rightarrow> string" where
  "intPart s = (if take 1 s = ''0'' then ''0'' else takeDigits s)"

definition fracPart :: "string \<Rightarrow> string option" where
  "fracPart s = (if take 1 s = ''.'' then (if takeDigits (drop 1 s) = [] then None else Some (CHR ''.'' # takeDigits (drop 1 s))) else Some [])"

definition expSign :: "string \<Rightarrow> string" where
  "expSign s = (if take 1 s = ''+'' \<or> take 1 s = ''-'' then take 1 s else [])"

definition expPart :: "string \<Rightarrow> string option" where
  "expPart s = (if take 1 s = ''e'' \<or> take 1 s = ''E''
     then (let d = takeDigits (drop (length (expSign (drop 1 s))) (drop 1 s)) in
       if d = [] then None else Some (take 1 s @ expSign (drop 1 s) @ d)) else Some [])"

lemma parseNumber_parts:
  "parseNumber s =
     (let s1 = drop (length (signPart s)) s; s2 = drop (length (intPart s1)) s1 in
      if intPart s1 = [] then None
      else (case fracPart s2 of None \<Rightarrow> None
        | Some f \<Rightarrow> (case expPart (drop (length f) s2) of None \<Rightarrow> None
          | Some x \<Rightarrow> Some (signPart s @ intPart s1 @ f @ x, drop (length x) (drop (length f) s2)))))"
proof -
  define s1 where "s1 = drop (length (signPart s)) s"
  define s2 where "s2 = drop (length (intPart s1)) s1"
  define f where "f = (if take 1 s2 = ''.'' then CHR ''.'' # takeDigits (drop 1 s2) else [])"
  define s3 where "s3 = drop (length f) s2"
  have fp: "fracPart s2 = (if take 1 s2 = ''.'' \<and> takeDigits (drop 1 s2) = [] then None else Some f)"
    unfolding fracPart_def f_def by (cases "take 1 s2 = ''.''") (simp_all only: if_True if_False simp_thms)
  show ?thesis
    unfolding parseNumber_def Let_def signPart_def [symmetric] intPart_def [symmetric] s1_def [symmetric] s2_def [symmetric]
      f_def [symmetric] s3_def [symmetric] fp
    unfolding expPart_def expSign_def Let_def s3_def [symmetric]
    by (cases "intPart s1 = []"; cases "take 1 s2 = ''.'' \<and> takeDigits (drop 1 s2) = []"; cases "take 1 s3 = ''e'' \<or> take 1 s3 = ''E''")
      (simp_all only: if_True if_False simp_thms option.case s3_def [symmetric] split: if_split, simp_all)
qed

lemma drop_keep: "length x \<le> length s \<Longrightarrow> drop (length x) (s @ r) = drop (length x) s @ r"
  by simp

lemma signPart_append: "delimited r \<Longrightarrow> signPart (s @ r) = signPart s" "length (signPart s) \<le> length s"
  using take1_append [of r "CHR ''-''" s] by (simp_all add: signPart_def del: take_append) (cases s; simp)+

lemma intPart_append: "delimited r \<Longrightarrow> intPart (s @ r) = intPart s" "length (intPart s) \<le> length s"
  using take1_append [of r "CHR ''0''" s] takeDigits_le [of s]
  by (simp_all add: intPart_def takeDigits_append del: take_append) (cases s; simp)+

lemma fracPart_append: "delimited r \<Longrightarrow> fracPart (s @ r) = fracPart s"
  using take1_append [of r "CHR ''.''" s] take1_drop [of s "CHR ''.''" r]
  by (simp add: fracPart_def takeDigits_append del: take_append drop_append)

lemma fracPart_le: "fracPart s = Some f \<Longrightarrow> length f \<le> length s"
  using takeDigits_le [of "drop 1 s"] by (cases s) (auto simp: fracPart_def split: if_splits)

lemma expSign_append: "delimited r \<Longrightarrow> expSign (s @ r) = expSign s" "length (expSign s) \<le> length s"
  using take1_append [of r "CHR ''+''" s] take1_append [of r "CHR ''-''" s]
  by (cases s; auto simp: expSign_def)+

lemma expPart_append:
  assumes "delimited r"
  shows "expPart (s @ r) = expPart s"
proof (cases s)
  case Nil
  then show ?thesis using assms by (cases r) (auto simp: expPart_def delimited_def)
next
  case (Cons c t)
  have "takeDigits (drop (length (expSign t)) (t @ r)) = takeDigits (drop (length (expSign t)) t)"
    using drop_keep [OF expSign_append(2) [of t], of r] takeDigits_append [OF assms] by simp
  then show ?thesis using Cons expSign_append(1) [OF assms, of t] by (simp add: expPart_def Let_def del: drop_append)
qed

lemma expPart_le: "expPart s = Some x \<Longrightarrow> length x \<le> length s"
  using takeDigits_le [of "drop (length (expSign (drop 1 s))) (drop 1 s)"] expSign_append(2) [of "drop 1 s"]
  by (cases s) (auto simp: expPart_def Let_def split: if_splits)

lemma parseNumber_append:
  assumes r: "delimited r"
  shows "parseNumber (s @ r) = map_option (\<lambda>(t, u). (t, u @ r)) (parseNumber s)"
proof -
  define s1 where "s1 = drop (length (signPart s)) s"
  define s2 where "s2 = drop (length (intPart s1)) s1"
  have 1: "drop (length (signPart s)) (s @ r) = s1 @ r"
    unfolding s1_def by (rule drop_keep [OF signPart_append(2)])
  have 2: "drop (length (intPart s1)) (s1 @ r) = s2 @ r"
    unfolding s2_def by (rule drop_keep [OF intPart_append(2)])
  have 3: "drop (length f) (s2 @ r) = drop (length f) s2 @ r" if "fracPart s2 = Some f" for f
    by (rule drop_keep [OF fracPart_le [OF that]])
  have 4: "drop (length x) (drop (length f) s2 @ r) = drop (length x) (drop (length f) s2) @ r" if "expPart (drop (length f) s2) = Some x" for f x
    by (rule drop_keep [OF expPart_le [OF that]])
  show ?thesis
    unfolding parseNumber_parts Let_def signPart_append(1) [OF r] 1 intPart_append(1) [OF r] 2 fracPart_append [OF r] s1_def [symmetric] s2_def [symmetric]
    using 3 4 by (auto simp: expPart_append [OF r] simp del: drop_append split: option.split)
qed

lemma parseNumber_valid: "validNumber n \<Longrightarrow> delimited r \<Longrightarrow> parseNumber (n @ r) = Some (n, r)"
  by (simp add: validNumber_def parseNumber_append)

section \<open>Values\<close>

text \<open>The values the encoder is used on: valid UTF-8, number literals, and objects with distinct keys.\<close>

fun validJson :: "json \<Rightarrow> bool" where
  "validJson (JStr s) = validText s"
| "validJson (JNum n) = validNumber n"
| "validJson (JArr vs) = list_all validJson vs"
| "validJson (JObj ms) = (distinct (map fst ms) \<and> list_all (\<lambda>(k, v). validText k \<and> validJson v) ms)"
| "validJson v = True"

text \<open>How a value's text begins.\<close>

definition opensValue :: "char \<Rightarrow> bool" where
  "opensValue c \<longleftrightarrow> \<not> jsonSpace c \<and> c \<noteq> CHR '']'' \<and> c \<noteq> CHR ''}''"

lemma validNumber_hd: "validNumber n \<Longrightarrow> \<exists>c s. n = c # s \<and> (isDigit c \<or> c = CHR ''-'')"
proof -
  assume "validNumber n"
  then have p: "parseNumber n = Some (n, [])" by (simp add: validNumber_def)
  show ?thesis
  proof (cases n)
    case Nil
    with p show ?thesis by (simp add: parseNumber_parts signPart_def intPart_def takeDigits_def)
  next
    case (Cons c s)
    have "isDigit c" if "c \<noteq> CHR ''-''"
    proof (rule ccontr)
      assume "\<not> isDigit c"
      then have "intPart n = []" using Cons by (auto simp: intPart_def takeDigits_def isDigit_def byte_def)
      with p Cons that show False by (simp add: parseNumber_parts signPart_def)
    qed
    with Cons show ?thesis by blast
  qed
qed

lemma encodeJson_hd: "validJson v \<Longrightarrow> \<exists>c s. encodeJson v = c # s \<and> opensValue c"
proof (cases v)
  case (JNum n)
  moreover assume "validJson v"
  ultimately obtain c s where "n = c # s" "isDigit c \<or> c = CHR ''-''" using validNumber_hd [of n] by auto
  with JNum show ?thesis by (auto simp: opensValue_def jsonSpace_def isDigit_def byte_def)
qed (auto simp: opensValue_def jsonSpace_def byte_def jsonQuote_def)

text \<open>A text reads as a value when the scanner takes exactly the text, whatever may follow it in a document
  and with any fuel above its length.\<close>

definition reads :: "string \<Rightarrow> json \<Rightarrow> bool" where
  "reads t v \<longleftrightarrow> (\<exists>c s. t = c # s \<and> opensValue c) \<and>
     (\<forall>n r. delimited r \<longrightarrow> length t \<le> n \<longrightarrow> parseValue (Suc n) (t @ r) = Some (v, r))"

lemma readsD: "reads t v \<Longrightarrow> delimited r \<Longrightarrow> length t \<le> n \<Longrightarrow> parseValue (Suc n) (t @ r) = Some (v, r)"
  unfolding reads_def by blast

lemma reads_hd: "reads t v \<Longrightarrow> \<exists>c s. t = c # s \<and> opensValue c"
  unfolding reads_def by blast

lemma reads_number: "validNumber n \<Longrightarrow> reads n (JNum n)"
proof -
  assume v: "validNumber n"
  obtain c s where c: "n = c # s" "isDigit c \<or> c = CHR ''-''" using validNumber_hd [OF v] by blast
  have p: "parseNumber (c # s @ r) = Some (c # s, r)" if "delimited r" for r using parseNumber_valid [OF v that] c by simp
  have "\<not> jsonSpace c" "c \<noteq> quoteChar" "c \<noteq> CHR ''{''" "c \<noteq> CHR ''[''" "c \<noteq> CHR ''n''" "c \<noteq> CHR ''t''" "c \<noteq> CHR ''f''"
    "c \<noteq> CHR '']''" "c \<noteq> CHR ''}''"
    using c(2) by (auto simp: jsonSpace_def isDigit_def byte_def)
  with p show ?thesis by (auto simp: reads_def c(1) opensValue_def)
qed

lemma reads_string: "validText s \<Longrightarrow> reads (jsonQuote s) (JStr s)"
  using parseString_quote [of s] by (auto simp: reads_def jsonQuote_def opensValue_def jsonSpace_def byte_def)

lemma reads_word:
  "reads ''null'' JNull" "reads ''true'' (JBool True)" "reads ''false'' (JBool False)"
  by (auto simp: reads_def opensValue_def jsonSpace_def byte_def skipWs_def)

lemma opensValue_skip: "opensValue c \<Longrightarrow> skipWs (c # s) = c # s"
  by (simp add: opensValue_def)

lemma reads_skip: "reads t v \<Longrightarrow> skipWs (t @ r) = t @ r"
  using reads_hd [of t v] opensValue_skip by fastforce

lemma delimited_Cons [simp]: "delimited (c # r) \<longleftrightarrow> c = CHR '','' \<or> c = CHR '']'' \<or> c = CHR ''}''"
  by (simp add: delimited_def)

lemma skip_comma [simp]: "skipWs (CHR '','' # s) = CHR '','' # s" "skipWs (CHR '']'' # s) = CHR '']'' # s"
    "skipWs (CHR ''}'' # s) = CHR ''}'' # s" "skipWs (CHR '':'' # s) = CHR '':'' # s" "skipWs (quoteChar # s) = quoteChar # s"
    "skipWs (CHR ''{'' # s) = CHR ''{'' # s" "skipWs (CHR ''['' # s) = CHR ''['' # s"
  by (simp_all add: jsonSpace_def byte_def)

lemma joinWith_Cons: "xs \<noteq> [] \<Longrightarrow> joinWith sep (x # xs) = x @ sep @ joinWith sep xs"
  by (cases xs) simp_all

lemma parseElems_reads:
  "list_all (\<lambda>(t, v). reads t v) es \<Longrightarrow> es \<noteq> [] \<Longrightarrow> length (joinWith '','' (map fst es)) < n \<Longrightarrow>
   parseElems (Suc n) (joinWith '','' (map fst es) @ CHR '']'' # r) = Some (es, r)"
proof (induction es arbitrary: n)
  case (Cons x es)
  obtain t v where x: "x = (t, v)" by fastforce
  with Cons.prems have tv: "reads t v" by simp
  obtain m where m: "n = Suc m" using Cons.prems(3) by (cases n) auto
  show ?case
  proof (cases "es = []")
    case True
    then have "length t \<le> m" using Cons.prems(3) x m by simp
    then have "parseValue n (t @ CHR '']'' # r) = Some (v, CHR '']'' # r)" using readsD [OF tv] m by simp
    then show ?thesis using True x by (simp add: reads_skip [OF tv] Let_def)
  next
    case False
    define J where "J = joinWith '','' (map fst es)"
    have j: "joinWith '','' (map fst (x # es)) = t @ CHR '','' # J"
      using False x by (simp add: joinWith_Cons J_def)
    have "length (joinWith '','' (map fst (x # es))) < Suc m" using Cons.prems(3) m by simp
    then have l: "length t \<le> m" "length J < m" unfolding j by simp_all
    have e: "parseElems n (J @ CHR '']'' # r) = Some (es, r)"
      using Cons.IH [OF _ False, of m] Cons.prems(1) m l(2) by (simp add: J_def)
    have "parseValue n (t @ CHR '','' # J @ CHR '']'' # r) = Some (v, CHR '','' # J @ CHR '']'' # r)"
      using readsD [OF tv] l(1) m by simp
    then show ?thesis unfolding j using x e by (simp add: reads_skip [OF tv] Let_def)
  qed
qed simp

lemma parseMembers_reads:
  "list_all (\<lambda>(k, t, v). validText k \<and> reads t v) ms \<Longrightarrow> ms \<noteq> [] \<Longrightarrow>
   length (joinWith '','' (map (\<lambda>(k, t, v). jsonQuote k @ CHR '':'' # t) ms)) < n \<Longrightarrow>
   parseMembers (Suc n) (joinWith '','' (map (\<lambda>(k, t, v). jsonQuote k @ CHR '':'' # t) ms) @ CHR ''}'' # r) = Some (ms, r)"
proof (induction ms arbitrary: n)
  case (Cons x ms)
  obtain k t v where x: "x = (k, t, v)" by (cases x)
  with Cons.prems have k: "validText k" and tv: "reads t v" by simp_all
  obtain m where m: "n = Suc m" using Cons.prems(3) by (cases n) auto
  have q: "parseString (quoteBody k @ quoteChar # u) = Some (k, u)" for u by (rule parseString_quote [OF k])
  show ?case
  proof (cases "ms = []")
    case True
    then have "length t \<le> m" using Cons.prems(3) x m by simp
    then have "parseValue n (t @ CHR ''}'' # r) = Some (v, CHR ''}'' # r)" using readsD [OF tv] m by simp
    then show ?thesis using True x q by (simp add: reads_skip [OF tv] Let_def jsonQuote_def)
  next
    case False
    define J where "J = joinWith '','' (map (\<lambda>(k, t, v). jsonQuote k @ CHR '':'' # t) ms)"
    have j: "joinWith '','' (map (\<lambda>(k, t, v). jsonQuote k @ CHR '':'' # t) (x # ms)) = jsonQuote k @ CHR '':'' # t @ CHR '','' # J"
      using False x by (simp add: joinWith_Cons J_def)
    have "length (joinWith '','' (map (\<lambda>(k, t, v). jsonQuote k @ CHR '':'' # t) (x # ms))) < Suc m" using Cons.prems(3) m by simp
    then have l: "length t \<le> m" "length J < m" unfolding j by simp_all
    have e: "parseMembers n (J @ CHR ''}'' # r) = Some (ms, r)"
      using Cons.IH [OF _ False, of m] Cons.prems(1) m l(2) by (simp add: J_def)
    have "parseValue n (t @ CHR '','' # J @ CHR ''}'' # r) = Some (v, CHR '','' # J @ CHR ''}'' # r)"
      using readsD [OF tv] l(1) m by simp
    then show ?thesis unfolding j using x q e by (simp add: reads_skip [OF tv] Let_def jsonQuote_def)
  qed
qed simp

lemma reads_array:
  assumes "list_all (\<lambda>(t, v). reads t v) es"
  shows "reads (''['' @ joinWith '','' (map fst es) @ '']'') (JArr (map snd es))"
proof (cases "es = []")
  case True
  then show ?thesis by (simp add: reads_def opensValue_def jsonSpace_def byte_def)
next
  case False
  define J where "J = joinWith '','' (map fst es)"
  obtain t v es' where es: "es = (t, v) # es'" using False by (cases es) auto
  then obtain c s where c: "t = c # s" "opensValue c" using assms reads_hd [of t v] by auto
  then obtain s' where J: "J = c # s'" using es by (cases "es' = []") (auto simp: J_def joinWith_Cons)
  then have k: "skipWs (J @ r) = J @ r" "take 1 (J @ r) \<noteq> '']''" for r using c(2) by (auto simp: opensValue_skip opensValue_def)
  have "parseElems n (J @ CHR '']'' # r) = Some (es, r)" if "Suc (Suc (length J)) \<le> n" for n r
    using parseElems_reads [OF assms False, of "n - 1" r] that by (cases n) (auto simp: J_def)
  then show ?thesis unfolding J_def [symmetric] reads_def using k by (auto simp: opensValue_def jsonSpace_def byte_def)
qed

lemma reads_object:
  assumes "list_all (\<lambda>(k, t, v). validText k \<and> reads t v) ms"
  shows "reads (''{'' @ joinWith '','' (map (\<lambda>(k, t, v). jsonQuote k @ CHR '':'' # t) ms) @ ''}'') (JObj (map (\<lambda>(k, t, v). (k, v)) ms))"
proof (cases "ms = []")
  case True
  then show ?thesis by (simp add: reads_def opensValue_def jsonSpace_def byte_def)
next
  case False
  define J where "J = joinWith '','' (map (\<lambda>(k, t, v). jsonQuote k @ CHR '':'' # t) ms)"
  obtain s' where J: "J = quoteChar # s'" using False by (cases ms; cases "tl ms = []") (auto simp: J_def joinWith_Cons jsonQuote_def)
  then have k: "skipWs (J @ r) = J @ r" "take 1 (J @ r) \<noteq> ''}''" for r by simp_all
  have "parseMembers n (J @ CHR ''}'' # r) = Some (ms, r)" if "Suc (Suc (length J)) \<le> n" for n r
    using parseMembers_reads [OF assms False, of "n - 1" r] that by (cases n) (auto simp: J_def)
  then show ?thesis unfolding J_def [symmetric] reads_def using k by (auto simp: opensValue_def jsonSpace_def byte_def)
qed

lemma reads_encodeJson: "validJson v \<Longrightarrow> reads (encodeJson v) v"
proof (induction v rule: encodeJson.induct)
  case (1 ms)
  let ?ms = "map (\<lambda>(k, v). (k, encodeJson v, v)) ms"
  have "list_all (\<lambda>(k, t, v). validText k \<and> reads t v) ?ms" using 1 by (fastforce simp: list_all_iff)
  from reads_object [OF this] show ?case by (simp add: comp_def case_prod_unfold)
next
  case (2 vs)
  let ?es = "map (\<lambda>v. (encodeJson v, v)) vs"
  have "list_all (\<lambda>(t, v). reads t v) ?es" using 2 by (auto simp: list_all_iff)
  from reads_array [OF this] show ?case by (simp add: comp_def)
qed (simp_all add: reads_number reads_string reads_word)

lemma reads_unmarshal:
  assumes "reads t v"
  shows "unmarshalAny t = Some v" "parseJson t = Some (v, [])"
proof -
  have "parseValue (Suc (length t)) (t @ []) = Some (v, [])" by (rule readsD [OF assms]) (simp_all add: delimited_def)
  then show "unmarshalAny t = Some v" "parseJson t = Some (v, [])" by (simp_all add: unmarshalAny_def parseJson_def skipWs_def)
qed

section \<open>What the reader produces\<close>

lemma orderJson_valid: "validJson v \<Longrightarrow> orderJson v = v"
proof (induction v rule: orderJson.induct)
  case (1 vs)
  then show ?case by (simp add: list_all_iff map_idI)
next
  case (2 ms)
  have m: "map (\<lambda>(k, v). (k, orderJson v)) ms = ms" using 2 by (fastforce simp: list_all_iff intro: map_idI)
  have "distinct (map fst (xs @ ys)) \<Longrightarrow> foldl (\<lambda>ob (k, v). setKey k v ob) xs ys = xs @ ys" for xs ys :: "(string \<times> json) list"
  proof (induction ys arbitrary: xs)
    case (Cons y ys)
    obtain k v where y: "y = (k, v)" by fastforce
    have "k \<notin> set (map fst xs)" using Cons.prems y by auto
    then have "setKey k v xs = xs @ [(k, v)]" unfolding setKey_def by (induction xs) auto
    then show ?case using Cons.IH [of "xs @ [y]"] Cons.prems y by simp
  qed simp
  from this [of "[]" ms] show ?case using 2(2) m by simp
qed simp_all

lemma base_digit:
  fixes b y q :: nat
  assumes "y < b"
  shows "(y + b * q) div b = q" "(y + b * q) mod b = y"
  using assms by simp_all

lemma parts64:
  fixes x y z :: nat
  assumes "y < 64" "z < 64"
  shows "(x * 4096 + y * 64 + z) div 4096 = x" "(x * 4096 + y * 64 + z) div 64 mod 64 = y" "(x * 4096 + y * 64 + z) mod 64 = z"
proof -
  have e: "x * 4096 + y * 64 + z = z + 64 * (y + 64 * x)" and f: "x * 4096 + y * 64 + z = (y * 64 + z) + 4096 * x" by simp_all
  show "(x * 4096 + y * 64 + z) mod 64 = z" "(x * 4096 + y * 64 + z) div 64 mod 64 = y"
    unfolding e base_digit [OF assms(2)] base_digit [OF assms(1)] by (rule refl)+
  show "(x * 4096 + y * 64 + z) div 4096 = x" unfolding f by (rule base_digit(1)) (use assms in simp)
qed

lemma parts64_4:
  fixes x y z w :: nat
  assumes "y < 64" "z < 64" "w < 64"
  shows "(x * 262144 + y * 4096 + z * 64 + w) div 262144 = x" "(x * 262144 + y * 4096 + z * 64 + w) div 4096 mod 64 = y"
    "(x * 262144 + y * 4096 + z * 64 + w) div 64 mod 64 = z" "(x * 262144 + y * 4096 + z * 64 + w) mod 64 = w"
proof -
  have e: "x * 262144 + y * 4096 + z * 64 + w = w + 64 * (z + 64 * (y + 64 * x))"
    and f: "x * 262144 + y * 4096 + z * 64 + w = (z * 64 + w) + 4096 * (y + 64 * x)"
    and g: "x * 262144 + y * 4096 + z * 64 + w = (y * 4096 + z * 64 + w) + 262144 * x" by simp_all
  show "(x * 262144 + y * 4096 + z * 64 + w) mod 64 = w" "(x * 262144 + y * 4096 + z * 64 + w) div 64 mod 64 = z"
    unfolding e base_digit [OF assms(3)] base_digit [OF assms(2)] by (rule refl)+
  have "z * 64 + w < 4096" using assms by simp
  from base_digit(1) [OF this] show "(x * 262144 + y * 4096 + z * 64 + w) div 4096 mod 64 = y"
    unfolding f using base_digit(2) [OF assms(1)] by (simp only:)
  show "(x * 262144 + y * 4096 + z * 64 + w) div 262144 = x" unfolding g by (rule base_digit(1)) (use assms in simp)
qed

lemma encode2:
  assumes "2 \<le> x" "x < 32" "y < 64"
  shows "validRune (x * 64 + y) \<and> encodeRune (x * 64 + y) = [char_of (192 + x), char_of (128 + y)]"
  using assms by (auto simp: encodeRune_def validRune_def Let_def)

lemma encode3:
  assumes "x < 16" "y < 64" "z < 64" "x = 0 \<Longrightarrow> 32 \<le> y" "x = 13 \<Longrightarrow> y < 32"
  shows "validRune (x * 4096 + y * 64 + z) \<and> encodeRune (x * 4096 + y * 64 + z) = [char_of (224 + x), char_of (128 + y), char_of (128 + z)]"
proof -
  have b: "2048 \<le> x * 4096 + y * 64 + z" "x * 4096 + y * 64 + z < 65536" using assms by (cases "x = 0"; simp)+
  have "x < 13 \<or> x = 13 \<or> 14 \<le> x" by linarith
  then have v: "validRune (x * 4096 + y * 64 + z)" using assms by (auto simp: validRune_def)
  show ?thesis using b v by (simp add: encodeRune_def Let_def parts64 [OF assms(2,3)])
qed

lemma encode4:
  assumes "x < 5" "y < 64" "z < 64" "w < 64" "x = 0 \<Longrightarrow> 16 \<le> y" "x = 4 \<Longrightarrow> y < 16"
  shows "validRune (x * 262144 + y * 4096 + z * 64 + w) \<and>
    encodeRune (x * 262144 + y * 4096 + z * 64 + w) = [char_of (240 + x), char_of (128 + y), char_of (128 + z), char_of (128 + w)]"
proof -
  have b: "65536 \<le> x * 262144 + y * 4096 + z * 64 + w" using assms by (cases "x = 0") simp_all
  have "x < 4 \<or> x = 4" using assms(1) by linarith
  then have v: "validRune (x * 262144 + y * 4096 + z * 64 + w)" using assms b by (auto simp: validRune_def)
  show ?thesis using b v by (simp add: encodeRune_def Let_def parts64_4 [OF assms(2-4)])
qed

text \<open>What \<^verbatim>\<open>utf8.DecodeRune\<close> accepts is what \<^verbatim>\<open>utf8.EncodeRune\<close> writes.\<close>

lemma decodeRune_valid:
  assumes "decodeRune s = (r, w)" "s \<noteq> []" "\<not> (r = runeError \<and> w = 1)"
  shows "validRune r \<and> take w s = encodeRune r"
proof -
  obtain c s1 where s: "s = c # s1" using assms(2) by (cases s) auto
  show ?thesis
  proof (cases "byte c < 128")
    case True
    then show ?thesis using assms s by (auto simp: decodeRune_def Let_def validRune_def encodeRune_def)
  next
    case False
    then obtain d s2 where d: "s1 = d # s2" "194 \<le> byte c" "byte c \<le> 244" "128 \<le> byte d" "byte d \<le> 191"
        "byte c = 224 \<longrightarrow> 160 \<le> byte d" "byte c = 240 \<longrightarrow> 144 \<le> byte d" "byte c = 237 \<longrightarrow> byte d \<le> 159" "byte c = 244 \<longrightarrow> byte d \<le> 143"
      using assms s by (auto simp: decodeRune_def Let_def not_less split: list.splits if_splits)
    consider "byte c < 224" | "224 \<le> byte c" "byte c < 240" | "240 \<le> byte c" by linarith
    then show ?thesis
    proof cases
      case 1
      then have "r = (byte c - 192) * 64 + (byte d - 128)" "w = 2" using assms s d by (auto simp: decodeRune_def Let_def split: if_splits)
      then show ?thesis using encode2 [of "byte c - 192" "byte d - 128"] d 1 s by simp
    next
      case 2
      then obtain f s3 where f: "s2 = f # s3" "128 \<le> byte f" "byte f \<le> 191"
          "r = (byte c - 224) * 4096 + (byte d - 128) * 64 + (byte f - 128)" "w = 3"
        using assms s d by (auto simp: decodeRune_def Let_def contByte_def split: if_splits list.splits)
      have "validRune r \<and> encodeRune r = [char_of (224 + (byte c - 224)), char_of (128 + (byte d - 128)), char_of (128 + (byte f - 128))]"
        unfolding f(4) by (rule encode3) (use d f(2,3) 2 in auto)
      then show ?thesis using d f 2 s by simp
    next
      case 3
      then obtain f g s3 where f: "s2 = f # g # s3" "128 \<le> byte f" "byte f \<le> 191" "128 \<le> byte g" "byte g \<le> 191"
          "r = (byte c - 240) * 262144 + (byte d - 128) * 4096 + (byte f - 128) * 64 + (byte g - 128)" "w = 4"
        using assms s d by (auto simp: decodeRune_def Let_def contByte_def split: if_splits list.splits)
      have "validRune r \<and> encodeRune r = [char_of (240 + (byte c - 240)), char_of (128 + (byte d - 128)), char_of (128 + (byte f - 128)), char_of (128 + (byte g - 128))]"
        unfolding f(6) by (rule encode4) (use d f(2-5) 3 in auto)
      then show ?thesis using d f 3 s by simp
    qed
  qed
qed

lemma validText_Nil [simp]: "validText []"
  unfolding validText_def by (rule exI [of _ "[]"]) simp

lemma validText_append: "validText s \<Longrightarrow> validText t \<Longrightarrow> validText (s @ t)"
  unfolding validText_def by (metis concat_append list_all_append map_append)

lemma validText_encodeRune [simp]: "validText (encodeRune r)"
proof (cases "validRune r")
  case True
  then show ?thesis unfolding validText_def by (intro exI [of _ "[r]"]) simp
next
  case False
  then have "encodeRune r = encodeRune runeError" 
    unfolding encodeRune_def by (simp add: validRune_def [of runeError] runeError_def)
  moreover have "validRune runeError" by (simp add: validRune_def runeError_def)
  ultimately show ?thesis unfolding validText_def by (intro exI [of _ "[runeError]"]) simp
qed

lemma simpleEscape_valid: "simpleEscape c = Some bs \<Longrightarrow> validText bs"
  by (auto simp: simpleEscape_def byte_def intro!: validText_ascii split: if_splits)

lemma unicodeEscape_valid: "unicodeEscape s = Some (bs, r) \<Longrightarrow> validText bs"
  by (auto simp: unicodeEscape_def Let_def split: option.splits if_splits prod.splits bool.splits)

lemma parseString_valid: "parseString s = Some (t, r) \<Longrightarrow> validText t"
proof (induction s arbitrary: t r rule: parseString.induct)
  case (1 s)
  show ?case
  proof (cases s)
    case Nil
    with "1.prems" show ?thesis by (subst (asm) parseString.simps) simp
  next
    case (Cons c s1)
    consider "c = quoteChar" | "c = backslash" | "c \<noteq> quoteChar" "c \<noteq> backslash" "\<not> byte c < 32" | "c \<noteq> quoteChar" "c \<noteq> backslash" "byte c < 32" by blast
    then show ?thesis
    proof cases
      case 1
      with "1.prems" Cons show ?thesis by (subst (asm) parseString.simps) simp
    next
      case 2
      then obtain e s2 where e: "s1 = e # s2" using "1.prems" Cons by (subst (asm) parseString.simps) (auto split: list.splits)
      show ?thesis
      proof (cases "e = CHR ''u''")
        case True
        then obtain bs s3 t' where "unicodeEscape s2 = Some (bs, s3)" "length s3 < length s" "parseString s3 = Some (t', r)" "t = bs @ t'"
          using "1.prems" Cons 2 e by (subst (asm) parseString.simps) (auto split: option.splits if_splits)
        then show ?thesis using "1.IH"(1) [OF Cons _ 2 e True] 2 unicodeEscape_valid validText_append by auto
      next
        case False
        then obtain bs t' where "simpleEscape e = Some bs" "parseString s2 = Some (t', r)" "t = bs @ t'"
          using "1.prems" Cons 2 e by (subst (asm) parseString.simps) (auto split: option.splits)
        then show ?thesis using "1.IH"(2) [OF Cons _ 2 e False] 2 simpleEscape_valid validText_append by auto
      qed
    next
      case 3
      obtain q w where d: "decodeRune s = (q, w)" by fastforce
      then obtain t' where t: "parseString (drop (max 1 w) s) = Some (t', r)"
          "t = (if w = 1 \<and> q = runeError then encodeRune runeError else take w s) @ t'"
        using "1.prems" Cons 3 by (subst (asm) parseString.simps) auto
      have "validText (if w = 1 \<and> q = runeError then encodeRune runeError else take w s)"
        using decodeRune_valid [OF d] Cons validText_encodeRune [of q] by auto
      then show ?thesis using "1.IH"(3) [OF Cons _ _ _ d [symmetric]] t 3 validText_append by auto
    next
      case 4
      with "1.prems" Cons show ?thesis by (subst (asm) parseString.simps) simp
    qed
  qed
qed

lemma takeDigits_self: "takeDigits (takeDigits s) = takeDigits s"
  by (simp add: takeDigits_def takeWhile_idem)

lemma takeDigits_stop: "(r \<noteq> [] \<Longrightarrow> \<not> isDigit (hd r)) \<Longrightarrow> takeDigits (takeDigits s @ r) = takeDigits s"
  by (induction s; cases r) (auto simp: takeDigits_def dest: set_takeWhileD)

lemma takeDigits_hd: "takeDigits s = c # t \<Longrightarrow> isDigit c"
  unfolding takeDigits_def by (cases s) (auto split: if_splits)

lemma expPart_hd: "expPart s = Some x \<Longrightarrow> x \<noteq> [] \<Longrightarrow> hd x = CHR ''e'' \<or> hd x = CHR ''E''"
  by (cases s) (auto simp: expPart_def Let_def split: if_splits)

lemma expPart_self:
  assumes "expPart s = Some x"
  shows "expPart x = Some x"
proof (cases "take 1 s = ''e'' \<or> take 1 s = ''E''")
  case False
  then show ?thesis using assms by (auto simp: expPart_def split: if_splits)
next
  case True
  then obtain c t where c: "s = c # t" "c = CHR ''e'' \<or> c = CHR ''E''" by (cases s) auto
  define es where "es = expSign t"
  define ed where "ed = takeDigits (drop (length es) t)"
  have x: "x = c # es @ ed" "ed \<noteq> []" using assms True c by (auto simp: expPart_def Let_def es_def ed_def split: if_splits)
  obtain d ed' where d: "ed = d # ed'" "isDigit d" using x(2) takeDigits_hd unfolding ed_def by (cases ed) (auto simp: ed_def)
  then have "d \<noteq> CHR ''+''" "d \<noteq> CHR ''-''" by (auto simp: isDigit_def byte_def)
  then have "expSign (es @ ed) = es" using d(1) by (cases t) (auto simp: es_def expSign_def)
  then show ?thesis using x c(2) by (auto simp: expPart_def Let_def ed_def takeDigits_self)
qed

lemma parseNumber_literal:
  assumes "parseNumber s = Some (t, u)"
  shows "validNumber t"
proof -
  define s1 where "s1 = drop (length (signPart s)) s"
  define ip where "ip = intPart s1"
  define s2 where "s2 = drop (length ip) s1"
  obtain f x where f: "fracPart s2 = Some f" and x: "expPart (drop (length f) s2) = Some x" and ip: "ip \<noteq> []" and t: "t = signPart s @ ip @ f @ x"
    using assms unfolding parseNumber_parts Let_def s1_def [symmetric] ip_def [symmetric] s2_def [symmetric]
    by (auto split: if_splits option.splits)
  have xd: "x \<noteq> [] \<Longrightarrow> \<not> isDigit (hd x) \<and> hd x \<noteq> CHR ''.''" using expPart_hd [OF x] by (auto simp: isDigit_def byte_def)
  have fd: "f \<noteq> [] \<Longrightarrow> hd f = CHR ''.''" using f by (auto simp: fracPart_def split: if_splits)
  have fx: "f @ x \<noteq> [] \<Longrightarrow> \<not> isDigit (hd (f @ x))" using xd fd by (cases f) (auto simp: isDigit_def byte_def)
  obtain c ip' where c: "ip = c # ip'" "isDigit c"
    using ip takeDigits_hd [of s1] unfolding ip_def intPart_def by (auto simp: isDigit_def byte_def split: if_splits) (metis list.exhaust takeDigits_hd)
  have i: "intPart (ip @ f @ x) = ip"
  proof (cases "take 1 s1 = ''0''")
    case True
    then show ?thesis by (simp add: ip_def intPart_def)
  next
    case False
    then have "ip = takeDigits s1" by (simp add: ip_def intPart_def)
    moreover have "c \<noteq> CHR ''0''" using False c(1) \<open>ip = takeDigits s1\<close> by (cases s1) (auto simp: takeDigits_def split: if_splits)
    then have "take 1 (ip @ f @ x) \<noteq> ''0''" using c(1) by simp
    ultimately show ?thesis using takeDigits_stop [of "f @ x" s1] fx c(1) by (auto simp: intPart_def)
  qed
  have e: "expPart x = Some x" by (rule expPart_self [OF x])
  have g: "fracPart (f @ x) = Some f"
  proof (cases f)
    case Nil
    then show ?thesis using xd by (cases x) (auto simp: fracPart_def)
  next
    case (Cons d ds)
    then have "d = CHR ''.''" "ds = takeDigits (drop 1 s2)" "ds \<noteq> []" using f by (auto simp: fracPart_def split: if_splits)
    then show ?thesis using Cons takeDigits_stop [of x "drop 1 s2"] xd by (simp add: fracPart_def)
  qed
  have "c \<noteq> CHR ''-''" using c(2) by (auto simp: isDigit_def byte_def)
  then have "signPart t = signPart s" unfolding t using c(1) by (auto simp: signPart_def)
  then show ?thesis unfolding validNumber_def parseNumber_parts Let_def using t i g e ip by simp
qed

text \<open>What the scanner returns: valid UTF-8 and number literals everywhere.\<close>

fun plainJson :: "json \<Rightarrow> bool" where
  "plainJson (JStr s) = validText s"
| "plainJson (JNum n) = validNumber n"
| "plainJson (JArr vs) = list_all plainJson vs"
| "plainJson (JObj ms) = list_all (\<lambda>(k, v). validText k \<and> plainJson v) ms"
| "plainJson v = True"

lemma parseValue_plain:
  "parseValue n s = Some (v, r) \<Longrightarrow> plainJson v"
  "parseElems n s = Some (es, r) \<Longrightarrow> list_all (\<lambda>(t, v). plainJson v) es"
  "parseMembers n s = Some (ms, r) \<Longrightarrow> list_all (\<lambda>(k, t, v). validText k \<and> plainJson v) ms"
proof (induction n s and n s and n s arbitrary: v r and es r and ms r rule: parseValue_parseElems_parseMembers.induct)
  case (2 n s0)
  show ?case
  proof (cases "skipWs s0")
    case Nil
    with 2 show ?thesis by simp
  next
    case (Cons c s)
    consider (str) "c = quoteChar" | (ob) "c = CHR ''{''" | (ar) "c = CHR ''[''"
      | (other) "c \<noteq> quoteChar" "c \<noteq> CHR ''{''" "c \<noteq> CHR ''[''" by blast
    then show ?thesis
    proof cases
      case str
      then show ?thesis using "2.prems" Cons parseString_valid by auto
    next
      case ob
      then show ?thesis using "2.prems" "2.IH"(1) [OF Cons] Cons by (fastforce simp: list_all_iff split: if_splits)
    next
      case ar
      then show ?thesis using "2.prems" "2.IH"(2) [OF Cons] Cons by (fastforce simp: list_all_iff split: if_splits)
    next
      case other
      then show ?thesis using "2.prems" Cons parseNumber_literal by (auto split: if_splits)
    qed
  qed
next
  case (4 n s0)
  from "4.prems" obtain v1 r1 c r2 where v: "parseValue n (skipWs s0) = Some (v1, r1)" and c: "skipWs r1 = c # r2"
      and k: "(c = CHR '']'' \<and> es = [(take (length (skipWs s0) - length r1) (skipWs s0), v1)]) \<or>
        (c = CHR '','' \<and> (\<exists>es' r3. parseElems n r2 = Some (es', r3) \<and> es = (take (length (skipWs s0) - length r1) (skipWs s0), v1) # es'))"
    by (auto simp: Let_def split: option.splits list.splits if_splits)
  have "plainJson v1" using "4.IH"(1) v by simp
  then show ?case using k "4.IH"(2) [OF refl v refl refl c] by auto
next
  case (6 n s0)
  from "6.prems" obtain k s2 s3 where q: "skipWs s0 = quoteChar # k" and p: "parseString k = Some (s2, s3)"
    by (auto split: list.splits if_splits option.splits)
  from "6.prems" q p obtain s4 v1 r1 c r2 where col: "skipWs s3 = CHR '':'' # s4" and v: "parseValue n (skipWs s4) = Some (v1, r1)" and c: "skipWs r1 = c # r2"
      and m: "(c = CHR ''}'' \<and> ms = [(s2, take (length (skipWs s4) - length r1) (skipWs s4), v1)]) \<or>
        (c = CHR '','' \<and> (\<exists>ms' r3. parseMembers n r2 = Some (ms', r3) \<and> ms = (s2, take (length (skipWs s4) - length r1) (skipWs s4), v1) # ms'))"
    by (auto simp: Let_def split: option.splits list.splits if_splits)
  have "plainJson v1" using "6.IH"(1) [OF q _ p refl col _ refl] v by simp
  then show ?case using m "6.IH"(2) [OF q _ p refl col _ refl v refl refl c] parseString_valid [OF p] by auto
qed simp_all

lemma update_all: "list_all P ob \<Longrightarrow> P (k, v) \<Longrightarrow> list_all P (AList.update k v ob)"
  by (induction ob) auto

lemma orderJson_plain: "plainJson v \<Longrightarrow> validJson (orderJson v)"
proof (induction v rule: orderJson.induct)
  case (2 ms)
  define P where "P = (\<lambda>(k, v). validText k \<and> validJson v)"
  have "list_all P (map (\<lambda>(k, v). (k, orderJson v)) ms)" using 2 by (fastforce simp: list_all_iff P_def)
  moreover have "distinct (map fst xs) \<and> list_all P xs \<Longrightarrow> list_all P ys \<Longrightarrow>
      distinct (map fst (foldl (\<lambda>ob (k, v). setKey k v ob) xs ys)) \<and> list_all P (foldl (\<lambda>ob (k, v). setKey k v ob) xs ys)" for xs ys
  proof (induction ys arbitrary: xs)
    case (Cons y ys)
    then show ?case using Cons.IH [of "setKey (fst y) (snd y) xs"] by (auto simp: setKey_def distinct_update update_all case_prod_unfold)
  qed simp
  from this [of "[]" "map (\<lambda>(k, v). (k, orderJson v)) ms"] calculation show ?case by (simp add: P_def)
qed (auto simp: list_all_iff)

lemma unmarshal_valid: "DecodeOrdered data = Some v \<Longrightarrow> validJson v"
  unfolding DecodeOrdered_def unmarshalAny_def parseJson_def
  using parseValue_plain(1) [of "Suc (length data)" data] orderJson_plain
  by (auto simp del: parseValue.simps split: option.splits prod.splits if_splits)

lemma encode_decode: "validJson v \<Longrightarrow> DecodeOrdered (encodeJson v) = Some v"
  by (simp add: DecodeOrdered_def reads_unmarshal(1) [OF reads_encodeJson] orderJson_valid)

text \<open>
  C25.  Contract documents survive the encoder.  Whatever bytes were read, encoding the document that was
  read and reading it again gives the same document: no string, number literal, key order or nesting
  changes.  So the contracts the Router filters and passes on mean what was registered.
\<close>

theorem contract_roundtrip:
  assumes "DecodeOrdered data = Some v"
  shows "DecodeOrdered (encodeJson v) = Some v"
  by (rule encode_decode [OF unmarshal_valid [OF assms]])

theorem contract_roundtrip_witness:
  "DecodeOrdered ''[1, -2.5e+3 ,true,null]'' = Some (JArr [JNum ''1'', JNum ''-2.5e+3'', JBool True, JNull]) \<and>
   DecodeOrdered (encodeJson (JArr [JNum ''1'', JNum ''-2.5e+3'', JBool True, JNull])) = Some (JArr [JNum ''1'', JNum ''-2.5e+3'', JBool True, JNull])"
proof -
  have "DecodeOrdered ''[1, -2.5e+3 ,true,null]'' = Some (JArr [JNum ''1'', JNum ''-2.5e+3'', JBool True, JNull])" by code_simp
  with contract_roundtrip [OF this] show ?thesis by blast
qed

end
