(* ===== verification/Openapi.thy ===== *)
theory Openapi
  imports Management Codec
begin

text \<open>
  The OpenAPI document of \<^verbatim>\<open>GET /v1/openapi.json\<close>
  (\<^verbatim>\<open>meshcall-router/internal/router/openapi.go\<close>): built from the contracts of the services
  the caller may call.  Every \<^verbatim>\<open>$defs\<close> entry of a contract schema moves to
  \<^verbatim>\<open>components/schemas\<close> under a name of its own and the references to it are rewritten.
\<close>

section \<open>Building objects\<close>

definition obj :: "(string \<times> json) list \<Rightarrow> json" where
  "obj pairs = JObj (foldl (\<lambda>ob (k, v). setKey k v ob) [] pairs)"

definition mediaContent :: "string \<Rightarrow> json \<Rightarrow> json" where
  "mediaContent mediaType schema = obj [(mediaType, obj [(''schema'', schema)])]"

record openAPIBuilder =
  obSchemas :: object
  obTaken :: "string list"

definition defsPrefix :: string where "defsPrefix = ''#/$defs/''"
definition schemasPrefix :: string where "schemasPrefix = ''#/components/schemas/''"

text \<open>The loop that looks for a free name: \<open>fuel\<close> tries of \<open>clean_i\<close>, \<open>clean_(i+1)\<close>, \<dots>; one more than the
  number of names taken is always enough (\<open>component_fresh\<close> below).\<close>

fun freeName :: "nat \<Rightarrow> string list \<Rightarrow> string \<Rightarrow> nat \<Rightarrow> string" where
  "freeName 0 taken clean i = clean @ ''_'' @ itoa (int i)"
| "freeName (Suc fuel) taken clean i =
     (if List.member taken (clean @ ''_'' @ itoa (int i)) then freeName fuel taken clean (Suc i)
      else clean @ ''_'' @ itoa (int i))"

definition cleanName :: "string \<Rightarrow> string" where
  "cleanName base = map (\<lambda>c. if c = CHR ''.'' \<or> c = CHR ''/'' then CHR ''_'' else c) base"

definition component :: "string \<Rightarrow> json \<Rightarrow> openAPIBuilder \<Rightarrow> openAPIBuilder \<times> object" where
  "component base schema b =
     (let clean = cleanName base;
          name = (if List.member (obTaken b) clean then freeName (length (obTaken b)) (obTaken b) clean 2 else clean) in
      (b\<lparr>obTaken := name # obTaken b, obSchemas := setKey name schema (obSchemas b)\<rparr>,
       [(''$ref'', JStr (schemasPrefix @ name))]))"

text \<open>A string member \<^verbatim>\<open>$ref\<close> that points to a moved definition gets its new target.\<close>

definition redirect :: "(string, string) gomap \<Rightarrow> string \<Rightarrow> json \<Rightarrow> json option" where
  "redirect renamed k v = (case v of
      JStr s \<Rightarrow>
        if k = ''$ref'' \<and> hasPrefix s defsPrefix then
          (case map_of renamed (trimPrefix s defsPrefix) of
             Some t \<Rightarrow> if t \<noteq> [] then Some (JStr t) else None
           | None \<Rightarrow> None)
        else None
    | _ \<Rightarrow> None)"

text \<open>The keys of an object are distinct, so setting them one after the other is a map over the members.\<close>

fun rewriteRefs :: "(string, string) gomap \<Rightarrow> json \<Rightarrow> json" where
  "rewriteRefs renamed (JObj ms) =
     JObj (map (\<lambda>(k, v). (k, case redirect renamed k v of Some t \<Rightarrow> t | None \<Rightarrow> rewriteRefs renamed v)) ms)"
| "rewriteRefs renamed (JArr vs) = JArr (map (rewriteRefs renamed) vs)"
| "rewriteRefs renamed v = v"

text \<open>The first loop over \<^verbatim>\<open>$defs\<close>: a component per key, and where it went.\<close>

fun reserveDefs :: "string \<Rightarrow> string list \<Rightarrow> openAPIBuilder \<Rightarrow> (string, string) gomap \<Rightarrow> openAPIBuilder \<times> (string, string) gomap" where
  "reserveDefs pre [] b renamed = (b, renamed)"
| "reserveDefs pre (key # keys) b renamed =
     (case component (pre @ ''_'' @ key) JNull b of (b', ref) \<Rightarrow>
        reserveDefs pre keys b' (AList.update key (strKey (Some ref) ''$ref'') renamed))"

definition fillDef :: "(string, string) gomap \<Rightarrow> string \<times> json \<Rightarrow> openAPIBuilder \<Rightarrow> openAPIBuilder" where
  "fillDef renamed = (\<lambda>(key, v) b.
     b\<lparr>obSchemas := setKey (trimPrefix (the (map_of renamed key)) schemasPrefix) (rewriteRefs renamed v) (obSchemas b)\<rparr>)"

definition lift :: "string \<Rightarrow> object option \<Rightarrow> openAPIBuilder \<Rightarrow> openAPIBuilder \<times> json" where
  "lift pre schema b = (case schema of
      None \<Rightarrow> (b, JObj [])
    | Some ob \<Rightarrow>
      (let defs = (case objKey (Some ob) ''$defs'' of Some ds \<Rightarrow> ds | None \<Rightarrow> []);
           (b1, renamed) = reserveDefs pre (map fst defs) b (map (\<lambda>(k, v). (k, [])) defs);
           b2 = fold (fillDef renamed) defs b1;
           out = (case rewriteRefs renamed (JObj ob) of JObj ms \<Rightarrow> ms | _ \<Rightarrow> []) in
       (b2, JObj (filter (\<lambda>(k, v). k \<noteq> ''$defs'') out))))"

section \<open>The document\<close>

definition strs :: "string list \<Rightarrow> json" where
  "strs xs = JArr (map JStr xs)"

definition typed :: "string \<Rightarrow> json" where
  "typed t = obj [(''type'', JStr t)]"

definition inQuotes :: "string \<Rightarrow> string" where
  "inQuotes s = quoteChar # s @ [quoteChar]"

definition ellipsis :: string where
  "ellipsis = [CHR 0xE2, CHR 0x80, CHR 0xA6]"

definition errorSchema :: json where
  "errorSchema = obj
     [(''type'', JStr ''object''), (''required'', strs [''error'']),
      (''properties'', obj [(''error'', obj
        [(''type'', JStr ''object''), (''required'', strs [''code'', ''message'']),
         (''properties'', obj
           [(''code'', typed ''string''), (''message'', typed ''string''), (''retryable'', typed ''boolean''),
            (''details'', obj [(''type'', strs [''object'', ''null''])])])])])]"

definition errorResponse :: "json \<Rightarrow> json" where
  "errorResponse errorRef = obj
     [(''description'', JStr ''MeshCall error envelope; see the status table in docs/protocol.md''),
      (''content'', mediaContent ''application/json'' errorRef)]"

text \<open>The contract of a service as this caller may see it.\<close>

definition contractService :: "user option \<Rightarrow> string \<Rightarrow> pool \<Rightarrow> cservice option" where
  "contractService u name pl = (case visibleContract (plContract pl) name u of
      None \<Rightarrow> None
    | Some raw \<Rightarrow> (case Parse (''{'' @ inQuotes ''services'' @ '':['' @ raw @ '']}'') of
        Inr doc \<Rightarrow> (case dcServices doc of [sv] \<Rightarrow> Some sv | _ \<Rightarrow> None)
      | Inl _ \<Rightarrow> None))"

text \<open>The last method of the contract with the name wins.\<close>

definition contractMethodOf :: "cservice option \<Rightarrow> string \<Rightarrow> cmethod option" where
  "contractMethodOf sv name = (case sv of
      None \<Rightarrow> None
    | Some x \<Rightarrow> find (\<lambda>m. cmName m = name) (rev (csMethods x)))"

definition ndjson :: string where "ndjson = ''application/x-ndjson''"

definition streamLine :: "json \<Rightarrow> json \<Rightarrow> json" where
  "streamLine response errorRef = obj [(''oneOf'', JArr
     [obj [(''type'', JStr ''object''), (''required'', strs [''item'']), (''properties'', obj [(''item'', response)])],
      obj [(''type'', JStr ''object''), (''required'', strs [''end'']),
           (''properties'', obj [(''end'', obj [(''type'', JStr ''object''),
             (''properties'', obj [(''trailers'', obj [(''type'', JStr ''object''), (''additionalProperties'', typed ''string'')])])])])],
      errorRef])]"

definition describedBy :: "cmethod option \<Rightarrow> object \<Rightarrow> object" where
  "describedBy cm op = (case cm of
      None \<Rightarrow> op
    | Some m \<Rightarrow>
      (let op1 = (case cmDescription m of
             None \<Rightarrow> op
           | Some d \<Rightarrow> setKey ''description'' (JStr d) (setKey ''summary'' (JStr (fst (cut (CHR 0x0A) d))) op));
           op2 = (if cmDeprecated m \<noteq> None then setKey ''deprecated'' (JBool True) op1 else op1) in
       setKey ''x-meshcall-annotations'' (obj
         [(''read_only'', JBool (anReadOnly (cmAnnotations m))), (''idempotent'', JBool (anIdempotent (cmAnnotations m))),
          (''destructive'', JBool (anDestructive (cmAnnotations m)))]) op2))"

definition liftTypes :: "string \<Rightarrow> cmethod option \<Rightarrow> openAPIBuilder \<Rightarrow> openAPIBuilder \<times> json \<times> json" where
  "liftTypes pre cm b = (case cm of
      None \<Rightarrow> (b, JObj [], JObj [])
    | Some m \<Rightarrow> (case lift (pre @ ''_request'') (map_option trSchema (cmRequest m)) b of (b1, request) \<Rightarrow>
        (case (cmResponse m, cmOutputItem m) of
           (Some t, _) \<Rightarrow> (case lift (pre @ ''_response'') (Some (trSchema t)) b1 of (b2, response) \<Rightarrow> (b2, request, response))
         | (None, Some t) \<Rightarrow> (case lift (pre @ ''_item'') (Some (trSchema t)) b1 of (b2, response) \<Rightarrow> (b2, request, response))
         | (None, None) \<Rightarrow> (b1, request, JObj []))))"

definition bodiesOf :: "string \<Rightarrow> json \<Rightarrow> json \<Rightarrow> json \<Rightarrow> json \<times> json" where
  "bodiesOf stream request response errorRef =
     (if stream = ''server_stream'' then
        (obj [(''description'', JStr (''one JSON envelope per line: {'' @ inQuotes ''item'' @ ''} for each item, then {'' @
               inQuotes ''end'' @ ''} or {'' @ inQuotes ''error'' @ ''}'')),
              (''content'', mediaContent ndjson (streamLine response errorRef))],
         obj [(''required'', JBool True), (''content'', mediaContent ''application/json'' request)])
      else if stream = ''client_stream'' then
        (obj [(''description'', JStr ''result''), (''content'', mediaContent ''application/json'' response)],
         obj [(''required'', JBool True), (''description'', JStr ''NDJSON: the first line is the request, then one input item per line''),
              (''content'', mediaContent ndjson request)])
      else
        (obj [(''description'', JStr ''result''), (''content'', mediaContent ''application/json'' response)],
         obj [(''required'', JBool True), (''content'', mediaContent ''application/json'' request)]))"

text \<open>The body of the loop over the methods of one service, for a method that is shown.\<close>

definition operation :: "json \<Rightarrow> string \<Rightarrow> cservice option \<Rightarrow> meth \<Rightarrow> openAPIBuilder \<Rightarrow> openAPIBuilder \<times> object" where
  "operation errorRef name sv m b =
     (let cm = contractMethodOf sv (mName m);
          pre = name @ ''_'' @ mName m;
          op0 = [(''operationId'', JStr pre), (''tags'', strs [name])];
          op1 = setKey ''x-meshcall-stream'' (JStr (mStream m)) (describedBy cm op0);
          (b', request, response) = liftTypes pre cm b;
          (ok, requestBody) = bodiesOf (mStream m) request response errorRef in
      (b', setKey ''responses'' (obj [(''200'', ok), (''default'', errorResponse errorRef)])
             (setKey ''requestBody'' requestBody op1)))"

definition shownMethod :: "user option \<Rightarrow> string \<Rightarrow> meth \<Rightarrow> bool" where
  "shownMethod u name m \<longleftrightarrow> mStream m \<noteq> ''duplex'' \<and> allowsCall u name (mName m)"

fun addMethods :: "json \<Rightarrow> string \<Rightarrow> cservice option \<Rightarrow> user option \<Rightarrow> meth list \<Rightarrow> openAPIBuilder \<times> object \<Rightarrow> openAPIBuilder \<times> object" where
  "addMethods errorRef name sv u [] st = st"
| "addMethods errorRef name sv u (m # ms) (b, paths) =
     (if shownMethod u name m then
        (case operation errorRef name sv m b of (b', op) \<Rightarrow>
           addMethods errorRef name sv u ms (b', setKey (''/v1/call/'' @ name @ ''/'' @ mName m) (obj [(''post'', JObj op)]) paths))
      else addMethods errorRef name sv u ms (b, paths))"

definition serviceTag :: "string \<Rightarrow> cservice option \<Rightarrow> json" where
  "serviceTag name sv = (case sv of
      Some x \<Rightarrow> (case csDescription x of
          Some d \<Rightarrow> obj [(''name'', JStr name), (''description'', JStr d)]
        | None \<Rightarrow> obj [(''name'', JStr name)])
    | None \<Rightarrow> obj [(''name'', JStr name)])"

fun addServices :: "json \<Rightarrow> user option \<Rightarrow> (string, pool) gomap \<Rightarrow> string list \<Rightarrow> openAPIBuilder \<times> object \<times> json list \<Rightarrow> openAPIBuilder \<times> object \<times> json list" where
  "addServices errorRef u services [] st = st"
| "addServices errorRef u services (name # names) (b, paths, tags) =
     (case map_of services name of
        None \<Rightarrow> addServices errorRef u services names (b, paths, tags)
      | Some pl \<Rightarrow>
        (let sv = contractService u name pl in
         case addMethods errorRef name sv u (sortedMethods (plMethods pl)) (b, paths) of (b', paths') \<Rightarrow>
           addServices errorRef u services names (b', paths', tags @ [serviceTag name sv])))"

definition infoObject :: json where
  "infoObject = obj [(''title'', JStr ''MeshCall services''), (''version'', JStr ''1''),
     (''description'', JStr ''Generated by the MeshCall Router from the contracts of the services this caller may call.'')]"

definition securitySchemes :: json where
  "securitySchemes = obj
     [(''bearer'', obj [(''type'', JStr ''http''), (''scheme'', JStr ''bearer''),
        (''description'', JStr (''API key (mk_'' @ ellipsis @ '') or temporary token (mt_'' @ ellipsis @ '')''))]),
      (''basic'', obj [(''type'', JStr ''http''), (''scheme'', JStr ''basic'')])]"

definition openAPI :: "user option \<Rightarrow> router \<Rightarrow> json" where
  "openAPI u s =
     (let (b0, ref) = component ''MeshCallError'' errorSchema \<lparr>obSchemas = [], obTaken = []\<rparr>;
          names = sort (map fst (filter (\<lambda>(name, pl). allowsAnyCall u name pl) (rServices s)));
          (b, paths, tags) = addServices (JObj ref) u (rServices s) names (b0, [], []);
          components = [(''schemas'', JObj (obSchemas b))] @ (if rAuth s \<noteq> None then [(''securitySchemes'', securitySchemes)] else []) in
      JObj ([(''openapi'', JStr ''3.1.0''), (''info'', infoObject), (''tags'', JArr tags), (''paths'', JObj paths),
             (''components'', JObj components)] @
        (if rAuth s \<noteq> None
         then [(''security'', JArr [obj [(''bearer'', JArr [])], obj [(''basic'', JArr [])], JObj []])] else [])))"

section \<open>Facts\<close>

definition candidate :: "string \<Rightarrow> nat \<Rightarrow> string" where
  "candidate clean i = clean @ ''_'' @ itoa (int i)"

lemma candidate_inj: "candidate clean i = candidate clean j \<Longrightarrow> i = j"
  by (auto simp: candidate_def dest: itoa_inj)

lemma freeName_free:
  "\<exists>j < fuel. candidate clean (i + j) \<notin> set taken \<Longrightarrow> freeName fuel taken clean i \<notin> set taken"
proof (induction fuel arbitrary: i)
  case (Suc fuel)
  show ?case
  proof (cases "candidate clean i \<in> set taken")
    case True
    obtain j where j: "j < Suc fuel" "candidate clean (i + j) \<notin> set taken" using Suc.prems by blast
    then obtain k where "j = Suc k" using True by (cases j) auto
    then have "\<exists>k < fuel. candidate clean (Suc i + k) \<notin> set taken" using j by auto
    then have "freeName fuel taken clean (Suc i) \<notin> set taken" by (rule Suc.IH)
    with True show ?thesis by (simp add: candidate_def)
  qed (simp add: candidate_def)
qed simp

lemma some_candidate_free:
  assumes "clean \<in> set taken"
  shows "\<exists>j < length taken. candidate clean (2 + j) \<notin> set taken"
proof (rule ccontr)
  assume "\<not> ?thesis"
  then have sub: "(\<lambda>j. candidate clean (2 + j)) ` {..<length taken} \<subseteq> set taken - {clean}" by (auto simp: candidate_def)
  have "card ((\<lambda>j. candidate clean (2 + j)) ` {..<length taken}) = length taken"
    by (subst card_image) (auto intro!: inj_onI dest: candidate_inj)
  then have "length taken \<le> card (set taken - {clean})" using card_mono [OF _ sub] by simp
  also have "\<dots> < length taken" using assms card_length [of taken] card_Diff1_less [of "set taken" clean] by simp
  finally show False by simp
qed

text \<open>The search for a name always ends with one that is not taken.\<close>

lemma component_fresh:
  assumes "component base schema b = (b', ref)"
  obtains name where "name \<notin> set (obTaken b)" "obTaken b' = name # obTaken b" "obSchemas b' = setKey name schema (obSchemas b)"
    "ref = [(''$ref'', JStr (schemasPrefix @ name))]"
proof -
  define name where "name = (if List.member (obTaken b) (cleanName base) then freeName (length (obTaken b)) (obTaken b) (cleanName base) 2 else cleanName base)"
  have b': "b' = b\<lparr>obTaken := name # obTaken b, obSchemas := setKey name schema (obSchemas b)\<rparr>" "ref = [(''$ref'', JStr (schemasPrefix @ name))]"
    using assms unfolding component_def Let_def name_def [symmetric] by simp_all
  have "name \<notin> set (obTaken b)"
    using freeName_free [OF some_candidate_free, of "cleanName base" "obTaken b"] by (auto simp: name_def)
  with b' show thesis by (intro that [of name]) simp_all
qed

section \<open>Which methods the document shows\<close>

definition callPath :: "string \<Rightarrow> string \<Rightarrow> string" where
  "callPath name mth = ''/v1/call/'' @ name @ ''/'' @ mth"

definition pathKeys :: "json \<Rightarrow> string list" where
  "pathKeys doc = (case doc of JObj ms \<Rightarrow> (case map_of ms ''paths'' of Some (JObj ps) \<Rightarrow> map fst ps | _ \<Rightarrow> []) | _ \<Rightarrow> [])"

lemma setKey_keys: "set (map fst (setKey k v ob)) = insert k (set (map fst ob))"
  unfolding setKey_def by (induction ob) auto

lemma addMethods_keys:
  "set (map fst (snd (addMethods er name sv u ms (b, paths)))) =
     set (map fst paths) \<union> callPath name ` mName ` {m \<in> set ms. shownMethod u name m}"
proof (induction ms arbitrary: b paths)
  case (Cons m ms)
  show ?case
  proof (cases "shownMethod u name m")
    case True
    obtain b' op where o: "operation er name sv m b = (b', op)" by fastforce
    have "{x \<in> set (m # ms). shownMethod u name x} = insert m {x \<in> set ms. shownMethod u name x}" using True by auto
    then show ?thesis using True o Cons.IH [of b'] by (simp add: setKey_keys callPath_def del: set_map)
  next
    case False
    then have "{x \<in> set (m # ms). shownMethod u name x} = {x \<in> set ms. shownMethod u name x}" by auto
    then show ?thesis using False Cons.IH by simp
  qed
qed simp

definition shownPaths :: "user option \<Rightarrow> (string, pool) gomap \<Rightarrow> string list \<Rightarrow> string set" where
  "shownPaths u services names = (\<Union>name \<in> set names. case map_of services name of
      None \<Rightarrow> {}
    | Some pl \<Rightarrow> callPath name ` mName ` {m \<in> snd ` set (plMethods pl). shownMethod u name m})"

lemma shownPaths_Cons: "shownPaths u services (n # ns) = (case map_of services n of
    None \<Rightarrow> {} | Some pl \<Rightarrow> callPath n ` mName ` {m \<in> snd ` set (plMethods pl). shownMethod u n m}) \<union> shownPaths u services ns"
  by (simp add: shownPaths_def)

lemma shownPaths_mem: "path \<in> shownPaths u services names \<longleftrightarrow> (\<exists>name pl k m. name \<in> set names \<and> map_of services name = Some pl \<and>
    (k, m) \<in> set (plMethods pl) \<and> shownMethod u name m \<and> path = callPath name (mName m))"
proof -
  have one: "path \<in> callPath name ` mName ` {m \<in> snd ` set (plMethods pl). shownMethod u name m} \<longleftrightarrow>
    (\<exists>k m. (k, m) \<in> set (plMethods pl) \<and> shownMethod u name m \<and> path = callPath name (mName m))" for name pl
    by force
  have "path \<in> (case map_of services name of None \<Rightarrow> {}
      | Some pl \<Rightarrow> callPath name ` mName ` {m \<in> snd ` set (plMethods pl). shownMethod u name m}) \<longleftrightarrow>
    (\<exists>pl k m. map_of services name = Some pl \<and> (k, m) \<in> set (plMethods pl) \<and> shownMethod u name m \<and> path = callPath name (mName m))" for name
    by (cases "map_of services name") (simp_all add: one)
  then show ?thesis unfolding shownPaths_def UN_iff Bex_def by blast
qed

lemma addServices_keys:
  "set (map fst (fst (snd (addServices er u services names (b, paths, tags))))) = set (map fst paths) \<union> shownPaths u services names"
proof (induction names arbitrary: b paths tags)
  case Nil
  then show ?case by (simp add: shownPaths_def)
next
  case (Cons n ns)
  show ?case
  proof (cases "map_of services n")
    case None
    then show ?thesis using Cons.IH by (simp add: shownPaths_Cons)
  next
    case (Some pl)
    obtain b' p' where a: "addMethods er n (contractService u n pl) u (sortedMethods (plMethods pl)) (b, paths) = (b', p')" by fastforce
    have "set (map fst p') = set (map fst paths) \<union> callPath n ` mName ` {m \<in> snd ` set (plMethods pl). shownMethod u n m}"
      using addMethods_keys [of er n "contractService u n pl" u "sortedMethods (plMethods pl)" b paths] unfolding a by (simp add: sortedMethods_def)
    then show ?thesis using Some a Cons.IH [of b' p'] by (simp add: shownPaths_Cons Let_def Un_assoc del: set_map)
  qed
qed

lemma openAPI_paths: "set (pathKeys (openAPI u s)) =
    shownPaths u (rServices s) (map fst (filter (\<lambda>(name, pl). allowsAnyCall u name pl) (rServices s)))"
proof -
  obtain b0 ref where c: "component ''MeshCallError'' errorSchema \<lparr>obSchemas = [], obTaken = []\<rparr> = (b0, ref)" by fastforce
  let ?n = "sort (map fst (filter (\<lambda>(name, pl). allowsAnyCall u name pl) (rServices s)))"
  obtain b paths tags where a: "addServices (JObj ref) u (rServices s) ?n (b0, [], []) = (b, paths, tags)" by (metis prod_cases3)
  have "pathKeys (openAPI u s) = map fst paths" unfolding openAPI_def c Let_def prod.case a by (simp add: pathKeys_def)
  moreover have "shownPaths u (rServices s) ?n = shownPaths u (rServices s) (map fst (filter (\<lambda>(name, pl). allowsAnyCall u name pl) (rServices s)))"
    by (simp add: shownPaths_def)
  ultimately show ?thesis using addServices_keys [of "JObj ref" u "rServices s" ?n b0 "[]" "[]"] unfolding a by simp
qed

text \<open>
  C31.  The OpenAPI document reveals exactly what its reader may call.  Every path it lists is a method, not
  duplex, of a registered service that the caller's permissions allow, and every such method is listed.
\<close>

theorem openapi_shows_exactly_callable:
  "(\<forall>path \<in> set (pathKeys (openAPI u s)). \<exists>name pl k m. map_of (rServices s) name = Some pl \<and> (k, m) \<in> set (plMethods pl) \<and>
      allowsCall u name (mName m) \<and> mStream m \<noteq> ''duplex'' \<and> path = ''/v1/call/'' @ name @ ''/'' @ mName m) \<and>
   (\<forall>name pl m. map_of (rServices s) name = Some pl \<longrightarrow> (mName m, m) \<in> set (plMethods pl) \<longrightarrow> allowsCall u name (mName m) \<longrightarrow>
      mStream m \<noteq> ''duplex'' \<longrightarrow> ''/v1/call/'' @ name @ ''/'' @ mName m \<in> set (pathKeys (openAPI u s)))"
proof (intro conjI ballI allI impI)
  fix path
  assume "path \<in> set (pathKeys (openAPI u s))"
  then show "\<exists>name pl k m. map_of (rServices s) name = Some pl \<and> (k, m) \<in> set (plMethods pl) \<and>
      allowsCall u name (mName m) \<and> mStream m \<noteq> ''duplex'' \<and> path = ''/v1/call/'' @ name @ ''/'' @ mName m"
    unfolding openAPI_paths shownPaths_mem callPath_def shownMethod_def by blast
next
  fix name pl m
  assume a: "map_of (rServices s) name = Some pl" "(mName m, m) \<in> set (plMethods pl)" "allowsCall u name (mName m)" "mStream m \<noteq> ''duplex''"
  have "(name, pl) \<in> set (rServices s)" using a(1) by (rule map_of_SomeD)
  moreover have "allowsAnyCall u name pl" using a(2,3) by (auto simp: allowsAnyCall_def list_ex_iff)
  ultimately have "name \<in> set (map fst (filter (\<lambda>(name, pl). allowsAnyCall u name pl) (rServices s)))" by force
  then show "''/v1/call/'' @ name @ ''/'' @ mName m \<in> set (pathKeys (openAPI u s))"
    unfolding openAPI_paths shownPaths_mem callPath_def shownMethod_def using a by blast
qed

definition tinyRouter :: router where
  "tinyRouter = (newRouter zeroConfig None)\<lparr>rServices := [(''a.v1'',
     \<lparr>plTargeted = False, plMethods = [(''m'', \<lparr>mName = ''m'', mStream = ''unary'', mBalance = zeroBalance\<rparr>)], plContract = None,
      plContractMethods = 0, plInstances = [1], plCursors = []\<rparr>)]\<rparr>"

theorem openapi_shows_exactly_callable_witness:
  "''/v1/call/'' @ ''a.v1'' @ ''/'' @ ''m'' \<in> set (pathKeys (openAPI None tinyRouter))"
  using openapi_shows_exactly_callable [of None tinyRouter, THEN conjunct2, rule_format, of "''a.v1''" _ "\<lparr>mName = ''m'', mStream = ''unary'', mBalance = zeroBalance\<rparr>"]
  by (simp add: tinyRouter_def allowsCall_def)

section \<open>Moving definitions\<close>

text \<open>A value refers to the local definition \<open>k\<close> somewhere.\<close>

fun refersTo :: "string \<Rightarrow> json \<Rightarrow> bool" where
  "refersTo k (JObj ms) = list_ex (\<lambda>(m, v). (m = ''$ref'' \<and> v = JStr (defsPrefix @ k)) \<or> refersTo k v) ms"
| "refersTo k (JArr vs) = list_ex (refersTo k) vs"
| "refersTo k v = False"

definition moved :: "(string, string) gomap \<Rightarrow> bool" where
  "moved renamed \<longleftrightarrow> (\<forall>j t. map_of renamed j = Some t \<longrightarrow> hasPrefix t schemasPrefix)"

lemma redirect_Some: "redirect renamed m v = Some r \<Longrightarrow> \<exists>j t. r = JStr t \<and> map_of renamed j = Some t"
  by (auto simp: redirect_def split: json.splits if_splits option.splits)

lemma redirect_local:
  assumes "map_of renamed k = Some t" "t \<noteq> []"
  shows "redirect renamed ''$ref'' (JStr (defsPrefix @ k)) = Some (JStr t)"
  using assms by (simp add: redirect_def trimPrefix_def)

lemma not_local: "hasPrefix t schemasPrefix \<Longrightarrow> t \<noteq> defsPrefix @ k"
  by (auto simp: hasPrefix_def schemasPrefix_def defsPrefix_def)

lemma rewriteRefs_clean:
  "moved renamed \<Longrightarrow> map_of renamed k \<noteq> None \<Longrightarrow> \<not> refersTo k (rewriteRefs renamed v)"
proof (induction renamed v rule: rewriteRefs.induct)
  case (1 renamed ms)
  obtain t where t: "map_of renamed k = Some t" using "1.prems"(2) by blast
  then have "hasPrefix t schemasPrefix" using "1.prems"(1) by (simp add: moved_def)
  then have ne: "t \<noteq> []" by (auto simp: hasPrefix_def schemasPrefix_def)
  have "\<not> ((m = ''$ref'' \<and> x = JStr (defsPrefix @ k)) \<or> refersTo k x)"
    if mv: "(m, v) \<in> set ms" and x: "x = (case redirect renamed m v of Some r \<Rightarrow> r | None \<Rightarrow> rewriteRefs renamed v)" for m v x
  proof (cases "redirect renamed m v")
    case (Some r)
    then obtain j u where "x = JStr u" "map_of renamed j = Some u" using redirect_Some [OF Some] x by auto
    then show ?thesis using "1.prems"(1) not_local by (auto simp: moved_def)
  next
    case None
    have "\<not> refersTo k (rewriteRefs renamed v)" using "1.IH" [OF mv refl] "1.prems" None by simp
    moreover have "\<not> (m = ''$ref'' \<and> v = JStr (defsPrefix @ k))" using None redirect_local [OF t ne] by auto
    moreover have "rewriteRefs renamed v = JStr y \<Longrightarrow> v = JStr y" for y by (cases v) auto
    ultimately show ?thesis using x None by auto
  qed
  then show ?case by (fastforce simp: list_ex_iff)
qed (auto simp: list_ex_iff)

text \<open>The components reserved for the keys: new names, all different, and every other component as before.\<close>

lemma reserveDefs_spec:
  "reserveDefs pre keys b renamed = (b', renamed') \<Longrightarrow> distinct keys \<Longrightarrow>
   \<exists>name. (\<forall>k \<in> set keys. map_of renamed' k = Some (schemasPrefix @ name k) \<and> name k \<notin> set (obTaken b)) \<and> inj_on name (set keys) \<and>
     (\<forall>k. k \<notin> set keys \<longrightarrow> map_of renamed' k = map_of renamed k) \<and>
     set (obTaken b') = set (obTaken b) \<union> name ` set keys \<and>
     (\<forall>n. n \<notin> name ` set keys \<longrightarrow> map_of (obSchemas b') n = map_of (obSchemas b) n)"
proof (induction keys arbitrary: b renamed)
  case Nil
  then show ?case by simp
next
  case (Cons key keys)
  obtain b1 ref where c: "component (pre @ ''_'' @ key) JNull b = (b1, ref)" by fastforce
  obtain n where n: "n \<notin> set (obTaken b)" "obTaken b1 = n # obTaken b" "obSchemas b1 = setKey n JNull (obSchemas b)"
      "ref = [(''$ref'', JStr (schemasPrefix @ n))]" using component_fresh [OF c] by blast
  have r: "reserveDefs pre keys b1 (AList.update key (schemasPrefix @ n) renamed) = (b', renamed')"
    using Cons.prems(1) c n(4) by (simp add: strKey_def getKey_def)
  obtain name where name: "\<forall>k \<in> set keys. map_of renamed' k = Some (schemasPrefix @ name k) \<and> name k \<notin> set (obTaken b1)"
      "inj_on name (set keys)" "\<forall>k. k \<notin> set keys \<longrightarrow> map_of renamed' k = map_of (AList.update key (schemasPrefix @ n) renamed) k"
      "set (obTaken b') = set (obTaken b1) \<union> name ` set keys"
      "\<forall>m. m \<notin> name ` set keys \<longrightarrow> map_of (obSchemas b') m = map_of (obSchemas b1) m"
    using Cons.IH [OF r] Cons.prems(2) by (auto)
  have k: "key \<notin> set keys" using Cons.prems(2) by simp
  have i: "(name(key := n)) ` set keys = name ` set keys" using k by auto
  have "inj_on (name(key := n)) (set (key # keys))"
    using name(1,2) k n(2) by (auto simp: inj_on_def)
  moreover have "\<forall>x \<in> set (key # keys). map_of renamed' x = Some (schemasPrefix @ (name(key := n)) x) \<and> (name(key := n)) x \<notin> set (obTaken b)"
    using name(1,3) k n(1,2) by (auto simp: update_conv')
  moreover have "\<forall>m. m \<notin> (name(key := n)) ` set (key # keys) \<longrightarrow> map_of (obSchemas b') m = map_of (obSchemas b) m"
    using name(5) n(3) k by (auto simp: i setKey_def update_conv')
  moreover have "set (obTaken b') = set (obTaken b) \<union> (name(key := n)) ` set (key # keys)" using name(4) n(2) i by auto
  moreover have "\<forall>x. x \<notin> set (key # keys) \<longrightarrow> map_of renamed' x = map_of renamed x" using name(3) by (simp add: update_conv')
  ultimately show ?case by blast
qed

end
