(* ===== verification/Http_Api.thy ===== *)
theory Http_Api
  imports Openapi Router_Core
begin

text \<open>
  HTTP calls (\<^verbatim>\<open>meshcall-router/internal/router/httpapi.go\<close>) and the admission of connections at the
  head of \<^verbatim>\<open>handle\<close> (\<^verbatim>\<open>router.go\<close>).  A request is a record; the response writer is a record of what has
  been written.  A request that becomes a call is a virtual client of the Router: what follows its
  admission is a conversation, one transition per frame the handler takes out of the client's queue
  and per line its reader takes out of the request body.
\<close>

section \<open>Requests and responses\<close>

type_synonym header = "(string, string list) gomap"

text \<open>\<^verbatim>\<open>textproto.CanonicalMIMEHeaderKey\<close>: letters at the start and after a hyphen in upper case, the others
  in lower case; a key with a byte that no token may have is left as it is.\<close>

definition tokenByte :: "char \<Rightarrow> bool" where
  "tokenByte c \<longleftrightarrow> isDigit c \<or> isLetter c \<or> List.member ''!#$%&*+-.^_`|~'' c \<or> c = CHR 0x27"

fun canonFrom :: "bool \<Rightarrow> string \<Rightarrow> string" where
  "canonFrom start [] = []"
| "canonFrom start (c # cs) = (if start then asciiUpper c else asciiLower c) # canonFrom (c = CHR ''-'') cs"

definition canonicalKey :: "string \<Rightarrow> string" where
  "canonicalKey k = (if list_all tokenByte k then canonFrom True k else k)"

definition headerGet :: "header \<Rightarrow> string \<Rightarrow> string" where
  "headerGet h k = (case map_of h (canonicalKey k) of Some (v # _) \<Rightarrow> v | _ \<Rightarrow> [])"

definition headerSet :: "string \<Rightarrow> string \<Rightarrow> header \<Rightarrow> header" where
  "headerSet k v h = AList.update (canonicalKey k) [v] h"

definition headerAdd :: "string \<Rightarrow> string \<Rightarrow> header \<Rightarrow> header" where
  "headerAdd k v h = AList.update (canonicalKey k) ((case map_of h (canonicalKey k) of Some vs \<Rightarrow> vs | None \<Rightarrow> []) @ [v]) h"

text \<open>The bytes of a body that are still to be read, and how the reading ends: \<open>None\<close> is \<^verbatim>\<open>io.EOF\<close>,
  \<open>Some\<close> the text of another error.\<close>

record body =
  bdData :: string
  bdErr :: "string option"

record request =
  rqMethod :: string
  rqPath :: string
  rqHeader :: header
  rqBody :: body

record response =
  wHeader :: header
  wStatus :: "nat option"
  wBody :: string

definition newResponse :: response where
  "newResponse = \<lparr>wHeader = [], wStatus = None, wBody = []\<rparr>"

definition setHeader :: "string \<Rightarrow> string \<Rightarrow> response \<Rightarrow> response" where
  "setHeader k v w = w\<lparr>wHeader := headerSet k v (wHeader w)\<rparr>"

definition addHeader :: "string \<Rightarrow> string \<Rightarrow> response \<Rightarrow> response" where
  "addHeader k v w = w\<lparr>wHeader := headerAdd k v (wHeader w)\<rparr>"

definition writeHeader :: "nat \<Rightarrow> response \<Rightarrow> response" where
  "writeHeader status w = (if wStatus w = None then w\<lparr>wStatus := Some status\<rparr> else w)"

definition writeBody :: "string \<Rightarrow> response \<Rightarrow> response" where
  "writeBody data w = (writeHeader 200 w)\<lparr>wBody := wBody w @ data\<rparr>"

definition newline :: string where "newline = [CHR 0x0A]"

text \<open>\<^verbatim>\<open>http.Error\<close>.\<close>

definition httpErrorText :: "string \<Rightarrow> nat \<Rightarrow> response \<Rightarrow> response" where
  "httpErrorText message status w =
     writeBody (message @ newline) (writeHeader status
       (setHeader ''X-Content-Type-Options'' ''nosniff'' (setHeader ''Content-Type'' ''text/plain; charset=utf-8'' w)))"

text \<open>What a request takes from outside: the Router's \<open>env\<close>, the key derivation, whether a number literal
  fits a \<^verbatim>\<open>float64\<close>, the random bytes of the call id and of the client id, and which of the two timeout
  headers a \<^verbatim>\<open>range\<close> over their map visits first.\<close>

record httpEnv =
  heEnv :: env
  hePbkdf2 :: "string \<Rightarrow> string \<Rightarrow> string option"
  heFits :: "string \<Rightarrow> bool"
  heCallID :: string
  heClientID :: string
  heIdleFirst :: bool

section \<open>Errors\<close>

fun numbersFit :: "(string \<Rightarrow> bool) \<Rightarrow> json \<Rightarrow> bool" where
  "numbersFit fits (JNum n) = fits n"
| "numbersFit fits (JArr vs) = list_all (numbersFit fits) vs"
| "numbersFit fits (JObj ms) = list_all (\<lambda>(k, v). numbersFit fits v) ms"
| "numbersFit fits v = True"

text \<open>\<^verbatim>\<open>json.Unmarshal(e.Details, &d) == nil && d["reason"] == "duplex_over_http"\<close>.\<close>

definition duplexReason :: "(string \<Rightarrow> bool) \<Rightarrow> string option \<Rightarrow> bool" where
  "duplexReason fits details = (case details of
      None \<Rightarrow> False
    | Some raw \<Rightarrow> (case unmarshalAny raw of
        Some (JObj ms) \<Rightarrow> numbersFit fits (JObj ms) \<and> map_of (rev ms) ''reason'' = Some (JStr ''duplex_over_http'')
      | _ \<Rightarrow> False))"

definition httpStatus :: "(string \<Rightarrow> bool) \<Rightarrow> errorPayload \<Rightarrow> nat" where
  "httpStatus fits e =
     (if eCode e = ''invalid_argument'' then 400
      else if eCode e = ''unauthenticated'' then 401
      else if eCode e = ''permission_denied'' then 403
      else if eCode e = ''method_not_found'' then (if duplexReason fits (eDetails e) then 405 else 404)
      else if eCode e = ''resource_exhausted'' then 429
      else if eCode e = ''cancelled'' then 499
      else if eCode e = ''unavailable'' then 503
      else if eCode e = ''deadline_exceeded'' then 504
      else 500)"

text \<open>The encoder refuses details that are not JSON, and then writes nothing.\<close>

definition detailsOk :: "errorPayload \<Rightarrow> bool" where
  "detailsOk e = (case eDetails e of None \<Rightarrow> True | Some d \<Rightarrow> d = [] \<or> jsonValid d)"

definition writeHTTPErrorStatus :: "nat \<Rightarrow> errorPayload \<Rightarrow> response \<Rightarrow> response" where
  "writeHTTPErrorStatus status e w =
     (let w1 = writeHeader status (setHeader ''Content-Type'' ''application/json'' w) in
      if detailsOk e then writeBody (marshalObject [(''error'', Some (marshalError e))] @ newline) w1 else w1)"

definition writeHTTPError :: "(string \<Rightarrow> bool) \<Rightarrow> errorPayload \<Rightarrow> response \<Rightarrow> response" where
  "writeHTTPError fits e w = writeHTTPErrorStatus (httpStatus fits e) e w"

definition routerHTTPError :: "string \<Rightarrow> string \<Rightarrow> string \<Rightarrow> errorPayload" where
  "routerHTTPError code message reason =
     \<lparr>eCode = code, eMessage = message, eRetryable = (code = ''unavailable'' \<or> code = ''resource_exhausted''),
      eDetails = Some (marshalStringMap [(''source'', ''router''), (''reason'', reason)])\<rparr>"

definition plainError :: "string \<Rightarrow> string \<Rightarrow> bool \<Rightarrow> errorPayload" where
  "plainError code message retryable = \<lparr>eCode = code, eMessage = message, eRetryable = retryable, eDetails = None\<rparr>"

section \<open>Health and origins\<close>

definition statusBody :: "string \<Rightarrow> string" where
  "statusBody st = ''{'' @ inQuotes ''status'' @ '':'' @ inQuotes st @ ''}'' @ newline"

definition serveHealth :: "router \<Rightarrow> request \<Rightarrow> response \<Rightarrow> response" where
  "serveHealth s req w =
     (let w1 = setHeader ''Cache-Control'' ''no-store'' (setHeader ''Content-Type'' ''application/json'' w) in
      if rqPath req = ''/readyz'' then
        (if rDraining s then writeBody (statusBody ''stopping'') (writeHeader 503 w1)
         else writeBody (statusBody ''ready'') w1)
      else writeBody (statusBody ''ok'') w1)"

definition originAllowed :: "config \<Rightarrow> string \<Rightarrow> bool" where
  "originAllowed c origin \<longleftrightarrow> origin \<noteq> [] \<and> list_ex (\<lambda>x. x = ''*'' \<or> x = origin) (cHTTPCORSOrigins c)"

text \<open>\<^verbatim>\<open>cors\<close>: \<open>False\<close> when the request was a preflight and has been answered.\<close>

definition cors :: "config \<Rightarrow> request \<Rightarrow> response \<Rightarrow> response \<times> bool" where
  "cors c req w =
     (let origin = headerGet (rqHeader req) ''Origin'';
          allowed = originAllowed c origin;
          w1 = (if allowed then
                  setHeader ''Access-Control-Expose-Headers'' ''*'' (addHeader ''Vary'' ''Origin'' (setHeader ''Access-Control-Allow-Origin'' origin w))
                else w) in
      if rqMethod req \<noteq> ''OPTIONS'' then (w1, True)
      else if \<not> allowed then (writeHeader 403 w1, False)
      else (writeHeader 204 (setHeader ''Access-Control-Max-Age'' ''600''
             (setHeader ''Access-Control-Allow-Headers'' ''Authorization, *''
               (setHeader ''Access-Control-Allow-Methods'' ''GET, POST'' w1))), False))"

section \<open>Reading bodies\<close>

datatype readError = EndOfBody | ReadFailed string | LineTooLong

definition bodyEnd :: "body \<Rightarrow> readError" where
  "bodyEnd b = (case bdErr b of None \<Rightarrow> EndOfBody | Some m \<Rightarrow> ReadFailed m)"

definition readErrorText :: "readError \<Rightarrow> string" where
  "readErrorText e = (case e of
      EndOfBody \<Rightarrow> ''EOF''
    | ReadFailed m \<Rightarrow> m
    | LineTooLong \<Rightarrow> ''line exceeds the maximum frame size'')"

definition lineBuffer :: nat where "lineBuffer = 65536"

text \<open>\<^verbatim>\<open>bufio.Reader.ReadSlice\<close> of a reader with \<open>cap\<close> bytes of buffer: through the newline, or a full
  buffer (\<open>True\<close>), or all that is left.\<close>

datatype slice = LineEnd string | BufferFull string | Rest string

definition readSlice :: "nat \<Rightarrow> string \<Rightarrow> slice" where
  "readSlice cap data =
     (let pre = takeWhile (\<lambda>c. c \<noteq> CHR 0x0A) data in
      if length pre < length data \<and> length pre < cap then LineEnd (take (Suc (length pre)) data)
      else if cap \<le> length data then BufferFull (take cap data)
      else Rest data)"

definition trimLine :: "string \<Rightarrow> string" where
  "trimLine l = rev (dropWhile (\<lambda>c. c = CHR 0x0D \<or> c = CHR 0x0A) (rev l))"

text \<open>\<^verbatim>\<open>readLine\<close>: the body that is left, the line, and the error if there is one.  The recursion consumes a
  buffer of the body each time round.\<close>

function readLineFrom :: "nat \<Rightarrow> int \<Rightarrow> string \<Rightarrow> body \<Rightarrow> body \<times> string \<times> readError option" where
  "readLineFrom cap limit out b = (case readSlice cap (bdData b) of
      LineEnd chunk \<Rightarrow>
        (let l = out @ chunk; b' = b\<lparr>bdData := drop (length chunk) (bdData b)\<rparr> in
         if int (length l) > limit then (b', [], Some LineTooLong) else (b', trimLine l, None))
    | BufferFull chunk \<Rightarrow>
        (let l = out @ chunk; b' = b\<lparr>bdData := drop (length chunk) (bdData b)\<rparr> in
         if int (length l) > limit then (b', [], Some LineTooLong)
         else if chunk = [] then (b', [], Some LineTooLong) else readLineFrom cap limit l b')
    | Rest chunk \<Rightarrow>
        (let l = out @ chunk; b' = b\<lparr>bdData := []\<rparr> in
         if int (length l) > limit then (b', [], Some LineTooLong) else (b', trimLine l, Some (bodyEnd b))))"
  by pat_completeness auto
termination
  by (relation "measure (\<lambda>(cap, limit, out, b). length (bdData b))")
    (auto simp: readSlice_def Let_def split: if_splits)

declare readLineFrom.simps [simp del]

definition readLine :: "int \<Rightarrow> body \<Rightarrow> body \<times> string \<times> readError option" where
  "readLine limit b = readLineFrom lineBuffer limit [] b"

text \<open>\<^verbatim>\<open>io.ReadAll(io.LimitReader(req.Body, limit+1))\<close> and the test after it: \<open>None\<close> when the body is
  unreadable or too large.\<close>

definition readPayload :: "int \<Rightarrow> body \<Rightarrow> string option" where
  "readPayload limit b =
     (let data = take (nat (limit + 1)) (bdData b);
          failed = (int (length (bdData b)) < limit + 1 \<and> bdErr b \<noteq> None) in
      if failed \<or> int (length data) > limit then None else Some data)"

definition compactJSON :: "string option \<Rightarrow> string" where
  "compactJSON raw = (case raw of
      None \<Rightarrow> ''null''
    | Some r \<Rightarrow> if r = [] then ''null'' else if jsonValid r then compactPlain r else r)"

section \<open>The call of a request\<close>

datatype httpTarget = ServeOpenAPI | CallMethod string string "string option"

definition httpCallPath :: string where "httpCallPath = ''/v1/call/''"
definition httpServicePath :: string where "httpServicePath = ''/v1/services''"

definition describePayload :: "string \<Rightarrow> string" where
  "describePayload name = ''{'' @ inQuotes ''service'' @ '':'' @ jsonQuote name @ ''}''"

text \<open>The switch over the path: the target, or the response that refuses it.\<close>

definition routePath :: "(string \<Rightarrow> bool) \<Rightarrow> request \<Rightarrow> response \<Rightarrow> response + httpTarget" where
  "routePath fits req w =
     (let path = rqPath req; no = (\<lambda>code m reason w. Inl (writeHTTPError fits (routerHTTPError code m reason) w)) in
      if path = ''/v1/openapi.json'' \<and> rqMethod req = ''GET'' then Inr ServeOpenAPI
      else if path = httpServicePath \<and> rqMethod req = ''GET'' then Inr (CallMethod RegistryService ''list'' (Some ''{}''))
      else if hasPrefix path (httpServicePath @ ''/'') \<and> rqMethod req = ''GET'' then
        Inr (CallMethod RegistryService ''describe'' (Some (describePayload (trimPrefix path (httpServicePath @ ''/'')))))
      else if hasPrefix path httpCallPath then
        (if rqMethod req \<noteq> ''POST'' then no ''invalid_argument'' ''calls are POST requests'' ''http_method'' (setHeader ''Allow'' ''POST'' w)
         else
           (let rest = trimPrefix path httpCallPath in
            case lastIndexByte rest CHR ''/'' of
              None \<Rightarrow> no ''invalid_argument'' ''expected /v1/call/{service}/{method}'' ''http_path'' w
            | Some slash \<Rightarrow>
              if slash = 0 \<or> slash = length rest - 1
              then no ''invalid_argument'' ''expected /v1/call/{service}/{method}'' ''http_path'' w
              else Inr (CallMethod (take slash rest) (drop (slash + 1) rest) None)))
      else no ''method_not_found'' (''unknown path '' @ path) ''http_path'' w)"

text \<open>\<^verbatim>\<open>strings.TrimSpace\<close> of the first part of the content type, as runes.\<close>

definition trimRunes :: "string \<Rightarrow> nat list" where
  "trimRunes s = rev (dropWhile unicodeSpace (rev (dropWhile unicodeSpace (runes s))))"

definition isNdjson :: "header \<Rightarrow> bool" where
  "isNdjson h \<longleftrightarrow> trimRunes (fst (cut CHR '';'' (headerGet h ''Content-Type''))) = runes ndjson"

datatype payloadError = NotNdjson | FirstLine readError | BadBody | PayloadNotJSON

text \<open>The request payload, and for a client stream the body that follows it.\<close>

definition requestPayload :: "int \<Rightarrow> string \<Rightarrow> string option \<Rightarrow> request \<Rightarrow> payloadError + (string \<times> body)" where
  "requestPayload limit stream fixed req =
     (let raw = (if stream = ''client_stream'' then
             (if \<not> isNdjson (rqHeader req) then Inl NotNdjson
              else (case readLine limit (rqBody req) of (b, line, err) \<Rightarrow>
                (case err of
                   Some (ReadFailed m) \<Rightarrow> Inl (FirstLine (ReadFailed m))
                 | Some LineTooLong \<Rightarrow> Inl (FirstLine LineTooLong)
                 | _ \<Rightarrow> Inr (line, b))))
           else (case fixed of
               Some p \<Rightarrow> Inr (p, rqBody req)
             | None \<Rightarrow> (case readPayload limit (rqBody req) of
                 None \<Rightarrow> Inl BadBody
               | Some data \<Rightarrow> Inr (data, rqBody req)))) in
      case raw of
        Inl err \<Rightarrow> Inl err
      | Inr (p, b) \<Rightarrow>
        (let payload = (if blankText p then ''{}'' else p) in
         if jsonValid payload then Inr (payload, b) else Inl PayloadNotJSON))"

definition writePayloadError :: "(string \<Rightarrow> bool) \<Rightarrow> payloadError \<Rightarrow> response \<Rightarrow> response" where
  "writePayloadError fits err w = (case err of
      NotNdjson \<Rightarrow> writeHTTPErrorStatus 415 (routerHTTPError ''invalid_argument'' (''a client stream takes '' @ ndjson) ''http_content_type'') w
    | FirstLine x \<Rightarrow> writeHTTPError fits (routerHTTPError ''invalid_argument''
        (''the first line must be the request payload: '' @ readErrorText x) ''http_body'') w
    | BadBody \<Rightarrow> writeHTTPError fits (routerHTTPError ''invalid_argument'' ''the request body is unreadable or too large'' ''http_body'') w
    | PayloadNotJSON \<Rightarrow> writeHTTPError fits (routerHTTPError ''invalid_argument'' ''the request payload is not JSON'' ''http_body'') w)"

text \<open>\<^verbatim>\<open>strconv.ParseInt(v, 10, 64)\<close>.\<close>

definition parseIntText :: "string \<Rightarrow> int option" where
  "parseIntText v = (if take 1 v = ''+'' then (if take 1 (drop 1 v) = ''-'' then None else parseInt64 (drop 1 v)) else parseInt64 v)"

definition timeoutHeader :: string where "timeoutHeader = ''MeshCall-Timeout-Ms''"
definition idleHeader :: string where "idleHeader = ''MeshCall-Idle-Timeout-Ms''"

text \<open>One timeout header: absent, a positive number of milliseconds, or an error.\<close>

definition headerMillis :: "header \<Rightarrow> string \<Rightarrow> string + int option" where
  "headerMillis h name =
     (let v = headerGet h name in
      if v = [] then Inr None
      else (case parseIntText v of
          Some ms \<Rightarrow> if ms \<le> 0 then Inl (name @ '' must be a positive integer'') else Inr (Some ms)
        | None \<Rightarrow> Inl (name @ '' must be a positive integer'')))"

definition milliseconds :: "time \<Rightarrow> int" where
  "milliseconds d = d div millisecond"

definition metaHeader :: string where "metaHeader = ''Meshcall-Meta-''"

definition headerMetadata :: "header \<Rightarrow> (string, string) gomap" where
  "headerMetadata h = foldl (\<lambda>m (name, values).
     if hasPrefix name metaHeader \<and> length name > length metaHeader \<and> values \<noteq> []
     then AList.update (map asciiLower (drop (length metaHeader) name)) (hd values) m else m) [] h"

definition decodeErrorText :: "decodeError \<Rightarrow> string" where
  "decodeErrorText e = (case e of
      InvalidFrame \<Rightarrow> ''invalid frame''
    | ExpectedOneFrame \<Rightarrow> ''expected one JSON frame''
    | InvalidHello \<Rightarrow> ''invalid hello or unsupported protocol''
    | InvalidRegistration \<Rightarrow> ''invalid registration''
    | InvalidCallOpen \<Rightarrow> ''invalid call.open''
    | TimeoutsMustBePositive \<Rightarrow> ''timeouts must be positive''
    | IdempotencyTooLong \<Rightarrow> ''idempotency_key exceeds 128 bytes''
    | InvalidMetadata \<Rightarrow> ''invalid metadata''
    | InvalidCallError \<Rightarrow> ''invalid call.error''
    | InvalidStreamDirection \<Rightarrow> ''invalid stream direction''
    | InvalidStreamItem \<Rightarrow> ''invalid stream item''
    | InvalidStreamCredit \<Rightarrow> ''invalid stream credit''
    | MissingNonce \<Rightarrow> ''missing or invalid nonce''
    | UnexpectedKind k \<Rightarrow> ''unexpected frame kind '' @ jsonQuote k
    | MissingCallID \<Rightarrow> ''missing call_id'')"

text \<open>The members of the \<^verbatim>\<open>call.open\<close> map, in the order \<^verbatim>\<open>json.Marshal\<close> writes them (sorted keys).\<close>

definition openMembers :: "string \<Rightarrow> string \<Rightarrow> string \<Rightarrow> string \<Rightarrow> int option \<Rightarrow> int option \<Rightarrow> header \<Rightarrow> (string \<times> string option) list" where
  "openMembers cid svc mth payload timeout idle h =
     [(''call_id'', Some (jsonQuote cid)), (''idempotency_key'', omitStr (headerGet h ''Idempotency-Key'')),
      (''idle_timeout_ms'', map_option itoa idle), (''instance_id'', omitStr (headerGet h ''MeshCall-Instance'')),
      (''kind'', Some (jsonQuote ''call.open'')),
      (''metadata'', if headerMetadata h = [] then None else Some (marshalStringMap (headerMetadata h))),
      (''method'', Some (jsonQuote mth)), (''payload'', Some (compactRaw payload)), (''service'', Some (jsonQuote svc)),
      (''timeout_ms'', map_option itoa timeout)]"

definition bothMillis :: "bool \<Rightarrow> header \<Rightarrow> string + (int option \<times> int option)" where
  "bothMillis idleFirst h = (case (headerMillis h timeoutHeader, headerMillis h idleHeader) of
      (Inr t, Inr i) \<Rightarrow> Inr (t, i)
    | (Inl m, Inr _) \<Rightarrow> Inl m
    | (Inr _, Inl m) \<Rightarrow> Inl m
    | (Inl m, Inl n) \<Rightarrow> Inl (if idleFirst then n else m))"

definition httpOpenFrame :: "httpEnv \<Rightarrow> config \<Rightarrow> string \<Rightarrow> string \<Rightarrow> string \<Rightarrow> string \<Rightarrow> header \<Rightarrow> string + frame" where
  "httpOpenFrame he c svc mth stream payload h = (case bothMillis (heIdleFirst he) h of
      Inl m \<Rightarrow> Inl m
    | Inr (given, idle) \<Rightarrow>
      (let timeout = (if given = None \<and> stream \<noteq> ''server_stream'' then Some (milliseconds (cHTTPDefaultTimeout c)) else given) in
       if (\<exists>ms \<in> set_option timeout. cHTTPMaxTimeout c > 0 \<and> ms > milliseconds (cHTTPMaxTimeout c))
       then Inl (timeoutHeader @ '' exceeds the Router'' @ [CHR 0x27] @ ''s maximum of '' @ itoa (milliseconds (cHTTPMaxTimeout c)))
       else if length (headerGet h ''Idempotency-Key'') > 128 then Inl ''Idempotency-Key must be at most 128 bytes''
       else (case decode (marshalObject (openMembers (''http-'' @ hexEncode (heCallID he)) svc mth payload timeout idle h)) of
           (f, None) \<Rightarrow> Inr f
         | (f, Some err) \<Rightarrow> Inl (decodeErrorText err))))"

section \<open>The conversation of a request\<close>

text \<open>What a client stream still has to do: \<open>ciReading\<close> says that its reader goroutine has been asked for a line.\<close>

record clientInput =
  ciCredit :: int
  ciSequence :: int
  ciEnded :: bool
  ciReading :: bool
  ciBody :: body

text \<open>Where the handler stands: in one of its three loops, or returned (the answer is complete, the request
  has gone, or a nil error would be dereferenced).\<close>

datatype progress =
    UnaryCall
  | ServerStreamCall bool nat      \<comment> \<open>\<^verbatim>\<open>started\<close>, \<^verbatim>\<open>written\<close>\<close>
  | ClientStreamCall clientInput
  | Complete
  | Gone
  | Crashed

record httpCall =
  hcPeer :: addr
  hcID :: string
  hcResponse :: response
  hcProgress :: progress

definition streamCredit :: int where "streamCredit = 128"
definition trailerHeader :: string where "trailerHeader = ''MeshCall-Trailer-''"

definition sendCall :: "env \<Rightarrow> httpCall \<Rightarrow> frame \<Rightarrow> router \<Rightarrow> router" where
  "sendCall e c f s = forward e (hcPeer c) (f\<lparr>fCallID := hcID c\<rparr>) s"

text \<open>\<^verbatim>\<open>setTrailerHeaders\<close> with no prefix: metadata that does not decode to a map of strings sets nothing.\<close>

definition trailerMap :: "string option \<Rightarrow> (string, string) gomap option" where
  "trailerMap metadata = (case metadata of
      None \<Rightarrow> None
    | Some raw \<Rightarrow> (case unmarshalAny raw of
        Some JNull \<Rightarrow> Some []
      | Some (JObj ms) \<Rightarrow>
          if list_all (\<lambda>(k, v). case v of JStr _ \<Rightarrow> True | JNull \<Rightarrow> True | _ \<Rightarrow> False) ms
          then Some (foldl (\<lambda>m (k, v). AList.update k (case v of JStr x \<Rightarrow> x | _ \<Rightarrow> []) m) [] ms) else None
      | _ \<Rightarrow> None))"

definition setTrailerHeaders :: "string option \<Rightarrow> response \<Rightarrow> response" where
  "setTrailerHeaders metadata w = (case trailerMap metadata of
      None \<Rightarrow> w
    | Some ts \<Rightarrow> fold (\<lambda>(k, v). setHeader (trailerHeader @ k) v) ts w)"

definition writeResult :: "frame \<Rightarrow> response \<Rightarrow> response" where
  "writeResult f w =
     writeBody newline (writeBody (compactJSON (fPayload f)) (writeHeader 200
       (setHeader ''Content-Type'' ''application/json'' (setTrailerHeaders (fMetadata f) w))))"

definition endWithError :: "(string \<Rightarrow> bool) \<Rightarrow> frame \<Rightarrow> httpCall \<Rightarrow> httpCall" where
  "endWithError fits f c = (case fError f of
      None \<Rightarrow> c\<lparr>hcProgress := Crashed\<rparr>
    | Some x \<Rightarrow> c\<lparr>hcResponse := writeHTTPError fits x (setTrailerHeaders (fMetadata f) (hcResponse c)), hcProgress := Complete\<rparr>)"

definition endWithResult :: "frame \<Rightarrow> httpCall \<Rightarrow> httpCall" where
  "endWithResult f c = c\<lparr>hcResponse := writeResult f (hcResponse c), hcProgress := Complete\<rparr>"

text \<open>One turn of \<^verbatim>\<open>unary\<close> with the frame \<^verbatim>\<open>next\<close> returned.\<close>

definition unaryFrame :: "(string \<Rightarrow> bool) \<Rightarrow> frame \<Rightarrow> httpCall \<Rightarrow> httpCall" where
  "unaryFrame fits f c =
     (if fKind f = ''call.result'' then endWithResult f c
      else if fKind f = ''call.error'' then endWithError fits f c
      else c)"

text \<open>\<^verbatim>\<open>serverStream\<close>: the first window, the line writer and one turn of the loop.\<close>

definition windowFrame :: "int \<Rightarrow> frame" where
  "windowFrame n = zeroFrame\<lparr>fKind := ''stream.window'', fDirection := ''server'', fCredit := Some n\<rparr>"

definition streamLineOut :: "bool \<Rightarrow> string \<Rightarrow> response \<Rightarrow> response" where
  "streamLineOut started text w =
     writeBody newline (writeBody text (if started then w
       else writeHeader 200 (setHeader ''X-Accel-Buffering'' ''no'' (setHeader ''Content-Type'' ndjson w))))"

definition trailersText :: "string option \<Rightarrow> string" where
  "trailersText metadata = (case metadata of
      None \<Rightarrow> ''{}''
    | Some raw \<Rightarrow> if raw = [] \<or> raw = ''null'' then ''{}'' else compactJSON (Some raw))"

definition itemLine :: "string option \<Rightarrow> string" where
  "itemLine payload = ''{'' @ inQuotes ''item'' @ '':'' @ compactJSON payload @ ''}''"

definition endLine :: "string option \<Rightarrow> string" where
  "endLine metadata = ''{'' @ inQuotes ''end'' @ '':{'' @ inQuotes ''trailers'' @ '':'' @ trailersText metadata @ ''}}''"

text \<open>\<^verbatim>\<open>json.Marshal(f.Error)\<close>: nothing when the details are not JSON, \<^verbatim>\<open>null\<close> for a nil error.\<close>

definition marshalErrorPtr :: "errorPayload option \<Rightarrow> string" where
  "marshalErrorPtr e = (case e of None \<Rightarrow> ''null'' | Some x \<Rightarrow> if detailsOk x then marshalError x else [])"

definition errorLine :: "errorPayload option \<Rightarrow> string option \<Rightarrow> string" where
  "errorLine e metadata = ''{'' @ inQuotes ''error'' @ '':'' @ marshalErrorPtr e @ '','' @ inQuotes ''trailers'' @ '':'' @ trailersText metadata @ ''}''"

definition serverStreamFrame :: "httpEnv \<Rightarrow> bool \<Rightarrow> nat \<Rightarrow> frame \<Rightarrow> httpCall \<Rightarrow> router \<Rightarrow> router \<times> httpCall" where
  "serverStreamFrame he started written f c s =
     (if fKind f = ''stream.item'' then
        (let c' = c\<lparr>hcResponse := streamLineOut started (itemLine (fPayload f)) (hcResponse c), hcProgress := ServerStreamCall True (Suc written)\<rparr> in
         (if int (Suc written) mod (streamCredit div 2) = 0 then sendCall (heEnv he) c (windowFrame (streamCredit div 2)) s else s, c'))
      else if fKind f = ''call.result'' then
        (s, c\<lparr>hcResponse := streamLineOut started (endLine (fMetadata f)) (hcResponse c), hcProgress := Complete\<rparr>)
      else if fKind f = ''call.error'' then
        (if \<not> started then (s, endWithError (heFits he) f c)
         else (s, c\<lparr>hcResponse := streamLineOut started (errorLine (fError f) (fMetadata f)) (hcResponse c), hcProgress := Complete\<rparr>))
      else (s, c))"

text \<open>\<^verbatim>\<open>clientStream\<close>: what the reader goroutine delivers for one request: the next line that is not blank.\<close>

function nextLine :: "int \<Rightarrow> body \<Rightarrow> body \<times> string \<times> readError option" where
  "nextLine limit b = (case readLine limit b of (b', data, err) \<Rightarrow>
     if err = None \<and> blankText data \<and> length (bdData b') < length (bdData b) then nextLine limit b' else (b', data, err))"
  by pat_completeness auto
termination
  by (relation "measure (\<lambda>(limit, b). length (bdData b))") auto

declare nextLine.simps [simp del]

definition inputEnd :: frame where
  "inputEnd = zeroFrame\<lparr>fKind := ''stream.end'', fDirection := ''client''\<rparr>"

definition inputItem :: "int \<Rightarrow> string \<Rightarrow> frame" where
  "inputItem n data = zeroFrame\<lparr>fKind := ''stream.item'', fDirection := ''client'', fSequence := Some n,
     fPayload := Some (compactJSON (Some data))\<rparr>"

definition failInput :: "httpEnv \<Rightarrow> string \<Rightarrow> httpCall \<Rightarrow> router \<Rightarrow> router \<times> httpCall" where
  "failInput he message c s =
     (sendCall (heEnv he) c (zeroFrame\<lparr>fKind := ''call.cancel'', fReason := ''invalid_input''\<rparr>) s,
      c\<lparr>hcResponse := writeHTTPError (heFits he) (routerHTTPError ''invalid_argument'' message ''http_body'') (hcResponse c), hcProgress := Complete\<rparr>)"

text \<open>The top of the loop: ask the reader for a line while there is credit.\<close>

definition wantLine :: "clientInput \<Rightarrow> clientInput" where
  "wantLine ci = (if ciCredit ci > 0 \<and> \<not> ciEnded ci \<and> \<not> ciReading ci then ci\<lparr>ciReading := True\<rparr> else ci)"

text \<open>The case of a line received; the credit is an \<^verbatim>\<open>int64\<close>.\<close>

definition clientLine :: "httpEnv \<Rightarrow> clientInput \<Rightarrow> string \<times> readError option \<Rightarrow> httpCall \<Rightarrow> router \<Rightarrow> router \<times> httpCall" where
  "clientLine he ci0 l c s =
     (let (data, err) = l; ci = ci0\<lparr>ciReading := False\<rparr>; go = (\<lambda>ci. c\<lparr>hcProgress := ClientStreamCall ci\<rparr>) in
      if err = Some EndOfBody \<and> blankText data then (sendCall (heEnv he) c inputEnd s, go (ci\<lparr>ciEnded := True\<rparr>))
      else if err \<noteq> None \<and> err \<noteq> Some EndOfBody then failInput he (''input stream: '' @ readErrorText (the err)) c s
      else if \<not> jsonValid data then failInput he (''input item '' @ itoa (ciSequence ci) @ '' is not JSON'') c s
      else
        (let s1 = sendCall (heEnv he) c (inputItem (ciSequence ci) data) s;
             ci1 = ci\<lparr>ciSequence := ciSequence ci + 1, ciCredit := wrap64 (ciCredit ci - 1)\<rparr> in
         if err = Some EndOfBody then (sendCall (heEnv he) c inputEnd s1, go (ci1\<lparr>ciEnded := True\<rparr>))
         else (s1, go ci1)))"

text \<open>The case of a frame popped.\<close>

definition clientFrame :: "(string \<Rightarrow> bool) \<Rightarrow> clientInput \<Rightarrow> frame \<Rightarrow> httpCall \<Rightarrow> httpCall" where
  "clientFrame fits ci f c =
     (if fKind f = ''stream.window'' then
        (case fCredit f of
           None \<Rightarrow> c
         | Some n \<Rightarrow> c\<lparr>hcProgress := ClientStreamCall (ci\<lparr>ciCredit := wrap64 (ciCredit ci + n)\<rparr>)\<rparr>)
      else if fKind f = ''call.result'' then endWithResult f c
      else if fKind f = ''call.error'' then endWithError fits f c
      else c)"

text \<open>The handler takes the next frame out of its queue, or its reader delivers the line it was asked for,
  or its context ends.  \<open>None\<close>: it is not waiting for such an event, or there is no frame.\<close>

definition takeFrame :: "httpEnv \<Rightarrow> httpCall \<Rightarrow> router \<Rightarrow> (router \<times> httpCall) option" where
  "takeFrame he c s = (case pop (pOut (rPeerObj s (hcPeer c))) of
      Ret (q, Some f) \<Rightarrow>
        (let s1 = updPeer (hcPeer c) (\<lambda>x. x\<lparr>pOut := q\<rparr>) s in
         case hcProgress c of
           UnaryCall \<Rightarrow> Some (s1, unaryFrame (heFits he) f c)
         | ServerStreamCall started written \<Rightarrow> Some (serverStreamFrame he started written f c s1)
         | ClientStreamCall ci \<Rightarrow> Some (s1, clientFrame (heFits he) ci f c)
         | _ \<Rightarrow> None)
    | _ \<Rightarrow> None)"

definition takeLine :: "httpEnv \<Rightarrow> httpCall \<Rightarrow> router \<Rightarrow> (router \<times> httpCall) option" where
  "takeLine he c s = (case hcProgress c of
      ClientStreamCall ci0 \<Rightarrow>
        (let ci = wantLine ci0 in
         if ciReading ci then
           (case nextLine (cMaxFrameSize (rConfig s)) (ciBody ci) of (b, data, err) \<Rightarrow>
              Some (clientLine he (ci\<lparr>ciBody := b\<rparr>) (data, err) c s))
         else None)
    | _ \<Rightarrow> None)"

definition goneCall :: "httpCall \<Rightarrow> httpCall" where
  "goneCall c = (if hcProgress c = Complete \<or> hcProgress c = Crashed then c else c\<lparr>hcProgress := Gone\<rparr>)"

section \<open>The handler\<close>

record httpState =
  hsRouter :: router
  hsInflight :: int
  hsConnections :: int
  hsAnonymous :: int

datatype httpOutcome = Replied response | Talking httpCall

definition authChallenge :: string where
  "authChallenge = ''Basic realm='' @ inQuotes ''meshcall'' @ '', charset='' @ inQuotes ''UTF-8''"

definition writeAuthFailure :: "(string \<Rightarrow> bool) \<Rightarrow> authFailure \<Rightarrow> response \<Rightarrow> response" where
  "writeAuthFailure fits failure w =
     (let w1 = (if afChallenge failure then setHeader ''WWW-Authenticate'' authChallenge w else w);
          code = (if afStatus failure = 503 then ''unavailable'' else ''unauthenticated'') in
      writeHTTPError fits (plainError code (afMessage failure) (code = ''unavailable'')) w1)"

definition serveOpenAPI :: "(string \<Rightarrow> bool) \<Rightarrow> user option \<Rightarrow> router \<Rightarrow> response \<Rightarrow> response" where
  "serveOpenAPI fits u s w =
     (if \<not> allowsCall u RegistryService ''list'' then writeHTTPError fits (plainError ''permission_denied'' ''Call is not permitted'' False) w
      else writeBody (encodeJson (openAPI u s)) (setHeader ''Content-Type'' ''application/json'' w))"

text \<open>From the open frame on: a virtual client, the call itself, and the loop that fits the method.\<close>

definition startCall :: "httpEnv \<Rightarrow> user option \<Rightarrow> string \<Rightarrow> body \<Rightarrow> frame \<Rightarrow> response \<Rightarrow> router \<Rightarrow> router \<times> httpOutcome" where
  "startCall he u stream b opening w s = (case virtualClient (heEnv he) u (heClientID he) s of
      (s1, None) \<Rightarrow> (s1, Replied (writeHTTPError (heFits he) (plainError ''unavailable'' ''Router is shutting down'' True) w))
    | (s1, Some p) \<Rightarrow>
      (let s2 = forward (heEnv he) p opening s1; c = \<lparr>hcPeer = p, hcID = fCallID opening, hcResponse = w, hcProgress = UnaryCall\<rparr> in
       if stream = ''server_stream'' then
         (sendCall (heEnv he) c (windowFrame streamCredit) s2, Talking (c\<lparr>hcProgress := ServerStreamCall False 0\<rparr>))
       else if stream = ''client_stream'' then
         (s2, Talking (c\<lparr>hcProgress := ClientStreamCall \<lparr>ciCredit = 0, ciSequence = 0, ciEnded = False, ciReading = False, ciBody = b\<rparr>\<rparr>))
       else (s2, Talking c)))"

definition callTarget :: "httpEnv \<Rightarrow> user option \<Rightarrow> string \<Rightarrow> string \<Rightarrow> string option \<Rightarrow> request \<Rightarrow> response \<Rightarrow> router \<Rightarrow> router \<times> httpOutcome" where
  "callTarget he u svc mth fixed req w s =
     (let stream = methodStream s svc mth; fits = heFits he in
      if stream = ''duplex'' then
        (s, Replied (writeHTTPError fits (routerHTTPError ''method_not_found'' ''duplex methods are WebSocket-only'' ''duplex_over_http'') w))
      else (case requestPayload (cMaxFrameSize (rConfig s)) stream fixed req of
          Inl err \<Rightarrow> (s, Replied (writePayloadError fits err w))
        | Inr (payload, b) \<Rightarrow> (case httpOpenFrame he (rConfig s) svc mth stream payload (rqHeader req) of
            Inl m \<Rightarrow> (s, Replied (writeHTTPError fits (routerHTTPError ''invalid_argument'' m ''http_header'') w))
          | Inr opening \<Rightarrow> startCall he u stream b opening w s)))"

definition authorizedTarget :: "httpEnv \<Rightarrow> httpTarget \<Rightarrow> request \<Rightarrow> response \<Rightarrow> router \<Rightarrow> router \<times> httpOutcome" where
  "authorizedTarget he target req w s = (case checkAuth (eSha256 (heEnv he)) (hePbkdf2 he) (eNow (heEnv he))
        (headerGet (rqHeader req) ''Authorization'') (rAuth s) of
      (a, Inl failure) \<Rightarrow> (s\<lparr>rAuth := a\<rparr>, Replied (writeAuthFailure (heFits he) failure w))
    | (a, Inr u) \<Rightarrow>
      (let s1 = s\<lparr>rAuth := a\<rparr> in
       if \<not> allowsRole u ''client'' then
         (s1, Replied (writeHTTPError (heFits he) (plainError ''permission_denied'' ''the identity may not act as a client'' False) w))
       else (case target of
           ServeOpenAPI \<Rightarrow> (s1, Replied (serveOpenAPI (heFits he) u s1 w))
         | CallMethod svc mth fixed \<Rightarrow> callTarget he u svc mth fixed req w s1)))"

text \<open>\<^verbatim>\<open>serveHTTP\<close> up to its loop; a request that is answered gives its slot back at once.\<close>

definition serveHTTP :: "httpEnv \<Rightarrow> request \<Rightarrow> httpState \<Rightarrow> httpState \<times> httpOutcome" where
  "serveHTTP he req st = (case cors (rConfig (hsRouter st)) req newResponse of
      (w, False) \<Rightarrow> (st, Replied w)
    | (w, True) \<Rightarrow>
      if hsInflight st + 1 > cHTTPMaxInflight (rConfig (hsRouter st)) then
        (st, Replied (writeHTTPErrorStatus 429 (routerHTTPError ''resource_exhausted'' ''Router HTTP call limit reached'' ''overloaded'')
               (setHeader ''Retry-After'' ''1'' w)))
      else (case routePath (heFits he) req w of
          Inl w' \<Rightarrow> (st, Replied w')
        | Inr target \<Rightarrow> (case authorizedTarget he target req w (hsRouter st) of
            (s, Replied w') \<Rightarrow> (st\<lparr>hsRouter := s\<rparr>, Replied w')
          | (s, Talking c) \<Rightarrow> (st\<lparr>hsRouter := s, hsInflight := hsInflight st + 1\<rparr>, Talking c))))"

text \<open>The deferred calls at the end of the handler: \<^verbatim>\<open>release\<close>, and the slot.\<close>

definition releaseCall :: "env \<Rightarrow> httpCall \<Rightarrow> httpState \<Rightarrow> httpState" where
  "releaseCall e c st = st\<lparr>hsRouter := disconnect e (hcPeer c) (hsRouter st), hsInflight := hsInflight st - 1\<rparr>"

section \<open>Admission of connections\<close>

datatype admission = Refused response | Served httpOutcome | Upgraded "user option"

definition authenticate :: "httpEnv \<Rightarrow> request \<Rightarrow> auth option \<Rightarrow> response \<Rightarrow> auth option \<times> (response + user option)" where
  "authenticate he req a w = (case checkAuth (eSha256 (heEnv he)) (hePbkdf2 he) (eNow (heEnv he)) (headerGet (rqHeader req) ''Authorization'') a of
      (a', Inr u) \<Rightarrow> (a', Inr u)
    | (a', Inl failure) \<Rightarrow>
      (a', Inl (httpErrorText (afMessage failure) (nat (afStatus failure))
         (if afChallenge failure then setHeader ''WWW-Authenticate'' authChallenge w else w))))"

definition isAnonymous :: "user option \<Rightarrow> bool" where
  "isAnonymous u = (case u of Some x \<Rightarrow> uKind x = IdentityAnonymous | None \<Rightarrow> False)"

text \<open>The head of \<^verbatim>\<open>handle\<close> up to the upgrade; an upgraded connection holds its slots until \<open>releaseSlots\<close>.\<close>

definition handleHead :: "httpEnv \<Rightarrow> request \<Rightarrow> httpState \<Rightarrow> httpState \<times> admission" where
  "handleHead he req st =
     (let s = hsRouter st; c = rConfig s; busy = setHeader ''Retry-After'' ''1'' newResponse in
      if rqPath req = ''/healthz'' \<or> rqPath req = ''/readyz'' then (st, Refused (serveHealth s req newResponse))
      else if hasPrefix (rqPath req) ''/v1/'' \<and> \<not> equalFold (headerGet (rqHeader req) ''Upgrade'') ''websocket'' then
        (case serveHTTP he req st of (st', out) \<Rightarrow> (st', Served out))
      else if rDraining s then (st, Refused (httpErrorText ''router is shutting down'' 503 busy))
      else if hsConnections st + 1 > cMaxConnections c then (st, Refused (httpErrorText ''connection limit reached'' 503 busy))
      else (case authenticate he req (rAuth s) newResponse of
          (a, Inl w) \<Rightarrow> (st\<lparr>hsRouter := s\<lparr>rAuth := a\<rparr>\<rparr>, Refused w)
        | (a, Inr u) \<Rightarrow>
          (let st1 = st\<lparr>hsRouter := s\<lparr>rAuth := a\<rparr>\<rparr> in
           if isAnonymous u \<and> hsAnonymous st + 1 > cMaxAnonymousConnections c then
             (st1, Refused (httpErrorText ''anonymous connection limit reached'' 503 busy))
           else (st1\<lparr>hsConnections := hsConnections st + 1, hsAnonymous := hsAnonymous st + (if isAnonymous u then 1 else 0)\<rparr>, Upgraded u))))"

definition releaseSlots :: "user option \<Rightarrow> httpState \<Rightarrow> httpState" where
  "releaseSlots u st = st\<lparr>hsConnections := hsConnections st - 1, hsAnonymous := hsAnonymous st - (if isAnonymous u then 1 else 0)\<rparr>"

end
