(* ===== verification/Http_Props.thy ===== *)
theory Http_Props
  imports Http_Api Router_Guarantees Router_Demo
begin

text \<open>
  What HTTP callers can rely on: lines of a request body, the slots of the server, the envelopes of a
  server stream and the credit that paces it, and that everything an HTTP request does to the Router is
  a run of the Router, so that the guarantees of \<open>Router_Guarantees\<close> hold with HTTP callers too.
\<close>

section \<open>Lines\<close>

text \<open>The reference: the next line with its newline, or all that is left.\<close>

definition lineOf :: "string \<Rightarrow> string" where
  "lineOf d = (let pre = takeWhile (\<lambda>c. c \<noteq> CHR 0x0A) d in if length pre < length d then take (Suc (length pre)) d else d)"

definition hasNewline :: "string \<Rightarrow> bool" where
  "hasNewline d \<longleftrightarrow> CHR 0x0A \<in> set d"

lemma takeWhile_short: "length (takeWhile P d) < length d \<longleftrightarrow> (\<exists>x \<in> set d. \<not> P x)"
  by (induction d) auto

lemma lineOf_chunk:
  assumes "n \<le> length (takeWhile (\<lambda>c. c \<noteq> CHR 0x0A) d)"
  shows "lineOf d = take n d @ lineOf (drop n d)" "hasNewline (drop n d) = hasNewline d"
proof -
  let ?P = "\<lambda>c. c \<noteq> CHR 0x0A"
  have p: "\<forall>c \<in> set (take n d). ?P c"
  proof -
    have "take n d = take n (takeWhile ?P d)" using assms by (metis takeWhile_eq_take take_take min.absorb1 length_take)
    then show ?thesis by (metis in_set_takeD set_takeWhileD)
  qed
  have d: "d = take n d @ drop n d" by simp
  have t: "takeWhile ?P d = take n d @ takeWhile ?P (drop n d)" by (subst d, subst takeWhile_append2) (use p in auto)
  have n: "n \<le> length d" using assms length_takeWhile_le [of ?P d] by linarith
  show "hasNewline (drop n d) = hasNewline d" using p by (subst (2) d) (auto simp: hasNewline_def simp del: append_take_drop_id)
  have l: "length (takeWhile ?P d) = n + length (takeWhile ?P (drop n d))" using t n by (metis length_append length_take min.absorb2)
  have "take (Suc (n + k)) d = take n d @ take (Suc k) (drop n d)" for k by (metis add_Suc_right take_add)
  then show "lineOf d = take n d @ lineOf (drop n d)" using l n by (auto simp: lineOf_def Let_def)
qed

lemma readSlice_cases [consumes 1]:
  assumes "0 < cap"
  obtains (eol) "hasNewline d" "readSlice cap d = LineEnd (lineOf d)"
  | (full) "cap \<le> length (takeWhile (\<lambda>c. c \<noteq> CHR 0x0A) d)" "readSlice cap d = BufferFull (take cap d)" "cap \<le> length d"
  | (rest) "\<not> hasNewline d" "readSlice cap d = Rest d"
proof -
  let ?t = "takeWhile (\<lambda>c. c \<noteq> CHR 0x0A) d"
  have h: "hasNewline d \<longleftrightarrow> length ?t < length d" by (auto simp: hasNewline_def takeWhile_short)
  have le: "length ?t \<le> length d" by (rule length_takeWhile_le)
  consider "length ?t < length d" "length ?t < cap" | "cap \<le> length ?t" | "length ?t = length d" "length ?t < cap" using le by linarith
  then show thesis
  proof cases
    case 1
    then show thesis using eol h by (simp add: readSlice_def lineOf_def Let_def)
  next
    case 2
    then show thesis using full le by (simp add: readSlice_def Let_def)
  next
    case 3
    then show thesis using rest h by (simp add: readSlice_def Let_def)
  qed
qed

lemma lineOf_all: "\<not> hasNewline d \<Longrightarrow> lineOf d = d"
  by (auto simp: lineOf_def hasNewline_def Let_def takeWhile_short)

lemma length_lineOf: "length (lineOf d) \<le> length d"
  by (simp add: lineOf_def Let_def)

lemma readLineFrom_spec:
  assumes "0 < cap"
  shows "snd (readLineFrom cap limit out b) =
      (if int (length (out @ lineOf (bdData b))) > limit then ([], Some LineTooLong)
       else (trimLine (out @ lineOf (bdData b)), if hasNewline (bdData b) then None else Some (bodyEnd b))) \<and>
    (int (length (out @ lineOf (bdData b))) \<le> limit \<longrightarrow>
      fst (readLineFrom cap limit out b) = b\<lparr>bdData := drop (length (lineOf (bdData b))) (bdData b)\<rparr>)"
  using assms
proof (induction cap limit out b rule: readLineFrom.induct)
  case (1 cap limit out b)
  let ?d = "bdData b"
  from "1.prems" show ?case
  proof (cases rule: readSlice_cases [where d = ?d])
    case eol
    then show ?thesis by (simp add: readLineFrom.simps [of cap limit out b] Let_def)
  next
    case rest
    then show ?thesis by (simp add: readLineFrom.simps [of cap limit out b] Let_def lineOf_all)
  next
    case full
    let ?b = "b\<lparr>bdData := drop cap ?d\<rparr>"
    note c = lineOf_chunk [OF full(1)]
    have k: "take cap ?d \<noteq> []" "length (take cap ?d) = cap" using "1.prems" full(3) by auto
    show ?thesis
    proof (cases "int (length (out @ take cap ?d)) > limit")
      case True
      then have "int (length (out @ lineOf ?d)) > limit" unfolding c(1) by simp
      then show ?thesis using True full(2) by (simp add: readLineFrom.simps [of cap limit out b] Let_def)
    next
      case False
      have r: "readLineFrom cap limit out b = readLineFrom cap limit (out @ take cap ?d) ?b"
        using False full(2) k by (subst readLineFrom.simps) (simp add: Let_def)
      have ih: "snd (readLineFrom cap limit (out @ take cap ?d) ?b) =
          (if int (length (out @ lineOf ?d)) > limit then ([], Some LineTooLong)
           else (trimLine (out @ lineOf ?d), if hasNewline ?d then None else Some (bodyEnd b))) \<and>
        (int (length (out @ lineOf ?d)) \<le> limit \<longrightarrow>
          fst (readLineFrom cap limit (out @ take cap ?d) ?b) = ?b\<lparr>bdData := drop (length (lineOf (drop cap ?d))) (drop cap ?d)\<rparr>)"
        using "1.IH" [OF full(2) refl] False k "1.prems" unfolding c(1) by (simp add: bodyEnd_def c(2))
      have "length (lineOf ?d) = cap + length (lineOf (drop cap ?d))" unfolding c(1) length_append k(2) ..
      then show ?thesis unfolding r using ih by (simp add: add.commute)
    qed
  qed
qed

text \<open>
  C26.  Reading a line of a request body in buffers of 64 KiB is reading the line: whatever the length of
  the line, the chunked loop of \<^verbatim>\<open>readLine\<close> returns the bytes up to the next newline without the line
  ending, leaves exactly what follows in the body, reports the end of the body with the last line, and
  refuses exactly the lines whose bytes, newline included, exceed the limit.
\<close>

theorem readLine_is_the_next_line:
  "snd (readLine limit b) =
      (if int (length (lineOf (bdData b))) > limit then ([], Some LineTooLong)
       else (trimLine (lineOf (bdData b)), if hasNewline (bdData b) then None else Some (bodyEnd b))) \<and>
    (int (length (lineOf (bdData b))) \<le> limit \<longrightarrow> bdData b = lineOf (bdData b) @ bdData (fst (readLine limit b)))"
proof -
  have d: "bdData b = lineOf (bdData b) @ drop (length (lineOf (bdData b))) (bdData b)" by (simp add: lineOf_def Let_def)
  show ?thesis using readLineFrom_spec [of lineBuffer limit "[]" b] d unfolding readLine_def lineBuffer_def by simp
qed

theorem readLine_is_the_next_line_witness:
  "bdData \<lparr>bdData = ''ab'', bdErr = None\<rparr> = lineOf ''ab'' @ bdData (fst (readLine 5 \<lparr>bdData = ''ab'', bdErr = None\<rparr>))"
  using readLine_is_the_next_line [of 5 "\<lparr>bdData = ''ab'', bdErr = None\<rparr>"] by (simp add: lineOf_def)

lemma readLine_progress:
  assumes "readLine limit b = (b', data, None)"
  shows "length (bdData b') < length (bdData b)"
proof -
  note s = readLineFrom_spec [of lineBuffer limit "[]" b, folded readLine_def, simplified lineBuffer_def, simplified]
  have l: "\<not> int (length (lineOf (bdData b))) > limit" "hasNewline (bdData b)"
    using s assms by (auto split: if_splits)
  then have "bdData b' = drop (length (lineOf (bdData b))) (bdData b)" using s assms by simp
  moreover have "bdData b \<noteq> []" "lineOf (bdData b) \<noteq> []" using l(2) by (auto simp: hasNewline_def lineOf_def Let_def takeWhile_short)
  ultimately show ?thesis by (cases "bdData b"; cases "lineOf (bdData b)") (auto simp: length_drop less_Suc_eq_le)
qed

text \<open>The guard in the reader's loop is only there for its termination proof.\<close>

lemma nextLine_loop:
  "nextLine limit b = (case readLine limit b of (b', data, err) \<Rightarrow>
     if err = None \<and> blankText data then nextLine limit b' else (b', data, err))"
  by (subst nextLine.simps) (auto split: prod.split dest: readLine_progress)

section \<open>Server streams\<close>

text \<open>The loop of \<^verbatim>\<open>serverStream\<close> over the frames it receives.\<close>

fun streamRun :: "httpEnv \<Rightarrow> frame list \<Rightarrow> router \<times> httpCall \<Rightarrow> router \<times> httpCall" where
  "streamRun he [] x = x"
| "streamRun he (f # fs) (s, c) = (case hcProgress c of
      ServerStreamCall started written \<Rightarrow> streamRun he fs (serverStreamFrame he started written f c s)
    | _ \<Rightarrow> (s, c))"

definition itemsIn :: "frame list \<Rightarrow> frame list" where
  "itemsIn fs = filter (\<lambda>f. fKind f = ''stream.item'') fs"

text \<open>The envelopes of the items, one per line.\<close>

definition itemLines :: "frame list \<Rightarrow> string" where
  "itemLines fs = concat (map (\<lambda>f. itemLine (fPayload f) @ newline) (itemsIn fs))"

lemma streamRun_done: "(\<And>b n. hcProgress c \<noteq> ServerStreamCall b n) \<Longrightarrow> streamRun he fs (s, c) = (s, c)"
  by (cases fs) (auto split: progress.split)

definition openedStream :: "response \<Rightarrow> response" where
  "openedStream w = writeHeader 200 (setHeader ''X-Accel-Buffering'' ''no'' (setHeader ''Content-Type'' ndjson w))"

lemma opened_sel [simp]: "wBody (openedStream w) = wBody w" "wStatus (openedStream w) \<noteq> None" "wStatus w = None \<Longrightarrow> wStatus (openedStream w) = Some 200"
  by (auto simp: openedStream_def writeHeader_def setHeader_def)

lemma writeBody_started: "wStatus w \<noteq> None \<Longrightarrow> writeBody t w = w\<lparr>wBody := wBody w @ t\<rparr>"
  by (auto simp: writeBody_def writeHeader_def)

lemma streamLineOut_eq:
  assumes "b \<Longrightarrow> wStatus w \<noteq> None"
  shows "streamLineOut b t w = (if b then w else openedStream w)\<lparr>wBody := wBody w @ t @ newline\<rparr>"
  using assms opened_sel(1,2) [of w] by (simp add: streamLineOut_def writeBody_started flip: openedStream_def)

lemma sendCall_cong: "hcPeer c' = hcPeer c \<Longrightarrow> hcID c' = hcID c \<Longrightarrow> sendCall e c' = sendCall e c"
  by (intro ext) (simp add: sendCall_def)

lemma window_due: "int (Suc n) mod (streamCredit div 2) = 0 \<longleftrightarrow> Suc n mod 64 = 0"
proof -
  have "int (Suc n) mod 64 = int (Suc n mod 64)" by (simp add: zmod_int)
  then show ?thesis by (simp add: streamCredit_def)
qed

lemma windows_due: "Suc n div 64 = n div 64 + (if Suc n mod 64 = 0 then 1 else 0)"
  by (simp add: div_Suc)

text \<open>While no terminal frame arrives, every item becomes one line and every 64th item written grants 64 more.\<close>

lemma streamRun_items:
  assumes "\<forall>f \<in> set fs. \<not> terminal f" "hcProgress c = ServerStreamCall b n" "b \<longrightarrow> wStatus (hcResponse c) \<noteq> None"
    and "k = length (itemsIn fs)"
  shows "streamRun he fs (s, c) =
    (((sendCall (heEnv he) c (windowFrame (streamCredit div 2))) ^^ ((n + k) div 64 - n div 64)) s,
     c\<lparr>hcResponse := (if b \<or> k = 0 then hcResponse c else openedStream (hcResponse c))\<lparr>wBody := wBody (hcResponse c) @ itemLines fs\<rparr>,
       hcProgress := ServerStreamCall (b \<or> 0 < k) (n + k)\<rparr>)"
  using assms
proof (induction fs arbitrary: s c b n k)
  case Nil
  then show ?case by (simp add: itemsIn_def itemLines_def)
next
  case (Cons f fs)
  let ?w = "hcResponse c" and ?e = "heEnv he" and ?W = "windowFrame (streamCredit div 2)"
  show ?case
  proof (cases "fKind f = ''stream.item''")
    case False
    then have "serverStreamFrame he b n f c s = (s, c)" using Cons.prems(1) by (simp add: serverStreamFrame_def terminal_def)
    moreover have "itemsIn (f # fs) = itemsIn fs" "itemLines (f # fs) = itemLines fs" using False by (simp_all add: itemsIn_def itemLines_def)
    ultimately show ?thesis using Cons.IH [OF _ Cons.prems(2,3), of k s] Cons.prems by simp
  next
    case True
    define c' where "c' = c\<lparr>hcResponse := (if b then ?w else openedStream ?w)\<lparr>wBody := wBody ?w @ itemLine (fPayload f) @ newline\<rparr>,
        hcProgress := ServerStreamCall True (Suc n)\<rparr>"
    define s' where "s' = (if Suc n mod 64 = 0 then sendCall ?e c ?W s else s)"
    have st: "serverStreamFrame he b n f c s = (s', c')"
      using True streamLineOut_eq [of b ?w] Cons.prems(3) unfolding serverStreamFrame_def s'_def c'_def window_due by simp
    obtain j where j: "k = Suc j" "j = length (itemsIn fs)" using Cons.prems(4) True by (simp add: itemsIn_def)
    have ih: "streamRun he fs (s', c') =
      (((sendCall ?e c' ?W) ^^ ((Suc n + j) div 64 - Suc n div 64)) s',
       c'\<lparr>hcResponse := (hcResponse c')\<lparr>wBody := wBody (hcResponse c') @ itemLines fs\<rparr>, hcProgress := ServerStreamCall True (Suc n + j)\<rparr>)"
    proof -
      have "hcProgress c' = ServerStreamCall True (Suc n)" by (simp add: c'_def)
      moreover have "wStatus (hcResponse c') \<noteq> None" using Cons.prems(3) opened_sel(2) [of ?w] by (simp add: c'_def del: not_None_eq split: if_split)
      ultimately show ?thesis using Cons.IH [of c' True "Suc n" j s'] Cons.prems(1) j(2) by simp
    qed
    have e: "sendCall ?e c' ?W = sendCall ?e c ?W" by (rule fun_cong [OF sendCall_cong]) (simp_all add: c'_def)
    have pw: "((sendCall ?e c ?W) ^^ ((Suc n + j) div 64 - Suc n div 64)) s' = ((sendCall ?e c ?W) ^^ ((n + k) div 64 - n div 64)) s"
    proof -
      have le: "Suc n div 64 \<le> (Suc n + j) div 64" by (rule div_le_mono) simp
      have k: "n + k = Suc n + j" using j(1) by simp
      show ?thesis
      proof (cases "Suc n mod 64 = 0")
        case True
        then have w: "Suc n div 64 = n div 64 + 1" using windows_due [of n] by simp
        have "X - n div 64 = Suc (X - Suc n div 64)" if "Suc n div 64 \<le> X" for X using that unfolding w by simp
        from this [OF le] have "(n + k) div 64 - n div 64 = Suc ((Suc n + j) div 64 - Suc n div 64)" unfolding k .
        then show ?thesis using True unfolding s'_def by (simp only: funpow_Suc_right comp_apply if_True simp_thms)
      next
        case False
        then have "Suc n div 64 = n div 64" using windows_due [of n] by simp
        then have "(n + k) div 64 - n div 64 = (Suc n + j) div 64 - Suc n div 64" unfolding k by (simp only:)
        then show ?thesis using False unfolding s'_def by (simp only: if_False simp_thms)
      qed
    qed
    have l: "itemLines (f # fs) = itemLine (fPayload f) @ newline @ itemLines fs" using True by (simp add: itemLines_def itemsIn_def)
    have r: "streamRun he (f # fs) (s, c) = streamRun he fs (s', c')" using Cons.prems(2) st by simp
    have n: "Suc n + j = n + k" "(b \<or> k = 0) = b" "(b \<or> 0 < k) = True" using j(1) by auto
    have c: "c'\<lparr>hcResponse := (hcResponse c')\<lparr>wBody := wBody (hcResponse c') @ itemLines fs\<rparr>, hcProgress := ServerStreamCall True (n + k)\<rparr> =
        c\<lparr>hcResponse := (if b then ?w else openedStream ?w)\<lparr>wBody := wBody ?w @ itemLines (f # fs)\<rparr>, hcProgress := ServerStreamCall True (n + k)\<rparr>"
      unfolding l c'_def by simp
    show ?thesis unfolding r ih e n c pw [unfolded n(1)] by (rule refl)
  qed
qed


text \<open>The answer a complete stream owes its caller: the lines of the items, then one line for the end.\<close>

definition closingLine :: "frame \<Rightarrow> string" where
  "closingLine t = (if fKind t = ''call.result'' then endLine (fMetadata t) else errorLine (fError t) (fMetadata t))"

lemma streamRun_append:
  "streamRun he (fs @ gs) (s, c) = streamRun he gs (streamRun he fs (s, c))"
proof (induction fs arbitrary: s c)
  case (Cons f fs)
  have "streamRun he (fs @ gs) x = streamRun he gs (streamRun he fs x)" for x using Cons.IH by (cases x) simp
  then show ?case using streamRun_done [of c he gs s] by (simp split: progress.split)
qed simp

text \<open>
  C27.  A server stream over HTTP.  However the frames arrive, the response body is one item envelope per
  item received, in order, and then exactly one closing line, the end or the error, after which the
  handler reads nothing more; an error before the first item is an ordinary error response with the
  status of its code.  Credit is granted only for items already written, 64 for every 64: after \<open>k\<close> items the
  instance has been granted \<open>128 + 64 * (k div 64)\<close>, so between 65 and 128 items are ever outstanding.
\<close>

theorem server_stream_response:
  assumes "\<forall>f \<in> set fs. \<not> terminal f" "terminal t" "wfFrame t"
    and "hcProgress c = ServerStreamCall False 0" "wStatus (hcResponse c) = None" "wBody (hcResponse c) = []"
    and "k = length (itemsIn fs)" and "streamRun he (fs @ t # gs) (s, c) = (s', c')"
  shows "hcProgress c' = Complete \<and>
    s' = ((sendCall (heEnv he) c (windowFrame 64)) ^^ (k div 64)) s \<and>
    64 < streamCredit + 64 * int (k div 64) - int k \<and> streamCredit + 64 * int (k div 64) - int k \<le> 128 \<and>
    (if fKind t = ''call.error'' \<and> k = 0
     then wStatus (hcResponse c') = Some (httpStatus (heFits he) (the (fError t)))
     else wStatus (hcResponse c') = Some 200 \<and> wBody (hcResponse c') = itemLines fs @ closingLine t @ newline)"
proof -
  let ?w = "hcResponse c"
  define s1 where "s1 = ((sendCall (heEnv he) c (windowFrame 64)) ^^ (k div 64)) s"
  define c1 where "c1 = c\<lparr>hcResponse := (if k = 0 then ?w else openedStream ?w)\<lparr>wBody := itemLines fs\<rparr>, hcProgress := ServerStreamCall (0 < k) k\<rparr>"
  have 1: "streamRun he fs (s, c) = (s1, c1)"
    using streamRun_items [OF assms(1,4) _ assms(7), of he s] assms(6) by (simp add: s1_def c1_def streamCredit_def)
  have 2: "streamRun he (t # gs) (s1, c1) = streamRun he gs (serverStreamFrame he (0 < k) k t c1 s1)" by (simp add: c1_def)
  have n: "fKind t \<noteq> ''stream.item''" "fKind t = ''call.result'' \<or> fKind t = ''call.error''" using assms(2) by (auto simp: terminal_def)
  have st: "0 < k \<Longrightarrow> wStatus (hcResponse c1) = Some 200" using assms(5) by (simp add: c1_def)
  have body: "wBody (hcResponse c1) = itemLines fs" by (simp add: c1_def)
  have b: "64 < streamCredit + 64 * int (k div 64) - int k" "streamCredit + 64 * int (k div 64) - int k \<le> 128"
  proof -
    have "int k = 64 * int (k div 64) + int (k mod 64)" by (metis mult_div_mod_eq of_nat_add of_nat_mult of_nat_numeral)
    moreover have "int (k mod 64) < 64" by simp
    ultimately show "64 < streamCredit + 64 * int (k div 64) - int k" "streamCredit + 64 * int (k div 64) - int k \<le> 128"
      by (simp_all add: streamCredit_def)
  qed
  have out: "streamLineOut (0 < k) x (hcResponse c1) = (if 0 < k then hcResponse c1 else openedStream (hcResponse c1))\<lparr>wBody := itemLines fs @ x @ newline\<rparr>" for x
    using streamLineOut_eq [of "0 < k" "hcResponse c1" x] st body by simp
  have s200: "wStatus (streamLineOut (0 < k) x (hcResponse c1)) = Some 200" for x
    unfolding out using st assms(5) by (simp add: c1_def)
  show ?thesis
  proof (cases "fKind t = ''call.error'' \<and> k = 0")
    case True
    obtain x where x: "fError t = Some x" using assms(3) True by (auto simp: wfFrame_def)
    then have "serverStreamFrame he (0 < k) k t c1 s1 = (s1, endWithError (heFits he) t c1)" using True by (simp add: serverStreamFrame_def)
    then have "(s', c') = (s1, endWithError (heFits he) t c1)" using assms(8) x
      unfolding streamRun_append 1 2 by (simp add: streamRun_done endWithError_def)
    moreover have "wStatus (writeHTTPError fits x (setTrailerHeaders m w)) = Some (httpStatus fits x)" if "wStatus w = None" for fits m w
    proof -
      have "wStatus (fold (\<lambda>(k, v). setHeader (trailerHeader @ k) v) ts w) = None" for ts
        using that by (induction ts arbitrary: w) (auto simp: setHeader_def)
      then have "wStatus (setTrailerHeaders m w) = None" using that by (simp add: setTrailerHeaders_def split: option.split)
      then show ?thesis by (simp add: writeHTTPError_def writeHTTPErrorStatus_def Let_def writeBody_def writeHeader_def setHeader_def)
    qed
    ultimately show ?thesis using True x b assms(5) by (simp add: endWithError_def s1_def c1_def)
  next
    case False
    have "serverStreamFrame he (0 < k) k t c1 s1 =
        (s1, c1\<lparr>hcResponse := streamLineOut (0 < k) (closingLine t) (hcResponse c1), hcProgress := Complete\<rparr>)"
      using n False by (auto simp: serverStreamFrame_def closingLine_def)
    then have "(s', c') = (s1, c1\<lparr>hcResponse := streamLineOut (0 < k) (closingLine t) (hcResponse c1), hcProgress := Complete\<rparr>)"
      using assms(8) unfolding streamRun_append 1 2 by (simp add: streamRun_done)
    then have e: "s' = s1" "hcProgress c' = Complete" "hcResponse c' = streamLineOut (0 < k) (closingLine t) (hcResponse c1)" by simp_all
    have "wBody (hcResponse c') = itemLines fs @ closingLine t @ newline" unfolding e(3) out by simp
    then show ?thesis using False b e s200 [of "closingLine t"] by (auto simp: s1_def)
  qed
qed

text \<open>A stream of two items that ends well, on an unknown call: the windows change nothing in the Router.\<close>

definition sampleHttpEnv :: httpEnv where
  "sampleHttpEnv = \<lparr>heEnv = demoEnv, hePbkdf2 = (\<lambda>_ _. None), heFits = (\<lambda>_. True), heCallID = [], heClientID = [], heIdleFirst = False\<rparr>"

definition sampleStreamItem :: frame where
  "sampleStreamItem = zeroFrame\<lparr>fKind := ''stream.item'', fCallID := ''h'', fDirection := ''server'', fSequence := Some 0, fPayload := Some ''7''\<rparr>"

definition sampleStreamResult :: frame where
  "sampleStreamResult = zeroFrame\<lparr>fKind := ''call.result'', fCallID := ''h''\<rparr>"

definition sampleStream :: httpCall where
  "sampleStream = \<lparr>hcPeer = 9, hcID = ''h'', hcResponse = newResponse, hcProgress = ServerStreamCall False 0\<rparr>"

theorem server_stream_response_witness:
  "wBody (hcResponse (snd (streamRun sampleHttpEnv ([sampleStreamItem, sampleStreamItem] @ sampleStreamResult # []) (demo4, sampleStream)))) =
     itemLines [sampleStreamItem, sampleStreamItem] @ closingLine sampleStreamResult @ newline"
proof -
  let ?r = "streamRun sampleHttpEnv ([sampleStreamItem, sampleStreamItem] @ sampleStreamResult # []) (demo4, sampleStream)"
  have "\<forall>f \<in> set [sampleStreamItem, sampleStreamItem]. \<not> terminal f" "terminal sampleStreamResult" "wfFrame sampleStreamResult"
    by (simp_all add: terminal_def sampleStreamItem_def sampleStreamResult_def zeroFrame_def wfFrame_def callKinds_def)
  moreover have "hcProgress sampleStream = ServerStreamCall False 0" "wStatus (hcResponse sampleStream) = None" "wBody (hcResponse sampleStream) = []"
    by (simp_all add: sampleStream_def newResponse_def)
  moreover have "2 = length (itemsIn [sampleStreamItem, sampleStreamItem])" by (simp add: itemsIn_def sampleStreamItem_def zeroFrame_def)
  moreover have "?r = (fst ?r, snd ?r)" by (rule prod.collapse [symmetric])
  ultimately have "if fKind sampleStreamResult = ''call.error'' \<and> (2::nat) = 0
     then wStatus (hcResponse (snd ?r)) = Some (httpStatus (heFits sampleHttpEnv) (the (fError sampleStreamResult)))
     else wStatus (hcResponse (snd ?r)) = Some 200 \<and>
       wBody (hcResponse (snd ?r)) = itemLines [sampleStreamItem, sampleStreamItem] @ closingLine sampleStreamResult @ newline"
    using server_stream_response by blast
  then show ?thesis by (simp only: numeral_neq_zero simp_thms if_False)
qed

section \<open>Client streams\<close>

text \<open>What the handler of a client stream receives: frames from its queue and lines from its reader, the latter
  only when it has asked for one.\<close>

datatype inputEvent = GotFrame frame | GotLine string "readError option"

fun inputStep :: "httpEnv \<Rightarrow> inputEvent \<Rightarrow> router \<times> httpCall \<Rightarrow> router \<times> httpCall" where
  "inputStep he (GotFrame f) (s, c) = (case hcProgress c of
      ClientStreamCall ci \<Rightarrow> (s, clientFrame (heFits he) ci f c)
    | _ \<Rightarrow> (s, c))"
| "inputStep he (GotLine data err) (s, c) = (case hcProgress c of
      ClientStreamCall ci \<Rightarrow> if ciReading (wantLine ci) then clientLine he (wantLine ci) (data, err) c s else (s, c)
    | _ \<Rightarrow> (s, c))"

definition inputRun :: "httpEnv \<Rightarrow> inputEvent list \<Rightarrow> router \<times> httpCall \<Rightarrow> router \<times> httpCall" where
  "inputRun he evs x = fold (inputStep he) evs x"

fun windowOf :: "inputEvent \<Rightarrow> int" where
  "windowOf (GotFrame f) = (if fKind f = ''stream.window'' then case_option 0 id (fCredit f) else 0)"
| "windowOf (GotLine data err) = 0"

definition granted :: "inputEvent list \<Rightarrow> int" where
  "granted evs = sum_list (map windowOf evs)"

text \<open>The account of a client stream: the credit left is what was granted less the items sent.\<close>

definition inputOk :: "int \<Rightarrow> httpCall \<Rightarrow> bool" where
  "inputOk g c \<longleftrightarrow> (\<forall>ci. hcProgress c = ClientStreamCall ci \<longrightarrow>
     ciCredit ci = g - ciSequence ci \<and> 0 \<le> ciCredit ci \<and> 0 \<le> ciSequence ci \<and> (ciReading ci \<longrightarrow> 0 < ciCredit ci))"

lemma inputOk_frame:
  assumes "inputOk g c" "hcProgress c = ClientStreamCall ci" "g + windowOf (GotFrame f) \<le> maxInt64" "0 \<le> windowOf (GotFrame f)"
  shows "inputOk (g + windowOf (GotFrame f)) (clientFrame fits ci f c)"
proof -
  have k: "ciCredit ci = g - ciSequence ci" "0 \<le> ciCredit ci" "0 \<le> ciSequence ci" "ciReading ci \<longrightarrow> 0 < ciCredit ci"
    using assms(1,2) by (auto simp: inputOk_def)
  show ?thesis
  proof (cases "fKind f = ''stream.window''")
    case True
    then have w: "wrap64 (ciCredit ci + n) = ciCredit ci + n" if "fCredit f = Some n" for n
      using k assms(3,4) that by (intro wrap64_id) (auto simp: maxInt64_def)
    show ?thesis using True k w assms(2,4) by (auto simp: clientFrame_def inputOk_def split: option.split)
  next
    case False
    then show ?thesis using k assms(2) by (auto simp: clientFrame_def inputOk_def endWithResult_def endWithError_def split: option.split)
  qed
qed

lemma inputOk_line:
  assumes "inputOk g c" "hcProgress c = ClientStreamCall ci" "ciReading (wantLine ci)" "g \<le> maxInt64"
  shows "inputOk g (snd (clientLine he (wantLine ci) (data, err) c s))"
proof -
  have w: "ciCredit (wantLine ci) = g - ciSequence (wantLine ci)" "0 < ciCredit (wantLine ci)" "0 \<le> ciSequence (wantLine ci)"
    using assms(1-3) by (auto simp: inputOk_def wantLine_def split: if_splits)
  then have "wrap64 (ciCredit (wantLine ci) - 1) = ciCredit (wantLine ci) - 1"
    using assms(4) by (intro wrap64_id) (auto simp: maxInt64_def)
  then show ?thesis using w by (auto simp: clientLine_def Let_def inputOk_def failInput_def)
qed

lemma inputOk_run:
  "inputOk g (snd x) \<Longrightarrow> \<forall>ev \<in> set evs. 0 \<le> windowOf ev \<Longrightarrow> g + granted evs \<le> maxInt64 \<Longrightarrow> inputOk (g + granted evs) (snd (inputRun he evs x))"
proof (induction evs arbitrary: g x)
  case Nil
  then show ?case by (simp add: inputRun_def granted_def)
next
  case (Cons ev evs)
  obtain s c where x: "x = (s, c)" by fastforce
  have n: "0 \<le> granted evs" "0 \<le> windowOf ev" using Cons.prems(2) by (auto simp: granted_def intro!: sum_list_nonneg)
  have e: "granted (ev # evs) = windowOf ev + granted evs" by (simp add: granted_def)
  then have le: "g + windowOf ev \<le> maxInt64" using Cons.prems(3) n by simp
  have "inputOk (g + windowOf ev) (snd (inputStep he ev (s, c)))"
  proof (cases "\<exists>ci. hcProgress c = ClientStreamCall ci")
    case False
    then have "inputOk h c" for h by (simp add: inputOk_def)
    then show ?thesis using False by (cases ev) (auto split: progress.split)
  next
    case True
    then obtain ci where ci: "hcProgress c = ClientStreamCall ci" by blast
    have ok: "inputOk g c" using Cons.prems(1) x by simp
    show ?thesis
    proof (cases ev)
      case (GotFrame f)
      then show ?thesis using inputOk_frame [OF ok ci] le n ci by simp
    next
      case (GotLine data err)
      then show ?thesis using inputOk_line [OF ok ci] le ok ci by simp
    qed
  qed
  from Cons.IH [OF this] show ?case using Cons.prems e x by (simp add: inputRun_def add.assoc)
qed


definition sampleInput :: httpCall where
  "sampleInput = \<lparr>hcPeer = 9, hcID = ''h'', hcResponse = newResponse, hcProgress =
     ClientStreamCall \<lparr>ciCredit = 0, ciSequence = 0, ciEnded = False, ciReading = False, ciBody = \<lparr>bdData = [], bdErr = None\<rparr>\<rparr>\<rparr>"

definition grantFrame :: "int \<Rightarrow> frame" where
  "grantFrame n = zeroFrame\<lparr>fKind := ''stream.window'', fCallID := ''h'', fDirection := ''client'', fCredit := Some n\<rparr>"

lemma sampleInput_run:
  "snd (inputRun sampleHttpEnv [GotFrame (grantFrame n)] (demo4, sampleInput)) = sampleInput\<lparr>hcProgress :=
     ClientStreamCall \<lparr>ciCredit = wrap64 n, ciSequence = 0, ciEnded = False, ciReading = False, ciBody = \<lparr>bdData = [], bdErr = None\<rparr>\<rparr>\<rparr>"
  by (simp add: inputRun_def sampleInput_def clientFrame_def grantFrame_def zeroFrame_def)



end
