(* ===== verification/Http_Server.thy ===== *)
theory Http_Server
  imports Http_Props
begin

text \<open>
  The whole server: HTTP requests, upgraded connections and the Router behind them.  A run interleaves
  the handlers of any number of requests with everything else the Router does; it is shown to be a run
  of the Router, and its slot counters are shown to be exact.
\<close>

section \<open>Runs\<close>

text \<open>The server, the calls its HTTP handlers are in, the identities of the upgraded connections and the
  phase of every connection of the Router.\<close>

record server =
  svState :: httpState
  svCalls :: "httpCall list"
  svConns :: "user option list"
  svPhase :: "addr \<Rightarrow> phase option"

definition finished :: "httpCall \<Rightarrow> bool" where
  "finished c \<longleftrightarrow> hcProgress c = Complete \<or> hcProgress c = Gone \<or> hcProgress c = Crashed"

definition withRouter :: "router \<Rightarrow> server \<Rightarrow> server" where
  "withRouter s v = v\<lparr>svState := (svState v)\<lparr>hsRouter := s\<rparr>\<rparr>"

inductive serverStep :: "server \<Rightarrow> server \<Rightarrow> bool" where
  answered: "handleHead he req (svState v) = (st, Refused w) \<or> handleHead he req (svState v) = (st, Served (Replied w)) \<Longrightarrow>
    serverStep v (v\<lparr>svState := st\<rparr>)"
| called: "handleHead he req (svState v) = (st, Served (Talking c)) \<Longrightarrow>
    serverStep v (v\<lparr>svState := st, svCalls := svCalls v @ [c], svPhase := (svPhase v)(hcPeer c \<mapsto> Virtual)\<rparr>)"
| upgraded: "handleHead he req (svState v) = (st, Upgraded u) \<Longrightarrow> serverStep v (v\<lparr>svState := st, svConns := svConns v @ [u]\<rparr>)"
| dropped: "u \<in> set (svConns v) \<Longrightarrow> serverStep v (v\<lparr>svState := releaseSlots u (svState v), svConns := remove1 u (svConns v)\<rparr>)"
| frame: "i < length (svCalls v) \<Longrightarrow> takeFrame he (svCalls v ! i) (hsRouter (svState v)) = Some (s, c) \<Longrightarrow>
    serverStep v (withRouter s (v\<lparr>svCalls := (svCalls v)[i := c]\<rparr>))"
| line: "i < length (svCalls v) \<Longrightarrow> takeLine he (svCalls v ! i) (hsRouter (svState v)) = Some (s, c) \<Longrightarrow>
    serverStep v (withRouter s (v\<lparr>svCalls := (svCalls v)[i := c]\<rparr>))"
| gone: "i < length (svCalls v) \<Longrightarrow> serverStep v (v\<lparr>svCalls := (svCalls v)[i := goneCall (svCalls v ! i)]\<rparr>)"
| released: "svCalls v = xs @ c # ys \<Longrightarrow> finished c \<Longrightarrow>
    serverStep v (v\<lparr>svState := releaseCall e c (svState v), svCalls := xs @ ys, svPhase := (svPhase v)(hcPeer c := None)\<rparr>)"
| others: "step (hsRouter (svState v)) (svPhase v) s ph \<Longrightarrow> \<forall>c \<in> set (svCalls v). ph (hcPeer c) = Some Virtual \<Longrightarrow>
    serverStep v (withRouter s (v\<lparr>svPhase := ph\<rparr>))"

definition newServer :: "config \<Rightarrow> auth option \<Rightarrow> server" where
  "newServer c au = \<lparr>svState = \<lparr>hsRouter = newRouter c au, hsInflight = 0, hsConnections = 0, hsAnonymous = 0\<rparr>,
     svCalls = [], svConns = [], svPhase = (\<lambda>_. None)\<rparr>"

inductive serverRun :: "config \<Rightarrow> auth option \<Rightarrow> server \<Rightarrow> bool" for c au where
  fresh: "serverRun c au (newServer c au)"
| onward: "serverRun c au v \<Longrightarrow> serverStep v v' \<Longrightarrow> serverRun c au v'"

section \<open>Every handler drives the Router by its own steps\<close>

lemma run_forward: "run c au s ph \<Longrightarrow> ph p = Some Virtual \<Longrightarrow> run c au (forward e p f s) ph"
  by (rule run_step [OF _ step.http])

lemma run_sendCall: "run c au s ph \<Longrightarrow> ph (hcPeer k) = Some Virtual \<Longrightarrow> run c au (sendCall e k f s) ph"
  unfolding sendCall_def by (rule run_forward)

lemma run_pop: "run c au s ph \<Longrightarrow> pop (pOut (rPeerObj s p)) = Ret (q, f) \<Longrightarrow> run c au (updPeer p (\<lambda>x. x\<lparr>pOut := q\<rparr>) s) ph"
  by (rule run_step [OF _ step.writer])

lemma run_fresh: "run c au s ph \<Longrightarrow> ph p \<noteq> None \<Longrightarrow> p < rNext s"
  using run_good [of c au s ph] by (auto simp: good_def phaseOk_def)

lemma hcPeer_conv:
  "hcPeer (endWithError fits f k) = hcPeer k" "hcPeer (endWithResult f k) = hcPeer k" "hcPeer (unaryFrame fits f k) = hcPeer k"
  "hcPeer (clientFrame fits ci f k) = hcPeer k" "hcPeer (snd (serverStreamFrame he b n f k s)) = hcPeer k"
  "hcPeer (snd (clientLine he ci l k s)) = hcPeer k" "hcPeer (goneCall k) = hcPeer k"
  by (auto simp: endWithError_def endWithResult_def unaryFrame_def clientFrame_def serverStreamFrame_def clientLine_def failInput_def
      goneCall_def Let_def split: option.split prod.split)

lemma run_serverStreamFrame:
  assumes "run c au s ph" "ph (hcPeer k) = Some Virtual"
  shows "run c au (fst (serverStreamFrame he b n f k s)) ph"
  using assms run_sendCall [OF assms] by (simp add: serverStreamFrame_def Let_def)

lemma run_clientLine:
  assumes "run c au s ph" "ph (hcPeer k) = Some Virtual"
  shows "run c au (fst (clientLine he ci l k s)) ph"
proof -
  note r = run_sendCall [OF assms]
  show ?thesis using r run_sendCall [OF r assms(2)] by (simp add: clientLine_def failInput_def Let_def split: prod.split)
qed

lemma run_takeFrame:
  assumes "run c au s ph" "ph (hcPeer k) = Some Virtual" "takeFrame he k s = Some (s', k')"
  shows "run c au s' ph \<and> hcPeer k' = hcPeer k"
proof -
  obtain q f where p: "pop (pOut (rPeerObj s (hcPeer k))) = Ret (q, Some f)"
    using assms(3) by (auto simp: takeFrame_def split: go.splits prod.splits option.splits)
  note r = run_pop [OF assms(1) p]
  show ?thesis using assms(3) r run_serverStreamFrame [OF r assms(2), of he _ _ f] hcPeer_conv
    unfolding takeFrame_def p by (auto simp: Let_def split: progress.splits) (metis fst_conv snd_conv)+
qed

lemma run_takeLine:
  assumes "run c au s ph" "ph (hcPeer k) = Some Virtual" "takeLine he k s = Some (s', k')"
  shows "run c au s' ph \<and> hcPeer k' = hcPeer k"
proof -
  obtain ci l where "clientLine he ci l k s = (s', k')"
    using assms(3) by (auto simp: takeLine_def Let_def split: progress.splits if_splits prod.splits)
  then show ?thesis using run_clientLine [OF assms(1,2), of he ci l] hcPeer_conv(6) [of he ci l k s] by (metis fst_conv snd_conv)
qed

text \<open>A request that is answered leaves a run of the Router; one that becomes a call adds a new virtual client to it.\<close>

definition continues :: "config \<Rightarrow> auth option \<Rightarrow> (addr \<Rightarrow> phase option) \<Rightarrow> router \<Rightarrow> httpOutcome \<Rightarrow> bool" where
  "continues c au ph s out = (case out of
      Replied w \<Rightarrow> run c au s ph
    | Talking k \<Rightarrow> ph (hcPeer k) = None \<and> run c au s (ph(hcPeer k \<mapsto> Virtual)))"

lemma continues_startCall:
  assumes "run c au s ph" "startCall he u stream b f w s = (s', out)"
  shows "continues c au ph s' out"
proof (cases "virtualClient (heEnv he) u (heClientID he) s")
  case (Pair s1 r)
  show ?thesis
  proof (cases r)
    case None
    then have "s1 = s" using Pair by (auto simp: virtualClient_def Let_def split: if_splits)
    then show ?thesis using assms Pair None by (auto simp: startCall_def continues_def)
  next
    case (Some p)
    then have p: "p = rNext s" using Pair by (auto simp: virtualClient_def Let_def split: if_splits)
    then have n: "ph p = None" using run_fresh [OF assms(1), of p] by (cases "ph p") auto
    have "run c au s1 (ph(p \<mapsto> Virtual))" by (rule run_step [OF assms(1) step.request]) (use Pair Some in simp)
    from run_forward [OF this, of p] have r: "run c au (forward (heEnv he) p f s1) (ph(p \<mapsto> Virtual))" by simp
    then have "run c au (sendCall (heEnv he) k g (forward (heEnv he) p f s1)) (ph(p \<mapsto> Virtual))" if "hcPeer k = p" for k g
      using run_sendCall [OF r] that by simp
    then show ?thesis using assms(2) r n unfolding startCall_def Pair Some
      by (auto simp: Let_def continues_def split: if_splits)
  qed
qed

lemma continues_callTarget:
  assumes "run c au s ph" "callTarget he u svc mth fixed req w s = (s', out)"
  shows "continues c au ph s' out"
  using assms continues_startCall [OF assms(1)]
  by (auto simp: callTarget_def Let_def continues_def split: if_splits sum.splits prod.splits)

lemma continues_authorizedTarget:
  assumes "run c au s ph" "authorizedTarget he target req w s = (s', out)"
  shows "continues c au ph s' out"
proof -
  obtain a r where k: "checkAuth (eSha256 (heEnv he)) (hePbkdf2 he) (eNow (heEnv he)) (headerGet (rqHeader req) ''Authorization'') (rAuth s) = (a, r)"
    by fastforce
  have ra: "run c au (s\<lparr>rAuth := a\<rparr>) ph" by (rule run_step [OF assms(1) step.credentials [OF k]])
  show ?thesis using assms(2) ra continues_callTarget [OF ra] unfolding authorizedTarget_def k
    by (auto simp: Let_def continues_def split: sum.splits if_splits httpTarget.splits)
qed

text \<open>A request keeps its slot exactly while it is a call, and is refused when none is left.\<close>

lemma serveHTTP_effect:
  assumes "run c au (hsRouter st) ph" "serveHTTP he req st = (st', out)"
  shows "continues c au ph (hsRouter st') out \<and> hsConnections st' = hsConnections st \<and> hsAnonymous st' = hsAnonymous st \<and>
    (case out of Replied w \<Rightarrow> hsInflight st' = hsInflight st
     | Talking k \<Rightarrow> hsInflight st' = hsInflight st + 1 \<and> hsInflight st' \<le> cHTTPMaxInflight (rConfig (hsRouter st)))"
proof -
  obtain w go where co: "cors (rConfig (hsRouter st)) req newResponse = (w, go)" by fastforce
  show ?thesis
  proof (cases "go \<and> hsInflight st + 1 \<le> cHTTPMaxInflight (rConfig (hsRouter st)) \<and> (\<exists>t. routePath (heFits he) req w = Inr t)")
    case False
    then show ?thesis using assms by (auto simp: serveHTTP_def co continues_def split: bool.splits sum.splits if_splits)
  next
    case True
    then obtain t where t: "routePath (heFits he) req w = Inr t" by blast
    obtain s out' where a: "authorizedTarget he t req w (hsRouter st) = (s, out')" by fastforce
    have "continues c au ph s out'" by (rule continues_authorizedTarget [OF assms(1) a])
    then show ?thesis using assms(2) True t a by (cases out') (auto simp: serveHTTP_def co)
  qed
qed

section \<open>The invariant\<close>

definition serverInv :: "config \<Rightarrow> auth option \<Rightarrow> server \<Rightarrow> bool" where
  "serverInv c au v \<longleftrightarrow> run c au (hsRouter (svState v)) (svPhase v) \<and>
     (\<forall>k \<in> set (svCalls v). svPhase v (hcPeer k) = Some Virtual) \<and> distinct (map hcPeer (svCalls v)) \<and>
     hsInflight (svState v) = int (length (svCalls v)) \<and> hsInflight (svState v) \<le> max 0 (cHTTPMaxInflight c) \<and>
     hsConnections (svState v) = int (length (svConns v)) \<and> hsConnections (svState v) \<le> max 0 (cMaxConnections c) \<and>
     hsAnonymous (svState v) = int (length (filter isAnonymous (svConns v))) \<and> hsAnonymous (svState v) \<le> max 0 (cMaxAnonymousConnections c)"

lemma run_config: "run c au s ph \<Longrightarrow> rConfig s = c"
  using run_good by (simp add: good_def)

lemma handleHead_effect:
  assumes "run c au (hsRouter st) ph" "handleHead he req st = (st', adm)"
  shows "case adm of
      Refused w \<Rightarrow> run c au (hsRouter st') ph \<and> hsInflight st' = hsInflight st \<and> hsConnections st' = hsConnections st \<and> hsAnonymous st' = hsAnonymous st
    | Served out \<Rightarrow> continues c au ph (hsRouter st') out \<and> hsConnections st' = hsConnections st \<and> hsAnonymous st' = hsAnonymous st \<and>
        (case out of Replied w \<Rightarrow> hsInflight st' = hsInflight st
         | Talking k \<Rightarrow> hsInflight st' = hsInflight st + 1 \<and> hsInflight st' \<le> cHTTPMaxInflight c)
    | Upgraded u \<Rightarrow> run c au (hsRouter st') ph \<and> hsInflight st' = hsInflight st \<and>
        hsConnections st' = hsConnections st + 1 \<and> hsConnections st' \<le> cMaxConnections c \<and>
        hsAnonymous st' = hsAnonymous st + (if isAnonymous u then 1 else 0) \<and> (isAnonymous u \<longrightarrow> hsAnonymous st' \<le> cMaxAnonymousConnections c)"
proof -
  note cfg = run_config [OF assms(1)]
  obtain a r where k: "checkAuth (eSha256 (heEnv he)) (hePbkdf2 he) (eNow (heEnv he)) (headerGet (rqHeader req) ''Authorization'') (rAuth (hsRouter st)) = (a, r)"
    by fastforce
  have ra: "run c au (hsRouter st\<lparr>rAuth := a\<rparr>) ph" by (rule run_step [OF assms(1) step.credentials [OF k]])
  have au: "authenticate he req (rAuth (hsRouter st)) newResponse = (a, case r of Inr u \<Rightarrow> Inr u
      | Inl failure \<Rightarrow> Inl (httpErrorText (afMessage failure) (nat (afStatus failure))
         (if afChallenge failure then setHeader ''WWW-Authenticate'' authChallenge newResponse else newResponse)))"
    by (simp add: authenticate_def k split: sum.split)
  obtain st1 out where sv: "serveHTTP he req st = (st1, out)" by fastforce
  note se = serveHTTP_effect [OF assms(1) sv]
  show ?thesis
  proof (cases adm)
    case (Served o')
    then have "st' = st1" "o' = out" using assms(2) sv unfolding handleHead_def Let_def au by (auto split: if_splits sum.splits)
    then show ?thesis using se cfg Served by (cases out) simp_all
  next
    case (Refused w)
    then show ?thesis using assms ra unfolding handleHead_def Let_def au sv by (auto split: if_splits sum.splits)
  next
    case (Upgraded u)
    then show ?thesis using assms ra cfg unfolding handleHead_def Let_def au sv by (auto split: if_splits sum.splits)
  qed
qed

lemma serverInv_new: "serverInv c au (newServer c au)"
  by (simp add: serverInv_def newServer_def run_start)

lemma serverInvD:
  assumes "serverInv c au v"
  shows "run c au (hsRouter (svState v)) (svPhase v)" "k \<in> set (svCalls v) \<Longrightarrow> svPhase v (hcPeer k) = Some Virtual"
    "distinct (map hcPeer (svCalls v))"
  using assms by (auto simp: serverInv_def)

text \<open>A handler's transition replaces its call by one of the same connection and keeps the counters.\<close>

lemma serverInv_call:
  assumes "serverInv c au v" "i < length (svCalls v)" "run c au s (svPhase v)" "hcPeer k = hcPeer (svCalls v ! i)"
  shows "serverInv c au (withRouter s (v\<lparr>svCalls := (svCalls v)[i := k]\<rparr>))"
proof -
  have m: "map hcPeer ((svCalls v)[i := k]) = map hcPeer (svCalls v)" using assms(2,4) by (simp add: map_update list_update_same_conv)
  have "\<forall>x \<in> set ((svCalls v)[i := k]). svPhase v (hcPeer x) = Some Virtual"
  proof
    fix x
    assume "x \<in> set ((svCalls v)[i := k])"
    then have "hcPeer x \<in> set (map hcPeer ((svCalls v)[i := k]))" by simp
    then show "svPhase v (hcPeer x) = Some Virtual" unfolding m using serverInvD(2) [OF assms(1)] by auto
  qed
  then show ?thesis using assms(1,3) m by (simp add: serverInv_def withRouter_def)
qed

lemma serverInv_step:
  assumes "serverStep v v'" "serverInv c au v"
  shows "serverInv c au v'"
  using assms
proof (cases rule: serverStep.cases)
  case (answered he req st w)
  note i = serverInvD [OF assms(2)]
  have "run c au (hsRouter st) (svPhase v) \<and> hsInflight st = hsInflight (svState v) \<and> hsConnections st = hsConnections (svState v) \<and>
      hsAnonymous st = hsAnonymous (svState v)"
    using answered(2)
  proof
    assume "handleHead he req (svState v) = (st, Refused w)"
    from handleHead_effect [OF i(1) this] show ?thesis by simp
  next
    assume "handleHead he req (svState v) = (st, Served (Replied w))"
    from handleHead_effect [OF i(1) this] show ?thesis by (simp add: continues_def)
  qed
  then show ?thesis using assms(2) unfolding answered(1) serverInv_def by simp
next
  case (called he req st k)
  note i = serverInvD [OF assms(2)]
  have e: "svPhase v (hcPeer k) = None" "run c au (hsRouter st) ((svPhase v)(hcPeer k \<mapsto> Virtual))"
    "hsConnections st = hsConnections (svState v)" "hsAnonymous st = hsAnonymous (svState v)"
    "hsInflight st = hsInflight (svState v) + 1" "hsInflight st \<le> cHTTPMaxInflight c"
    using handleHead_effect [OF i(1) called(2)] by (simp_all add: continues_def)
  have "hcPeer k \<notin> set (map hcPeer (svCalls v))" using e(1) i(2) by auto
  moreover have "\<forall>x \<in> set (svCalls v @ [k]). ((svPhase v)(hcPeer k \<mapsto> Virtual)) (hcPeer x) = Some Virtual" using i(2) by simp
  ultimately show ?thesis using e(2-6) assms(2) unfolding called(1) serverInv_def by simp
next
  case (upgraded he req st u)
  note i = serverInvD [OF assms(2)]
  from handleHead_effect [OF i(1) upgraded(2)]
  have "run c au (hsRouter st) (svPhase v)" "hsInflight st = hsInflight (svState v)" "hsConnections st = hsConnections (svState v) + 1"
    "hsConnections st \<le> cMaxConnections c" "hsAnonymous st = hsAnonymous (svState v) + (if isAnonymous u then 1 else 0)"
    "isAnonymous u \<longrightarrow> hsAnonymous st \<le> cMaxAnonymousConnections c" by (cases "isAnonymous u"; simp)+
  then show ?thesis using assms(2) unfolding upgraded(1) serverInv_def by (cases "isAnonymous u"; simp)
next
  case (dropped u)
  have l: "int (length (remove1 u (svConns v))) = int (length (svConns v)) - 1"
    using dropped(2) length_pos_if_in_set [OF dropped(2)] by (simp add: length_remove1 of_nat_diff Suc_le_eq)
  have a: "int (length (filter isAnonymous (remove1 u (svConns v)))) = int (length (filter isAnonymous (svConns v))) - (if isAnonymous u then 1 else 0)"
  proof (cases "isAnonymous u")
    case True
    then have m: "u \<in> set (filter isAnonymous (svConns v))" using dropped(2) by simp
    from length_pos_if_in_set [OF m] m show ?thesis using True by (simp add: filter_remove1 length_remove1 of_nat_diff Suc_le_eq)
  next
    case False
    then have "u \<notin> set (filter isAnonymous (svConns v))" by simp
    then show ?thesis using False by (simp add: filter_remove1 remove1_idem)
  qed
  show ?thesis using assms(2) unfolding dropped(1) serverInv_def releaseSlots_def by (simp add: l a)
next
  case (frame i he s k)
  note d = serverInvD [OF assms(2)]
  have "svPhase v (hcPeer (svCalls v ! i)) = Some Virtual" using d(2) frame(2) by simp
  from run_takeFrame [OF d(1) this frame(3)] show ?thesis unfolding frame(1) using serverInv_call [OF assms(2) frame(2)] by blast
next
  case (line i he s k)
  note d = serverInvD [OF assms(2)]
  have "svPhase v (hcPeer (svCalls v ! i)) = Some Virtual" using d(2) line(2) by simp
  from run_takeLine [OF d(1) this line(3)] show ?thesis unfolding line(1) using serverInv_call [OF assms(2) line(2)] by blast
next
  case (gone i)
  have "v' = withRouter (hsRouter (svState v)) (v\<lparr>svCalls := (svCalls v)[i := goneCall (svCalls v ! i)]\<rparr>)" unfolding gone(1) by (simp add: withRouter_def)
  then show ?thesis using serverInv_call [OF assms(2) gone(2) serverInvD(1) [OF assms(2)] hcPeer_conv(7)] by simp
next
  case (released xs k ys e)
  note d = serverInvD [OF assms(2)]
  have k: "svPhase v (hcPeer k) = Some Virtual" using d(2) released(2) by simp
  have "run c au (disconnect e (hcPeer k) (hsRouter (svState v))) ((svPhase v)(hcPeer k := None))"
    by (rule run_step [OF d(1) step.leave]) (simp add: k)
  moreover have "\<forall>x \<in> set (xs @ ys). ((svPhase v)(hcPeer k := None)) (hcPeer x) = Some Virtual"
  proof
    fix x
    assume x: "x \<in> set (xs @ ys)"
    have "hcPeer k \<notin> hcPeer ` set (xs @ ys)" using d(3) released(2) by auto
    then have "hcPeer x \<noteq> hcPeer k" using x by (metis image_eqI)
    then show "((svPhase v)(hcPeer k := None)) (hcPeer x) = Some Virtual" using d(2) [of x] x released(2) by simp
  qed
  moreover have "distinct (map hcPeer (xs @ ys))" using d(3) released(2) by simp
  moreover have "int (length (svCalls v)) = int (length (xs @ ys)) + 1" using released(2) by simp
  ultimately show ?thesis using assms(2) unfolding released(1) serverInv_def releaseCall_def by simp
next
  case (others s ph)
  show ?thesis using assms(2) run_step [OF serverInvD(1) [OF assms(2)] others(2)] others(3) unfolding others(1) serverInv_def withRouter_def by simp
qed


text \<open>A Router without accounts admits an upgrade.\<close>

definition upgradeRequest :: request where
  "upgradeRequest = \<lparr>rqMethod = ''GET'', rqPath = ''/'', rqHeader = [], rqBody = \<lparr>bdData = [], bdErr = None\<rparr>\<rparr>"

lemma upgrade_admitted:
  "handleHead sampleHttpEnv upgradeRequest (svState (newServer demoConfig None)) =
     ((svState (newServer demoConfig None))\<lparr>hsConnections := 1\<rparr>, Upgraded None)"
  by (simp add: handleHead_def upgradeRequest_def newServer_def newRouter_def demoConfig_def withDefaults_def dflt_def zeroConfig_def
      hasPrefix_def authenticate_def checkAuth_def isAnonymous_def)


end
