(* ===== verification/Runtime.thy ===== *)
theory Runtime
  imports Contract
begin

text \<open>
  The base of the Go runtime (\<^verbatim>\<open>meshcall-go\<close>), which clients and servers share: its error values
  (\<^verbatim>\<open>errors.go\<close>), its frames (\<^verbatim>\<open>frame.go\<close>), the credit window of a stream's producer and the reconnect
  policy (\<^verbatim>\<open>runtime.go\<close>), and one connection (\<^verbatim>\<open>transport.go\<close>).

  \<^item> A Go \<^verbatim>\<open>error\<close> is a value of \<open>goerr\<close>, the nil error is \<open>None\<close> in an option.  \<^verbatim>\<open>errors.As\<close> and \<^verbatim>\<open>errors.Is\<close>
    look through wrapped errors.
  \<^item> A \<^verbatim>\<open>map[string]any\<close> is an association list of \<open>json\<close> values, the nil map is \<open>None\<close>; numbers keep
    their literal.
  \<^item> An operation that can wait returns \<open>Blocked\<close> when it waits: that is one pass of its loop, and the
    loop runs again when the state it waits on changes.  \<open>Panics\<close> is a nil dereference.
  \<^item> The WebSocket library is outside the sources.  A connection keeps what was written to it, and the
    flag \<open>cnWritable\<close>, which the environment may clear at any moment, says whether a write succeeds.
\<close>

section \<open>Errors\<close>

record rerror =
  reCode :: string
  reMessage :: string
  reRetryable :: bool
  reDetails :: "(string, json) gomap option"

record wireError =
  weCode :: string
  weMessage :: string
  weRetryable :: bool
  weDetails :: "(string, json) gomap option"

datatype goerr =
    MeshErr rerror
  | CanceledErr                \<comment> \<open>\<^verbatim>\<open>context.Canceled\<close>\<close>
  | DeadlineErr                \<comment> \<open>\<^verbatim>\<open>context.DeadlineExceeded\<close>\<close>
  | EofErr                     \<comment> \<open>\<^verbatim>\<open>io.EOF\<close>\<close>
  | TooLargeErr string         \<comment> \<open>wraps \<^verbatim>\<open>errFrameTooLarge\<close>; the whole text\<close>
  | PlainErr string
  | WrapErr string goerr

definition CodeCancelled :: string where "CodeCancelled = ''cancelled''"
definition CodeDeadlineExceeded :: string where "CodeDeadlineExceeded = ''deadline_exceeded''"
definition CodeInvalidArgument :: string where "CodeInvalidArgument = ''invalid_argument''"
definition CodeMethodNotFound :: string where "CodeMethodNotFound = ''method_not_found''"
definition CodeResourceExhausted :: string where "CodeResourceExhausted = ''resource_exhausted''"
definition CodeUnavailable :: string where "CodeUnavailable = ''unavailable''"
definition CodeProtocolError :: string where "CodeProtocolError = ''protocol_error''"
definition CodeInternal :: string where "CodeInternal = ''internal''"

lemmas codes = CodeCancelled_def CodeDeadlineExceeded_def CodeInvalidArgument_def CodeMethodNotFound_def
  CodeResourceExhausted_def CodeUnavailable_def CodeProtocolError_def CodeInternal_def

text \<open>\<^verbatim>\<open>&Error{Code: \<dots>, Message: \<dots>}\<close>, the other fields zero.\<close>

definition newError :: "string \<Rightarrow> string \<Rightarrow> rerror" where
  "newError code message = \<lparr>reCode = code, reMessage = message, reRetryable = False, reDetails = None\<rparr>"

text \<open>\<^verbatim>\<open>Error.Error\<close>.\<close>

definition errorText :: "rerror \<Rightarrow> string" where
  "errorText e = (if reMessage e = [] then reCode e else reCode e @ '': '' @ reMessage e)"

text \<open>The method \<^verbatim>\<open>Error\<close> of any error.\<close>

fun goerrText :: "goerr \<Rightarrow> string" where
  "goerrText (MeshErr e) = errorText e"
| "goerrText CanceledErr = ''context canceled''"
| "goerrText DeadlineErr = ''context deadline exceeded''"
| "goerrText EofErr = ''EOF''"
| "goerrText (TooLargeErr t) = t"
| "goerrText (PlainErr t) = t"
| "goerrText (WrapErr t _) = t"

definition Reason :: "rerror \<Rightarrow> string" where
  "Reason e = (case reDetails e of
      None \<Rightarrow> []
    | Some d \<Rightarrow> (case map_of d ''reason'' of Some (JStr r) \<Rightarrow> r | _ \<Rightarrow> []))"

fun AsError :: "goerr \<Rightarrow> rerror option" where
  "AsError (MeshErr e) = Some e"
| "AsError (WrapErr _ err) = AsError err"
| "AsError _ = None"

fun isCause :: "goerr \<Rightarrow> goerr \<Rightarrow> bool" where
  "isCause t (WrapErr m err) \<longleftrightarrow> WrapErr m err = t \<or> isCause t err"
| "isCause t err \<longleftrightarrow> err = t"

definition IsCode :: "goerr option \<Rightarrow> string \<Rightarrow> bool" where
  "IsCode err code = (case err of None \<Rightarrow> False
    | Some x \<Rightarrow> (case AsError x of Some e \<Rightarrow> reCode e = code | None \<Rightarrow> False))"

definition wirePayload :: "rerror \<Rightarrow> wireError" where
  "wirePayload e = \<lparr>weCode = reCode e, weMessage = reMessage e, weRetryable = reRetryable e, weDetails = reDetails e\<rparr>"

definition errorFromPayload :: "wireError \<Rightarrow> rerror" where
  "errorFromPayload p = \<lparr>reCode = weCode p, reMessage = weMessage p, reRetryable = weRetryable p, reDetails = weDetails p\<rparr>"

definition detailed :: "string \<Rightarrow> string \<Rightarrow> string \<Rightarrow> string \<Rightarrow> bool \<Rightarrow> rerror" where
  "detailed code message source reason retryable =
     \<lparr>reCode = code, reMessage = message, reRetryable = retryable,
      reDetails = Some ([(''source'', JStr source)] @ (if reason \<noteq> [] then [(''reason'', JStr reason)] else []))\<rparr>"

fun tooLargeText :: "goerr \<Rightarrow> string option" where
  "tooLargeText (TooLargeErr t) = Some t"
| "tooLargeText (WrapErr m err) = (case tooLargeText err of None \<Rightarrow> None | Some _ \<Rightarrow> Some m)"
| "tooLargeText _ = None"

definition frameTooLarge :: "string \<Rightarrow> goerr option \<Rightarrow> rerror option" where
  "frameTooLarge source err = (case err of None \<Rightarrow> None
    | Some x \<Rightarrow> map_option (\<lambda>t. detailed CodeResourceExhausted (''Not sent: '' @ t) source ''frame_too_large'' False) (tooLargeText x))"

definition errorString :: "goerr option \<Rightarrow> string" where
  "errorString err = (case err of None \<Rightarrow> ''ok''
    | Some x \<Rightarrow> (case AsError x of Some e \<Rightarrow> reCode e | None \<Rightarrow> CodeInternal))"

section \<open>Frames\<close>

text \<open>A registration on the wire has the fields the Router reads (\<open>service\<close>, \<open>meth\<close>, \<open>balance\<close>).\<close>

type_synonym wireService = service
type_synonym methodShape = meth

record rframe =
  gKind :: string
  gCallID :: string
  gProtocol :: string
  gRole :: string
  gPeerID :: string
  gConnection :: string
  gInstanceID :: string
  gServices :: "wireService list"
  gMaxInflight :: int
  gService :: string
  gMethod :: string
  gPayload :: "string option"
  gTimeoutMS :: "int option"
  gIdempotency :: string
  gIdleTimeout :: "int option"
  gMetadata :: "(string, string) gomap option"
  gError :: "wireError option"
  gReason :: string
  gDirection :: string
  gSequence :: "int option"
  gCredit :: "int option"
  gNonce :: string

definition zeroRFrame :: rframe where
  "zeroRFrame = \<lparr>gKind = [], gCallID = [], gProtocol = [], gRole = [], gPeerID = [], gConnection = [], gInstanceID = [],
     gServices = [], gMaxInflight = 0, gService = [], gMethod = [], gPayload = None, gTimeoutMS = None, gIdempotency = [],
     gIdleTimeout = None, gMetadata = None, gError = None, gReason = [], gDirection = [], gSequence = None,
     gCredit = None, gNonce = []\<rparr>"

definition knownKinds :: "string list" where
  "knownKinds = [''hello'', ''hello.ack'', ''server.register'', ''server.register.ack'', ''server.drain'', ''server.drain.ack'',
     ''call.open'', ''call.result'', ''call.error'', ''call.cancel'', ''stream.item'', ''stream.end'', ''stream.window'', ''ping'', ''pong'']"

text \<open>\<^verbatim>\<open>json.Unmarshal\<close> into a \<^verbatim>\<open>map[string]string\<close> and a \<^verbatim>\<open>map[string]any\<close>: members are added to the map
  the field already has, \<open>null\<close> is the nil map, and a value of the wrong type is a remembered error.\<close>

definition stringMapVal :: "json \<Rightarrow> (string, string) gomap option \<Rightarrow> (string, string) gomap option \<times> bool" where
  "stringMapVal v old = (case v of
      JNull \<Rightarrow> (None, True)
    | JObj ms \<Rightarrow>
        (Some (fold (\<lambda>(k, x) m. case x of JStr s \<Rightarrow> AList.update k s m | JNull \<Rightarrow> AList.update k [] m | _ \<Rightarrow> m) ms
           (case old of Some m \<Rightarrow> m | None \<Rightarrow> [])),
         list_all (\<lambda>(k, x). case x of JStr _ \<Rightarrow> True | JNull \<Rightarrow> True | _ \<Rightarrow> False) ms)
    | _ \<Rightarrow> (old, False))"

definition anyMapVal :: "json \<Rightarrow> (string, json) gomap option \<Rightarrow> (string, json) gomap option \<times> bool" where
  "anyMapVal v old = (case v of
      JNull \<Rightarrow> (None, True)
    | JObj ms \<Rightarrow> (Some (fold (\<lambda>(k, x) m. AList.update k x m) ms (case old of Some m \<Rightarrow> m | None \<Rightarrow> [])), True)
    | _ \<Rightarrow> (old, False))"

definition zeroWireError :: wireError where
  "zeroWireError = \<lparr>weCode = [], weMessage = [], weRetryable = False, weDetails = None\<rparr>"

definition wireErrorFields :: "(string \<times> wireError setter) list" where
  "wireErrorFields =
    [(''code'', \<lambda>raw v x. map_prod (\<lambda>y. x\<lparr>weCode := y\<rparr>) id (strVal v (weCode x))),
     (''message'', \<lambda>raw v x. map_prod (\<lambda>y. x\<lparr>weMessage := y\<rparr>) id (strVal v (weMessage x))),
     (''retryable'', \<lambda>raw v x. map_prod (\<lambda>y. x\<lparr>weRetryable := y\<rparr>) id (boolVal v (weRetryable x))),
     (''details'', \<lambda>raw v x. map_prod (\<lambda>y. x\<lparr>weDetails := y\<rparr>) id (anyMapVal v (weDetails x)))]"

definition wireErrorPtr :: "string \<Rightarrow> json \<Rightarrow> wireError option \<Rightarrow> wireError option \<times> bool" where
  "wireErrorPtr raw v old = (case v of
      JNull \<Rightarrow> (None, True)
    | _ \<Rightarrow> map_prod Some id (structVal wireErrorFields raw v (case old of Some e \<Rightarrow> e | None \<Rightarrow> zeroWireError)))"

definition rframeFields :: "(string \<times> rframe setter) list" where
  "rframeFields =
    [(''kind'', \<lambda>raw v x. map_prod (\<lambda>y. x\<lparr>gKind := y\<rparr>) id (strVal v (gKind x))),
     (''call_id'', \<lambda>raw v x. map_prod (\<lambda>y. x\<lparr>gCallID := y\<rparr>) id (strVal v (gCallID x))),
     (''protocol'', \<lambda>raw v x. map_prod (\<lambda>y. x\<lparr>gProtocol := y\<rparr>) id (strVal v (gProtocol x))),
     (''role'', \<lambda>raw v x. map_prod (\<lambda>y. x\<lparr>gRole := y\<rparr>) id (strVal v (gRole x))),
     (''peer_id'', \<lambda>raw v x. map_prod (\<lambda>y. x\<lparr>gPeerID := y\<rparr>) id (strVal v (gPeerID x))),
     (''connection_id'', \<lambda>raw v x. map_prod (\<lambda>y. x\<lparr>gConnection := y\<rparr>) id (strVal v (gConnection x))),
     (''instance_id'', \<lambda>raw v x. map_prod (\<lambda>y. x\<lparr>gInstanceID := y\<rparr>) id (strVal v (gInstanceID x))),
     (''services'', \<lambda>raw v x. map_prod (\<lambda>y. x\<lparr>gServices := case_option [] id y\<rparr>) id
        (sliceVal (\<lambda>r w. structVal serviceFields r w zeroService) raw v (Some (gServices x)))),
     (''max_inflight'', \<lambda>raw v x. map_prod (\<lambda>y. x\<lparr>gMaxInflight := y\<rparr>) id (intVal v (gMaxInflight x))),
     (''service'', \<lambda>raw v x. map_prod (\<lambda>y. x\<lparr>gService := y\<rparr>) id (strVal v (gService x))),
     (''method'', \<lambda>raw v x. map_prod (\<lambda>y. x\<lparr>gMethod := y\<rparr>) id (strVal v (gMethod x))),
     (''payload'', \<lambda>raw v x. (x\<lparr>gPayload := Some raw\<rparr>, True)),
     (''timeout_ms'', \<lambda>raw v x. map_prod (\<lambda>y. x\<lparr>gTimeoutMS := y\<rparr>) id (optIntVal v (gTimeoutMS x))),
     (''idempotency_key'', \<lambda>raw v x. map_prod (\<lambda>y. x\<lparr>gIdempotency := y\<rparr>) id (strVal v (gIdempotency x))),
     (''idle_timeout_ms'', \<lambda>raw v x. map_prod (\<lambda>y. x\<lparr>gIdleTimeout := y\<rparr>) id (optIntVal v (gIdleTimeout x))),
     (''metadata'', \<lambda>raw v x. map_prod (\<lambda>y. x\<lparr>gMetadata := y\<rparr>) id (stringMapVal v (gMetadata x))),
     (''error'', \<lambda>raw v x. map_prod (\<lambda>y. x\<lparr>gError := y\<rparr>) id (wireErrorPtr raw v (gError x))),
     (''reason'', \<lambda>raw v x. map_prod (\<lambda>y. x\<lparr>gReason := y\<rparr>) id (strVal v (gReason x))),
     (''direction'', \<lambda>raw v x. map_prod (\<lambda>y. x\<lparr>gDirection := y\<rparr>) id (strVal v (gDirection x))),
     (''sequence'', \<lambda>raw v x. map_prod (\<lambda>y. x\<lparr>gSequence := y\<rparr>) id (optIntVal v (gSequence x))),
     (''credit'', \<lambda>raw v x. map_prod (\<lambda>y. x\<lparr>gCredit := y\<rparr>) id (optIntVal v (gCredit x))),
     (''nonce'', \<lambda>raw v x. map_prod (\<lambda>y. x\<lparr>gNonce := y\<rparr>) id (strVal v (gNonce x)))]"

definition decodeFrame :: "string \<Rightarrow> rframe \<times> goerr option" where
  "decodeFrame data = (case unmarshalAny data of
      None \<Rightarrow> (zeroRFrame, Some (PlainErr ''invalid frame''))
    | Some v \<Rightarrow> (case structVal rframeFields data v zeroRFrame of (f, ok) \<Rightarrow>
        if \<not> ok then (f, Some (PlainErr ''invalid frame''))
        else if \<not> List.member knownKinds (gKind f) then (f, Some (PlainErr (''unknown frame kind '' @ gKind f)))
        else (f, None)))"

text \<open>\<^verbatim>\<open>json.Marshal\<close> of a frame.  Map keys are written sorted; a raw message that is not JSON is an error.\<close>

fun sortedJson :: "json \<Rightarrow> json" where
  "sortedJson (JObj ms) = JObj (sort_key fst (map (\<lambda>(k, v). (k, sortedJson v)) ms))"
| "sortedJson (JArr vs) = JArr (map sortedJson vs)"
| "sortedJson v = v"

definition marshalShape :: "methodShape \<Rightarrow> string" where
  "marshalShape m = marshalObject
     [(''name'', Some (jsonQuote (mName m))), (''stream'', Some (jsonQuote (mStream m))),
      (''balance'', Some (marshalObject [(''kind'', Some (jsonQuote (bKind (mBalance m)))),
         (''key'', Some (case bKey (mBalance m) of None \<Rightarrow> ''null'' | Some k \<Rightarrow> jsonQuote k))]))]"

definition marshalRegistration :: "wireService \<Rightarrow> string" where
  "marshalRegistration s = marshalObject
     [(''name'', Some (jsonQuote (sName s))),
      (''methods'', Some (if sMethods s = [] then ''null'' else marshalArray (map marshalShape (sMethods s)))),
      (''targeted'', if sTargeted s then Some ''true'' else None), (''contract'', omitRaw (sContract s))]"

definition marshalWireError :: "wireError \<Rightarrow> string" where
  "marshalWireError e = marshalObject
     [(''code'', Some (jsonQuote (weCode e))), (''message'', Some (jsonQuote (weMessage e))),
      (''retryable'', if weRetryable e then Some ''true'' else None),
      (''details'', case weDetails e of None \<Rightarrow> None | Some [] \<Rightarrow> None | Some d \<Rightarrow> Some (encodeJson (sortedJson (JObj d))))]"

definition rawOk :: "string option \<Rightarrow> bool" where
  "rawOk r = (case r of None \<Rightarrow> True | Some s \<Rightarrow> s = [] \<or> jsonValid s)"

definition marshalRFrame :: "rframe \<Rightarrow> string option" where
  "marshalRFrame f =
     (if \<not> rawOk (gPayload f) \<or> \<not> list_all (\<lambda>s. rawOk (sContract s)) (gServices f) then None
      else Some (marshalObject
     [(''kind'', Some (jsonQuote (gKind f))), (''call_id'', omitStr (gCallID f)), (''protocol'', omitStr (gProtocol f)),
      (''role'', omitStr (gRole f)), (''peer_id'', omitStr (gPeerID f)), (''connection_id'', omitStr (gConnection f)),
      (''instance_id'', omitStr (gInstanceID f)),
      (''services'', if gServices f = [] then None else Some (marshalArray (map marshalRegistration (gServices f)))),
      (''max_inflight'', if gMaxInflight f = 0 then None else Some (itoa (gMaxInflight f))),
      (''service'', omitStr (gService f)), (''method'', omitStr (gMethod f)), (''payload'', omitRaw (gPayload f)),
      (''timeout_ms'', map_option itoa (gTimeoutMS f)), (''idempotency_key'', omitStr (gIdempotency f)),
      (''idle_timeout_ms'', map_option itoa (gIdleTimeout f)),
      (''metadata'', case gMetadata f of None \<Rightarrow> None | Some [] \<Rightarrow> None | Some m \<Rightarrow> Some (marshalStringMap m)),
      (''error'', map_option marshalWireError (gError f)), (''reason'', omitStr (gReason f)),
      (''direction'', omitStr (gDirection f)), (''sequence'', map_option itoa (gSequence f)),
      (''credit'', map_option itoa (gCredit f)), (''nonce'', omitStr (gNonce f))]))"

section \<open>Waiting, contexts and credit\<close>

datatype 'a wait = Blocked | Panics | Ready 'a

definition initialStreamCredit :: int where "initialStreamCredit = 16"

record creditWindow =
  cwN :: int
  cwClosed :: "goerr option"

definition newCreditWindow :: creditWindow where
  "newCreditWindow = \<lparr>cwN = 0, cwClosed = None\<rparr>"

definition grantCredit :: "int \<Rightarrow> creditWindow \<Rightarrow> creditWindow" where
  "grantCredit n w = w\<lparr>cwN := wrap64 (cwN w + n)\<rparr>"

definition closeCredit :: "goerr \<Rightarrow> creditWindow \<Rightarrow> creditWindow" where
  "closeCredit err w = (if cwClosed w = None then w\<lparr>cwClosed := Some err\<rparr> else w)"

text \<open>One pass of \<^verbatim>\<open>acquire\<close>; \<open>done\<close> is the cause of the context when it has ended.\<close>

definition acquire :: "goerr option \<Rightarrow> creditWindow \<Rightarrow> creditWindow \<times> goerr option wait" where
  "acquire done w = (case cwClosed w of
      Some err \<Rightarrow> (w, Ready (Some err))
    | None \<Rightarrow>
        if cwN w > 0 then (w\<lparr>cwN := cwN w - 1\<rparr>, Ready None)
        else (case done of Some cause \<Rightarrow> (w, Ready (Some cause)) | None \<Rightarrow> (w, Blocked)))"

section \<open>Connections\<close>

definition DefaultPingInterval :: time where "DefaultPingInterval = 15 * second"
definition DefaultPingTimeout :: time where "DefaultPingTimeout = 10 * second"
definition DefaultIdleTimeout :: time where "DefaultIdleTimeout = 45 * second"
definition DefaultMaxFrameSize :: int where "DefaultMaxFrameSize = 64 * 1048576"

record conn =
  cnOpen :: bool                 \<comment> \<open>its context has not been cancelled\<close>
  cnWritable :: bool
  cnMaxFrame :: int
  cnLastSeen :: time
  cnPongs :: "string list"       \<comment> \<open>nonces of the pings waiting for their pong\<close>
  cnReplies :: "rframe list"     \<comment> \<open>pongs handed to goroutines\<close>
  cnWritten :: "rframe list"

definition newConn :: "int \<Rightarrow> time \<Rightarrow> conn" where
  "newConn maxFrame now = \<lparr>cnOpen = True, cnWritable = True, cnMaxFrame = maxFrame, cnLastSeen = now, cnPongs = [],
     cnReplies = [], cnWritten = []\<rparr>"

definition tooLargeMessage :: "string \<Rightarrow> int \<Rightarrow> int \<Rightarrow> string" where
  "tooLargeMessage kind bytes limit =
     ''frame over the size limit: '' @ kind @ '' is '' @ itoa bytes @ '' bytes, limit '' @ itoa limit"

definition connSend :: "rframe \<Rightarrow> conn \<Rightarrow> conn \<times> goerr option" where
  "connSend f c = (case marshalRFrame f of
      None \<Rightarrow> (c, Some (PlainErr ''json: error calling MarshalJSON''))
    | Some data \<Rightarrow>
        if int (length data) > cnMaxFrame c
        then (c, Some (TooLargeErr (tooLargeMessage (gKind f) (int (length data)) (cnMaxFrame c))))
        else if cnOpen c \<and> cnWritable c then (c\<lparr>cnWritten := cnWritten c @ [f]\<rparr>, None)
        else (c, Some (PlainErr ''failed to write'')))"

definition connClose :: "conn \<Rightarrow> conn" where
  "connClose c = c\<lparr>cnOpen := False\<rparr>"

text \<open>One pass of \<^verbatim>\<open>receive\<close>: \<open>read\<close> is what \<^verbatim>\<open>ws.Read\<close> returned, \<open>None\<close> is its error.  \<open>Blocked\<close> is the
  \<^verbatim>\<open>continue\<close> after a ping or a pong.\<close>

definition connReceive :: "time \<Rightarrow> string option \<Rightarrow> conn \<Rightarrow> conn \<times> (goerr + rframe) wait" where
  "connReceive now read c = (case read of
      None \<Rightarrow> (connClose c, Ready (Inl (PlainErr ''failed to read'')))
    | Some data \<Rightarrow>
        (let c1 = c\<lparr>cnLastSeen := now\<rparr> in
         case decodeFrame data of
           (f, Some err) \<Rightarrow> (c1, Ready (Inl err))
         | (f, None) \<Rightarrow>
             if gKind f = ''ping'' then (c1\<lparr>cnReplies := cnReplies c1 @ [zeroRFrame\<lparr>gKind := ''pong'', gNonce := gNonce f\<rparr>]\<rparr>, Blocked)
             else if gKind f = ''pong'' then (c1\<lparr>cnPongs := removeAll (gNonce f) (cnPongs c1)\<rparr>, Blocked)
             else (c1, Ready (Inr f))))"

text \<open>A goroutine that answers a ping.\<close>

definition sendReply :: "nat \<Rightarrow> conn \<Rightarrow> conn" where
  "sendReply i c = (if i < length (cnReplies c)
     then fst (connSend (cnReplies c ! i) (c\<lparr>cnReplies := take i (cnReplies c) @ drop (Suc i) (cnReplies c)\<rparr>)) else c)"

text \<open>One tick of \<^verbatim>\<open>keepAlive\<close> up to its wait for the pong, and the two ends of that wait that close or
  go on; the result says whether the goroutine goes on to wait.\<close>

definition keepAliveTick :: "time \<Rightarrow> time \<Rightarrow> string \<Rightarrow> conn \<Rightarrow> conn \<times> bool" where
  "keepAliveTick interval now nonce c =
     (if now - cnLastSeen c < interval then (c, False)
      else (case connSend (zeroRFrame\<lparr>gKind := ''ping'', gNonce := nonce\<rparr>) (c\<lparr>cnPongs := nonce # cnPongs c\<rparr>) of
          (c1, None) \<Rightarrow> (c1, True)
        | (c1, Some _) \<Rightarrow> (connClose c1, False)))"

definition pongTimeout :: "string \<Rightarrow> conn \<Rightarrow> conn" where
  "pongTimeout nonce c = (if nonce \<in> set (cnPongs c) then connClose (c\<lparr>cnPongs := removeAll nonce (cnPongs c)\<rparr>) else c)"

definition watchIdleTick :: "time \<Rightarrow> time \<Rightarrow> conn \<Rightarrow> conn" where
  "watchIdleTick timeout now c = (if now - cnLastSeen c > timeout then connClose c else c)"

text \<open>Endpoints.  The scheme picks the dialer; \<open>pipes\<close> is \<^verbatim>\<open>pipesSupported\<close>, true on Windows only.\<close>

datatype dialer = DialDefault | DialPipe string | DialUnix string

record endpoint =
  epUrl :: string
  epDial :: dialer
  epText :: string

definition pipePrefix :: string where
  "pipePrefix = [backslash, backslash, CHR ''.'', backslash] @ ''pipe'' @ [backslash]"

definition pipeName :: "string \<Rightarrow> string + string" where
  "pipeName name0 =
     (let name = trimPrefix name0 pipePrefix in
      if name = [] \<or> length name > 256 \<or> containsChar name backslash
      then Inl (''invalid pipe name '' @ name @ '': 1-256 characters, no backslash'') else Inr name)"

definition parseEndpoint :: "bool \<Rightarrow> string \<Rightarrow> string + endpoint" where
  "parseEndpoint pipes raw =
     (if hasPrefix raw ''pipe://'' then
        (if \<not> pipes then Inl ''named pipes are Windows-only; use a Unix socket (unix:///path)''
         else (case pipeName (trimPrefix raw ''pipe://'') of
             Inl e \<Rightarrow> Inl e
           | Inr name \<Rightarrow> Inr \<lparr>epUrl = ''ws://localhost/'', epDial = DialPipe name, epText = raw\<rparr>))
      else if hasPrefix raw ''unix://'' then
        (if pipes then Inl ''Unix sockets are not supported on Windows; use a named pipe (pipe://NAME)''
         else if trimPrefix raw ''unix://'' = [] then Inl ''unix:// needs a socket path, e.g. unix:///run/meshcall.sock''
         else Inr \<lparr>epUrl = ''ws://localhost/'', epDial = DialUnix (trimPrefix raw ''unix://''), epText = raw\<rparr>)
      else if hasPrefix raw ''ws://'' \<or> hasPrefix raw ''wss://'' then Inr \<lparr>epUrl = raw, epDial = DialDefault, epText = raw\<rparr>
      else Inl (''endpoint must be ws://, wss://, unix:///path or pipe://NAME, got '' @ raw))"

end
