(* ===== verification/Client_Call.thy ===== *)
theory Client_Call
  imports Runtime
begin

text \<open>
  One call of the Go client (\<^verbatim>\<open>meshcall-go/client.go\<close>, from \<^verbatim>\<open>type clientCall\<close> on) and the client state its
  operations touch: the table of calls in flight and the connections frames are written to.  Calls and
  connections are objects at addresses.  Each operation is one method with its mutex sections run
  together; the client's goroutines (the read loop, the consumer of a stream, timers, the caller's
  context) are interleavings of these operations.
\<close>

section \<open>State\<close>

record clientCall =
  ccConn :: addr
  ccId :: string
  ccStream :: string
  ccQueue :: "rframe list"
  ccFailure :: "goerr option"
  ccTerminal :: bool
  ccTrailers :: "(string, string) gomap option"
  ccInputCredit :: "creditWindow option"
  ccInputSeq :: int
  ccInputClosed :: bool
  ccOutputAllowance :: int
  ccExpectedSeq :: int
  ccOutputEnded :: bool
  ccTimer :: bool        \<comment> \<open>the deadline timer is running\<close>
  ccIdle :: time
  ccIdleTimer :: bool    \<comment> \<open>the idle timer is running\<close>
  ccStop :: bool         \<comment> \<open>the callback on the caller's context is registered\<close>

record clientState =
  csCursor :: nat
  csConn :: "addr option"
  csConnecting :: bool
  csEverConnected :: bool
  csClosed :: bool
  csCalls :: "(string, addr) gomap"
  csOnClose :: bool
  csCall :: "addr \<Rightarrow> clientCall"
  csConnObj :: "addr \<Rightarrow> conn"
  csNext :: addr         \<comment> \<open>the next free address\<close>

definition updCall :: "addr \<Rightarrow> (clientCall \<Rightarrow> clientCall) \<Rightarrow> clientState \<Rightarrow> clientState" where
  "updCall a g s = s\<lparr>csCall := (csCall s)(a := g (csCall s a))\<rparr>"

definition sendConn :: "addr \<Rightarrow> rframe \<Rightarrow> clientState \<Rightarrow> clientState \<times> goerr option" where
  "sendConn k f s = (case connSend f (csConnObj s k) of (c, err) \<Rightarrow> (s\<lparr>csConnObj := (csConnObj s)(k := c)\<rparr>, err))"

section \<open>Ending a call\<close>

definition doneCall :: "addr \<Rightarrow> clientState \<Rightarrow> clientState" where
  "doneCall a s =
     (let s1 = updCall a (\<lambda>c. c\<lparr>ccTimer := False, ccIdleTimer := False, ccStop := False,
          ccInputCredit := map_option (closeCredit (MeshErr (newError CodeCancelled ''Call is closed''))) (ccInputCredit c)\<rparr>) s;
          cid = ccId (csCall s a) in
      if map_of (csCalls s1) cid = Some a then s1\<lparr>csCalls := AList.delete cid (csCalls s1)\<rparr> else s1)"

definition failCall :: "addr \<Rightarrow> goerr \<Rightarrow> clientState \<Rightarrow> clientState" where
  "failCall a err s =
     (let c = csCall s a in
      if ccFailure c \<noteq> None \<or> (ccTerminal c \<and> length (ccQueue c) > 0) then s
      else doneCall a (updCall a (\<lambda>c. c\<lparr>ccFailure := Some err, ccTerminal := True\<rparr>) s))"

definition cancelFor :: "string \<Rightarrow> string \<Rightarrow> rframe" where
  "cancelFor cid reason = zeroRFrame\<lparr>gKind := ''call.cancel'', gCallID := cid, gReason := reason\<rparr>"

definition abortCall :: "addr \<Rightarrow> goerr \<Rightarrow> string \<Rightarrow> clientState \<Rightarrow> clientState" where
  "abortCall a err reason s =
     (let c = csCall s a in
      if ccTerminal c then s
      else fst (sendConn (ccConn c) (cancelFor (ccId c) reason) (failCall a err s)))"

section \<open>Receiving\<close>

definition armIdle :: "addr \<Rightarrow> clientState \<Rightarrow> clientState" where
  "armIdle a s = updCall a (\<lambda>c. if ccIdle c \<le> 0 then c
     else c\<lparr>ccIdleTimer := \<not> (ccOutputEnded c \<or> ccTerminal c)\<rparr>) s"

definition enqueue :: "addr \<Rightarrow> rframe \<Rightarrow> clientState \<Rightarrow> clientState" where
  "enqueue a f s = updCall a (\<lambda>c. c\<lparr>ccQueue := ccQueue c @ [f]\<rparr>) s"

definition itemExpected :: "rframe \<Rightarrow> clientCall \<Rightarrow> bool" where
  "itemExpected f c \<longleftrightarrow> gDirection f = ''server'' \<and> \<not> ccOutputEnded c \<and> ccOutputAllowance c > 0 \<and>
     gSequence f = Some (ccExpectedSeq c)"

definition deliver :: "addr \<Rightarrow> rframe \<Rightarrow> clientState \<Rightarrow> clientState" where
  "deliver a f s =
     (let c = csCall s a in
      if gKind f = ''stream.window'' then
        (case (ccInputCredit c, gCredit f) of
           (Some w, Some n) \<Rightarrow>
             if gDirection f \<noteq> ''client'' \<or> n \<le> 0
             then failCall a (MeshErr (newError CodeProtocolError ''Invalid input stream window'')) s
             else updCall a (\<lambda>c. c\<lparr>ccInputCredit := Some (grantCredit n w)\<rparr>) s
         | _ \<Rightarrow> failCall a (MeshErr (newError CodeProtocolError ''Invalid input stream window'')) s)
      else if gKind f = ''stream.item'' then
        (if itemExpected f c then
           enqueue a f (armIdle a (updCall a (\<lambda>c. c\<lparr>ccOutputAllowance := ccOutputAllowance c - 1,
             ccExpectedSeq := wrap64 (ccExpectedSeq c + 1)\<rparr>) s))
         else failCall a (MeshErr (newError CodeProtocolError ''Invalid output stream item, sequence, or credit'')) s)
      else if gKind f = ''stream.end'' then updCall a (\<lambda>c. c\<lparr>ccOutputEnded := True, ccIdleTimer := False\<rparr>) s
      else if gKind f = ''call.result'' \<or> gKind f = ''call.error'' then
        enqueue a f (doneCall a (updCall a (\<lambda>c. c\<lparr>ccTerminal := True, ccTrailers := gMetadata f\<rparr>) s))
      else enqueue a f s)"

definition nextFrame :: "addr \<Rightarrow> clientState \<Rightarrow> clientState \<times> (goerr + rframe) wait" where
  "nextFrame a s =
     (let c = csCall s a in
      case ccQueue c of
        f # fs \<Rightarrow> (updCall a (\<lambda>c. c\<lparr>ccQueue := fs\<rparr>) s, Ready (Inr f))
      | [] \<Rightarrow> (case ccFailure c of Some err \<Rightarrow> (s, Ready (Inl err)) | None \<Rightarrow> (s, Blocked)))"

definition windowFor :: "string \<Rightarrow> string \<Rightarrow> int \<Rightarrow> rframe" where
  "windowFor cid direction n = zeroRFrame\<lparr>gKind := ''stream.window'', gCallID := cid, gDirection := direction, gCredit := Some n\<rparr>"

definition consumed :: "addr \<Rightarrow> clientState \<Rightarrow> clientState" where
  "consumed a s =
     (let c = csCall s a in
      if \<not> ccOutputEnded c \<and> \<not> ccTerminal c
      then fst (sendConn (ccConn c) (windowFor (ccId c) ''server'' 1)
             (updCall a (\<lambda>c. c\<lparr>ccOutputAllowance := ccOutputAllowance c + 1\<rparr>) s))
      else s)"

section \<open>Sending\<close>

text \<open>\<^verbatim>\<open>sendInput\<close>.  Its mutex sections are apart: one reserves the sequence number, and the frame is written
  outside the mutex, so with two goroutines sending, another operation can come between
  \<open>reserveInput\<close> and \<open>writeInput\<close>.\<close>

definition reserveInput :: "goerr option \<Rightarrow> addr \<Rightarrow> clientState \<Rightarrow> clientState \<times> (goerr + int) wait" where
  "reserveInput done a s =
     (let c = csCall s a in
      if ccInputClosed c then (s, Ready (Inl (MeshErr (newError CodeProtocolError ''Input stream is closed''))))
      else (case ccInputCredit c of
          None \<Rightarrow> (s, Panics)
        | Some w \<Rightarrow> (case acquire done w of
            (w', Blocked) \<Rightarrow> (s, Blocked)
          | (w', Panics) \<Rightarrow> (s, Panics)
          | (w', Ready (Some err)) \<Rightarrow> (s, Ready (Inl (case ccFailure c of Some e \<Rightarrow> e | None \<Rightarrow> err)))
          | (w', Ready None) \<Rightarrow>
              (updCall a (\<lambda>c. c\<lparr>ccInputCredit := Some w', ccInputSeq := wrap64 (ccInputSeq c + 1)\<rparr>) s,
               Ready (Inr (ccInputSeq c))))))"

definition clientItem :: "string \<Rightarrow> int \<Rightarrow> string \<Rightarrow> rframe" where
  "clientItem cid seq payload = zeroRFrame\<lparr>gKind := ''stream.item'', gCallID := cid, gDirection := ''client'',
     gSequence := Some seq, gPayload := Some payload\<rparr>"

definition writeInput :: "addr \<Rightarrow> int \<Rightarrow> string \<Rightarrow> clientState \<Rightarrow> clientState \<times> goerr option" where
  "writeInput a seq payload s =
     (let c = csCall s a in
      case sendConn (ccConn c) (clientItem (ccId c) seq payload) s of
        (s1, err) \<Rightarrow>
          (case frameTooLarge ''client'' err of
             Some e \<Rightarrow> (abortCall a (MeshErr e) ''frame_too_large'' s1, Some (MeshErr e))
           | None \<Rightarrow> (s1, err)))"

definition sendInput :: "goerr option \<Rightarrow> addr \<Rightarrow> string \<Rightarrow> clientState \<Rightarrow> clientState \<times> goerr option wait" where
  "sendInput done a payload s = (case reserveInput done a s of
      (s1, Blocked) \<Rightarrow> (s1, Blocked)
    | (s1, Panics) \<Rightarrow> (s1, Panics)
    | (s1, Ready (Inl err)) \<Rightarrow> (s1, Ready (Some err))
    | (s1, Ready (Inr seq)) \<Rightarrow> (case writeInput a seq payload s1 of (s2, err) \<Rightarrow> (s2, Ready err)))"

definition endFor :: "string \<Rightarrow> string \<Rightarrow> rframe" where
  "endFor cid direction = zeroRFrame\<lparr>gKind := ''stream.end'', gCallID := cid, gDirection := direction\<rparr>"

definition closeInput :: "addr \<Rightarrow> clientState \<Rightarrow> clientState \<times> goerr option" where
  "closeInput a s =
     (let c = csCall s a in
      if ccInputClosed c then (s, None)
      else sendConn (ccConn c) (endFor (ccId c) ''client'') (updCall a (\<lambda>c. c\<lparr>ccInputClosed := True\<rparr>) s))"

section \<open>Results and streams\<close>

text \<open>The state of a call is read through its own operations only.\<close>

lemma updCall_simps [simp]:
  "csCall (updCall a g s) b = (if b = a then g (csCall s a) else csCall s b)"
  "csConnObj (updCall a g s) = csConnObj s" "csCalls (updCall a g s) = csCalls s" "csNext (updCall a g s) = csNext s"
  "csConn (updCall a g s) = csConn s" "csClosed (updCall a g s) = csClosed s" "csCursor (updCall a g s) = csCursor s"
  by (simp_all add: updCall_def)

lemma nextFrame_queue:
  "nextFrame a s = (s', Ready (Inr f)) \<Longrightarrow> ccQueue (csCall s a) = f # ccQueue (csCall s' a)"
  by (auto simp: nextFrame_def Let_def split: list.splits option.splits)

text \<open>\<^verbatim>\<open>result\<close>: the loop over \<^verbatim>\<open>next\<close>, which skips every frame that is not terminal.\<close>

type_synonym answer = "string option \<times> (string, string) gomap option \<times> goerr option"

function (sequential) resultOf :: "addr \<Rightarrow> clientState \<Rightarrow> clientState \<times> answer wait" where
  "resultOf a s = (case nextFrame a s of
      (s1, Ready (Inr f)) \<Rightarrow>
        if gKind f = ''call.result'' then (s1, Ready (gPayload f, gMetadata f, None))
        else if gKind f = ''call.error'' then
          (case gError f of
             None \<Rightarrow> (s1, Panics)
           | Some p \<Rightarrow> (s1, Ready (None, gMetadata f, Some (MeshErr (errorFromPayload p)))))
        else resultOf a s1
    | (s1, Ready (Inl err)) \<Rightarrow> (s1, Ready (None, None, Some err))
    | (s1, Blocked) \<Rightarrow> (s1, Blocked)
    | (s1, Panics) \<Rightarrow> (s1, Panics))"
  by pat_completeness auto
termination
  by (relation "measure (\<lambda>(a, s). length (ccQueue (csCall s a)))") (auto dest!: nextFrame_queue [OF sym])

declare resultOf.simps [simp del]

text \<open>\<^verbatim>\<open>Stream\<close>, over any source of frames: the operations \<^verbatim>\<open>next\<close>, \<^verbatim>\<open>consumed\<close> and \<^verbatim>\<open>abort\<close> of the interface
  \<^verbatim>\<open>streamSource\<close>.  \<open>dec\<close> is \<^verbatim>\<open>decodeReceived[Item]\<close>, which validates the payload against the item
  type.\<close>

record streamState =
  stDone :: bool
  stTrailers :: "(string, string) gomap option"

definition recvFrame ::
    "('s \<Rightarrow> 's) \<Rightarrow> (goerr \<Rightarrow> string \<Rightarrow> 's \<Rightarrow> 's) \<Rightarrow> (string option \<Rightarrow> goerr + 'item) \<Rightarrow> rframe \<Rightarrow> streamState \<times> 's \<Rightarrow>
     (streamState \<times> 's) \<times> (goerr + 'item) wait" where
  "recvFrame used abrt dec f x = (case x of (st, s) \<Rightarrow>
     if gKind f = ''stream.item'' then
       (case dec (gPayload f) of
          Inl err \<Rightarrow> ((st\<lparr>stDone := True\<rparr>, abrt err ''invalid_output_item'' s), Ready (Inl err))
        | Inr item \<Rightarrow> ((st, used s), Ready (Inr item)))
     else if gKind f = ''call.result'' then ((st\<lparr>stDone := True, stTrailers := gMetadata f\<rparr>, s), Ready (Inl EofErr))
     else if gKind f = ''call.error'' then
       (case gError f of
          None \<Rightarrow> ((st\<lparr>stDone := True, stTrailers := gMetadata f\<rparr>, s), Panics)
        | Some p \<Rightarrow> ((st\<lparr>stDone := True, stTrailers := gMetadata f\<rparr>, s), Ready (Inl (MeshErr (errorFromPayload p)))))
     else ((st, s), Blocked))"

text \<open>\<^verbatim>\<open>Recv\<close>: \<open>fuel\<close> bounds the frames one call can skip; a loop that has used it up is still
  waiting, which is \<open>Blocked\<close>, and the theorems hold for any fuel.\<close>

fun recvLoop ::
    "nat \<Rightarrow> ('s \<Rightarrow> 's \<times> (goerr + rframe) wait) \<Rightarrow> ('s \<Rightarrow> 's) \<Rightarrow> (goerr \<Rightarrow> string \<Rightarrow> 's \<Rightarrow> 's) \<Rightarrow>
     (string option \<Rightarrow> goerr + 'item) \<Rightarrow> streamState \<times> 's \<Rightarrow> (streamState \<times> 's) \<times> (goerr + 'item) wait" where
  "recvLoop fuel nxt used abrt dec (st, s) = (case nxt s of
      (s1, Ready (Inl err)) \<Rightarrow> ((st\<lparr>stDone := True\<rparr>, s1), Ready (Inl err))
    | (s1, Ready (Inr f)) \<Rightarrow>
        if List.member [''stream.item'', ''call.result'', ''call.error''] (gKind f) then recvFrame used abrt dec f (st, s1)
        else (case fuel of 0 \<Rightarrow> ((st, s1), Blocked) | Suc n \<Rightarrow> recvLoop n nxt used abrt dec (st, s1))
    | (s1, Blocked) \<Rightarrow> ((st, s1), Blocked)
    | (s1, Panics) \<Rightarrow> ((st, s1), Panics))"

declare recvLoop.simps [simp del]

definition Recv ::
    "nat \<Rightarrow> ('s \<Rightarrow> 's \<times> (goerr + rframe) wait) \<Rightarrow> ('s \<Rightarrow> 's) \<Rightarrow> (goerr \<Rightarrow> string \<Rightarrow> 's \<Rightarrow> 's) \<Rightarrow>
     (string option \<Rightarrow> goerr + 'item) \<Rightarrow> streamState \<times> 's \<Rightarrow> (streamState \<times> 's) \<times> (goerr + 'item) wait" where
  "Recv fuel nxt used abrt dec x = (if stDone (fst x) then (x, Ready (Inl EofErr)) else recvLoop fuel nxt used abrt dec x)"

definition closeStream :: "(goerr \<Rightarrow> string \<Rightarrow> 's \<Rightarrow> 's) \<Rightarrow> streamState \<times> 's \<Rightarrow> streamState \<times> 's" where
  "closeStream abrt x = (case x of (st, s) \<Rightarrow> if stDone st then (st, s)
     else (st\<lparr>stDone := True\<rparr>, abrt (MeshErr (newError CodeCancelled ''Call was cancelled'')) ''client_closed'' s))"

end
