(* ===== verification/Server_Call.thy ===== *)
theory Server_Call
  imports Runtime
begin

text \<open>
  Sessions and calls of the Go server (\<^verbatim>\<open>meshcall-go/server.go\<close>, from \<^verbatim>\<open>type session\<close> on).  A session is one
  connection, from a Router or from a direct client; each call runs its handler in a goroutine of its
  own.  The handler is code of the application: it appears as the sequence of \<^verbatim>\<open>sendOutput\<close>, \<^verbatim>\<open>nextInput\<close>
  and \<^verbatim>\<open>closeOutput\<close> it makes and as the outcome it returns.  What \<^verbatim>\<open>encodeOutput\<close> makes of a value (its JSON
  text, or the error for a value that breaks the contract) is an argument.  A context is its cause:
  \<open>None\<close> while it runs.
\<close>

section \<open>State\<close>

record serverMethod =
  smName :: string
  smStream :: string      \<comment> \<open>\<open>unary\<close>, \<open>server_stream\<close>, \<open>client_stream\<close> or \<open>duplex\<close>\<close>
  smResponse :: bool      \<comment> \<open>the method has a response type\<close>
  smInput :: bool
  smOutput :: bool

record serverService =
  ssTargeted :: bool
  ssMethods :: "(string, serverMethod) gomap"

text \<open>\<^verbatim>\<open>inputEvent\<close>: an item, or the end of input with what ended it.\<close>

datatype inputEv = InItem string | InEnd goerr

record serverCall =
  scSess :: addr
  scOpen :: rframe
  scMethod :: serverMethod
  scCause :: "goerr option"
  scCredit :: creditWindow
  scTrailers :: "(string, string) gomap"
  scInput :: "inputEv list"
  scInputAllowance :: int
  scInputSequence :: int
  scInputClosed :: bool
  scIdle :: bool
  scOutputSequence :: int
  scOutputClosed :: bool
  scTerminal :: bool

record session =
  seConn :: conn
  seCalls :: "(string, addr) gomap"
  seDrainAcks :: nat      \<comment> \<open>drains waiting for \<^verbatim>\<open>server.drain.ack\<close>\<close>
  seAcked :: nat          \<comment> \<open>drains that were told\<close>

record goServer =
  svInstanceID :: string
  svMaxInflight :: int
  svServices :: "(string, serverService) gomap"
  svInflight :: int
  svSessions :: "addr list"
  svSession :: "addr \<Rightarrow> session"
  svCall :: "addr \<Rightarrow> serverCall"
  svNext :: addr

definition updServed :: "addr \<Rightarrow> (serverCall \<Rightarrow> serverCall) \<Rightarrow> goServer \<Rightarrow> goServer" where
  "updServed a g v = v\<lparr>svCall := (svCall v)(a := g (svCall v a))\<rparr>"

definition updSession :: "addr \<Rightarrow> (session \<Rightarrow> session) \<Rightarrow> goServer \<Rightarrow> goServer" where
  "updSession p g v = v\<lparr>svSession := (svSession v)(p := g (svSession v p))\<rparr>"

text \<open>\<^verbatim>\<open>sess.conn.send\<close> and \<^verbatim>\<open>serverCall.send\<close>.\<close>

definition sessionSend :: "addr \<Rightarrow> rframe \<Rightarrow> goServer \<Rightarrow> goServer \<times> goerr option" where
  "sessionSend p f v = (case connSend f (seConn (svSession v p)) of
      (c, err) \<Rightarrow> (updSession p (\<lambda>s. s\<lparr>seConn := c\<rparr>) v, err))"

definition callSend :: "addr \<Rightarrow> rframe \<Rightarrow> goServer \<Rightarrow> goServer \<times> goerr option" where
  "callSend a f v =
     (let c = svCall v a in
      case sessionSend (scSess c) (f\<lparr>gCallID := gCallID (scOpen c)\<rparr>) v of
        (v1, err) \<Rightarrow> (v1, case frameTooLarge ''server'' err of Some e \<Rightarrow> Some (MeshErr e) | None \<Rightarrow> err))"

section \<open>Contexts, input and the end of a call\<close>

definition cancelCtx :: "goerr \<Rightarrow> serverCall \<Rightarrow> serverCall" where
  "cancelCtx err c = c\<lparr>scCause := (case scCause c of None \<Rightarrow> Some err | Some e \<Rightarrow> Some e)\<rparr>"

definition pushInput :: "string option \<Rightarrow> goerr option \<Rightarrow> serverCall \<Rightarrow> serverCall" where
  "pushInput data err c = (case data of
      Some d \<Rightarrow> c\<lparr>scInput := scInput c @ [InItem d]\<rparr>
    | None \<Rightarrow> c\<lparr>scInputClosed := True, scInput := scInput c @ [InEnd (case err of None \<Rightarrow> EofErr | Some e \<Rightarrow> e)]\<rparr>)"

definition abortServed :: "rerror \<Rightarrow> serverCall \<Rightarrow> serverCall" where
  "abortServed e c =
     pushInput None (Some (MeshErr e)) ((cancelCtx (MeshErr e) c)\<lparr>scCredit := closeCredit (MeshErr e) (scCredit c)\<rparr>)"

definition cleanup :: "addr \<Rightarrow> goServer \<Rightarrow> goServer" where
  "cleanup a v =
     (let v1 = updServed a (\<lambda>c. (cancelCtx (MeshErr (newError CodeCancelled ''Call is complete'')) c)
            \<lparr>scCredit := closeCredit (MeshErr (newError CodeCancelled ''Call is closed'')) (scCredit c), scIdle := False\<rparr>) v;
          c = svCall v a; p = scSess c; cid = gCallID (scOpen c);
          v2 = (if map_of (seCalls (svSession v1 p)) cid = Some a
                then updSession p (\<lambda>s. s\<lparr>seCalls := AList.delete cid (seCalls s)\<rparr>) v1 else v1) in
      v2\<lparr>svInflight := svInflight v2 - 1\<rparr>)"

definition errorReply :: "rerror \<Rightarrow> rframe" where
  "errorReply e = zeroRFrame\<lparr>gKind := ''call.error'', gError := Some (wirePayload e)\<rparr>"

definition finish :: "addr \<Rightarrow> rframe \<Rightarrow> goServer \<Rightarrow> goServer" where
  "finish a f v =
     (let c = svCall v a in
      if scTerminal c then v
      else
        (let v1 = updServed a (\<lambda>c. c\<lparr>scTerminal := True\<rparr>) v;
             f1 = (if length (scTrailers c) > 0 then f\<lparr>gMetadata := Some (scTrailers c)\<rparr> else f) in
         case callSend a f1 v1 of
           (v2, err) \<Rightarrow> cleanup a
             (case err of
                None \<Rightarrow> v2
              | Some x \<Rightarrow> (case AsError x of
                  Some e \<Rightarrow> if Reason e = ''frame_too_large'' then fst (callSend a (errorReply e) v2) else v2
                | None \<Rightarrow> v2))))"

definition protocolError :: "addr \<Rightarrow> string \<Rightarrow> goServer \<Rightarrow> goServer" where
  "protocolError a message v =
     (let e = newError CodeProtocolError message in finish a (errorReply e) (updServed a (abortServed e) v))"

definition armInput :: "serverCall \<Rightarrow> serverCall" where
  "armInput c = (case gIdleTimeout (scOpen c) of
      None \<Rightarrow> c
    | Some _ \<Rightarrow> c\<lparr>scIdle := \<not> scInputClosed c\<rparr>)"

text \<open>The callback of the idle timer.\<close>

definition idleExpired :: "addr \<Rightarrow> goServer \<Rightarrow> goServer" where
  "idleExpired a v =
     (let e = detailed CodeDeadlineExceeded ''Input stream idle timeout'' ''server'' ''idle'' False in
      finish a (errorReply e) (updServed a (abortServed e) v))"

section \<open>Frames for a call\<close>

definition inputExpected :: "rframe \<Rightarrow> serverCall \<Rightarrow> bool" where
  "inputExpected f c \<longleftrightarrow> smInput (scMethod c) \<and> gDirection f = ''client'' \<and> \<not> scInputClosed c \<and> scInputAllowance c > 0 \<and>
     gSequence f = Some (scInputSequence c)"

definition receiveFrame :: "addr \<Rightarrow> rframe \<Rightarrow> goServer \<Rightarrow> goServer" where
  "receiveFrame a f v =
     (let c = svCall v a in
      if gKind f = ''call.cancel'' then
        (let e = newError CodeCancelled ''Call was cancelled'' in finish a (errorReply e) (updServed a (abortServed e) v))
      else if gKind f = ''stream.window'' then
        (case gCredit f of
           Some n \<Rightarrow>
             if gDirection f \<noteq> ''server'' \<or> \<not> smOutput (scMethod c) \<or> n \<le> 0 then protocolError a ''Invalid output stream window'' v
             else updServed a (\<lambda>c. c\<lparr>scCredit := grantCredit n (scCredit c)\<rparr>) v
         | None \<Rightarrow> protocolError a ''Invalid output stream window'' v)
      else if gKind f = ''stream.item'' then
        (if inputExpected f c then
           updServed a (\<lambda>c. pushInput (Some (case gPayload f of None \<Rightarrow> ''null'' | Some p \<Rightarrow> p)) None (armInput
             (c\<lparr>scInputAllowance := scInputAllowance c - 1, scInputSequence := wrap64 (scInputSequence c + 1)\<rparr>))) v
         else protocolError a ''Invalid input stream item, sequence, or credit'' v)
      else if gKind f = ''stream.end'' then
        (let ok = (smInput (scMethod c) \<and> gDirection f = ''client'' \<and> \<not> scInputClosed c);
             v1 = updServed a (\<lambda>c. c\<lparr>scInputClosed := True, scIdle := False\<rparr>) v in
         if ok then updServed a (pushInput None None) v1 else protocolError a ''Invalid input stream end'' v1)
      else v)"

text \<open>\<^verbatim>\<open>nextInput\<close>: one pass; consuming an item grants one more credit while the input is open.\<close>

definition inputWindow :: "int \<Rightarrow> rframe" where
  "inputWindow n = zeroRFrame\<lparr>gKind := ''stream.window'', gDirection := ''client'', gCredit := Some n\<rparr>"

definition nextInput :: "addr \<Rightarrow> goServer \<Rightarrow> goServer \<times> (goerr + string) wait" where
  "nextInput a v =
     (let c = svCall v a in
      case scInput c of
        InEnd err # _ \<Rightarrow> (v, Ready (Inl err))
      | InItem d # rest \<Rightarrow>
          (let v1 = updServed a (\<lambda>c. c\<lparr>scInput := rest\<rparr>) v in
           if scInputClosed c then (v1, Ready (Inr d))
           else (fst (callSend a (inputWindow 1) (updServed a (\<lambda>c. c\<lparr>scInputAllowance := scInputAllowance c + 1\<rparr>) v1)), Ready (Inr d)))
      | [] \<Rightarrow> (case scCause c of Some cause \<Rightarrow> (v, Ready (Inl cause)) | None \<Rightarrow> (v, Blocked)))"

section \<open>Output\<close>

definition outputItem :: "int \<Rightarrow> string \<Rightarrow> rframe" where
  "outputItem seq payload = zeroRFrame\<lparr>gKind := ''stream.item'', gDirection := ''server'', gSequence := Some seq, gPayload := Some payload\<rparr>"

text \<open>\<^verbatim>\<open>sendOutput\<close> after the credit has been acquired, under \<^verbatim>\<open>outputMu\<close>.\<close>

definition writeOutput :: "addr \<Rightarrow> string \<Rightarrow> goServer \<Rightarrow> goServer \<times> goerr option" where
  "writeOutput a payload v =
     (let c = svCall v a in
      if scOutputClosed c then (v, Some (MeshErr (newError CodeProtocolError ''Call output stream is closed'')))
      else if scTerminal c then (v, Some (MeshErr (newError CodeCancelled ''Call is closed'')))
      else
        (let seq = scOutputSequence c in
         case callSend a (outputItem seq payload) (updServed a (\<lambda>c. c\<lparr>scOutputSequence := wrap64 (seq + 1)\<rparr>) v) of
           (v1, err) \<Rightarrow>
             ((case err of
                 Some x \<Rightarrow> (case AsError x of
                     Some e \<Rightarrow> if Reason e = ''frame_too_large'' then updServed a (cancelCtx (MeshErr e)) v1 else v1
                   | None \<Rightarrow> v1)
               | None \<Rightarrow> v1), err)))"

definition sendOutput :: "addr \<Rightarrow> goerr + string \<Rightarrow> goServer \<Rightarrow> goServer \<times> goerr option wait" where
  "sendOutput a encoded v = (case encoded of
      Inl err \<Rightarrow> (updServed a (cancelCtx err) v, Ready (Some err))
    | Inr payload \<Rightarrow>
        (let c = svCall v a in
         case acquire (scCause c) (scCredit c) of
           (w, Blocked) \<Rightarrow> (v, Blocked)
         | (w, Panics) \<Rightarrow> (v, Panics)
         | (w, Ready (Some err)) \<Rightarrow> (v, Ready (Some err))
         | (w, Ready None) \<Rightarrow>
             (case writeOutput a payload (updServed a (\<lambda>c. c\<lparr>scCredit := w\<rparr>) v) of (v1, err) \<Rightarrow> (v1, Ready err))))"

definition outputEnd :: rframe where
  "outputEnd = zeroRFrame\<lparr>gKind := ''stream.end'', gDirection := ''server''\<rparr>"

definition closeOutput :: "addr \<Rightarrow> goServer \<Rightarrow> goServer \<times> goerr option" where
  "closeOutput a v =
     (let c = svCall v a in
      if scOutputClosed c \<or> scTerminal c then (v, None)
      else callSend a outputEnd (updServed a (\<lambda>c. c\<lparr>scOutputClosed := True\<rparr>) v))"

section \<open>Running a call\<close>

definition errorOf :: "serverCall \<Rightarrow> goerr \<Rightarrow> rerror" where
  "errorOf c err =
     (case (case scCause c of None \<Rightarrow> None | Some cause \<Rightarrow> AsError cause) of
        Some e \<Rightarrow> e
      | None \<Rightarrow> (case AsError err of
          Some e \<Rightarrow> e
        | None \<Rightarrow>
            if isCause CanceledErr err then newError CodeCancelled ''Call was cancelled''
            else if isCause DeadlineErr err then detailed CodeDeadlineExceeded ''Call deadline exceeded'' ''server'' [] False
            else newError CodeInternal ''Internal service error''))"

text \<open>\<^verbatim>\<open>run\<close> up to the handler.\<close>

definition runStart :: "addr \<Rightarrow> goServer \<Rightarrow> goServer" where
  "runStart a v =
     (if smStream (scMethod (svCall v a)) = ''client_stream'' \<or> smStream (scMethod (svCall v a)) = ''duplex''
      then updServed a armInput (fst (callSend a (inputWindow initialStreamCredit)
             (updServed a (\<lambda>c. c\<lparr>scInputAllowance := initialStreamCredit\<rparr>) v)))
      else v)"

text \<open>\<^verbatim>\<open>invoke\<close>: the outcome of the handler, with a panic and an ended context accounted for.\<close>

datatype handlerOutcome = Returned "goerr option" | Panicked

definition invoked :: "serverCall \<Rightarrow> handlerOutcome \<Rightarrow> goerr option" where
  "invoked c h = (case h of
      Panicked \<Rightarrow> Some (MeshErr (newError CodeInternal ''Internal service error''))
    | Returned (Some err) \<Rightarrow> Some err
    | Returned None \<Rightarrow> scCause c)"

text \<open>\<^verbatim>\<open>run\<close> from the handler's return: close the output, encode the response, finish.\<close>

definition runEnd :: "addr \<Rightarrow> handlerOutcome \<Rightarrow> goerr + string \<Rightarrow> goServer \<Rightarrow> goServer" where
  "runEnd a h encoded v =
     (let c = svCall v a; m = scMethod c; err0 = invoked c h in
      case (if err0 = None \<and> (smStream m = ''server_stream'' \<or> smStream m = ''duplex'') then closeOutput a v else (v, err0)) of
        (v1, Some err) \<Rightarrow> finish a (errorReply (errorOf (svCall v1 a) err)) v1
      | (v1, None) \<Rightarrow>
          if smResponse m then
            (case encoded of
               Inl err \<Rightarrow> finish a (errorReply (errorOf (svCall v1 a) err)) v1
             | Inr payload \<Rightarrow> finish a (zeroRFrame\<lparr>gKind := ''call.result'', gPayload := Some payload\<rparr>) v1)
          else finish a (zeroRFrame\<lparr>gKind := ''call.result''\<rparr>) v1)"

section \<open>Sessions\<close>

definition reject :: "addr \<Rightarrow> rframe \<Rightarrow> rerror \<Rightarrow> goServer \<Rightarrow> goServer" where
  "reject p f e v = fst (sessionSend p ((errorReply e)\<lparr>gCallID := gCallID f\<rparr>) v)"

definition newServerCall :: "addr \<Rightarrow> rframe \<Rightarrow> serverMethod \<Rightarrow> serverCall" where
  "newServerCall p f m = \<lparr>scSess = p, scOpen = f, scMethod = m, scCause = None, scCredit = newCreditWindow, scTrailers = [],
     scInput = [], scInputAllowance = 0, scInputSequence = 0, scInputClosed = False, scIdle = False,
     scOutputSequence = 0, scOutputClosed = False, scTerminal = False\<rparr>"

text \<open>\<^verbatim>\<open>session.open\<close> in two parts: the checks, which end with a refusal or the method, and the start of the
  call.  \<^verbatim>\<open>inflight\<close> is read in the first and incremented in the second, and each session runs them in its own
  goroutine.\<close>

definition openCheck :: "addr \<Rightarrow> rframe \<Rightarrow> goServer \<Rightarrow> rerror + serverMethod" where
  "openCheck p f v =
     (if map_of (seCalls (svSession v p)) (gCallID f) \<noteq> None then Inl (newError CodeProtocolError ''Duplicate call_id'')
      else if svMaxInflight v > 0 \<and> svInflight v \<ge> svMaxInflight v then
        Inl (detailed CodeResourceExhausted ''Instance is at its max_inflight'' ''server'' ''overloaded'' True)
      else (case (case map_of (svServices v) (gService f) of None \<Rightarrow> None
                  | Some svc \<Rightarrow> map_option (Pair svc) (map_of (ssMethods svc) (gMethod f))) of
          None \<Rightarrow> Inl (newError CodeMethodNotFound (''Unknown method '' @ gService f @ ''.'' @ gMethod f))
        | Some (svc, m) \<Rightarrow>
          if gInstanceID f \<noteq> [] \<and> gInstanceID f \<noteq> svInstanceID v then
            Inl (let e = detailed CodeUnavailable (''Instance '' @ gInstanceID f @ '' is not this server ('' @ svInstanceID v @ '')'')
                   ''server'' ''instance_unknown'' False in
                 e\<lparr>reDetails := map_option (\<lambda>d. AList.update ''instance_id'' (JStr (gInstanceID f)) d) (reDetails e)\<rparr>)
          else if gInstanceID f = [] \<and> ssTargeted svc then
            Inl (detailed CodeInvalidArgument (gService f @ '' is a targeted service: call.open needs instance_id'') ''server'' ''instance_required'' False)
          else if smStream m = ''duplex'' \<and> gIdempotency f \<noteq> [] then
            Inl (detailed CodeInvalidArgument ''Duplex calls are never replayed and take no idempotency key'' ''server'' ''idempotency_key_on_duplex'' False)
          else Inr m))"

definition openStart :: "addr \<Rightarrow> rframe \<Rightarrow> serverMethod \<Rightarrow> goServer \<Rightarrow> goServer" where
  "openStart p f m v =
     (let a = svNext v;
          v1 = v\<lparr>svCall := (svCall v)(a := newServerCall p f m), svNext := Suc a\<rparr>;
          v2 = updSession p (\<lambda>s. s\<lparr>seCalls := AList.update (gCallID f) a (seCalls s)\<rparr>) v1 in
      v2\<lparr>svInflight := svInflight v2 + 1\<rparr>)"

definition openServed :: "addr \<Rightarrow> rframe \<Rightarrow> goServer \<Rightarrow> goServer" where
  "openServed p f v = (case openCheck p f v of
      Inl e \<Rightarrow> reject p f e v
    | Inr m \<Rightarrow> openStart p f m v)"

definition handleFrame :: "addr \<Rightarrow> rframe \<Rightarrow> goServer \<Rightarrow> goServer" where
  "handleFrame p f v =
     (if gKind f = ''server.drain.ack'' then
        updSession p (\<lambda>s. s\<lparr>seAcked := seAcked s + seDrainAcks s, seDrainAcks := 0\<rparr>) v
      else if gKind f = ''call.open'' then openServed p f v
      else if List.member [''call.cancel'', ''stream.item'', ''stream.end'', ''stream.window''] (gKind f) then
        (case map_of (seCalls (svSession v p)) (gCallID f) of
           None \<Rightarrow> v
         | Some a \<Rightarrow> receiveFrame a f v)
      else v)"

definition newSession :: "conn \<Rightarrow> goServer \<Rightarrow> goServer \<times> addr" where
  "newSession k v =
     (let p = svNext v in
      (v\<lparr>svSession := (svSession v)(p := \<lparr>seConn = k, seCalls = [], seDrainAcks = 0, seAcked = 0\<rparr>),
         svSessions := svSessions v @ [p], svNext := Suc p\<rparr>, p))"

text \<open>The deferred end of \<^verbatim>\<open>serve\<close>: the session leaves the table and its calls are aborted.\<close>

definition lostError :: rerror where
  "lostError = (newError CodeUnavailable ''Connection was lost'')\<lparr>reRetryable := True\<rparr>"

definition serveEnd :: "addr \<Rightarrow> goServer \<Rightarrow> goServer" where
  "serveEnd p v =
     (let v1 = v\<lparr>svSessions := removeAll p (svSessions v)\<rparr>;
          v2 = fold (\<lambda>(cid, a). updServed a (abortServed lostError)) (seCalls (svSession v1 p)) v1 in
      updSession p (\<lambda>s. s\<lparr>seConn := connClose (seConn s)\<rparr>) v2)"

definition expectDrainAck :: "addr \<Rightarrow> goServer \<Rightarrow> goServer" where
  "expectDrainAck p v = updSession p (\<lambda>s. s\<lparr>seDrainAcks := seDrainAcks s + 1\<rparr>) v"

definition SetTrailer :: "string \<Rightarrow> string \<Rightarrow> serverCall \<Rightarrow> serverCall wait" where
  "SetTrailer key val c =
     (if key = [] \<or> (length key \<ge> 9 \<and> take 9 key = ''meshcall-'') then Panics
      else Ready (c\<lparr>scTrailers := AList.update key val (scTrailers c)\<rparr>))"

end
