(* ===== verification/Flow.thy ===== *)
theory Flow
  imports Runtime
begin

text \<open>
  Flow control of one stream direction, apart from where its parts are kept: a producer with credit, the
  items and the end on their way to the consumer, the grants on their way back, and a consumer with an
  allowance and a buffer.  \<open>flowMove\<close> lists what can happen to it, losses included, and \<open>flowOk\<close> is the
  invariant: credit is never invented, the consumer never buffers more than the initial credit, and the
  items on their way carry exactly the numbers the consumer will expect.

  The locale \<open>credited_stream\<close> is the contract between an implementation of the two ends and these facts.
  It is interpreted for both directions of a call of the Go runtime.
\<close>

record flow =
  flCredit :: int              \<comment> \<open>items the producer may still send\<close>
  flNext :: int                \<comment> \<open>the number of its next item\<close>
  flExact :: bool              \<comment> \<open>every item numbered so far was written\<close>
  flPClosed :: bool            \<comment> \<open>the producer has ended the stream\<close>
  flData :: "int option list"  \<comment> \<open>on the way: \<open>Some n\<close> item number \<open>n\<close>, \<open>None\<close> the end\<close>
  flGrants :: "int list"       \<comment> \<open>on the way back\<close>
  flAllowance :: int           \<comment> \<open>items the consumer still accepts\<close>
  flExpected :: int
  flCClosed :: bool
  flBuffered :: nat            \<comment> \<open>items received and not yet taken\<close>

inductive flowMove :: "flow \<Rightarrow> flow \<Rightarrow> bool" where
  produce: "flCredit x > 0 \<Longrightarrow> \<not> flPClosed x \<Longrightarrow> flExact x \<Longrightarrow>
     flowMove x (x\<lparr>flCredit := flCredit x - 1, flNext := wrap64 (flNext x + 1), flData := flData x @ [Some (flNext x)]\<rparr>)"
| produceLost: "flCredit x > 0 \<Longrightarrow> flowMove x (x\<lparr>flCredit := flCredit x - 1, flNext := n, flExact := False\<rparr>)"
| spend: "flCredit x > 0 \<Longrightarrow> flowMove x (x\<lparr>flCredit := flCredit x - 1\<rparr>)"
| cutOff: "flowMove x (x\<lparr>flExact := False\<rparr>)"
| finishData: "\<not> flPClosed x \<Longrightarrow> flowMove x (x\<lparr>flPClosed := True, flData := flData x @ [None]\<rparr>)"
| finishLost: "flowMove x (x\<lparr>flPClosed := True\<rparr>)"
| arrive: "flData x = Some (flExpected x) # ds \<Longrightarrow>
     flowMove x (x\<lparr>flData := ds, flAllowance := flAllowance x - 1, flExpected := wrap64 (flExpected x + 1), flBuffered := Suc (flBuffered x)\<rparr>)"
| arriveEnd: "flData x = None # ds \<Longrightarrow> flowMove x (x\<lparr>flData := ds, flCClosed := True\<rparr>)"
| take: "m < flBuffered x \<Longrightarrow> \<not> flCClosed x \<Longrightarrow>
     flowMove x (x\<lparr>flBuffered := m, flAllowance := flAllowance x + 1, flGrants := flGrants x @ [1]\<rparr>)"
| takeLost: "m < flBuffered x \<Longrightarrow> flowMove x (x\<lparr>flBuffered := m, flAllowance := flAllowance x + 1\<rparr>)"
| takeSilent: "m \<le> flBuffered x \<Longrightarrow> flowMove x (x\<lparr>flBuffered := m\<rparr>)"
| grantArrives: "flGrants x = g # gs \<Longrightarrow> flowMove x (x\<lparr>flGrants := gs, flCredit := wrap64 (flCredit x + g)\<rparr>)"
| grantLost: "flGrants x = g # gs \<Longrightarrow> flowMove x (x\<lparr>flGrants := gs\<rparr>)"
| openWindow: "flAllowance x = 0 \<Longrightarrow> flBuffered x = 0 \<Longrightarrow>
     flowMove x (x\<lparr>flAllowance := initialStreamCredit, flGrants := flGrants x @ [initialStreamCredit]\<rparr>)"
| openWindowLost: "flAllowance x = 0 \<Longrightarrow> flBuffered x = 0 \<Longrightarrow> flowMove x (x\<lparr>flAllowance := initialStreamCredit\<rparr>)"

text \<open>The numbers \<open>ns\<close> count on from \<open>e\<close> to just before \<open>n\<close>.\<close>

fun consecutive :: "int \<Rightarrow> int list \<Rightarrow> int \<Rightarrow> bool" where
  "consecutive e [] n \<longleftrightarrow> e = n"
| "consecutive e (x # xs) n \<longleftrightarrow> x = e \<and> consecutive (wrap64 (e + 1)) xs n"

lemma consecutive_snoc: "consecutive e (xs @ [n]) m \<longleftrightarrow> consecutive e xs n \<and> m = wrap64 (n + 1)"
  by (induction xs arbitrary: e) auto

definition dataOk :: "flow \<Rightarrow> bool" where
  "dataOk x \<longleftrightarrow> (\<exists>ns m tail. flData x = map Some ns @ tail \<and> consecutive (flExpected x) ns m \<and>
     (flExact x \<longrightarrow> m = flNext x) \<and> (tail = [] \<or> tail = [None] \<and> flPClosed x)) \<and> (flCClosed x \<longrightarrow> flData x = [] \<and> flPClosed x)"

definition itemCount :: "int option list \<Rightarrow> int" where
  "itemCount ds = int (length (filter (\<lambda>d. d \<noteq> None) ds))"

definition flowOk :: "flow \<Rightarrow> bool" where
  "flowOk x \<longleftrightarrow> 0 \<le> flCredit x \<and> list_all (\<lambda>g. 0 < g) (flGrants x) \<and>
     flCredit x + itemCount (flData x) + sum_list (flGrants x) \<le> flAllowance x \<and>
     flAllowance x + int (flBuffered x) \<le> initialStreamCredit \<and> dataOk x"

lemma itemCount_simps [simp]: "itemCount [] = 0" "itemCount (Some n # ds) = 1 + itemCount ds" "itemCount (None # ds) = itemCount ds"
  "itemCount (ds @ es) = itemCount ds + itemCount es"
  by (simp_all add: itemCount_def)

lemma itemCount_nonneg: "0 \<le> itemCount ds"
  by (simp add: itemCount_def)

lemma sum_list_pos_nonneg: "list_all (\<lambda>g. 0 < g) gs \<Longrightarrow> 0 \<le> sum_list (gs :: int list)"
  by (induction gs) auto

lemma dataOk_open: "dataOk x \<Longrightarrow> \<not> flPClosed x \<Longrightarrow>
    \<exists>ns m. flData x = map Some ns \<and> consecutive (flExpected x) ns m \<and> (flExact x \<longrightarrow> m = flNext x)"
  unfolding dataOk_def by auto

lemma flowMove_dataOk: "flowMove x y \<Longrightarrow> dataOk x \<Longrightarrow> dataOk y"
proof (induction rule: flowMove.induct)
  case (produce x)
  then obtain ns m where d: "flData x = map Some ns" "consecutive (flExpected x) ns (flNext x)" using dataOk_open by blast
  have "flData x @ [Some (flNext x)] = map Some (ns @ [flNext x])" using d by simp
  moreover have "consecutive (flExpected x) (ns @ [flNext x]) (wrap64 (flNext x + 1))" using d by (simp add: consecutive_snoc)
  moreover have "\<not> flCClosed x" using produce by (auto simp: dataOk_def)
  ultimately show ?case unfolding dataOk_def by (simp del: map_append) (metis append_Nil2)
next
  case (finishData x)
  then obtain ns m where d: "flData x = map Some ns" "consecutive (flExpected x) ns m" "flExact x \<longrightarrow> m = flNext x"
    using dataOk_open by blast
  moreover have "\<not> flCClosed x" using finishData by (auto simp: dataOk_def)
  ultimately show ?case unfolding dataOk_def by auto
next
  case (arrive x ds)
  then obtain ns m tl where d: "flData x = map Some ns @ tl" "consecutive (flExpected x) ns m" "flExact x \<longrightarrow> m = flNext x"
      "tl = [] \<or> tl = [None] \<and> flPClosed x" and c: "\<not> flCClosed x" unfolding dataOk_def by auto
  then obtain n ns' where n: "ns = n # ns'" using arrive(1) by (cases ns) auto
  have "ds = map Some ns' @ tl" "consecutive (wrap64 (flExpected x + 1)) ns' m" using arrive(1) d n by auto
  then show ?case using d c unfolding dataOk_def by auto
next
  case (arriveEnd x ds)
  then obtain ns m tl where d: "flData x = map Some ns @ tl" "consecutive (flExpected x) ns m" "flExact x \<longrightarrow> m = flNext x"
      "tl = [] \<or> tl = [None] \<and> flPClosed x" unfolding dataOk_def by auto
  then have "ns = []" "ds = []" "flPClosed x" using arriveEnd(1) by (cases ns; auto)+
  then show ?case using d unfolding dataOk_def by auto
qed (auto simp: dataOk_def)

lemma flowMove_ok: "flowMove x y \<Longrightarrow> flowOk x \<Longrightarrow> flowOk y"
proof -
  assume m: "flowMove x y" and ok: "flowOk x"
  have d: "dataOk y" using flowMove_dataOk [OF m] ok by (simp add: flowOk_def)
  have b: "flCredit x + itemCount (flData x) + sum_list (flGrants x) \<le> flAllowance x" "flAllowance x + int (flBuffered x) \<le> 16"
    "0 \<le> flCredit x" "list_all (\<lambda>g. 0 < g) (flGrants x)" "0 \<le> itemCount (flData x)" "0 \<le> sum_list (flGrants x)"
    using ok sum_list_pos_nonneg itemCount_nonneg by (auto simp: flowOk_def initialStreamCredit_def)
  show "flowOk y" using m
  proof (cases rule: flowMove.cases)
    case (grantArrives g gs)
    have "0 \<le> sum_list gs" using b(4) grantArrives sum_list_pos_nonneg by simp
    then have "wrap64 (flCredit x + g) = flCredit x + g"
      using b grantArrives by (intro wrap64_id) (auto simp: maxInt64_def)
    then show ?thesis using b d grantArrives by (simp add: flowOk_def initialStreamCredit_def)
  qed (use b d in \<open>auto simp: flowOk_def initialStreamCredit_def\<close>)
qed

text \<open>What the invariant gives the consumer: an item that arrives is the expected one, within the
  allowance and before the end; and nothing follows the end.\<close>

lemma flowOk_item:
  assumes "flowOk x" "flData x = Some n # ds"
  shows "n = flExpected x" "0 < flAllowance x" "\<not> flCClosed x"
proof -
  obtain ns m tl where d: "flData x = map Some ns @ tl" "consecutive (flExpected x) ns m" "tl = [] \<or> tl = [None] \<and> flPClosed x"
    and c: "flCClosed x \<longrightarrow> flData x = []" using assms(1) unfolding flowOk_def dataOk_def by auto
  then show "n = flExpected x" "\<not> flCClosed x" using assms(2) by (cases ns; auto)+
  show "0 < flAllowance x" using assms sum_list_pos_nonneg [of "flGrants x"] itemCount_nonneg [of ds] by (auto simp: flowOk_def)
qed

lemma flowOk_end:
  assumes "flowOk x" "flData x = None # ds"
  shows "\<not> flCClosed x"
  using assms by (auto simp: flowOk_def dataOk_def)

definition flowMoves :: "flow \<Rightarrow> flow \<Rightarrow> bool" where
  "flowMoves = flowMove\<^sup>*\<^sup>*"

lemma flowMoves_ok: "flowMoves x y \<Longrightarrow> flowOk x \<Longrightarrow> flowOk y"
  unfolding flowMoves_def by (induction rule: rtranclp_induct) (auto intro: flowMove_ok)

lemma flowMoves_refl [simp]: "flowMoves x x"
  by (simp add: flowMoves_def)

lemma flowMoves_step: "flowMove x y \<Longrightarrow> flowMoves x y"
  by (simp add: flowMoves_def)

lemma flowMoves_trans: "flowMoves x y \<Longrightarrow> flowMoves y z \<Longrightarrow> flowMoves x z"
  by (simp add: flowMoves_def)

text \<open>An implementation of the two ends: its steps, its flow, and while which the consumer is listening.\<close>

locale credited_stream =
  fixes step :: "'s \<Rightarrow> 's \<Rightarrow> bool" and flowIn :: "'s \<Rightarrow> flow" and listening :: "'s \<Rightarrow> bool"
  assumes listening_before: "step s t \<Longrightarrow> listening t \<Longrightarrow> listening s"
    and step_moves: "step s t \<Longrightarrow> listening t \<Longrightarrow> flowMoves (flowIn s) (flowIn t)"
begin

lemma reachable_ok:
  assumes "step\<^sup>*\<^sup>* s t" "flowOk (flowIn s)"
  shows "listening t \<Longrightarrow> flowOk (flowIn t)"
  using assms(1)
proof (induction rule: rtranclp_induct)
  case base
  show ?case by (rule assms(2))
next
  case (step t u)
  then show ?case using listening_before step_moves flowMoves_ok by blast
qed

lemma item_is_expected:
  assumes "step\<^sup>*\<^sup>* s t" "flowOk (flowIn s)" "listening t" "flData (flowIn t) = Some n # ds"
  shows "n = flExpected (flowIn t) \<and> 0 < flAllowance (flowIn t) \<and> \<not> flCClosed (flowIn t)"
  using flowOk_item [OF reachable_ok [OF assms(1,2,3)] assms(4)] by blast

lemma buffer_is_bounded:
  assumes "step\<^sup>*\<^sup>* s t" "flowOk (flowIn s)" "listening t"
  shows "int (flBuffered (flowIn t)) \<le> initialStreamCredit"
  using reachable_ok [OF assms] sum_list_pos_nonneg [of "flGrants (flowIn t)"] itemCount_nonneg [of "flData (flowIn t)"]
  by (auto simp: flowOk_def)

end

end
