(* ===== verification/Call_Link.thy ===== *)
theory Call_Link
  imports Client_Call Server_Call Flow
begin

text \<open>
  A call between the Go client and the Go server: the client's call object, the server's call object, and
  the frames on their way in each direction.  A connection delivers frames in the order they were
  written; a Router in between keeps that order for each call.  \<open>linkStep\<close> lists what can happen, in any
  order: a frame arrives at either end, the handler sends, reads or returns, the caller reads, sends or
  gives up, a timer or a context fires, a connection stops taking frames or is lost.
\<close>

section \<open>The system\<close>

record link =
  lkClient :: clientState
  lkServer :: goServer
  lkUp :: nat                      \<comment> \<open>frames of the client's connection the server has read\<close>
  lkDown :: nat                    \<comment> \<open>frames of the server's connection the client has read\<close>
  lkStarted :: bool                \<comment> \<open>the call's goroutine has reached its handler\<close>
  lkStream :: streamState          \<comment> \<open>the caller's stream object\<close>
  lkGot :: "string option list"    \<comment> \<open>payloads of the items \<^verbatim>\<open>Recv\<close> has returned\<close>

definition clientConn :: "addr \<Rightarrow> clientState \<Rightarrow> conn" where
  "clientConn a s = csConnObj s (ccConn (csCall s a))"

definition serverConn :: "addr \<Rightarrow> goServer \<Rightarrow> conn" where
  "serverConn b v = seConn (svSession v (scSess (svCall v b)))"

definition pendingUp :: "addr \<Rightarrow> link \<Rightarrow> rframe list" where
  "pendingUp a L = drop (lkUp L) (cnWritten (clientConn a (lkClient L)))"

definition pendingDown :: "addr \<Rightarrow> link \<Rightarrow> rframe list" where
  "pendingDown b L = drop (lkDown L) (cnWritten (serverConn b (lkServer L)))"

definition inputShape :: "string \<Rightarrow> bool" where
  "inputShape sh \<longleftrightarrow> sh = ''client_stream'' \<or> sh = ''duplex''"

definition outputShape :: "string \<Rightarrow> bool" where
  "outputShape sh \<longleftrightarrow> sh = ''server_stream'' \<or> sh = ''duplex''"

text \<open>The item fits in a frame of the connection.\<close>

definition itemFits :: "addr \<Rightarrow> string \<Rightarrow> goServer \<Rightarrow> bool" where
  "itemFits b payload v \<longleftrightarrow>
     (case marshalRFrame ((outputItem (scOutputSequence (svCall v b)) payload)\<lparr>gCallID := gCallID (scOpen (svCall v b))\<rparr>) of
        Some data \<Rightarrow> int (length data) \<le> cnMaxFrame (serverConn b v) | None \<Rightarrow> False)"

abbreviation withClient :: "clientState \<Rightarrow> link \<Rightarrow> link" where
  "withClient s L \<equiv> L\<lparr>lkClient := s\<rparr>"

abbreviation withServer :: "goServer \<Rightarrow> link \<Rightarrow> link" where
  "withServer v L \<equiv> L\<lparr>lkServer := v\<rparr>"

text \<open>What the read loops do with a frame.\<close>

definition clientReads :: "rframe \<Rightarrow> clientState \<Rightarrow> clientState" where
  "clientReads f s = (case map_of (csCalls s) (gCallID f) of Some x \<Rightarrow> deliver x f s | None \<Rightarrow> s)"

definition clientCut :: "addr \<Rightarrow> clientState \<Rightarrow> clientState" where
  "clientCut a s = s\<lparr>csConnObj := (csConnObj s)(ccConn (csCall s a) := (clientConn a s)\<lparr>cnWritable := False\<rparr>)\<rparr>"

definition serverCut :: "addr \<Rightarrow> goServer \<Rightarrow> goServer" where
  "serverCut b v = updSession (scSess (svCall v b)) (\<lambda>s. s\<lparr>seConn := (seConn s)\<lparr>cnWritable := False\<rparr>\<rparr>) v"

definition clientLost :: "addr \<Rightarrow> clientState \<Rightarrow> clientState" where
  "clientLost a s = failCall a (MeshErr lostError)
     (s\<lparr>csConnObj := (csConnObj s)(ccConn (csCall s a) := connClose (clientConn a s))\<rparr>)"

definition gotOf :: "'s \<times> (goerr + 'i) wait \<Rightarrow> rframe list \<Rightarrow> string option list" where
  "gotOf r q = (case snd r of Ready (Inr _) \<Rightarrow> (case filter (\<lambda>f. gKind f = ''stream.item'') q of f # _ \<Rightarrow> [gPayload f] | [] \<Rightarrow> []) | _ \<Rightarrow> [])"

inductive linkStep :: "addr \<Rightarrow> addr \<Rightarrow> link \<Rightarrow> link \<Rightarrow> bool" for a b where
  toClient: "cnOpen (clientConn a (lkClient L)) \<Longrightarrow> pendingDown b L = f # rest \<Longrightarrow>
     linkStep a b L (L\<lparr>lkDown := Suc (lkDown L), lkClient := clientReads f (lkClient L)\<rparr>)"
| toServer: "scSess (svCall (lkServer L) b) \<in> set (svSessions (lkServer L)) \<Longrightarrow> pendingUp a L = f # rest \<Longrightarrow>
     linkStep a b L (L\<lparr>lkUp := Suc (lkUp L), lkServer := handleFrame (scSess (svCall (lkServer L) b)) f (lkServer L)\<rparr>)"
| start: "\<not> lkStarted L \<Longrightarrow> linkStep a b L (L\<lparr>lkStarted := True, lkServer := runStart b (lkServer L)\<rparr>)"
| send: "lkStarted L \<Longrightarrow> outputShape (smStream (scMethod (svCall (lkServer L) b))) \<Longrightarrow> itemFits b payload (lkServer L) \<Longrightarrow>
     linkStep a b L (withServer (fst (sendOutput b (Inr payload) (lkServer L))) L)"
| sendInvalid: "lkStarted L \<Longrightarrow> linkStep a b L (withServer (fst (sendOutput b (Inl err) (lkServer L))) L)"
| closeSend: "lkStarted L \<Longrightarrow> outputShape (smStream (scMethod (svCall (lkServer L) b))) \<Longrightarrow>
     linkStep a b L (withServer (fst (closeOutput b (lkServer L))) L)"
| readInput: "lkStarted L \<Longrightarrow> inputShape (smStream (scMethod (svCall (lkServer L) b))) \<Longrightarrow>
     linkStep a b L (withServer (fst (nextInput b (lkServer L))) L)"
| return: "lkStarted L \<Longrightarrow> linkStep a b L (withServer (runEnd b h encoded (lkServer L)) L)"
| serverDeadline: "linkStep a b L (withServer (updServed b (cancelCtx err) (lkServer L)) L)"
| serverIdle: "scIdle (svCall (lkServer L) b) \<Longrightarrow> linkStep a b L (withServer (idleExpired b (lkServer L)) L)"
| serverNoWrite: "linkStep a b L (withServer (serverCut b (lkServer L)) L)"
| serverGone: "linkStep a b L (withServer (serveEnd (scSess (svCall (lkServer L) b)) (lkServer L)) L)"
| recv: "outputShape (ccStream (csCall (lkClient L) a)) \<Longrightarrow>
     r = Recv fuel (nextFrame a) (consumed a) (abortCall a) (dec :: string option \<Rightarrow> goerr + string) (lkStream L, lkClient L) \<Longrightarrow>
     linkStep a b L (L\<lparr>lkStream := fst (fst r), lkClient := snd (fst r),
        lkGot := lkGot L @ gotOf r (if stDone (lkStream L) then [] else ccQueue (csCall (lkClient L) a))\<rparr>)"
| result: "\<not> outputShape (ccStream (csCall (lkClient L) a)) \<Longrightarrow>
     linkStep a b L (withClient (fst (resultOf a (lkClient L))) L)"
| sendItem: "inputShape (ccStream (csCall (lkClient L) a)) \<Longrightarrow> jsonValid payload \<Longrightarrow>
     linkStep a b L (withClient (fst (sendInput done a payload (lkClient L))) L)"
| endInput: "inputShape (ccStream (csCall (lkClient L) a)) \<Longrightarrow>
     linkStep a b L (withClient (fst (closeInput a (lkClient L))) L)"
| giveUp: "linkStep a b L (withClient (abortCall a err reason (lkClient L)) L)"
| clientNoWrite: "linkStep a b L (withClient (clientCut a (lkClient L)) L)"
| clientGone: "linkStep a b L (withClient (clientLost a (lkClient L)) L)"

section \<open>The two directions as flows\<close>

definition dataOf :: "rframe list \<Rightarrow> int option list" where
  "dataOf fs = concat (map (\<lambda>f. if gKind f = ''stream.item'' then [Some (case gSequence f of Some n \<Rightarrow> n | None \<Rightarrow> 0)]
     else if gKind f = ''stream.end'' then [None] else []) fs)"

definition grantsOf :: "rframe list \<Rightarrow> int list" where
  "grantsOf fs = concat (map (\<lambda>f. if gKind f = ''stream.window'' then [case gCredit f of Some n \<Rightarrow> n | None \<Rightarrow> 0] else []) fs)"

definition itemFrames :: "rframe list \<Rightarrow> rframe list" where
  "itemFrames fs = filter (\<lambda>f. gKind f = ''stream.item'') fs"

definition outFlow :: "addr \<Rightarrow> addr \<Rightarrow> link \<Rightarrow> flow" where
  "outFlow a b L =
     (let c = csCall (lkClient L) a; sc = svCall (lkServer L) b; k = serverConn b (lkServer L) in
      \<lparr>flCredit = cwN (scCredit sc), flNext = scOutputSequence sc, flExact = (cnOpen k \<and> cnWritable k),
       flPClosed = scOutputClosed sc, flData = dataOf (pendingDown b L), flGrants = grantsOf (pendingUp a L),
       flAllowance = ccOutputAllowance c, flExpected = ccExpectedSeq c, flCClosed = ccOutputEnded c,
       flBuffered = length (itemFrames (ccQueue c))\<rparr>)"

definition isInItem :: "inputEv \<Rightarrow> bool" where
  "isInItem ev = (case ev of InItem _ \<Rightarrow> True | InEnd _ \<Rightarrow> False)"

definition inFlow :: "addr \<Rightarrow> addr \<Rightarrow> link \<Rightarrow> flow" where
  "inFlow a b L =
     (let c = csCall (lkClient L) a; sc = svCall (lkServer L) b; k = clientConn a (lkClient L) in
      \<lparr>flCredit = (case ccInputCredit c of Some w \<Rightarrow> cwN w | None \<Rightarrow> 0), flNext = ccInputSeq c,
       flExact = (cnOpen k \<and> cnWritable k \<and> \<not> ccTerminal c), flPClosed = ccInputClosed c,
       flData = dataOf (pendingUp a L), flGrants = grantsOf (pendingDown b L), flAllowance = scInputAllowance sc,
       flExpected = scInputSequence sc, flCClosed = scInputClosed sc, flBuffered = length (filter isInItem (scInput sc))\<rparr>)"

text \<open>The client listens while the call is in its table and not terminal, the server while the call is in
  its session and not terminal.\<close>

definition clientListens :: "addr \<Rightarrow> link \<Rightarrow> bool" where
  "clientListens a L \<longleftrightarrow> \<not> ccTerminal (csCall (lkClient L) a) \<and>
     map_of (csCalls (lkClient L)) (ccId (csCall (lkClient L) a)) = Some a"

definition serverListens :: "addr \<Rightarrow> link \<Rightarrow> bool" where
  "serverListens b L \<longleftrightarrow> \<not> scTerminal (svCall (lkServer L) b) \<and>
     scSess (svCall (lkServer L) b) \<in> set (svSessions (lkServer L)) \<and>
     map_of (seCalls (svSession (lkServer L) (scSess (svCall (lkServer L) b)))) (gCallID (scOpen (svCall (lkServer L) b))) = Some b"

section \<open>What the operations change\<close>

lemma connSend_cases:
  obtains (refused) err where "connSend f c = (c, Some err)"
    | (written) "cnOpen c" "cnWritable c" "connSend f c = (c\<lparr>cnWritten := cnWritten c @ [f]\<rparr>, None)"
proof (cases "marshalRFrame f")
  case None
  then show thesis by (intro refused) (simp add: connSend_def)
next
  case (Some data)
  consider "int (length data) > cnMaxFrame c" | "\<not> int (length data) > cnMaxFrame c" "cnOpen c \<and> cnWritable c"
    | "\<not> int (length data) > cnMaxFrame c" "\<not> (cnOpen c \<and> cnWritable c)" by blast
  then show thesis
  proof cases
    case 1
    then show thesis using Some by (intro refused) (simp add: connSend_def)
  next
    case 2
    then show thesis using Some by (intro written) (simp_all add: connSend_def)
  next
    case 3
    then show thesis using Some by (intro refused) (simp add: connSend_def)
  qed
qed

lemma sendConn_cases:
  obtains (refused) err where "sendConn k f s = (s, Some err)"
    | (written) "cnOpen (csConnObj s k)" "cnWritable (csConnObj s k)"
      "sendConn k f s = (s\<lparr>csConnObj := (csConnObj s)(k := (csConnObj s k)\<lparr>cnWritten := cnWritten (csConnObj s k) @ [f]\<rparr>)\<rparr>, None)"
  by (rule connSend_cases [of f "csConnObj s k"]) (auto simp: sendConn_def)

lemma updSession_id [simp]: "updSession p (\<lambda>s. s\<lparr>seConn := seConn (svSession v p)\<rparr>) v = v"
  by (simp add: updSession_def)

lemma callSend_cases:
  obtains (refused) err where "callSend b f v = (v, Some err)"
    | (written) "cnOpen (serverConn b v)" "cnWritable (serverConn b v)"
      "callSend b f v = (updSession (scSess (svCall v b)) (\<lambda>s. s\<lparr>seConn := (serverConn b v)\<lparr>cnWritten :=
         cnWritten (serverConn b v) @ [f\<lparr>gCallID := gCallID (scOpen (svCall v b))\<rparr>]\<rparr>\<rparr>) v, None)"
proof -
  let ?f = "f\<lparr>gCallID := gCallID (scOpen (svCall v b))\<rparr>"
  show thesis
  proof (cases rule: connSend_cases [of ?f "serverConn b v"])
    case (refused err)
    then have "callSend b f v = (v, Some (case frameTooLarge ''server'' (Some err) of Some e \<Rightarrow> MeshErr e | None \<Rightarrow> err))"
      by (simp add: callSend_def sessionSend_def serverConn_def Let_def split: option.split)
    then show thesis by (rule that(1))
  next
    case written
    then show thesis
      by (intro that(2)) (simp_all add: callSend_def sessionSend_def serverConn_def Let_def frameTooLarge_def)
  qed
qed

lemma updServed_simps [simp]:
  "svCall (updServed b g v) x = (if x = b then g (svCall v b) else svCall v x)"
  "svSession (updServed b g v) = svSession v" "svSessions (updServed b g v) = svSessions v" "svInflight (updServed b g v) = svInflight v"
  "svNext (updServed b g v) = svNext v" "svMaxInflight (updServed b g v) = svMaxInflight v" "svServices (updServed b g v) = svServices v"
  by (simp_all add: updServed_def)

lemma updSession_simps [simp]:
  "svCall (updSession p g v) = svCall v" "svSession (updSession p g v) x = (if x = p then g (svSession v p) else svSession v x)"
  "svSessions (updSession p g v) = svSessions v" "svInflight (updSession p g v) = svInflight v"
  "svNext (updSession p g v) = svNext v" "svMaxInflight (updSession p g v) = svMaxInflight v" "svServices (updSession p g v) = svServices v"
  by (simp_all add: updSession_def)

lemma doneCall_simps [simp]:
  "csCall (doneCall a s) a = (csCall s a)\<lparr>ccTimer := False, ccIdleTimer := False, ccStop := False,
     ccInputCredit := map_option (closeCredit (MeshErr (newError CodeCancelled ''Call is closed''))) (ccInputCredit (csCall s a))\<rparr>"
  "csConnObj (doneCall a s) = csConnObj s"
  "map_of (csCalls (doneCall a s)) i = (if i = ccId (csCall s a) \<and> map_of (csCalls s) i = Some a then None else map_of (csCalls s) i)"
  by (auto simp: doneCall_def Let_def)

definition failing :: "clientCall \<Rightarrow> bool" where
  "failing c \<longleftrightarrow> \<not> (ccFailure c \<noteq> None \<or> (ccTerminal c \<and> length (ccQueue c) > 0))"

lemma failCall_simps [simp]:
  "csCall (failCall a err s) a = (if failing (csCall s a) then (csCall s a)\<lparr>ccFailure := Some err, ccTerminal := True,
     ccTimer := False, ccIdleTimer := False, ccStop := False,
     ccInputCredit := map_option (closeCredit (MeshErr (newError CodeCancelled ''Call is closed''))) (ccInputCredit (csCall s a))\<rparr>
     else csCall s a)"
  "csConnObj (failCall a err s) = csConnObj s"
  "map_of (csCalls (failCall a err s)) i = (if failing (csCall s a) \<and> i = ccId (csCall s a) \<and> map_of (csCalls s) i = Some a then None
     else map_of (csCalls s) i)"
  by (auto simp: failCall_def failing_def Let_def)

lemma closeCredit_n [simp]: "cwN (closeCredit err w) = cwN w"
  by (simp add: closeCredit_def)

end
