(* ===== verification/Call_Shape.thy ===== *)
theory Call_Shape
  imports Call_Link
begin

text \<open>
  What stays fixed on a link: both ends agree on the call's identifier and shape, and every frame on its
  way is one the other end knows how to read.  Each operation of the client and of the server is shown
  to append only such frames to its connection and to leave the rest of this alone.
\<close>

section \<open>Frames on their way\<close>

definition goodUp :: "string \<Rightarrow> string \<Rightarrow> rframe \<Rightarrow> bool" where
  "goodUp cid sh f \<longleftrightarrow> gCallID f = cid \<and>
     (gKind f = ''call.cancel'' \<or>
      gKind f = ''stream.item'' \<and> inputShape sh \<and> gDirection f = ''client'' \<and> gSequence f \<noteq> None \<or>
      gKind f = ''stream.end'' \<and> inputShape sh \<and> gDirection f = ''client'' \<or>
      gKind f = ''stream.window'' \<and> outputShape sh \<and> gDirection f = ''server'' \<and> (\<exists>n. gCredit f = Some n \<and> 0 < n))"

definition goodDown :: "string \<Rightarrow> string \<Rightarrow> rframe \<Rightarrow> bool" where
  "goodDown cid sh f \<longleftrightarrow> gCallID f = cid \<and>
     (gKind f = ''call.result'' \<or> gKind f = ''call.error'' \<or>
      gKind f = ''stream.item'' \<and> outputShape sh \<and> gDirection f = ''server'' \<and> gSequence f \<noteq> None \<or>
      gKind f = ''stream.end'' \<and> outputShape sh \<and> gDirection f = ''server'' \<or>
      gKind f = ''stream.window'' \<and> inputShape sh \<and> gDirection f = ''client'' \<and> (\<exists>n. gCredit f = Some n \<and> 0 < n))"

definition quiet :: "serverCall \<Rightarrow> bool" where
  "quiet c \<longleftrightarrow> scInputAllowance c = 0 \<and> filter isInItem (scInput c) = []"

text \<open>A call that has ended takes no more input, and a call that has failed has ended.\<close>

definition closedOk :: "clientCall \<Rightarrow> bool" where
  "closedOk c \<longleftrightarrow> (ccFailure c \<noteq> None \<longrightarrow> ccTerminal c) \<and>
     (ccTerminal c \<longrightarrow> (case ccInputCredit c of Some w \<Rightarrow> cwClosed w \<noteq> None | None \<Rightarrow> True))"

definition linkShape :: "addr \<Rightarrow> addr \<Rightarrow> link \<Rightarrow> bool" where
  "linkShape a b L \<longleftrightarrow>
     (let s = lkClient L; v = lkServer L; c = csCall s a; sc = svCall v b; sh = ccStream c in
      smStream (scMethod sc) = sh \<and> smInput (scMethod sc) = inputShape sh \<and> smOutput (scMethod sc) = outputShape sh \<and>
      (ccInputCredit c \<noteq> None) = inputShape sh \<and> closedOk c \<and> gCallID (scOpen sc) = ccId c \<and>
      map_of (csCalls s) (ccId c) \<in> {None, Some a} \<and>
      map_of (seCalls (svSession v (scSess sc))) (ccId c) \<in> {None, Some b} \<and>
      lkUp L \<le> length (cnWritten (clientConn a s)) \<and> lkDown L \<le> length (cnWritten (serverConn b v)) \<and>
      list_all (goodUp (ccId c) sh) (pendingUp a L) \<and> list_all (goodDown (ccId c) sh) (pendingDown b L) \<and>
      (\<not> lkStarted L \<longrightarrow> quiet sc))"

section \<open>The client's operations\<close>

text \<open>An operation of the client that appends the frames \<open>fs\<close>.\<close>

definition clientStep :: "addr \<Rightarrow> clientState \<Rightarrow> clientState \<Rightarrow> rframe list \<Rightarrow> bool" where
  "clientStep a s s' fs \<longleftrightarrow>
     ccConn (csCall s' a) = ccConn (csCall s a) \<and> ccId (csCall s' a) = ccId (csCall s a) \<and>
     ccStream (csCall s' a) = ccStream (csCall s a) \<and>
     (ccInputCredit (csCall s' a) = None) = (ccInputCredit (csCall s a) = None) \<and>
     (ccTerminal (csCall s a) \<longrightarrow> ccTerminal (csCall s' a)) \<and> (closedOk (csCall s a) \<longrightarrow> closedOk (csCall s' a)) \<and>
     cnWritten (clientConn a s') = cnWritten (clientConn a s) @ fs \<and>
     (cnOpen (clientConn a s') \<longrightarrow> cnOpen (clientConn a s)) \<and> (cnWritable (clientConn a s') \<longrightarrow> cnWritable (clientConn a s)) \<and>
     (map_of (csCalls s') (ccId (csCall s a)) = map_of (csCalls s) (ccId (csCall s a)) \<or> map_of (csCalls s') (ccId (csCall s a)) = None)"

abbreviation goodUps :: "addr \<Rightarrow> clientState \<Rightarrow> rframe list \<Rightarrow> bool" where
  "goodUps a s \<equiv> list_all (goodUp (ccId (csCall s a)) (ccStream (csCall s a)))"

text \<open>The operation appends only frames the server knows how to read, of the kinds \<open>K\<close>.\<close>

definition clientDoes :: "string set \<Rightarrow> addr \<Rightarrow> clientState \<Rightarrow> clientState \<Rightarrow> bool" where
  "clientDoes K a s s' \<longleftrightarrow> (\<exists>fs. clientStep a s s' fs \<and> goodUps a s fs \<and> gKind ` set fs \<subseteq> K)"

lemma clientStep_trans: "clientStep a s t fs \<Longrightarrow> clientStep a t u gs \<Longrightarrow> clientStep a s u (fs @ gs)"
  unfolding clientStep_def by (elim conjE, intro conjI) (simp_all, metis)

lemma clientStep_refl [simp]: "clientStep a s s []"
  by (simp add: clientStep_def)

lemma clientConn_upd [simp]: "ccConn (g (csCall s a)) = ccConn (csCall s a) \<Longrightarrow> clientConn a (updCall a g s) = clientConn a s"
  by (simp add: clientConn_def)

lemma clientConn_done [simp]: "clientConn a (doneCall a s) = clientConn a s" "clientConn a (failCall a err s) = clientConn a s"
  by (simp_all add: clientConn_def)

lemma clientStep_upd:
  assumes "\<And>c. ccConn (g c) = ccConn c" "\<And>c. ccId (g c) = ccId c" "\<And>c. ccStream (g c) = ccStream c"
    "(ccInputCredit (g (csCall s a)) = None) = (ccInputCredit (csCall s a) = None)" "\<And>c. ccTerminal c \<Longrightarrow> ccTerminal (g c)"
    "closedOk (csCall s a) \<Longrightarrow> closedOk (g (csCall s a))"
  shows "clientStep a s (updCall a g s) []"
  using assms by (simp add: clientStep_def)

lemma closeCredit_closed [simp]: "\<exists>y. cwClosed (closeCredit err w) = Some y"
  by (auto simp: closeCredit_def)

lemma clientStep_terminal:
  "clientStep a s (doneCall a (updCall a (\<lambda>c. c\<lparr>ccTerminal := True, ccTrailers := m\<rparr>) s)) []"
  by (simp add: clientStep_def closedOk_def split: option.split)

lemma clientStep_fail: "clientStep a s (failCall a err s) []"
  by (simp add: clientStep_def closedOk_def split: option.split)

lemma clientDoes_trans: "clientDoes K a s t \<Longrightarrow> clientDoes K a t u \<Longrightarrow> clientDoes K a s u"
proof -
  assume "clientDoes K a s t" "clientDoes K a t u"
  then obtain fs gs where f: "clientStep a s t fs" "goodUps a s fs" "gKind ` set fs \<subseteq> K"
    and g: "clientStep a t u gs" "goodUps a t gs" "gKind ` set gs \<subseteq> K" unfolding clientDoes_def by blast
  have "goodUps a s gs" using g(2) f(1) by (simp add: clientStep_def)
  then show ?thesis unfolding clientDoes_def using clientStep_trans [OF f(1) g(1)] f(2,3) g(3)
    by (intro exI [of _ "fs @ gs"]) (simp add: image_Un)
qed

lemma clientDoes_silent: "clientStep a s t [] \<Longrightarrow> clientDoes K a s t"
  unfolding clientDoes_def by (intro exI [of _ "[]"]) simp

lemma clientDoes_refl [simp]: "clientDoes K a s s"
  by (simp add: clientDoes_silent)

lemma clientDoes_send:
  assumes "goodUp (ccId (csCall s a)) (ccStream (csCall s a)) f" "gKind f \<in> K" "k = ccConn (csCall s a)"
  shows "clientDoes K a s (fst (sendConn k f s))"
proof (cases rule: sendConn_cases [of k f s])
  case (refused err)
  then show ?thesis by simp
next
  case written
  then have "clientStep a s (fst (sendConn k f s)) [f]" using assms(3) by (simp add: clientStep_def clientConn_def)
  then show ?thesis unfolding clientDoes_def using assms by (intro exI [of _ "[f]"]) simp
qed

lemma goodUp_cancel: "goodUp (ccId c) sh (cancelFor (ccId c) reason)"
  by (simp add: goodUp_def cancelFor_def zeroRFrame_def)

lemma clientDoes_abort:
  assumes "''call.cancel'' \<in> K"
  shows "clientDoes K a s (abortCall a err reason s)"
proof (cases "ccTerminal (csCall s a)")
  case True
  then show ?thesis by (simp add: abortCall_def)
next
  case False
  let ?t = "failCall a err s" and ?f = "cancelFor (ccId (csCall s a)) reason"
  have "clientDoes K a ?t (fst (sendConn (ccConn (csCall s a)) ?f ?t))"
  proof (rule clientDoes_send)
    show "goodUp (ccId (csCall ?t a)) (ccStream (csCall ?t a)) ?f" using goodUp_cancel [of "csCall s a"] by simp
  qed (simp_all add: assms cancelFor_def zeroRFrame_def)
  from clientDoes_trans [OF clientDoes_silent [OF clientStep_fail] this] show ?thesis
    using False by (simp add: abortCall_def Let_def)
qed

lemma clientDoes_consumed:
  assumes "outputShape (ccStream (csCall s a))" "''stream.window'' \<in> K"
  shows "clientDoes K a s (consumed a s)"
proof (cases "\<not> ccOutputEnded (csCall s a) \<and> \<not> ccTerminal (csCall s a)")
  case True
  let ?t = "updCall a (\<lambda>c. c\<lparr>ccOutputAllowance := ccOutputAllowance c + 1\<rparr>) s"
  let ?f = "windowFor (ccId (csCall s a)) ''server'' 1"
  have "clientDoes K a ?t (fst (sendConn (ccConn (csCall s a)) ?f ?t))"
    by (rule clientDoes_send) (simp_all add: assms goodUp_def windowFor_def zeroRFrame_def)
  moreover have "clientDoes K a s ?t" by (rule clientDoes_silent, rule clientStep_upd) (simp_all add: closedOk_def)
  ultimately show ?thesis using clientDoes_trans True by (auto simp: consumed_def Let_def)
next
  case False
  then show ?thesis by (auto simp: consumed_def Let_def)
qed

lemma clientStep_next: "clientStep a s (fst (nextFrame a s)) []"
  by (auto simp: nextFrame_def closedOk_def Let_def intro!: clientStep_upd split: list.split option.split)

lemma clientStep_enqueue: "clientStep a s (enqueue a f s) []"
  unfolding enqueue_def by (rule clientStep_upd) (simp_all add: closedOk_def)

lemma clientStep_arm: "clientStep a s (armIdle a s) []"
  unfolding armIdle_def by (rule clientStep_upd) (simp_all add: closedOk_def)

lemma clientStep_deliver: "clientStep a s (deliver a f s) []"
proof -
  have t: "clientStep a s t [] \<Longrightarrow> clientStep a t u [] \<Longrightarrow> clientStep a s u []" for t u using clientStep_trans by fastforce
  let ?item = "updCall a (\<lambda>c. c\<lparr>ccOutputAllowance := ccOutputAllowance c - 1, ccExpectedSeq := wrap64 (ccExpectedSeq c + 1)\<rparr>) s"
  let ?last = "updCall a (\<lambda>c. c\<lparr>ccTerminal := True, ccTrailers := gMetadata f\<rparr>) s"
  have 1: "clientStep a s (enqueue a f (armIdle a ?item)) []"
    by (rule t [OF t [OF clientStep_upd clientStep_arm] clientStep_enqueue]) (simp_all add: closedOk_def)
  have 2: "clientStep a s (enqueue a f (doneCall a ?last)) []"
    by (rule t [OF clientStep_terminal clientStep_enqueue])
  have 3: "clientStep a s (updCall a (\<lambda>c. c\<lparr>ccInputCredit := Some (grantCredit n w)\<rparr>) s) []" if "ccInputCredit (csCall s a) = Some w" for n w
    using that by (intro clientStep_upd) (simp_all add: closedOk_def grantCredit_def)
  have 4: "clientStep a s (updCall a (\<lambda>c. c\<lparr>ccOutputEnded := True, ccIdleTimer := False\<rparr>) s) []"
    by (rule clientStep_upd) (simp_all add: closedOk_def)
  show ?thesis unfolding deliver_def Let_def
    by (auto simp: 1 2 4 clientStep_fail clientStep_enqueue intro!: 3 split: option.split)
qed

lemma clientStep_result: "clientStep a s (fst (resultOf a s)) []"
proof (induction a s rule: resultOf.induct)
  case (1 a s)
  obtain t r where n: "nextFrame a s = (t, r)" by fastforce
  have st: "clientStep a s t []" using clientStep_next [of a s] n by simp
  show ?case
  proof (cases "\<exists>f. r = Ready (Inr f) \<and> gKind f \<noteq> ''call.result'' \<and> gKind f \<noteq> ''call.error''")
    case True
    then obtain f where f: "r = Ready (Inr f)" "gKind f \<noteq> ''call.result''" "gKind f \<noteq> ''call.error''" by blast
    have "clientStep a t (fst (resultOf a t)) []" using 1 [OF n [symmetric]] f by simp
    then have "clientStep a s (fst (resultOf a t)) []" using clientStep_trans [OF st] by fastforce
    then show ?thesis using n f by (simp add: resultOf.simps [of a s])
  next
    case False
    then have "fst (resultOf a s) = t" using n
      by (subst resultOf.simps) (auto split: wait.split sum.split option.split)
    then show ?thesis using st by simp
  qed
qed

text \<open>\<^verbatim>\<open>Recv\<close> takes frames from the queue up to the first it returns.\<close>

lemma recvFrame_state: "snd (fst (recvFrame used abrt dec f (st, s))) =
    (if gKind f = ''stream.item'' then (case dec (gPayload f) of Inl err \<Rightarrow> abrt err ''invalid_output_item'' s | Inr _ \<Rightarrow> used s) else s)"
  by (simp add: recvFrame_def split: sum.split option.split)

lemma clientDoes_recvLoop:
  assumes "outputShape (ccStream (csCall s a))" "''stream.window'' \<in> K" "''call.cancel'' \<in> K"
  shows "clientDoes K a s (snd (fst (recvLoop fuel (nextFrame a) (consumed a) (abortCall a) dec (st, s))))"
  using assms(1)
proof (induction fuel arbitrary: s rule: less_induct)
  case (less fuel)
  obtain t r where n: "nextFrame a s = (t, r)" by fastforce
  have st: "clientStep a s t []" using clientStep_next [of a s] n by simp
  have out: "outputShape (ccStream (csCall t a))" using st less.prems by (simp add: clientStep_def)
  have frame: "clientDoes K a t (snd (fst (recvFrame (consumed a) (abortCall a) dec f (st, t))))" for f
    using clientDoes_consumed [OF out assms(2)] clientDoes_abort [OF assms(3)] by (simp add: recvFrame_state split: sum.split)
  show ?case
    by (rule clientDoes_trans [OF clientDoes_silent [OF st]], subst recvLoop.simps)
      (use n frame less.IH [OF _ out] in \<open>auto split: wait.split sum.split nat.split\<close>)
qed

lemma clientDoes_recv:
  assumes "outputShape (ccStream (csCall s a))" "''stream.window'' \<in> K" "''call.cancel'' \<in> K"
  shows "clientDoes K a s (snd (fst (Recv fuel (nextFrame a) (consumed a) (abortCall a) dec (st, s))))"
  using clientDoes_recvLoop [OF assms] by (cases "stDone st") (simp_all add: Recv_def)

lemma clientStep_reserve: "clientStep a s (fst (reserveInput done a s)) []"
  unfolding reserveInput_def Let_def
  by (cases "ccInputCredit (csCall s a)")
    (auto simp: closedOk_def acquire_def intro!: clientStep_upd split: wait.split option.split prod.split if_split)

lemma clientDoes_write:
  assumes "inputShape (ccStream (csCall s a))" "''stream.item'' \<in> K" "''call.cancel'' \<in> K"
  shows "clientDoes K a s (fst (writeInput a seq payload s))"
proof -
  let ?f = "clientItem (ccId (csCall s a)) seq payload"
  obtain t err where t: "sendConn (ccConn (csCall s a)) ?f s = (t, err)" by fastforce
  have "clientDoes K a s (fst (sendConn (ccConn (csCall s a)) ?f s))"
    by (rule clientDoes_send) (simp_all add: assms goodUp_def clientItem_def zeroRFrame_def)
  then have 1: "clientDoes K a s t" unfolding t by simp
  have 2: "clientDoes K a s (abortCall a (MeshErr e) ''frame_too_large'' t)" for e
    by (rule clientDoes_trans [OF 1 clientDoes_abort [OF assms(3)]])
  show ?thesis using t 1 2 by (simp add: writeInput_def Let_def split: option.split)
qed

lemma clientDoes_sendInput:
  assumes "inputShape (ccStream (csCall s a))" "''stream.item'' \<in> K" "''call.cancel'' \<in> K"
  shows "clientDoes K a s (fst (sendInput done a payload s))"
proof -
  obtain t r where n: "reserveInput done a s = (t, r)" by fastforce
  have st: "clientStep a s t []" using clientStep_reserve [of a s "done"] n by simp
  have i: "inputShape (ccStream (csCall t a))" using st assms(1) by (simp add: clientStep_def)
  have "fst (sendInput done a payload s) = (case r of Ready (Inr seq) \<Rightarrow> fst (writeInput a seq payload t) | _ \<Rightarrow> t)"
    using n by (simp add: sendInput_def split: wait.split sum.split prod.split)
  then show ?thesis using clientDoes_trans [OF clientDoes_silent [OF st]] clientDoes_write [OF i assms(2,3)]
    by (simp split: wait.split sum.split)
qed

lemma clientDoes_closeInput:
  assumes "inputShape (ccStream (csCall s a))" "''stream.end'' \<in> K"
  shows "clientDoes K a s (fst (closeInput a s))"
proof -
  let ?t = "updCall a (\<lambda>c. c\<lparr>ccInputClosed := True\<rparr>) s" and ?f = "endFor (ccId (csCall s a)) ''client''"
  have 1: "clientDoes K a s ?t" by (rule clientDoes_silent, rule clientStep_upd) (simp_all add: closedOk_def)
  have 2: "clientDoes K a ?t (fst (sendConn (ccConn (csCall s a)) ?f ?t))"
    by (rule clientDoes_send) (simp_all add: assms goodUp_def endFor_def zeroRFrame_def)
  show ?thesis using clientDoes_trans [OF 1 2] by (simp add: closeInput_def Let_def)
qed

lemma clientStep_cut: "clientStep a s (clientCut a s) []"
  by (simp add: clientStep_def clientCut_def clientConn_def)

lemma clientStep_lost: "clientStep a s (clientLost a s) []"
proof -
  let ?t = "s\<lparr>csConnObj := (csConnObj s)(ccConn (csCall s a) := connClose (clientConn a s))\<rparr>"
  have "clientStep a s ?t []" by (simp add: clientStep_def clientConn_def connClose_def)
  from clientStep_trans [OF this clientStep_fail] show ?thesis by (simp add: clientLost_def)
qed

lemma pendingUp_client:
  assumes "clientStep a (lkClient L) s' fs" "lkUp L \<le> length (cnWritten (clientConn a (lkClient L)))"
  shows "pendingUp a (L\<lparr>lkClient := s'\<rparr>) = pendingUp a L @ fs"
  using assms by (simp add: pendingUp_def clientStep_def)

lemma linkShape_client:
  assumes "linkShape a b L" "clientDoes UNIV a (lkClient L) s'"
  shows "linkShape a b (L\<lparr>lkClient := s'\<rparr>)"
proof -
  obtain fs where fs: "clientStep a (lkClient L) s' fs" "goodUps a (lkClient L) fs" using assms(2) unfolding clientDoes_def by blast
  let ?s = "lkClient L" and ?L = "L\<lparr>lkClient := s'\<rparr>"
  have p: "pendingUp a ?L = pendingUp a L @ fs"
    using pendingUp_client [OF fs(1)] assms(1) by (simp add: linkShape_def Let_def)
  have q: "pendingDown b ?L = pendingDown b L" by (simp add: pendingDown_def)
  have c: "ccId (csCall s' a) = ccId (csCall ?s a)" "ccStream (csCall s' a) = ccStream (csCall ?s a)"
      "(ccInputCredit (csCall s' a) = None) = (ccInputCredit (csCall ?s a) = None)"
      "length (cnWritten (clientConn a s')) = length (cnWritten (clientConn a ?s)) + length fs"
      "map_of (csCalls s') (ccId (csCall ?s a)) = map_of (csCalls ?s) (ccId (csCall ?s a)) \<or> map_of (csCalls s') (ccId (csCall ?s a)) = None"
    using fs(1) unfolding clientStep_def by simp_all
  have k: "closedOk (csCall s' a)" using assms(1) fs(1) unfolding linkShape_def clientStep_def Let_def by blast
  have "map_of (csCalls ?s) (ccId (csCall ?s a)) \<in> {None, Some a}" using assms(1) unfolding linkShape_def Let_def by blast
  then have m: "map_of (csCalls s') (ccId (csCall ?s a)) \<in> {None, Some a}" using c(5) by (elim disjE) simp_all
  have u: "lkUp L \<le> length (cnWritten (clientConn a s'))" using c(4) assms(1) unfolding linkShape_def Let_def by linarith
  have g: "list_all (goodUp (ccId (csCall ?s a)) (ccStream (csCall ?s a))) (pendingUp a L @ fs)"
    using assms(1) fs(2) unfolding linkShape_def Let_def list_all_append by blast
  have f: "lkClient ?L = s'" "lkServer ?L = lkServer L" "lkUp ?L = lkUp L" "lkDown ?L = lkDown L" "lkStarted ?L = lkStarted L"
    by simp_all
  show ?thesis
    using assms(1) m u g k unfolding linkShape_def Let_def p q f c(1,2,3) by blast
qed

lemma linkShape_cong:
  assumes "linkShape a b L" "lkStarted L \<longrightarrow> lkStarted L'" "lkClient L' = lkClient L" "lkServer L' = lkServer L" "lkUp L' = lkUp L" "lkDown L' = lkDown L"
  shows "linkShape a b L'"
  using assms by (auto simp: linkShape_def Let_def pendingUp_def pendingDown_def)

section \<open>The server's operations\<close>

text \<open>An operation of the server that appends the frames \<open>fs\<close>.\<close>

definition serverStep :: "addr \<Rightarrow> goServer \<Rightarrow> goServer \<Rightarrow> rframe list \<Rightarrow> bool" where
  "serverStep b v v' fs \<longleftrightarrow>
     scSess (svCall v' b) = scSess (svCall v b) \<and> scOpen (svCall v' b) = scOpen (svCall v b) \<and>
     scMethod (svCall v' b) = scMethod (svCall v b) \<and>
     (scTerminal (svCall v b) \<longrightarrow> scTerminal (svCall v' b)) \<and>
     cnWritten (serverConn b v') = cnWritten (serverConn b v) @ fs \<and>
     (cnOpen (serverConn b v') \<longrightarrow> cnOpen (serverConn b v)) \<and> (cnWritable (serverConn b v') \<longrightarrow> cnWritable (serverConn b v)) \<and>
     (scSess (svCall v b) \<in> set (svSessions v') \<longrightarrow> scSess (svCall v b) \<in> set (svSessions v)) \<and>
     (let i = gCallID (scOpen (svCall v b)); p = scSess (svCall v b) in
      map_of (seCalls (svSession v' p)) i = map_of (seCalls (svSession v p)) i \<or> map_of (seCalls (svSession v' p)) i = None)"

abbreviation goodDowns :: "addr \<Rightarrow> goServer \<Rightarrow> rframe list \<Rightarrow> bool" where
  "goodDowns b v \<equiv> list_all (goodDown (gCallID (scOpen (svCall v b))) (smStream (scMethod (svCall v b))))"

text \<open>The operation appends only frames the client knows how to read, of the kinds \<open>K\<close>.\<close>

definition serverDoes :: "string set \<Rightarrow> addr \<Rightarrow> goServer \<Rightarrow> goServer \<Rightarrow> bool" where
  "serverDoes K b v v' \<longleftrightarrow> (\<exists>fs. serverStep b v v' fs \<and> goodDowns b v fs \<and> gKind ` set fs \<subseteq> K)"

lemma serverStep_trans: "serverStep b v w fs \<Longrightarrow> serverStep b w x gs \<Longrightarrow> serverStep b v x (fs @ gs)"
  unfolding serverStep_def Let_def by (elim conjE, intro conjI) (simp_all, metis)

lemma serverDoes_trans: "serverDoes K b v w \<Longrightarrow> serverDoes K b w x \<Longrightarrow> serverDoes K b v x"
proof -
  assume "serverDoes K b v w" "serverDoes K b w x"
  then obtain fs gs where f: "serverStep b v w fs" "goodDowns b v fs" "gKind ` set fs \<subseteq> K"
    and g: "serverStep b w x gs" "goodDowns b w gs" "gKind ` set gs \<subseteq> K"
    unfolding serverDoes_def by blast
  have "goodDowns b v gs" using g(2) f(1) by (simp add: serverStep_def)
  then show ?thesis unfolding serverDoes_def using serverStep_trans [OF f(1) g(1)] f(2,3) g(3) by (intro exI [of _ "fs @ gs"]) (simp add: image_Un)
qed

lemma serverStep_refl [simp]: "serverStep b v v []"
  by (simp add: serverStep_def)

lemma serverDoes_silent: "serverStep b v w [] \<Longrightarrow> serverDoes K b v w"
  unfolding serverDoes_def by (intro exI [of _ "[]"]) simp

lemma serverDoes_refl [simp]: "serverDoes K b v v"
  by (simp add: serverDoes_silent)

lemma serverConn_upd [simp]: "scSess (g (svCall v b)) = scSess (svCall v b) \<Longrightarrow> serverConn b (updServed b g v) = serverConn b v"
  by (simp add: serverConn_def)

lemma serverDoes_upd:
  assumes "\<And>c. scSess (g c) = scSess c" "\<And>c. scOpen (g c) = scOpen c" "\<And>c. scMethod (g c) = scMethod c" "\<And>c. scTerminal c \<Longrightarrow> scTerminal (g c)"
  shows "serverDoes K b v (updServed b g v)"
  using assms by (intro serverDoes_silent) (simp add: serverStep_def)

lemma serverDoes_send:
  assumes "goodDown (gCallID (scOpen (svCall v b))) (smStream (scMethod (svCall v b))) (f\<lparr>gCallID := gCallID (scOpen (svCall v b))\<rparr>)"
    and "gKind f \<in> K"
  shows "serverDoes K b v (fst (callSend b f v))"
proof (cases rule: callSend_cases [of b f v])
  case (refused err)
  then show ?thesis by simp
next
  case written
  then have "serverStep b v (fst (callSend b f v)) [f\<lparr>gCallID := gCallID (scOpen (svCall v b))\<rparr>]"
    by (simp add: serverStep_def serverConn_def)
  then show ?thesis unfolding serverDoes_def using assms by (intro exI [of _ "[f\<lparr>gCallID := gCallID (scOpen (svCall v b))\<rparr>]"]) simp
qed

lemma serverDoes_cleanup: "serverDoes K b v (cleanup b v)"
  by (intro serverDoes_silent) (simp add: cleanup_def serverStep_def serverConn_def Let_def cancelCtx_def)

definition terminals :: "string set" where
  "terminals = {''call.result'', ''call.error''}"

definition terminalKind :: "rframe \<Rightarrow> bool" where
  "terminalKind f \<longleftrightarrow> gKind f = ''call.result'' \<or> gKind f = ''call.error''"

lemma terminalKind_good: "terminalKind f \<Longrightarrow> goodDown cid sh (f\<lparr>gCallID := cid\<rparr>)"
  by (auto simp: terminalKind_def goodDown_def)

lemma errorReply_terminal [simp]: "terminalKind (errorReply e)"
  by (simp add: terminalKind_def errorReply_def zeroRFrame_def)

lemma serverDoes_finish:
  assumes "terminalKind f" "terminals \<subseteq> K"
  shows "serverDoes K b v (finish b f v)"
proof (cases "scTerminal (svCall v b)")
  case True
  then show ?thesis by (simp add: finish_def)
next
  case False
  let ?v = "updServed b (\<lambda>c. c\<lparr>scTerminal := True\<rparr>) v"
  define g where "g = (if length (scTrailers (svCall v b)) > 0 then f\<lparr>gMetadata := Some (scTrailers (svCall v b))\<rparr> else f)"
  have k: "terminalKind g" "gKind g \<in> K" using assms by (auto simp: g_def terminalKind_def terminals_def)
  obtain w err where w: "callSend b g ?v = (w, err)" by fastforce
  have 1: "serverDoes K b v ?v" by (rule serverDoes_upd) simp_all
  have "serverDoes K b ?v (fst (callSend b g ?v))" by (rule serverDoes_send [OF terminalKind_good [OF k(1)] k(2)])
  then have 2: "serverDoes K b ?v w" unfolding w by simp
  have 3: "serverDoes K b w (fst (callSend b (errorReply e) w))" for e
    by (rule serverDoes_send [OF terminalKind_good [OF errorReply_terminal]])
      (use assms(2) in \<open>simp add: terminals_def errorReply_def zeroRFrame_def\<close>)
  have "serverDoes K b w (case err of None \<Rightarrow> w | Some x \<Rightarrow> (case AsError x of
      Some e \<Rightarrow> if Reason e = ''frame_too_large'' then fst (callSend b (errorReply e) w) else w | None \<Rightarrow> w))" (is "serverDoes K b w ?x")
    using 3 by (simp split: option.split)
  from serverDoes_trans [OF serverDoes_trans [OF 1 2] serverDoes_trans [OF this serverDoes_cleanup]]
  have "serverDoes K b v (cleanup b ?x)" .
  then show ?thesis using False w by (simp add: finish_def Let_def g_def)
qed

lemma abortServed_simps [simp]: "scSess (abortServed e c) = scSess c" "scOpen (abortServed e c) = scOpen c" "scMethod (abortServed e c) = scMethod c"
  "scTerminal (abortServed e c) = scTerminal c" "cwN (scCredit (abortServed e c)) = cwN (scCredit c)"
  "scOutputSequence (abortServed e c) = scOutputSequence c" "scOutputClosed (abortServed e c) = scOutputClosed c"
  "scInputAllowance (abortServed e c) = scInputAllowance c" "scInputSequence (abortServed e c) = scInputSequence c"
  "filter isInItem (scInput (abortServed e c)) = filter isInItem (scInput c)"
  by (simp_all add: abortServed_def pushInput_def cancelCtx_def isInItem_def)

lemma cancelCtx_simps [simp]: "scSess (cancelCtx e c) = scSess c" "scOpen (cancelCtx e c) = scOpen c" "scMethod (cancelCtx e c) = scMethod c"
  "scTerminal (cancelCtx e c) = scTerminal c" "scCredit (cancelCtx e c) = scCredit c"
  "scOutputSequence (cancelCtx e c) = scOutputSequence c" "scOutputClosed (cancelCtx e c) = scOutputClosed c"
  "scInputAllowance (cancelCtx e c) = scInputAllowance c" "scInputSequence (cancelCtx e c) = scInputSequence c"
  "scInput (cancelCtx e c) = scInput c" "scInputClosed (cancelCtx e c) = scInputClosed c"
  by (simp_all add: cancelCtx_def)

lemma serverDoes_abort_finish:
  assumes "terminalKind f" "terminals \<subseteq> K" shows "serverDoes K b v (finish b f (updServed b (abortServed e) v))"
  by (rule serverDoes_trans [OF serverDoes_upd serverDoes_finish [OF assms]]) simp_all

lemma serverDoes_protocolError: "terminals \<subseteq> K \<Longrightarrow> serverDoes K b v (protocolError b m v)"
  unfolding protocolError_def Let_def by (rule serverDoes_abort_finish) simp_all

lemma serverDoes_idle: "terminals \<subseteq> K \<Longrightarrow> serverDoes K b v (idleExpired b v)"
  unfolding idleExpired_def Let_def by (rule serverDoes_abort_finish) simp_all

lemma pushInput_simps [simp]: "scSess (pushInput d e c) = scSess c" "scOpen (pushInput d e c) = scOpen c" "scMethod (pushInput d e c) = scMethod c"
  "scTerminal (pushInput d e c) = scTerminal c" "scCredit (pushInput d e c) = scCredit c" "scOutputSequence (pushInput d e c) = scOutputSequence c"
  "scOutputClosed (pushInput d e c) = scOutputClosed c" "scInputAllowance (pushInput d e c) = scInputAllowance c"
  "scInputSequence (pushInput d e c) = scInputSequence c"
  by (simp_all add: pushInput_def split: option.split)

lemma armInput_simps [simp]: "scSess (armInput c) = scSess c" "scOpen (armInput c) = scOpen c" "scMethod (armInput c) = scMethod c"
  "scTerminal (armInput c) = scTerminal c" "scCredit (armInput c) = scCredit c" "scOutputSequence (armInput c) = scOutputSequence c"
  "scOutputClosed (armInput c) = scOutputClosed c" "scInputAllowance (armInput c) = scInputAllowance c"
  "scInputSequence (armInput c) = scInputSequence c" "scInput (armInput c) = scInput c" "scInputClosed (armInput c) = scInputClosed c"
  by (simp_all add: armInput_def split: option.split)

lemma serverDoes_receive:
  assumes k: "terminals \<subseteq> K"
  shows "serverDoes K b v (receiveFrame b f v)"
proof -
  have 1: "serverDoes K b v (updServed b (\<lambda>c. c\<lparr>scCredit := grantCredit n (scCredit c)\<rparr>) v)" for n by (rule serverDoes_upd) simp_all
  have 2: "serverDoes K b v (updServed b (\<lambda>c. pushInput (Some d) None (armInput
      (c\<lparr>scInputAllowance := scInputAllowance c - 1, scInputSequence := wrap64 (scInputSequence c + 1)\<rparr>))) v)" for d
    by (rule serverDoes_upd) simp_all
  let ?e = "updServed b (\<lambda>c. c\<lparr>scInputClosed := True, scIdle := False\<rparr>) v"
  have 3: "serverDoes K b v ?e" by (rule serverDoes_upd) simp_all
  have 4: "serverDoes K b v (updServed b (pushInput None None) ?e)" by (rule serverDoes_trans [OF 3 serverDoes_upd]) simp_all
  have 5: "serverDoes K b v (protocolError b m ?e)" for m by (rule serverDoes_trans [OF 3 serverDoes_protocolError [OF k]])
  have 6: "serverDoes K b v (finish b (errorReply e) (updServed b (abortServed e') v))" for e e' by (rule serverDoes_abort_finish) (simp_all add: k)
  show ?thesis unfolding receiveFrame_def Let_def
    by (simp add: 1 2 4 5 6 serverDoes_protocolError [OF k] split: option.split)
qed

lemma serverDoes_handle:
  assumes "terminals \<subseteq> K" "gKind f \<noteq> ''call.open''" "map_of (seCalls (svSession v (scSess (svCall v b)))) (gCallID f) \<in> {None, Some b}"
  shows "serverDoes K b v (handleFrame (scSess (svCall v b)) f v)"
proof -
  let ?p = "scSess (svCall v b)"
  have "serverDoes K b v (updSession ?p (\<lambda>s. s\<lparr>seAcked := seAcked s + seDrainAcks s, seDrainAcks := 0\<rparr>) v)"
    by (rule serverDoes_silent) (simp add: serverStep_def serverConn_def)
  then show ?thesis using assms serverDoes_receive [OF assms(1), of b v f] by (auto simp: handleFrame_def)
qed

lemma goodDown_window: "inputShape sh \<Longrightarrow> 0 < n \<Longrightarrow> goodDown cid sh ((inputWindow n)\<lparr>gCallID := cid\<rparr>)"
  by (simp add: goodDown_def inputWindow_def zeroRFrame_def)

lemma serverDoes_window:
  assumes "inputShape (smStream (scMethod (svCall v b)))" "0 < n" "''stream.window'' \<in> K"
  shows "serverDoes K b v (fst (callSend b (inputWindow n) v))"
  by (rule serverDoes_send [OF goodDown_window [OF assms(1,2)]]) (simp add: inputWindow_def zeroRFrame_def assms(3))

lemma serverDoes_nextInput:
  assumes "inputShape (smStream (scMethod (svCall v b)))" "''stream.window'' \<in> K"
  shows "serverDoes K b v (fst (nextInput b v))"
proof (cases "\<exists>d rest. scInput (svCall v b) = InItem d # rest")
  case True
  then obtain d rest where d: "scInput (svCall v b) = InItem d # rest" by blast
  let ?v = "updServed b (\<lambda>c. c\<lparr>scInput := rest\<rparr>) v"
  let ?w = "updServed b (\<lambda>c. c\<lparr>scInputAllowance := scInputAllowance c + 1\<rparr>) ?v"
  have 1: "serverDoes K b v ?v" by (rule serverDoes_upd) simp_all
  have 2: "serverDoes K b ?v ?w" by (rule serverDoes_upd) simp_all
  have 3: "serverDoes K b ?w (fst (callSend b (inputWindow 1) ?w))" by (rule serverDoes_window) (simp_all add: assms)
  show ?thesis using d 1 serverDoes_trans [OF 1 serverDoes_trans [OF 2 3]] by (simp add: nextInput_def Let_def)
next
  case False
  then have "fst (nextInput b v) = v" by (auto simp: nextInput_def Let_def split: list.split inputEv.split option.split)
  then show ?thesis by simp
qed

lemma goodDown_item: "outputShape sh \<Longrightarrow> goodDown cid sh ((outputItem n payload)\<lparr>gCallID := cid\<rparr>)"
  by (simp add: goodDown_def outputItem_def zeroRFrame_def)

lemma goodDown_end: "outputShape sh \<Longrightarrow> goodDown cid sh (outputEnd\<lparr>gCallID := cid\<rparr>)"
  by (simp add: goodDown_def outputEnd_def zeroRFrame_def)

lemma serverDoes_writeOutput:
  assumes "outputShape (smStream (scMethod (svCall v b)))" "''stream.item'' \<in> K"
  shows "serverDoes K b v (fst (writeOutput b payload v))"
proof -
  let ?w = "updServed b (\<lambda>c. c\<lparr>scOutputSequence := wrap64 (scOutputSequence (svCall v b) + 1)\<rparr>) v"
  let ?f = "outputItem (scOutputSequence (svCall v b)) payload"
  obtain x err where x: "callSend b ?f ?w = (x, err)" by fastforce
  have 1: "serverDoes K b v ?w" by (rule serverDoes_upd) simp_all
  have 2: "serverDoes K b ?w (fst (callSend b ?f ?w))" by (rule serverDoes_send) (simp_all add: goodDown_item assms, simp add: outputItem_def zeroRFrame_def assms)
  have 3: "serverDoes K b x (updServed b (cancelCtx e) x)" for e by (rule serverDoes_upd) simp_all
  have 4: "serverDoes K b v x" using serverDoes_trans [OF 1 2] x by simp
  then have "serverDoes K b v (updServed b (cancelCtx e) x)" for e using 3 serverDoes_trans by blast
  then show ?thesis using x 4 by (auto simp: writeOutput_def Let_def split: option.split)
qed

lemma serverDoes_sendOutput:
  assumes "outputShape (smStream (scMethod (svCall v b)))" "''stream.item'' \<in> K"
  shows "serverDoes K b v (fst (sendOutput b (Inr payload) v))"
proof -
  obtain w r where r: "acquire (scCause (svCall v b)) (scCredit (svCall v b)) = (w, r)" by fastforce
  let ?v = "updServed b (\<lambda>c. c\<lparr>scCredit := w\<rparr>) v"
  have 1: "serverDoes K b v ?v" by (rule serverDoes_upd) simp_all
  have 2: "serverDoes K b ?v (fst (writeOutput b payload ?v))" by (rule serverDoes_writeOutput) (simp_all add: assms)
  show ?thesis using r serverDoes_trans [OF 1 2]
    by (auto simp: sendOutput_def Let_def split: wait.split option.split prod.split)
qed

lemma serverDoes_sendInvalid: "serverDoes K b v (fst (sendOutput b (Inl err) v))"
  by (simp add: sendOutput_def, rule serverDoes_upd) simp_all

lemma serverDoes_closeOutput:
  assumes "outputShape (smStream (scMethod (svCall v b)))" "''stream.end'' \<in> K"
  shows "serverDoes K b v (fst (closeOutput b v))"
proof -
  let ?v = "updServed b (\<lambda>c. c\<lparr>scOutputClosed := True\<rparr>) v"
  have 1: "serverDoes K b v ?v" by (rule serverDoes_upd) simp_all
  have 2: "serverDoes K b ?v (fst (callSend b outputEnd ?v))" by (rule serverDoes_send) (simp_all add: goodDown_end assms, simp add: outputEnd_def zeroRFrame_def assms)
  show ?thesis using serverDoes_trans [OF 1 2] by (auto simp: closeOutput_def Let_def)
qed

lemma serverDoes_runStart:
  assumes "''stream.window'' \<in> K"
  shows "serverDoes K b v (runStart b v)"
proof (cases "inputShape (smStream (scMethod (svCall v b)))")
  case True
  let ?v = "updServed b (\<lambda>c. c\<lparr>scInputAllowance := initialStreamCredit\<rparr>) v"
  let ?w = "fst (callSend b (inputWindow initialStreamCredit) ?v)"
  have 1: "serverDoes K b v ?v" by (rule serverDoes_upd) simp_all
  have 2: "serverDoes K b ?v ?w" by (rule serverDoes_window) (simp_all add: True initialStreamCredit_def assms)
  have 3: "serverDoes K b ?w (updServed b armInput ?w)" by (rule serverDoes_upd) simp_all
  show ?thesis using serverDoes_trans [OF 1 serverDoes_trans [OF 2 3]] True by (simp add: runStart_def inputShape_def)
next
  case False
  then show ?thesis by (simp add: runStart_def inputShape_def)
qed

lemma runEnd_finishes:
  assumes "''stream.end'' \<in> K"
  obtains w f where "serverDoes K b v w" "terminalKind f" "runEnd b h encoded v = finish b f w"
    "w = v \<or> w = fst (closeOutput b v) \<and> outputShape (smStream (scMethod (svCall v b)))"
proof -
  let ?m = "scMethod (svCall v b)" and ?e = "invoked (svCall v b) h"
  define r where "r = (if ?e = None \<and> (smStream ?m = ''server_stream'' \<or> smStream ?m = ''duplex'') then closeOutput b v else (v, ?e))"
  obtain w err where w: "r = (w, err)" by fastforce
  have c: "w = v \<or> w = fst (closeOutput b v) \<and> outputShape (smStream ?m)"
    using w unfolding r_def outputShape_def by (metis fst_conv)
  then have d: "serverDoes K b v w" using serverDoes_closeOutput [of v b, OF _ assms] serverDoes_refl by blast
  have "\<exists>f. terminalKind f \<and> runEnd b h encoded v = finish b f w"
  proof (cases err)
    case (Some x)
    then have "runEnd b h encoded v = finish b (errorReply (errorOf (svCall w b) x)) w"
      unfolding runEnd_def Let_def r_def [symmetric] w by simp
    then show ?thesis using errorReply_terminal by blast
  next
    case None
    define f where "f = (if smResponse ?m then (case encoded of
        Inl x \<Rightarrow> errorReply (errorOf (svCall w b) x)
      | Inr p \<Rightarrow> zeroRFrame\<lparr>gKind := ''call.result'', gPayload := Some p\<rparr>) else zeroRFrame\<lparr>gKind := ''call.result''\<rparr>)"
    have "runEnd b h encoded v = finish b f w"
      unfolding runEnd_def Let_def r_def [symmetric] w None f_def by (simp split: sum.split)
    moreover have "terminalKind f" by (simp add: f_def terminalKind_def errorReply_def split: sum.split)
    ultimately show ?thesis by blast
  qed
  then show thesis using that c d by blast
qed

lemma serverDoes_runEnd:
  assumes "terminals \<subseteq> K" "''stream.end'' \<in> K"
  shows "serverDoes K b v (runEnd b h encoded v)"
proof (rule runEnd_finishes [OF assms(2), of b v h encoded])
  fix w f
  assume "serverDoes K b v w" "terminalKind f" "runEnd b h encoded v = finish b f w"
  then show ?thesis using serverDoes_trans serverDoes_finish [OF _ assms(1)] by metis
qed

lemma serverDoes_cut: "serverDoes K b v (serverCut b v)"
  by (rule serverDoes_silent) (simp add: serverCut_def serverStep_def serverConn_def)

text \<open>Aborting every call of a session touches the calls only.\<close>

lemma abortAll_same:
  "svSession (fold (\<lambda>(cid, x). updServed x (abortServed e)) cs v) = svSession v \<and>
   svSessions (fold (\<lambda>(cid, x). updServed x (abortServed e)) cs v) = svSessions v"
  by (induction cs arbitrary: v) auto

lemma abortAll_call:
  assumes "\<And>c. P (abortServed e c) = P c"
  shows "P (svCall (fold (\<lambda>(cid, x). updServed x (abortServed e)) cs v) b) = P (svCall v b)"
  by (induction cs arbitrary: v) (auto simp: assms)

lemma serveEnd_call:
  assumes "\<And>c. P (abortServed lostError c) = P c"
  shows "P (svCall (serveEnd p v) b) = P (svCall v b)"
  using abortAll_call [where P = P and e = lostError, OF assms, of "seCalls (svSession v p)" "v\<lparr>svSessions := removeAll p (svSessions v)\<rparr>" b]
  by (simp add: serveEnd_def Let_def)

lemma serveEnd_simps [simp]:
  "svSessions (serveEnd p v) = removeAll p (svSessions v)"
  "svSession (serveEnd p v) x = (if x = p then (svSession v p)\<lparr>seConn := connClose (seConn (svSession v p))\<rparr> else svSession v x)"
  by (simp_all add: serveEnd_def Let_def abortAll_same)

lemma serverDoes_gone: "serverDoes K b v (serveEnd (scSess (svCall v b)) v)"
  by (rule serverDoes_silent)
    (simp add: serverStep_def serverConn_def connClose_def serveEnd_call [where P = scSess] serveEnd_call [where P = scOpen]
      serveEnd_call [where P = scMethod] serveEnd_call [where P = scTerminal])

lemma pendingDown_server:
  assumes "serverStep b (lkServer L) v' fs" "lkDown L \<le> length (cnWritten (serverConn b (lkServer L)))"
  shows "pendingDown b (L\<lparr>lkServer := v'\<rparr>) = pendingDown b L @ fs"
  using assms by (simp add: pendingDown_def serverStep_def)

lemma linkShape_server:
  assumes "linkShape a b L" "serverDoes UNIV b (lkServer L) v'" "\<not> lkStarted L \<longrightarrow> quiet (svCall v' b)"
  shows "linkShape a b (L\<lparr>lkServer := v'\<rparr>)"
proof -
  let ?v = "lkServer L" and ?L = "L\<lparr>lkServer := v'\<rparr>"
  obtain fs where fs: "serverStep b ?v v' fs" "goodDowns b ?v fs" using assms(2) unfolding serverDoes_def by blast
  have p: "pendingDown b ?L = pendingDown b L @ fs"
    using pendingDown_server [OF fs(1)] assms(1) by (simp add: linkShape_def Let_def)
  have q: "pendingUp a ?L = pendingUp a L" by (simp add: pendingUp_def)
  have i: "gCallID (scOpen (svCall ?v b)) = ccId (csCall (lkClient L) a)" "smStream (scMethod (svCall ?v b)) = ccStream (csCall (lkClient L) a)"
    using assms(1) unfolding linkShape_def Let_def by blast+
  have c: "scSess (svCall v' b) = scSess (svCall ?v b)" "scOpen (svCall v' b) = scOpen (svCall ?v b)" "scMethod (svCall v' b) = scMethod (svCall ?v b)"
      "length (cnWritten (serverConn b v')) = length (cnWritten (serverConn b ?v)) + length fs"
      "map_of (seCalls (svSession v' (scSess (svCall ?v b)))) (ccId (csCall (lkClient L) a)) =
         map_of (seCalls (svSession ?v (scSess (svCall ?v b)))) (ccId (csCall (lkClient L) a)) \<or>
       map_of (seCalls (svSession v' (scSess (svCall ?v b)))) (ccId (csCall (lkClient L) a)) = None"
    using fs(1) unfolding serverStep_def Let_def i by simp_all
  have "map_of (seCalls (svSession ?v (scSess (svCall ?v b)))) (ccId (csCall (lkClient L) a)) \<in> {None, Some b}"
    using assms(1) unfolding linkShape_def Let_def by blast
  then have m: "map_of (seCalls (svSession v' (scSess (svCall ?v b)))) (ccId (csCall (lkClient L) a)) \<in> {None, Some b}"
    using c(5) by (elim disjE) simp_all
  have u: "lkDown L \<le> length (cnWritten (serverConn b v'))" using c(4) assms(1) unfolding linkShape_def Let_def by linarith
  have g: "list_all (goodDown (ccId (csCall (lkClient L) a)) (ccStream (csCall (lkClient L) a))) (pendingDown b L @ fs)"
    using assms(1) fs(2) unfolding linkShape_def Let_def list_all_append i by blast
  have f: "lkServer ?L = v'" "lkClient ?L = lkClient L" "lkUp ?L = lkUp L" "lkDown ?L = lkDown L" "lkStarted ?L = lkStarted L"
    by simp_all
  show ?thesis using assms(1,3) m u g unfolding linkShape_def Let_def p q f c(1,2,3) by blast
qed

section \<open>Every step keeps the shape\<close>

lemma callSend_call [simp]: "svCall (fst (callSend b f v)) = svCall v"
  by (rule callSend_cases [of b f v]) simp_all

lemma cleanup_simps [simp]:
  "scInput (svCall (cleanup b v) b) = scInput (svCall v b)" "scInputAllowance (svCall (cleanup b v) b) = scInputAllowance (svCall v b)"
  "scInputSequence (svCall (cleanup b v) b) = scInputSequence (svCall v b)" "scInputClosed (svCall (cleanup b v) b) = scInputClosed (svCall v b)"
  "scOutputSequence (svCall (cleanup b v) b) = scOutputSequence (svCall v b)" "scOutputClosed (svCall (cleanup b v) b) = scOutputClosed (svCall v b)"
  "cwN (scCredit (svCall (cleanup b v) b)) = cwN (scCredit (svCall v b))" "scTerminal (svCall (cleanup b v) b) = scTerminal (svCall v b)"
  by (simp_all add: cleanup_def Let_def)

lemma finish_shape:
  obtains "scTerminal (svCall v b)" "finish b f v = v"
  | w where "finish b f v = cleanup b w" "svCall w = (svCall v)(b := (svCall v b)\<lparr>scTerminal := True\<rparr>)" "\<not> scTerminal (svCall v b)"
proof (cases "scTerminal (svCall v b)")
  case True
  then show thesis by (intro that(1)) (simp_all add: finish_def)
next
  case False
  let ?v = "updServed b (\<lambda>c. c\<lparr>scTerminal := True\<rparr>) v"
  let ?f = "if length (scTrailers (svCall v b)) > 0 then f\<lparr>gMetadata := Some (scTrailers (svCall v b))\<rparr> else f"
  obtain w err where w: "callSend b ?f ?v = (w, err)" by fastforce
  have c: "svCall w = svCall ?v" using callSend_call [of b ?f ?v] unfolding w by simp
  define x where "x = (case err of None \<Rightarrow> w | Some x \<Rightarrow> (case AsError x of
      Some e \<Rightarrow> if Reason e = ''frame_too_large'' then fst (callSend b (errorReply e) w) else w | None \<Rightarrow> w))"
  have "finish b f v = cleanup b x" using False w by (simp add: finish_def Let_def x_def)
  moreover have "svCall x = svCall ?v" using c by (simp add: x_def split: option.split)
  moreover have "svCall ?v = (svCall v)(b := (svCall v b)\<lparr>scTerminal := True\<rparr>)" by (auto simp: fun_eq_iff)
  ultimately show thesis using that(2) False by simp
qed

lemma finish_simps [simp]:
  "scInput (svCall (finish b f v) b) = scInput (svCall v b)" "scInputAllowance (svCall (finish b f v) b) = scInputAllowance (svCall v b)"
  "scInputSequence (svCall (finish b f v) b) = scInputSequence (svCall v b)" "scInputClosed (svCall (finish b f v) b) = scInputClosed (svCall v b)"
  "scOutputSequence (svCall (finish b f v) b) = scOutputSequence (svCall v b)" "scOutputClosed (svCall (finish b f v) b) = scOutputClosed (svCall v b)"
  "cwN (scCredit (svCall (finish b f v) b)) = cwN (scCredit (svCall v b))" "scTerminal (svCall (finish b f v) b)"
  by (rule finish_shape [of v b f]; simp)+

lemma quiet_receive: "quiet (svCall v b) \<Longrightarrow> quiet (svCall (receiveFrame b f v) b)"
  unfolding receiveFrame_def Let_def
  by (simp add: quiet_def inputExpected_def protocolError_def pushInput_def isInItem_def Let_def split: option.split)

lemma quiet_handle:
  assumes "quiet (svCall v b)" "gKind f \<noteq> ''call.open''" "map_of (seCalls (svSession v p)) (gCallID f) \<in> {None, Some b}"
  shows "quiet (svCall (handleFrame p f v) b)"
  using assms quiet_receive by (auto simp: handleFrame_def)

lemma linkShape_down:
  assumes "linkShape a b L" "pendingDown b L = f # rest"
  shows "linkShape a b (L\<lparr>lkDown := Suc (lkDown L)\<rparr>)"
    and "pendingDown b (L\<lparr>lkDown := Suc (lkDown L)\<rparr>) = rest" and "goodDown (ccId (csCall (lkClient L) a)) (ccStream (csCall (lkClient L) a)) f"
proof -
  let ?L = "L\<lparr>lkDown := Suc (lkDown L)\<rparr>"
  have d: "drop (lkDown L) (cnWritten (serverConn b (lkServer L))) = f # rest" using assms(2) by (simp add: pendingDown_def)
  then have l: "Suc (lkDown L) \<le> length (cnWritten (serverConn b (lkServer L)))"
    by (metis drop_eq_Nil leI less_eq_Suc_le list.distinct(1) not_less)
  show p: "pendingDown b ?L = rest" using d by (simp add: pendingDown_def) (metis drop_Suc list.sel(3) tl_drop)
  have g: "list_all (goodDown (ccId (csCall (lkClient L) a)) (ccStream (csCall (lkClient L) a))) (f # rest)"
    using assms unfolding linkShape_def Let_def by metis
  then show "goodDown (ccId (csCall (lkClient L) a)) (ccStream (csCall (lkClient L) a)) f" by simp
  have q: "pendingUp a ?L = pendingUp a L" by (simp add: pendingUp_def)
  have r: "list_all (goodDown (ccId (csCall (lkClient L) a)) (ccStream (csCall (lkClient L) a))) rest" using g by simp
  have s: "lkServer ?L = lkServer L" "lkClient ?L = lkClient L" "lkUp ?L = lkUp L" "lkDown ?L = Suc (lkDown L)" "lkStarted ?L = lkStarted L"
    by simp_all
  show "linkShape a b ?L" using assms(1) l r unfolding linkShape_def Let_def p q s by blast
qed

lemma linkShape_up:
  assumes "linkShape a b L" "pendingUp a L = f # rest"
  shows "linkShape a b (L\<lparr>lkUp := Suc (lkUp L)\<rparr>)"
    and "pendingUp a (L\<lparr>lkUp := Suc (lkUp L)\<rparr>) = rest" and "goodUp (ccId (csCall (lkClient L) a)) (ccStream (csCall (lkClient L) a)) f"
proof -
  let ?L = "L\<lparr>lkUp := Suc (lkUp L)\<rparr>"
  have d: "drop (lkUp L) (cnWritten (clientConn a (lkClient L))) = f # rest" using assms(2) by (simp add: pendingUp_def)
  then have l: "Suc (lkUp L) \<le> length (cnWritten (clientConn a (lkClient L)))"
    by (metis drop_eq_Nil leI less_eq_Suc_le list.distinct(1) not_less)
  show p: "pendingUp a ?L = rest" using d by (simp add: pendingUp_def) (metis drop_Suc list.sel(3) tl_drop)
  have g: "list_all (goodUp (ccId (csCall (lkClient L) a)) (ccStream (csCall (lkClient L) a))) (f # rest)"
    using assms unfolding linkShape_def Let_def by metis
  then show "goodUp (ccId (csCall (lkClient L) a)) (ccStream (csCall (lkClient L) a)) f" by simp
  have q: "pendingDown b ?L = pendingDown b L" by (simp add: pendingDown_def)
  have r: "list_all (goodUp (ccId (csCall (lkClient L) a)) (ccStream (csCall (lkClient L) a))) rest" using g by simp
  have s: "lkServer ?L = lkServer L" "lkClient ?L = lkClient L" "lkUp ?L = Suc (lkUp L)" "lkDown ?L = lkDown L" "lkStarted ?L = lkStarted L"
    by simp_all
  show "linkShape a b ?L" using assms(1) l r unfolding linkShape_def Let_def p q s by blast
qed

lemma clientReads_shape:
  assumes "linkShape a b L" "goodDown (ccId (csCall (lkClient L) a)) sh f"
  shows "clientReads f (lkClient L) = (if map_of (csCalls (lkClient L)) (ccId (csCall (lkClient L) a)) = Some a then deliver a f (lkClient L) else lkClient L)"
proof -
  have "map_of (csCalls (lkClient L)) (ccId (csCall (lkClient L) a)) \<in> {None, Some a}" using assms(1) unfolding linkShape_def Let_def by blast
  then show ?thesis using assms(2) by (auto simp: clientReads_def goodDown_def)
qed

lemma goodUp_notOpen: "goodUp cid sh f \<Longrightarrow> gKind f \<noteq> ''call.open'' \<and> gCallID f = cid"
  by (auto simp: goodUp_def)

lemma linkShape_start:
  assumes "linkShape a b L"
  shows "linkShape a b (L\<lparr>lkStarted := True, lkServer := runStart b (lkServer L)\<rparr>)"
proof -
  have "linkShape a b (L\<lparr>lkStarted := True\<rparr>)" using assms by (rule linkShape_cong) simp_all
  from linkShape_server [OF this, of "runStart b (lkServer L)"] show ?thesis by (simp add: serverDoes_runStart)
qed

lemma linkShape_step: "linkStep a b L L' \<Longrightarrow> linkShape a b L \<Longrightarrow> linkShape a b L'"
proof (induction rule: linkStep.induct)
  case (toClient L f rest)
  note d = linkShape_down [OF toClient(3,2)]
  have "clientStep a (lkClient L) (clientReads f (lkClient L)) []"
    using clientReads_shape [OF toClient(3) d(3)] clientStep_deliver by simp
  then show ?case using linkShape_client [OF d(1) clientDoes_silent] by simp
next
  case (toServer L f rest)
  note u = linkShape_up [OF toServer(3,2)]
  let ?v = "lkServer L" and ?p = "scSess (svCall (lkServer L) b)"
  have f: "gKind f \<noteq> ''call.open''" "map_of (seCalls (svSession ?v ?p)) (gCallID f) \<in> {None, Some b}"
    using goodUp_notOpen [OF u(3)] toServer(3) by (auto simp: linkShape_def Let_def)
  have "\<not> lkStarted L \<Longrightarrow> quiet (svCall (handleFrame ?p f ?v) b)"
    using quiet_handle [OF _ f] toServer(3) unfolding linkShape_def Let_def by blast
  then show ?case using linkShape_server [OF u(1), of "handleFrame ?p f ?v"] serverDoes_handle [OF _ f] by simp
next
  case (start L)
  then show ?case using linkShape_start by blast
next
  case (send L payload)
  then show ?case using linkShape_server serverDoes_sendOutput by simp
next
  case (sendInvalid L err)
  then show ?case using linkShape_server serverDoes_sendInvalid by simp
next
  case (closeSend L)
  then show ?case using linkShape_server serverDoes_closeOutput by simp
next
  case (readInput L)
  then show ?case using linkShape_server serverDoes_nextInput by simp
next
  case (return L h encoded)
  then show ?case using linkShape_server serverDoes_runEnd by simp
next
  case (serverDeadline L err)
  have "serverDoes UNIV b (lkServer L) (updServed b (cancelCtx err) (lkServer L))" by (rule serverDoes_upd) simp_all
  moreover have "\<not> lkStarted L \<longrightarrow> quiet (svCall (lkServer L) b)" using serverDeadline unfolding linkShape_def Let_def by blast
  ultimately show ?case using serverDeadline linkShape_server by (simp add: quiet_def)
next
  case (serverIdle L)
  have "\<not> lkStarted L \<longrightarrow> quiet (svCall (lkServer L) b)" using serverIdle unfolding linkShape_def Let_def by blast
  then show ?case using serverIdle linkShape_server serverDoes_idle by (simp add: quiet_def idleExpired_def Let_def)
next
  case (serverNoWrite L)
  have "\<not> lkStarted L \<longrightarrow> quiet (svCall (lkServer L) b)" using serverNoWrite unfolding linkShape_def Let_def by blast
  then show ?case using serverNoWrite linkShape_server serverDoes_cut by (simp add: serverCut_def)
next
  case (serverGone L)
  have "\<not> lkStarted L \<longrightarrow> quiet (svCall (lkServer L) b)" using serverGone unfolding linkShape_def Let_def by blast
  then show ?case using serverGone linkShape_server serverDoes_gone serveEnd_call [where P = quiet] by (simp add: quiet_def)
next
  case (recv L r fuel dec)
  have "clientDoes UNIV a (lkClient L) (snd (fst r))" unfolding recv(2) by (rule clientDoes_recv [OF recv(1)]) simp_all
  from linkShape_client [OF recv(3) this] show ?case by (rule linkShape_cong) simp_all
next
  case (result L)
  then show ?case using linkShape_client clientDoes_silent [OF clientStep_result] by blast
next
  case (sendItem L payload "done")
  then show ?case using linkShape_client clientDoes_sendInput by blast
next
  case (endInput L)
  then show ?case using linkShape_client clientDoes_closeInput by blast
next
  case (giveUp L err reason)
  then show ?case using linkShape_client clientDoes_abort by blast
next
  case (clientNoWrite L)
  then show ?case using linkShape_client clientDoes_silent [OF clientStep_cut] by blast
next
  case (clientGone L)
  then show ?case using linkShape_client clientDoes_silent [OF clientStep_lost] by blast
qed

end
