(* ===== verification/Call_Flow.thy ===== *)
theory Call_Flow
  imports Call_Shape
begin

text \<open>
  Both directions of a call are credited streams: every step of the link is a move of the abstract flow
  of each direction, as long as its consumer listens.  The two interpretations of \<open>credited_stream\<close> are at
  the end.
\<close>

section \<open>Reading a flow off the frames\<close>

lemma dataOf_simps [simp]: "dataOf [] = []" "dataOf (fs @ gs) = dataOf fs @ dataOf gs"
  "dataOf (f # fs) = (if gKind f = ''stream.item'' then [Some (case gSequence f of Some n \<Rightarrow> n | None \<Rightarrow> 0)]
     else if gKind f = ''stream.end'' then [None] else []) @ dataOf fs"
  by (simp_all add: dataOf_def)

lemma grantsOf_simps [simp]: "grantsOf [] = []" "grantsOf (fs @ gs) = grantsOf fs @ grantsOf gs"
  "grantsOf (f # fs) = (if gKind f = ''stream.window'' then [case gCredit f of Some n \<Rightarrow> n | None \<Rightarrow> 0] else []) @ grantsOf fs"
  by (simp_all add: grantsOf_def)

lemma dataOf_none: "gKind ` set fs \<subseteq> K \<Longrightarrow> ''stream.item'' \<notin> K \<Longrightarrow> ''stream.end'' \<notin> K \<Longrightarrow> dataOf fs = []"
  by (induction fs) auto

lemma grantsOf_none: "gKind ` set fs \<subseteq> K \<Longrightarrow> ''stream.window'' \<notin> K \<Longrightarrow> grantsOf fs = []"
  by (induction fs) auto

lemma flowMoves_exact: "\<not> e \<longrightarrow> y = x\<lparr>flExact := False\<rparr> \<Longrightarrow> e \<longrightarrow> y = x \<Longrightarrow> flowMoves x y"
  by (cases e) (auto intro: flowMoves_step flowMove.cutOff)

lemma shape_bounds:
  assumes "linkShape a b L"
  shows "lkUp L \<le> length (cnWritten (clientConn a (lkClient L)))" "lkDown L \<le> length (cnWritten (serverConn b (lkServer L)))"
  using assms unfolding linkShape_def Let_def by blast+

text \<open>Steps of one end that do not concern a direction.\<close>

lemma out_client:
  assumes "linkShape a b L" "clientDoes K a (lkClient L) s'" "''stream.window'' \<notin> K"
    and "ccOutputAllowance (csCall s' a) = ccOutputAllowance (csCall (lkClient L) a)"
      "ccExpectedSeq (csCall s' a) = ccExpectedSeq (csCall (lkClient L) a)"
      "ccOutputEnded (csCall s' a) = ccOutputEnded (csCall (lkClient L) a)"
      "length (itemFrames (ccQueue (csCall s' a))) \<le> length (itemFrames (ccQueue (csCall (lkClient L) a)))"
  shows "flowMoves (outFlow a b L) (outFlow a b (L\<lparr>lkClient := s'\<rparr>))"
proof -
  obtain fs where fs: "clientStep a (lkClient L) s' fs" "gKind ` set fs \<subseteq> K" using assms(2) unfolding clientDoes_def by blast
  have p: "pendingUp a (L\<lparr>lkClient := s'\<rparr>) = pendingUp a L @ fs" using pendingUp_client [OF fs(1) shape_bounds(1) [OF assms(1)]] .
  have q: "pendingDown b (L\<lparr>lkClient := s'\<rparr>) = pendingDown b L" by (simp add: pendingDown_def)
  have "outFlow a b (L\<lparr>lkClient := s'\<rparr>) = (outFlow a b L)\<lparr>flBuffered := length (itemFrames (ccQueue (csCall s' a)))\<rparr>"
    unfolding outFlow_def Let_def p q using grantsOf_none [OF fs(2) assms(3)] assms(4-6) by simp
  moreover have "length (itemFrames (ccQueue (csCall s' a))) \<le> flBuffered (outFlow a b L)" using assms(7) by (simp add: outFlow_def Let_def)
  ultimately show ?thesis using flowMoves_step [OF flowMove.takeSilent] by metis
qed

lemma in_client:
  assumes "linkShape a b L" "clientDoes K a (lkClient L) s'" "''stream.item'' \<notin> K" "''stream.end'' \<notin> K"
    and "map_option cwN (ccInputCredit (csCall s' a)) = map_option cwN (ccInputCredit (csCall (lkClient L) a))"
      "ccInputSeq (csCall s' a) = ccInputSeq (csCall (lkClient L) a)" "ccInputClosed (csCall s' a) = ccInputClosed (csCall (lkClient L) a)"
  shows "flowMoves (inFlow a b L) (inFlow a b (L\<lparr>lkClient := s'\<rparr>))"
proof -
  let ?c = "csCall (lkClient L) a" and ?c' = "csCall s' a" and ?k = "clientConn a (lkClient L)" and ?k' = "clientConn a s'"
  obtain fs where fs: "clientStep a (lkClient L) s' fs" "gKind ` set fs \<subseteq> K" using assms(2) unfolding clientDoes_def by blast
  have p: "pendingUp a (L\<lparr>lkClient := s'\<rparr>) = pendingUp a L @ fs" using pendingUp_client [OF fs(1) shape_bounds(1) [OF assms(1)]] .
  have q: "pendingDown b (L\<lparr>lkClient := s'\<rparr>) = pendingDown b L" by (simp add: pendingDown_def)
  have n: "(case ccInputCredit ?c' of Some w \<Rightarrow> cwN w | None \<Rightarrow> 0) = (case ccInputCredit ?c of Some w \<Rightarrow> cwN w | None \<Rightarrow> 0)"
    using assms(5) by (cases "ccInputCredit ?c"; cases "ccInputCredit ?c'") simp_all
  have m: "cnOpen ?k' \<and> cnWritable ?k' \<and> \<not> ccTerminal ?c' \<longrightarrow> cnOpen ?k \<and> cnWritable ?k \<and> \<not> ccTerminal ?c"
    using fs(1) unfolding clientStep_def by blast
  have "inFlow a b (L\<lparr>lkClient := s'\<rparr>) = (inFlow a b L)\<lparr>flExact := (cnOpen ?k' \<and> cnWritable ?k' \<and> \<not> ccTerminal ?c')\<rparr>"
    unfolding inFlow_def Let_def p q using dataOf_none [OF fs(2) assms(3,4)] assms(6,7) n by simp
  moreover have "flExact (inFlow a b L) = (cnOpen ?k \<and> cnWritable ?k \<and> \<not> ccTerminal ?c)" by (simp add: inFlow_def Let_def)
  ultimately show ?thesis using m by (intro flowMoves_exact [of "cnOpen ?k' \<and> cnWritable ?k' \<and> \<not> ccTerminal ?c'"]) auto
qed

lemma out_server:
  assumes "linkShape a b L" "serverDoes K b (lkServer L) v'" "''stream.item'' \<notin> K" "''stream.end'' \<notin> K"
    and "cwN (scCredit (svCall v' b)) = cwN (scCredit (svCall (lkServer L) b))"
      "scOutputSequence (svCall v' b) = scOutputSequence (svCall (lkServer L) b)" "scOutputClosed (svCall v' b) = scOutputClosed (svCall (lkServer L) b)"
  shows "flowMoves (outFlow a b L) (outFlow a b (L\<lparr>lkServer := v'\<rparr>))"
proof -
  let ?k = "serverConn b (lkServer L)" and ?k' = "serverConn b v'"
  obtain fs where fs: "serverStep b (lkServer L) v' fs" "gKind ` set fs \<subseteq> K" using assms(2) unfolding serverDoes_def by blast
  have p: "pendingDown b (L\<lparr>lkServer := v'\<rparr>) = pendingDown b L @ fs" using pendingDown_server [OF fs(1) shape_bounds(2) [OF assms(1)]] .
  have q: "pendingUp a (L\<lparr>lkServer := v'\<rparr>) = pendingUp a L" by (simp add: pendingUp_def)
  have m: "cnOpen ?k' \<and> cnWritable ?k' \<longrightarrow> cnOpen ?k \<and> cnWritable ?k" using fs(1) unfolding serverStep_def by blast
  have "outFlow a b (L\<lparr>lkServer := v'\<rparr>) = (outFlow a b L)\<lparr>flExact := (cnOpen ?k' \<and> cnWritable ?k')\<rparr>"
    unfolding outFlow_def Let_def p q using dataOf_none [OF fs(2) assms(3,4)] assms(5-7) by simp
  moreover have "flExact (outFlow a b L) = (cnOpen ?k \<and> cnWritable ?k)" by (simp add: outFlow_def Let_def)
  ultimately show ?thesis using m by (intro flowMoves_exact [of "cnOpen ?k' \<and> cnWritable ?k'"]) auto
qed

lemma in_server:
  assumes "linkShape a b L" "serverDoes K b (lkServer L) v'" "''stream.window'' \<notin> K"
    and "scInputAllowance (svCall v' b) = scInputAllowance (svCall (lkServer L) b)"
      "scInputSequence (svCall v' b) = scInputSequence (svCall (lkServer L) b)" "scInputClosed (svCall v' b) = scInputClosed (svCall (lkServer L) b)"
      "filter isInItem (scInput (svCall v' b)) = filter isInItem (scInput (svCall (lkServer L) b))"
  shows "inFlow a b (L\<lparr>lkServer := v'\<rparr>) = inFlow a b L"
proof -
  obtain fs where fs: "serverStep b (lkServer L) v' fs" "gKind ` set fs \<subseteq> K" using assms(2) unfolding serverDoes_def by blast
  have p: "pendingDown b (L\<lparr>lkServer := v'\<rparr>) = pendingDown b L @ fs" using pendingDown_server [OF fs(1) shape_bounds(2) [OF assms(1)]] .
  have q: "pendingUp a (L\<lparr>lkServer := v'\<rparr>) = pendingUp a L" by (simp add: pendingUp_def)
  show ?thesis unfolding inFlow_def Let_def p q using grantsOf_none [OF fs(2) assms(3)] assms(4-7) by simp
qed

section \<open>Who listens\<close>

lemma listens_client: "clientDoes K a (lkClient L) s' \<Longrightarrow> clientListens a (L\<lparr>lkClient := s'\<rparr>) \<Longrightarrow> clientListens a L"
  unfolding clientDoes_def clientStep_def clientListens_def by auto

lemma listens_server: "serverDoes K b (lkServer L) v' \<Longrightarrow> serverListens b (L\<lparr>lkServer := v'\<rparr>) \<Longrightarrow> serverListens b L"
  unfolding serverDoes_def serverStep_def serverListens_def Let_def by auto

lemma finish_silences: "\<not> serverListens b (L\<lparr>lkServer := finish b f v\<rparr>)"
  by (simp add: serverListens_def)

section \<open>The output direction\<close>

lemma deliver_terminal: "gKind f = ''call.result'' \<or> gKind f = ''call.error'' \<Longrightarrow> ccTerminal (csCall (deliver a f s) a)"
  by (auto simp: deliver_def enqueue_def Let_def)

lemma failing_listens: "closedOk c \<Longrightarrow> \<not> ccTerminal c \<Longrightarrow> failing c"
  by (auto simp: closedOk_def failing_def)

lemma shape_closedOk: "linkShape a b L \<Longrightarrow> closedOk (csCall (lkClient L) a)"
  unfolding linkShape_def Let_def by blast

text \<open>A frame at the client while it listens: accepted, or the call fails and stops listening.\<close>

lemma out_toClient:
  assumes "linkShape a b L" "pendingDown b L = f # rest"
    and "clientListens a (L\<lparr>lkDown := Suc (lkDown L), lkClient := clientReads f (lkClient L)\<rparr>)" (is "clientListens a ?L")
  shows "flowMoves (outFlow a b L) (outFlow a b ?L)"
proof -
  let ?s = "lkClient L" and ?c = "csCall (lkClient L) a" and ?L1 = "L\<lparr>lkDown := Suc (lkDown L)\<rparr>"
  note d = linkShape_down [OF assms(1,2)]
  have r: "clientReads f ?s = (if map_of (csCalls ?s) (ccId ?c) = Some a then deliver a f ?s else ?s)" by (rule clientReads_shape [OF assms(1) d(3)])
  have reg: "map_of (csCalls ?s) (ccId ?c) = Some a" using assms(3) r by (auto simp: clientListens_def split: if_splits)
  then have s': "clientReads f ?s = deliver a f ?s" using r by simp
  have nt: "\<not> ccTerminal ?c"
    using assms(3) clientStep_deliver [of a ?s f] unfolding clientListens_def clientStep_def by (simp add: s')
  have live: "\<not> ccTerminal (csCall (deliver a f ?s) a)" using assms(3) by (simp add: clientListens_def s')
  have nofail: "deliver a f ?s \<noteq> failCall a err ?s" for err
    using failing_listens [OF shape_closedOk [OF assms(1)] nt] live by auto
  have p: "pendingDown b ?L = rest" using d(2) by (simp add: pendingDown_def)
  have q: "pendingUp a ?L = pendingUp a L" using clientStep_deliver [of a ?s f] by (simp add: pendingUp_def s' clientStep_def)
  have k: "gKind f \<noteq> ''call.result''" "gKind f \<noteq> ''call.error''" using live deliver_terminal by blast+
  have flow: "outFlow a b ?L = \<lparr>flCredit = flCredit (outFlow a b L), flNext = flNext (outFlow a b L), flExact = flExact (outFlow a b L),
      flPClosed = flPClosed (outFlow a b L), flData = dataOf rest, flGrants = flGrants (outFlow a b L),
      flAllowance = ccOutputAllowance (csCall (deliver a f ?s) a), flExpected = ccExpectedSeq (csCall (deliver a f ?s) a),
      flCClosed = ccOutputEnded (csCall (deliver a f ?s) a), flBuffered = length (itemFrames (ccQueue (csCall (deliver a f ?s) a)))\<rparr>"
    unfolding outFlow_def Let_def p q by (simp add: s')
  consider (item) "gKind f = ''stream.item''" | (fin) "gKind f = ''stream.end''" | (window) "gKind f = ''stream.window''"
    using d(3) k unfolding goodDown_def by blast
  then show ?thesis
  proof cases
    case item
    then have e: "itemExpected f ?c" using nofail [of "MeshErr (newError CodeProtocolError ''Invalid output stream item, sequence, or credit'')"]
      by (cases "itemExpected f ?c") (simp_all add: deliver_def Let_def)
    then have "flData (outFlow a b L) = Some (flExpected (outFlow a b L)) # dataOf rest"
      using item assms(2) by (simp add: outFlow_def Let_def itemExpected_def)
    from flowMoves_step [OF flowMove.arrive [OF this]] show ?thesis unfolding flow using item e
      by (simp add: deliver_def Let_def enqueue_def armIdle_def itemFrames_def) (simp add: outFlow_def Let_def itemFrames_def)
  next
    case fin
    then have "flData (outFlow a b L) = None # dataOf rest" using assms(2) by (simp add: outFlow_def Let_def)
    from flowMoves_step [OF flowMove.arriveEnd [OF this]] show ?thesis unfolding flow using fin
      by (simp add: deliver_def Let_def) (simp add: outFlow_def Let_def)
  next
    case window
    then obtain w n where w: "ccInputCredit ?c = Some w" "deliver a f ?s = updCall a (\<lambda>c. c\<lparr>ccInputCredit := Some (grantCredit n w)\<rparr>) ?s"
      using nofail [of "MeshErr (newError CodeProtocolError ''Invalid input stream window'')"]
      by (auto simp: deliver_def Let_def split: option.splits if_splits)
    have "outFlow a b ?L = outFlow a b L" unfolding flow w(2) using window assms(2) by (simp add: outFlow_def Let_def)
    then show ?thesis by simp
  qed
qed

text \<open>A frame at the server, as the output direction sees it: a grant arrives or is lost.\<close>

lemma out_up:
  assumes "linkShape a b L" "pendingUp a L = f # rest"
  shows "outFlow a b (L\<lparr>lkUp := Suc (lkUp L)\<rparr>) = (outFlow a b L)\<lparr>flGrants := grantsOf rest\<rparr>"
proof -
  have "pendingUp a (L\<lparr>lkUp := Suc (lkUp L)\<rparr>) = rest" by (rule linkShape_up(2) [OF assms])
  moreover have "pendingDown b (L\<lparr>lkUp := Suc (lkUp L)\<rparr>) = pendingDown b L" by (simp add: pendingDown_def)
  ultimately show ?thesis by (simp add: outFlow_def Let_def)
qed

lemma handle_cases:
  assumes "goodUp cid sh f" "map_of (seCalls (svSession v p)) cid \<in> {None, Some b}"
  shows "handleFrame p f v = (if map_of (seCalls (svSession v p)) cid = Some b then receiveFrame b f v else v)"
  using assms by (auto simp: goodUp_def handleFrame_def)

lemma receive_outParts:
  assumes "gKind f \<noteq> ''stream.window''"
  shows "cwN (scCredit (svCall (receiveFrame b f v) b)) = cwN (scCredit (svCall v b))"
    "scOutputSequence (svCall (receiveFrame b f v) b) = scOutputSequence (svCall v b)"
    "scOutputClosed (svCall (receiveFrame b f v) b) = scOutputClosed (svCall v b)"
  using assms by (simp_all add: receiveFrame_def protocolError_def Let_def)

lemma protocolError_outParts:
  "cwN (scCredit (svCall (protocolError b m v) b)) = cwN (scCredit (svCall v b))"
  "scOutputSequence (svCall (protocolError b m v) b) = scOutputSequence (svCall v b)"
  "scOutputClosed (svCall (protocolError b m v) b) = scOutputClosed (svCall v b)"
  by (simp_all add: protocolError_def Let_def)

lemma terminals_plain: "terminals \<subseteq> terminals" "''stream.item'' \<notin> terminals" "''stream.end'' \<notin> terminals" "''stream.window'' \<notin> terminals"
  by (simp_all add: terminals_def)

lemma out_toServer:
  assumes "linkShape a b L" "pendingUp a L = f # rest"
  shows "flowMoves (outFlow a b L) (outFlow a b (L\<lparr>lkUp := Suc (lkUp L), lkServer := handleFrame (scSess (svCall (lkServer L) b)) f (lkServer L)\<rparr>))"
proof -
  let ?v = "lkServer L" and ?p = "scSess (svCall (lkServer L) b)" and ?L1 = "L\<lparr>lkUp := Suc (lkUp L)\<rparr>" and ?i = "ccId (csCall (lkClient L) a)"
  note u = linkShape_up [OF assms]
  have m: "map_of (seCalls (svSession ?v ?p)) ?i \<in> {None, Some b}" using assms(1) unfolding linkShape_def Let_def by blast
  have h: "handleFrame ?p f ?v = (if map_of (seCalls (svSession ?v ?p)) ?i = Some b then receiveFrame b f ?v else ?v)"
    by (rule handle_cases [OF u(3) m])
  have plain: "flowMoves (outFlow a b ?L1) (outFlow a b (?L1\<lparr>lkServer := v'\<rparr>))"
    if "serverDoes terminals b ?v v'" "cwN (scCredit (svCall v' b)) = cwN (scCredit (svCall ?v b))"
      "scOutputSequence (svCall v' b) = scOutputSequence (svCall ?v b)" "scOutputClosed (svCall v' b) = scOutputClosed (svCall ?v b)" for v'
    by (rule out_server [OF u(1), of terminals]) (use that terminals_plain in simp_all)
  show ?thesis
  proof (cases "gKind f = ''stream.window''")
    case False
    then have e: "outFlow a b ?L1 = outFlow a b L" unfolding out_up [OF assms] using assms(2) by (simp add: outFlow_def Let_def)
    have "flowMoves (outFlow a b ?L1) (outFlow a b (?L1\<lparr>lkServer := handleFrame ?p f ?v\<rparr>))"
      by (rule plain) (use h receive_outParts [OF False] serverDoes_receive [OF terminals_plain(1)] in simp_all)
    then show ?thesis unfolding e by simp
  next
    case True
    then obtain n where n: "gCredit f = Some n" using u(3) by (auto simp: goodUp_def)
    have g: "flGrants (outFlow a b L) = n # grantsOf rest" using True n assms(2) by (simp add: outFlow_def Let_def)
    have lost: "flowMoves (outFlow a b L) (outFlow a b ?L1)" unfolding out_up [OF assms] by (rule flowMoves_step [OF flowMove.grantLost [OF g]])
    consider (grant) "handleFrame ?p f ?v = updServed b (\<lambda>c. c\<lparr>scCredit := grantCredit n (scCredit c)\<rparr>) ?v"
      | (err) "handleFrame ?p f ?v = protocolError b ''Invalid output stream window'' ?v" | (none) "handleFrame ?p f ?v = ?v"
      using h n True by (auto simp: receiveFrame_def Let_def split: if_splits)
    then show ?thesis
    proof cases
      case grant
      have p: "pendingUp a (L\<lparr>lkUp := Suc (lkUp L), lkServer := handleFrame ?p f ?v\<rparr>) = rest" using u(2) by (simp add: pendingUp_def)
      have q: "pendingDown b (L\<lparr>lkUp := Suc (lkUp L), lkServer := handleFrame ?p f ?v\<rparr>) = pendingDown b L" by (simp add: pendingDown_def grant)
      have "outFlow a b (L\<lparr>lkUp := Suc (lkUp L), lkServer := handleFrame ?p f ?v\<rparr>) =
          (outFlow a b L)\<lparr>flGrants := grantsOf rest, flCredit := wrap64 (flCredit (outFlow a b L) + n)\<rparr>"
        unfolding outFlow_def Let_def p q by (simp add: grant grantCredit_def)
      then show ?thesis using flowMoves_step [OF flowMove.grantArrives [OF g]] by simp
    next
      case err
      have "flowMoves (outFlow a b ?L1) (outFlow a b (?L1\<lparr>lkServer := handleFrame ?p f ?v\<rparr>))"
        unfolding err by (rule plain) (simp_all add: protocolError_outParts serverDoes_protocolError)
      then show ?thesis using flowMoves_trans [OF lost] by simp
    next
      case none
      then show ?thesis using lost by simp
    qed
  qed
qed

lemma callSend_fits:
  assumes "marshalRFrame (f\<lparr>gCallID := gCallID (scOpen (svCall v b))\<rparr>) = Some data" "int (length data) \<le> cnMaxFrame (serverConn b v)"
  shows "callSend b f v = (if cnOpen (serverConn b v) \<and> cnWritable (serverConn b v)
    then (updSession (scSess (svCall v b)) (\<lambda>s. s\<lparr>seConn := (serverConn b v)\<lparr>cnWritten :=
         cnWritten (serverConn b v) @ [f\<lparr>gCallID := gCallID (scOpen (svCall v b))\<rparr>]\<rparr>\<rparr>) v, None)
    else (v, Some (PlainErr ''failed to write'')))"
  using assms by (simp add: callSend_def sessionSend_def connSend_def serverConn_def Let_def frameTooLarge_def)

text \<open>The handler sends an item that fits: it is written, or spends its credit for nothing.\<close>

lemma out_send:
  assumes "linkShape a b L" "itemFits b payload (lkServer L)"
  shows "flowMoves (outFlow a b L) (outFlow a b (L\<lparr>lkServer := fst (sendOutput b (Inr payload) (lkServer L))\<rparr>))"
proof -
  let ?v = "lkServer L" and ?c = "svCall (lkServer L) b" and ?k = "serverConn b (lkServer L)" and ?x = "outFlow a b L"
  let ?S = "\<lambda>v'. outFlow a b (L\<lparr>lkServer := v'\<rparr>)"
  have q: "pendingUp a (L\<lparr>lkServer := v'\<rparr>) = pendingUp a L" for v' by (simp add: pendingUp_def)
  show ?thesis
  proof (cases "acquire (scCause ?c) (scCredit ?c) = ((scCredit ?c)\<lparr>cwN := cwN (scCredit ?c) - 1\<rparr>, Ready None) \<and> cwN (scCredit ?c) > 0")
    case False
    then have "fst (sendOutput b (Inr payload) ?v) = ?v"
      by (auto simp: sendOutput_def acquire_def Let_def split: option.splits if_splits)
    then show ?thesis by simp
  next
    case True
    let ?w = "updServed b (\<lambda>c. c\<lparr>scCredit := (scCredit ?c)\<lparr>cwN := cwN (scCredit ?c) - 1\<rparr>\<rparr>) ?v"
    let ?f = "outputItem (scOutputSequence ?c) payload"
    let ?u = "updServed b (\<lambda>c. c\<lparr>scOutputSequence := wrap64 (scOutputSequence ?c + 1)\<rparr>) ?w"
    have e: "fst (sendOutput b (Inr payload) ?v) = fst (writeOutput b payload ?w)"
      using True by (simp add: sendOutput_def Let_def split: prod.split)
    have cr: "flCredit ?x > 0" using True by (simp add: outFlow_def Let_def)
    have pw: "pendingDown b (L\<lparr>lkServer := ?w\<rparr>) = pendingDown b L" "pendingDown b (L\<lparr>lkServer := ?u\<rparr>) = pendingDown b L"
      by (simp_all add: pendingDown_def)
    obtain data where dt: "marshalRFrame (?f\<lparr>gCallID := gCallID (scOpen ?c)\<rparr>) = Some data" "int (length data) \<le> cnMaxFrame ?k"
      using assms(2) by (auto simp: itemFits_def split: option.splits)
    have send: "callSend b ?f ?u = (if cnOpen ?k \<and> cnWritable ?k
        then (updSession (scSess ?c) (\<lambda>s. s\<lparr>seConn := ?k\<lparr>cnWritten := cnWritten ?k @ [?f\<lparr>gCallID := gCallID (scOpen ?c)\<rparr>]\<rparr>\<rparr>) ?u, None)
        else (?u, Some (PlainErr ''failed to write'')))"
      using callSend_fits [where f = ?f and v = ?u and b = b and data = data] dt by simp
    consider (closed) "scOutputClosed ?c \<or> scTerminal ?c" | (sent) "\<not> scOutputClosed ?c" "\<not> scTerminal ?c" "cnOpen ?k \<and> cnWritable ?k"
      | (lost) "\<not> scOutputClosed ?c" "\<not> scTerminal ?c" "\<not> (cnOpen ?k \<and> cnWritable ?k)" by blast
    then show ?thesis
    proof cases
      case closed
      then have "fst (writeOutput b payload ?w) = ?w" by (auto simp: writeOutput_def Let_def)
      moreover have "?S ?w = ?x\<lparr>flCredit := flCredit ?x - 1\<rparr>" unfolding outFlow_def Let_def q pw by simp
      ultimately show ?thesis unfolding e using flowMoves_step [OF flowMove.spend [OF cr]] by simp
    next
      case sent
      let ?t = "updSession (scSess ?c) (\<lambda>s. s\<lparr>seConn := ?k\<lparr>cnWritten := cnWritten ?k @ [?f\<lparr>gCallID := gCallID (scOpen ?c)\<rparr>]\<rparr>\<rparr>) ?u"
      have w: "fst (writeOutput b payload ?w) = ?t" using sent send by (simp add: writeOutput_def Let_def)
      have k: "serverConn b ?t = ?k\<lparr>cnWritten := cnWritten ?k @ [?f\<lparr>gCallID := gCallID (scOpen ?c)\<rparr>]\<rparr>" by (simp add: serverConn_def)
      have "pendingDown b (L\<lparr>lkServer := ?t\<rparr>) = pendingDown b L @ [?f\<lparr>gCallID := gCallID (scOpen ?c)\<rparr>]"
        using shape_bounds(2) [OF assms(1)] by (simp add: pendingDown_def k)
      then have "?S ?t = ?x\<lparr>flCredit := flCredit ?x - 1, flNext := wrap64 (flNext ?x + 1), flData := flData ?x @ [Some (flNext ?x)]\<rparr>"
        unfolding outFlow_def Let_def q by (simp add: k) (simp add: outputItem_def zeroRFrame_def)
      moreover have "\<not> flPClosed ?x" "flExact ?x" using sent by (simp_all add: outFlow_def Let_def)
      ultimately show ?thesis unfolding e w using flowMoves_step [OF flowMove.produce [OF cr]] by simp
    next
      case lost
      have cs: "callSend b ?f ?u = (?u, Some (PlainErr ''failed to write''))" using send unfolding if_not_P [OF lost(3)] .
      have w: "fst (writeOutput b payload ?w) = ?u" using lost(1,2) by (simp add: writeOutput_def Let_def cs)
      have "?S ?u = ?x\<lparr>flCredit := flCredit ?x - 1, flNext := wrap64 (flNext ?x + 1), flExact := False\<rparr>"
        unfolding outFlow_def Let_def q pw using lost by simp
      then show ?thesis unfolding e w using flowMoves_step [OF flowMove.produceLost [OF cr]] by simp
    qed
  qed
qed

lemma out_closeOutput:
  assumes "linkShape a b L"
  shows "flowMoves (outFlow a b L) (outFlow a b (L\<lparr>lkServer := fst (closeOutput b (lkServer L))\<rparr>))"
proof (cases "scOutputClosed (svCall (lkServer L) b) \<or> scTerminal (svCall (lkServer L) b)")
  case True
  then show ?thesis by (auto simp: closeOutput_def Let_def)
next
  case False
  let ?v = "lkServer L" and ?c = "svCall (lkServer L) b" and ?x = "outFlow a b L"
  let ?u = "updServed b (\<lambda>c. c\<lparr>scOutputClosed := True\<rparr>) ?v" and ?f = "outputEnd\<lparr>gCallID := gCallID (scOpen (svCall (lkServer L) b))\<rparr>"
  have q: "pendingUp a (L\<lparr>lkServer := v'\<rparr>) = pendingUp a L" for v' by (simp add: pendingUp_def)
  have c: "fst (closeOutput b ?v) = fst (callSend b outputEnd ?u)" using False by (simp add: closeOutput_def Let_def)
  show ?thesis
  proof (cases rule: callSend_cases [of b outputEnd ?u])
    case (refused err)
    have "pendingDown b (L\<lparr>lkServer := ?u\<rparr>) = pendingDown b L" by (simp add: pendingDown_def)
    then have "outFlow a b (L\<lparr>lkServer := ?u\<rparr>) = ?x\<lparr>flPClosed := True\<rparr>" unfolding outFlow_def Let_def q by simp
    then show ?thesis unfolding c refused using flowMoves_step [OF flowMove.finishLost] by simp
  next
    case written
    let ?t = "updSession (scSess ?c) (\<lambda>s. s\<lparr>seConn := (serverConn b ?v)\<lparr>cnWritten := cnWritten (serverConn b ?v) @ [?f]\<rparr>\<rparr>) ?u"
    have t: "fst (callSend b outputEnd ?u) = ?t" using written(3) by simp
    have k: "serverConn b ?t = (serverConn b ?v)\<lparr>cnWritten := cnWritten (serverConn b ?v) @ [?f]\<rparr>" by (simp add: serverConn_def)
    have "pendingDown b (L\<lparr>lkServer := ?t\<rparr>) = pendingDown b L @ [?f]" using shape_bounds(2) [OF assms] by (simp add: pendingDown_def k)
    then have "outFlow a b (L\<lparr>lkServer := ?t\<rparr>) = ?x\<lparr>flPClosed := True, flData := flData ?x @ [None]\<rparr>"
      unfolding outFlow_def Let_def q by (simp add: k) (simp add: outputEnd_def zeroRFrame_def)
    moreover have "\<not> flPClosed ?x" using False by (simp add: outFlow_def Let_def)
    ultimately show ?thesis unfolding c t using flowMoves_step [OF flowMove.finishData] by simp
  qed
qed

lemma out_return:
  assumes "linkShape a b L" "lkStarted L"
  shows "flowMoves (outFlow a b L) (outFlow a b (L\<lparr>lkServer := runEnd b h encoded (lkServer L)\<rparr>))"
proof (rule runEnd_finishes [of "UNIV" b "lkServer L" h encoded])
  fix w f
  assume w: "serverDoes UNIV b (lkServer L) w" "terminalKind f" "runEnd b h encoded (lkServer L) = finish b f w"
    "w = lkServer L \<or> w = fst (closeOutput b (lkServer L)) \<and> outputShape (smStream (scMethod (svCall (lkServer L) b)))"
  have 1: "flowMoves (outFlow a b L) (outFlow a b (L\<lparr>lkServer := w\<rparr>))" using w(4) out_closeOutput [OF assms(1)] by auto
  have s: "linkShape a b (L\<lparr>lkServer := w\<rparr>)" using linkShape_server [OF assms(1) w(1)] assms(2) by simp
  have "serverDoes terminals b w (finish b f w)" by (rule serverDoes_finish [OF w(2) terminals_plain(1)])
  then have "flowMoves (outFlow a b (L\<lparr>lkServer := w\<rparr>)) (outFlow a b (L\<lparr>lkServer := w\<rparr>\<lparr>lkServer := finish b f w\<rparr>))"
    using out_server [OF s, of terminals "finish b f w"] terminals_plain by simp
  then show ?thesis unfolding w(3) using flowMoves_trans [OF 1] by simp
qed simp

lemma abort_silences:
  assumes "closedOk (csCall s a)"
  shows "ccTerminal (csCall (abortCall a err reason s) a)"
proof (cases "ccTerminal (csCall s a)")
  case True
  then show ?thesis by (simp add: abortCall_def)
next
  case False
  have t: "ccTerminal (csCall (failCall a err s) a)" using failing_listens [OF assms False] by simp
  show ?thesis
    by (rule sendConn_cases [of "ccConn (csCall s a)" "cancelFor (ccId (csCall s a)) reason" "failCall a err s"])
      (use False t in \<open>simp_all add: abortCall_def Let_def\<close>)
qed

text \<open>The caller takes an item: the allowance it opens is granted to the server, unless the stream has ended.\<close>

lemma out_consumed:
  assumes "linkShape a b L" "ccQueue (csCall (lkClient L) a) = f # fs" "gKind f = ''stream.item''"
  shows "flowMoves (outFlow a b L) (outFlow a b (L\<lparr>lkClient := consumed a (updCall a (\<lambda>c. c\<lparr>ccQueue := fs\<rparr>) (lkClient L))\<rparr>))"
proof -
  let ?s = "lkClient L" and ?c = "csCall (lkClient L) a" and ?x = "outFlow a b L" and ?k = "clientConn a (lkClient L)"
  let ?t = "updCall a (\<lambda>c. c\<lparr>ccQueue := fs\<rparr>) ?s"
  let ?u = "updCall a (\<lambda>c. c\<lparr>ccOutputAllowance := ccOutputAllowance c + 1\<rparr>) ?t" and ?f = "windowFor (ccId (csCall (lkClient L) a)) ''server'' 1"
  have q: "pendingDown b (L\<lparr>lkClient := s'\<rparr>) = pendingDown b L" for s' by (simp add: pendingDown_def)
  have m: "length (itemFrames fs) < flBuffered ?x" using assms(2,3) by (simp add: outFlow_def Let_def itemFrames_def)
  show ?thesis
  proof (cases "\<not> ccOutputEnded ?c \<and> \<not> ccTerminal ?c")
    case False
    then have e: "consumed a ?t = ?t" by (auto simp: consumed_def Let_def)
    have "pendingUp a (L\<lparr>lkClient := ?t\<rparr>) = pendingUp a L" by (simp add: pendingUp_def)
    then have "outFlow a b (L\<lparr>lkClient := ?t\<rparr>) = ?x\<lparr>flBuffered := length (itemFrames fs)\<rparr>" unfolding outFlow_def Let_def q by simp
    then show ?thesis unfolding e using flowMoves_step [OF flowMove.takeSilent [OF less_imp_le [OF m]]] by simp
  next
    case True
    then have e: "consumed a ?t = fst (sendConn (ccConn ?c) ?f ?u)" by (simp add: consumed_def Let_def)
    show ?thesis
    proof (cases rule: sendConn_cases [of "ccConn ?c" ?f ?u])
      case (refused err)
      have "pendingUp a (L\<lparr>lkClient := ?u\<rparr>) = pendingUp a L" by (simp add: pendingUp_def)
      then have "outFlow a b (L\<lparr>lkClient := ?u\<rparr>) = ?x\<lparr>flBuffered := length (itemFrames fs), flAllowance := flAllowance ?x + 1\<rparr>"
        unfolding outFlow_def Let_def q by simp
      then show ?thesis unfolding e refused using flowMoves_step [OF flowMove.takeLost [OF m]] by simp
    next
      case written
      define w where "w = ?u\<lparr>csConnObj := (csConnObj ?u)(ccConn ?c := (csConnObj ?u (ccConn ?c))\<lparr>cnWritten := cnWritten (csConnObj ?u (ccConn ?c)) @ [?f]\<rparr>)\<rparr>"
      have w: "fst (sendConn (ccConn ?c) ?f ?u) = w" unfolding written(3) w_def by simp
      have k: "cnWritten (clientConn a w) = cnWritten ?k @ [?f]" by (simp add: w_def clientConn_def)
      have cw: "csCall w a = ?c\<lparr>ccQueue := fs, ccOutputAllowance := ccOutputAllowance ?c + 1\<rparr>" by (simp add: w_def)
      have "pendingUp a (L\<lparr>lkClient := w\<rparr>) = pendingUp a L @ [?f]" using shape_bounds(1) [OF assms(1)] by (simp add: pendingUp_def k)
      then have "outFlow a b (L\<lparr>lkClient := w\<rparr>) =
          ?x\<lparr>flBuffered := length (itemFrames fs), flAllowance := flAllowance ?x + 1, flGrants := flGrants ?x @ [1]\<rparr>"
        unfolding outFlow_def Let_def q by (simp add: cw) (simp add: windowFor_def zeroRFrame_def)
      moreover have "\<not> flCClosed ?x" using True by (simp add: outFlow_def Let_def)
      ultimately show ?thesis unfolding e w using flowMoves_step [OF flowMove.take [OF m]] by simp
    qed
  qed
qed

lemma out_recvLoop:
  assumes "linkShape a b L"
    and "clientListens a (L\<lparr>lkClient := snd (fst (recvLoop fuel (nextFrame a) (consumed a) (abortCall a) dec (st, lkClient L)))\<rparr>)"
  shows "flowMoves (outFlow a b L) (outFlow a b (L\<lparr>lkClient := snd (fst (recvLoop fuel (nextFrame a) (consumed a) (abortCall a) dec (st, lkClient L)))\<rparr>))"
  using assms
proof (induction fuel arbitrary: L rule: less_induct)
  case (less fuel)
  let ?s = "lkClient L" and ?c = "csCall (lkClient L) a"
  let ?r = "\<lambda>n s. snd (fst (recvLoop n (nextFrame a) (consumed a) (abortCall a) dec (st, s)))"
  show ?case
  proof (cases "ccQueue ?c")
    case Nil
    then have "?r fuel ?s = ?s" by (simp add: recvLoop.simps [of fuel] nextFrame_def Let_def split: option.split)
    then show ?thesis by simp
  next
    case (Cons f fs)
    let ?t = "updCall a (\<lambda>c. c\<lparr>ccQueue := fs\<rparr>) ?s"
    have n: "nextFrame a ?s = (?t, Ready (Inr f))" using Cons by (simp add: nextFrame_def Let_def)
    have cs: "clientStep a ?s ?t []" using clientStep_next [of a ?s] n by simp
    have sh: "linkShape a b (L\<lparr>lkClient := ?t\<rparr>)" by (rule linkShape_client [OF less.prems(1) clientDoes_silent [OF cs]])
    have mv: "flowMoves (outFlow a b L) (outFlow a b (L\<lparr>lkClient := ?t\<rparr>))"
      by (rule out_client [OF less.prems(1) clientDoes_silent [OF cs], of "{}"]) (simp_all add: Cons itemFrames_def)
    show ?thesis
    proof (cases "gKind f = ''stream.item''")
      case True
      then have r: "?r fuel ?s = (case dec (gPayload f) of Inl err \<Rightarrow> abortCall a err ''invalid_output_item'' ?t | Inr _ \<Rightarrow> consumed a ?t)"
        by (simp add: recvLoop.simps [of fuel] n recvFrame_state)
      show ?thesis
      proof (cases "dec (gPayload f)")
        case (Inl err)
        have "closedOk (csCall ?t a)" using shape_closedOk [OF sh] by simp
        from abort_silences [OF this] have "ccTerminal (csCall (?r fuel ?s) a)" unfolding r Inl by simp
        then show ?thesis using less.prems(2) by (simp add: clientListens_def)
      next
        case (Inr item)
        then show ?thesis unfolding r using out_consumed [OF less.prems(1) Cons True] by simp
      qed
    next
      case False
      show ?thesis
      proof (cases "List.member [''call.result'', ''call.error''] (gKind f)")
        case True
        then have "?r fuel ?s = ?t" using False by (simp add: recvLoop.simps [of fuel] n recvFrame_state)
        then show ?thesis using mv by simp
      next
        case last: False
        then have r: "?r fuel ?s = (case fuel of 0 \<Rightarrow> ?t | Suc m \<Rightarrow> ?r m ?t)"
          using False by (simp add: recvLoop.simps [of fuel] n split: nat.split)
        show ?thesis
        proof (cases fuel)
          case 0
          then show ?thesis using mv unfolding r by simp
        next
          case (Suc m)
          have "flowMoves (outFlow a b (L\<lparr>lkClient := ?t\<rparr>)) (outFlow a b (L\<lparr>lkClient := ?t\<rparr>\<lparr>lkClient := ?r m ?t\<rparr>))"
            using less.IH [of m "L\<lparr>lkClient := ?t\<rparr>"] sh less.prems(2) Suc unfolding r by simp
          then show ?thesis using flowMoves_trans [OF mv] Suc unfolding r by simp
        qed
      qed
    qed
  qed
qed

text \<open>The parts of a client call that each direction reads.\<close>

definition outPart :: "clientCall \<Rightarrow> int \<times> int \<times> bool \<times> rframe list" where
  "outPart c = (ccOutputAllowance c, ccExpectedSeq c, ccOutputEnded c, ccQueue c)"

definition inPart :: "clientCall \<Rightarrow> int option \<times> int \<times> bool" where
  "inPart c = (map_option cwN (ccInputCredit c), ccInputSeq c, ccInputClosed c)"

lemma sendConn_call [simp]: "csCall (fst (sendConn k f s)) = csCall s"
  by (rule sendConn_cases [of k f s]) simp_all

lemma close_comp [simp]: "cwN \<circ> closeCredit err = cwN"
  by (simp add: fun_eq_iff)

lemma fail_parts [simp]: "outPart (csCall (failCall a err s) a) = outPart (csCall s a)" "inPart (csCall (failCall a err s) a) = inPart (csCall s a)"
  by (simp_all add: outPart_def inPart_def option.map_comp)

lemma abort_parts [simp]: "outPart (csCall (abortCall a err reason s) a) = outPart (csCall s a)"
  "inPart (csCall (abortCall a err reason s) a) = inPart (csCall s a)"
  by (simp_all add: abortCall_def Let_def outPart_def inPart_def option.map_comp)

lemma write_parts [simp]: "outPart (csCall (fst (writeInput a seq payload s)) a) = outPart (csCall s a)"
  "inPart (csCall (fst (writeInput a seq payload s)) a) = inPart (csCall s a)"
proof -
  obtain t err where t: "sendConn (ccConn (csCall s a)) (clientItem (ccId (csCall s a)) seq payload) s = (t, err)" by fastforce
  have c: "csCall t = csCall s" using sendConn_call [of "ccConn (csCall s a)" "clientItem (ccId (csCall s a)) seq payload" s] unfolding t by simp
  show "outPart (csCall (fst (writeInput a seq payload s)) a) = outPart (csCall s a)"
    "inPart (csCall (fst (writeInput a seq payload s)) a) = inPart (csCall s a)"
    by (simp_all add: writeInput_def Let_def t c split: option.split)
qed

lemma reserve_outPart [simp]: "outPart (csCall (fst (reserveInput done a s)) a) = outPart (csCall s a)"
  by (simp add: reserveInput_def Let_def outPart_def split: option.split wait.split prod.split)

lemma sendInput_outPart: "outPart (csCall (fst (sendInput done a payload s)) a) = outPart (csCall s a)"
proof -
  obtain t r where n: "reserveInput done a s = (t, r)" by fastforce
  have "outPart (csCall t a) = outPart (csCall s a)" using reserve_outPart [of "done" a s] unfolding n by simp
  moreover have "fst (sendInput done a payload s) = (case r of Ready (Inr seq) \<Rightarrow> fst (writeInput a seq payload t) | _ \<Rightarrow> t)"
    using n by (simp add: sendInput_def split: wait.split sum.split prod.split)
  ultimately show ?thesis by (simp split: wait.split sum.split)
qed

lemma closeInput_outPart: "outPart (csCall (fst (closeInput a s)) a) = outPart (csCall s a)"
  by (simp add: closeInput_def Let_def outPart_def)

lemma lost_parts: "outPart (csCall (clientLost a s) a) = outPart (csCall s a)" "inPart (csCall (clientLost a s) a) = inPart (csCall s a)"
  by (simp_all add: clientLost_def outPart_def inPart_def option.map_comp)

lemma result_parts:
  "\<exists>pre. ccQueue (csCall s a) = pre @ ccQueue (csCall (fst (resultOf a s)) a)" (is "?P a s")
  "inPart (csCall (fst (resultOf a s)) a) = inPart (csCall s a)"
  "ccOutputAllowance (csCall (fst (resultOf a s)) a) = ccOutputAllowance (csCall s a)"
  "ccExpectedSeq (csCall (fst (resultOf a s)) a) = ccExpectedSeq (csCall s a)"
  "ccOutputEnded (csCall (fst (resultOf a s)) a) = ccOutputEnded (csCall s a)"
proof (atomize (full), induction a s rule: resultOf.induct)
  case (1 a s)
  obtain t r where n: "nextFrame a s = (t, r)" by fastforce
  have st: "\<exists>pre. ccQueue (csCall s a) = pre @ ccQueue (csCall t a)" "inPart (csCall t a) = inPart (csCall s a)"
      "ccOutputAllowance (csCall t a) = ccOutputAllowance (csCall s a)" "ccExpectedSeq (csCall t a) = ccExpectedSeq (csCall s a)"
      "ccOutputEnded (csCall t a) = ccOutputEnded (csCall s a)"
    using n by (auto simp: nextFrame_def Let_def inPart_def split: list.splits option.splits)
  show ?case
  proof (cases "\<exists>f. r = Ready (Inr f) \<and> gKind f \<noteq> ''call.result'' \<and> gKind f \<noteq> ''call.error''")
    case True
    then obtain f where f: "r = Ready (Inr f)" "gKind f \<noteq> ''call.result''" "gKind f \<noteq> ''call.error''" by blast
    note ih = 1 [OF n [symmetric] f(1) refl f(2,3)]
    have "resultOf a s = resultOf a t" using n f by (simp add: resultOf.simps [of a s])
    then show ?thesis using ih st by (metis append.assoc)
  next
    case False
    then have "fst (resultOf a s) = t" using n
      by (subst resultOf.simps) (auto split: wait.split sum.split option.split)
    then show ?thesis using st by simp
  qed
qed

lemma itemFrames_suffix: "\<exists>pre. q = pre @ q' \<Longrightarrow> length (itemFrames q') \<le> length (itemFrames q)"
  by (auto simp: itemFrames_def)

lemma out_clientPart:
  assumes "linkShape a b L" "clientDoes K a (lkClient L) s'" "''stream.window'' \<notin> K" "outPart (csCall s' a) = outPart (csCall (lkClient L) a)"
  shows "flowMoves (outFlow a b L) (outFlow a b (L\<lparr>lkClient := s'\<rparr>))"
  by (rule out_client [OF assms(1-3)]) (use assms(4) in \<open>simp_all add: outPart_def\<close>)

lemma flow_stream: "outFlow a b (L\<lparr>lkStream := st, lkClient := s', lkGot := g\<rparr>) = outFlow a b (L\<lparr>lkClient := s'\<rparr>)"
  "inFlow a b (L\<lparr>lkStream := st, lkClient := s', lkGot := g\<rparr>) = inFlow a b (L\<lparr>lkClient := s'\<rparr>)"
  "clientListens a (L\<lparr>lkStream := st, lkClient := s', lkGot := g\<rparr>) = clientListens a (L\<lparr>lkClient := s'\<rparr>)"
  "serverListens b (L\<lparr>lkStream := st, lkClient := s', lkGot := g\<rparr>) = serverListens b (L\<lparr>lkClient := s'\<rparr>)"
  by (simp_all add: outFlow_def inFlow_def clientListens_def serverListens_def pendingUp_def pendingDown_def)

lemma flow_started: "outFlow a b (L\<lparr>lkStarted := t, lkServer := v\<rparr>) = outFlow a b (L\<lparr>lkServer := v\<rparr>)"
  "inFlow a b (L\<lparr>lkStarted := t, lkServer := v\<rparr>) = inFlow a b (L\<lparr>lkServer := v\<rparr>)"
  by (simp_all add: outFlow_def inFlow_def pendingUp_def pendingDown_def)

lemma gone_outParts:
  "cwN (scCredit (svCall (serveEnd p v) b)) = cwN (scCredit (svCall v b))"
  "scOutputSequence (svCall (serveEnd p v) b) = scOutputSequence (svCall v b)"
  "scOutputClosed (svCall (serveEnd p v) b) = scOutputClosed (svCall v b)"
  by (simp_all add: serveEnd_call [where P = scOutputSequence] serveEnd_call [where P = scOutputClosed]
      serveEnd_call [where P = "\<lambda>c. cwN (scCredit c)"])

lemma runStart_outParts:
  "cwN (scCredit (svCall (runStart b v) b)) = cwN (scCredit (svCall v b))"
  "scOutputSequence (svCall (runStart b v) b) = scOutputSequence (svCall v b)"
  "scOutputClosed (svCall (runStart b v) b) = scOutputClosed (svCall v b)"
  by (simp_all add: runStart_def)

lemma nextInput_outParts:
  "cwN (scCredit (svCall (fst (nextInput b v)) b)) = cwN (scCredit (svCall v b))"
  "scOutputSequence (svCall (fst (nextInput b v)) b) = scOutputSequence (svCall v b)"
  "scOutputClosed (svCall (fst (nextInput b v)) b) = scOutputClosed (svCall v b)"
  by (simp_all add: nextInput_def Let_def split: list.split inputEv.split option.split)

lemma out_step: "linkStep a b L L' \<Longrightarrow> linkShape a b L \<Longrightarrow> clientListens a L' \<Longrightarrow> flowMoves (outFlow a b L) (outFlow a b L')"
proof (induction rule: linkStep.induct)
  case (toClient L f rest)
  then show ?case by (intro out_toClient)
next
  case (toServer L f rest)
  then show ?case by (intro out_toServer)
next
  case (start L)
  have "flowMoves (outFlow a b L) (outFlow a b (L\<lparr>lkServer := runStart b (lkServer L)\<rparr>))"
    by (rule out_server [OF start(2), of "{''stream.window''}"]) (simp_all add: serverDoes_runStart runStart_outParts)
  then show ?case unfolding flow_started .
next
  case (send L payload)
  then show ?case by (intro out_send)
next
  case (sendInvalid L err)
  show ?case by (rule out_server [OF sendInvalid(2), of "{}"]) (simp_all add: serverDoes_sendInvalid, simp_all add: sendOutput_def)
next
  case (closeSend L)
  then show ?case by (intro out_closeOutput)
next
  case (readInput L)
  show ?case by (rule out_server [OF readInput(3), of "{''stream.window''}"])
      (simp_all add: serverDoes_nextInput readInput(2) nextInput_outParts)
next
  case (return L h encoded)
  then show ?case by (intro out_return)
next
  case (serverDeadline L err)
  have "serverDoes {} b (lkServer L) (updServed b (cancelCtx err) (lkServer L))" by (rule serverDoes_upd) simp_all
  then show ?case by (rule out_server [OF serverDeadline(1)]) simp_all
next
  case (serverIdle L)
  show ?case by (rule out_server [OF serverIdle(2), of terminals])
      (simp_all add: serverDoes_idle terminals_plain, simp_all add: idleExpired_def Let_def)
next
  case (serverNoWrite L)
  show ?case by (rule out_server [OF serverNoWrite(1), of "{}"]) (simp_all add: serverDoes_cut, simp_all add: serverCut_def)
next
  case (serverGone L)
  show ?case by (rule out_server [OF serverGone(1), of "{}"]) (simp_all add: serverDoes_gone gone_outParts)
next
  case (recv L r fuel dec)
  show ?case
  proof (cases "stDone (lkStream L)")
    case True
    then have "snd (fst r) = lkClient L" using recv(2) by (simp add: Recv_def)
    then show ?thesis unfolding flow_stream by simp
  next
    case False
    then have "r = recvLoop fuel (nextFrame a) (consumed a) (abortCall a) dec (lkStream L, lkClient L)" using recv(2) by (simp add: Recv_def)
    then show ?thesis using out_recvLoop [OF recv(3)] recv(4) unfolding flow_stream by simp
  qed
next
  case (result L)
  show ?case by (rule out_client [OF result(2) clientDoes_silent [OF clientStep_result], of "{}"])
      (simp_all add: result_parts(3-5) itemFrames_suffix [OF result_parts(1)])
next
  case (sendItem L payload "done")
  show ?case by (rule out_clientPart [OF sendItem(3), of "{''stream.item'', ''call.cancel''}"])
      (simp_all add: clientDoes_sendInput sendItem(1) sendInput_outPart)
next
  case (endInput L)
  show ?case by (rule out_clientPart [OF endInput(2), of "{''stream.end''}"]) (simp_all add: clientDoes_closeInput endInput(1) closeInput_outPart)
next
  case (giveUp L err reason)
  show ?case by (rule out_clientPart [OF giveUp(1), of "{''call.cancel''}"]) (simp_all add: clientDoes_abort)
next
  case (clientNoWrite L)
  show ?case by (rule out_clientPart [OF clientNoWrite(1) clientDoes_silent [OF clientStep_cut], of "{}"]) (simp_all add: clientCut_def)
next
  case (clientGone L)
  show ?case by (rule out_clientPart [OF clientGone(1) clientDoes_silent [OF clientStep_lost], of "{}"]) (simp_all add: lost_parts)
qed

section \<open>The input direction\<close>

lemma in_toServer:
  assumes "linkShape a b L" "pendingUp a L = f # rest"
    and "serverListens b (L\<lparr>lkUp := Suc (lkUp L), lkServer := handleFrame (scSess (svCall (lkServer L) b)) f (lkServer L)\<rparr>)" (is "serverListens b ?L")
  shows "flowMoves (inFlow a b L) (inFlow a b ?L)"
proof -
  let ?v = "lkServer L" and ?c = "svCall (lkServer L) b" and ?p = "scSess (svCall (lkServer L) b)" and ?i = "ccId (csCall (lkClient L) a)"
  note u = linkShape_up [OF assms(1,2)]
  have m: "map_of (seCalls (svSession ?v ?p)) ?i \<in> {None, Some b}" "gCallID (scOpen ?c) = ?i" "smInput (scMethod ?c) = inputShape (ccStream (csCall (lkClient L) a))"
    using assms(1) unfolding linkShape_def Let_def by blast+
  have h: "handleFrame ?p f ?v = (if map_of (seCalls (svSession ?v ?p)) ?i = Some b then receiveFrame b f ?v else ?v)"
    by (rule handle_cases [OF u(3) m(1)])
  have "map_of (seCalls (svSession ?v ?p)) ?i = Some b" using assms(3) h m(2) by (auto simp: serverListens_def split: if_splits)
  then have h: "handleFrame ?p f ?v = receiveFrame b f ?v" using h by simp
  have live: "\<not> scTerminal (svCall (receiveFrame b f ?v) b)" using assms(3) unfolding h by (simp add: serverListens_def)
  have noerr: "receiveFrame b f ?v \<noteq> protocolError b msg w" for msg w using live by (auto simp: protocolError_def Let_def)
  have k: "gKind f \<noteq> ''call.cancel''" using live by (auto simp: receiveFrame_def Let_def)
  have p: "pendingUp a ?L = rest" using u(2) by (simp add: pendingUp_def)
  consider (item) "gKind f = ''stream.item''" | (fin) "gKind f = ''stream.end''" | (window) "gKind f = ''stream.window''"
    using u(3) k unfolding goodUp_def by blast
  then show ?thesis
  proof cases
    case item
    have e: "inputExpected f ?c" using noerr [of "''Invalid input stream item, sequence, or credit''" ?v] item
      by (cases "inputExpected f ?c") (simp_all add: receiveFrame_def Let_def)
    then have r: "receiveFrame b f ?v = updServed b (\<lambda>c. pushInput (Some (case gPayload f of None \<Rightarrow> ''null'' | Some p \<Rightarrow> p)) None (armInput
             (c\<lparr>scInputAllowance := scInputAllowance c - 1, scInputSequence := wrap64 (scInputSequence c + 1)\<rparr>))) ?v"
      using item by (simp add: receiveFrame_def Let_def)
    have q: "pendingDown b ?L = pendingDown b L" by (simp add: pendingDown_def h r)
    have "flData (inFlow a b L) = Some (flExpected (inFlow a b L)) # dataOf rest"
      using item e assms(2) by (simp add: inFlow_def Let_def inputExpected_def)
    from flowMoves_step [OF flowMove.arrive [OF this]] show ?thesis
      unfolding inFlow_def Let_def p q by (simp add: h r pushInput_def isInItem_def)
  next
    case fin
    let ?e = "updServed b (\<lambda>c. c\<lparr>scInputClosed := True, scIdle := False\<rparr>) ?v"
    have r: "receiveFrame b f ?v = updServed b (pushInput None None) ?e" using noerr [of "''Invalid input stream end''" ?e] fin
      by (auto simp: receiveFrame_def Let_def split: if_splits)
    have q: "pendingDown b ?L = pendingDown b L" by (simp add: pendingDown_def h r)
    have "flData (inFlow a b L) = None # dataOf rest" using fin assms(2) by (simp add: inFlow_def Let_def)
    from flowMoves_step [OF flowMove.arriveEnd [OF this]] show ?thesis
      unfolding inFlow_def Let_def p q by (simp add: h r pushInput_def isInItem_def)
  next
    case window
    obtain n where r: "receiveFrame b f ?v = updServed b (\<lambda>c. c\<lparr>scCredit := grantCredit n (scCredit c)\<rparr>) ?v"
      using noerr [of "''Invalid output stream window''" ?v] window by (auto simp: receiveFrame_def Let_def split: option.splits if_splits)
    have q: "pendingDown b ?L = pendingDown b L" by (simp add: pendingDown_def h r)
    have "inFlow a b ?L = inFlow a b L" unfolding inFlow_def Let_def p q using window assms(2) by (simp add: h r)
    then show ?thesis by simp
  qed
qed

lemma in_down:
  assumes "linkShape a b L" "pendingDown b L = f # rest"
  shows "inFlow a b (L\<lparr>lkDown := Suc (lkDown L)\<rparr>) = (inFlow a b L)\<lparr>flGrants := grantsOf rest\<rparr>"
proof -
  have "pendingDown b (L\<lparr>lkDown := Suc (lkDown L)\<rparr>) = rest" by (rule linkShape_down(2) [OF assms])
  moreover have "pendingUp a (L\<lparr>lkDown := Suc (lkDown L)\<rparr>) = pendingUp a L" by (simp add: pendingUp_def)
  ultimately show ?thesis by (simp add: inFlow_def Let_def)
qed

lemma deliver_inPart: "gKind f \<noteq> ''stream.window'' \<Longrightarrow> inPart (csCall (deliver a f s) a) = inPart (csCall s a)"
  by (simp add: deliver_def enqueue_def armIdle_def Let_def inPart_def option.map_comp)

lemma in_clientPart:
  assumes "linkShape a b L" "clientDoes K a (lkClient L) s'" "''stream.item'' \<notin> K" "''stream.end'' \<notin> K" "inPart (csCall s' a) = inPart (csCall (lkClient L) a)"
  shows "flowMoves (inFlow a b L) (inFlow a b (L\<lparr>lkClient := s'\<rparr>))"
  by (rule in_client [OF assms(1-4)]) (use assms(5) in \<open>simp_all add: inPart_def\<close>)

lemma in_toClient:
  assumes "linkShape a b L" "pendingDown b L = f # rest"
  shows "flowMoves (inFlow a b L) (inFlow a b (L\<lparr>lkDown := Suc (lkDown L), lkClient := clientReads f (lkClient L)\<rparr>))"
proof -
  let ?s = "lkClient L" and ?c = "csCall (lkClient L) a" and ?L1 = "L\<lparr>lkDown := Suc (lkDown L)\<rparr>"
  note d = linkShape_down [OF assms]
  have r: "clientReads f ?s = (if map_of (csCalls ?s) (ccId ?c) = Some a then deliver a f ?s else ?s)" by (rule clientReads_shape [OF assms(1) d(3)])
  have plain: "flowMoves (inFlow a b ?L1) (inFlow a b (?L1\<lparr>lkClient := s'\<rparr>))"
    if "clientStep a ?s s' []" "inPart (csCall s' a) = inPart ?c" for s'
    by (rule in_clientPart [OF d(1), of "{}"]) (use that clientDoes_silent in simp_all)
  show ?thesis
  proof (cases "gKind f = ''stream.window''")
    case False
    then have e: "inFlow a b ?L1 = inFlow a b L" unfolding in_down [OF assms] using assms(2) by (simp add: inFlow_def Let_def)
    have "flowMoves (inFlow a b ?L1) (inFlow a b (?L1\<lparr>lkClient := clientReads f ?s\<rparr>))"
      by (rule plain) (use r deliver_inPart [OF False] clientStep_deliver in simp_all)
    then show ?thesis unfolding e by simp
  next
    case True
    then obtain n where n: "gCredit f = Some n" using d(3) by (auto simp: goodDown_def)
    have g: "flGrants (inFlow a b L) = n # grantsOf rest" using True n assms(2) by (simp add: inFlow_def Let_def)
    have lost: "flowMoves (inFlow a b L) (inFlow a b ?L1)" unfolding in_down [OF assms] by (rule flowMoves_step [OF flowMove.grantLost [OF g]])
    consider (grant) w where "ccInputCredit ?c = Some w" "clientReads f ?s = updCall a (\<lambda>c. c\<lparr>ccInputCredit := Some (grantCredit n w)\<rparr>) ?s"
      | (err) "clientReads f ?s = failCall a (MeshErr (newError CodeProtocolError ''Invalid input stream window'')) ?s" | (none) "clientReads f ?s = ?s"
      using r n True by (auto simp: deliver_def Let_def split: if_splits option.splits)
    then show ?thesis
    proof cases
      case grant
      let ?L = "L\<lparr>lkDown := Suc (lkDown L), lkClient := clientReads f ?s\<rparr>"
      have p: "pendingDown b ?L = rest" using d(2) by (simp add: pendingDown_def)
      have q: "pendingUp a ?L = pendingUp a L" by (simp add: pendingUp_def grant)
      have "inFlow a b ?L = (inFlow a b L)\<lparr>flGrants := grantsOf rest, flCredit := wrap64 (flCredit (inFlow a b L) + n)\<rparr>"
        unfolding inFlow_def Let_def p q by (simp add: grant grantCredit_def)
      then show ?thesis using flowMoves_step [OF flowMove.grantArrives [OF g]] by simp
    next
      case err
      have "flowMoves (inFlow a b ?L1) (inFlow a b (?L1\<lparr>lkClient := clientReads f ?s\<rparr>))"
        unfolding err by (rule plain) (simp_all only: clientStep_fail fail_parts)
      then show ?thesis using flowMoves_trans [OF lost] by simp
    next
      case none
      then show ?thesis using lost by simp
    qed
  qed
qed

text \<open>The call starts: its input window opens.\<close>

lemma in_start:
  assumes "linkShape a b L" "\<not> lkStarted L"
  shows "flowMoves (inFlow a b L) (inFlow a b (L\<lparr>lkServer := runStart b (lkServer L)\<rparr>))"
proof (cases "inputShape (smStream (scMethod (svCall (lkServer L) b)))")
  case False
  then show ?thesis by (simp add: runStart_def inputShape_def)
next
  case True
  let ?v = "lkServer L" and ?c = "svCall (lkServer L) b" and ?x = "inFlow a b L" and ?k = "serverConn b (lkServer L)"
  let ?u = "updServed b (\<lambda>c. c\<lparr>scInputAllowance := initialStreamCredit\<rparr>) ?v" and ?f = "(inputWindow initialStreamCredit)\<lparr>gCallID := gCallID (scOpen (svCall (lkServer L) b))\<rparr>"
  have z: "flAllowance ?x = 0" "flBuffered ?x = 0" using assms unfolding linkShape_def Let_def quiet_def by (simp_all add: inFlow_def Let_def)
  have q: "pendingUp a (L\<lparr>lkServer := v'\<rparr>) = pendingUp a L" for v' by (simp add: pendingUp_def)
  have e: "runStart b ?v = updServed b armInput (fst (callSend b (inputWindow initialStreamCredit) ?u))"
    using True by (simp add: runStart_def inputShape_def)
  show ?thesis
  proof (cases rule: callSend_cases [of b "inputWindow initialStreamCredit" ?u])
    case (refused err)
    have "pendingDown b (L\<lparr>lkServer := runStart b ?v\<rparr>) = pendingDown b L" by (simp add: pendingDown_def e refused)
    then have "inFlow a b (L\<lparr>lkServer := runStart b ?v\<rparr>) = ?x\<lparr>flAllowance := initialStreamCredit\<rparr>"
      unfolding inFlow_def Let_def q by (simp add: e refused)
    then show ?thesis using flowMoves_step [OF flowMove.openWindowLost [OF z]] by simp
  next
    case written
    have k: "cnWritten (serverConn b (runStart b ?v)) = cnWritten ?k @ [?f]" by (simp add: e written(3), simp add: serverConn_def)
    have "pendingDown b (L\<lparr>lkServer := runStart b ?v\<rparr>) = pendingDown b L @ [?f]"
      using shape_bounds(2) [OF assms(1)] by (simp add: pendingDown_def k)
    then have "inFlow a b (L\<lparr>lkServer := runStart b ?v\<rparr>) = ?x\<lparr>flAllowance := initialStreamCredit, flGrants := flGrants ?x @ [initialStreamCredit]\<rparr>"
      unfolding inFlow_def Let_def q by (simp add: e) (simp add: inputWindow_def zeroRFrame_def)
    then show ?thesis using flowMoves_step [OF flowMove.openWindow [OF z]] by simp
  qed
qed

text \<open>The handler takes an input item: the allowance it opens is granted to the client, unless the input has
  ended.\<close>

lemma in_nextInput:
  assumes "linkShape a b L"
  shows "flowMoves (inFlow a b L) (inFlow a b (L\<lparr>lkServer := fst (nextInput b (lkServer L))\<rparr>))"
proof (cases "\<exists>d rest. scInput (svCall (lkServer L) b) = InItem d # rest")
  case False
  then have "fst (nextInput b (lkServer L)) = lkServer L" by (auto simp: nextInput_def Let_def split: list.split inputEv.split option.split)
  then show ?thesis by simp
next
  case True
  let ?v = "lkServer L" and ?c = "svCall (lkServer L) b" and ?x = "inFlow a b L" and ?k = "serverConn b (lkServer L)"
  obtain d rest where d: "scInput ?c = InItem d # rest" using True by blast
  let ?w = "updServed b (\<lambda>c. c\<lparr>scInput := rest\<rparr>) ?v"
  let ?u = "updServed b (\<lambda>c. c\<lparr>scInputAllowance := scInputAllowance c + 1\<rparr>) ?w"
  let ?f = "(inputWindow 1)\<lparr>gCallID := gCallID (scOpen (svCall (lkServer L) b))\<rparr>"
  have q: "pendingUp a (L\<lparr>lkServer := v'\<rparr>) = pendingUp a L" for v' by (simp add: pendingUp_def)
  have m: "length (filter isInItem rest) < flBuffered ?x" using d by (simp add: inFlow_def Let_def isInItem_def)
  show ?thesis
  proof (cases "scInputClosed ?c")
    case closed: True
    then have e: "fst (nextInput b ?v) = ?w" using d by (simp add: nextInput_def Let_def)
    have "pendingDown b (L\<lparr>lkServer := ?w\<rparr>) = pendingDown b L" by (simp add: pendingDown_def)
    then have "inFlow a b (L\<lparr>lkServer := ?w\<rparr>) = ?x\<lparr>flBuffered := length (filter isInItem rest)\<rparr>" unfolding inFlow_def Let_def q by simp
    then show ?thesis unfolding e using flowMoves_step [OF flowMove.takeSilent [OF less_imp_le [OF m]]] by simp
  next
    case False
    then have e: "fst (nextInput b ?v) = fst (callSend b (inputWindow 1) ?u)" using d by (simp add: nextInput_def Let_def)
    show ?thesis
    proof (cases rule: callSend_cases [of b "inputWindow 1" ?u])
      case (refused err)
      have "pendingDown b (L\<lparr>lkServer := ?u\<rparr>) = pendingDown b L" by (simp add: pendingDown_def)
      then have "inFlow a b (L\<lparr>lkServer := ?u\<rparr>) = ?x\<lparr>flBuffered := length (filter isInItem rest), flAllowance := flAllowance ?x + 1\<rparr>"
        unfolding inFlow_def Let_def q by simp
      then show ?thesis unfolding e refused using flowMoves_step [OF flowMove.takeLost [OF m]] by simp
    next
      case written
      define t where "t = fst (callSend b (inputWindow 1) ?u)"
      have k: "cnWritten (serverConn b t) = cnWritten ?k @ [?f]" unfolding t_def by (simp add: written(3), simp add: serverConn_def)
      have ct: "svCall t b = ?c\<lparr>scInput := rest, scInputAllowance := scInputAllowance ?c + 1\<rparr>" by (simp add: t_def)
      have "pendingDown b (L\<lparr>lkServer := t\<rparr>) = pendingDown b L @ [?f]" using shape_bounds(2) [OF assms] by (simp add: pendingDown_def k)
      then have "inFlow a b (L\<lparr>lkServer := t\<rparr>) =
          ?x\<lparr>flBuffered := length (filter isInItem rest), flAllowance := flAllowance ?x + 1, flGrants := flGrants ?x @ [1]\<rparr>"
        unfolding inFlow_def Let_def q by (simp add: ct) (simp add: inputWindow_def zeroRFrame_def)
      moreover have "\<not> flCClosed ?x" using False by (simp add: inFlow_def Let_def)
      ultimately show ?thesis unfolding e t_def [symmetric] using flowMoves_step [OF flowMove.take [OF m]] by simp
    qed
  qed
qed

text \<open>The caller sends an item: it is written, or its number is spent and the call or the connection is over.\<close>

lemma marshal_clientItem: "jsonValid payload \<Longrightarrow> \<exists>data. marshalRFrame (clientItem cid seq payload) = Some data"
  by (simp add: marshalRFrame_def rawOk_def clientItem_def zeroRFrame_def)

lemma in_write:
  assumes "linkShape a b L" "jsonValid payload" "\<not> ccTerminal (csCall (lkClient L) a)" "\<not> ccInputClosed (csCall (lkClient L) a)"
    and "ccInputCredit (csCall (lkClient L) a) = Some w" "cwN w > 0"
    and "t = updCall a (\<lambda>c. c\<lparr>ccInputCredit := Some (w\<lparr>cwN := cwN w - 1\<rparr>), ccInputSeq := wrap64 (ccInputSeq c + 1)\<rparr>) (lkClient L)"
  shows "flowMoves (inFlow a b L) (inFlow a b (L\<lparr>lkClient := fst (writeInput a (ccInputSeq (csCall (lkClient L) a)) payload t)\<rparr>))"
proof -
  let ?s = "lkClient L" and ?c = "csCall (lkClient L) a" and ?x = "inFlow a b L" and ?k = "clientConn a (lkClient L)"
  let ?f = "clientItem (ccId (csCall (lkClient L) a)) (ccInputSeq (csCall (lkClient L) a)) payload"
  let ?r = "fst (writeInput a (ccInputSeq ?c) payload t)"
  have q: "pendingDown b (L\<lparr>lkClient := s'\<rparr>) = pendingDown b L" for s' by (simp add: pendingDown_def)
  have ct: "csCall t a = ?c\<lparr>ccInputCredit := Some (w\<lparr>cwN := cwN w - 1\<rparr>), ccInputSeq := wrap64 (ccInputSeq ?c + 1)\<rparr>"
    and kt: "clientConn a t = ?k" using assms(7) by simp_all
  have cr: "flCredit ?x > 0" using assms(5,6) by (simp add: inFlow_def Let_def)
  have part: "inPart (csCall ?r a) = (Some (cwN w - 1), wrap64 (ccInputSeq ?c + 1), ccInputClosed ?c)"
    unfolding write_parts(2) by (simp add: ct inPart_def)
  then obtain w' where w': "ccInputCredit (csCall ?r a) = Some w'" "cwN w' = cwN w - 1"
    "ccInputSeq (csCall ?r a) = wrap64 (ccInputSeq ?c + 1)" "ccInputClosed (csCall ?r a) = ccInputClosed ?c" by (auto simp: inPart_def)
  have lost: ?thesis if "dataOf (pendingUp a (L\<lparr>lkClient := ?r\<rparr>)) = dataOf (pendingUp a L)"
      "\<not> (cnOpen (clientConn a ?r) \<and> cnWritable (clientConn a ?r) \<and> \<not> ccTerminal (csCall ?r a))"
  proof -
    have "inFlow a b (L\<lparr>lkClient := ?r\<rparr>) = ?x\<lparr>flCredit := flCredit ?x - 1, flNext := wrap64 (flNext ?x + 1), flExact := False\<rparr>"
      unfolding inFlow_def Let_def q using that by (simp add: w' assms(5))
    then show ?thesis using flowMoves_step [OF flowMove.produceLost [OF cr]] by simp
  qed
  obtain data where data: "marshalRFrame ?f = Some data" using marshal_clientItem [OF assms(2)] by blast
  have cc: "ccConn (csCall t a) = ccConn ?c" "ccId (csCall t a) = ccId ?c" by (simp_all add: ct)
  have obj: "csConnObj t (ccConn ?c) = ?k" using kt by (simp add: clientConn_def cc)
  then have triv: "(csConnObj t)(ccConn ?c := ?k) = csConnObj t" by (metis fun_upd_triv)
  consider (big) "int (length data) > cnMaxFrame ?k" | (cut) "\<not> int (length data) > cnMaxFrame ?k" "\<not> (cnOpen ?k \<and> cnWritable ?k)"
    | (ok) "\<not> int (length data) > cnMaxFrame ?k" "cnOpen ?k \<and> cnWritable ?k" by blast
  then show ?thesis
  proof cases
    case big
    let ?e = "MeshErr (detailed CodeResourceExhausted (''Not sent: '' @ tooLargeMessage (gKind ?f) (int (length data)) (cnMaxFrame ?k)) ''client'' ''frame_too_large'' False)"
    have "sendConn (ccConn ?c) ?f t = (t, Some (TooLargeErr (tooLargeMessage (gKind ?f) (int (length data)) (cnMaxFrame ?k))))"
      using big data obj by (simp add: sendConn_def connSend_def triv)
    then have r: "?r = abortCall a ?e ''frame_too_large'' t" by (simp add: writeInput_def Let_def cc frameTooLarge_def)
    have "closedOk (csCall t a)" using shape_closedOk [OF assms(1)] assms(3) by (simp add: ct closedOk_def)
    from abort_silences [OF this] have ended: "ccTerminal (csCall ?r a)" unfolding r .
    obtain fs where fs: "clientStep a t ?r fs" "gKind ` set fs \<subseteq> {''call.cancel''}"
      using clientDoes_abort [of "{''call.cancel''}" a t ?e "''frame_too_large''"] unfolding r clientDoes_def by auto
    have "pendingUp a (L\<lparr>lkClient := ?r\<rparr>) = pendingUp a L @ fs"
      using fs(1) shape_bounds(1) [OF assms(1)] kt by (simp add: pendingUp_def clientStep_def)
    moreover have "dataOf fs = []" by (rule dataOf_none [OF fs(2)]) simp_all
    ultimately show ?thesis using lost ended by simp
  next
    case cut
    have "sendConn (ccConn ?c) ?f t = (t, Some (PlainErr ''failed to write''))"
      using cut data obj by (auto simp: sendConn_def connSend_def triv)
    then have r: "?r = t" by (simp add: writeInput_def Let_def cc frameTooLarge_def)
    have "pendingUp a (L\<lparr>lkClient := t\<rparr>) = pendingUp a L" by (simp add: pendingUp_def kt)
    then show ?thesis using lost cut(2) unfolding r kt by auto
  next
    case ok
    define u where "u = t\<lparr>csConnObj := (csConnObj t)(ccConn ?c := ?k\<lparr>cnWritten := cnWritten ?k @ [?f]\<rparr>)\<rparr>"
    have "sendConn (ccConn ?c) ?f t = (u, None)" using ok data obj by (simp add: sendConn_def connSend_def u_def)
    then have r: "?r = u" by (simp add: writeInput_def Let_def cc frameTooLarge_def)
    have ku: "clientConn a u = ?k\<lparr>cnWritten := cnWritten ?k @ [?f]\<rparr>" by (simp add: u_def clientConn_def ct)
    have cu: "csCall u a = csCall t a" by (simp add: u_def)
    have "pendingUp a (L\<lparr>lkClient := u\<rparr>) = pendingUp a L @ [?f]" using shape_bounds(1) [OF assms(1)] by (simp add: pendingUp_def ku)
    then have "inFlow a b (L\<lparr>lkClient := u\<rparr>) = ?x\<lparr>flCredit := flCredit ?x - 1, flNext := wrap64 (flNext ?x + 1), flData := flData ?x @ [Some (flNext ?x)]\<rparr>"
      unfolding inFlow_def Let_def q by (simp add: cu ct ku assms(5)) (simp add: clientItem_def zeroRFrame_def)
    moreover have "\<not> flPClosed ?x" "flExact ?x" using ok assms(3,4) by (simp_all add: inFlow_def Let_def)
    ultimately show ?thesis unfolding r using flowMoves_step [OF flowMove.produce [OF cr]] by simp
  qed
qed

lemma in_sendItem:
  assumes "linkShape a b L" "jsonValid payload"
  shows "flowMoves (inFlow a b L) (inFlow a b (L\<lparr>lkClient := fst (sendInput done a payload (lkClient L))\<rparr>))"
proof -
  let ?s = "lkClient L" and ?c = "csCall (lkClient L) a"
  show ?thesis
  proof (cases "\<exists>w. \<not> ccInputClosed ?c \<and> ccInputCredit ?c = Some w \<and> cwClosed w = None \<and> cwN w > 0")
    case True
    then obtain w where w: "\<not> ccInputClosed ?c" "ccInputCredit ?c = Some w" "cwClosed w = None" "cwN w > 0" by blast
    let ?t = "updCall a (\<lambda>c. c\<lparr>ccInputCredit := Some (w\<lparr>cwN := cwN w - 1\<rparr>), ccInputSeq := wrap64 (ccInputSeq c + 1)\<rparr>) ?s"
    have nt: "\<not> ccTerminal ?c" using shape_closedOk [OF assms(1)] w by (auto simp: closedOk_def)
    have "fst (sendInput done a payload ?s) = fst (writeInput a (ccInputSeq ?c) payload ?t)"
      using w by (simp add: sendInput_def reserveInput_def Let_def acquire_def split: prod.split)
    then show ?thesis using in_write [OF assms nt w(1,2,4) refl] by simp
  next
    case False
    then have "fst (sendInput done a payload ?s) = ?s"
      by (auto simp: sendInput_def reserveInput_def Let_def acquire_def split: option.splits)
    then show ?thesis by simp
  qed
qed

lemma in_endInput:
  assumes "linkShape a b L"
  shows "flowMoves (inFlow a b L) (inFlow a b (L\<lparr>lkClient := fst (closeInput a (lkClient L))\<rparr>))"
proof (cases "ccInputClosed (csCall (lkClient L) a)")
  case True
  then show ?thesis by (simp add: closeInput_def Let_def)
next
  case False
  let ?s = "lkClient L" and ?c = "csCall (lkClient L) a" and ?x = "inFlow a b L" and ?k = "clientConn a (lkClient L)"
  let ?u = "updCall a (\<lambda>c. c\<lparr>ccInputClosed := True\<rparr>) ?s" and ?f = "endFor (ccId (csCall (lkClient L) a)) ''client''"
  have q: "pendingDown b (L\<lparr>lkClient := s'\<rparr>) = pendingDown b L" for s' by (simp add: pendingDown_def)
  have c: "fst (closeInput a ?s) = fst (sendConn (ccConn ?c) ?f ?u)" using False by (simp add: closeInput_def Let_def)
  show ?thesis
  proof (cases rule: sendConn_cases [of "ccConn ?c" ?f ?u])
    case (refused err)
    have "pendingUp a (L\<lparr>lkClient := ?u\<rparr>) = pendingUp a L" by (simp add: pendingUp_def)
    then have "inFlow a b (L\<lparr>lkClient := ?u\<rparr>) = ?x\<lparr>flPClosed := True\<rparr>" unfolding inFlow_def Let_def q by simp
    then show ?thesis unfolding c refused using flowMoves_step [OF flowMove.finishLost] by simp
  next
    case written
    define w where "w = fst (sendConn (ccConn ?c) ?f ?u)"
    have k: "clientConn a w = ?k\<lparr>cnWritten := cnWritten ?k @ [?f]\<rparr>" unfolding w_def written(3) by (simp add: clientConn_def)
    have cw: "csCall w a = ?c\<lparr>ccInputClosed := True\<rparr>" by (simp add: w_def)
    have "pendingUp a (L\<lparr>lkClient := w\<rparr>) = pendingUp a L @ [?f]" using shape_bounds(1) [OF assms] by (simp add: pendingUp_def k)
    then have "inFlow a b (L\<lparr>lkClient := w\<rparr>) = ?x\<lparr>flPClosed := True, flData := flData ?x @ [None]\<rparr>"
      unfolding inFlow_def Let_def q by (simp add: cw k) (simp add: endFor_def zeroRFrame_def)
    moreover have "\<not> flPClosed ?x" using False by (simp add: inFlow_def Let_def)
    ultimately show ?thesis unfolding c w_def [symmetric] using flowMoves_step [OF flowMove.finishData] by simp
  qed
qed

lemma consumed_inPart [simp]: "inPart (csCall (consumed a s) a) = inPart (csCall s a)"
  by (simp add: consumed_def Let_def inPart_def)

lemma next_inPart [simp]: "inPart (csCall (fst (nextFrame a s)) a) = inPart (csCall s a)"
  by (simp add: nextFrame_def Let_def inPart_def split: list.split option.split)

lemma recvLoop_inPart: "inPart (csCall (snd (fst (recvLoop fuel (nextFrame a) (consumed a) (abortCall a) dec (st, s)))) a) = inPart (csCall s a)"
proof (induction fuel arbitrary: s rule: less_induct)
  case (less fuel)
  obtain t r where n: "nextFrame a s = (t, r)" by fastforce
  have t: "inPart (csCall t a) = inPart (csCall s a)" using next_inPart [of a s] unfolding n by simp
  have f: "inPart (csCall (snd (fst (recvFrame (consumed a) (abortCall a) dec f (st, t)))) a) = inPart (csCall s a)" for f
    by (simp add: recvFrame_state t split: sum.split)
  show ?case
    by (subst recvLoop.simps) (use n f t less.IH in \<open>auto split: wait.split sum.split nat.split\<close>)
qed

lemma sendOutput_inParts:
  "scInputAllowance (svCall (fst (sendOutput b e v)) b) = scInputAllowance (svCall v b)"
  "scInputSequence (svCall (fst (sendOutput b e v)) b) = scInputSequence (svCall v b)"
  "scInputClosed (svCall (fst (sendOutput b e v)) b) = scInputClosed (svCall v b)"
  "scInput (svCall (fst (sendOutput b e v)) b) = scInput (svCall v b)"
proof -
  have w: "scInputAllowance (svCall (fst (writeOutput b p v)) b) = scInputAllowance (svCall v b) \<and>
     scInputSequence (svCall (fst (writeOutput b p v)) b) = scInputSequence (svCall v b) \<and>
     scInputClosed (svCall (fst (writeOutput b p v)) b) = scInputClosed (svCall v b) \<and> scInput (svCall (fst (writeOutput b p v)) b) = scInput (svCall v b)" for p v
  proof -
    let ?u = "updServed b (\<lambda>c. c\<lparr>scOutputSequence := wrap64 (scOutputSequence (svCall v b) + 1)\<rparr>) v"
    obtain t err where t: "callSend b (outputItem (scOutputSequence (svCall v b)) p) ?u = (t, err)" by fastforce
    have "svCall t = svCall ?u" using callSend_call [of b "outputItem (scOutputSequence (svCall v b)) p" ?u] unfolding t by simp
    then show ?thesis by (simp add: writeOutput_def Let_def t split: option.split)
  qed
  have "fst (sendOutput b e v) = v \<or> (\<exists>x. fst (sendOutput b e v) = updServed b (cancelCtx x) v) \<or>
      (\<exists>p w. fst (sendOutput b e v) = fst (writeOutput b p (updServed b (\<lambda>c. c\<lparr>scCredit := w\<rparr>) v)))"
    by (auto simp: sendOutput_def Let_def split: sum.split prod.split wait.split option.split) (metis fst_conv)
  then show "scInputAllowance (svCall (fst (sendOutput b e v)) b) = scInputAllowance (svCall v b)"
    "scInputSequence (svCall (fst (sendOutput b e v)) b) = scInputSequence (svCall v b)"
    "scInputClosed (svCall (fst (sendOutput b e v)) b) = scInputClosed (svCall v b)"
    "scInput (svCall (fst (sendOutput b e v)) b) = scInput (svCall v b)"
    using w by auto
qed

lemma runEnd_silences: "scTerminal (svCall (runEnd b h encoded v) b)"
proof (rule runEnd_finishes [of UNIV b v h encoded])
  fix w f
  assume "runEnd b h encoded v = finish b f w"
  then show ?thesis by simp
qed simp

lemma in_step: "linkStep a b L L' \<Longrightarrow> linkShape a b L \<Longrightarrow> serverListens b L' \<Longrightarrow> flowMoves (inFlow a b L) (inFlow a b L')"
proof (induction rule: linkStep.induct)
  case (toClient L f rest)
  then show ?case by (intro in_toClient)
next
  case (toServer L f rest)
  then show ?case by (intro in_toServer)
next
  case (start L)
  then show ?case unfolding flow_started by (intro in_start)
next
  case (send L payload)
  have "inFlow a b (L\<lparr>lkServer := fst (sendOutput b (Inr payload) (lkServer L))\<rparr>) = inFlow a b L"
    by (rule in_server [OF send(4), of "{''stream.item''}"]) (simp_all add: serverDoes_sendOutput send(2) sendOutput_inParts)
  then show ?case by simp
next
  case (sendInvalid L err)
  have "inFlow a b (L\<lparr>lkServer := fst (sendOutput b (Inl err) (lkServer L))\<rparr>) = inFlow a b L"
    by (rule in_server [OF sendInvalid(2), of "{}"]) (simp_all add: serverDoes_sendInvalid sendOutput_inParts)
  then show ?case by simp
next
  case (closeSend L)
  have "inFlow a b (L\<lparr>lkServer := fst (closeOutput b (lkServer L))\<rparr>) = inFlow a b L"
    by (rule in_server [OF closeSend(3), of "{''stream.end''}"])
      (simp_all add: serverDoes_closeOutput closeSend(2), simp_all add: closeOutput_def Let_def)
  then show ?case by simp
next
  case (readInput L)
  then show ?case by (intro in_nextInput)
next
  case (return L h encoded)
  then show ?case using runEnd_silences by (simp add: serverListens_def)
next
  case (serverDeadline L err)
  have "inFlow a b (L\<lparr>lkServer := updServed b (cancelCtx err) (lkServer L)\<rparr>) = inFlow a b L"
    by (rule in_server [OF serverDeadline(1) serverDoes_upd, of _ "{}"]) simp_all
  then show ?case by simp
next
  case (serverIdle L)
  then show ?case using finish_silences by (simp add: idleExpired_def Let_def)
next
  case (serverNoWrite L)
  have "inFlow a b (L\<lparr>lkServer := serverCut b (lkServer L)\<rparr>) = inFlow a b L"
    by (rule in_server [OF serverNoWrite(1) serverDoes_cut, of "{}"]) (simp_all add: serverCut_def)
  then show ?case by simp
next
  case (serverGone L)
  then show ?case by (simp add: serverListens_def serveEnd_call [where P = scSess])
next
  case (recv L r fuel dec)
  have d: "clientDoes {''stream.window'', ''call.cancel''} a (lkClient L) (snd (fst r))"
    unfolding recv(2) by (rule clientDoes_recv [OF recv(1)]) simp_all
  have "inPart (csCall (snd (fst r)) a) = inPart (csCall (lkClient L) a)"
    unfolding recv(2) by (simp add: Recv_def recvLoop_inPart)
  from in_clientPart [OF recv(3) d _ _ this] show ?case unfolding flow_stream by simp
next
  case (result L)
  show ?case by (rule in_clientPart [OF result(2) clientDoes_silent [OF clientStep_result], of "{}"]) (simp_all add: result_parts(2))
next
  case (sendItem L payload "done")
  then show ?case by (intro in_sendItem)
next
  case (endInput L)
  then show ?case by (intro in_endInput)
next
  case (giveUp L err reason)
  show ?case by (rule in_clientPart [OF giveUp(1), of "{''call.cancel''}"]) (simp_all add: clientDoes_abort)
next
  case (clientNoWrite L)
  show ?case by (rule in_clientPart [OF clientNoWrite(1) clientDoes_silent [OF clientStep_cut], of "{}"]) (simp_all add: clientCut_def)
next
  case (clientGone L)
  show ?case by (rule in_clientPart [OF clientGone(1) clientDoes_silent [OF clientStep_lost], of "{}"]) (simp_all add: lost_parts)
qed

section \<open>The interpretations\<close>

text \<open>Each step is an operation of one end.\<close>

lemma step_ends: "linkStep a b L L' \<Longrightarrow> linkShape a b L \<Longrightarrow>
    clientDoes UNIV a (lkClient L) (lkClient L') \<and> serverDoes UNIV b (lkServer L) (lkServer L')"
proof (induction rule: linkStep.induct)
  case (toClient L f rest)
  have "clientStep a (lkClient L) (clientReads f (lkClient L)) []"
    using clientReads_shape [OF toClient(3) linkShape_down(3) [OF toClient(3,2)]] clientStep_deliver by simp
  then show ?case using clientDoes_silent by simp
next
  case (toServer L f rest)
  note u = linkShape_up [OF toServer(3,2)]
  have "gKind f \<noteq> ''call.open''" "map_of (seCalls (svSession (lkServer L) (scSess (svCall (lkServer L) b)))) (gCallID f) \<in> {None, Some b}"
    using goodUp_notOpen [OF u(3)] toServer(3) by (auto simp: linkShape_def Let_def)
  then show ?case using serverDoes_handle by simp
next
  case (serverDeadline L err)
  show ?case by (simp, rule serverDoes_upd) simp_all
next
  case (recv L r fuel dec)
  have "clientDoes UNIV a (lkClient L) (snd (fst r))" unfolding recv(2) by (rule clientDoes_recv [OF recv(1)]) simp_all
  then show ?case by simp
qed (simp_all add: serverDoes_runStart serverDoes_sendOutput serverDoes_sendInvalid serverDoes_closeOutput serverDoes_nextInput serverDoes_runEnd
    serverDoes_idle serverDoes_cut serverDoes_gone clientDoes_silent [OF clientStep_result] clientDoes_sendInput clientDoes_closeInput
    clientDoes_abort clientDoes_silent [OF clientStep_cut] clientDoes_silent [OF clientStep_lost])

lemma clientListens_before: "linkStep a b L L' \<Longrightarrow> linkShape a b L \<Longrightarrow> clientListens a L' \<Longrightarrow> clientListens a L"
  using step_ends [of a b L L'] listens_client [of UNIV a L "lkClient L'"] by (simp add: clientListens_def)

lemma serverListens_before: "linkStep a b L L' \<Longrightarrow> linkShape a b L \<Longrightarrow> serverListens b L' \<Longrightarrow> serverListens b L"
  using step_ends [of a b L L'] listens_server [of UNIV b L "lkServer L'"] by (simp add: serverListens_def)

interpretation outs: credited_stream "\<lambda>L L'. linkShape a b L \<and> linkStep a b L L'" "outFlow a b" "clientListens a" for a b
  by unfold_locales (auto intro: clientListens_before out_step)

interpretation ins: credited_stream "\<lambda>L L'. linkShape a b L \<and> linkStep a b L L'" "inFlow a b" "serverListens b" for a b
  by unfold_locales (auto intro: serverListens_before in_step)

lemma reach_shape:
  assumes "(linkStep a b)\<^sup>*\<^sup>* L L'" "linkShape a b L"
  shows "(\<lambda>L L'. linkShape a b L \<and> linkStep a b L L')\<^sup>*\<^sup>* L L' \<and> linkShape a b L'"
  using assms
proof (induction rule: rtranclp_induct)
  case (step y z)
  then have "linkShape a b y" "(\<lambda>L L'. linkShape a b L \<and> linkStep a b L L')\<^sup>*\<^sup>* L y" by blast+
  then show ?case using step(2) linkShape_step rtranclp.rtrancl_into_rtrancl [of _ L y z] by blast
qed simp

end
