(* ===== verification/Client.thy ===== *)
theory Client
  imports Complex_Main Client_Call
begin

text \<open>
  The Go client around its calls (\<^verbatim>\<open>meshcall-go/client.go\<close>): call options, opening a call, finding a
  connection among several endpoints, losing one, and the chain of interceptors with the built-in retry.

  \<^item> Durations multiplied by a \<^verbatim>\<open>float64\<close> are computed in exact rationals and truncated.
  \<^item> What the environment decides is an argument: the outcome of a handshake with an endpoint, the time at
    which something returns, the random number of a jitter.
\<close>

section \<open>Call options\<close>

record callOptions =
  opTimeout :: time
  opIdleTimeout :: time
  opMetadata :: "(string, string) gomap"
  opIdempotencyKey :: string
  opInstance :: string
  opIdempotent :: bool

definition zeroOptions :: callOptions where
  "zeroOptions = \<lparr>opTimeout = 0, opIdleTimeout = 0, opMetadata = [], opIdempotencyKey = [], opInstance = [], opIdempotent = False\<rparr>"

type_synonym callOption = "callOptions \<Rightarrow> callOptions"

definition WithTimeout :: "time \<Rightarrow> callOption" where "WithTimeout d = (\<lambda>op. op\<lparr>opTimeout := d\<rparr>)"
definition WithIdleTimeout :: "time \<Rightarrow> callOption" where "WithIdleTimeout d = (\<lambda>op. op\<lparr>opIdleTimeout := d\<rparr>)"
definition WithMetadata :: "(string, string) gomap \<Rightarrow> callOption" where
  "WithMetadata md = (\<lambda>op. op\<lparr>opMetadata := fold (\<lambda>(k, v). AList.update k v) md (opMetadata op)\<rparr>)"
definition WithIdempotencyKey :: "string \<Rightarrow> callOption" where "WithIdempotencyKey key = (\<lambda>op. op\<lparr>opIdempotencyKey := key\<rparr>)"
definition WithInstance :: "string \<Rightarrow> callOption" where "WithInstance i = (\<lambda>op. op\<lparr>opInstance := i\<rparr>)"
definition IdempotentCall :: callOption where "IdempotentCall = (\<lambda>op. op\<lparr>opIdempotent := True\<rparr>)"

text \<open>\<^verbatim>\<open>WithOptions\<close>: the options added to the client's defaults.\<close>

definition mergeOptions :: "callOption list \<Rightarrow> callOptions \<Rightarrow> callOption list" where
  "mergeOptions defaults op = defaults @
     (if opTimeout op > 0 then [WithTimeout (opTimeout op)] else []) @
     (if opIdleTimeout op > 0 then [WithIdleTimeout (opIdleTimeout op)] else []) @
     (if length (opMetadata op) > 0 then [WithMetadata (opMetadata op)] else []) @
     (if opIdempotencyKey op \<noteq> [] then [WithIdempotencyKey (opIdempotencyKey op)] else []) @
     (if opInstance op \<noteq> [] then [WithInstance (opInstance op)] else []) @
     (if opIdempotent op then [IdempotentCall] else [])"

record callInfo =
  inService :: string
  inMethod :: string
  inStream :: string
  inOptions :: callOptions

definition buildInfo :: "callOption list \<Rightarrow> string \<Rightarrow> string \<Rightarrow> string \<Rightarrow> callOption list \<Rightarrow> callInfo" where
  "buildInfo defaults service mth stream opts =
     \<lparr>inService = service, inMethod = mth, inStream = stream, inOptions = fold (\<lambda>g op. g op) opts (fold (\<lambda>g op. g op) defaults zeroOptions)\<rparr>"

section \<open>Opening a call\<close>

definition grace :: "time \<Rightarrow> time \<Rightarrow> time" where
  "grace deadlineGrace timeout = (if deadlineGrace > 0 then deadlineGrace else max second (timeout div 10))"

text \<open>The budget of a call: the option, or the context's deadline when that is earlier.\<close>

definition callTimeout :: "time \<Rightarrow> time option \<Rightarrow> callOptions \<Rightarrow> time" where
  "callTimeout now deadline op = (case deadline of
      None \<Rightarrow> opTimeout op
    | Some d \<Rightarrow> if opTimeout op = 0 \<or> d - now < opTimeout op then max millisecond (d - now) else opTimeout op)"

definition openFrame :: "string \<Rightarrow> callInfo \<Rightarrow> time \<Rightarrow> string \<Rightarrow> rframe" where
  "openFrame cid info timeout payload =
     (let op = inOptions info in
      zeroRFrame\<lparr>gKind := ''call.open'', gCallID := cid, gService := inService info, gMethod := inMethod info,
        gPayload := Some payload, gIdempotency := opIdempotencyKey op, gInstanceID := opInstance op,
        gMetadata := (if length (opMetadata op) > 0 then Some (opMetadata op) else None),
        gTimeoutMS := (if timeout > 0 then Some (max 1 (timeout div millisecond)) else None),
        gIdleTimeout := (if opIdleTimeout op > 0 then Some (max 1 (opIdleTimeout op div millisecond)) else None)\<rparr>)"

definition newClientCall :: "addr \<Rightarrow> string \<Rightarrow> callInfo \<Rightarrow> time \<Rightarrow> clientCall" where
  "newClientCall k cid info timeout =
     \<lparr>ccConn = k, ccId = cid, ccStream = inStream info, ccQueue = [], ccFailure = None, ccTerminal = False, ccTrailers = None,
      ccInputCredit = (if inStream info = ''client_stream'' \<or> inStream info = ''duplex'' then Some newCreditWindow else None),
      ccInputSeq = 0, ccInputClosed = False, ccOutputAllowance = 0, ccExpectedSeq = 0, ccOutputEnded = False,
      ccTimer = (timeout > 0), ccIdle = opIdleTimeout (inOptions info), ccIdleTimer = False, ccStop = True\<rparr>"

text \<open>\<^verbatim>\<open>open\<close> once a connection is there.\<close>

definition openClient :: "addr \<Rightarrow> string \<Rightarrow> callInfo \<Rightarrow> time \<Rightarrow> string \<Rightarrow> clientState \<Rightarrow> clientState \<times> (goerr + addr)" where
  "openClient k cid info timeout payload s =
     (let a = csNext s;
          s1 = s\<lparr>csCall := (csCall s)(a := newClientCall k cid info timeout), csNext := Suc a, csCalls := AList.update cid a (csCalls s)\<rparr> in
      case sendConn k (openFrame cid info timeout payload) s1 of
        (s2, Some err) \<Rightarrow>
          (let e = (case frameTooLarge ''client'' (Some err) of Some e \<Rightarrow> e
                    | None \<Rightarrow> (newError CodeUnavailable ''Connection was lost'')\<lparr>reRetryable := True\<rparr>);
               s3 = failCall a (MeshErr e) s2 in
           (s3, Inl (case ccFailure (csCall s3 a) of Some x \<Rightarrow> x | None \<Rightarrow> MeshErr e)))
      | (s2, None) \<Rightarrow>
          if inStream info = ''server_stream'' \<or> inStream info = ''duplex'' then
            (armIdle a (fst (sendConn k (windowFor cid ''server'' initialStreamCredit)
               (updCall a (\<lambda>c. c\<lparr>ccOutputAllowance := initialStreamCredit\<rparr>) s2))), Inr a)
          else (s2, Inr a))"

section \<open>Connections\<close>

definition contextError :: "bool \<Rightarrow> goerr" where
  "contextError deadline = MeshErr (if deadline then detailed CodeDeadlineExceeded ''Call deadline exceeded'' ''client'' [] False
     else newError CodeCancelled ''Call was cancelled'')"

text \<open>One pass of the loop of \<^verbatim>\<open>connection\<close>: the live connection, a wait for the goroutine that is connecting,
  or the decision to connect (with backoff when there was a connection before); and what happens when the
  attempt has returned.\<close>

datatype connPass = Have addr | Wait | Dial bool

definition connectionPass :: "clientState \<Rightarrow> clientState \<times> connPass" where
  "connectionPass s = (case csConn s of
      Some k \<Rightarrow> (s, Have k)
    | None \<Rightarrow> if csConnecting s then (s, Wait)
        else (s\<lparr>csClosed := False, csConnecting := True\<rparr>, Dial (csEverConnected s)))"

definition connected :: "goerr + addr \<Rightarrow> clientState \<Rightarrow> clientState" where
  "connected r s = (case r of
      Inl _ \<Rightarrow> s\<lparr>csConnecting := False\<rparr>
    | Inr k \<Rightarrow> s\<lparr>csConnecting := False, csConn := Some k, csEverConnected := True\<rparr>)"

definition helloClient :: "string \<Rightarrow> rframe" where
  "helloClient peer = zeroRFrame\<lparr>gKind := ''hello'', gProtocol := ProtocolName, gRole := ''client'', gPeerID := peer\<rparr>"

definition helloAccepted :: "goerr + rframe \<Rightarrow> bool" where
  "helloAccepted r = (case r of Inl _ \<Rightarrow> False | Inr ack \<Rightarrow> gKind ack = ''hello.ack'' \<and> gProtocol ack = ProtocolName)"

text \<open>\<^verbatim>\<open>connectAny\<close>: one pass over the endpoints from the cursor on; \<open>shake i\<close> is the outcome of the handshake
  with endpoint \<open>i\<close>.  The new cursor is the endpoint that worked.\<close>

fun connectFrom :: "(nat \<Rightarrow> goerr + addr) \<Rightarrow> nat \<Rightarrow> nat \<Rightarrow> nat list \<Rightarrow> goerr option \<Rightarrow> nat \<times> (goerr option + addr)" where
  "connectFrom shake cursor n [] prev = (cursor, Inl prev)"
| "connectFrom shake cursor n (offset # offsets) prev =
     (let index = (cursor + offset) mod n in
      case shake index of
        Inr k \<Rightarrow> (index, Inr k)
      | Inl err \<Rightarrow> connectFrom shake cursor n offsets (Some err))"

definition connectAny :: "(nat \<Rightarrow> goerr + addr) \<Rightarrow> nat \<Rightarrow> nat \<Rightarrow> nat \<times> (goerr option + addr)" where
  "connectAny shake cursor n = connectFrom shake cursor n [0..<n] None"

fun failMany :: "addr list \<Rightarrow> goerr \<Rightarrow> clientState \<Rightarrow> clientState" where
  "failMany [] e s = s"
| "failMany (a # as) e s = failMany as e (failCall a e s)"

text \<open>\<^verbatim>\<open>failAll\<close>: every call, or only those of one connection.\<close>

definition failAll :: "goerr \<Rightarrow> addr option \<Rightarrow> clientState \<Rightarrow> clientState" where
  "failAll e only s = failMany (filter (\<lambda>a. only = None \<or> Some (ccConn (csCall s a)) = only) (map snd (csCalls s))) e s"

text \<open>The end of \<^verbatim>\<open>readLoop\<close>: \<open>n\<close> is the number of endpoints.\<close>

definition readLoopEnd :: "nat \<Rightarrow> addr \<Rightarrow> clientState \<Rightarrow> clientState" where
  "readLoopEnd n k s =
     (let s1 = (if csConn s = Some k
                then s\<lparr>csConn := None, csCursor := (if n > 1 then (csCursor s + 1) mod n else csCursor s)\<rparr> else s) in
      failAll (MeshErr ((newError CodeUnavailable ''Connection was lost'')\<lparr>reRetryable := True\<rparr>)) (Some k) s1)"

text \<open>\<^verbatim>\<open>Close\<close>; the result says whether the \<^verbatim>\<open>onClose\<close> hook runs.\<close>

definition closeClient :: "clientState \<Rightarrow> clientState \<times> bool" where
  "closeClient s =
     (let s1 = s\<lparr>csClosed := True, csConn := None, csOnClose := False\<rparr>;
          s2 = (case csConn s of None \<Rightarrow> s1 | Some k \<Rightarrow> s1\<lparr>csConnObj := (csConnObj s1)(k := connClose (csConnObj s1 k))\<rparr>) in
      (failAll (MeshErr (newError CodeUnavailable ''Client is closed'')) None s2, csOnClose s))"

section \<open>Backoff\<close>

record reconnectPolicy =
  rcDisabled :: bool
  rcInitialDelay :: time
  rcMaxDelay :: time
  rcMultiplier :: rat
  rcJitter :: rat
  rcMaxAttempts :: int

definition DefaultReconnect :: reconnectPolicy where
  "DefaultReconnect = \<lparr>rcDisabled = False, rcInitialDelay = 100 * millisecond, rcMaxDelay = 30 * second, rcMultiplier = 2,
     rcJitter = 1 / 5, rcMaxAttempts = 0\<rparr>"

definition reconnectDefaults :: "reconnectPolicy \<Rightarrow> reconnectPolicy" where
  "reconnectDefaults p0 =
     (let p1 = (if rcInitialDelay p0 \<le> 0 then p0\<lparr>rcInitialDelay := rcInitialDelay DefaultReconnect\<rparr> else p0);
          p2 = (if rcMaxDelay p1 < rcInitialDelay p1 then p1\<lparr>rcMaxDelay := max (rcInitialDelay p1) (rcMaxDelay DefaultReconnect)\<rparr> else p1);
          p3 = (if rcMultiplier p2 < 1 then p2\<lparr>rcMultiplier := rcMultiplier DefaultReconnect\<rparr> else p2) in
      if rcJitter p3 \<le> 0 \<or> rcJitter p3 > 1 then p3\<lparr>rcJitter := rcJitter DefaultReconnect\<rparr> else p3)"

text \<open>A jittered duration: \<open>r\<close> in \<open>[0, 1)\<close> is the random number.\<close>

definition jittered :: "rat \<Rightarrow> rat \<Rightarrow> rat \<Rightarrow> time" where
  "jittered base jitter r = \<lfloor>max 0 (base + (r * 2 - 1) * (base * jitter))\<rfloor>"

text \<open>The closure of \<^verbatim>\<open>delays\<close>: its state is the next delay and the attempts made; \<open>p\<close> has its defaults.\<close>

definition nextDelay :: "reconnectPolicy \<Rightarrow> rat \<Rightarrow> time \<times> int \<Rightarrow> (time \<times> int) \<times> time option" where
  "nextDelay p r x = (case x of (delay, attempt) \<Rightarrow>
     if rcDisabled p \<or> (rcMaxAttempts p > 0 \<and> attempt \<ge> rcMaxAttempts p) then ((delay, attempt), None)
     else ((min (rcMaxDelay p) \<lfloor>of_int delay * rcMultiplier p\<rfloor>, attempt + 1), Some (jittered (of_int delay) (rcJitter p) r)))"

text \<open>\<^verbatim>\<open>connectWithBackoff\<close>: \<open>passes\<close> are the outcomes of \<^verbatim>\<open>connectAny\<close>, one for each pass made, each with the
  random number of the delay after it and whether the context ended during that delay.\<close>

fun connectWithBackoff ::
    "reconnectPolicy \<Rightarrow> bool \<Rightarrow> ((goerr + addr) \<times> rat \<times> goerr option) list \<Rightarrow> time \<times> int \<Rightarrow> (goerr + addr) wait" where
  "connectWithBackoff p retry [] x = Blocked"
| "connectWithBackoff p retry ((outcome, r, ended) # passes) x = (case outcome of
      Inr k \<Rightarrow> Ready (Inr k)
    | Inl err \<Rightarrow> (case nextDelay p r x of
        (x', d) \<Rightarrow>
          if \<not> retry \<or> d = None then
            Ready (Inl (case AsError err of Some e \<Rightarrow> MeshErr e
              | None \<Rightarrow> MeshErr ((newError CodeUnavailable (''Could not connect: '' @ goerrText err))\<lparr>reRetryable := True\<rparr>)))
          else (case ended of Some e \<Rightarrow> Ready (Inl e) | None \<Rightarrow> connectWithBackoff p retry passes x')))"

section \<open>Retries\<close>

record retryPolicy =
  rpDisabled :: bool
  rpMaxAttempts :: int
  rpInitialDelay :: time
  rpMaxDelay :: time
  rpMultiplier :: rat
  rpJitter :: rat
  rpRetryCodes :: "string list option"

definition DefaultRetry :: retryPolicy where
  "DefaultRetry = \<lparr>rpDisabled = False, rpMaxAttempts = 3, rpInitialDelay = 100 * millisecond, rpMaxDelay = 2 * second,
     rpMultiplier = 2, rpJitter = 1 / 5, rpRetryCodes = Some [CodeUnavailable, CodeResourceExhausted]\<rparr>"

definition retryDefaults :: "retryPolicy \<Rightarrow> retryPolicy" where
  "retryDefaults p0 =
     (let p1 = (if rpMaxAttempts p0 = 0 then p0\<lparr>rpMaxAttempts := rpMaxAttempts DefaultRetry\<rparr> else p0);
          p2 = (if rpInitialDelay p1 = 0 then p1\<lparr>rpInitialDelay := rpInitialDelay DefaultRetry, rpMaxDelay := rpMaxDelay DefaultRetry,
                  rpMultiplier := rpMultiplier DefaultRetry, rpJitter := rpJitter DefaultRetry\<rparr> else p1) in
      if rpRetryCodes p2 = None then p2\<lparr>rpRetryCodes := rpRetryCodes DefaultRetry\<rparr> else p2)"

definition retryDelay :: "retryPolicy \<Rightarrow> int \<Rightarrow> rat \<Rightarrow> time" where
  "retryDelay p attempt r = jittered (min (of_int (rpMaxDelay p)) (of_int (rpInitialDelay p) * rpMultiplier p ^ nat (attempt - 1))) (rpJitter p) r"

text \<open>The condition under which the loop of \<^verbatim>\<open>retry\<close> returns, and what it returns then.\<close>

definition retryStops :: "retryPolicy \<Rightarrow> bool \<Rightarrow> int \<Rightarrow> goerr option \<Rightarrow> bool" where
  "retryStops p mayRetry attempt err = (case err of
      None \<Rightarrow> True
    | Some x \<Rightarrow> (case AsError x of
        None \<Rightarrow> True
      | Some e \<Rightarrow> \<not> mayRetry \<or> \<not> reRetryable e \<or> \<not> List.member (case rpRetryCodes p of Some cs \<Rightarrow> cs | None \<Rightarrow> []) (reCode e) \<or>
          attempt \<ge> rpMaxAttempts p))"

definition withAttempts :: "int \<Rightarrow> goerr option \<Rightarrow> goerr option" where
  "withAttempts attempt err = (case err of
      None \<Rightarrow> None
    | Some x \<Rightarrow> (case AsError x of
        Some e \<Rightarrow> if attempt > 1
          then Some (MeshErr (e\<lparr>reDetails := Some (AList.update ''attempts'' (JNum (itoa attempt)) (case reDetails e of Some d \<Rightarrow> d | None \<Rightarrow> []))\<rparr>))
          else Some x
      | None \<Rightarrow> Some x))"

text \<open>The loop from an attempt on, with the timeout in the call's options.  \<open>nxt n t\<close> is attempt \<open>n\<close> made with timeout
  \<open>t\<close>: its error and the time it returned; \<open>delay n\<close> is the delay after it; \<open>ended n\<close> says that the context ended
  during that delay.  The first part of the result are the timeouts of the attempts made.\<close>

function retryFrom ::
    "retryPolicy \<Rightarrow> bool \<Rightarrow> time option \<Rightarrow> (int \<Rightarrow> time \<Rightarrow> goerr option \<times> time) \<Rightarrow> (int \<Rightarrow> time) \<Rightarrow> (int \<Rightarrow> goerr option) \<Rightarrow>
     int \<Rightarrow> time \<Rightarrow> time list \<times> goerr option" where
  "retryFrom p mayRetry deadline nxt delay ended attempt timeout =
     (case nxt attempt timeout of (err, now) \<Rightarrow>
        if retryStops p mayRetry attempt err then ([timeout], withAttempts attempt err)
        else (case deadline of
            Some d \<Rightarrow>
              if d - now \<le> delay attempt then ([timeout], err)
              else (case ended attempt of
                  Some e \<Rightarrow> ([timeout], Some e)
                | None \<Rightarrow> (case retryFrom p mayRetry deadline nxt delay ended (attempt + 1) (d - now - delay attempt) of
                    (ts, r) \<Rightarrow> (timeout # ts, r)))
          | None \<Rightarrow> (case ended attempt of
                Some e \<Rightarrow> ([timeout], Some e)
              | None \<Rightarrow> (case retryFrom p mayRetry deadline nxt delay ended (attempt + 1) timeout of
                  (ts, r) \<Rightarrow> (timeout # ts, r)))))"
  by pat_completeness auto
termination
  by (relation "measure (\<lambda>(p, _, _, _, _, _, attempt, _). nat (rpMaxAttempts p - attempt))")
    (auto simp: retryStops_def split: option.splits)

declare retryFrom.simps [simp del]

definition retry :: "retryPolicy \<Rightarrow> callOptions \<Rightarrow> time \<Rightarrow> (int \<Rightarrow> time \<Rightarrow> goerr option \<times> time) \<Rightarrow> (int \<Rightarrow> rat) \<Rightarrow> (int \<Rightarrow> goerr option) \<Rightarrow>
    time list \<times> goerr option" where
  "retry p0 op start nxt rnd ended =
     (let p = retryDefaults p0; mayRetry = opIdempotent op \<or> opIdempotencyKey op \<noteq> [] in
      retryFrom p mayRetry (if opTimeout op > 0 then Some (start + opTimeout op) else None) nxt
        (\<lambda>n. retryDelay p n (rnd n)) ended 1 (opTimeout op))"

text \<open>The chain of interceptors, the first outermost, with the loop of the source; \<open>wrap\<close> is the retry around it.\<close>

fun chainLoop :: "(('c \<Rightarrow> 'r) \<Rightarrow> 'c \<Rightarrow> 'r) list \<Rightarrow> nat \<Rightarrow> ('c \<Rightarrow> 'r) \<Rightarrow> 'c \<Rightarrow> 'r" where
  "chainLoop is 0 nxt = nxt"
| "chainLoop is (Suc i) nxt = chainLoop is i ((is ! i) nxt)"

definition runChain :: "(('c \<Rightarrow> 'r) \<Rightarrow> 'c \<Rightarrow> 'r) list \<Rightarrow> (('c \<Rightarrow> 'r) \<Rightarrow> 'c \<Rightarrow> 'r) \<Rightarrow> bool \<Rightarrow> string \<Rightarrow> ('c \<Rightarrow> 'r) \<Rightarrow> 'c \<Rightarrow> 'r" where
  "runChain is wrap disabled stream innermost =
     (let nxt = chainLoop is (length is) innermost in
      if stream = ''unary'' \<and> \<not> disabled then wrap nxt else nxt)"

end
