(* ===== verification/Call_Props.thy ===== *)
theory Call_Props
  imports Call_Flow Client
begin

text \<open>
  What a caller and a handler may rely on: a call opened by the Go client and accepted by the Go server
  obeys the stream protocol in both directions until it ends, whatever the order of events.
\<close>

section \<open>A call that has just been opened\<close>

text \<open>The client has opened the call and the server has read its \<^verbatim>\<open>call.open\<close> and accepted it.\<close>

definition openLink :: "addr \<Rightarrow> addr \<Rightarrow> string \<Rightarrow> callInfo \<Rightarrow> time \<Rightarrow> string \<Rightarrow> clientState \<Rightarrow> goServer \<Rightarrow> (link \<times> addr \<times> addr) option" where
  "openLink k p cid info timeout payload s v =
     (case (openClient k cid info timeout payload s, openCheck p (openFrame cid info timeout payload) v) of
        ((s1, Inr a), Inr m) \<Rightarrow>
          Some (\<lparr>lkClient = s1, lkServer = openStart p (openFrame cid info timeout payload) m v,
                 lkUp = Suc (length (cnWritten (csConnObj s k))), lkDown = length (cnWritten (seConn (svSession v p))),
                 lkStarted = False, lkStream = \<lparr>stDone = False, stTrailers = None\<rparr>, lkGot = []\<rparr>, a, svNext v)
      | _ \<Rightarrow> None)"

text \<open>The method has the shape the caller opens it with, and its types are those of the shape.\<close>

definition sameShape :: "callInfo \<Rightarrow> serverMethod \<Rightarrow> bool" where
  "sameShape info m \<longleftrightarrow> smStream m = inStream info \<and> smInput m = inputShape (smStream m) \<and> smOutput m = outputShape (smStream m)"

lemma openFrame_simps [simp]: "gCallID (openFrame cid info timeout payload) = cid" "gKind (openFrame cid info timeout payload) = ''call.open''"
  by (simp_all add: openFrame_def Let_def zeroRFrame_def)

lemma openClient_Inr:
  assumes "openClient k cid info timeout payload s = (s', Inr a)"
  obtains fs w where "a = csNext s" "cnOpen (csConnObj s k)"
    "csCall s' a = (newClientCall k cid info timeout)\<lparr>ccOutputAllowance := (if outputShape (inStream info) then initialStreamCredit else 0), ccIdleTimer := w\<rparr>"
    "csCalls s' = AList.update cid a (csCalls s)"
    "csConnObj s' k = (csConnObj s k)\<lparr>cnWritten := cnWritten (csConnObj s k) @ openFrame cid info timeout payload # fs\<rparr>"
    "fs = [] \<or> fs = [windowFor cid ''server'' initialStreamCredit] \<and> outputShape (inStream info)"
proof -
  let ?a = "csNext s" and ?f = "openFrame cid info timeout payload" and ?c = "newClientCall k cid info timeout"
  let ?s1 = "s\<lparr>csCall := (csCall s)(?a := ?c), csNext := Suc ?a, csCalls := AList.update cid ?a (csCalls s)\<rparr>"
  show thesis
  proof (cases rule: sendConn_cases [of k ?f ?s1])
    case (refused err)
    then show thesis using assms by (simp add: openClient_def Let_def)
  next
    case written
    let ?s2 = "?s1\<lparr>csConnObj := (csConnObj ?s1)(k := (csConnObj ?s1 k)\<lparr>cnWritten := cnWritten (csConnObj ?s1 k) @ [?f]\<rparr>)\<rparr>"
    let ?s3 = "updCall ?a (\<lambda>c. c\<lparr>ccOutputAllowance := initialStreamCredit\<rparr>) ?s2" and ?w = "windowFor cid ''server'' initialStreamCredit"
    show thesis
    proof (cases "outputShape (inStream info)")
      case False
      then have "s' = ?s2" "a = ?a" using assms written(3) by (auto simp: openClient_def Let_def outputShape_def)
      then show thesis using False written(1)
        by (intro that [where fs = "[]" and w = False]) (simp_all add: newClientCall_def)
    next
      case True
      then have s': "s' = armIdle ?a (fst (sendConn k ?w ?s3))" and a: "a = ?a" using assms written(3)
        by (auto simp: openClient_def Let_def outputShape_def)
      show thesis
      proof (cases rule: sendConn_cases [of k ?w ?s3])
        case (refused err)
        then show thesis using True a written(1) unfolding s'
          by (intro that [where fs = "[]" and w = "ccIdleTimer (csCall s' a)"]) (simp_all add: s' armIdle_def newClientCall_def)
      next
        case win: written
        then show thesis using True a written(1) unfolding s'
          by (intro that [where fs = "[?w]" and w = "ccIdleTimer (csCall s' a)"]) (simp_all add: s' armIdle_def newClientCall_def)
      qed
    qed
  qed
qed

lemma openLink_ok:
  assumes "openLink k p cid info timeout payload s v = Some (L, a, b)" "openCheck p (openFrame cid info timeout payload) v = Inr m" "sameShape info m"
  shows "linkShape a b L" "flowOk (outFlow a b L)" "flowOk (inFlow a b L)" "pendingDown b L = []" "lkGot L = []" "\<not> stDone (lkStream L)"
    "ccQueue (csCall (lkClient L) a) = []" "\<not> scTerminal (svCall (lkServer L) b)"
proof -
  let ?f = "openFrame cid info timeout payload"
  obtain s' where o: "openClient k cid info timeout payload s = (s', Inr a)"
    and L: "L = \<lparr>lkClient = s', lkServer = openStart p ?f m v, lkUp = Suc (length (cnWritten (csConnObj s k))),
      lkDown = length (cnWritten (seConn (svSession v p))), lkStarted = False, lkStream = \<lparr>stDone = False, stTrailers = None\<rparr>, lkGot = []\<rparr>"
    and b: "b = svNext v"
    using assms(1,2) by (auto simp: openLink_def split: prod.splits sum.splits)
  from openClient_Inr [OF o] obtain fs w where c: "a = csNext s" "cnOpen (csConnObj s k)"
    "csCall s' a = (newClientCall k cid info timeout)\<lparr>ccOutputAllowance := (if outputShape (inStream info) then initialStreamCredit else 0), ccIdleTimer := w\<rparr>"
    "csCalls s' = AList.update cid a (csCalls s)"
    "csConnObj s' k = (csConnObj s k)\<lparr>cnWritten := cnWritten (csConnObj s k) @ ?f # fs\<rparr>"
    "fs = [] \<or> fs = [windowFor cid ''server'' initialStreamCredit] \<and> outputShape (inStream info)" by blast
  have kc: "clientConn a s' = csConnObj s' k" using c(3) by (simp add: clientConn_def newClientCall_def)
  have ks: "serverConn b (openStart p ?f m v) = seConn (svSession v p)" by (simp add: serverConn_def openStart_def Let_def b newServerCall_def)
  have cs: "svCall (openStart p ?f m v) b = newServerCall p ?f m" by (simp add: openStart_def Let_def b)
  have pu: "pendingUp a L = fs" by (simp add: pendingUp_def L kc c(5))
  show pd: "pendingDown b L = []" by (simp add: pendingDown_def L ks)
  show "lkGot L = []" "\<not> stDone (lkStream L)" "ccQueue (csCall (lkClient L) a) = []" "\<not> scTerminal (svCall (lkServer L) b)"
    by (simp_all add: L c(3) newClientCall_def cs newServerCall_def)
  have g: "list_all (goodUp cid (inStream info)) fs" using c(6) by (auto simp: goodUp_def windowFor_def zeroRFrame_def initialStreamCredit_def)
  have sess: "map_of (seCalls (svSession (openStart p ?f m v) p)) cid = Some b" by (simp add: openStart_def Let_def b)
  have sh: "smStream m = inStream info" "smInput m = inputShape (inStream info)" "smOutput m = outputShape (inStream info)"
    using assms(3) by (auto simp: sameShape_def)
  show "linkShape a b L"
    unfolding linkShape_def Let_def pu pd using g
    by (simp add: L c(3,4) kc ks cs sess sh c(5), simp add: newClientCall_def newServerCall_def closedOk_def quiet_def inputShape_def sess sh newCreditWindow_def)
  have gr: "grantsOf fs = [] \<or> grantsOf fs = [initialStreamCredit] \<and> outputShape (inStream info)" "dataOf fs = []"
    using c(6) by (auto simp: windowFor_def zeroRFrame_def)
  show "flowOk (outFlow a b L)" unfolding flowOk_def outFlow_def Let_def pu pd dataOk_def using gr
    by (auto simp: L c(3) cs newClientCall_def newServerCall_def newCreditWindow_def itemFrames_def initialStreamCredit_def)
  show "flowOk (inFlow a b L)" unfolding flowOk_def inFlow_def Let_def pu pd dataOk_def using gr
    by (auto simp: L c(3) cs newClientCall_def newServerCall_def newCreditWindow_def initialStreamCredit_def)
qed

text \<open>A frame read by an end that listens is accepted.\<close>

lemma deliver_accepts:
  assumes "linkShape a b L" "flowOk (outFlow a b L)" "clientListens a L" "pendingDown b L = f # rest"
  shows "ccFailure (csCall (deliver a f (lkClient L)) a) = None"
proof -
  let ?c = "csCall (lkClient L) a"
  have nf: "ccFailure ?c = None" using shape_closedOk [OF assms(1)] assms(3) by (auto simp: closedOk_def clientListens_def)
  note d = linkShape_down(3) [OF assms(1,4)]
  consider (item) "gKind f = ''stream.item''" | (window) "gKind f = ''stream.window''" | (other) "gKind f \<noteq> ''stream.item''" "gKind f \<noteq> ''stream.window''" by blast
  then show ?thesis
  proof cases
    case item
    then obtain n where n: "gSequence f = Some n" "gDirection f = ''server''" using d by (auto simp: goodDown_def)
    have "flData (outFlow a b L) = Some n # dataOf rest" using item n assms(4) by (simp add: outFlow_def Let_def)
    from flowOk_item [OF assms(2) this] have "itemExpected f ?c" using n by (simp add: itemExpected_def outFlow_def Let_def)
    then show ?thesis using item nf by (simp add: deliver_def Let_def enqueue_def armIdle_def)
  next
    case window
    then obtain n where n: "gCredit f = Some n" "0 < n" "gDirection f = ''client''" "inputShape (ccStream ?c)" using d by (auto simp: goodDown_def)
    have "(ccInputCredit ?c \<noteq> None) = inputShape (ccStream ?c)" using assms(1) unfolding linkShape_def Let_def by blast
    then obtain w where "ccInputCredit ?c = Some w" using n(4) by blast
    then show ?thesis using window n nf by (simp add: deliver_def Let_def)
  next
    case other
    then show ?thesis using nf by (simp add: deliver_def enqueue_def Let_def)
  qed
qed

lemma receive_accepts:
  assumes "linkShape a b L" "flowOk (inFlow a b L)" "serverListens b L" "pendingUp a L = f # rest" "gKind f \<noteq> ''call.cancel''"
  shows "\<not> scTerminal (svCall (receiveFrame b f (lkServer L)) b)"
proof -
  let ?c = "svCall (lkServer L) b" and ?sh = "ccStream (csCall (lkClient L) a)"
  have nt: "\<not> scTerminal ?c" using assms(3) by (simp add: serverListens_def)
  note u = linkShape_up(3) [OF assms(1,4)]
  have m: "smInput (scMethod ?c) = inputShape ?sh" "smOutput (scMethod ?c) = outputShape ?sh" using assms(1) unfolding linkShape_def Let_def by blast+
  consider (item) "gKind f = ''stream.item''" | (fin) "gKind f = ''stream.end''" | (window) "gKind f = ''stream.window''"
    using u assms(5) unfolding goodUp_def by blast
  then show ?thesis
  proof cases
    case item
    then obtain n where n: "gSequence f = Some n" "gDirection f = ''client''" "inputShape ?sh" using u by (auto simp: goodUp_def)
    have "flData (inFlow a b L) = Some n # dataOf rest" using item n assms(4) by (simp add: inFlow_def Let_def)
    from flowOk_item [OF assms(2) this] have "inputExpected f ?c" using n m by (simp add: inputExpected_def inFlow_def Let_def)
    then show ?thesis using item nt by (simp add: receiveFrame_def Let_def)
  next
    case fin
    then have n: "gDirection f = ''client''" "inputShape ?sh" using u by (auto simp: goodUp_def)
    have "flData (inFlow a b L) = None # dataOf rest" using fin assms(4) by (simp add: inFlow_def Let_def)
    from flowOk_end [OF assms(2) this] have "\<not> scInputClosed ?c" by (simp add: inFlow_def Let_def)
    then show ?thesis using fin n m nt by (simp add: receiveFrame_def Let_def)
  next
    case window
    then obtain n where "gCredit f = Some n" "0 < n" "gDirection f = ''server''" "outputShape ?sh" using u by (auto simp: goodUp_def)
    then show ?thesis using window m nt by (simp add: receiveFrame_def Let_def)
  qed
qed


section \<open>An example\<close>

text \<open>A server stream: the call is opened, its goroutine starts, the first window arrives and one item is sent.\<close>

definition demoInfo :: callInfo where
  "demoInfo = \<lparr>inService = ''s.v1'', inMethod = ''m'', inStream = ''server_stream'', inOptions = zeroOptions\<rparr>"

definition demoMethod :: serverMethod where
  "demoMethod = \<lparr>smName = ''m'', smStream = ''server_stream'', smResponse = False, smInput = False, smOutput = True\<rparr>"

definition demoClient :: clientState where
  "demoClient = \<lparr>csCursor = 0, csConn = Some 0, csConnecting = False, csEverConnected = True, csClosed = False, csCalls = [], csOnClose = False,
     csCall = (\<lambda>_. newClientCall 0 [] demoInfo 0), csConnObj = (\<lambda>_. newConn 1000 0), csNext = 5\<rparr>"

definition demoGoServer :: goServer where
  "demoGoServer = \<lparr>svInstanceID = ''i'', svMaxInflight = 0, svServices = [(''s.v1'', \<lparr>ssTargeted = False, ssMethods = [(''m'', demoMethod)]\<rparr>)],
     svInflight = 0, svSessions = [0], svSession = (\<lambda>_. \<lparr>seConn = newConn 1000 0, seCalls = [], seDrainAcks = 0, seAcked = 0\<rparr>),
     svCall = (\<lambda>_. newServerCall 0 zeroRFrame demoMethod), svNext = 7\<rparr>"

abbreviation fitsDemo :: "rframe \<Rightarrow> bool" where
  "fitsDemo f \<equiv> (case marshalRFrame f of Some data \<Rightarrow> int (length data) \<le> 1000 | None \<Rightarrow> False)"

abbreviation demoWindow :: rframe where "demoWindow \<equiv> windowFor ''c'' ''server'' 16"
abbreviation demoItem :: rframe where "demoItem \<equiv> (outputItem 0 ''7'')\<lparr>gCallID := ''c''\<rparr>"
abbreviation demoOpenFrame :: rframe where "demoOpenFrame \<equiv> openFrame ''c'' demoInfo 0 ''{}''"

definition demoOpened :: link where
  "demoOpened =
     \<lparr>lkClient = demoClient\<lparr>csCall := (csCall demoClient)(5 := (newClientCall 0 ''c'' demoInfo 0)\<lparr>ccOutputAllowance := 16\<rparr>), csNext := 6,
        csCalls := [(''c'', 5)], csConnObj := (csConnObj demoClient)(0 := (newConn 1000 0)\<lparr>cnWritten := [demoOpenFrame, demoWindow]\<rparr>)\<rparr>,
      lkServer = openStart 0 demoOpenFrame demoMethod demoGoServer,
      lkUp = 1, lkDown = 0, lkStarted = False, lkStream = \<lparr>stDone = False, stTrailers = None\<rparr>, lkGot = []\<rparr>"

lemma demoCall_fits: "fitsDemo demoOpenFrame" "fitsDemo demoWindow" "fitsDemo demoItem"
  by code_simp+

lemma connSend_demo: "fitsDemo f \<Longrightarrow> cnOpen c \<Longrightarrow> cnWritable c \<Longrightarrow> cnMaxFrame c = 1000 \<Longrightarrow> connSend f c = (c\<lparr>cnWritten := cnWritten c @ [f]\<rparr>, None)"
  by (cases "marshalRFrame f") (simp_all add: connSend_def)

lemma demoCall_check: "openCheck 0 demoOpenFrame demoGoServer = Inr demoMethod" "sameShape demoInfo demoMethod"
  by code_simp+

lemma demoCall_simps [simp]:
  "inStream demoInfo = ''server_stream''" "opIdleTimeout (inOptions demoInfo) = 0" "csNext demoClient = 5" "csConnObj demoClient k = newConn 1000 0"
  "csCalls demoClient = []" "cnOpen (newConn n t)" "cnWritable (newConn n t)" "cnMaxFrame (newConn n t) = n" "cnWritten (newConn n t) = []"
  "seConn (svSession demoGoServer p) = newConn 1000 0" "svNext demoGoServer = 7" "svSessions demoGoServer = [0]"
  by (simp_all add: demoInfo_def demoClient_def demoGoServer_def newConn_def zeroOptions_def)

lemma demoCall_open: "openLink 0 0 ''c'' demoInfo 0 ''{}'' demoClient demoGoServer = Some (demoOpened, 5, 7)"
proof -
  have "openClient 0 ''c'' demoInfo 0 ''{}'' demoClient = (lkClient demoOpened, Inr 5)"
    by (simp add: openClient_def Let_def sendConn_def connSend_demo demoCall_fits initialStreamCredit_def demoOpened_def armIdle_def updCall_def newClientCall_def)
  then show ?thesis by (simp add: openLink_def demoCall_check) (simp add: demoOpened_def)
qed

definition demoStarted :: link where
  "demoStarted = demoOpened\<lparr>lkStarted := True, lkServer := runStart 7 (lkServer demoOpened)\<rparr>"

definition demoGranted :: link where
  "demoGranted = demoStarted\<lparr>lkUp := Suc (Suc 0), lkServer := updServed 7 (\<lambda>c. c\<lparr>scCredit := newCreditWindow\<lparr>cwN := 16\<rparr>\<rparr>) (lkServer demoStarted)\<rparr>"

definition demoSent :: link where
  "demoSent = demoGranted\<lparr>lkServer := fst (sendOutput 7 (Inr ''7'') (lkServer demoGranted))\<rparr>"

lemma demoCall_served [simp]: "svCall (lkServer demoOpened) 7 = newServerCall 0 demoOpenFrame demoMethod"
  "runStart 7 (lkServer demoOpened) = lkServer demoOpened" "svSessions (lkServer demoOpened) = [0]"
  "seCalls (svSession (lkServer demoOpened) 0) = [(''c'', 7)]" "seConn (svSession (lkServer demoOpened) 0) = newConn 1000 0"
  "lkUp demoOpened = Suc 0" "lkDown demoOpened = 0" "\<not> lkStarted demoOpened"
  by (simp_all add: demoOpened_def openStart_def Let_def runStart_def newServerCall_def demoMethod_def) (simp_all add: demoGoServer_def)

lemma demoCall_window: "pendingUp 5 demoStarted = [demoWindow]"
  by (simp add: pendingUp_def demoStarted_def clientConn_def) (simp add: demoOpened_def newClientCall_def)

lemma demoCall_handles: "handleFrame 0 demoWindow (lkServer demoOpened) = updServed 7 (\<lambda>c. c\<lparr>scCredit := newCreditWindow\<lparr>cwN := 16\<rparr>\<rparr>) (lkServer demoOpened)"
  by (simp add: handleFrame_def receiveFrame_def Let_def windowFor_def zeroRFrame_def)
    (simp add: newServerCall_def demoMethod_def updServed_def grantCredit_def newCreditWindow_def wrap64_def)

lemma demoCall_run: "(linkStep 5 7)\<^sup>*\<^sup>* demoOpened demoSent"
proof -
  have 1: "linkStep 5 7 demoOpened demoStarted" unfolding demoStarted_def by (rule linkStep.start) simp
  have 2: "linkStep 5 7 demoStarted demoGranted"
    using linkStep.toServer [OF _ demoCall_window, of 7] by (simp add: demoGranted_def demoStarted_def newServerCall_def demoCall_handles)
  have "cnMaxFrame (serverConn 7 (lkServer demoGranted)) = 1000"
    by (simp add: serverConn_def demoGranted_def demoStarted_def, simp add: newServerCall_def)
  moreover have "(outputItem (scOutputSequence (svCall (lkServer demoGranted) 7)) ''7'')\<lparr>gCallID := gCallID (scOpen (svCall (lkServer demoGranted) 7))\<rparr> = demoItem"
    by (simp add: demoGranted_def demoStarted_def newServerCall_def)
  ultimately have fit: "itemFits 7 ''7'' (lkServer demoGranted)" using demoCall_fits(3) by (simp only: itemFits_def)
  have sh: "lkStarted demoGranted" "outputShape (smStream (scMethod (svCall (lkServer demoGranted) 7)))"
    by (simp_all add: demoGranted_def demoStarted_def outputShape_def newServerCall_def demoMethod_def)
  have 3: "linkStep 5 7 demoGranted demoSent" unfolding demoSent_def by (rule linkStep.send [OF sh fit])
  show ?thesis by (rule converse_rtranclp_into_rtranclp [OF 1 converse_rtranclp_into_rtranclp [OF 2 r_into_rtranclp [of "linkStep 5 7", OF 3]]])
qed

lemma demoCall_listens: "clientListens 5 demoSent"
  by (simp add: clientListens_def demoSent_def demoGranted_def demoStarted_def) (simp add: demoOpened_def newClientCall_def)

lemma demoCall_item: "pendingDown 7 demoSent = [demoItem]"
proof -
  let ?v = "lkServer demoGranted"
  have c: "svCall ?v 7 = (newServerCall 0 demoOpenFrame demoMethod)\<lparr>scCredit := newCreditWindow\<lparr>cwN := 16\<rparr>\<rparr>" "seConn (svSession ?v 0) = newConn 1000 0"
    by (simp_all add: demoGranted_def demoStarted_def)
  have "serverConn 7 (fst (sendOutput 7 (Inr ''7'') ?v)) = (newConn 1000 0)\<lparr>cnWritten := [demoItem]\<rparr>"
    by (simp add: sendOutput_def acquire_def writeOutput_def callSend_def sessionSend_def Let_def c newServerCall_def newCreditWindow_def
        connSend_demo demoCall_fits frameTooLarge_def serverConn_def)
  then show ?thesis by (simp add: pendingDown_def demoSent_def) (simp add: demoGranted_def demoStarted_def)
qed


end
