(* ===== verification/Call_Order.thy ===== *)
theory Call_Order
  imports Call_Props
begin

text \<open>
  The items of an output stream reach the caller in the order the handler sent them, and all of them have
  been received when the caller reads the end of the stream.
\<close>

section \<open>The invariant\<close>

definition pays :: "rframe list \<Rightarrow> string option list" where
  "pays fs = map gPayload (itemFrames fs)"

text \<open>No item follows a terminal frame.\<close>

fun noItemsAfter :: "rframe list \<Rightarrow> bool" where
  "noItemsAfter [] = True"
| "noItemsAfter (f # fs) = ((terminalKind f \<longrightarrow> itemFrames fs = []) \<and> noItemsAfter fs)"

text \<open>A call is in the client's table exactly while it is not terminal.\<close>

definition tableOk :: "addr \<Rightarrow> clientState \<Rightarrow> bool" where
  "tableOk a s \<longleftrightarrow> map_of (csCalls s) (ccId (csCall s a)) = (if ccTerminal (csCall s a) then None else Some a)"

definition sentSince :: "nat \<Rightarrow> addr \<Rightarrow> goServer \<Rightarrow> rframe list" where
  "sentSince n b v = drop n (cnWritten (serverConn b v))"

definition orderly :: "nat \<Rightarrow> addr \<Rightarrow> addr \<Rightarrow> link \<Rightarrow> bool" where
  "orderly n a b L \<longleftrightarrow>
     (let c = csCall (lkClient L) a; q = ccQueue c; W = sentSince n b (lkServer L) in
      n \<le> lkDown L \<and> noItemsAfter W \<and> ((\<exists>f \<in> set W. terminalKind f) \<longrightarrow> scTerminal (svCall (lkServer L) b)) \<and>
      set q \<subseteq> set W \<and> noItemsAfter q \<and> (\<not> ccTerminal c \<longrightarrow> (\<forall>f \<in> set q. \<not> terminalKind f)) \<and>
      (\<exists>rest. pays W = lkGot L @ rest) \<and>
      (\<not> stDone (lkStream L) \<longrightarrow> (\<exists>rest. pays W = lkGot L @ pays q @ rest \<and> (\<not> ccTerminal c \<longrightarrow> rest = pays (pendingDown b L)) \<and>
         ((\<exists>f \<in> set q. terminalKind f) \<longrightarrow> rest = []))))"

lemma pays_simps [simp]: "pays [] = []" "pays (fs @ gs) = pays fs @ pays gs"
  "pays (f # fs) = (if gKind f = ''stream.item'' then gPayload f # pays fs else pays fs)"
  by (simp_all add: pays_def itemFrames_def)

lemma itemFrames_append [simp]: "itemFrames (fs @ gs) = itemFrames fs @ itemFrames gs"
  by (simp add: itemFrames_def)

lemma pays_none: "itemFrames fs = [] \<Longrightarrow> pays fs = []"
  by (simp add: pays_def)

lemma noItemsAfter_append:
  "noItemsAfter (fs @ gs) \<longleftrightarrow> noItemsAfter fs \<and> noItemsAfter gs \<and> ((\<exists>f \<in> set fs. terminalKind f) \<longrightarrow> itemFrames gs = [])"
  by (induction fs) auto

lemma noItems_after: "itemFrames fs = [] \<Longrightarrow> noItemsAfter fs"
  by (induction fs) (auto simp: itemFrames_def split: if_splits)

lemma noTerminals_after: "\<forall>f \<in> set fs. \<not> terminalKind f \<Longrightarrow> noItemsAfter fs"
  by (induction fs) auto

section \<open>The server\<close>

text \<open>An operation of the server writes items only before it has ended the call.\<close>

definition serverWrites :: "addr \<Rightarrow> goServer \<Rightarrow> goServer \<Rightarrow> bool" where
  "serverWrites b v v' \<longleftrightarrow> (\<exists>fs. serverStep b v v' fs \<and>
     (itemFrames fs \<noteq> [] \<longrightarrow> \<not> scTerminal (svCall v b) \<and> (\<forall>f \<in> set fs. \<not> terminalKind f)) \<and>
     ((\<exists>f \<in> set fs. terminalKind f) \<longrightarrow> scTerminal (svCall v' b)))"

lemma itemFrames_kinds: "gKind ` set fs \<subseteq> K \<Longrightarrow> ''stream.item'' \<notin> K \<Longrightarrow> itemFrames fs = []"
  by (auto simp: itemFrames_def filter_empty_conv)

lemma writes_plain:
  assumes "serverDoes K b v v'" "''stream.item'' \<notin> K" "K \<inter> terminals = {} \<or> scTerminal (svCall v' b)"
  shows "serverWrites b v v'"
proof -
  obtain fs where fs: "serverStep b v v' fs" "gKind ` set fs \<subseteq> K" using assms(1) unfolding serverDoes_def by blast
  have "scTerminal (svCall v' b)" if "f \<in> set fs" "terminalKind f" for f
    using fs(2) assms(3) that by (auto simp: terminals_def terminalKind_def)
  then show ?thesis using fs itemFrames_kinds [OF fs(2) assms(2)] unfolding serverWrites_def by blast
qed

lemma writes_item:
  assumes "outputShape (smStream (scMethod (svCall v b)))"
  shows "serverWrites b v (fst (sendOutput b (Inr payload) v))"
proof (cases "scTerminal (svCall v b)")
  case True
  have "\<exists>w. fst (sendOutput b (Inr payload) v) = v \<or> fst (sendOutput b (Inr payload) v) = updServed b (\<lambda>c. c\<lparr>scCredit := w\<rparr>) v"
    using True by (auto simp: sendOutput_def writeOutput_def Let_def split: wait.split option.split prod.split)
  then have "serverDoes {} b v (fst (sendOutput b (Inr payload) v))" using serverDoes_upd [of _ "{}" b v] by fastforce
  then show ?thesis by (rule writes_plain) simp_all
next
  case False
  obtain fs where "serverStep b v (fst (sendOutput b (Inr payload) v)) fs" "gKind ` set fs \<subseteq> {''stream.item''}"
    using serverDoes_sendOutput [OF assms, of "{''stream.item''}" payload] unfolding serverDoes_def by blast
  then show ?thesis using False unfolding serverWrites_def by (intro exI [of _ fs]) (auto simp: terminalKind_def)
qed

lemma writes_receive: "serverWrites b v (receiveFrame b f v)"
proof (cases "scTerminal (svCall (receiveFrame b f v) b)")
  case True
  then show ?thesis by (intro writes_plain [OF serverDoes_receive [OF terminals_plain(1)]]) (simp_all add: terminals_plain)
next
  case False
  have 1: "serverDoes {} b v (updServed b (\<lambda>c. c\<lparr>scCredit := grantCredit n (scCredit c)\<rparr>) v)" for n by (rule serverDoes_upd) simp_all
  have 2: "serverDoes {} b v (updServed b (\<lambda>c. pushInput (Some d) None (armInput
      (c\<lparr>scInputAllowance := scInputAllowance c - 1, scInputSequence := wrap64 (scInputSequence c + 1)\<rparr>))) v)" for d
    by (rule serverDoes_upd) simp_all
  have "serverDoes {} b v (updServed b (\<lambda>c. c\<lparr>scInputClosed := True, scIdle := False\<rparr>) v)" by (rule serverDoes_upd) simp_all
  then have 3: "serverDoes {} b v (updServed b (pushInput None None) (updServed b (\<lambda>c. c\<lparr>scInputClosed := True, scIdle := False\<rparr>) v))"
    by (rule serverDoes_trans [OF _ serverDoes_upd]) simp_all
  have "serverDoes {} b v (receiveFrame b f v)"
    using False unfolding receiveFrame_def Let_def protocolError_def by (simp add: 1 2 3 split: if_splits option.splits)
  then show ?thesis by (rule writes_plain) simp_all
qed

lemma writes_step: "linkStep a b L L' \<Longrightarrow> linkShape a b L \<Longrightarrow> serverWrites b (lkServer L) (lkServer L')"
proof (induction rule: linkStep.induct)
  case (toServer L f rest)
  note u = linkShape_up [OF toServer(3,2)]
  have "map_of (seCalls (svSession (lkServer L) (scSess (svCall (lkServer L) b)))) (ccId (csCall (lkClient L) a)) \<in> {None, Some b}"
    using toServer(3) unfolding linkShape_def Let_def by blast
  then show ?case using writes_receive writes_plain [OF serverDoes_refl, of "{}"] by (simp add: handle_cases [OF u(3)])
next
  case (start L)
  show ?case by (rule writes_plain [of "{''stream.window''}"]) (simp_all add: serverDoes_runStart, simp add: terminals_def)
next
  case (closeSend L)
  show ?case by (rule writes_plain [of "{''stream.end''}"]) (use closeSend in \<open>simp_all add: serverDoes_closeOutput\<close>, simp add: terminals_def)
next
  case (readInput L)
  show ?case by (rule writes_plain [of "{''stream.window''}"]) (use readInput in \<open>simp_all add: serverDoes_nextInput\<close>, simp add: terminals_def)
next
  case (return L h encoded)
  show ?case by (rule writes_plain [of "insert ''stream.end'' terminals"]) (simp_all add: serverDoes_runEnd runEnd_silences terminals_plain subset_insertI)
next
  case (serverDeadline L err)
  have "serverDoes {} b (lkServer L) (updServed b (cancelCtx err) (lkServer L))" by (rule serverDoes_upd) simp_all
  then show ?case by (simp add: writes_plain)
next
  case (serverIdle L)
  show ?case by (rule writes_plain [of terminals]) (simp_all add: serverDoes_idle terminals_plain, simp add: idleExpired_def Let_def)
qed (simp_all add: writes_item writes_plain [OF serverDoes_refl, of "{}"] writes_plain [OF serverDoes_sendInvalid, of "{}"] writes_plain [OF serverDoes_cut, of "{}"]
    writes_plain [OF serverDoes_gone, of "{}"])

lemma orderly_server:
  assumes "orderly n a b L" "linkShape a b L" "serverWrites b (lkServer L) v'"
  shows "orderly n a b (L\<lparr>lkServer := v'\<rparr>)"
proof -
  let ?W = "sentSince n b (lkServer L)" and ?L = "L\<lparr>lkServer := v'\<rparr>" and ?q = "ccQueue (csCall (lkClient L) a)"
  note o = assms(1) [unfolded orderly_def Let_def]
  have l: "lkDown L \<le> length (cnWritten (serverConn b (lkServer L)))" using assms(2) unfolding linkShape_def Let_def by blast
  obtain fs where fs: "serverStep b (lkServer L) v' fs" "itemFrames fs \<noteq> [] \<Longrightarrow> \<not> scTerminal (svCall (lkServer L) b) \<and> (\<forall>f \<in> set fs. \<not> terminalKind f)"
    "(\<exists>f \<in> set fs. terminalKind f) \<Longrightarrow> scTerminal (svCall v' b)" using assms(3) unfolding serverWrites_def by blast
  have W: "sentSince n b v' = ?W @ fs" using fs(1) o l by (simp add: sentSince_def serverStep_def)
  have p: "pendingDown b ?L = pendingDown b L @ fs" by (rule pendingDown_server [OF fs(1) l])
  have t: "scTerminal (svCall (lkServer L) b) \<Longrightarrow> scTerminal (svCall v' b)" using fs(1) by (simp add: serverStep_def)
  have quiet: "itemFrames fs = []" if "\<exists>f \<in> set ?W. terminalKind f" using o fs(2) that by blast
  have n: "noItemsAfter fs" using fs(2) noItems_after noTerminals_after by blast
  have nw: "noItemsAfter (?W @ fs)" using o n quiet by (simp add: noItemsAfter_append)
  have tw: "(\<exists>f \<in> set (?W @ fs). terminalKind f) \<longrightarrow> scTerminal (svCall v' b)" using o t fs(3) by auto
  have got: "\<exists>rest. pays (?W @ fs) = lkGot L @ rest" using o by auto
  have q: "\<exists>rest. pays (?W @ fs) = lkGot L @ pays ?q @ rest \<and> (\<not> ccTerminal (csCall (lkClient L) a) \<longrightarrow> rest = pays (pendingDown b L @ fs)) \<and>
      ((\<exists>f \<in> set ?q. terminalKind f) \<longrightarrow> rest = [])" if nd: "\<not> stDone (lkStream L)"
  proof -
    obtain rest where r: "pays ?W = lkGot L @ pays ?q @ rest" "\<not> ccTerminal (csCall (lkClient L) a) \<longrightarrow> rest = pays (pendingDown b L)"
      "(\<exists>f \<in> set ?q. terminalKind f) \<longrightarrow> rest = []" using o nd by blast
    have "pays fs = []" if "\<exists>f \<in> set ?q. terminalKind f" using that o quiet pays_none by blast
    then show ?thesis using r by (intro exI [of _ "rest @ pays fs"]) auto
  qed
  have sub: "set ?q \<subseteq> set (?W @ fs)" using o by auto
  show ?thesis unfolding orderly_def Let_def using o W p nw tw got q sub by simp
qed

section \<open>The client\<close>

lemma orderly_client:
  assumes "orderly n a b L" "ccQueue (csCall s' a) = ccQueue (csCall (lkClient L) a)" "ccTerminal (csCall (lkClient L) a) \<longrightarrow> ccTerminal (csCall s' a)"
  shows "orderly n a b (L\<lparr>lkClient := s'\<rparr>)"
proof -
  have p: "pendingDown b (L\<lparr>lkClient := s'\<rparr>) = pendingDown b L" by (simp add: pendingDown_def)
  show ?thesis using assms unfolding orderly_def Let_def p by auto
qed

lemma orderly_cong:
  "orderly n a b L \<Longrightarrow> lkClient L' = lkClient L \<Longrightarrow> lkServer L' = lkServer L \<Longrightarrow> lkDown L' = lkDown L \<Longrightarrow> lkStream L' = lkStream L \<Longrightarrow> lkGot L' = lkGot L \<Longrightarrow>
   orderly n a b L'"
  by (simp add: orderly_def pendingDown_def)

lemma tableOk_upd: "ccId (g (csCall s a)) = ccId (csCall s a) \<Longrightarrow> ccTerminal (g (csCall s a)) = ccTerminal (csCall s a) \<Longrightarrow> tableOk a (updCall a g s) = tableOk a s"
  by (simp add: tableOk_def)

lemma tableOk_fail: "tableOk a s \<Longrightarrow> tableOk a (failCall a err s)"
  by (auto simp: tableOk_def failCall_def doneCall_def Let_def map_of_delete)

lemma sendConn_table [simp]: "csCalls (fst (sendConn k f s)) = csCalls s"
  by (rule sendConn_cases [of k f s]) simp_all

lemma tableOk_send [simp]: "tableOk a (fst (sendConn k f s)) = tableOk a s"
  by (simp add: tableOk_def)

lemma tableOk_abort: "tableOk a s \<Longrightarrow> tableOk a (abortCall a err reason s)"
  by (simp add: abortCall_def Let_def tableOk_fail)

lemma tableOk_consumed: "tableOk a s \<Longrightarrow> tableOk a (consumed a s)"
  by (simp add: consumed_def Let_def tableOk_upd)

lemma tableOk_next: "tableOk a s \<Longrightarrow> tableOk a (fst (nextFrame a s))"
  by (simp add: nextFrame_def Let_def tableOk_upd split: list.split option.split)

lemma tableOk_write: "tableOk a s \<Longrightarrow> tableOk a (fst (writeInput a seq payload s))"
proof -
  assume t: "tableOk a s"
  obtain x err where x: "sendConn (ccConn (csCall s a)) (clientItem (ccId (csCall s a)) seq payload) s = (x, err)" by fastforce
  then have "tableOk a x" using t tableOk_send [of a "ccConn (csCall s a)" "clientItem (ccId (csCall s a)) seq payload" s] by simp
  then show ?thesis using x by (simp add: writeInput_def Let_def tableOk_abort split: option.split)
qed

lemma tableOk_sendInput: "tableOk a s \<Longrightarrow> tableOk a (fst (sendInput dn a payload s))"
proof -
  assume t: "tableOk a s"
  obtain x r where x: "reserveInput dn a s = (x, r)" by fastforce
  have "tableOk a (fst (reserveInput dn a s))"
    using t by (auto simp: reserveInput_def Let_def tableOk_upd split: option.split prod.split wait.split)
  then have "tableOk a x" using x by simp
  then show ?thesis using x tableOk_write [of a x] by (auto simp: sendInput_def case_prod_unfold split: wait.split sum.split)
qed

lemma tableOk_closeInput: "tableOk a s \<Longrightarrow> tableOk a (fst (closeInput a s))"
  by (simp add: closeInput_def Let_def tableOk_upd)

lemma tableOk_arm: "tableOk a (armIdle a s) = tableOk a s" "tableOk a (enqueue a f s) = tableOk a s"
  unfolding armIdle_def enqueue_def by (rule tableOk_upd; simp)+

lemma tableOk_last: "tableOk a s \<Longrightarrow> tableOk a (doneCall a (updCall a (\<lambda>c. c\<lparr>ccTerminal := True, ccTrailers := m\<rparr>) s))"
  by (simp add: tableOk_def)

lemma tableOk_deliver: "tableOk a s \<Longrightarrow> tableOk a (deliver a f s)"
  unfolding deliver_def Let_def by (simp add: tableOk_arm tableOk_last tableOk_fail tableOk_upd split: option.split)

lemma goodDown_kinds: "goodDown cid sh f \<Longrightarrow> gKind f = ''stream.item'' \<or> gKind f = ''stream.window'' \<or> gKind f = ''stream.end'' \<or> terminalKind f"
  by (auto simp: goodDown_def terminalKind_def)

lemma deliver_queue:
  assumes "goodDown cid sh f" "\<not> ccTerminal (csCall s a)" "closedOk (csCall s a)"
  obtains (kept) "ccQueue (csCall (deliver a f s) a) = ccQueue (csCall s a)" "ccTerminal (csCall (deliver a f s) a) \<or> gKind f \<noteq> ''stream.item''" "\<not> terminalKind f"
  | (added) "ccQueue (csCall (deliver a f s) a) = ccQueue (csCall s a) @ [f]" "ccTerminal (csCall (deliver a f s) a) = terminalKind f"
proof -
  have t: "ccTerminal (csCall (failCall a err s) a)" "ccQueue (csCall (failCall a err s) a) = ccQueue (csCall s a)" for err
    using failing_listens [OF assms(3,2)] by simp_all
  consider (item) "gKind f = ''stream.item''" | (window) "gKind f = ''stream.window''" | (ends) "gKind f = ''stream.end''" | (last) "terminalKind f"
    using goodDown_kinds [OF assms(1)] by metis
  then show thesis
  proof cases
    case item
    show thesis
    proof (cases "itemExpected f (csCall s a)")
      case True
      have "deliver a f s = enqueue a f (armIdle a (updCall a (\<lambda>c. c\<lparr>ccOutputAllowance := ccOutputAllowance c - 1,
          ccExpectedSeq := wrap64 (ccExpectedSeq c + 1)\<rparr>) s))" using item True by (simp add: deliver_def)
      moreover have "\<not> terminalKind f" using item by (simp add: terminalKind_def)
      ultimately show thesis using assms(2) by (intro added) (simp_all add: enqueue_def armIdle_def)
    next
      case False
      then have "deliver a f s = failCall a (MeshErr (newError CodeProtocolError ''Invalid output stream item, sequence, or credit'')) s"
        using item by (simp add: deliver_def)
      moreover have "\<not> terminalKind f" using item by (simp add: terminalKind_def)
      ultimately show thesis using t by (intro kept) (simp_all only: simp_thms)
    qed
  next
    case window
    have "ccQueue (csCall (deliver a f s) a) = ccQueue (csCall s a)" using window t(2) by (simp add: deliver_def Let_def split: option.split)
    then show thesis using window by (intro kept) (simp_all add: terminalKind_def)
  next
    case ends
    then show thesis by (intro kept) (simp_all add: deliver_def terminalKind_def)
  next
    case last
    then have "deliver a f s = enqueue a f (doneCall a (updCall a (\<lambda>c. c\<lparr>ccTerminal := True, ccTrailers := gMetadata f\<rparr>) s))"
      unfolding terminalKind_def by (elim disjE) (simp_all add: deliver_def)
    then show thesis using last by (intro added) (simp_all add: enqueue_def)
  qed
qed

lemma orderly_toClient:
  assumes "orderly n a b L" "linkShape a b L" "tableOk a (lkClient L)" "pendingDown b L = f # rest"
  shows "orderly n a b (L\<lparr>lkDown := Suc (lkDown L), lkClient := clientReads f (lkClient L)\<rparr>)"
proof -
  let ?s = "lkClient L" and ?W = "sentSince n b (lkServer L)" and ?L1 = "L\<lparr>lkDown := Suc (lkDown L)\<rparr>"
  note d = linkShape_down [OF assms(2,4)] and o = assms(1) [unfolded orderly_def Let_def]
  have sh: "map_of (csCalls ?s) (ccId (csCall ?s a)) = Some a \<longleftrightarrow> \<not> ccTerminal (csCall ?s a)" using assms(3) by (simp add: tableOk_def)
  have cr: "clientReads f ?s = (if ccTerminal (csCall ?s a) then ?s else deliver a f ?s)" using clientReads_shape [OF assms(2) d(3)] sh by simp
  show ?thesis
  proof (cases "ccTerminal (csCall ?s a)")
    case True
    then show ?thesis using o unfolding orderly_def Let_def cr by simp
  next
    case False
    let ?s' = "deliver a f ?s" and ?q = "ccQueue (csCall ?s a)" and ?L' = "L\<lparr>lkDown := Suc (lkDown L), lkClient := deliver a f ?s\<rparr>"
    have p: "pendingDown b ?L' = rest" using d(2) by (simp add: pendingDown_def)
    have nq: "\<forall>f \<in> set ?q. \<not> terminalKind f" using o False by blast
    have suf: "?W = take (lkDown L - n) ?W @ f # rest"
    proof -
      have "drop (lkDown L - n) ?W = f # rest" using assms(4) o by (simp add: sentSince_def pendingDown_def)
      then show ?thesis by (metis append_take_drop_id)
    qed
    have fin: "f \<in> set ?W" by (subst suf) simp
    have after: "itemFrames rest = []" if "terminalKind f"
      using o that suf noItemsAfter_append [of "take (lkDown L - n) ?W" "f # rest"] by simp
    have got: "\<exists>r. pays ?W = lkGot L @ r" using o by blast
    have base: "pays ?W = lkGot L @ pays ?q @ pays (f # rest)" if "\<not> stDone (lkStream L)" using o False that assms(4) by metis
    have cl: "closedOk (csCall ?s a)" by (rule shape_closedOk [OF assms(2)])
    have "orderly n a b ?L'"
    proof (rule deliver_queue [OF d(3) False cl])
      assume k: "ccQueue (csCall ?s' a) = ?q" "ccTerminal (csCall ?s' a) \<or> gKind f \<noteq> ''stream.item''" "\<not> terminalKind f"
      have "\<exists>r. pays ?W = lkGot L @ pays ?q @ r \<and> (\<not> ccTerminal (csCall ?s' a) \<longrightarrow> r = pays rest) \<and> ((\<exists>f \<in> set ?q. terminalKind f) \<longrightarrow> r = [])"
        if "\<not> stDone (lkStream L)" using base [OF that] k(2) nq by (intro exI [of _ "pays (f # rest)"]) auto
      then show ?thesis using o got nq unfolding orderly_def Let_def p by (simp add: k)
    next
      assume k: "ccQueue (csCall ?s' a) = ?q @ [f]" "ccTerminal (csCall ?s' a) = terminalKind f"
      have n: "noItemsAfter (?q @ [f])" using noTerminals_after [OF nq] nq by (simp add: noItemsAfter_append itemFrames_def)
      have "\<exists>r. pays ?W = lkGot L @ pays (?q @ [f]) @ r \<and> (\<not> terminalKind f \<longrightarrow> r = pays rest) \<and> ((\<exists>f \<in> set (?q @ [f]). terminalKind f) \<longrightarrow> r = [])"
        if "\<not> stDone (lkStream L)" using base [OF that] nq after pays_none by (intro exI [of _ "pays rest"]) auto
      then show ?thesis using o got nq n fin unfolding orderly_def Let_def p by (simp add: k)
    qed
    then show ?thesis using cr False by simp
  qed
qed

lemma tableOk_recvLoop: "tableOk a s \<Longrightarrow> tableOk a (snd (fst (recvLoop fuel (nextFrame a) (consumed a) (abortCall a) dec (st, s))))"
proof (induction fuel arbitrary: s)
  case (0 s)
  obtain t r where n: "nextFrame a s = (t, r)" by fastforce
  have "tableOk a t" using tableOk_next [OF 0] n by simp
  then show ?case using n by (subst recvLoop.simps) (simp add: recvFrame_state tableOk_consumed tableOk_abort split: wait.split sum.split)
next
  case (Suc m s)
  obtain t r where n: "nextFrame a s = (t, r)" by fastforce
  have "tableOk a t" using tableOk_next [OF Suc(2)] n by simp
  then show ?case using n Suc(1) by (subst recvLoop.simps) (simp add: recvFrame_state tableOk_consumed tableOk_abort split: wait.split sum.split)
qed

lemma consumed_call: "ccQueue (csCall (consumed a s) a) = ccQueue (csCall s a)" "ccTerminal (csCall (consumed a s) a) = ccTerminal (csCall s a)"
  by (simp_all add: consumed_def Let_def)

text \<open>What one \<^verbatim>\<open>Recv\<close> takes from the queue: frames without a terminal one, of which it returns the item; or the stream is done.\<close>

definition recvTook :: "addr \<Rightarrow> clientState \<Rightarrow> (streamState \<times> clientState) \<times> (goerr + 'i) wait \<Rightarrow> bool" where
  "recvTook a s r \<longleftrightarrow>
     (\<exists>pre. ccQueue (csCall s a) = pre @ ccQueue (csCall (snd (fst r)) a) \<and>
        (stDone (fst (fst r)) \<and> gotOf r (ccQueue (csCall s a)) = [] \<or>
         pays pre = gotOf r (ccQueue (csCall s a)) \<and> (\<forall>f \<in> set pre. \<not> terminalKind f) \<and> ccTerminal (csCall (snd (fst r)) a) = ccTerminal (csCall s a)))"

lemma recvTook_skip:
  assumes "ccQueue (csCall s a) = f # ccQueue (csCall t a)" "ccTerminal (csCall t a) = ccTerminal (csCall s a)" "gKind f \<noteq> ''stream.item''" "\<not> terminalKind f" "recvTook a t r"
  shows "recvTook a s r"
proof -
  have g: "gotOf r (ccQueue (csCall s a)) = gotOf r (ccQueue (csCall t a))" using assms(1,3) by (simp add: gotOf_def split: wait.split sum.split)
  from assms(5) obtain pre where "ccQueue (csCall t a) = pre @ ccQueue (csCall (snd (fst r)) a)"
    "stDone (fst (fst r)) \<and> gotOf r (ccQueue (csCall t a)) = [] \<or>
     pays pre = gotOf r (ccQueue (csCall t a)) \<and> (\<forall>f \<in> set pre. \<not> terminalKind f) \<and> ccTerminal (csCall (snd (fst r)) a) = ccTerminal (csCall t a)"
    unfolding recvTook_def by blast
  then show ?thesis unfolding recvTook_def g using assms(1-4) by (intro exI [of _ "f # pre"]) simp
qed

lemma abort_queue: "ccQueue (csCall (abortCall a err reason s) a) = ccQueue (csCall s a)"
  using abort_parts(1) [of a err reason s] by (simp add: outPart_def)

lemma recvTook_frame:
  assumes "ccQueue (csCall s a) = f # ccQueue (csCall t a)" "ccTerminal (csCall t a) = ccTerminal (csCall s a)"
    "gKind f = ''stream.item'' \<or> terminalKind f"
  shows "recvTook a s (recvFrame (consumed a) (abortCall a) dec f (st, t))"
proof (cases "gKind f = ''stream.item''")
  case True
  show ?thesis
  proof (cases "dec (gPayload f)")
    case (Inl err)
    then show ?thesis using True assms(1) by (simp add: recvTook_def recvFrame_def gotOf_def abort_queue)
  next
    case (Inr x)
    then have "recvFrame (consumed a) (abortCall a) dec f (st, t) = ((st, consumed a t), Ready (Inr x))" using True by (simp add: recvFrame_def)
    moreover have "\<not> terminalKind f" using True by (simp add: terminalKind_def)
    ultimately show ?thesis using True assms(1,2) unfolding recvTook_def by (intro exI [of _ "[f]"]) (simp add: consumed_call gotOf_def)
  qed
next
  case False
  then have "gKind f = ''call.result'' \<or> gKind f = ''call.error''" using assms(3) by (simp add: terminalKind_def)
  then show ?thesis using assms(1) by (elim disjE) (simp_all add: recvTook_def recvFrame_def gotOf_def split: option.split)
qed

lemma nextFrame_cases:
  obtains (frame) f t where "nextFrame a s = (t, Ready (Inr f))" "ccQueue (csCall s a) = f # ccQueue (csCall t a)" "ccTerminal (csCall t a) = ccTerminal (csCall s a)"
  | (failed) err where "nextFrame a s = (s, Ready (Inl err))" | (waits) "nextFrame a s = (s, Blocked)"
proof (cases "ccQueue (csCall s a)")
  case Nil
  then show thesis by (cases "ccFailure (csCall s a)") (auto simp: nextFrame_def Let_def intro: failed waits)
next
  case (Cons f fs)
  then show thesis by (intro frame [of "updCall a (\<lambda>c. c\<lparr>ccQueue := fs\<rparr>) s" f]) (simp_all add: nextFrame_def Let_def)
qed

lemma recvTook_none: "\<not> (\<exists>x. w = Ready (Inr x)) \<Longrightarrow> recvTook a s ((st, s), w)"
  unfolding recvTook_def by (intro exI [of _ "[]"]) (auto simp: gotOf_def split: wait.split sum.split)

lemma recv_takes: "recvTook a s (recvLoop fuel (nextFrame a) (consumed a) (abortCall a) dec (st, s))"
proof (induction fuel arbitrary: s)
  case (0 s)
  show ?case
  proof (cases rule: nextFrame_cases [of a s])
    case (frame f t)
    show ?thesis
    proof (cases "gKind f = ''stream.item'' \<or> terminalKind f")
      case True
      then show ?thesis using recvTook_frame [OF frame(2,3) True] frame(1) by (subst recvLoop.simps) (auto simp: terminalKind_def)
    next
      case False
      have "recvTook a t ((st, t), Blocked :: (goerr + 'b) wait)" by (rule recvTook_none) simp
      then have "recvTook a s ((st, t), Blocked :: (goerr + 'b) wait)" using recvTook_skip [OF frame(2,3)] False by blast
      then show ?thesis using frame(1) False by (subst recvLoop.simps) (auto simp: terminalKind_def)
    qed
  qed (subst recvLoop.simps; simp add: recvTook_def gotOf_def)+
next
  case (Suc m s)
  show ?case
  proof (cases rule: nextFrame_cases [of a s])
    case (frame f t)
    show ?thesis
    proof (cases "gKind f = ''stream.item'' \<or> terminalKind f")
      case True
      then show ?thesis using recvTook_frame [OF frame(2,3) True] frame(1) by (subst recvLoop.simps) (auto simp: terminalKind_def)
    next
      case False
      then have "recvTook a s (recvLoop m (nextFrame a) (consumed a) (abortCall a) dec (st, t))" using recvTook_skip [OF frame(2,3)] Suc by blast
      then show ?thesis using frame(1) False by (subst recvLoop.simps) (auto simp: terminalKind_def)
    qed
  qed (subst recvLoop.simps; simp add: recvTook_def gotOf_def)+
qed

lemma orderly_recv:
  assumes "orderly n a b L" "clientStep a (lkClient L) (snd (fst r)) fs" "recvTook a (lkClient L) r" "\<not> stDone (lkStream L)"
  shows "orderly n a b (L\<lparr>lkStream := fst (fst r), lkClient := snd (fst r), lkGot := lkGot L @ gotOf r (ccQueue (csCall (lkClient L) a))\<rparr>)"
proof -
  let ?c = "csCall (lkClient L) a" and ?s' = "snd (fst r)" and ?W = "sentSince n b (lkServer L)"
  let ?q = "ccQueue (csCall (lkClient L) a)" and ?q' = "ccQueue (csCall (snd (fst r)) a)" and ?g = "gotOf r (ccQueue (csCall (lkClient L) a))"
  note o = assms(1) [unfolded orderly_def Let_def]
  obtain rest where r: "pays ?W = lkGot L @ pays ?q @ rest" "\<not> ccTerminal ?c \<longrightarrow> rest = pays (pendingDown b L)" "(\<exists>f \<in> set ?q. terminalKind f) \<longrightarrow> rest = []"
    using o assms(4) by blast
  obtain pre where q: "?q = pre @ ?q'" and k: "stDone (fst (fst r)) \<and> ?g = [] \<or> pays pre = ?g \<and> (\<forall>f \<in> set pre. \<not> terminalKind f) \<and> ccTerminal (csCall ?s' a) = ccTerminal ?c"
    using assms(3) unfolding recvTook_def by blast
  have t: "ccTerminal ?c \<longrightarrow> ccTerminal (csCall ?s' a)" using assms(2) by (simp add: clientStep_def)
  have nq: "noItemsAfter ?q'" using o noItemsAfter_append [of pre ?q'] q by simp
  have sq: "set ?q' \<subseteq> set ?W" using o q by (metis Un_subset_iff set_append)
  have tq: "\<not> ccTerminal (csCall ?s' a) \<longrightarrow> (\<forall>f \<in> set ?q'. \<not> terminalKind f)" using o t q by (metis Un_iff set_append)
  have p: "pendingDown b (L\<lparr>lkStream := fst (fst r), lkClient := ?s', lkGot := lkGot L @ ?g\<rparr>) = pendingDown b L" by (simp add: pendingDown_def)
  have g: "\<exists>rest'. pays ?W = (lkGot L @ ?g) @ rest'" using k r(1) q by auto
  have d: "\<exists>rest'. pays ?W = (lkGot L @ ?g) @ pays ?q' @ rest' \<and> (\<not> ccTerminal (csCall ?s' a) \<longrightarrow> rest' = pays (pendingDown b L)) \<and>
      ((\<exists>f \<in> set ?q'. terminalKind f) \<longrightarrow> rest' = [])" if "\<not> stDone (fst (fst r))"
  proof -
    have k': "pays pre = ?g" "ccTerminal (csCall ?s' a) = ccTerminal ?c" using k that by auto
    have e: "pays ?W = (lkGot L @ ?g) @ pays ?q' @ rest" using r(1) q k'(1) by (metis append.assoc pays_simps(2))
    have "(\<exists>f \<in> set ?q'. terminalKind f) \<longrightarrow> rest = []" using r(3) q by (metis Un_iff set_append)
    with e show ?thesis using r(2) k'(2) by (intro exI [of _ rest]) blast
  qed
  show ?thesis unfolding orderly_def Let_def p using o nq sq tq g d by simp
qed

lemma orderly_serverStep:
  assumes "linkStep a b L L'" "linkShape a b L" "orderly n a b L" "tableOk a (lkClient L)"
    "lkClient L' = lkClient L" "lkDown L' = lkDown L" "lkStream L' = lkStream L" "lkGot L' = lkGot L"
  shows "orderly n a b L' \<and> tableOk a (lkClient L')"
  using orderly_cong [OF orderly_server [OF assms(3,2) writes_step [OF assms(1,2)]], of L'] assms(4-8) by simp

lemma orderly_clientStep:
  assumes "orderly n a b L" "clientDoes K a (lkClient L) s'" "outPart (csCall s' a) = outPart (csCall (lkClient L) a)" "tableOk a s'"
  shows "orderly n a b (L\<lparr>lkClient := s'\<rparr>) \<and> tableOk a (lkClient (L\<lparr>lkClient := s'\<rparr>))"
proof -
  have "ccTerminal (csCall (lkClient L) a) \<longrightarrow> ccTerminal (csCall s' a)" using assms(2) unfolding clientDoes_def clientStep_def by blast
  then show ?thesis using orderly_client [OF assms(1)] assms(3,4) by (simp add: outPart_def)
qed

lemma orderly_step:
  "linkStep a b L L' \<Longrightarrow> linkShape a b L \<Longrightarrow> outputShape (ccStream (csCall (lkClient L) a)) \<Longrightarrow> tableOk a (lkClient L) \<Longrightarrow> orderly n a b L \<Longrightarrow>
   orderly n a b L' \<and> tableOk a (lkClient L')"
proof (induction rule: linkStep.induct)
  case (toClient L f rest)
  have "tableOk a (clientReads f (lkClient L))"
    using clientReads_shape [OF toClient(3) linkShape_down(3) [OF toClient(3,2)]] toClient(5) tableOk_deliver by simp
  then show ?case using orderly_toClient [OF toClient(6,3,5,2)] by simp
next
  case (recv L r fuel dec)
  show ?case
  proof (cases "stDone (lkStream L)")
    case True
    then have "fst r = (lkStream L, lkClient L)" "gotOf r [] = []" using recv(2) by (simp_all add: Recv_def gotOf_def)
    then show ?thesis using True recv(5,6) by (simp add: orderly_cong [OF recv(6)])
  next
    case False
    then have r: "r = recvLoop fuel (nextFrame a) (consumed a) (abortCall a) dec (lkStream L, lkClient L)" using recv(2) by (simp add: Recv_def)
    have "clientDoes UNIV a (lkClient L) (snd (fst r))" unfolding recv(2) by (rule clientDoes_recv [OF recv(1)]) simp_all
    then obtain fs where fs: "clientStep a (lkClient L) (snd (fst r)) fs" unfolding clientDoes_def by blast
    have "recvTook a (lkClient L) r" unfolding r by (rule recv_takes)
    from orderly_recv [OF recv(6) fs this False] tableOk_recvLoop [OF recv(5), of fuel dec "lkStream L"] False r show ?thesis by simp
  qed
next
  case (sendItem L payload "done")
  show ?case by (rule orderly_clientStep [OF sendItem(6), of UNIV])
      (use sendItem in \<open>simp_all add: clientDoes_sendInput sendInput_outPart tableOk_sendInput\<close>)
next
  case (endInput L)
  show ?case by (rule orderly_clientStep [OF endInput(5), of UNIV])
      (use endInput in \<open>simp_all add: clientDoes_closeInput closeInput_outPart tableOk_closeInput\<close>)
next
  case (giveUp L err reason)
  show ?case by (rule orderly_clientStep [OF giveUp(4), of UNIV]) (use giveUp in \<open>simp_all add: clientDoes_abort tableOk_abort\<close>)
next
  case (clientNoWrite L)
  show ?case by (rule orderly_clientStep [OF clientNoWrite(4) clientDoes_silent [OF clientStep_cut]])
      (use clientNoWrite in \<open>simp_all add: clientCut_def tableOk_def\<close>)
next
  case (clientGone L)
  have "tableOk a (clientLost a (lkClient L))" unfolding clientLost_def by (rule tableOk_fail) (use clientGone in \<open>simp add: tableOk_def\<close>)
  then show ?case by (intro orderly_clientStep [OF clientGone(4) clientDoes_silent [OF clientStep_lost]]) (simp_all add: lost_parts)
next
  case (toServer L f rest)
  show ?case by (rule orderly_serverStep [OF linkStep.toServer [OF toServer(1,2)] toServer(3,6,5)]) simp_all
next
  case (start L)
  show ?case by (rule orderly_serverStep [OF linkStep.start [OF start(1)] start(2,5,4)]) simp_all
next
  case (send L payload)
  show ?case by (rule orderly_serverStep [OF linkStep.send [OF send(1-3)] send(4,7,6)]) simp_all
next
  case (sendInvalid L err)
  show ?case by (rule orderly_serverStep [OF linkStep.sendInvalid [OF sendInvalid(1)] sendInvalid(2,5,4)]) simp_all
next
  case (closeSend L)
  show ?case by (rule orderly_serverStep [OF linkStep.closeSend [OF closeSend(1,2)] closeSend(3,6,5)]) simp_all
next
  case (readInput L)
  show ?case by (rule orderly_serverStep [OF linkStep.readInput [OF readInput(1,2)] readInput(3,6,5)]) simp_all
next
  case (return L h encoded)
  show ?case by (rule orderly_serverStep [OF linkStep.return [OF return(1)] return(2,5,4)]) simp_all
next
  case (serverDeadline L err)
  show ?case by (rule orderly_serverStep [OF linkStep.serverDeadline serverDeadline(1,4,3)]) simp_all
next
  case (serverIdle L)
  show ?case by (rule orderly_serverStep [OF linkStep.serverIdle [OF serverIdle(1)] serverIdle(2,5,4)]) simp_all
next
  case (serverNoWrite L)
  show ?case by (rule orderly_serverStep [OF linkStep.serverNoWrite serverNoWrite(1,4,3)]) simp_all
next
  case (serverGone L)
  show ?case by (rule orderly_serverStep [OF linkStep.serverGone serverGone(1,4,3)]) simp_all
qed (simp add: outputShape_def)

lemma reach_orderly:
  assumes "(linkStep a b)\<^sup>*\<^sup>* L L'" "linkShape a b L" "outputShape (ccStream (csCall (lkClient L) a))" "tableOk a (lkClient L)" "orderly n a b L"
  shows "orderly n a b L' \<and> tableOk a (lkClient L') \<and> linkShape a b L' \<and> ccStream (csCall (lkClient L') a) = ccStream (csCall (lkClient L) a)"
  using assms(1)
proof (induction rule: rtranclp_induct)
  case (step M N)
  have "clientDoes UNIV a (lkClient M) (lkClient N)" using step_ends [OF step(2)] step(3) by blast
  then have "ccStream (csCall (lkClient N) a) = ccStream (csCall (lkClient M) a)" unfolding clientDoes_def clientStep_def by blast
  then show ?case using orderly_step [OF step(2), of n] linkShape_step [OF step(2)] step(3) assms(3) by simp
qed (use assms in simp)

lemma openLink_table:
  assumes "openLink k p cid info timeout payload s v = Some (L, a, b)"
  shows "tableOk a (lkClient L)" "ccStream (csCall (lkClient L) a) = inStream info"
proof -
  obtain s' where o: "openClient k cid info timeout payload s = (s', Inr a)" and L: "lkClient L = s'"
    using assms by (auto simp: openLink_def split: prod.splits sum.splits)
  show "tableOk a (lkClient L)" "ccStream (csCall (lkClient L) a) = inStream info"
    unfolding L by (rule openClient_Inr [OF o], simp add: tableOk_def newClientCall_def)+
qed



end
