(* ===== verification/Client_Props.thy ===== *)
theory Client_Props
  imports Client
begin

text \<open>
  What the client's loops promise: retries stay within their number and their deadline, and a pass over the
  endpoints tries each of them once.
\<close>

section \<open>Retries\<close>

lemma retryFrom_made:
  assumes "retryFrom p may dl nxt delay ended n t = (ts, r)"
  shows "ts \<noteq> [] \<and> hd ts = t"
  using assms by (subst (asm) retryFrom.simps) (auto split: prod.splits if_splits option.splits)

lemma retryFrom_bound:
  assumes "retryFrom p may dl nxt delay ended n t = (ts, r)"
  shows "int (length ts) \<le> max 1 (rpMaxAttempts p - n + 1)"
  using assms
proof (induction p may dl nxt delay ended n t arbitrary: ts r rule: retryFrom.induct)
  case (1 p may dl nxt delay ended n t)
  obtain err now where x: "nxt n t = (err, now)" by (cases "nxt n t")
  have go: "n < rpMaxAttempts p" if "\<not> retryStops p may n err" using that by (auto simp: retryStops_def split: option.splits)
  show ?case using 1(3) x go 1(1,2) [OF x [symmetric]]
    by (subst (asm) retryFrom.simps) (fastforce split: prod.splits if_splits option.splits)
qed

text \<open>Between two attempts: the first failed with an error worth retrying, the context did not end, and the
  second one is given what is left of the deadline once the delay has passed.\<close>

definition followsOn :: "retryPolicy \<Rightarrow> bool \<Rightarrow> time option \<Rightarrow> (int \<Rightarrow> time \<Rightarrow> goerr option \<times> time) \<Rightarrow> (int \<Rightarrow> time) \<Rightarrow> (int \<Rightarrow> goerr option) \<Rightarrow>
    int \<Rightarrow> time \<Rightarrow> time \<Rightarrow> bool" where
  "followsOn p may deadline nxt delay ended n t t' =
     (case nxt n t of (err, now) \<Rightarrow> \<not> retryStops p may n err \<and> ended n = None \<and>
        (case deadline of Some d \<Rightarrow> 0 < t' \<and> now + delay n + t' = d | None \<Rightarrow> t' = t))"

lemma retryFrom_follows:
  assumes "retryFrom p may dl nxt delay ended n t = (ts, r)" "Suc i < length ts"
  shows "followsOn p may dl nxt delay ended (n + int i) (ts ! i) (ts ! Suc i)"
  using assms
proof (induction p may dl nxt delay ended n t arbitrary: ts r i rule: retryFrom.induct)
  case (1 p may dl nxt delay ended n t)
  obtain err now where x: "nxt n t = (err, now)" by (cases "nxt n t")
  define t' where "t' = (case dl of Some d \<Rightarrow> d - now - delay n | None \<Rightarrow> t)"
  have f: "followsOn p may dl nxt delay ended n t t'" and "\<exists>us. ts = t # us \<and> retryFrom p may dl nxt delay ended (n + 1) t' = (us, r)"
    using 1(3,4) x by (subst (asm) retryFrom.simps; auto simp: followsOn_def t'_def split: prod.splits if_splits option.splits)+
  then obtain us where us: "ts = t # us" "retryFrom p may dl nxt delay ended (n + 1) t' = (us, r)" by blast
  have ih: "followsOn p may dl nxt delay ended (n + 1 + int j) (us ! j) (us ! Suc j)" if "Suc j < length us" for j
    using 1(1,2) [OF x [symmetric]] f us(2) that unfolding followsOn_def t'_def x by (cases dl) (auto split: if_splits)
  show ?case
  proof (cases i)
    case 0
    then show ?thesis using f retryFrom_made [OF us(2)] us(1) by (auto simp: hd_conv_nth)
  next
    case (Suc j)
    then show ?thesis using ih [of j] 1(4) us(1) by (simp add: ac_simps)
  qed
qed

lemma retryFrom_result:
  assumes "retryFrom p may dl nxt delay ended n t = (ts, r)"
  defines "m \<equiv> n + int (length ts) - 1"
  shows "case nxt m (List.last ts) of (err, now) \<Rightarrow>
     if retryStops p may m err then r = withAttempts m err
     else (\<exists>d. dl = Some d \<and> d - now \<le> delay m) \<and> r = err \<or> (\<exists>e. ended m = Some e \<and> r = Some e)"
  using assms(1) unfolding m_def
proof (induction p may dl nxt delay ended n t arbitrary: ts r rule: retryFrom.induct)
  case (1 p may dl nxt delay ended n t)
  obtain err now where x: "nxt n t = (err, now)" by (cases "nxt n t")
  define t' where "t' = (case dl of Some d \<Rightarrow> d - now - delay n | None \<Rightarrow> t)"
  show ?case
  proof (cases "length ts = 1")
    case True
    then have "ts = [t]" using retryFrom_made [OF 1(3)] by (cases ts) auto
    then show ?thesis using 1(3) x
      by (subst (asm) retryFrom.simps) (auto dest: retryFrom_made split: prod.splits if_splits option.splits, metis+)
  next
    case False
    then have "\<exists>us. ts = t # us \<and> us \<noteq> [] \<and> retryFrom p may dl nxt delay ended (n + 1) t' = (us, r)"
      and f: "\<not> retryStops p may n err" "ended n = None" "\<forall>d. dl = Some d \<longrightarrow> \<not> d - now \<le> delay n"
      using 1(3) x by (subst (asm) retryFrom.simps; auto simp: t'_def dest: retryFrom_made split: prod.splits if_splits option.splits)+
    then obtain us where us: "ts = t # us" "us \<noteq> []" "retryFrom p may dl nxt delay ended (n + 1) t' = (us, r)" by blast
    have "case nxt (n + 1 + int (length us) - 1) (List.last us) of (err, now) \<Rightarrow>
       if retryStops p may (n + 1 + int (length us) - 1) err then r = withAttempts (n + 1 + int (length us) - 1) err
       else (\<exists>d. dl = Some d \<and> d - now \<le> delay (n + 1 + int (length us) - 1)) \<and> r = err \<or> (\<exists>e. ended (n + 1 + int (length us) - 1) = Some e \<and> r = Some e)"
      using 1(1,2) [OF x [symmetric] f(1)] f us(3) unfolding t'_def by (cases dl) auto
    then show ?thesis using us(1,2) by (simp add: add.commute split: prod.splits if_splits)
  qed
qed

text \<open>
  C33.  Retrying always ends, and within its budget.  There is a first attempt with the caller's timeout, at
  most \<open>MaxAttempts\<close> in all, and only one when the call is neither declared idempotent nor carries an
  idempotency key.  Every attempt but the last failed with a retryable error of a listed code; when the
  caller gave a timeout, each later attempt starts with exactly what is left of the caller's deadline, and
  that is positive.  What is returned is the outcome of the last attempt, with the number of attempts added
  to a final error, or the error of a context that ended during a delay.
\<close>

theorem retries_end_within_budget:
  fixes p0 op start nxt rnd ended
  defines "p \<equiv> retryDefaults p0" and "may \<equiv> opIdempotent op \<or> opIdempotencyKey op \<noteq> []"
    and "out \<equiv> retry p0 op start nxt rnd ended"
  defines "ts \<equiv> fst out" and "n \<equiv> int (length (fst out))"
  shows "ts \<noteq> [] \<and> hd ts = opTimeout op \<and> n \<le> max 1 (rpMaxAttempts p) \<and> (\<not> may \<longrightarrow> n = 1) \<and>
    (Suc i < length ts \<longrightarrow> followsOn p may (if opTimeout op > 0 then Some (start + opTimeout op) else None) nxt
       (\<lambda>k. retryDelay p k (rnd k)) ended (int i + 1) (ts ! i) (ts ! Suc i)) \<and>
    (case nxt n (List.last ts) of (err, now) \<Rightarrow>
       snd out = withAttempts n err \<and> retryStops p may n err \<or>
       snd out = err \<and> opTimeout op > 0 \<and> start + opTimeout op - now \<le> retryDelay p n (rnd n) \<or>
       (\<exists>e. ended n = Some e \<and> snd out = Some e))"
proof -
  let ?dl = "if opTimeout op > 0 then Some (start + opTimeout op) else None" and ?delay = "\<lambda>k. retryDelay p k (rnd k)"
  have r: "retryFrom p may ?dl nxt ?delay ended 1 (opTimeout op) = (ts, snd out)"
    by (simp add: out_def ts_def retry_def p_def may_def Let_def)
  have one: "n = 1" if "\<not> may"
  proof (rule ccontr)
    assume "n \<noteq> 1"
    then have "Suc 0 < length ts" using retryFrom_made [OF r] by (cases ts rule: list.exhaust; cases "tl ts") (auto simp: n_def ts_def)
    from retryFrom_follows [OF r this] that show False by (auto simp: followsOn_def retryStops_def split: prod.splits option.splits)
  qed
  have f: "followsOn p may ?dl nxt ?delay ended (int i + 1) (ts ! i) (ts ! Suc i)" if "Suc i < length ts"
    using retryFrom_follows [OF r that] by (simp add: add.commute)
  have eq: "1 + int (length ts) - 1 = n" by (simp add: n_def ts_def)
  have res: "case nxt n (List.last ts) of (err, now) \<Rightarrow>
     if retryStops p may n err then snd out = withAttempts n err
     else (\<exists>d. ?dl = Some d \<and> d - now \<le> ?delay n) \<and> snd out = err \<or> (\<exists>e. ended n = Some e \<and> snd out = Some e)"
    using retryFrom_result [OF r] unfolding eq .
  show ?thesis using retryFrom_made [OF r] retryFrom_bound [OF r] one f res
    by (auto simp: n_def ts_def split: prod.splits if_splits)
qed

definition demoRetries :: "time list \<times> goerr option" where
  "demoRetries = retry DefaultRetry (zeroOptions\<lparr>opTimeout := second, opIdempotent := True\<rparr>) 0
     (\<lambda>n t. if n = 1 then (Some (MeshErr ((newError CodeUnavailable ''Connection was lost'')\<lparr>reRetryable := True\<rparr>)), 5) else (None, 7))
     (\<lambda>n. 1 / 2) (\<lambda>n. None)"

theorem retries_end_within_budget_witness:
  "demoRetries = ([second, second - 100 * millisecond - 5], None) \<and> length (fst demoRetries) \<le> 3"
proof -
  have "demoRetries = ([second, second - 100 * millisecond - 5], None)" by code_simp
  moreover have "int (length (fst demoRetries)) \<le> max 1 (rpMaxAttempts (retryDefaults DefaultRetry))"
    unfolding demoRetries_def using retries_end_within_budget by blast
  moreover have "rpMaxAttempts (retryDefaults DefaultRetry) = 3" by code_simp
  ultimately show ?thesis by simp
qed

section \<open>Endpoints\<close>

lemma connectFrom_Inr:
  "connectFrom shake cursor n js prev = (c, Inr k) \<Longrightarrow>
     \<exists>i < length js. c = (cursor + js ! i) mod n \<and> shake c = Inr k \<and> (\<forall>h < i. isl (shake ((cursor + js ! h) mod n)))"
proof (induction js arbitrary: prev)
  case (Cons j js)
  show ?case
  proof (cases "shake ((cursor + j) mod n)")
    case (Inl err)
    with Cons obtain i where "i < length js" "c = (cursor + js ! i) mod n" "shake c = Inr k" "\<forall>h < i. isl (shake ((cursor + js ! h) mod n))"
      by auto
    then show ?thesis using Inl by (intro exI [of _ "Suc i"]) (auto simp: less_Suc_eq_0_disj)
  next
    case (Inr k')
    then show ?thesis using Cons(2) by (intro exI [of _ 0]) (auto simp: Let_def)
  qed
qed simp

lemma connectFrom_Inl:
  "connectFrom shake cursor n js prev = (c, Inl err) \<Longrightarrow>
     c = cursor \<and> (\<forall>j \<in> set js. isl (shake ((cursor + j) mod n))) \<and> err = (if js = [] then prev else Some (projl (shake ((cursor + List.last js) mod n))))"
  by (induction js arbitrary: prev) (auto simp: Let_def split: sum.splits if_splits)

lemma rotation_covers: "cursor < n \<Longrightarrow> i < n \<Longrightarrow> \<exists>j < n. (cursor + j) mod n = (i::nat)"
  by (rule exI [of _ "if cursor \<le> i then i - cursor else n + i - cursor"]) auto

text \<open>
  One pass over the endpoints finds a live one if there is one.  Starting from the cursor and going round
  once, \<^verbatim>\<open>connectAny\<close> returns the connection of the first endpoint whose handshake works and leaves the
  cursor there; it fails only when the handshake fails at every endpoint, with the error of the last one tried
  and the cursor where it was.
\<close>

theorem connectAny_finds_first_live:
  assumes "cursor < n"
  shows "case connectAny shake cursor n of
      (c, Inr k) \<Rightarrow> c < n \<and> shake c = Inr k \<and> (\<exists>i < n. c = (cursor + i) mod n \<and> (\<forall>h < i. isl (shake ((cursor + h) mod n))))
    | (c, Inl err) \<Rightarrow> c = cursor \<and> (\<forall>i < n. isl (shake i)) \<and> err = Some (projl (shake ((cursor + n - 1) mod n)))"
proof -
  obtain c r where x: "connectFrom shake cursor n [0..<n] None = (c, r)" by fastforce
  show ?thesis
  proof (cases r)
    case (Inl err)
    from connectFrom_Inl [OF x [unfolded Inl]] have *: "c = cursor" "\<forall>j < n. isl (shake ((cursor + j) mod n))"
      "err = Some (projl (shake ((cursor + n - 1) mod n)))" using assms by (auto simp: last_conv_nth)
    moreover have "isl (shake i)" if "i < n" for i using rotation_covers [OF assms that] *(2) by metis
    ultimately show ?thesis by (simp add: connectAny_def x Inl)
  next
    case (Inr k)
    from connectFrom_Inr [OF x [unfolded Inr]] show ?thesis using assms by (fastforce simp: connectAny_def x Inr)
  qed
qed

theorem connectAny_finds_first_live_witness:
  "connectAny (\<lambda>i. if i = 0 then Inr 7 else Inl EofErr) 1 3 = (0, Inr 7) \<and> (\<exists>i < 3. 0 = (1 + i) mod (3::nat))"
proof -
  have "connectAny (\<lambda>i. if i = 0 then Inr 7 else Inl EofErr) 1 3 = (0, Inr 7)" by code_simp
  with connectAny_finds_first_live [of 1 3 "\<lambda>i. if i = 0 then Inr 7 else Inl EofErr"] show ?thesis by auto
qed

end
