(* ===== verification/Compact.thy ===== *)
theory Compact
  imports Codec
begin

text \<open>
  What \<^verbatim>\<open>json.Marshal\<close> writes is compact already: embedding it as a raw message in another document, which
  compacts it again, copies it byte for byte.
\<close>

text \<open>A text that \<^verbatim>\<open>json.Compact\<close> with HTML escaping copies as it is.\<close>

definition compacts :: "string \<Rightarrow> bool" where
  "compacts t \<longleftrightarrow> (\<forall>r. compactFrom True False False (t @ r) = t @ compactFrom True False False r)"

lemma compacts_append [intro]: "compacts t \<Longrightarrow> compacts u \<Longrightarrow> compacts (t @ u)"
  by (simp add: compacts_def)

lemma compacts_plain: "list_all (\<lambda>c. \<not> jsonSpace c \<and> c \<noteq> quoteChar) t \<Longrightarrow> compacts t"
  by (induction t) (auto simp: compacts_def)

lemma hexDigit_plain: "n < 16 \<Longrightarrow> hexDigit n \<notin> {CHR ''<'', CHR ''>'', CHR ''&'', backslash, quoteChar} \<and> byte (hexDigit n) \<noteq> 226"
  using fromHexChar_hexDigit [of n] by (auto simp: fromHexChar_def byte_def split: if_splits)

lemma compact_char:
  "c \<notin> {CHR ''<'', CHR ''>'', CHR ''&'', backslash, quoteChar} \<Longrightarrow> byte c \<noteq> 226 \<Longrightarrow>
   compactFrom True True False (c # s) = c # compactFrom True True False s"
  by simp

lemma compact_escape:
  "c \<notin> {CHR ''<'', CHR ''>'', CHR ''&''} \<Longrightarrow> byte c \<noteq> 226 \<Longrightarrow>
   compactFrom True True False (backslash # c # s) = backslash # c # compactFrom True True False s"
  by (simp add: byte_def)

lemma compact_u4: "compactFrom True True False (u4 n @ r) = u4 n @ compactFrom True True False r"
proof -
  have h: "hexDigit (k mod 16) \<notin> {CHR ''<'', CHR ''>'', CHR ''&'', backslash, quoteChar}" "byte (hexDigit (k mod 16)) \<noteq> 226" for k
    using hexDigit_plain [of "k mod 16"] by auto
  have u: "CHR ''u'' \<notin> {CHR ''<'', CHR ''>'', CHR ''&''}" "byte (CHR ''u'') \<noteq> 226" by (simp_all add: byte_def)
  show ?thesis by (simp only: u4_def append_Cons append_Nil compact_escape [OF u] compact_char [OF h])
qed

lemma quoteAscii_cases:
  assumes "\<And>x. x \<in> {quoteChar, backslash, CHR ''b'', CHR ''f'', CHR ''n'', CHR ''r'', CHR ''t''} \<Longrightarrow> P [backslash, x]" "P (u4 (byte c))"
    "\<not> (c = quoteChar \<or> c = backslash) \<Longrightarrow> \<not> (byte c < 32 \<or> c = CHR ''<'' \<or> c = CHR ''>'' \<or> c = CHR ''&'') \<Longrightarrow> P [c]"
  shows "P (quoteAscii c)"
  unfolding quoteAscii_def using assms by (simp split: if_split)

lemma compact_ascii:
  assumes "byte c < 128"
  shows "compactFrom True True False (quoteAscii c @ r) = quoteAscii c @ compactFrom True True False r"
proof -
  have e: "compactFrom True True False ([backslash, x] @ r) = [backslash, x] @ compactFrom True True False r"
    if "x \<in> {quoteChar, backslash, CHR ''b'', CHR ''f'', CHR ''n'', CHR ''r'', CHR ''t''}" for x
    using that by (simp only: append_Cons append_Nil, intro compact_escape) (auto simp: byte_def)
  have p: "compactFrom True True False ([c] @ r) = [c] @ compactFrom True True False r"
    if "\<not> (c = quoteChar \<or> c = backslash)" "\<not> (byte c < 32 \<or> c = CHR ''<'' \<or> c = CHR ''>'' \<or> c = CHR ''&'')"
    using that assms by (simp only: append_Cons append_Nil, intro compact_char) auto
  show ?thesis
    using quoteAscii_cases [where P = "\<lambda>t. compactFrom True True False (t @ r) = t @ compactFrom True True False r", OF e compact_u4 p] by blast
qed

lemma compact_high:
  assumes "list_all (\<lambda>c. 128 \<le> byte c \<and> byte c \<noteq> 226) t"
  shows "compactFrom True True False (t @ s) = t @ compactFrom True True False s"
  using assms
proof (induction t)
  case (Cons c t)
  then have "c \<notin> {CHR ''<'', CHR ''>'', CHR ''&'', backslash, quoteChar}" "byte c \<noteq> 226" by (auto simp: byte_def)
  with Cons show ?case using compact_char [of c "t @ s"] by simp
qed simp

lemma compact_separator:
  "c \<notin> {CHR ''<'', CHR ''>'', CHR ''&'', backslash, quoteChar} \<Longrightarrow> \<not> (byte (s ! 0) = 128 \<and> byte (s ! 1) div 2 = 84) \<Longrightarrow>
   compactFrom True True False (c # s) = c # compactFrom True True False s"
  by auto

lemma encodeRune_high:
  assumes "validRune r" "128 \<le> r" "\<not> (2048 \<le> r \<and> r < 65536 \<and> r div 4096 = 2)"
  shows "list_all (\<lambda>c. 128 \<le> byte c \<and> byte c \<noteq> 226) (encodeRune r)"
proof -
  have cb: "128 \<le> byte (char_of (128 + n mod 64)) \<and> byte (char_of (128 + n mod 64)) \<noteq> 226" for n :: nat
  proof -
    have "128 + n mod 64 < 192" by simp
    then show ?thesis by (simp add: byte_def del: add_less_cancel_left)
  qed
  consider "r < 2048" | "2048 \<le> r" "r < 65536" | "65536 \<le> r" "r \<le> 1114111" using assms(1) unfolding validRune_def by linarith
  then show ?thesis
  proof cases
    case 1
    then have "r div 64 < 32" by simp
    with 1 assms(1,2) show ?thesis using cb [of r] by (simp add: encodeRune_def byte_def)
  next
    case 2
    then have "r div 4096 < 16" by simp
    with 2 assms show ?thesis using cb [of r] cb [of "r div 64"] by (simp add: encodeRune_def byte_def)
  next
    case 3
    then have "r div 262144 < 5" by simp
    with 3 assms(1,2) show ?thesis using cb [of r] cb [of "r div 64"] cb [of "r div 4096"] by (simp add: encodeRune_def byte_def)
  qed
qed

lemma compact_rune:
  assumes "validRune r" "128 \<le> r" "r \<noteq> 8232" "r \<noteq> 8233"
  shows "compactFrom True True False (encodeRune r @ s) = encodeRune r @ compactFrom True True False s"
proof (cases "2048 \<le> r \<and> r < 65536 \<and> r div 4096 = 2")
  case True
  define y where "y = 128 + r div 64 mod 64"
  define z where "z = 128 + r mod 64"
  have e: "encodeRune r = [char_of (226::nat), char_of y, char_of z]" using True assms(1) by (simp add: encodeRune_def Let_def y_def z_def)
  have b: "y < 192" "128 \<le> y" "z < 192" "128 \<le> z" by (simp_all add: y_def z_def)
  have n: "\<not> (y = 128 \<and> z div 2 = 84)"
  proof
    assume a: "y = 128 \<and> z div 2 = 84"
    then have "r div 64 mod 64 = 0" "r mod 64 = 40 \<or> r mod 64 = 41" unfolding y_def z_def by linarith+
    moreover have "r div 4096 * 4096 + r div 64 mod 64 * 64 + r mod 64 = r" by (rule split64)
    ultimately show False using True assms(3,4) by auto
  qed
  have plainBytes: "byte x \<noteq> 226" if "x \<in> {CHR ''<'', CHR ''>'', CHR ''&'', backslash, quoteChar}" for x using that by (auto simp: byte_def)
  have h: "byte (char_of (226::nat)) = 226" "byte (char_of y) = y" "byte (char_of z) = z" using b by (simp_all add: byte_def)
  then have c: "(char_of (226::nat) :: char) \<notin> {CHR ''<'', CHR ''>'', CHR ''&'', backslash, quoteChar}" using plainBytes by metis
  have "compactFrom True True False (char_of (226::nat) # [char_of y, char_of z] @ s) = char_of (226::nat) # compactFrom True True False ([char_of y, char_of z] @ s)"
    by (rule compact_separator [OF c]) (use n h in simp)
  then show ?thesis unfolding e using compact_high [of "[char_of y, char_of z]" s] b h by simp
next
  case False
  then show ?thesis by (intro compact_high encodeRune_high assms(1,2))
qed

lemma compact_quoteBody:
  assumes "list_all validRune rs"
  shows "compactFrom True True False (quoteBody (concat (map encodeRune rs)) @ r) = quoteBody (concat (map encodeRune rs)) @ compactFrom True True False r"
  using assms
proof (induction rs)
  case (Cons x rs)
  show ?case
  proof (cases "x < 128")
    case True
    then have "encodeRune x = [char_of x]" by (simp add: encodeRune_def validRune_def Let_def)
    then show ?thesis using True Cons by (simp add: quoteBody_ascii compact_ascii)
  next
    case False
    then have v: "validRune x" "128 \<le> x" using Cons by simp_all
    then show ?thesis using Cons compact_rune [OF v] compact_u4 [of x] by (auto simp: quoteBody_rune [OF v])
  qed
qed simp

lemma compacts_quote: "validText s \<Longrightarrow> compacts (jsonQuote s)"
  using compact_quoteBody by (auto simp: compacts_def jsonQuote_def validText_def jsonSpace_def byte_def)

lemma takeDigits_plain: "c \<in> set (takeDigits s) \<Longrightarrow> isDigit c"
  unfolding takeDigits_def by (rule set_takeWhileD [THEN conjunct2])

lemma validNumber_plain:
  assumes "validNumber n" "c \<in> set n"
  shows "isDigit c \<or> c \<in> {CHR ''-'', CHR ''+'', CHR ''.'', CHR ''e'', CHR ''E''}"
proof -
  have p: "parseNumber n = Some (n, [])" using assms(1) by (simp add: validNumber_def)
  define n1 where "n1 = drop (length (signPart n)) n"
  define n2 where "n2 = drop (length (intPart n1)) n1"
  from p obtain f x where f: "fracPart n2 = Some f" and x: "expPart (drop (length f) n2) = Some x" and n: "n = signPart n @ intPart n1 @ f @ x"
    unfolding parseNumber_parts n1_def [symmetric] n2_def [symmetric] Let_def by (auto split: if_splits option.splits)
  have "c \<in> set (signPart n) \<or> c \<in> set (intPart n1) \<or> c \<in> set f \<or> c \<in> set x" using assms(2) n by (metis Un_iff set_append)
  moreover have "isDigit c \<or> c \<in> {CHR ''-'', CHR ''+''}" if "c \<in> set (signPart t) \<or> c \<in> set (expSign t)" for t
    using that by (auto simp: signPart_def expSign_def split: if_splits)
  moreover have "isDigit c" if "c \<in> set (intPart n1)" using that takeDigits_plain by (auto simp: intPart_def isDigit_def byte_def split: if_splits)
  moreover have "isDigit c \<or> c = CHR ''.''" if "c \<in> set f" using f that takeDigits_plain by (auto simp: fracPart_def Let_def split: if_splits)
  moreover have "isDigit c \<or> c \<in> {CHR ''-'', CHR ''+'', CHR ''e'', CHR ''E''}" if "c \<in> set x"
    using x that takeDigits_plain by (auto simp: expPart_def expSign_def Let_def split: if_splits)
  ultimately show ?thesis by blast
qed

lemma compacts_number: "validNumber n \<Longrightarrow> compacts n"
  by (rule compacts_plain) (auto simp: list_all_iff jsonSpace_def isDigit_def byte_def dest!: validNumber_plain)

lemma compacts_join: "list_all compacts ts \<Longrightarrow> compacts (joinWith '','' ts)"
proof (induction ts)
  case (Cons t ts)
  have "compacts '',''" by (rule compacts_plain) (simp add: jsonSpace_def byte_def)
  with Cons show ?case using compacts_append [of t "'','' @ joinWith '','' ts"] compacts_append [of "'',''" "joinWith '','' ts"]
    by (cases "ts = []") (simp_all add: joinWith_Cons)
qed (simp add: compacts_def)

lemma compacts_encodeJson: "validJson v \<Longrightarrow> compacts (encodeJson v)"
proof (induction v rule: encodeJson.induct)
  case (1 ms)
  have b: "compacts ''{''" "compacts ''}''" "compacts '':''" by (rule compacts_plain; simp add: jsonSpace_def byte_def)+
  have "list_all compacts (map (\<lambda>(k, v). jsonQuote k @ '':'' @ encodeJson v) ms)"
    unfolding list_all_iff set_map using 1 b(3) by (fastforce simp: list_all_iff intro!: compacts_append compacts_quote)
  then show ?case using b(1,2) unfolding encodeJson.simps by (intro compacts_append compacts_join)
next
  case (2 vs)
  have b: "compacts ''[''" "compacts '']''" by (rule compacts_plain; simp add: jsonSpace_def byte_def)+
  have "list_all compacts (map encodeJson vs)" using 2 by (auto simp: list_all_iff)
  then show ?case using b unfolding encodeJson.simps by (intro compacts_append compacts_join)
next
  case (5 b)
  show ?case by (rule compacts_plain) (simp add: jsonSpace_def byte_def)
next
  case 6
  show ?case by (rule compacts_plain) (simp add: jsonSpace_def byte_def)
qed (simp_all add: compacts_number compacts_quote)

lemma compactRaw_encode: "validJson v \<Longrightarrow> compactRaw (encodeJson v) = encodeJson v"
  using compacts_encodeJson [of v] unfolding compacts_def compactRaw_def by (metis append_Nil2 compactFrom.simps(1))

end
