(* ===== verification/Wire.thy ===== *)
theory Wire
  imports Compact Client Server_Call
begin

text \<open>
  Frames on the wire: what one Go end writes with \<^verbatim>\<open>json.Marshal\<close> is what the other end and the Router
  read.  The frames the Go client and server build for a call pass every check of the Router's \<^verbatim>\<open>decode\<close>,
  and what \<^verbatim>\<open>decode\<close> lets through has the fields its kind needs.
\<close>

section \<open>Members of an object\<close>

text \<open>Fields with the text written for them and the value the text reads as; an omitted field has neither.\<close>

type_synonym fields = "(string \<times> (string \<times> json) option) list"

definition present :: "fields \<Rightarrow> (string \<times> string \<times> json) list" where
  "present xs = concat (map (\<lambda>(k, x). case x of None \<Rightarrow> [] | Some (t, v) \<Rightarrow> [(k, t, v)]) xs)"

definition written :: "fields \<Rightarrow> (string \<times> string option) list" where
  "written xs = map (\<lambda>(k, x). (k, map_option fst x)) xs"

definition readable :: "fields \<Rightarrow> bool" where
  "readable xs \<longleftrightarrow> list_all (\<lambda>(k, x). validText k \<and> pred_option (\<lambda>(t, v). reads t v) x) xs"

lemma present_simps [simp]: "present [] = []" "present ((k, None) # xs) = present xs" "present ((k, Some (t, v)) # xs) = (k, t, v) # present xs"
  by (simp_all add: present_def)

lemma marshalObject_present:
  "marshalObject (written xs) = ''{'' @ joinWith '','' (map (\<lambda>(k, t, v). jsonQuote k @ CHR '':'' # t) (present xs)) @ ''}''"
proof -
  have "concat (map (\<lambda>(k, t). case t of None \<Rightarrow> [] | Some x \<Rightarrow> [jsonQuote k @ '':'' @ x]) (written xs)) = map (\<lambda>(k, t, v). jsonQuote k @ CHR '':'' # t) (present xs)"
    by (induction xs) (auto simp: written_def present_def split: option.splits)
  then show ?thesis by (simp add: marshalObject_def)
qed

lemma readable_present: "readable xs \<Longrightarrow> list_all (\<lambda>(k, t, v). validText k \<and> reads t v) (present xs)"
  by (induction xs) (auto simp: readable_def present_def split: option.splits)

lemma object_reads:
  assumes "readable xs"
  shows "reads (marshalObject (written xs)) (JObj (map (\<lambda>(k, t, v). (k, v)) (present xs)))"
  unfolding marshalObject_present by (rule reads_object [OF readable_present [OF assms]])

lemma object_members:
  assumes "readable xs"
  shows "rawMembers (marshalObject (written xs)) = Some (present xs)"
proof (cases "present xs = []")
  case True
  then show ?thesis by (simp add: marshalObject_present rawMembers_def jsonSpace_def byte_def)
next
  case False
  define J where "J = joinWith '','' (map (\<lambda>(k, t, v). jsonQuote k @ CHR '':'' # t) (present xs))"
  obtain s' where J: "J = quoteChar # s'" using False by (cases "present xs"; cases "tl (present xs) = []") (auto simp: J_def joinWith_Cons jsonQuote_def)
  have "parseMembers (Suc (length (J @ ''}''))) (J @ CHR ''}'' # []) = Some (present xs, [])"
    using parseMembers_reads [OF readable_present [OF assms] False, of "length (J @ ''}'')" "[]"] by (simp add: J_def)
  then have "map_option fst (parseMembers (Suc (length (J @ ''}''))) (J @ ''}'')) = Some (present xs)" by simp
  moreover have "rawMembers (CHR ''{'' # J @ ''}'') = map_option fst (parseMembers (Suc (length (J @ ''}''))) (J @ ''}''))"
    unfolding rawMembers_def J by (simp add: jsonSpace_def byte_def del: parseMembers.simps)
  ultimately show ?thesis unfolding marshalObject_present J_def [symmetric] by simp
qed

text \<open>One field of a struct, written or omitted.\<close>

definition fieldStep :: "(string \<times> 'a setter) list \<Rightarrow> string \<Rightarrow> (string \<times> json) option \<Rightarrow> 'a \<Rightarrow> 'a \<times> bool" where
  "fieldStep fs k x a = (case x of None \<Rightarrow> (a, True) | Some (t, v) \<Rightarrow> (case findField fs k of None \<Rightarrow> (a, True) | Some st \<Rightarrow> st t v a))"

lemma decodeStruct_next: "fieldStep fs k x a = (a', True) \<Longrightarrow> decodeStruct fs (present ((k, x) # xs)) a = decodeStruct fs (present xs) a'"
  by (cases x) (auto simp: fieldStep_def split: option.splits prod.splits)

lemma object_struct:
  "readable xs \<Longrightarrow> structVal fs (marshalObject (written xs)) (JObj ms) a = decodeStruct fs (present xs) a"
  by (simp add: structVal_def object_members)

text \<open>The fields of a frame.\<close>

definition strField :: "string \<Rightarrow> (string \<times> json) option" where
  "strField s = (if s = [] then None else Some (jsonQuote s, JStr s))"

definition intField :: "int option \<Rightarrow> (string \<times> json) option" where
  "intField n = map_option (\<lambda>i. (itoa i, JNum (itoa i))) n"

lemma strField_text: "map_option fst (strField s) = omitStr s"
  by (simp add: strField_def omitStr_def)

lemma intField_text: "map_option fst (intField n) = map_option itoa n"
  by (cases n) (simp_all add: intField_def)

lemma natDigits_lead: "0 < n \<Longrightarrow> hd (natDigits n) \<noteq> CHR ''0''"
proof (induction n rule: natDigits.induct)
  case (1 n)
  show ?case
  proof (cases "n < 10")
    case True
    then have "byte (char_of (48 + n)) \<noteq> byte (CHR ''0'')" using 1(2) by (simp add: byte_def)
    then have "char_of (48 + n) \<noteq> CHR ''0''" by metis
    then show ?thesis using True by (subst natDigits.simps) simp
  next
    case False
    then show ?thesis using 1(1) by (subst natDigits.simps) simp
  qed
qed

lemma intPart_natDigits: "intPart (natDigits n) = natDigits n"
proof (cases "n = 0")
  case True
  have "char_of (48::nat) = CHR ''0''" by code_simp
  then show ?thesis using True by (simp add: natDigits.simps intPart_def)
next
  case False
  have "takeDigits (natDigits n) = natDigits n" using natDigits_digits by (auto simp: takeDigits_def takeWhile_eq_all_conv)
  moreover have "take 1 (natDigits n) \<noteq> ''0''" using natDigits_lead [of n] False by (cases "natDigits n") auto
  ultimately show ?thesis by (simp add: intPart_def)
qed

lemma validNumber_itoa: "validNumber (itoa n)"
proof -
  have d: "signPart (natDigits k) = []" for k using natDigits_hd [of k] by (auto simp: signPart_def isDigit_def byte_def)
  show ?thesis
    by (simp add: validNumber_def parseNumber_parts itoa_def Let_def d intPart_natDigits fracPart_def expPart_def signPart_def [of "CHR ''-'' # s" for s])
qed

lemma field_reads [simp]: "validText s \<Longrightarrow> pred_option (\<lambda>(t, v). reads t v) (strField s)" "pred_option (\<lambda>(t, v). reads t v) (intField n)"
  by (auto simp: strField_def intField_def reads_string reads_number validNumber_itoa option.pred_map comp_def option.pred_True)

text \<open>A Go map is kept with its keys in order, the order they are written in.\<close>

definition orderedMap :: "(string \<times> 'a) list \<Rightarrow> bool" where
  "orderedMap m \<longleftrightarrow> sorted (map fst m) \<and> distinct (map fst m)"

definition textMap :: "(string, string) gomap \<Rightarrow> bool" where
  "textMap m \<longleftrightarrow> orderedMap m \<and> list_all (\<lambda>(k, v). validText k \<and> validText v) m"

fun orderedJson :: "json \<Rightarrow> bool" where
  "orderedJson (JObj ms) = (orderedMap ms \<and> list_all (\<lambda>(k, v). orderedJson v) ms)"
| "orderedJson (JArr vs) = list_all orderedJson vs"
| "orderedJson v = True"

lemma sortedJson_ordered: "orderedJson v \<Longrightarrow> sortedJson v = v"
proof (induction v rule: sortedJson.induct)
  case (1 ms)
  have "map (\<lambda>(k, v). (k, sortedJson v)) ms = ms" using 1 by (intro map_idI) (auto simp: list_all_iff)
  then show ?case using 1(2) by (simp add: orderedMap_def sort_key_id_if_sorted)
next
  case (2 vs)
  then show ?case by (auto simp: list_all_iff intro!: map_idI)
qed simp_all

lemma update_absent: "k \<notin> set (map fst m) \<Longrightarrow> AList.update k v m = m @ [(k, v)]"
  by (induction m) auto

lemma update_fold: "distinct (map fst (acc @ m)) \<Longrightarrow> fold (\<lambda>(k, x) a. AList.update k x a) m acc = acc @ m"
proof (induction m arbitrary: acc)
  case (Cons x m)
  obtain k v where x: "x = (k, v)" by fastforce
  have "AList.update k v acc = acc @ [(k, v)]" using Cons(2) x by (intro update_absent) auto
  then show ?case using Cons x by simp
qed simp

definition mapField :: "(string, string) gomap option \<Rightarrow> (string \<times> json) option" where
  "mapField m = (case m of None \<Rightarrow> None | Some [] \<Rightarrow> None
     | Some m \<Rightarrow> Some (encodeJson (JObj (map (map_prod id JStr) m)), JObj (map (map_prod id JStr) m)))"

lemma mapField_none [simp]: "mapField None = None" "mapField (Some []) = None"
  by (simp_all add: mapField_def)

lemma mapField_Some: "m \<noteq> [] \<Longrightarrow> mapField (Some m) = Some (encodeJson (JObj (map (map_prod id JStr) m)), JObj (map (map_prod id JStr) m))"
  by (cases m) (simp_all add: mapField_def)

lemma marshalStringMap_encode: "orderedMap m \<Longrightarrow> marshalStringMap m = encodeJson (JObj (map (map_prod id JStr) m))"
proof -
  assume o: "orderedMap m"
  then have s: "sort (map_keys m) = map fst m" by (simp add: orderedMap_def sorted_sort_id)
  have "map_of m k = Some v" if "(k, v) \<in> set m" for k v using o that by (simp add: orderedMap_def)
  then have "map (\<lambda>k. jsonQuote k @ '':'' @ jsonQuote (the (map_of m k))) (map fst m) = map (\<lambda>(k, v). jsonQuote k @ '':'' @ encodeJson v) (map (map_prod id JStr) m)"
    by auto
  then show ?thesis unfolding marshalStringMap_def s encodeJson.simps by (simp only:)
qed

definition errorFieldsOf :: "wireError \<Rightarrow> fields" where
  "errorFieldsOf e =
     [(''code'', Some (jsonQuote (weCode e), JStr (weCode e))), (''message'', Some (jsonQuote (weMessage e), JStr (weMessage e))),
      (''retryable'', if weRetryable e then Some (''true'', JBool True) else None),
      (''details'', case weDetails e of None \<Rightarrow> None | Some [] \<Rightarrow> None | Some d \<Rightarrow> Some (encodeJson (JObj d), JObj d))]"

definition errorField :: "wireError option \<Rightarrow> (string \<times> json) option" where
  "errorField e = map_option (\<lambda>e. (marshalWireError e, JObj (map (\<lambda>(k, t, v). (k, v)) (present (errorFieldsOf e))))) e"

definition rawField :: "json option \<Rightarrow> (string \<times> json) option" where
  "rawField v = map_option (\<lambda>v. (encodeJson v, v)) v"

definition wireErrorOk :: "wireError \<Rightarrow> bool" where
  "wireErrorOk e \<longleftrightarrow> validText (weCode e) \<and> validText (weMessage e) \<and> weDetails e \<noteq> Some [] \<and>
     pred_option (\<lambda>d. orderedJson (JObj d) \<and> validJson (JObj d)) (weDetails e)"

text \<open>Frames of calls: valid text, 64-bit numbers, maps that are absent when empty, and a payload that \<^verbatim>\<open>json.Marshal\<close> wrote
  for the value \<open>pv\<close>.\<close>

abbreviation int64Field :: "int option \<Rightarrow> bool" where
  "int64Field \<equiv> pred_option (\<lambda>n. - maxInt64 - 1 \<le> n \<and> n \<le> maxInt64)"

definition wireFrame :: "json option \<Rightarrow> rframe \<Rightarrow> bool" where
  "wireFrame pv f \<longleftrightarrow> list_all validText [gKind f, gCallID f, gProtocol f, gRole f, gPeerID f, gConnection f, gInstanceID f, gService f, gMethod f,
       gIdempotency f, gReason f, gDirection f, gNonce f] \<and>
     gServices f = [] \<and> gMaxInflight f = 0 \<and> pred_option validJson pv \<and> gPayload f = map_option encodeJson pv \<and>
     list_all int64Field [gTimeoutMS f, gIdleTimeout f, gSequence f, gCredit f] \<and>
     gMetadata f \<noteq> Some [] \<and> pred_option textMap (gMetadata f) \<and> pred_option wireErrorOk (gError f)"

definition frameFieldsOf :: "json option \<Rightarrow> rframe \<Rightarrow> fields" where
  "frameFieldsOf pv f =
     [(''kind'', Some (jsonQuote (gKind f), JStr (gKind f))), (''call_id'', strField (gCallID f)), (''protocol'', strField (gProtocol f)),
      (''role'', strField (gRole f)), (''peer_id'', strField (gPeerID f)), (''connection_id'', strField (gConnection f)),
      (''instance_id'', strField (gInstanceID f)), (''services'', None), (''max_inflight'', None),
      (''service'', strField (gService f)), (''method'', strField (gMethod f)), (''payload'', rawField pv),
      (''timeout_ms'', intField (gTimeoutMS f)), (''idempotency_key'', strField (gIdempotency f)),
      (''idle_timeout_ms'', intField (gIdleTimeout f)), (''metadata'', mapField (gMetadata f)),
      (''error'', errorField (gError f)), (''reason'', strField (gReason f)),
      (''direction'', strField (gDirection f)), (''sequence'', intField (gSequence f)),
      (''credit'', intField (gCredit f)), (''nonce'', strField (gNonce f))]"

lemma rawField_text:
  assumes "pred_option validJson pv"
  shows "map_option fst (rawField pv) = omitRaw (map_option encodeJson pv)" "rawOk (map_option encodeJson pv)"
proof -
  have n: "encodeJson v \<noteq> []" if "validJson v" for v using encodeJson_hd [OF that] by auto
  show "map_option fst (rawField pv) = omitRaw (map_option encodeJson pv)"
  proof (cases pv)
    case (Some v)
    then have v: "validJson v" using assms by simp
    obtain c t where "encodeJson v = c # t" using n [OF v] by (cases "encodeJson v") auto
    then show ?thesis using Some compactRaw_encode [OF v] by (simp add: rawField_def omitRaw_def)
  qed (simp add: rawField_def omitRaw_def)
  show "rawOk (map_option encodeJson pv)"
    using assms by (cases pv) (auto simp: rawOk_def jsonValid_def reads_unmarshal [OF reads_encodeJson])
qed

lemma mapField_text: "pred_option textMap m \<Longrightarrow> map_option fst (mapField m) = (case m of None \<Rightarrow> None | Some [] \<Rightarrow> None | Some m \<Rightarrow> Some (marshalStringMap m))"
  by (auto simp: mapField_def textMap_def marshalStringMap_encode split: option.splits list.splits)

lemma errorFieldsOf_text: "wireErrorOk e \<Longrightarrow> marshalWireError e = marshalObject (written (errorFieldsOf e))"
  by (auto simp: marshalWireError_def written_def errorFieldsOf_def wireErrorOk_def sortedJson_ordered split: option.splits list.splits simp del: sortedJson.simps)

lemma marshalRFrame_fields:
  assumes "wireFrame pv f"
  shows "marshalRFrame f = Some (marshalObject (written (frameFieldsOf pv f)))"
proof -
  have e: "map_option fst (errorField (gError f)) = map_option marshalWireError (gError f)"
    by (cases "gError f") (simp_all add: errorField_def)
  show ?thesis
    using assms unfolding marshalRFrame_def wireFrame_def written_def frameFieldsOf_def
    by (simp add: rawField_text mapField_text e strField_text intField_text)
qed

declare foldName.simps [simp del]

lemma fieldNames [simp]:
  "foldName ''kind'' = ''kind''" "foldName ''call_id'' = ''call_id''" "foldName ''protocol'' = ''protocol''" "foldName ''role'' = ''role''"
  "foldName ''peer_id'' = ''peer_id''" "foldName ''capabilities'' = ''capabilities''" "foldName ''connection_id'' = ''connection_id''"
  "foldName ''instance_id'' = ''instance_id''" "foldName ''services'' = ''services''" "foldName ''max_inflight'' = ''max_inflight''"
  "foldName ''service'' = ''service''" "foldName ''method'' = ''method''" "foldName ''payload'' = ''payload''" "foldName ''timeout_ms'' = ''timeout_ms''"
  "foldName ''idempotency_key'' = ''idempotency_key''" "foldName ''idle_timeout_ms'' = ''idle_timeout_ms''" "foldName ''metadata'' = ''metadata''"
  "foldName ''error'' = ''error''" "foldName ''reason'' = ''reason''" "foldName ''direction'' = ''direction''" "foldName ''sequence'' = ''sequence''"
  "foldName ''credit'' = ''credit''" "foldName ''nonce'' = ''nonce''" "foldName ''code'' = ''code''" "foldName ''message'' = ''message''"
  "foldName ''retryable'' = ''retryable''" "foldName ''details'' = ''details''"
  by code_simp+

lemma validNames [simp]:
  "validText ''kind''" "validText ''call_id''" "validText ''protocol''" "validText ''role''"
  "validText ''peer_id''" "validText ''capabilities''" "validText ''connection_id''"
  "validText ''instance_id''" "validText ''services''" "validText ''max_inflight''"
  "validText ''service''" "validText ''method''" "validText ''payload''" "validText ''timeout_ms''"
  "validText ''idempotency_key''" "validText ''idle_timeout_ms''" "validText ''metadata''"
  "validText ''error''" "validText ''reason''" "validText ''direction''" "validText ''sequence''"
  "validText ''credit''" "validText ''nonce''" "validText ''code''" "validText ''message''"
  "validText ''retryable''" "validText ''details''"
  by (rule validText_ascii; simp add: byte_def)+

lemma errorFieldsOf_readable: "wireErrorOk e \<Longrightarrow> readable (errorFieldsOf e)"
  by (auto simp: readable_def errorFieldsOf_def wireErrorOk_def reads_string reads_word reads_encodeJson split: option.splits list.splits simp del: encodeJson.simps)

lemma otherFields_read [simp]:
  "pred_option validJson pv \<Longrightarrow> pred_option (\<lambda>(t, v). reads t v) (rawField pv)"
  "pred_option wireErrorOk e \<Longrightarrow> pred_option (\<lambda>(t, v). reads t v) (errorField e)"
  "pred_option textMap m \<Longrightarrow> pred_option (\<lambda>(t, v). reads t v) (mapField m)"
proof -
  show "pred_option validJson pv \<Longrightarrow> pred_option (\<lambda>(t, v). reads t v) (rawField pv)"
    by (cases pv) (simp_all add: rawField_def reads_encodeJson)
  show "pred_option wireErrorOk e \<Longrightarrow> pred_option (\<lambda>(t, v). reads t v) (errorField e)"
    by (cases e) (simp_all add: errorField_def errorFieldsOf_text object_reads errorFieldsOf_readable)
  have v: "validJson (JObj (map (map_prod id JStr) m))" if "textMap m" for m
    using that by (auto simp: textMap_def orderedMap_def list_all_iff comp_def)
  show "pred_option (\<lambda>(t, v). reads t v) (mapField m)" if "pred_option textMap m"
    using that reads_encodeJson [OF v] by (cases m; cases "the m = []") (simp_all add: mapField_Some del: encodeJson.simps)
qed

lemma frameFieldsOf_readable: "wireFrame pv f \<Longrightarrow> readable (frameFieldsOf pv f)"
  unfolding wireFrame_def readable_def frameFieldsOf_def by (simp add: reads_string)

section \<open>Reading the fields\<close>

lemma fieldStep_none: "fieldStep fs k None a = (a, True)"
  by (simp add: fieldStep_def)

lemma frame_strings:
  "fieldStep frameFields ''kind'' (Some (t, JStr s)) a = (a\<lparr>fKind := s\<rparr>, True)"
  "fCallID a = [] \<Longrightarrow> fieldStep frameFields ''call_id'' (strField s) a = (a\<lparr>fCallID := s\<rparr>, True)"
  "fProtocol a = [] \<Longrightarrow> fieldStep frameFields ''protocol'' (strField s) a = (a\<lparr>fProtocol := s\<rparr>, True)"
  "fRole a = [] \<Longrightarrow> fieldStep frameFields ''role'' (strField s) a = (a\<lparr>fRole := s\<rparr>, True)"
  "fPeerID a = [] \<Longrightarrow> fieldStep frameFields ''peer_id'' (strField s) a = (a\<lparr>fPeerID := s\<rparr>, True)"
  "fConnection a = [] \<Longrightarrow> fieldStep frameFields ''connection_id'' (strField s) a = (a\<lparr>fConnection := s\<rparr>, True)"
  "fInstanceID a = [] \<Longrightarrow> fieldStep frameFields ''instance_id'' (strField s) a = (a\<lparr>fInstanceID := s\<rparr>, True)"
  "fService a = [] \<Longrightarrow> fieldStep frameFields ''service'' (strField s) a = (a\<lparr>fService := s\<rparr>, True)"
  "fMethod a = [] \<Longrightarrow> fieldStep frameFields ''method'' (strField s) a = (a\<lparr>fMethod := s\<rparr>, True)"
  "fIdempotency a = [] \<Longrightarrow> fieldStep frameFields ''idempotency_key'' (strField s) a = (a\<lparr>fIdempotency := s\<rparr>, True)"
  "fReason a = [] \<Longrightarrow> fieldStep frameFields ''reason'' (strField s) a = (a\<lparr>fReason := s\<rparr>, True)"
  "fDirection a = [] \<Longrightarrow> fieldStep frameFields ''direction'' (strField s) a = (a\<lparr>fDirection := s\<rparr>, True)"
  "fNonce a = [] \<Longrightarrow> fieldStep frameFields ''nonce'' (strField s) a = (a\<lparr>fNonce := s\<rparr>, True)"
  by (cases a, simp add: fieldStep_def strField_def strVal_def frameFields_def)+

lemma frame_numbers:
  "fTimeoutMS a = None \<Longrightarrow> int64Field n \<Longrightarrow> fieldStep frameFields ''timeout_ms'' (intField n) a = (a\<lparr>fTimeoutMS := n\<rparr>, True)"
  "fIdleTimeout a = None \<Longrightarrow> int64Field n \<Longrightarrow> fieldStep frameFields ''idle_timeout_ms'' (intField n) a = (a\<lparr>fIdleTimeout := n\<rparr>, True)"
  "fSequence a = None \<Longrightarrow> int64Field n \<Longrightarrow> fieldStep frameFields ''sequence'' (intField n) a = (a\<lparr>fSequence := n\<rparr>, True)"
  "fCredit a = None \<Longrightarrow> int64Field n \<Longrightarrow> fieldStep frameFields ''credit'' (intField n) a = (a\<lparr>fCredit := n\<rparr>, True)"
  by (cases a, cases n, simp_all add: fieldStep_def intField_def optIntVal_def intVal_def parseInt64_itoa frameFields_def)+

lemma frame_payload:
  "fPayload a = None \<Longrightarrow> fieldStep frameFields ''payload'' (rawField pv) a = (a\<lparr>fPayload := map_option encodeJson pv\<rparr>, True)"
  by (cases a, cases pv, simp_all add: fieldStep_def rawField_def frameFields_def)

lemma rframe_strings:
  "fieldStep rframeFields ''kind'' (Some (t, JStr s)) a = (a\<lparr>gKind := s\<rparr>, True)"
  "gCallID a = [] \<Longrightarrow> fieldStep rframeFields ''call_id'' (strField s) a = (a\<lparr>gCallID := s\<rparr>, True)"
  "gProtocol a = [] \<Longrightarrow> fieldStep rframeFields ''protocol'' (strField s) a = (a\<lparr>gProtocol := s\<rparr>, True)"
  "gRole a = [] \<Longrightarrow> fieldStep rframeFields ''role'' (strField s) a = (a\<lparr>gRole := s\<rparr>, True)"
  "gPeerID a = [] \<Longrightarrow> fieldStep rframeFields ''peer_id'' (strField s) a = (a\<lparr>gPeerID := s\<rparr>, True)"
  "gConnection a = [] \<Longrightarrow> fieldStep rframeFields ''connection_id'' (strField s) a = (a\<lparr>gConnection := s\<rparr>, True)"
  "gInstanceID a = [] \<Longrightarrow> fieldStep rframeFields ''instance_id'' (strField s) a = (a\<lparr>gInstanceID := s\<rparr>, True)"
  "gService a = [] \<Longrightarrow> fieldStep rframeFields ''service'' (strField s) a = (a\<lparr>gService := s\<rparr>, True)"
  "gMethod a = [] \<Longrightarrow> fieldStep rframeFields ''method'' (strField s) a = (a\<lparr>gMethod := s\<rparr>, True)"
  "gIdempotency a = [] \<Longrightarrow> fieldStep rframeFields ''idempotency_key'' (strField s) a = (a\<lparr>gIdempotency := s\<rparr>, True)"
  "gReason a = [] \<Longrightarrow> fieldStep rframeFields ''reason'' (strField s) a = (a\<lparr>gReason := s\<rparr>, True)"
  "gDirection a = [] \<Longrightarrow> fieldStep rframeFields ''direction'' (strField s) a = (a\<lparr>gDirection := s\<rparr>, True)"
  "gNonce a = [] \<Longrightarrow> fieldStep rframeFields ''nonce'' (strField s) a = (a\<lparr>gNonce := s\<rparr>, True)"
  by (cases a, simp add: fieldStep_def strField_def strVal_def rframeFields_def)+

lemma rframe_numbers:
  "gTimeoutMS a = None \<Longrightarrow> int64Field n \<Longrightarrow> fieldStep rframeFields ''timeout_ms'' (intField n) a = (a\<lparr>gTimeoutMS := n\<rparr>, True)"
  "gIdleTimeout a = None \<Longrightarrow> int64Field n \<Longrightarrow> fieldStep rframeFields ''idle_timeout_ms'' (intField n) a = (a\<lparr>gIdleTimeout := n\<rparr>, True)"
  "gSequence a = None \<Longrightarrow> int64Field n \<Longrightarrow> fieldStep rframeFields ''sequence'' (intField n) a = (a\<lparr>gSequence := n\<rparr>, True)"
  "gCredit a = None \<Longrightarrow> int64Field n \<Longrightarrow> fieldStep rframeFields ''credit'' (intField n) a = (a\<lparr>gCredit := n\<rparr>, True)"
  by (cases a, cases n, simp_all add: fieldStep_def intField_def optIntVal_def intVal_def parseInt64_itoa rframeFields_def)+

lemma rframe_payload:
  "gPayload a = None \<Longrightarrow> fieldStep rframeFields ''payload'' (rawField pv) a = (a\<lparr>gPayload := map_option encodeJson pv\<rparr>, True)"
  by (cases a, cases pv, simp_all add: fieldStep_def rawField_def rframeFields_def)

text \<open>How the Router sees a frame of the Go runtime: maps stay raw text.\<close>

definition errorView :: "wireError \<Rightarrow> errorPayload" where
  "errorView e = \<lparr>eCode = weCode e, eMessage = weMessage e, eRetryable = weRetryable e, eDetails = map_option (\<lambda>d. encodeJson (JObj d)) (weDetails e)\<rparr>"

definition routerView :: "rframe \<Rightarrow> frame" where
  "routerView f = \<lparr>fKind = gKind f, fCallID = gCallID f, fProtocol = gProtocol f, fRole = gRole f, fPeerID = gPeerID f, fCapabilities = [],
     fConnection = gConnection f, fInstanceID = gInstanceID f, fServices = None, fMaxInflight = 0, fService = gService f, fMethod = gMethod f,
     fPayload = gPayload f, fTimeoutMS = gTimeoutMS f, fIdempotency = gIdempotency f, fIdleTimeout = gIdleTimeout f,
     fMetadata = map_option marshalStringMap (gMetadata f), fError = map_option errorView (gError f), fReason = gReason f,
     fDirection = gDirection f, fSequence = gSequence f, fCredit = gCredit f, fNonce = gNonce f, fraw = None\<rparr>"

lemma error_struct:
  assumes "wireErrorOk e"
  shows "decodeStruct errorFields (present (errorFieldsOf e)) zeroError = (errorView e, True)"
    "decodeStruct wireErrorFields (present (errorFieldsOf e)) zeroWireError = (e, True)"
proof -
  have d: "fold (\<lambda>(k, x) m. AList.update k x m) d [] = d" if "orderedMap d" for d :: "(string, json) gomap"
    using update_fold [of "[]" d] that by (simp add: orderedMap_def)
  note s = present_def errorFieldsOf_def zeroError_def zeroWireError_def errorView_def strVal_def boolVal_def anyMapVal_def wireErrorOk_def d
  obtain c m r ds where e: "e = \<lparr>weCode = c, weMessage = m, weRetryable = r, weDetails = ds\<rparr>" by (cases e)
  show "decodeStruct errorFields (present (errorFieldsOf e)) zeroError = (errorView e, True)"
    using assms by (cases ds; cases "the ds"; cases r) (simp_all add: e s errorFields_def)
  show "decodeStruct wireErrorFields (present (errorFieldsOf e)) zeroWireError = (e, True)"
    using assms by (cases ds; cases "the ds"; cases r) (simp_all add: e s wireErrorFields_def del: fold.simps)
qed

lemma frame_error:
  assumes "pred_option wireErrorOk e"
  shows "fError a = None \<Longrightarrow> fieldStep frameFields ''error'' (errorField e) a = (a\<lparr>fError := map_option errorView e\<rparr>, True)"
    "gError b = None \<Longrightarrow> fieldStep rframeFields ''error'' (errorField e) b = (b\<lparr>gError := e\<rparr>, True)"
proof -
  show "fError a = None \<Longrightarrow> fieldStep frameFields ''error'' (errorField e) a = (a\<lparr>fError := map_option errorView e\<rparr>, True)"
    using assms error_struct by (cases a; cases e)
      (simp_all add: fieldStep_def errorField_def frameFields_def errorPtr_def errorFieldsOf_text object_struct errorFieldsOf_readable)
  show "gError b = None \<Longrightarrow> fieldStep rframeFields ''error'' (errorField e) b = (b\<lparr>gError := e\<rparr>, True)"
    using assms error_struct by (cases b; cases e)
      (simp_all add: fieldStep_def errorField_def rframeFields_def wireErrorPtr_def errorFieldsOf_text object_struct errorFieldsOf_readable)
qed

lemma stringMapVal_text: "textMap m \<Longrightarrow> stringMapVal (JObj (map (map_prod id JStr) m)) None = (Some m, True)"
proof -
  assume "textMap m"
  then have "fold (\<lambda>(k, x) a. AList.update k x a) m [] = m" using update_fold [of "[]" m] by (simp add: textMap_def orderedMap_def)
  then show ?thesis by (simp add: stringMapVal_def fold_map comp_def case_prod_unfold map_prod_def list_all_iff)
qed

lemma frame_metadata:
  assumes "pred_option textMap m" "m \<noteq> Some []"
  shows "fMetadata a = None \<Longrightarrow> fieldStep frameFields ''metadata'' (mapField m) a = (a\<lparr>fMetadata := map_option marshalStringMap m\<rparr>, True)"
    "gMetadata b = None \<Longrightarrow> fieldStep rframeFields ''metadata'' (mapField m) b = (b\<lparr>gMetadata := m\<rparr>, True)"
proof -
  have t: "marshalStringMap n = encodeJson (JObj (map (map_prod id JStr) n))" if "textMap n" for n
    using that by (simp add: textMap_def marshalStringMap_encode)
  show "fMetadata a = None \<Longrightarrow> fieldStep frameFields ''metadata'' (mapField m) a = (a\<lparr>fMetadata := map_option marshalStringMap m\<rparr>, True)"
    using assms t by (cases a; cases m) (simp_all add: fieldStep_def frameFields_def mapField_Some del: encodeJson.simps)
  show "gMetadata b = None \<Longrightarrow> fieldStep rframeFields ''metadata'' (mapField m) b = (b\<lparr>gMetadata := m\<rparr>, True)"
    using assms stringMapVal_text by (cases b; cases m) (simp_all add: fieldStep_def rframeFields_def mapField_Some del: encodeJson.simps)
qed

lemmas frame_fields = frame_strings frame_numbers frame_payload frame_error frame_metadata fieldStep_none
  rframe_strings rframe_numbers rframe_payload

lemma router_struct:
  assumes "wireFrame pv f"
  shows "decodeStruct frameFields (present (frameFieldsOf pv f)) zeroFrame = (routerView f, True)"
  using assms unfolding frameFieldsOf_def wireFrame_def
  by (simp add: decodeStruct_next frame_fields zeroFrame_def routerView_def del: present_simps(2,3))

lemma go_struct:
  assumes "wireFrame pv f"
  shows "decodeStruct rframeFields (present (frameFieldsOf pv f)) zeroRFrame = (f, True)"
  using assms unfolding frameFieldsOf_def wireFrame_def
  by (cases f) (simp add: decodeStruct_next frame_fields zeroRFrame_def del: present_simps(2,3))

section \<open>Both readers\<close>

lemma decodeFrame_wire:
  assumes "wireFrame pv f" "List.member knownKinds (gKind f)" "marshalRFrame f = Some data"
  shows "decodeFrame data = (f, None)"
proof -
  have d: "data = marshalObject (written (frameFieldsOf pv f))" using marshalRFrame_fields [OF assms(1)] assms(3) by simp
  note r = frameFieldsOf_readable [OF assms(1)]
  show ?thesis unfolding decodeFrame_def d reads_unmarshal(1) [OF object_reads [OF r]]
    by (simp only: option.case object_struct [OF r] go_struct [OF assms(1)] prod.case simp_thms assms(2) if_True if_False)
qed

lemma decode_wire:
  assumes "wireFrame pv f" "marshalRFrame f = Some data"
  shows "decode data = (case checkFrame data (routerView f) of
       Some e \<Rightarrow> (routerView f, Some e)
     | None \<Rightarrow> if List.member callKinds (gKind f) \<and> gCallID f = [] then (routerView f, Some MissingCallID)
         else ((routerView f)\<lparr>fraw := Some data\<rparr>, None))"
proof -
  have d: "data = marshalObject (written (frameFieldsOf pv f))" using marshalRFrame_fields [OF assms(1)] assms(2) by simp
  note r = frameFieldsOf_readable [OF assms(1)]
  have v: "fKind (routerView f) = gKind f" "fCallID (routerView f) = gCallID f" by (simp_all add: routerView_def)
  have s: "structVal frameFields data (JObj (map (\<lambda>(k, t, v). (k, v)) (present (frameFieldsOf pv f)))) zeroFrame = (routerView f, True)"
    unfolding d by (simp only: object_struct [OF r] router_struct [OF assms(1)])
  have p: "parseJson data = Some (JObj (map (\<lambda>(k, t, v). (k, v)) (present (frameFieldsOf pv f))), [])"
    unfolding d by (rule reads_unmarshal(2) [OF object_reads [OF r]])
  show ?thesis unfolding decode_def p by (simp only: option.case prod.case s simp_thms if_True if_False v skipWs_def dropWhile.simps)
qed

lemma decode_outcome:
  assumes "decode data = (case c of Some e \<Rightarrow> (x, Some e) | None \<Rightarrow> if B then (x, Some d) else (x\<lparr>fraw := Some data\<rparr>, None))" "x\<lparr>fraw := None\<rparr> = x"
  shows "fst (decode data) = x\<lparr>fraw := (if snd (decode data) = None then Some data else None)\<rparr> \<and>
    (snd (decode data) = None \<longleftrightarrow> c = None \<and> \<not> B) \<and> (snd (decode data) = None \<longrightarrow> frameBytes (fst (decode data)) = data)"
  unfolding assms(1) by (cases c; cases B) (simp_all add: assms(2) frameBytes_def)


definition demoWire :: rframe where
  "demoWire = zeroRFrame\<lparr>gKind := ''call.open'', gCallID := ''c'', gService := ''s.v1'', gMethod := ''m'', gPayload := Some ''7'', gTimeoutMS := Some 250,
     gMetadata := Some [(''a'', ''b'')]\<rparr>"

lemma demoWire_ok: "wireFrame (Some (JNum ''7'')) demoWire"
proof -
  have "validText ''call.open''" "validText ''c''" "validText ''s.v1''" "validText ''m''" "validText ''a''" "validText ''b''"
    by (rule validText_ascii; simp add: byte_def)+
  moreover have "validNumber ''7''" by code_simp
  ultimately show ?thesis by (simp add: wireFrame_def demoWire_def zeroRFrame_def textMap_def orderedMap_def maxInt64_def)
qed


section \<open>The frames of a call pass the Router\<close>

text \<open>What the Router's checks ask of the fields.\<close>

inductive passes :: "rframe \<Rightarrow> bool" where
  hello: "gKind f = ''hello'' \<Longrightarrow> gProtocol f = ProtocolName \<Longrightarrow> gRole f = ''client'' \<or> gRole f = ''server'' \<Longrightarrow> gPeerID f \<noteq> [] \<Longrightarrow> passes f"
| opens: "gKind f = ''call.open'' \<Longrightarrow> gCallID f \<noteq> [] \<Longrightarrow> gService f \<noteq> [] \<Longrightarrow> gMethod f \<noteq> [] \<Longrightarrow> gPayload f \<noteq> None \<Longrightarrow>
    length (gIdempotency f) \<le> 128 \<Longrightarrow> pred_option (\<lambda>t. 0 < t) (gTimeoutMS f) \<Longrightarrow> pred_option (\<lambda>t. 0 < t) (gIdleTimeout f) \<Longrightarrow> passes f"
| result: "gKind f = ''call.result'' \<Longrightarrow> gCallID f \<noteq> [] \<Longrightarrow> passes f"
| cancel: "gKind f = ''call.cancel'' \<Longrightarrow> gCallID f \<noteq> [] \<Longrightarrow> passes f"
| error: "gKind f = ''call.error'' \<Longrightarrow> gCallID f \<noteq> [] \<Longrightarrow> gError f = Some e \<Longrightarrow> weCode e \<noteq> [] \<Longrightarrow> passes f"
| ends: "gKind f = ''stream.end'' \<Longrightarrow> gCallID f \<noteq> [] \<Longrightarrow> gDirection f = ''client'' \<or> gDirection f = ''server'' \<Longrightarrow> passes f"
| item: "gKind f = ''stream.item'' \<Longrightarrow> gCallID f \<noteq> [] \<Longrightarrow> gDirection f = ''client'' \<or> gDirection f = ''server'' \<Longrightarrow> gPayload f \<noteq> None \<Longrightarrow>
    gSequence f = Some n \<Longrightarrow> 0 \<le> n \<Longrightarrow> passes f"
| window: "gKind f = ''stream.window'' \<Longrightarrow> gCallID f \<noteq> [] \<Longrightarrow> gDirection f = ''client'' \<or> gDirection f = ''server'' \<Longrightarrow> gCredit f = Some n \<Longrightarrow>
    0 < n \<Longrightarrow> passes f"

lemma validMetadata_text:
  assumes "pred_option textMap m" "\<forall>m'. m = Some m' \<longrightarrow> [] \<notin> fst ` set m'"
  shows "validMetadata (map_option marshalStringMap m)"
proof (cases m)
  case (Some m')
  then have t: "textMap m'" using assms by simp
  have "validJson (JObj (map (map_prod id JStr) m'))" using t by (auto simp: textMap_def orderedMap_def list_all_iff comp_def)
  then have "unmarshalAny (marshalStringMap m') = Some (JObj (map (map_prod id JStr) m'))"
    using t by (simp only: textMap_def marshalStringMap_encode reads_unmarshal(1) [OF reads_encodeJson])
  then show ?thesis using Some assms(2) by (force simp: validMetadata_def list_all_iff)
qed (simp add: validMetadata_def)

lemma passes_check:
  assumes "wireFrame pv f" "passes f" "\<forall>m. gMetadata f = Some m \<longrightarrow> [] \<notin> fst ` set m"
  shows "checkFrame data (routerView f) = None" "List.member callKinds (gKind f) \<longrightarrow> gCallID f \<noteq> []" "List.member knownKinds (gKind f)"
proof -
  have m: "validMetadata (map_option marshalStringMap (gMetadata f))" using assms(1,3) by (intro validMetadata_text) (simp_all add: wireFrame_def)
  have v: "fKind (routerView f) = gKind f" "fProtocol (routerView f) = gProtocol f" "fRole (routerView f) = gRole f" "fPeerID (routerView f) = gPeerID f"
    "fService (routerView f) = gService f" "fMethod (routerView f) = gMethod f" "fPayload (routerView f) = gPayload f" "fTimeoutMS (routerView f) = gTimeoutMS f"
    "fIdleTimeout (routerView f) = gIdleTimeout f" "fIdempotency (routerView f) = gIdempotency f" "fMetadata (routerView f) = map_option marshalStringMap (gMetadata f)"
    "fError (routerView f) = map_option errorView (gError f)" "fDirection (routerView f) = gDirection f" "fSequence (routerView f) = gSequence f"
    "fCredit (routerView f) = gCredit f" by (simp_all add: routerView_def)
  have p: "(\<exists>t \<in> set_option x. t \<le> (0::int)) = False" if "pred_option (\<lambda>t. 0 < t) x" for x using that by (cases x) auto
  have "checkFrame data (routerView f) = None \<and> (List.member callKinds (gKind f) \<longrightarrow> gCallID f \<noteq> []) \<and> List.member knownKinds (gKind f)"
    using assms(2)
  proof cases
    case hello then show ?thesis by (auto simp: checkFrame_def v callKinds_def knownKinds_def)
  next
    case opens then show ?thesis by (simp add: checkFrame_def v m p knownKinds_def)
  next
    case result then show ?thesis by (simp add: checkFrame_def v m knownKinds_def)
  next
    case cancel then show ?thesis by (simp add: checkFrame_def v knownKinds_def)
  next
    case error then show ?thesis by (simp add: checkFrame_def v m errorView_def knownKinds_def)
  next
    case ends then show ?thesis by (simp add: checkFrame_def v knownKinds_def)
  next
    case item then show ?thesis by (simp add: checkFrame_def v knownKinds_def)
  next
    case window then show ?thesis by (simp add: checkFrame_def v knownKinds_def)
  qed
  then show "checkFrame data (routerView f) = None" "List.member callKinds (gKind f) \<longrightarrow> gCallID f \<noteq> []" "List.member knownKinds (gKind f)" by simp_all
qed

text \<open>What a caller's options must be: text, 64-bit timeouts, an idempotency key of at most 128 bytes and metadata without an empty key.\<close>

definition infoOk :: "callInfo \<Rightarrow> time \<Rightarrow> bool" where
  "infoOk info timeout \<longleftrightarrow> (let op = inOptions info in
     list_all validText [inService info, inMethod info, opIdempotencyKey op, opInstance op] \<and> inService info \<noteq> [] \<and> inMethod info \<noteq> [] \<and>
     length (opIdempotencyKey op) \<le> 128 \<and> timeout \<le> maxInt64 \<and> opIdleTimeout op \<le> maxInt64 \<and>
     textMap (opMetadata op) \<and> [] \<notin> fst ` set (opMetadata op))"

lemma validKinds [simp]:
  "validText ''hello''" "validText ''meshcall/1''" "validText ''client''" "validText ''server''" "validText ''call.open''" "validText ''call.result''"
  "validText ''call.error''" "validText ''call.cancel''" "validText ''stream.item''" "validText ''stream.end''" "validText ''stream.window''"
  by (rule validText_ascii; simp add: byte_def)+

definition sendable :: "rframe \<Rightarrow> bool" where
  "sendable f \<longleftrightarrow> (\<exists>pv. wireFrame pv f) \<and> passes f \<and> (\<forall>m. gMetadata f = Some m \<longrightarrow> [] \<notin> fst ` set m)"

lemma sendable_accepted:
  assumes "sendable f"
  shows "\<exists>data. marshalRFrame f = Some data \<and> decode data = ((routerView f)\<lparr>fraw := Some data\<rparr>, None) \<and> decodeFrame data = (f, None)"
proof -
  obtain pv where w: "wireFrame pv f" using assms by (auto simp: sendable_def)
  note p = passes_check [OF w assms [unfolded sendable_def, THEN conjunct2, THEN conjunct1] assms [unfolded sendable_def, THEN conjunct2, THEN conjunct2]]
  obtain data where m: "marshalRFrame f = Some data" by (rule that [OF marshalRFrame_fields [OF w]])
  have "decode data = ((routerView f)\<lparr>fraw := Some data\<rparr>, None)"
    unfolding decode_wire [OF w m] p(1) option.case using p(2) by (intro if_not_P) blast
  then show ?thesis using m decodeFrame_wire [OF w p(3) m] by (intro exI [of _ data] conjI)
qed

lemma sendableI:
  "wireFrame pv f \<Longrightarrow> passes f \<Longrightarrow> gMetadata f = None \<or> [] \<notin> fst ` set (the (gMetadata f)) \<Longrightarrow> sendable f"
  by (auto simp: sendable_def)

lemma sendable_client:
  assumes "validText cid" "cid \<noteq> []"
  shows "validText reason \<Longrightarrow> sendable (cancelFor cid reason)" "sendable (endFor cid ''client'')"
    "0 < k \<Longrightarrow> k \<le> maxInt64 \<Longrightarrow> sendable (windowFor cid ''server'' k)"
    "validJson v \<Longrightarrow> 0 \<le> n \<Longrightarrow> n \<le> maxInt64 \<Longrightarrow> sendable (clientItem cid n (encodeJson v))"
proof -
  note d = assms zeroRFrame_def wireFrame_def passes.simps maxInt64_def
  show "validText reason \<Longrightarrow> sendable (cancelFor cid reason)" by (rule sendableI [of None]) (simp_all add: d cancelFor_def)
  show "sendable (endFor cid ''client'')" by (rule sendableI [of None]) (simp_all add: d endFor_def)
  show "0 < k \<Longrightarrow> k \<le> maxInt64 \<Longrightarrow> sendable (windowFor cid ''server'' k)" by (rule sendableI [of None]) (simp_all add: d windowFor_def)
  show "validJson v \<Longrightarrow> 0 \<le> n \<Longrightarrow> n \<le> maxInt64 \<Longrightarrow> sendable (clientItem cid n (encodeJson v))"
    by (rule sendableI [of "Some v"]) (simp_all add: d clientItem_def)
qed

lemma sendable_hello: "validText peer \<Longrightarrow> peer \<noteq> [] \<Longrightarrow> sendable (helloClient peer)"
  by (rule sendableI [of None]) (simp_all add: helloClient_def zeroRFrame_def wireFrame_def passes.simps ProtocolName_def)

lemma milliseconds_fit: "t \<le> maxInt64 \<Longrightarrow> - maxInt64 - 1 \<le> max 1 (t div millisecond) \<and> max 1 (t div millisecond) \<le> maxInt64"
proof -
  assume "t \<le> maxInt64"
  moreover have "t div millisecond \<le> max 0 t"
  proof (cases "0 \<le> t")
    case True
    then show ?thesis using zdiv_mono2 [of t 1 millisecond] by (simp add: millisecond_def)
  next
    case False
    then show ?thesis using div_neg_pos_less0 [of t millisecond] by (simp add: millisecond_def)
  qed
  ultimately show ?thesis by (auto simp: maxInt64_def)
qed

lemma sendable_open:
  assumes "validText cid" "cid \<noteq> []" "infoOk info timeout" "validJson v"
  shows "sendable (openFrame cid info timeout (encodeJson v))"
proof -
  note i = assms(3) [unfolded infoOk_def Let_def, simplified]
  show ?thesis
    by (rule sendableI [of "Some v"])
      (use assms(1,2,4) i milliseconds_fit in \<open>simp_all add: less_max_iff_disj openFrame_def Let_def zeroRFrame_def wireFrame_def passes.simps\<close>)
qed

definition withTrailers :: "(string, string) gomap \<Rightarrow> rframe \<Rightarrow> rframe" where
  "withTrailers tr f = (if length tr > 0 then f\<lparr>gMetadata := Some tr\<rparr> else f)"

lemma sendable_server:
  assumes "validText cid" "cid \<noteq> []"
  shows "validJson v \<Longrightarrow> 0 \<le> n \<Longrightarrow> n \<le> maxInt64 \<Longrightarrow> sendable ((outputItem n (encodeJson v))\<lparr>gCallID := cid\<rparr>)"
    "sendable (outputEnd\<lparr>gCallID := cid\<rparr>)"
    "0 < k \<Longrightarrow> k \<le> maxInt64 \<Longrightarrow> sendable ((inputWindow k)\<lparr>gCallID := cid\<rparr>)"
proof -
  note d = assms zeroRFrame_def wireFrame_def passes.simps maxInt64_def outputItem_def outputEnd_def inputWindow_def
  show "validJson v \<Longrightarrow> 0 \<le> n \<Longrightarrow> n \<le> maxInt64 \<Longrightarrow> sendable ((outputItem n (encodeJson v))\<lparr>gCallID := cid\<rparr>)"
    by (rule sendableI [of "Some v"]) (simp_all add: d)
  show "sendable (outputEnd\<lparr>gCallID := cid\<rparr>)" by (rule sendableI [of None]) (simp_all add: d)
  show "0 < k \<Longrightarrow> k \<le> maxInt64 \<Longrightarrow> sendable ((inputWindow k)\<lparr>gCallID := cid\<rparr>)" by (rule sendableI [of None]) (simp_all add: d)
qed

lemma sendable_terminal:
  assumes "validText cid" "cid \<noteq> []" "textMap tr" "[] \<notin> fst ` set tr"
  shows "wireErrorOk (wirePayload e) \<Longrightarrow> reCode e \<noteq> [] \<Longrightarrow> sendable ((withTrailers tr (errorReply e))\<lparr>gCallID := cid\<rparr>)"
    "validJson v \<Longrightarrow> sendable ((withTrailers tr (zeroRFrame\<lparr>gKind := ''call.result'', gPayload := Some (encodeJson v)\<rparr>))\<lparr>gCallID := cid\<rparr>)"
    "sendable ((withTrailers tr (zeroRFrame\<lparr>gKind := ''call.result''\<rparr>))\<lparr>gCallID := cid\<rparr>)"
proof -
  note d = assms zeroRFrame_def wireFrame_def passes.simps errorReply_def withTrailers_def
  show "wireErrorOk (wirePayload e) \<Longrightarrow> reCode e \<noteq> [] \<Longrightarrow> sendable ((withTrailers tr (errorReply e))\<lparr>gCallID := cid\<rparr>)"
    by (rule sendableI [of None]) (simp_all add: d, simp add: wirePayload_def)
  show "validJson v \<Longrightarrow> sendable ((withTrailers tr (zeroRFrame\<lparr>gKind := ''call.result'', gPayload := Some (encodeJson v)\<rparr>))\<lparr>gCallID := cid\<rparr>)"
    by (rule sendableI [of "Some v"]) (simp_all add: d)
  show "sendable ((withTrailers tr (zeroRFrame\<lparr>gKind := ''call.result''\<rparr>))\<lparr>gCallID := cid\<rparr>)"
    by (rule sendableI [of None]) (simp_all add: d)
qed


definition demoWireInfo :: callInfo where
  "demoWireInfo = \<lparr>inService = ''s'', inMethod = ''m'', inStream = ''unary'',
     inOptions = zeroOptions\<lparr>opTimeout := second, opIdempotencyKey := ''k'', opMetadata := [(''a'', ''b''), (''c'', ''d'')]\<rparr>\<rparr>"


section \<open>What the Router may assume of a decoded frame\<close>

definition numbersFit :: "frame \<Rightarrow> bool" where
  "numbersFit f \<longleftrightarrow> list_all int64Field [fTimeoutMS f, fIdleTimeout f, fSequence f, fCredit f, Some (fMaxInflight f)]"

lemma findField_in: "findField fs k = Some st \<Longrightarrow> st \<in> snd ` set fs"
  by (induction fs) (auto split: if_splits)

lemma decodeStruct_keeps:
  assumes "\<And>st raw v x. st \<in> snd ` set fs \<Longrightarrow> P x \<Longrightarrow> P (fst (st raw v x))"
  shows "P x \<Longrightarrow> P (fst (decodeStruct fs ms x))"
proof (induction ms arbitrary: x)
  case (Cons m ms)
  obtain k raw v where m: "m = (k, raw, v)" by (cases m)
  show ?case
  proof (cases "findField fs k")
    case (Some st)
    obtain y ok where y: "st raw v x = (y, ok)" by fastforce
    have "P y" using assms [OF findField_in [OF Some] Cons(2), of raw v] y by simp
    then show ?thesis using Cons(1) [of y] m Some y by (cases "decodeStruct fs ms y") simp
  qed (use Cons m in auto)
qed simp

lemma parseInt64_fits: "parseInt64 t = Some i \<Longrightarrow> - maxInt64 - 1 \<le> i \<and> i \<le> maxInt64"
  by (auto simp: parseInt64_def Let_def split: if_splits)

lemma intVal_fits: "int64Field (Some old) \<Longrightarrow> int64Field (Some (fst (intVal v old)))"
  using parseInt64_fits by (auto simp: intVal_def split: json.splits option.splits)

lemma optIntVal_fits: "int64Field old \<Longrightarrow> int64Field (fst (optIntVal v old))"
proof -
  assume "int64Field old"
  then have o: "int64Field (Some (case old of Some i \<Rightarrow> i | None \<Rightarrow> 0))" by (cases old) (simp_all add: maxInt64_def)
  show ?thesis
  proof (cases "v = JNull")
    case False
    then have "fst (optIntVal v old) = Some (fst (intVal v (case old of Some i \<Rightarrow> i | None \<Rightarrow> 0)))"
      by (cases v) (simp_all add: optIntVal_def case_prod_unfold)
    then show ?thesis using intVal_fits [OF o] by simp
  qed (simp add: optIntVal_def)
qed

lemma frameFields_fit:
  assumes "st \<in> snd ` set frameFields" "numbersFit x"
  shows "numbersFit (fst (st raw v x))"
proof -
  have i: "int64Field (fTimeoutMS x)" "int64Field (fIdleTimeout x)" "int64Field (fSequence x)" "int64Field (fCredit x)" "int64Field (Some (fMaxInflight x))"
    using assms(2) by (simp_all add: numbersFit_def)
  then have j: "int64Field (fst (optIntVal v (fTimeoutMS x)))" "int64Field (fst (optIntVal v (fIdleTimeout x)))" "int64Field (fst (optIntVal v (fSequence x)))"
    "int64Field (fst (optIntVal v (fCredit x)))" "int64Field (Some (fst (intVal v (fMaxInflight x))))"
    using optIntVal_fits intVal_fits by blast+
  show ?thesis using assms(1) i j unfolding frameFields_def list.set image_insert image_empty snd_conv insert_iff empty_iff
    by (elim disjE) (simp_all add: numbersFit_def)
qed

text \<open>
  C37.  A decoded frame is well typed.  When the Router's \<^verbatim>\<open>decode\<close> returns without an error, the frame has the
  fields its kind needs: a call id on every call frame; service, method, payload, positive timeouts and a short
  idempotency key on \<^verbatim>\<open>call.open\<close>; a code on \<^verbatim>\<open>call.error\<close>; a direction, and a sequence number from zero or a
  positive credit, on stream frames; a name and services on a registration; every number is within 64 bits; and
  the bytes it was read from are kept.
\<close>

theorem decoded_frames_are_typed:
  assumes "decode data = (f, None)"
  shows "wfFrame f \<and> numbersFit f \<and> fraw f = Some data"
proof -
  obtain v rest g where g: "structVal frameFields data v zeroFrame = (g, True)" "checkFrame data g = None"
    "List.member callKinds (fKind g) \<Longrightarrow> fCallID g \<noteq> []" "f = g\<lparr>fraw := Some data\<rparr>" using decode_Some [OF assms] by blast
  have "numbersFit zeroFrame" by (simp add: numbersFit_def zeroFrame_def maxInt64_def)
  moreover from this have "numbersFit (fst (decodeStruct frameFields ms zeroFrame))" for ms
    by (rule decodeStruct_keeps [rotated]) (rule frameFields_fit)
  ultimately have "numbersFit (fst (structVal frameFields data v zeroFrame))" by (simp add: structVal_def split: json.splits)
  moreover have "wfFrame g" by (rule checkFrame_wf [OF g(2,3)])
  ultimately show ?thesis using g(1,4) by (simp add: wfFrame_def numbersFit_def)
qed

theorem decoded_frames_are_typed_witness: "\<exists>data f. decode data = (f, None) \<and> fCredit f = Some 3 \<and> wfFrame f"
proof -
  have "validText ''c''" by (rule validText_ascii) (simp add: byte_def)
  then have "sendable (windowFor ''c'' ''server'' 3)" by (intro sendable_client(3)) (simp_all add: maxInt64_def)
  from sendable_accepted [OF this] obtain data where d: "decode data = ((routerView (windowFor ''c'' ''server'' 3))\<lparr>fraw := Some data\<rparr>, None)" by blast
  have "fCredit ((routerView (windowFor ''c'' ''server'' 3))\<lparr>fraw := Some data\<rparr>) = Some 3" by (simp add: routerView_def windowFor_def)
  then show ?thesis using d decoded_frames_are_typed [OF d] by blast
qed

end
