(* ===== verification/Service_Decl.thy ===== *)
theory Service_Decl
  imports Server_Call Router_Core
begin

text \<open>
  Declaring services in the Go runtime (\<^verbatim>\<open>meshcall-go/service.go\<close> and \<^verbatim>\<open>diagnostics.go\<close>): the name rules
  and options of \<^verbatim>\<open>NewService\<close>, the methods \<^verbatim>\<open>HandleUnary\<close> and its siblings add, the advisory warnings, and
  the registration a server sends to a Router.

  \<^item> A declaration that panics is an \<open>Inl\<close> with the reason.
  \<^item> A \<^verbatim>\<open>reflect.Type\<close> is what the declarations read of it: whether it is a struct behind pointers, and its
    package.  The schemas, the parameter names and the decoding of requests rest on reflection and are not
    modelled; the contract text of \<^verbatim>\<open>Service.Contract\<close> is an argument.
  \<^item> The four regular expressions for name segments are the ones of the Router, so the predicates of
    \<open>Names\<close> serve for both.
  \<^item> A warning keeps its code, subject and message; the two texts of advice are left out.
\<close>

section \<open>Balance policies\<close>

definition RoundRobin :: balance where "RoundRobin = \<lparr>bKind = ''round_robin'', bKey = None\<rparr>"
definition LeastInflight :: balance where "LeastInflight = \<lparr>bKind = ''least_inflight'', bKey = None\<rparr>"
definition RandomPolicy :: balance where "RandomPolicy = \<lparr>bKind = ''random'', bKey = None\<rparr>"
definition NoBalancing :: balance where "NoBalancing = \<lparr>bKind = ''disabled'', bKey = None\<rparr>"

definition Sticky :: "string \<Rightarrow> balance" where
  "Sticky field = \<lparr>bKind = ''sticky'', bKey = Some (''request.'' @ field)\<rparr>"

section \<open>Service names\<close>

datatype nameError = TwoVersions | BadSegment string | NoNames

text \<open>The loop of \<^verbatim>\<open>normalizeServiceName\<close>: the segments still to read, those kept, the version (empty until
  one is found) and the number of names.\<close>

fun normalizeLoop :: "string list \<Rightarrow> string list \<Rightarrow> string \<Rightarrow> nat \<Rightarrow> nameError + (string list \<times> string \<times> nat)" where
  "normalizeLoop [] kept version names = Inr (kept, version, names)"
| "normalizeLoop (s # ss) kept version names =
     (if majorSegment s then
        (if version \<noteq> [] then Inl TwoVersions
         else if groupRest ss = 2
           then normalizeLoop (drop (groupRest ss) ss) (kept @ s # take 2 ss) (tl s @ ''.'' @ ss ! 0 @ ''.'' @ ss ! 1) names
         else normalizeLoop (drop (groupRest ss) ss) (kept @ [s]) (tl s) names)
      else if \<not> nameSegment s then Inl (BadSegment s)
      else normalizeLoop ss (kept @ [s]) version (Suc names))"

definition normalizeServiceName :: "string \<Rightarrow> nameError + string \<times> string" where
  "normalizeServiceName name = (case normalizeLoop (splitOn CHR ''.'' name) [] [] 0 of
      Inl e \<Rightarrow> Inl e
    | Inr (kept, version, names) \<Rightarrow>
        if names = 0 then Inl NoNames
        else if version = [] then Inr (joinWith ''.'' (kept @ [''v0'']), ''0'')
        else Inr (joinWith ''.'' kept, version))"

section \<open>Methods\<close>

datatype goType = StructT string string | PointerT goType | OtherT string

fun structType :: "goType \<Rightarrow> (string \<times> string) option" where
  "structType (PointerT t) = structType t"
| "structType (StructT pkg name) = Some (pkg, name)"
| "structType (OtherT _) = None"

record methodOptions =
  moDescription :: "string option"
  moIdempotent :: bool
  moReadOnly :: bool
  moDestructive :: bool
  moDeprecated :: "string option"
  moBalance :: "balance option"

definition noOptions :: methodOptions where
  "noOptions = \<lparr>moDescription = None, moIdempotent = False, moReadOnly = False, moDestructive = False,
     moDeprecated = None, moBalance = None\<rparr>"

datatype methodOption = Doc string | Idempotent | ReadOnly | Destructive | Deprecated string | Balanced balance

fun applyMethodOption :: "methodOption \<Rightarrow> methodOptions \<Rightarrow> methodOptions" where
  "applyMethodOption (Doc text) o1 = o1\<lparr>moDescription := Some text\<rparr>"
| "applyMethodOption Idempotent o1 = o1\<lparr>moIdempotent := True\<rparr>"
| "applyMethodOption ReadOnly o1 = o1\<lparr>moReadOnly := True, moIdempotent := True\<rparr>"
| "applyMethodOption Destructive o1 = o1\<lparr>moDestructive := True\<rparr>"
| "applyMethodOption (Deprecated replacement) o1 = o1\<lparr>moDeprecated := Some replacement\<rparr>"
| "applyMethodOption (Balanced p) o1 = o1\<lparr>moBalance := Some p\<rparr>"

text \<open>\<^verbatim>\<open>streamKind\<close>, the four shapes of a method.\<close>

datatype shape = UnaryShape | ServerStreamShape | ClientStreamShape | DuplexShape

fun shapeText :: "shape \<Rightarrow> string" where
  "shapeText UnaryShape = ''unary''"
| "shapeText ServerStreamShape = ''server_stream''"
| "shapeText ClientStreamShape = ''client_stream''"
| "shapeText DuplexShape = ''duplex''"

record declMethod =
  dmName :: string
  dmStream :: shape
  dmRequest :: "goType option"
  dmResponse :: "goType option"
  dmInput :: "goType option"
  dmOutput :: "goType option"
  dmReflected :: bool
  dmOpts :: methodOptions
  dmDuplexReason :: string

record declService =
  dsName :: string
  dsVersion :: string
  dsDescription :: "string option"
  dsTargeted :: bool
  dsBalance :: balance
  dsModule :: string
  dsMethods :: "declMethod list"
  dsByName :: "(string, declMethod) gomap"
  dsMethodOpts :: "(string, methodOption list) gomap"

section \<open>Services\<close>

datatype serviceOption =
    Describe string
  | Targeted
  | DefaultBalance balance
  | SourceModule string
  | WithMethodOptions string "methodOption list"

fun applyService :: "serviceOption \<Rightarrow> declService \<Rightarrow> declService" where
  "applyService (Describe text) d = d\<lparr>dsDescription := Some text\<rparr>"
| "applyService Targeted d = d\<lparr>dsTargeted := True\<rparr>"
| "applyService (DefaultBalance p) d = d\<lparr>dsBalance := p\<rparr>"
| "applyService (SourceModule mo) d = d\<lparr>dsModule := mo\<rparr>"
| "applyService (WithMethodOptions name opts) d = d\<lparr>dsMethodOpts :=
     AList.update name ((case map_of (dsMethodOpts d) name of None \<Rightarrow> [] | Some old \<Rightarrow> old) @ opts) (dsMethodOpts d)\<rparr>"

datatype declError =
    BadServiceName nameError
  | BadMethodName string
  | DeclaredTwice string
  | ReadOnlyAndDestructive string
  | DuplexReplayed string
  | NotAStruct string goType
  | NoDuplexReason

text \<open>A nil option is skipped.\<close>

definition NewService :: "string \<Rightarrow> serviceOption option list \<Rightarrow> declError + declService" where
  "NewService name opts = (case normalizeServiceName name of
      Inl e \<Rightarrow> Inl (BadServiceName e)
    | Inr (full, version) \<Rightarrow>
        Inr (fold (\<lambda>opt d. case opt of None \<Rightarrow> d | Some x \<Rightarrow> applyService x d) opts
          \<lparr>dsName = full, dsVersion = version, dsDescription = None, dsTargeted = False, dsBalance = RoundRobin, dsModule = [],
           dsMethods = [], dsByName = [], dsMethodOpts = []\<rparr>))"

definition methodNameOk :: "string \<Rightarrow> bool" where
  "methodNameOk s = (case s of [] \<Rightarrow> False | c # cs \<Rightarrow> (isLetter c \<or> c = CHR ''_'') \<and> list_all nameChar cs)"

definition notStruct :: "declMethod \<Rightarrow> goType option" where
  "notStruct m = find (\<lambda>t. structType t = None)
     (concat (map (\<lambda>t. case t of None \<Rightarrow> [] | Some x \<Rightarrow> [x]) [dmRequest m, dmResponse m, dmInput m, dmOutput m]))"

definition addMethod :: "declMethod \<Rightarrow> methodOption list \<Rightarrow> declService \<Rightarrow> declError + declService" where
  "addMethod m0 opts d =
     (let m = m0\<lparr>dmOpts := fold applyMethodOption opts (dmOpts m0)\<rparr>; o1 = dmOpts m in
      if \<not> methodNameOk (dmName m) then Inl (BadMethodName (dmName m))
      else if map_of (dsByName d) (dmName m) \<noteq> None then Inl (DeclaredTwice (dmName m))
      else if moReadOnly o1 \<and> moDestructive o1 then Inl (ReadOnlyAndDestructive (dmName m))
      else if dmStream m = DuplexShape \<and> (moIdempotent o1 \<or> moReadOnly o1) then Inl (DuplexReplayed (dmName m))
      else (case (if dmReflected m then None else notStruct m) of
          Some t \<Rightarrow> Inl (NotAStruct (dmName m) t)
        | None \<Rightarrow>
            Inr (d\<lparr>dsModule := (if dmReflected m \<or> dsModule d \<noteq> [] then dsModule d
                      else (case dmRequest m of None \<Rightarrow> dsModule d
                        | Some t \<Rightarrow> (case structType t of None \<Rightarrow> dsModule d | Some (pkg, _) \<Rightarrow> pkg))),
                   dsMethods := dsMethods d @ [m], dsByName := AList.update (dmName m) m (dsByName d)\<rparr>)))"

definition plainMethod :: "string \<Rightarrow> shape \<Rightarrow> goType \<Rightarrow> declMethod" where
  "plainMethod name sh req = \<lparr>dmName = name, dmStream = sh, dmRequest = Some req, dmResponse = None, dmInput = None,
     dmOutput = None, dmReflected = False, dmOpts = noOptions, dmDuplexReason = []\<rparr>"

definition HandleUnary :: "goType \<Rightarrow> goType \<Rightarrow> string \<Rightarrow> methodOption list \<Rightarrow> declService \<Rightarrow> declError + declService" where
  "HandleUnary req resp name = addMethod ((plainMethod name UnaryShape req)\<lparr>dmResponse := Some resp\<rparr>)"

definition HandleServerStream :: "goType \<Rightarrow> goType \<Rightarrow> string \<Rightarrow> methodOption list \<Rightarrow> declService \<Rightarrow> declError + declService" where
  "HandleServerStream req item name = addMethod ((plainMethod name ServerStreamShape req)\<lparr>dmOutput := Some item\<rparr>)"

definition HandleClientStream ::
    "goType \<Rightarrow> goType \<Rightarrow> goType \<Rightarrow> string \<Rightarrow> methodOption list \<Rightarrow> declService \<Rightarrow> declError + declService" where
  "HandleClientStream req item resp name =
     addMethod ((plainMethod name ClientStreamShape req)\<lparr>dmInput := Some item, dmResponse := Some resp\<rparr>)"

definition HandleDuplex ::
    "goType \<Rightarrow> goType \<Rightarrow> goType \<Rightarrow> string \<Rightarrow> string \<Rightarrow> methodOption list \<Rightarrow> declService \<Rightarrow> declError + declService" where
  "HandleDuplex req inn out name reason opts d =
     (if trimSpace reason = [] then Inl NoDuplexReason
      else addMethod ((plainMethod name DuplexShape req)\<lparr>dmInput := Some inn, dmOutput := Some out,
             dmDuplexReason := trimSpace reason\<rparr>) opts d)"

section \<open>Registration\<close>

definition methodBalance :: "declService \<Rightarrow> declMethod \<Rightarrow> balance" where
  "methodBalance d m = (case moBalance (dmOpts m) of Some b \<Rightarrow> b | None \<Rightarrow> dsBalance d)"

definition serviceRegistration :: "(declService \<Rightarrow> string) \<Rightarrow> declService \<Rightarrow> wireService" where
  "serviceRegistration contractOf d = \<lparr>sName = dsName d,
     sMethods = map (\<lambda>m. \<lparr>mName = dmName m, mStream = shapeText (dmStream m), mBalance = methodBalance d m\<rparr>) (dsMethods d),
     sTargeted = dsTargeted d, sContract = Some (contractOf d)\<rparr>"

section \<open>Warnings\<close>

record contractWarning =
  cwCode :: string
  cwSubject :: string
  cwMessage :: string

definition mutatingWords :: "string list" where
  "mutatingWords = [''create'', ''add'', ''insert'', ''update'', ''set'', ''put'', ''patch'', ''delete'', ''remove'', ''drop'', ''clear'',
     ''reset'', ''send'', ''post'', ''write'', ''save'', ''upload'', ''cancel'', ''revoke'', ''issue'', ''register'', ''unregister'',
     ''start'', ''stop'', ''restart'', ''apply'', ''assign'', ''move'', ''rename'', ''archive'', ''restore'', ''purge'']"

definition readingWords :: "string list" where
  "readingWords = [''get'', ''list'', ''read'', ''fetch'', ''find'', ''search'', ''query'', ''count'', ''describe'', ''show'', ''check'',
     ''is'', ''has'', ''exists'', ''lookup'', ''peek'', ''preview'', ''validate'', ''estimate'', ''stream'', ''watch'']"

text \<open>\<^verbatim>\<open>^(word|\<dots>)(_|$)\<close>.\<close>

definition startsWithWord :: "string list \<Rightarrow> string \<Rightarrow> bool" where
  "startsWithWord ws name = list_ex (\<lambda>w. name = w \<or> hasPrefix name (w @ ''_'')) ws"

definition lintMethod :: "declService \<Rightarrow> declMethod \<Rightarrow> contractWarning list" where
  "lintMethod d m =
     (let subject = dsName d @ ''.'' @ dmName m; o1 = dmOpts m;
          annotated = (moIdempotent o1 \<or> moReadOnly o1 \<or> moDestructive o1);
          w = (\<lambda>code message. \<lparr>cwCode = code, cwSubject = subject, cwMessage = message\<rparr>) in
      (if moDescription o1 = None then [w ''W001'' ''method has no description''] else []) @
      (if startsWithWord mutatingWords (dmName m) \<and> \<not> annotated
       then [w ''W002'' ''name suggests side effects but the method has no annotation''] else []) @
      (if moReadOnly o1 \<and> startsWithWord mutatingWords (dmName m)
       then [w ''W003'' ''ReadOnly() on a method whose name suggests mutation''] else []) @
      (if moDestructive o1 \<and> startsWithWord readingWords (dmName m)
       then [w ''W003'' ''Destructive() on a method whose name suggests a read''] else []) @
      (if moDeprecated o1 = Some [] then [w ''W005'' ''deprecated without naming a replacement''] else []) @
      (if dsTargeted d \<and> bKind (methodBalance d m) = ''sticky''
       then [w ''W006'' ''sticky balancing on a targeted service is never used''] else []))"

definition LintService :: "declService \<Rightarrow> contractWarning list" where
  "LintService d =
     (if dsDescription d = None then [\<lparr>cwCode = ''W001'', cwSubject = dsName d, cwMessage = ''service has no description''\<rparr>] else []) @
     concat (map (lintMethod d) (dsMethods d))"

text \<open>\<open>env\<close> is the value of the environment variable.\<close>

definition strictMode :: "string \<Rightarrow> bool" where
  "strictMode env = List.member [''1'', ''true'', ''yes'', ''on''] (map asciiLower (trimSpace env))"

definition withoutIgnored :: "string \<Rightarrow> contractWarning list \<Rightarrow> contractWarning list" where
  "withoutIgnored env findings =
     (let ignored = filter (\<lambda>c. c \<noteq> []) (map (\<lambda>c. map asciiUpper (trimSpace c)) (splitOn CHR '','' env)) in
      filter (\<lambda>f. \<not> List.member ignored (cwCode f)) findings)"

section \<open>Normalised names\<close>

lemma splitOn_parts: "splitOn c (a @ c # b) = splitOn c a @ splitOn c b"
  by (induction a) (auto split: list.splits)

lemma joinWith_snoc: "xs \<noteq> [] \<Longrightarrow> joinWith sep (xs @ [y]) = joinWith sep xs @ sep @ y"
proof (induction xs)
  case (Cons x xs)
  then show ?case by (cases xs) auto
qed simp

lemma major_version: "majorSegment s \<Longrightarrow> tl s \<noteq> []"
  by (auto simp: majorSegment_def numericSegment_def split: list.splits)

lemma groupRest_cases: "groupRest ss = 0 \<or> (groupRest ss = 2 \<and> length ss \<ge> 2)"
  by (auto simp: groupRest_def split: list.splits)

lemma loop_scan:
  "normalizeLoop ss kept ver n = Inr (k, ver', n') \<Longrightarrow>
     k = kept @ ss \<and> scanSegments ss (if ver = [] then 0 else 1) n = Some (if ver' = [] then 0 else 1, n')"
proof (induction ss kept ver n rule: normalizeLoop.induct)
  case (2 s ss kept ver n)
  show ?case
  proof (cases "majorSegment s")
    case True
    note tl = major_version [OF True]
    have v: "ver = []" using 2(4) True by (simp split: if_splits)
    from groupRest_cases [of ss] show ?thesis
    proof
      assume g: "groupRest ss = 0"
      then show ?thesis using 2(2) [OF True] 2(4) True v tl by simp
    next
      assume g: "groupRest ss = 2 \<and> length ss \<ge> 2"
      then show ?thesis using 2(1) [OF True] 2(4) True v tl by simp
    qed
  next
    case False
    then show ?thesis using 2(3) [OF False] 2(4) by (simp split: if_splits)
  qed
qed simp

lemma scan_loop:
  "scanSegments ss (if ver = [] then 0 else 1) n = Some (v, n') \<Longrightarrow> v \<le> 1 \<Longrightarrow>
     \<exists>ver'. normalizeLoop ss kept ver n = Inr (kept @ ss, ver', n') \<and> (ver' = [] \<longleftrightarrow> v = 0)"
proof (induction ss kept ver n rule: normalizeLoop.induct)
  case (1 kept ver n)
  then show ?case by (auto split: if_splits)
next
  case (2 s ss kept ver n)
  show ?case
  proof (cases "majorSegment s")
    case True
    note tl = major_version [OF True]
    have v: "ver = []" using 2(4,5) True scan_count [of "drop (groupRest ss) ss" 2 n v n'] by (cases ver) (auto simp: numeral_2_eq_2)
    from groupRest_cases [of ss] show ?thesis
    proof
      assume g: "groupRest ss = 0"
      then show ?thesis using 2(2) [OF True] 2(4,5) True v tl by simp
    next
      assume g: "groupRest ss = 2 \<and> length ss \<ge> 2"
      then show ?thesis using 2(1) [OF True] 2(4,5) True v tl by simp
    qed
  next
    case False
    then show ?thesis using 2(3) [OF False] 2(4,5) by (simp split: if_splits)
  qed
qed

lemma scan_v0:
  "scanSegments (ss @ [''v0'']) 0 0 = Some (1, n) \<longleftrightarrow> scanSegments ss 0 0 = Some (0, n)"
proof
  assume a: "scanSegments (ss @ [''v0'']) 0 0 = Some (1, n)"
  then obtain pre vs post where e: "ss @ [''v0''] = pre @ vs @ post" "list_all plainName (pre @ post)" "versionGroup vs"
    using scan_one_version [of "ss @ [''v0'']" 0 0 n] by auto
  have v0: "majorSegment ''v0''" "\<not> patchSegment ''v0''" by code_simp+
  have "post = []"
  proof (rule ccontr)
    assume "post \<noteq> []"
    then have "last post = ''v0''" using e(1) by (metis append_is_Nil_conv last_appendR last_snoc)
    then show False using e(2) last_in_set [OF \<open>post \<noteq> []\<close>] v0(1) by (auto simp: list_all_iff plainName_def)
  qed
  moreover have "vs = [''v0'']"
  proof -
    have "vs \<noteq> []" using e(3) by (auto simp: versionGroup_def)
    then have "last vs = ''v0''" using e(1) \<open>post = []\<close> by (metis append_Nil2 last_appendR last_snoc)
    then show ?thesis using e(3) v0(2) by (auto simp: versionGroup_def split: list.splits)
  qed
  ultimately have p: "list_all plainName ss" using e(1,2) by simp
  show "scanSegments ss 0 0 = Some (0, n)"
    using a scan_plain [OF p, of "[]" 0 0] scan_plain [OF p, of "[''v0'']" 0 0] v0 by (simp add: groupRest_def)
next
  assume a: "scanSegments ss 0 0 = Some (0, n)"
  then have p: "list_all plainName ss" by (rule scan_plain_only)
  have v0: "majorSegment ''v0''" by code_simp
  show "scanSegments (ss @ [''v0'']) 0 0 = Some (1, n)"
    using a scan_plain [OF p, of "[]" 0 0] scan_plain [OF p, of "[''v0'']" 0 0] v0 by (simp add: groupRest_def)
qed

lemma splitOn_v0: "splitOn CHR ''.'' (name @ ''.v0'') = splitOn CHR ''.'' name @ [''v0'']"
  using splitOn_parts [of "CHR ''.''" name "''v0''"] by simp

lemma normalize_iff:
  "(\<exists>version. normalizeServiceName name = Inr (full, version)) \<longleftrightarrow>
     validServiceName full \<and> (full = name \<or> full = name @ ''.v0'')"
proof
  assume "\<exists>version. normalizeServiceName name = Inr (full, version)"
  then obtain version where "normalizeServiceName name = Inr (full, version)" ..
  then obtain kept ver n where l: "normalizeLoop (splitOn CHR ''.'' name) [] [] 0 = Inr (kept, ver, n)" "n > 0"
    and f: "full = joinWith ''.'' (if ver = [] then kept @ [''v0''] else kept)"
    by (auto simp: normalizeServiceName_def split: sum.splits if_splits)
  have k: "kept = splitOn CHR ''.'' name"
    and s: "scanSegments (splitOn CHR ''.'' name) 0 0 = Some (if ver = [] then 0 else 1, n)"
    using loop_scan [OF l(1)] by simp_all
  show "validServiceName full \<and> (full = name \<or> full = name @ ''.v0'')"
  proof (cases "ver = []")
    case True
    then have "full = name @ ''.v0''" using f k by (simp add: joinWith_snoc join_splitOn)
    moreover have "validServiceName (name @ ''.v0'')"
      using s True l(2) scan_v0 [of "splitOn CHR ''.'' name" n] by (simp add: validServiceName_def splitOn_v0)
    ultimately show ?thesis by simp
  next
    case False
    then have "full = name" using f k by (simp add: join_splitOn)
    moreover have "validServiceName name" using s False l(2) by (simp add: validServiceName_def)
    ultimately show ?thesis by simp
  qed
next
  assume a: "validServiceName full \<and> (full = name \<or> full = name @ ''.v0'')"
  then obtain n where s: "scanSegments (splitOn CHR ''.'' full) 0 0 = Some (1, n)" "n > 0"
    by (auto simp: validServiceName_def split: option.splits)
  from a consider "full = name" | "full = name @ ''.v0''" by blast
  then show "\<exists>version. normalizeServiceName name = Inr (full, version)"
  proof cases
    case 1
    then show ?thesis using scan_loop [of "splitOn CHR ''.'' name" "[]" 0 1 n "[]"] s
      by (auto simp: normalizeServiceName_def join_splitOn)
  next
    case 2
    then have "scanSegments (splitOn CHR ''.'' name) 0 0 = Some (0, n)" using s scan_v0 by (simp add: splitOn_v0)
    then show ?thesis using scan_loop [of "splitOn CHR ''.'' name" "[]" 0 0 n "[]"] s 2
      by (auto simp: normalizeServiceName_def join_splitOn joinWith_snoc)
  qed
qed

end
