(* ===== verification/Server_Life.thy ===== *)
theory Server_Life
  imports Service_Decl Client
begin

text \<open>
  The life of a Go server (\<^verbatim>\<open>meshcall-go/server.go\<close>, from \<^verbatim>\<open>NewServer\<close> to \<^verbatim>\<open>Close\<close>): its services, its links to
  Routers with their handshake and their supervision, direct clients, draining and closing.  The sessions and
  calls it holds are those of \<open>Server_Call\<close>.

  \<^item> What the network answers is an argument: the outcome of \<^verbatim>\<open>endpoint.connect\<close> and the frames read during a
    handshake.  A handshake reads only the options of the server; the state is read and changed at its end, under
    the mutex, so \<open>registerLink\<close> acts on the state of that moment.
  \<^item> A goroutine that supervises a link is a sequence of \<open>superviseAttempt\<close> and \<open>linkLost\<close>, other operations
    coming between them.
  \<^item> What the operating system answers when a listening socket is opened is an argument; removing a socket's file and
    logging are not modelled.
\<close>

section \<open>Options and state\<close>

record serverOptions =
  soServices :: "declService list"
  soInstanceID :: string
  soMaxInflight :: int
  soPingInterval :: time
  soPingTimeout :: time
  soReconnect :: reconnectPolicy
  soIdleTimeout :: time
  soMaxFrameSize :: int
  soStrict :: bool

record routerLink =
  rlEndpoint :: endpoint
  rlSession :: "addr option"     \<comment> \<open>set only while registered\<close>

record liveServer =
  lvOpts :: serverOptions
  lvServer :: goServer
  lvLinks :: "routerLink list"
  lvListening :: bool
  lvDraining :: bool
  lvClosed :: bool
  lvStopped :: bool              \<comment> \<open>the server's context is cancelled\<close>

datatype serverError = NoServices | DuplicateService string | NoMethods string | StrictWarnings "contractWarning list"

definition serverDefaults :: "string \<Rightarrow> serverOptions \<Rightarrow> serverOptions" where
  "serverDefaults rid opts =
     opts\<lparr>soInstanceID := (if soInstanceID opts = [] then rid else soInstanceID opts),
       soPingInterval := (if soPingInterval opts = 0 then DefaultPingInterval else soPingInterval opts),
       soPingTimeout := (if soPingTimeout opts = 0 then DefaultPingTimeout else soPingTimeout opts),
       soIdleTimeout := (if soIdleTimeout opts = 0 then DefaultIdleTimeout else soIdleTimeout opts),
       soMaxFrameSize := (if soMaxFrameSize opts = 0 then DefaultMaxFrameSize else soMaxFrameSize opts)\<rparr>"

definition servedMethod :: "declMethod \<Rightarrow> serverMethod" where
  "servedMethod m = \<lparr>smName = dmName m, smStream = shapeText (dmStream m), smResponse = (dmResponse m \<noteq> None),
     smInput = (dmInput m \<noteq> None), smOutput = (dmOutput m \<noteq> None)\<rparr>"

definition servedService :: "declService \<Rightarrow> serverService" where
  "servedService d = \<lparr>ssTargeted = dsTargeted d, ssMethods = map (\<lambda>(k, m). (k, servedMethod m)) (dsByName d)\<rparr>"

text \<open>The loop over the services: the table and the findings, or the first refusal.\<close>

fun collectServices :: "declService list \<Rightarrow> (string, serverService) gomap \<Rightarrow> contractWarning list \<Rightarrow>
    serverError + (string, serverService) gomap \<times> contractWarning list" where
  "collectServices [] tbl findings = Inr (tbl, findings)"
| "collectServices (d # ds) tbl findings =
     (if map_of tbl (dsName d) \<noteq> None then Inl (DuplicateService (dsName d))
      else if dsMethods d = [] then Inl (NoMethods (dsName d))
      else collectServices ds (AList.update (dsName d) (servedService d) tbl) (findings @ LintService d))"

definition noSession :: session where
  "noSession = \<lparr>seConn = newConn 0 0, seCalls = [], seDrainAcks = 0, seAcked = 0\<rparr>"

definition noMethod :: serverMethod where
  "noMethod = \<lparr>smName = [], smStream = [], smResponse = False, smInput = False, smOutput = False\<rparr>"

text \<open>\<open>rid\<close> is the random instance id, \<open>strict\<close> and \<open>ignore\<close> are the two environment variables.\<close>

definition NewServer :: "string \<Rightarrow> string \<Rightarrow> string \<Rightarrow> serverOptions \<Rightarrow> serverError + liveServer" where
  "NewServer rid strict ignore opts0 =
     (if soServices opts0 = [] then Inl NoServices
      else
        (let opts = serverDefaults rid opts0 in
         case collectServices (soServices opts) [] [] of
           Inl e \<Rightarrow> Inl e
         | Inr (tbl, found) \<Rightarrow>
             (let findings = withoutIgnored ignore found in
              if findings \<noteq> [] \<and> (soStrict opts \<or> strictMode strict) then Inl (StrictWarnings findings)
              else Inr \<lparr>lvOpts = opts,
                lvServer = \<lparr>svInstanceID = soInstanceID opts, svMaxInflight = soMaxInflight opts, svServices = tbl, svInflight = 0,
                  svSessions = [], svSession = (\<lambda>_. noSession), svCall = (\<lambda>_. newServerCall 0 zeroRFrame noMethod), svNext = 1\<rparr>,
                lvLinks = [], lvListening = False, lvDraining = False, lvClosed = False, lvStopped = False\<rparr>)))"

definition registrations :: "(declService \<Rightarrow> string) \<Rightarrow> liveServer \<Rightarrow> wireService list" where
  "registrations contractOf v = map (serviceRegistration contractOf) (soServices (lvOpts v))"

section \<open>Links to Routers\<close>

definition serverHello :: "serverOptions \<Rightarrow> rframe" where
  "serverHello opts = zeroRFrame\<lparr>gKind := ''hello'', gProtocol := ProtocolName, gRole := ''server'',
     gPeerID := soInstanceID opts, gInstanceID := soInstanceID opts\<rparr>"

definition registerFrame :: "(declService \<Rightarrow> string) \<Rightarrow> liveServer \<Rightarrow> rframe" where
  "registerFrame contractOf v = zeroRFrame\<lparr>gKind := ''server.register'', gInstanceID := soInstanceID (lvOpts v),
     gServices := registrations contractOf v, gMaxInflight := soMaxInflight (lvOpts v)\<rparr>"

definition helloAcked :: "goerr + rframe \<Rightarrow> bool" where
  "helloAcked r = (case r of Inl _ \<Rightarrow> False | Inr f \<Rightarrow> gKind f = ''hello.ack'' \<and> gProtocol f = ProtocolName)"

definition registerAcked :: "string \<Rightarrow> goerr + rframe \<Rightarrow> goerr option" where
  "registerAcked iid r = (case r of
      Inl err \<Rightarrow> Some err
    | Inr f \<Rightarrow> if gKind f = ''server.register.ack'' \<and> gInstanceID f = iid then None
        else Some (PlainErr ''meshcall: the Router refused the registration''))"

text \<open>The handshake on the wire: the connection after it, or the error that closed it.\<close>

definition linkHandshake :: "(declService \<Rightarrow> string) \<Rightarrow> goerr + conn \<Rightarrow> goerr + rframe \<Rightarrow> goerr + rframe \<Rightarrow> liveServer \<Rightarrow> goerr + conn" where
  "linkHandshake contractOf dial ack reg v = (case dial of
      Inl err \<Rightarrow> Inl err
    | Inr c \<Rightarrow> (case connSend (serverHello (lvOpts v)) c of
        (_, Some err) \<Rightarrow> Inl err
      | (c1, None) \<Rightarrow>
          if \<not> helloAcked ack then Inl (PlainErr ''meshcall: expected a compatible hello.ack from the Router'')
          else (case connSend (registerFrame contractOf v) c1 of
              (_, Some err) \<Rightarrow> Inl err
            | (c2, None) \<Rightarrow> (case registerAcked (soInstanceID (lvOpts v)) reg of
                Some err \<Rightarrow> Inl err
              | None \<Rightarrow> Inr c2))))"

definition registerLink :: "(declService \<Rightarrow> string) \<Rightarrow> nat \<Rightarrow> goerr + conn \<Rightarrow> goerr + rframe \<Rightarrow> goerr + rframe \<Rightarrow>
    liveServer \<Rightarrow> liveServer \<times> goerr option" where
  "registerLink contractOf i dial ack reg v = (case linkHandshake contractOf dial ack reg v of
      Inl err \<Rightarrow> (v, Some err)
    | Inr c \<Rightarrow> (case newSession c (lvServer v) of
        (sv, p) \<Rightarrow>
          if lvClosed v \<or> lvDraining v
          then (v\<lparr>lvServer := updSession p (\<lambda>s. s\<lparr>seConn := connClose (seConn s)\<rparr>) sv\<rparr>,
                Some (PlainErr ''meshcall: server is stopping''))
          else (v\<lparr>lvServer := sv, lvLinks := (lvLinks v)[i := (lvLinks v ! i)\<lparr>rlSession := Some p\<rparr>]\<rparr>, None)))"

fun registerLinks :: "(declService \<Rightarrow> string) \<Rightarrow> nat \<Rightarrow> ((goerr + conn) \<times> (goerr + rframe) \<times> (goerr + rframe)) list \<Rightarrow>
    liveServer \<Rightarrow> liveServer \<times> goerr option list" where
  "registerLinks contractOf i [] v = (v, [])"
| "registerLinks contractOf i ((dial, ack, reg) # outs) v = (case registerLink contractOf i dial ack reg v of
      (v1, err) \<Rightarrow> (case registerLinks contractOf (Suc i) outs v1 of (v2, errs) \<Rightarrow> (v2, err # errs)))"

fun parseEndpoints :: "bool \<Rightarrow> string list \<Rightarrow> string + endpoint list" where
  "parseEndpoints pipes [] = Inr []"
| "parseEndpoints pipes (raw # raws) = (case parseEndpoint pipes raw of
      Inl e \<Rightarrow> Inl e
    | Inr ep \<Rightarrow> (case parseEndpoints pipes raws of Inl e \<Rightarrow> Inl e | Inr eps \<Rightarrow> Inr (ep # eps)))"

text \<open>\<^verbatim>\<open>ConnectRouter\<close>: \<open>outs\<close> are the outcomes of the handshakes, one for each URL.  The last component lists, for
  each link, whether its supervision starts with the link down.\<close>

definition ConnectRouter :: "(declService \<Rightarrow> string) \<Rightarrow> bool \<Rightarrow> string list \<Rightarrow>
    ((goerr + conn) \<times> (goerr + rframe) \<times> (goerr + rframe)) list \<Rightarrow> liveServer \<Rightarrow> liveServer \<times> goerr option \<times> bool list" where
  "ConnectRouter contractOf pipes urls outs v =
     (if urls = [] then (v, Some (PlainErr ''meshcall: ConnectRouter needs a Router URL''), [])
      else (case parseEndpoints pipes urls of
          Inl e \<Rightarrow> (v, Some (PlainErr e), [])
        | Inr eps \<Rightarrow>
            (case registerLinks contractOf (length (lvLinks v)) outs
                    (v\<lparr>lvLinks := lvLinks v @ map (\<lambda>e. \<lparr>rlEndpoint = e, rlSession = None\<rparr>) eps\<rparr>) of
               (v1, errs) \<Rightarrow> (v1, (if None \<in> set errs then None else hd errs), map (\<lambda>e. e \<noteq> None) errs))))"

text \<open>After \<^verbatim>\<open>serve\<close> has returned; the result says whether the supervision ends.\<close>

definition linkLost :: "nat \<Rightarrow> liveServer \<Rightarrow> liveServer \<times> bool" where
  "linkLost i v = (v\<lparr>lvLinks := (lvLinks v)[i := (lvLinks v ! i)\<lparr>rlSession := None\<rparr>]\<rparr>, lvClosed v \<or> lvDraining v)"

datatype superviseOutcome = Serving | GaveUp | StoppedTrying | Retrying

text \<open>One pass of the inner loop of \<^verbatim>\<open>supervise\<close>: \<open>x\<close> is the state of the delays, \<open>r\<close> the random number, \<open>woken\<close> whether the
  server's context ended during the delay.\<close>

definition superviseAttempt :: "(declService \<Rightarrow> string) \<Rightarrow> nat \<Rightarrow> rat \<Rightarrow> bool \<Rightarrow> goerr + conn \<Rightarrow> goerr + rframe \<Rightarrow> goerr + rframe \<Rightarrow>
    time \<times> int \<Rightarrow> liveServer \<Rightarrow> liveServer \<times> (time \<times> int) \<times> superviseOutcome" where
  "superviseAttempt contractOf i r woken dial ack reg x v =
     (case nextDelay (reconnectDefaults (soReconnect (lvOpts v))) r x of
        (x1, None) \<Rightarrow> (v, x1, GaveUp)
      | (x1, Some _) \<Rightarrow>
          if woken then (v, x1, StoppedTrying)
          else (case registerLink contractOf i dial ack reg v of
              (v1, None) \<Rightarrow> (v1, x1, Serving)
            | (v1, Some _) \<Rightarrow> (v1, x1, if lvClosed v1 \<or> lvDraining v1 then StoppedTrying else Retrying)))"

section \<open>Direct clients\<close>

text \<open>\<^verbatim>\<open>Listen\<close>: \<open>absPath\<close> is \<^verbatim>\<open>filepath.Abs\<close>, \<open>taken\<close> whether \<^verbatim>\<open>os.Lstat\<close> finds anything but nothing at a path, and \<open>opened\<close> the
  error of making the directory or opening the socket.\<close>

definition listenCheck :: "bool \<Rightarrow> (string \<Rightarrow> goerr + string) \<Rightarrow> (string \<Rightarrow> bool) \<Rightarrow> string \<Rightarrow> goerr option" where
  "listenCheck pipes absPath taken bind =
     (if hasPrefix bind ''pipe://'' then
        (if \<not> pipes then Some (PlainErr ''named pipes are Windows-only; use a Unix socket (unix:///path)'')
         else (case pipeName (trimPrefix bind ''pipe://'') of Inl e \<Rightarrow> Some (PlainErr e) | Inr _ \<Rightarrow> None))
      else if hasPrefix bind ''unix://'' then
        (if pipes then Some (PlainErr ''Unix sockets are not supported on Windows; use a named pipe (pipe://NAME)'')
         else (case absPath (trimPrefix bind ''unix://'') of
             Inl err \<Rightarrow> Some err
           | Inr path \<Rightarrow>
               if length path > 103 then Some (PlainErr ''meshcall: Unix socket path exceeds the portable 103-byte limit'')
               else if taken path then Some (PlainErr (''meshcall: Unix socket path already exists or is inaccessible: '' @ path))
               else None))
      else None)"

definition Listen :: "bool \<Rightarrow> (string \<Rightarrow> goerr + string) \<Rightarrow> (string \<Rightarrow> bool) \<Rightarrow> goerr option \<Rightarrow> string \<Rightarrow> liveServer \<Rightarrow>
    liveServer \<times> goerr option" where
  "Listen pipes absPath taken opened bind v = (case listenCheck pipes absPath taken bind of
      Some err \<Rightarrow> (v, Some err)
    | None \<Rightarrow> (case opened of Some err \<Rightarrow> (v, Some err) | None \<Rightarrow> (v\<lparr>lvListening := True\<rparr>, None)))"

text \<open>\<^verbatim>\<open>accept\<close> up to \<^verbatim>\<open>serve\<close>: \<open>first\<close> is what was read within ten seconds, \<open>cid\<close> a random id.\<close>

definition acceptClient :: "string \<Rightarrow> goerr + rframe \<Rightarrow> conn \<Rightarrow> liveServer \<Rightarrow> liveServer \<times> addr option" where
  "acceptClient cid first c v = (case first of
      Inl _ \<Rightarrow> (v, None)
    | Inr f \<Rightarrow>
        if gKind f \<noteq> ''hello'' \<or> gRole f \<noteq> ''client'' \<or> gProtocol f \<noteq> ProtocolName then (v, None)
        else (case connSend (zeroRFrame\<lparr>gKind := ''hello.ack'', gProtocol := ProtocolName, gConnection := cid\<rparr>) c of
            (_, Some _) \<Rightarrow> (v, None)
          | (c1, None) \<Rightarrow> (case newSession c1 (lvServer v) of (sv, p) \<Rightarrow> (v\<lparr>lvServer := sv\<rparr>, Some p))))"

section \<open>Drain and close\<close>

definition drainStart :: "liveServer \<Rightarrow> liveServer" where
  "drainStart v = v\<lparr>lvDraining := True, lvListening := False\<rparr>"

text \<open>One link of \<^verbatim>\<open>Drain\<close>: the result is the session whose acknowledgement is awaited and the place in its
  queue of waiters, counted from the first.\<close>

definition drainLink :: "nat \<Rightarrow> liveServer \<Rightarrow> liveServer \<times> (addr \<times> nat) option" where
  "drainLink i v = (case rlSession (lvLinks v ! i) of
      None \<Rightarrow> (v, None)
    | Some p \<Rightarrow> (case sessionSend p (zeroRFrame\<lparr>gKind := ''server.drain''\<rparr>) (expectDrainAck p (lvServer v)) of
        (sv, None) \<Rightarrow> (v\<lparr>lvServer := sv\<rparr>, Some (p, seAcked (svSession sv p) + seDrainAcks (svSession sv p)))
      | (sv, Some _) \<Rightarrow> (v\<lparr>lvServer := sv\<rparr>, None)))"

text \<open>The wait for the acknowledgement, and one pass of the wait for the calls.\<close>

definition drainAwait :: "addr \<Rightarrow> nat \<Rightarrow> goerr option \<Rightarrow> liveServer \<Rightarrow> unit wait" where
  "drainAwait p place ended v =
     (if seAcked (svSession (lvServer v) p) \<ge> place \<or> ended \<noteq> None \<or> \<not> cnOpen (seConn (svSession (lvServer v) p))
      then Ready () else Blocked)"

definition drainPoll :: "goerr option \<Rightarrow> liveServer \<Rightarrow> goerr option wait" where
  "drainPoll ended v =
     (if svInflight (lvServer v) > 0 then (case ended of Some err \<Rightarrow> Ready (Some err) | None \<Rightarrow> Blocked) else Ready None)"

definition CloseServer :: "liveServer \<Rightarrow> liveServer" where
  "CloseServer v =
     (if lvClosed v then v
      else v\<lparr>lvClosed := True, lvStopped := True, lvListening := False,
        lvServer := fold (\<lambda>p. updSession p (\<lambda>s. s\<lparr>seConn := connClose (seConn s)\<rparr>)) (svSessions (lvServer v)) (lvServer v)\<rparr>)"

end
