(* ===== verification/Server_Props.thy ===== *)
theory Server_Props
  imports Server_Life
begin

text \<open>
  Services declared with the Go runtime at the Router: whatever \<^verbatim>\<open>NewService\<close>, the four \<^verbatim>\<open>Handle\<close> functions and
  \<^verbatim>\<open>NewServer\<close> accept has the names and methods the checks of the Router's \<^verbatim>\<open>register\<close> ask for; what those checks
  can still refuse is exactly a reserved or forbidden name and an incomplete balance policy.
\<close>

section \<open>Declared services\<close>

text \<open>A service as an application can build it.  The services of
  \<^verbatim>\<open>ReflectService\<close> take their name from the same function and their methods through \<^verbatim>\<open>add\<close> too.\<close>

inductive declared :: "declService \<Rightarrow> bool" where
  new: "NewService name opts = Inr d \<Longrightarrow> declared d"
| add: "declared d \<Longrightarrow> addMethod m opts d = Inr d' \<Longrightarrow> declared d'"

lemma handlers_declared:
  assumes "declared d"
  shows "HandleUnary req resp name opts d = Inr d' \<Longrightarrow> declared d'"
    and "HandleServerStream req item name opts d = Inr d' \<Longrightarrow> declared d'"
    and "HandleClientStream req item resp name opts d = Inr d' \<Longrightarrow> declared d'"
    and "HandleDuplex req item item' name reason opts d = Inr d' \<Longrightarrow> declared d'"
  using assms by (auto simp: HandleUnary_def HandleServerStream_def HandleClientStream_def HandleDuplex_def
      split: if_splits intro: declared.add)

lemma applyService_kept [simp]:
  "dsName (applyService x d) = dsName d" "dsMethods (applyService x d) = dsMethods d" "dsByName (applyService x d) = dsByName d"
  by (cases x; simp)+

lemma options_kept:
  "dsName (fold (\<lambda>opt d. case opt of None \<Rightarrow> d | Some x \<Rightarrow> applyService x d) opts d) = dsName d \<and>
   dsMethods (fold (\<lambda>opt d. case opt of None \<Rightarrow> d | Some x \<Rightarrow> applyService x d) opts d) = dsMethods d \<and>
   dsByName (fold (\<lambda>opt d. case opt of None \<Rightarrow> d | Some x \<Rightarrow> applyService x d) opts d) = dsByName d"
  by (induction opts arbitrary: d) (auto split: option.splits)

lemma new_service:
  assumes "NewService name opts = Inr d"
  shows "validServiceName (dsName d)" "dsMethods d = []" "dsByName d = []"
proof -
  from assms obtain full version where n: "normalizeServiceName name = Inr (full, version)" "dsName d = full"
    "dsMethods d = []" "dsByName d = []"
    by (auto simp: NewService_def options_kept split: sum.splits prod.splits)
  then show "validServiceName (dsName d)" "dsMethods d = []" "dsByName d = []" using normalize_iff [of name full] by auto
qed

lemma added_method:
  assumes "addMethod m opts d = Inr d'"
  obtains m' where "methodNameOk (dmName m')" "dmName m' \<notin> fst ` set (dsByName d)" "dsName d' = dsName d"
    "dsMethods d' = dsMethods d @ [m']" "dsByName d' = AList.update (dmName m') m' (dsByName d)"
proof (rule that)
  let ?m = "m\<lparr>dmOpts := fold applyMethodOption opts (dmOpts m)\<rparr>"
  show "methodNameOk (dmName ?m)" "dmName ?m \<notin> fst ` set (dsByName d)" "dsName d' = dsName d"
    "dsMethods d' = dsMethods d @ [?m]" "dsByName d' = AList.update (dmName ?m) ?m (dsByName d)"
    using assms by (auto simp: addMethod_def Let_def map_of_eq_None_iff split: if_splits option.splits)
qed

lemma declared_wf:
  "declared d \<Longrightarrow> validServiceName (dsName d) \<and> list_all (\<lambda>m. methodNameOk (dmName m)) (dsMethods d) \<and>
     distinct (map dmName (dsMethods d)) \<and> fst ` set (dsByName d) = dmName ` set (dsMethods d)"
proof (induction rule: declared.induct)
  case (new name opts d)
  then show ?case using new_service [OF new] by simp
next
  case (add d m opts d')
  from added_method [OF add(2)] obtain m' where m: "methodNameOk (dmName m')" "dmName m' \<notin> fst ` set (dsByName d)"
    "dsName d' = dsName d" "dsMethods d' = dsMethods d @ [m']" "dsByName d' = AList.update (dmName m') m' (dsByName d)" .
  then show ?case using add.IH by (auto simp: dom_update)
qed

section \<open>The Router's checks\<close>

text \<open>What the Router asks of a policy.  The runtime does not check a policy, so \<open>Sticky []\<close> and a kind of the
  application's own get this far.\<close>

definition policyOk :: "balance \<Rightarrow> bool" where
  "policyOk b \<longleftrightarrow> bKind b \<in> set balanceKinds \<and> (bKind b = ''sticky'' \<longrightarrow> stickyKeyOk b)"

lemma checkMethods_iff:
  "checkMethods seen ms = None \<longleftrightarrow> distinct (map mName ms) \<and> set (map mName ms) \<inter> set seen = {} \<and>
     (\<forall>m \<in> set ms. mName m \<noteq> [] \<and> mStream m \<in> set streamKinds \<and> policyOk (mBalance m))"
  by (induction seen ms rule: checkMethods.induct) (auto simp: policyOk_def)

lemma checkServices_iff:
  "checkServices u seen svs = None \<longleftrightarrow> distinct (map sName svs) \<and> set (map sName svs) \<inter> set seen = {} \<and>
     (\<forall>sv \<in> set svs. validServiceName (sName sv) \<and> \<not> hasPrefix (sName sv) reservedPrefix \<and> allowsRegistration u (sName sv) \<and>
        checkMethods [] (sMethods sv) = None)"
  by (induction u seen svs rule: checkServices.induct) (auto split: option.splits)

lemma collected:
  "collectServices ds tbl fs = Inr x \<Longrightarrow>
     distinct (map dsName ds) \<and> set (map dsName ds) \<inter> fst ` set tbl = {} \<and> (\<forall>d \<in> set ds. dsMethods d \<noteq> [])"
proof (induction ds tbl fs rule: collectServices.induct)
  case (2 d ds tbl fs)
  then show ?case by (auto simp: map_of_eq_None_iff dom_update split: if_splits)
qed simp

lemma new_server:
  assumes "NewServer rid strict ignore opts = Inr v"
  shows "soServices (lvOpts v) = soServices opts" "distinct (map dsName (soServices opts))"
    "\<forall>d \<in> set (soServices opts). dsMethods d \<noteq> []"
  using assms collected [of "soServices opts" "[]" "[]"]
  by (auto simp: NewServer_def Let_def serverDefaults_def split: if_splits sum.splits prod.splits)

lemma registered_methods:
  assumes "declared d"
  shows "checkMethods [] (sMethods (serviceRegistration contractOf d)) = None \<longleftrightarrow>
    (\<forall>m \<in> set (dsMethods d). policyOk (methodBalance d m))"
proof -
  have "shapeText s \<in> set streamKinds" for s by (cases s) (auto simp: streamKinds_def)
  moreover have "list_all (\<lambda>m. dmName m \<noteq> []) (dsMethods d)" "distinct (map dmName (dsMethods d))"
    using declared_wf [OF assms] by (auto simp: list_all_iff methodNameOk_def)
  ultimately show ?thesis by (auto simp: checkMethods_iff serviceRegistration_def list_all_iff comp_def)
qed

text \<open>
  C39.  The registration of a server made by \<^verbatim>\<open>NewServer\<close> from declared services passes the checks of the Router
  on services and methods (\<^verbatim>\<open>validServiceName\<close>, distinct names, known shapes and policies) if and only if no
  service has a reserved name, the user may register each, and the policy of every method is a known one whose
  sticky key, if it needs one, is complete.  The name rules of the two programs agree.
\<close>

theorem router_accepts_declared_services:
  assumes "NewServer rid strict ignore opts = Inr v" "\<forall>d \<in> set (soServices opts). declared d"
  shows "checkServices u [] (registrations contractOf v) = None \<longleftrightarrow>
    (\<forall>d \<in> set (soServices opts). \<not> hasPrefix (dsName d) reservedPrefix \<and> allowsRegistration u (dsName d) \<and>
       (\<forall>m \<in> set (dsMethods d). policyOk (methodBalance d m)))"
proof -
  have "sName (serviceRegistration contractOf d) = dsName d" for d by (simp add: serviceRegistration_def)
  then show ?thesis using new_server [OF assms(1)] assms(2) declared_wf registered_methods
    by (auto simp: registrations_def checkServices_iff comp_def)
qed

end
