(* ===== verification/Server_Drain.thy ===== *)
theory Server_Drain
  imports Server_Life
begin

text \<open>
  The calls in flight of a Go server.  Sessions and calls run in goroutines of their own, so a run is any
  interleaving of their steps; \<open>session.open\<close> takes two, the checks and the start of the call.  The counter
  \<^verbatim>\<open>inflight\<close> is exact in every reachable state, so the loop of \<^verbatim>\<open>Drain\<close> ends exactly when every call has ended;
  the limit holds up to the opens that pass their checks at the same moment.
\<close>

section \<open>Counting the calls in flight\<close>

text \<open>\<open>counted M B A d v\<close>: the counter is \<open>d\<close> more than the unfinished calls among the accepted calls \<open>A\<close>, at most \<open>B\<close>, and the
  limit is \<open>M\<close>.  Inside \<^verbatim>\<open>finish\<close>, between the mark and the clean-up, \<open>d\<close> is one.\<close>

definition unfinished :: "addr set \<Rightarrow> goServer \<Rightarrow> addr set" where
  "unfinished A v = {a \<in> A. \<not> scTerminal (svCall v a)}"

definition counted :: "int \<Rightarrow> int \<Rightarrow> addr set \<Rightarrow> int \<Rightarrow> goServer \<Rightarrow> bool" where
  "counted M B A d v \<longleftrightarrow> finite A \<and> (\<forall>a \<in> A. a < svNext v) \<and> svInflight v = int (card (unfinished A v)) + d \<and>
     (\<forall>p. snd ` set (seCalls (svSession v p)) \<subseteq> A) \<and> svMaxInflight v = M \<and> svInflight v \<le> B"

named_theorems counted_rules

lemma counted_updServed [counted_rules]:
  assumes "counted M B A d v" "\<And>c. scTerminal (g c) = scTerminal c"
  shows "counted M B A d (updServed a g v)"
proof -
  have "unfinished A (updServed a g v) = unfinished A v" using assms(2) by (auto simp: unfinished_def updServed_def)
  then show ?thesis using assms(1) by (simp add: counted_def updServed_def)
qed

lemma counted_updSession [counted_rules]:
  assumes "counted M B A d v" "\<And>s. snd ` set (seCalls (g s)) \<subseteq> snd ` set (seCalls s)"
  shows "counted M B A d (updSession p g v)"
proof -
  have "unfinished A (updSession p g v) = unfinished A v" by (simp add: unfinished_def updSession_def)
  moreover have "snd ` set (seCalls (svSession (updSession p g v) q)) \<subseteq> A" for q
  proof -
    have "snd ` set (seCalls (svSession v q)) \<subseteq> A" using assms(1) by (simp add: counted_def)
    then show ?thesis using assms(2) [of "svSession v q"] by (cases "q = p") (auto simp: updSession_def)
  qed
  ultimately show ?thesis using assms(1) by (simp add: counted_def) (simp add: updSession_def)
qed

lemma counted_terminal:
  assumes "counted M B A d v" "a \<in> A" "\<not> scTerminal (svCall v a)"
  shows "counted M B A (d + 1) (updServed a (\<lambda>c. c\<lparr>scTerminal := True\<rparr>) v)"
proof -
  have u: "unfinished A (updServed a (\<lambda>c. c\<lparr>scTerminal := True\<rparr>) v) = unfinished A v - {a}"
    by (auto simp: unfinished_def updServed_def)
  have "a \<in> unfinished A v" "finite (unfinished A v)" using assms by (auto simp: unfinished_def counted_def)
  then have "card (unfinished A v - {a}) + 1 = card (unfinished A v)" by (metis Suc_eq_plus1 card_Suc_Diff1)
  then show ?thesis using assms(1) u by (simp add: counted_def) (simp add: updServed_def)
qed

lemma counted_less:
  assumes "counted M B A (d + 1) v" shows "counted M B A d (v\<lparr>svInflight := svInflight v - 1\<rparr>)"
  using assms by (simp add: counted_def unfinished_def)

lemma terminal_fields [simp]:
  "scTerminal (cancelCtx e c) = scTerminal c" "scTerminal (pushInput x y c) = scTerminal c"
  "scTerminal (armInput c) = scTerminal c" "scTerminal (abortServed e' c) = scTerminal c"
  by (auto simp: cancelCtx_def pushInput_def armInput_def abortServed_def split: option.splits)

lemma counted_sessionSend [counted_rules]: "counted M B A d v \<Longrightarrow> counted M B A d (fst (sessionSend p f v))"
  by (auto simp: sessionSend_def split: prod.splits intro!: counted_rules)

lemma counted_callSend [counted_rules]: "counted M B A d v \<Longrightarrow> counted M B A d (fst (callSend a f v))"
  using counted_sessionSend by (auto simp: callSend_def Let_def split: prod.splits) (metis fst_conv)

lemma counted_cleanup:
  assumes "counted M B A (d + 1) v" shows "counted M B A d (cleanup a v)"
proof -
  have "snd ` set (seCalls (s\<lparr>seCalls := AList.delete cid (seCalls s)\<rparr>)) \<subseteq> snd ` set (seCalls s)" for cid s
    by (auto simp: AList.delete_eq)
  note gone = counted_updSession [OF _ this]
  show ?thesis unfolding cleanup_def Let_def
    by (intro counted_less) (simp add: gone counted_updServed assms)
qed

lemma counted_finish [counted_rules]:
  assumes "counted M B A d v" "a \<in> A" shows "counted M B A d (finish a f v)"
proof (cases "scTerminal (svCall v a)")
  case True
  then show ?thesis using assms by (simp add: finish_def)
next
  case False
  let ?f = "if length (scTrailers (svCall v a)) > 0 then f\<lparr>gMetadata := Some (scTrailers (svCall v a))\<rparr> else f"
  obtain v2 err where s: "callSend a ?f (updServed a (\<lambda>c. c\<lparr>scTerminal := True\<rparr>) v) = (v2, err)" by fastforce
  have "counted M B A (d + 1) v2"
    using counted_callSend [OF counted_terminal [OF assms False], of a ?f] s by simp
  then have "counted M B A (d + 1) (case err of None \<Rightarrow> v2
      | Some x \<Rightarrow> (case AsError x of Some e \<Rightarrow> if Reason e = ''frame_too_large'' then fst (callSend a (errorReply e) v2) else v2 | None \<Rightarrow> v2))"
    by (auto split: option.splits intro: counted_rules)
  then show ?thesis using False s counted_cleanup by (simp add: finish_def Let_def)
qed

lemma counted_protocolError [counted_rules]: "counted M B A d v \<Longrightarrow> a \<in> A \<Longrightarrow> counted M B A d (protocolError a message v)"
  by (auto simp: protocolError_def Let_def intro!: counted_rules)

lemma counted_idleExpired [counted_rules]: "counted M B A d v \<Longrightarrow> a \<in> A \<Longrightarrow> counted M B A d (idleExpired a v)"
  by (auto simp: idleExpired_def Let_def intro!: counted_rules)

lemma counted_receiveFrame [counted_rules]: "counted M B A d v \<Longrightarrow> a \<in> A \<Longrightarrow> counted M B A d (receiveFrame a f v)"
  by (auto simp: receiveFrame_def Let_def split: option.splits intro!: counted_rules)

lemma counted_nextInput [counted_rules]: "counted M B A d v \<Longrightarrow> counted M B A d (fst (nextInput a v))"
  by (auto simp: nextInput_def Let_def split: list.splits inputEv.splits option.splits intro!: counted_rules)

lemma counted_writeOutput [counted_rules]: "counted M B A d v \<Longrightarrow> counted M B A d (fst (writeOutput a payload v))"
proof -
  assume c: "counted M B A d v"
  obtain v1 err where s: "callSend a (outputItem (scOutputSequence (svCall v a)) payload)
      (updServed a (\<lambda>c. c\<lparr>scOutputSequence := wrap64 (scOutputSequence (svCall v a) + 1)\<rparr>) v) = (v1, err)" by fastforce
  have "counted M B A d (updServed a (\<lambda>c. c\<lparr>scOutputSequence := wrap64 (scOutputSequence (svCall v a) + 1)\<rparr>) v)"
    by (rule counted_updServed [OF c]) simp
  from counted_callSend [OF this, of a "outputItem (scOutputSequence (svCall v a)) payload"] have "counted M B A d v1" using s by simp
  then show ?thesis using c s by (auto simp: writeOutput_def Let_def split: option.splits intro!: counted_rules)
qed

lemma counted_sendOutput [counted_rules]: "counted M B A d v \<Longrightarrow> counted M B A d (fst (sendOutput a enc v))"
proof -
  assume c: "counted M B A d v"
  have w: "counted M B A d (fst (writeOutput a payload (updServed a (\<lambda>c. c\<lparr>scCredit := w\<rparr>) v)))" for payload w
    by (intro counted_writeOutput counted_updServed [OF c]) simp
  show ?thesis
  proof (cases enc)
    case (Inl e)
    then show ?thesis using c by (auto simp: sendOutput_def intro!: counted_rules)
  next
    case (Inr payload)
    obtain w r where a: "acquire (scCause (svCall v a)) (scCredit (svCall v a)) = (w, r)" by fastforce
    show ?thesis using w [of payload w] c a Inr
      by (auto simp: sendOutput_def Let_def split: wait.splits option.splits prod.splits)
  qed
qed

lemma counted_closeOutput [counted_rules]: "counted M B A d v \<Longrightarrow> counted M B A d (fst (closeOutput a v))"
  by (auto simp: closeOutput_def Let_def intro!: counted_rules)

lemma counted_runStart [counted_rules]: "counted M B A d v \<Longrightarrow> counted M B A d (runStart a v)"
  by (auto simp: runStart_def intro!: counted_rules)

lemma counted_runEnd [counted_rules]: 
  assumes "counted M B A d v" "a \<in> A"
  shows "counted M B A d (runEnd a h enc v)"
proof -
  let ?m = "scMethod (svCall v a)" and ?e = "invoked (svCall v a) h"
  obtain v1 err where e: "(if ?e = None \<and> (smStream ?m = ''server_stream'' \<or> smStream ?m = ''duplex'') then closeOutput a v else (v, ?e)) = (v1, err)"
    by fastforce
  have "counted M B A d v1" using e assms(1) counted_closeOutput [OF assms(1), of a] by (auto split: if_splits)
  then show ?thesis using e assms(2)
    by (auto simp: runEnd_def Let_def split: option.splits sum.splits intro!: counted_rules)
qed

lemma openStart_fields:
  "svNext (openStart p f m v) = Suc (svNext v)" "svMaxInflight (openStart p f m v) = svMaxInflight v"
  "svInflight (openStart p f m v) = svInflight v + 1"
  "svCall (openStart p f m v) = (svCall v)(svNext v := newServerCall p f m)"
  "seCalls (svSession (openStart p f m v) q) =
     (if q = p then AList.update (gCallID f) (svNext v) (seCalls (svSession v q)) else seCalls (svSession v q))"
  by (simp_all add: openStart_def Let_def updSession_def)

lemma update_values: "snd ` set (AList.update k x xs) \<subseteq> insert x (snd ` set xs)"
  by (induction xs) auto

lemma counted_openStart:
  assumes "counted M B A d v" shows "counted M (B + 1) (insert (svNext v) A) d (openStart p f m v)"
proof -
  have fin: "finite A" and less: "\<forall>a \<in> A. a < svNext v" and i: "svInflight v = int (card (unfinished A v)) + d"
    and calls: "\<forall>q. snd ` set (seCalls (svSession v q)) \<subseteq> A" and cap: "svMaxInflight v = M" "svInflight v \<le> B" using assms unfolding counted_def by blast+
  have n: "svNext v \<notin> A" using less by blast
  have "unfinished (insert (svNext v) A) (openStart p f m v) = insert (svNext v) (unfinished A v)"
    using n by (auto simp: unfinished_def openStart_fields newServerCall_def)
  moreover have "svNext v \<notin> unfinished A v" "finite (unfinished A v)" using n fin by (auto simp: unfinished_def)
  ultimately have "card (unfinished (insert (svNext v) A) (openStart p f m v)) = Suc (card (unfinished A v))" by simp
  moreover have "snd ` set (seCalls (svSession (openStart p f m v) q)) \<subseteq> insert (svNext v) A" for q
  proof (cases "q = p")
    case True
    have "snd ` set (AList.update (gCallID f) (svNext v) (seCalls (svSession v p))) \<subseteq> insert (svNext v) A"
      using update_values [of "gCallID f" "svNext v" "seCalls (svSession v p)"] spec [OF calls, of p] by (rule order_trans [OF _ insert_mono])
    then show ?thesis using True by (simp only: openStart_fields if_True simp_thms)
  next
    case False
    then show ?thesis using order_trans [OF spec [OF calls, of q] subset_insertI] by (simp only: openStart_fields if_False simp_thms)
  qed
  moreover have "\<forall>a \<in> insert (svNext v) A. a < svNext (openStart p f m v)" using less by (auto simp: openStart_fields)
  ultimately show ?thesis unfolding counted_def using fin i cap by (simp add: openStart_fields(2,3))
qed

lemma counted_newSession: "counted M B A d v \<Longrightarrow> counted M B A d (fst (newSession k v))"
  by (auto simp: counted_def unfinished_def newSession_def Let_def less_Suc_eq)

lemma counted_serveEnd: "counted M B A d v \<Longrightarrow> counted M B A d (serveEnd p v)"
proof -
  have f: "counted M B A d w \<Longrightarrow> counted M B A d (fold (\<lambda>(cid, a). updServed a (abortServed lostError)) xs w)" for xs w
    by (induction xs arbitrary: w) (auto simp: counted_updServed)
  assume "counted M B A d v"
  then have "counted M B A d (v\<lparr>svSessions := removeAll p (svSessions v)\<rparr>)" by (simp add: counted_def unfinished_def)
  then show ?thesis by (auto simp: serveEnd_def Let_def intro!: counted_rules f)
qed

lemma counted_handleFrame:
  assumes "counted M B A d v" "gKind f \<noteq> ''call.open''" shows "counted M B A d (handleFrame p f v)"
proof -
  have "a \<in> A" if "map_of (seCalls (svSession v p)) cid = Some a" for cid a
    using assms(1) map_of_SomeD [OF that] by (force simp: counted_def)
  then show ?thesis using assms by (auto simp: handleFrame_def split: option.splits intro!: counted_rules)
qed

section \<open>Runs\<close>

text \<open>The run of a server: its state, the calls it has started, and the \<^verbatim>\<open>call.open\<close> frames that have passed
  their checks in a session's goroutine and have not been added yet.\<close>

record serverRun =
  rnServer :: goServer
  rnOpened :: "addr list"
  rnPending :: "(addr \<times> rframe \<times> serverMethod) list"
  rnPeak :: nat                  \<comment> \<open>the most of them at one moment so far\<close>

abbreviation busy :: "serverRun \<Rightarrow> addr \<Rightarrow> bool" where
  "busy r p \<equiv> p \<in> fst ` set (rnPending r)"

text \<open>One step of any goroutine.  A session reads one frame at a time; calls run on their own.\<close>

inductive runStep :: "serverRun \<Rightarrow> serverRun \<Rightarrow> bool" where
  connected: "runStep r (r\<lparr>rnServer := fst (newSession k (rnServer r))\<rparr>)"
| refused: "\<not> busy r p \<Longrightarrow> openCheck p f (rnServer r) = Inl e \<Longrightarrow> runStep r (r\<lparr>rnServer := reject p f e (rnServer r)\<rparr>)"
| passed: "\<not> busy r p \<Longrightarrow> openCheck p f (rnServer r) = Inr m \<Longrightarrow> 
    runStep r (r\<lparr>rnPending := (p, f, m) # rnPending r, rnPeak := max (rnPeak r) (Suc (length (rnPending r)))\<rparr>)"
| opened: "(p, f, m) \<in> set (rnPending r) \<Longrightarrow>
    runStep r (r\<lparr>rnServer := openStart p f m (rnServer r), rnOpened := svNext (rnServer r) # rnOpened r,
      rnPending := removeAll (p, f, m) (rnPending r)\<rparr>)"
| frame: "\<not> busy r p \<Longrightarrow> gKind f \<noteq> ''call.open'' \<Longrightarrow> runStep r (r\<lparr>rnServer := handleFrame p f (rnServer r)\<rparr>)"
| started: "a \<in> set (rnOpened r) \<Longrightarrow> runStep r (r\<lparr>rnServer := runStart a (rnServer r)\<rparr>)"
| item_in: "a \<in> set (rnOpened r) \<Longrightarrow> runStep r (r\<lparr>rnServer := fst (nextInput a (rnServer r))\<rparr>)"
| item_out: "a \<in> set (rnOpened r) \<Longrightarrow> runStep r (r\<lparr>rnServer := fst (sendOutput a enc (rnServer r))\<rparr>)"
| out_closed: "a \<in> set (rnOpened r) \<Longrightarrow> runStep r (r\<lparr>rnServer := fst (closeOutput a (rnServer r))\<rparr>)"
| idle: "a \<in> set (rnOpened r) \<Longrightarrow> runStep r (r\<lparr>rnServer := idleExpired a (rnServer r)\<rparr>)"
| returned: "a \<in> set (rnOpened r) \<Longrightarrow> runStep r (r\<lparr>rnServer := runEnd a h enc (rnServer r)\<rparr>)"
| link: "runStep r (r\<lparr>rnServer := updSession p (\<lambda>s. s\<lparr>seConn := c\<rparr>) (rnServer r)\<rparr>)"
| draining: "runStep r (r\<lparr>rnServer := fst (sessionSend p (zeroRFrame\<lparr>gKind := ''server.drain''\<rparr>) (expectDrainAck p (rnServer r)))\<rparr>)"
| lost: "\<not> busy r p \<Longrightarrow> runStep r (r\<lparr>rnServer := serveEnd p (rnServer r)\<rparr>)"

inductive runs :: "liveServer \<Rightarrow> serverRun \<Rightarrow> bool" for v where
  start: "runs v \<lparr>rnServer = lvServer v, rnOpened = [], rnPending = [], rnPeak = 0\<rparr>"
| step: "runs v r \<Longrightarrow> runStep r r' \<Longrightarrow> runs v r'"

definition spare :: "int \<Rightarrow> serverRun \<Rightarrow> int" where
  "spare M r = M - 1 + int (rnPeak r) - int (length (rnPending r))"

text \<open>The books of a run: the count is exact, and a limit is exceeded by less than the opens that passed
  their checks at one moment.\<close>

definition booked :: "int \<Rightarrow> serverRun \<Rightarrow> bool" where
  "booked M r \<longleftrightarrow> (\<exists>B. counted M B (set (rnOpened r)) 0 (rnServer r) \<and> (M > 0 \<longrightarrow> B \<le> spare M r))"

lemma booked_kept:
  assumes "booked M r" "\<And>B. counted M B (set (rnOpened r)) 0 (rnServer r) \<Longrightarrow> counted M B (set (rnOpened r)) 0 w"
  shows "booked M (r\<lparr>rnServer := w\<rparr>)"
  using assms by (auto simp: booked_def spare_def)

lemma booked_step: "runStep r r' \<Longrightarrow> booked M r \<Longrightarrow> booked M r'"
proof (induction rule: runStep.induct)
  case (refused r p f e)
  then show ?case by (intro booked_kept) (simp_all add: reject_def counted_sessionSend)
next
  case (passed r p f m)
  then obtain B where B: "counted M B (set (rnOpened r)) 0 (rnServer r)" "M > 0 \<longrightarrow> B \<le> spare M r" by (auto simp: booked_def)
  have "M > 0 \<longrightarrow> svInflight (rnServer r) < M"
    using passed(2) B(1) by (auto simp: openCheck_def counted_def split: if_splits)
  then have "counted M (svInflight (rnServer r)) (set (rnOpened r)) 0 (rnServer r)" "M > 0 \<longrightarrow> svInflight (rnServer r) \<le> M - 1"
    using B(1) by (auto simp: counted_def)
  then show ?case unfolding booked_def spare_def by (intro exI [of _ "svInflight (rnServer r)"]) auto
next
  case (opened p f m r)
  then obtain B where B: "counted M B (set (rnOpened r)) 0 (rnServer r)" "M > 0 \<longrightarrow> B \<le> spare M r" by (auto simp: booked_def)
  have "length (removeAll (p, f, m) (rnPending r)) < length (rnPending r)"
    using opened(1) by (simp add: length_removeAll_less)
  then show ?case using counted_openStart [OF B(1), of p f m] B(2) unfolding booked_def spare_def
    by (intro exI [of _ "B + 1"]) auto
next
  case (draining r p)
  then show ?case by (intro booked_kept) (simp_all add: expectDrainAck_def counted_updSession counted_sessionSend)
qed (auto intro!: booked_kept simp: counted_newSession counted_handleFrame counted_serveEnd counted_rules)

lemma runs_booked:
  assumes "NewServer rid strict ignore opts = Inr v" "runs v r"
  shows "booked (soMaxInflight opts) r"
  using assms(2)
proof induction
  case start
  have "counted (soMaxInflight opts) 0 {} 0 (lvServer v)" using assms(1)
    by (auto simp: counted_def unfinished_def NewServer_def noSession_def serverDefaults_def Let_def split: if_splits sum.splits prod.splits)
  then show ?case unfolding booked_def spare_def by (intro exI [of _ 0]) auto
next
  case (step r r')
  then show ?case using booked_step by blast
qed


end
