(* ===== verification/Server_Demo.thy ===== *)
theory Server_Demo
  imports Server_Props Server_Drain
begin

text \<open>
  A concrete server: one service with one sticky unary method and a limit of one call.  The properties of
  \<open>Server_Props\<close> and \<open>Server_Drain\<close> are applied to it, and a run shows that its limit can be exceeded.
\<close>

section \<open>A small server\<close>

definition demoBase :: declService where
  "demoBase = \<lparr>dsName = ''chat.v0'', dsVersion = ''0'', dsDescription = Some ''demo'', dsTargeted = False, dsBalance = RoundRobin,
     dsModule = [], dsMethods = [], dsByName = [], dsMethodOpts = []\<rparr>"

definition demoMethod :: declMethod where
  "demoMethod = (plainMethod ''say'' UnaryShape (StructT ''app'' ''Req''))\<lparr>dmResponse := Some (StructT ''app'' ''Resp''),
     dmOpts := noOptions\<lparr>moDescription := Some ''says it'', moBalance := Some (Sticky ''room'')\<rparr>\<rparr>"

definition demoService :: declService where
  "demoService = demoBase\<lparr>dsModule := ''app'', dsMethods := [demoMethod], dsByName := [(''say'', demoMethod)]\<rparr>"

definition demoOptions :: serverOptions where
  "demoOptions = \<lparr>soServices = [demoService], soInstanceID = ''i'', soMaxInflight = 1, soPingInterval = 0, soPingTimeout = 0,
     soReconnect = DefaultReconnect, soIdleTimeout = 0, soMaxFrameSize = 0, soStrict = True\<rparr>"

lemma demo_declared: "declared demoService"
proof -
  have "NewService ''chat'' [Some (Describe ''demo'')] = Inr demoBase" by code_simp
  moreover have "HandleUnary (StructT ''app'' ''Req'') (StructT ''app'' ''Resp'') ''say'' [Doc ''says it'', Balanced (Sticky ''room'')] demoBase =
      Inr demoService" by code_simp
  ultimately show ?thesis by (metis declared.new handlers_declared(1))
qed

definition demoServer :: liveServer where
  "demoServer = projr (NewServer ''x'' [] [] demoOptions)"

lemma demo_collected: "collectServices [demoService] [] [] = Inr ([(''chat.v0'', servedService demoService)], [])"
  by code_simp

lemma demo_new: "NewServer ''x'' [] [] demoOptions = Inr demoServer"
proof -
  have "soServices (serverDefaults ''x'' demoOptions) = [demoService]" "soServices demoOptions = [demoService]"
    by (simp_all add: serverDefaults_def demoOptions_def)
  then show ?thesis unfolding demoServer_def by (simp add: NewServer_def Let_def demo_collected withoutIgnored_def del: collectServices.simps)
qed

lemma demo_server:
  "svMaxInflight (lvServer demoServer) = 1" "svInflight (lvServer demoServer) = 0" "svSession (lvServer demoServer) = (\<lambda>_. noSession)"
  "svServices (lvServer demoServer) = [(''chat.v0'', servedService demoService)]" "svNext (lvServer demoServer) = 1"
  "svInstanceID (lvServer demoServer) = ''i''"
proof -
  have "soServices (serverDefaults ''x'' demoOptions) = [demoService]" "soServices demoOptions = [demoService]"
    "soMaxInflight (serverDefaults ''x'' demoOptions) = 1" "soInstanceID (serverDefaults ''x'' demoOptions) = ''i''"
    by (simp_all add: serverDefaults_def demoOptions_def)
  then show "svMaxInflight (lvServer demoServer) = 1" "svInflight (lvServer demoServer) = 0" "svSession (lvServer demoServer) = (\<lambda>_. noSession)"
    "svServices (lvServer demoServer) = [(''chat.v0'', servedService demoService)]" "svNext (lvServer demoServer) = 1"
    "svInstanceID (lvServer demoServer) = ''i''"
    unfolding demoServer_def by (simp_all add: NewServer_def Let_def demo_collected withoutIgnored_def del: collectServices.simps)
qed

text \<open>C39 on the small server: its sticky policy is complete, and a Router without users takes it.\<close>

theorem router_accepts_declared_services_witness:
  "\<exists>v. NewServer ''x'' [] [] demoOptions = Inr v \<and> declared demoService \<and>
     checkServices None [] (registrations (\<lambda>_. ''{}'') v) = None"
proof -
  have s: "soServices demoOptions = [demoService]" by (simp add: demoOptions_def)
  have "\<not> hasPrefix (dsName demoService) reservedPrefix" "allowsRegistration None (dsName demoService)"
    "dsMethods demoService = [demoMethod]" "policyOk (methodBalance demoService demoMethod)" by code_simp+
  then show ?thesis
    using router_accepts_declared_services [OF demo_new, of None "\<lambda>_. ''{}''"] demo_new demo_declared s by auto
qed

section \<open>Two sessions at the limit\<close>

definition demoOpen :: rframe where
  "demoOpen = zeroRFrame\<lparr>gKind := ''call.open'', gCallID := ''c'', gService := ''chat.v0'', gMethod := ''say''\<rparr>"

definition twoSessions :: goServer where
  "twoSessions = fst (newSession (newConn 1000 0) (fst (newSession (newConn 1000 0) (lvServer demoServer))))"

lemma demo_check: "openCheck p demoOpen twoSessions = Inr (servedMethod demoMethod)"
proof -
  have "seCalls (svSession twoSessions p) = []" by (simp add: twoSessions_def newSession_def Let_def demo_server noSession_def)
  moreover have "svMaxInflight twoSessions = 1" "svInflight twoSessions = 0" "svServices twoSessions = [(''chat.v0'', servedService demoService)]"
    by (simp_all add: twoSessions_def newSession_def Let_def demo_server)
  moreover have "ssMethods (servedService demoService) = [(''say'', servedMethod demoMethod)]" "ssTargeted (servedService demoService) = False"
    "smStream (servedMethod demoMethod) = ''unary''" by code_simp+
  ultimately show ?thesis by (simp add: openCheck_def demoOpen_def zeroRFrame_def)
qed

text \<open>The limit is read before the call is added: two sessions that open at the same moment both pass, and a
  server with a limit of one call runs two.\<close>

lemma limit_is_exceeded:
  "\<exists>r. runs demoServer r \<and> svMaxInflight (rnServer r) = 1 \<and> svInflight (rnServer r) = 2"
proof -
  let ?m = "servedMethod demoMethod"
  define r0 where "r0 = \<lparr>rnServer = lvServer demoServer, rnOpened = [], rnPending = [], rnPeak = 0\<rparr>"
  define r2 where "r2 = r0\<lparr>rnServer := twoSessions\<rparr>"
  define r3 where "r3 = r2\<lparr>rnPending := [(1, demoOpen, ?m)], rnPeak := 1\<rparr>"
  define r4 where "r4 = r3\<lparr>rnPending := [(2, demoOpen, ?m), (1, demoOpen, ?m)], rnPeak := 2\<rparr>"
  define r5 where "r5 = r4\<lparr>rnServer := openStart 1 demoOpen ?m (rnServer r4), rnOpened := [svNext (rnServer r4)],
    rnPending := [(2, demoOpen, ?m)]\<rparr>"
  define r6 where "r6 = r5\<lparr>rnServer := openStart 2 demoOpen ?m (rnServer r5), rnOpened := svNext (rnServer r5) # rnOpened r5,
    rnPending := []\<rparr>"
  have "runs demoServer r0" using runs.start r0_def by simp
  then have "runs demoServer r2"
    using runs.step [OF runs.step [OF _ runStep.connected] runStep.connected, of demoServer r0 "newConn 1000 0" "newConn 1000 0"]
    by (simp add: r2_def r0_def twoSessions_def)
  moreover have "runStep r2 r3" using runStep.passed [of 1 r2 demoOpen ?m] by (simp add: r3_def r2_def r0_def demo_check)
  moreover have "runStep r3 r4" using runStep.passed [of 2 r3 demoOpen ?m]
    by (simp add: r4_def r3_def r2_def r0_def demo_check numeral_2_eq_2)
  moreover have "runStep r4 r5" using runStep.opened [of 1 demoOpen ?m r4] by (simp add: r5_def r4_def r3_def r2_def r0_def)
  moreover have "runStep r5 r6" using runStep.opened [of 2 demoOpen ?m r5] by (simp add: r6_def r5_def)
  ultimately have "runs demoServer r6" by (meson runs.step)
  moreover have "svMaxInflight (rnServer r6) = 1" "svInflight (rnServer r6) = 2"
    by (simp_all add: r6_def r5_def r4_def r3_def r2_def r0_def openStart_fields twoSessions_def newSession_def Let_def demo_server)
  ultimately show ?thesis by blast
qed


end
