(* ===== verification/Injection.thy ===== *)
theory Injection
  imports Runtime
begin

text \<open>
  Dependency injection of the Go runtime (\<^verbatim>\<open>meshcall-go/di.go\<close>, \<^verbatim>\<open>depSpec\<close> to \<^verbatim>\<open>resolveMeta\<close>): the registry of
  providers with its search for circular dependencies, and the scope of one call, which resolves what a
  handler needs.

  \<^item> A \<^verbatim>\<open>reflect.Type\<close> is its name.  What a provider returns is code of the application: a function of the
    arguments to an error or a value, with whether it returned a clean-up.  The values are a type parameter.
  \<^item> The conversion of a header's text to the type of a \<^verbatim>\<open>Meta\<close> provider rests on reflection and is a field of the
    provider; \<^verbatim>\<open>EqualFold\<close> is modelled on ASCII.
  \<^item> The recursions take fuel, and \<open>None\<close> is a recursion that has used it up.  The number of types bounds the
    depth of both; that this fuel is enough is part of the theorem at the end.
  \<^item> Go iterates over a map in any order: \<open>order\<close> is the order of the loop over the registry.
\<close>

section \<open>Providers\<close>

record 'v depSpec =
  diOut :: string
  diMeta :: bool
  diKey :: string
  diRequired :: bool
  diDefault :: "'v option"
  diZero :: 'v
  diConvert :: "string \<Rightarrow> goerr + 'v"
  diDeps :: "string list"
  diCall :: "'v list \<Rightarrow> goerr + 'v \<times> bool"

type_synonym 'v registry = "(string, 'v depSpec) gomap"

text \<open>\<^verbatim>\<open>Meta\<close> after its options; \<open>None\<close> is the panic for an empty key.\<close>

definition MetaProvider :: "string \<Rightarrow> string \<Rightarrow> bool \<Rightarrow> 'v option \<Rightarrow> 'v \<Rightarrow> (string \<Rightarrow> goerr + 'v) \<Rightarrow> 'v depSpec option" where
  "MetaProvider out key required dflt zero conv =
     (let trimmed = map asciiLower (trimSpace key) in
      if trimmed = [] then None
      else Some \<lparr>diOut = out, diMeta = True, diKey = trimmed, diRequired = (required \<and> dflt = None), diDefault = dflt,
        diZero = zero, diConvert = conv, diDeps = [], diCall = (\<lambda>_. Inr (zero, False))\<rparr>)"

section \<open>The registry\<close>

text \<open>A nil provider is skipped; a later provider of a type replaces an earlier one.\<close>

definition registryOf :: "'v depSpec option list \<Rightarrow> 'v registry" where
  "registryOf providers = fold (\<lambda>p reg. case p of None \<Rightarrow> reg | Some sp \<Rightarrow> AList.update (diOut sp) sp reg) providers []"

datatype visit = Unvisited | Visiting | Visited

record dfsState =
  dfState :: "string \<Rightarrow> visit"
  dfStack :: "string list"

definition subDeps :: "'v registry \<Rightarrow> string \<Rightarrow> string list" where
  "subDeps reg t = (case map_of reg t of None \<Rightarrow> [] | Some sp \<Rightarrow> if diMeta sp then [] else diDeps sp)"

text \<open>The closure \<^verbatim>\<open>dfs\<close> and its loop; an error is the path it reports.\<close>

fun dfs :: "nat \<Rightarrow> 'v registry \<Rightarrow> string \<Rightarrow> dfsState \<Rightarrow> (string list + dfsState) option"
and dfsSubs :: "nat \<Rightarrow> 'v registry \<Rightarrow> string list \<Rightarrow> dfsState \<Rightarrow> (string list + dfsState) option" where
  "dfs 0 reg t s = None"
| "dfs (Suc n) reg t s =
     (case dfsSubs n reg (subDeps reg t) (s\<lparr>dfState := (dfState s)(t := Visiting), dfStack := dfStack s @ [t]\<rparr>) of
        None \<Rightarrow> None
      | Some (Inl path) \<Rightarrow> Some (Inl path)
      | Some (Inr s1) \<Rightarrow> Some (Inr (s1\<lparr>dfState := (dfState s1)(t := Visited), dfStack := butlast (dfStack s1)\<rparr>)))"
| "dfsSubs n reg [] s = Some (Inr s)"
| "dfsSubs n reg (u # us) s = (case dfState s u of
      Visiting \<Rightarrow> Some (Inl (dfStack s @ [u]))
    | Unvisited \<Rightarrow> (case dfs n reg u s of
        None \<Rightarrow> None
      | Some (Inl path) \<Rightarrow> Some (Inl path)
      | Some (Inr s1) \<Rightarrow> dfsSubs n reg us s1)
    | Visited \<Rightarrow> dfsSubs n reg us s)"

fun dfsAll :: "nat \<Rightarrow> 'v registry \<Rightarrow> string list \<Rightarrow> dfsState \<Rightarrow> (string list + dfsState) option" where
  "dfsAll n reg [] s = Some (Inr s)"
| "dfsAll n reg (t # ts) s =
     (if dfState s t = Unvisited then (case dfs n reg t s of
          None \<Rightarrow> None
        | Some (Inl path) \<Rightarrow> Some (Inl path)
        | Some (Inr s1) \<Rightarrow> dfsAll n reg ts s1)
      else dfsAll n reg ts s)"

text \<open>The types a registry mentions, and the fuel made of them.\<close>

definition depTypes :: "'v registry \<Rightarrow> string list" where
  "depTypes reg = remdups (map fst reg @ concat (map (\<lambda>(t, sp). diDeps sp) reg))"

definition depFuel :: "'v registry \<Rightarrow> nat" where
  "depFuel reg = Suc (length (depTypes reg))"

definition newDependencyRegistry :: "string list \<Rightarrow> 'v depSpec option list \<Rightarrow> (string list + 'v registry) option" where
  "newDependencyRegistry order providers =
     (let reg = registryOf providers in
      case dfsAll (depFuel reg) reg order \<lparr>dfState = (\<lambda>_. Unvisited), dfStack = []\<rparr> of
        None \<Rightarrow> None
      | Some (Inl path) \<Rightarrow> Some (Inl path)
      | Some (Inr _) \<Rightarrow> Some (Inr reg))"

section \<open>The scope of a call\<close>

text \<open>\<open>scopeCalled\<close> lists the providers that were called, which the source does not keep; \<open>scopeCleanups\<close> names the
  providers whose clean-up was kept, in order.\<close>

record 'v depScope =
  scopeCache :: "(string, 'v) gomap"
  scopeCleanups :: "string list"
  scopeCalled :: "string list"

definition newDepScope :: "'v depScope" where
  "newDepScope = \<lparr>scopeCache = [], scopeCleanups = [], scopeCalled = []\<rparr>"

text \<open>The clean-ups in the order \<^verbatim>\<open>close\<close> runs them.\<close>

definition scopeClose :: "'v depScope \<Rightarrow> string list \<times> 'v depScope" where
  "scopeClose sc = (rev (scopeCleanups sc), sc\<lparr>scopeCleanups := []\<rparr>)"

definition headerError :: "string \<Rightarrow> string \<Rightarrow> goerr" where
  "headerError message header =
     (let e = detailed CodeInvalidArgument message ''server'' ''metadata'' False in
      MeshErr (e\<lparr>reDetails := map_option (AList.update ''header'' (JStr header)) (reDetails e)\<rparr>))"

definition headerValue :: "string \<Rightarrow> (string, string) gomap \<Rightarrow> string option" where
  "headerValue key md = (case map_of md key of
      Some v \<Rightarrow> Some v
    | None \<Rightarrow> map_option snd (find (\<lambda>(k, v). map asciiLower k = map asciiLower key) md))"

definition resolveMeta :: "(string, string) gomap \<Rightarrow> 'v depSpec \<Rightarrow> goerr + 'v" where
  "resolveMeta md sp = (case headerValue (diKey sp) md of
      Some raw \<Rightarrow> diConvert sp raw
    | None \<Rightarrow> (case diDefault sp of
        Some v \<Rightarrow> Inr v
      | None \<Rightarrow> if diRequired sp then Inl (headerError (''Missing required metadata header: '' @ diKey sp) (diKey sp))
          else Inr (diZero sp)))"

definition isMetaType :: "'v registry \<Rightarrow> string \<Rightarrow> bool" where
  "isMetaType reg t = (case map_of reg t of None \<Rightarrow> False | Some sp \<Rightarrow> diMeta sp)"

text \<open>\<^verbatim>\<open>resolve\<close>, with its two loops as \<open>resolveSeq\<close>: the first over the sub-dependencies that are headers, the second
  over all of them.  The provider is called between reading the arguments and keeping its result.\<close>

definition callProvider :: "string \<Rightarrow> 'v depSpec \<Rightarrow> 'v list \<Rightarrow> 'v depScope \<Rightarrow> 'v depScope \<times> (goerr + 'v)" where
  "callProvider t sp args sc0 =
     (let sc = sc0\<lparr>scopeCalled := scopeCalled sc0 @ [t]\<rparr> in
      case diCall sp args of
        Inl err \<Rightarrow> (sc, Inl err)
      | Inr (v, cleans) \<Rightarrow>
          (sc\<lparr>scopeCleanups := (if cleans then scopeCleanups sc @ [t] else scopeCleanups sc),
              scopeCache := AList.update t v (scopeCache sc)\<rparr>, Inr v))"

fun resolve :: "nat \<Rightarrow> 'v registry \<Rightarrow> (string, string) gomap \<Rightarrow> string \<Rightarrow> 'v depScope \<Rightarrow> ('v depScope \<times> (goerr + 'v)) option"
and resolveSeq :: "nat \<Rightarrow> 'v registry \<Rightarrow> (string, string) gomap \<Rightarrow> string list \<Rightarrow> 'v depScope \<Rightarrow> ('v depScope \<times> (goerr + 'v list)) option" where
  "resolve 0 reg md t sc = None"
| "resolve (Suc n) reg md t sc = (case map_of (scopeCache sc) t of
      Some v \<Rightarrow> Some (sc, Inr v)
    | None \<Rightarrow> (case map_of reg t of
        None \<Rightarrow> Some (sc, Inl (MeshErr (detailed CodeInternal (''Unregistered dependency type: '' @ t) ''server'' ''dependency'' False)))
      | Some sp \<Rightarrow>
          if diMeta sp then
            (case resolveMeta md sp of
               Inl err \<Rightarrow> Some (sc, Inl err)
             | Inr v \<Rightarrow> Some (sc\<lparr>scopeCache := AList.update t v (scopeCache sc)\<rparr>, Inr v))
          else (case resolveSeq n reg md (filter (isMetaType reg) (diDeps sp)) sc of
              None \<Rightarrow> None
            | Some (sc1, Inl err) \<Rightarrow> Some (sc1, Inl err)
            | Some (sc1, Inr _) \<Rightarrow> (case resolveSeq n reg md (diDeps sp) sc1 of
                None \<Rightarrow> None
              | Some (sc2, Inl err) \<Rightarrow> Some (sc2, Inl err)
              | Some (sc2, Inr args) \<Rightarrow> Some (callProvider t sp args sc2)))))"
| "resolveSeq n reg md [] sc = Some (sc, Inr [])"
| "resolveSeq n reg md (u # us) sc = (case resolve n reg md u sc of
      None \<Rightarrow> None
    | Some (sc1, Inl err) \<Rightarrow> Some (sc1, Inl err)
    | Some (sc1, Inr v) \<Rightarrow> (case resolveSeq n reg md us sc1 of
        None \<Rightarrow> None
      | Some (sc2, Inl err) \<Rightarrow> Some (sc2, Inl err)
      | Some (sc2, Inr vs) \<Rightarrow> Some (sc2, Inr (v # vs))))"

definition resolveAll :: "nat \<Rightarrow> 'v registry \<Rightarrow> (string, string) gomap \<Rightarrow> string list \<Rightarrow> 'v depScope \<Rightarrow>
    ('v depScope \<times> (goerr + 'v list)) option" where
  "resolveAll n reg md types sc = (case resolveSeq n reg md (filter (isMetaType reg) types) sc of
      None \<Rightarrow> None
    | Some (sc1, Inl err) \<Rightarrow> Some (sc1, Inl err)
    | Some (sc1, Inr _) \<Rightarrow> resolveSeq n reg md types sc1)"

end
