(* ===== verification/Injection_Props.thy ===== *)
theory Injection_Props
  imports Injection "HOL-Library.Sublist"
begin

text \<open>
  Dependency injection ends and calls each provider once: the depth-first search of \<^verbatim>\<open>newDependencyRegistry\<close> finds a cycle
  exactly when there is one, and on a graph without cycles the recursion of \<^verbatim>\<open>resolve\<close> is no deeper than the types.
\<close>

section \<open>The graph of dependencies\<close>

definition depEdges :: "'v registry \<Rightarrow> (string \<times> string) set" where
  "depEdges reg = {(t, u). u \<in> set (subDeps reg t)}"

lemma edge_iff [simp]: "(t, u) \<in> depEdges reg \<longleftrightarrow> u \<in> set (subDeps reg t)"
  by (simp add: depEdges_def)

lemma subDeps_types:
  assumes "u \<in> set (subDeps reg t)" shows "t \<in> fst ` set reg" "u \<in> set (depTypes reg)"
proof -
  obtain sp where sp: "map_of reg t = Some sp" "u \<in> set (diDeps sp)"
    using assms by (cases "map_of reg t") (auto simp: subDeps_def split: if_splits)
  then have m: "(t, sp) \<in> set reg" by (simp add: map_of_SomeD)
  then show "t \<in> fst ` set reg" by force
  show "u \<in> set (depTypes reg)" using m sp(2) by (force simp: depTypes_def)
qed

section \<open>The search for cycles\<close>

definition unseen :: "'v registry \<Rightarrow> dfsState \<Rightarrow> string set" where
  "unseen reg s = {u \<in> set (depTypes reg). dfState s u = Unvisited}"

text \<open>What a search that succeeds keeps: the stack and the types being visited; visited types stay visited.\<close>

definition searched :: "dfsState \<Rightarrow> dfsState \<Rightarrow> bool" where
  "searched s s' \<longleftrightarrow> dfStack s' = dfStack s \<and> (\<forall>u. dfState s' u = Visiting \<longleftrightarrow> dfState s u = Visiting) \<and>
     (\<forall>u. dfState s u = Visited \<longrightarrow> dfState s' u = Visited)"

lemma searched_refl: "searched s s"
  by (simp add: searched_def)

lemma searched_trans: "searched s s' \<Longrightarrow> searched s' s'' \<Longrightarrow> searched s s''"
  by (simp add: searched_def)

lemma dfs_searched:
  "dfs n reg t s = Some (Inr s') \<Longrightarrow> dfState s t = Unvisited \<Longrightarrow> searched s s' \<and> dfState s' t = Visited"
  "dfsSubs n reg us s = Some (Inr s') \<Longrightarrow> searched s s' \<and> (\<forall>u \<in> set us. dfState s' u = Visited)"
proof (induction n reg t s and n reg us s arbitrary: s' and s' rule: dfs_dfsSubs.induct)
  case (2 n reg t s)
  let ?s = "s\<lparr>dfState := (dfState s)(t := Visiting), dfStack := dfStack s @ [t]\<rparr>"
  obtain s1 where s1: "dfsSubs n reg (subDeps reg t) ?s = Some (Inr s1)"
    "s' = s1\<lparr>dfState := (dfState s1)(t := Visited), dfStack := butlast (dfStack s1)\<rparr>"
    using 2(2) by (auto split: option.splits sum.splits)
  have sr: "searched ?s s1" using 2(1) [OF s1(1)] by simp
  have st: "dfStack s1 = dfStack s @ [t]" "\<And>u. dfState s1 u = Visiting \<longleftrightarrow> u = t \<or> dfState s u = Visiting"
    "\<And>u. u \<noteq> t \<Longrightarrow> dfState s u = Visited \<Longrightarrow> dfState s1 u = Visited" using sr by (simp_all add: searched_def)
  have "searched s s'" unfolding searched_def s1(2) using st(1,3) 2(3) by (auto simp: st(2))
  moreover have "dfState s' t = Visited" by (simp add: s1(2))
  ultimately show ?case ..
next
  case (4 n reg u us s)
  show ?case
  proof (cases "dfState s u")
    case Unvisited
    then obtain s1 where s1: "dfs n reg u s = Some (Inr s1)" "dfsSubs n reg us s1 = Some (Inr s')"
      using 4(4) by (auto split: option.splits sum.splits)
    then have "searched s s1" "dfState s1 u = Visited" "searched s1 s'" "\<forall>x \<in> set us. dfState s' x = Visited"
      using 4(1) [OF Unvisited s1(1) Unvisited] 4(2) [OF Unvisited s1(1) refl s1(2)] by simp_all
    moreover have "dfState s' u = Visited" using calculation(2,3) by (simp add: searched_def)
    ultimately show ?thesis using searched_trans by simp
  next
    case Visited
    then have "searched s s'" "\<forall>x \<in> set us. dfState s' x = Visited" using 4(3) [OF Visited] 4(4) by simp_all
    then show ?thesis using Visited by (simp add: searched_def)
  qed (use 4(4) in simp)
qed (simp_all add: searched_refl)

lemma searched_unseen: "searched s s' \<Longrightarrow> unseen reg s' \<subseteq> unseen reg s"
  unfolding searched_def unseen_def by (auto) (metis visit.exhaust)

lemma finite_unseen [simp]: "finite (unseen reg s)"
  by (simp add: unseen_def)

lemma dfs_returns:
  "card (unseen reg s) \<le> n \<Longrightarrow> t \<in> unseen reg s \<Longrightarrow> dfs n reg t s \<noteq> None"
  "card (unseen reg s) \<le> n \<Longrightarrow> set us \<subseteq> set (depTypes reg) \<Longrightarrow> dfsSubs n reg us s \<noteq> None"
proof (induction n reg t s and n reg us s rule: dfs_dfsSubs.induct)
  case (1 reg t s)
  then show ?case by (auto simp: card_eq_0_iff)
next
  case (2 n reg t s)
  let ?s = "s\<lparr>dfState := (dfState s)(t := Visiting), dfStack := dfStack s @ [t]\<rparr>"
  have "unseen reg ?s = unseen reg s - {t}" by (auto simp: unseen_def)
  then have "card (unseen reg ?s) \<le> n" using 2(2,3) by simp
  moreover have "set (subDeps reg t) \<subseteq> set (depTypes reg)" using subDeps_types(2) by blast
  ultimately show ?case using 2(1) by (auto split: option.splits sum.splits)
next
  case (4 n reg u us s)
  show ?case
  proof (cases "dfState s u")
    case Unvisited
    have "dfs n reg u s \<noteq> None" using 4(1) [OF Unvisited] 4(4,5) Unvisited by (simp add: unseen_def)
    moreover have "dfsSubs n reg us s1 \<noteq> None" if d: "dfs n reg u s = Some (Inr s1)" for s1
    proof (rule 4(2) [OF Unvisited d refl])
      show "card (unseen reg s1) \<le> n"
        using card_mono [OF finite_unseen searched_unseen] dfs_searched(1) [OF d Unvisited] 4(4) le_trans by blast
    qed (use 4(5) in simp)
    ultimately show ?thesis using Unvisited by (auto split: option.splits sum.splits)
  next
    case Visited
    then show ?thesis using 4(3) [OF Visited] 4(4,5) by simp
  qed simp
qed simp

text \<open>Visited types are closed under dependencies and lie on no cycle.\<close>

definition settled :: "'v registry \<Rightarrow> dfsState \<Rightarrow> bool" where
  "settled reg s \<longleftrightarrow> (\<forall>t. dfState s t = Visited \<longrightarrow>
     (\<forall>u \<in> set (subDeps reg t). dfState s u = Visited) \<and> (t, t) \<notin> (depEdges reg)\<^sup>+)"

lemma closed_trancl:
  assumes "(x, y) \<in> (depEdges reg)\<^sup>+" "x \<in> V" "\<And>t u. t \<in> V \<Longrightarrow> u \<in> set (subDeps reg t) \<Longrightarrow> u \<in> V"
  shows "y \<in> V"
  using assms(1,2) by induction (use assms(3) in auto)

lemma dfs_settled:
  "dfs n reg t s = Some (Inr s') \<Longrightarrow> dfState s t = Unvisited \<Longrightarrow> settled reg s \<Longrightarrow> settled reg s'"
  "dfsSubs n reg us s = Some (Inr s') \<Longrightarrow> settled reg s \<Longrightarrow> settled reg s'"
proof (induction n reg t s and n reg us s arbitrary: s' and s' rule: dfs_dfsSubs.induct)
  case (2 n reg t s)
  let ?s = "s\<lparr>dfState := (dfState s)(t := Visiting), dfStack := dfStack s @ [t]\<rparr>"
  obtain s1 where s1: "dfsSubs n reg (subDeps reg t) ?s = Some (Inr s1)"
    "s' = s1\<lparr>dfState := (dfState s1)(t := Visited), dfStack := butlast (dfStack s1)\<rparr>"
    using 2(2) by (auto split: option.splits sum.splits)
  have "settled reg ?s" using 2(3,4) by (fastforce simp: settled_def)
  then have set1: "settled reg s1" using 2(1) [OF s1(1)] by simp
  have post: "searched ?s s1" "\<forall>u \<in> set (subDeps reg t). dfState s1 u = Visited" using dfs_searched(2) [OF s1(1)] by simp_all
  have tv: "dfState s1 t = Visiting" using post(1) by (simp add: searched_def)
  have "(t, t) \<notin> (depEdges reg)\<^sup>+"
  proof
    assume "(t, t) \<in> (depEdges reg)\<^sup>+"
    then obtain u where u: "u \<in> set (subDeps reg t)" "u = t \<or> (u, t) \<in> (depEdges reg)\<^sup>+"
      by (metis edge_iff tranclD rtranclD)
    have "t \<in> {x. dfState s1 x = Visited}"
      using u post(2) closed_trancl [of u t reg "{x. dfState s1 x = Visited}"] set1 by (auto simp: settled_def)
    then show False using tv by simp
  qed
  then show ?case using set1 post(2) s1(2) by (auto simp: settled_def)
next
  case (4 n reg u us s)
  show ?case
  proof (cases "dfState s u")
    case Unvisited
    then obtain s1 where s1: "dfs n reg u s = Some (Inr s1)" "dfsSubs n reg us s1 = Some (Inr s')"
      using 4(4) by (auto split: option.splits sum.splits)
    show ?thesis using 4(2) [OF Unvisited s1(1) refl s1(2)] 4(1) [OF Unvisited s1(1) Unvisited] 4(5) by simp
  next
    case Visited
    then show ?thesis using 4(3) [OF Visited] 4(4,5) by auto
  qed (use 4(4) in simp)
qed auto

text \<open>The stack is a path of the graph, and its types are the ones being visited.\<close>

definition onPath :: "'v registry \<Rightarrow> dfsState \<Rightarrow> bool" where
  "onPath reg s \<longleftrightarrow> successively (\<lambda>a b. b \<in> set (subDeps reg a)) (dfStack s) \<and> (\<forall>u. dfState s u = Visiting \<longleftrightarrow> u \<in> set (dfStack s))"

lemma searched_onPath: "searched s s' \<Longrightarrow> onPath reg s \<Longrightarrow> onPath reg s'"
  by (simp add: searched_def onPath_def)

lemma path_reaches:
  "successively (\<lambda>a b. b \<in> set (subDeps reg a)) xs \<Longrightarrow> x \<in> set xs \<Longrightarrow> (x, last xs) \<in> (depEdges reg)\<^sup>*"
proof (induction xs rule: rev_induct)
  case (snoc y ys)
  show ?case
  proof (cases "x = y")
    case False
    then have "ys \<noteq> []" "x \<in> set ys" using snoc.prems(2) by auto
    then have "(x, last ys) \<in> (depEdges reg)\<^sup>*" "y \<in> set (subDeps reg (last ys))"
      using snoc by (auto simp: successively_append_iff)
    then show ?thesis by (simp add: rtrancl.rtrancl_into_rtrancl)
  qed simp
qed simp

lemma dfs_reports_cycle:
  "dfs n reg t s = Some (Inl p) \<Longrightarrow> onPath reg s \<Longrightarrow> dfState s t = Unvisited \<Longrightarrow>
     dfStack s = [] \<or> t \<in> set (subDeps reg (last (dfStack s))) \<Longrightarrow> \<exists>x. (x, x) \<in> (depEdges reg)\<^sup>+"
  "dfsSubs n reg us s = Some (Inl p) \<Longrightarrow> onPath reg s \<Longrightarrow> dfStack s \<noteq> [] \<Longrightarrow>
     set us \<subseteq> set (subDeps reg (last (dfStack s))) \<Longrightarrow> \<exists>x. (x, x) \<in> (depEdges reg)\<^sup>+"
proof (induction n reg t s and n reg us s rule: dfs_dfsSubs.induct)
  case (2 n reg t s)
  let ?s = "s\<lparr>dfState := (dfState s)(t := Visiting), dfStack := dfStack s @ [t]\<rparr>"
  have "onPath reg ?s" using 2(3,5) by (auto simp: onPath_def successively_append_iff)
  moreover have "dfsSubs n reg (subDeps reg t) ?s = Some (Inl p)" using 2(2) by (auto split: option.splits sum.splits)
  ultimately show ?case using 2(1) by simp
next
  case (4 n reg u us s)
  show ?case
  proof (cases "dfState s u")
    case Visiting
    then have "(u, last (dfStack s)) \<in> (depEdges reg)\<^sup>*" using path_reaches 4(5) by (auto simp: onPath_def)
    moreover have "(last (dfStack s), u) \<in> depEdges reg" using 4(7) by simp
    ultimately show ?thesis by (blast intro: rtrancl_into_trancl1)
  next
    case Unvisited
    show ?thesis
    proof (cases "dfs n reg u s = Some (Inl p)")
      case True
      then show ?thesis using 4(1) [OF Unvisited] 4(5-) Unvisited by simp
    next
      case False
      then obtain s1 where s1: "dfs n reg u s = Some (Inr s1)" "dfsSubs n reg us s1 = Some (Inl p)"
        using 4(4) Unvisited by (auto split: option.splits sum.splits)
      have "searched s s1" using dfs_searched(1) [OF s1(1) Unvisited] by simp
      then have "onPath reg s1" "dfStack s1 = dfStack s" using 4(5) searched_onPath by (auto simp: searched_def)
      then show ?thesis using 4(2) [OF Unvisited s1(1) refl s1(2)] 4(6,7) by simp
    qed
  next
    case Visited
    then show ?thesis using 4(3) [OF Visited] 4(4-) by simp
  qed
qed auto

text \<open>The loop over all types.\<close>

lemma dfsAll_returns:
  "card (unseen reg s) \<le> n \<Longrightarrow> set ts \<subseteq> set (depTypes reg) \<Longrightarrow> dfsAll n reg ts s \<noteq> None"
proof (induction n reg ts s rule: dfsAll.induct)
  case (2 n reg t ts s)
  show ?case
  proof (cases "dfState s t = Unvisited")
    case True
    have "dfs n reg t s \<noteq> None" using dfs_returns(1) [OF 2(3)] True 2(4) by (simp add: unseen_def)
    moreover have "dfsAll n reg ts s1 \<noteq> None" if d: "dfs n reg t s = Some (Inr s1)" for s1
    proof (rule 2(1) [OF True d refl])
      show "card (unseen reg s1) \<le> n"
        using card_mono [OF finite_unseen searched_unseen] dfs_searched(1) [OF d True] 2(3) le_trans by blast
    qed (use 2(4) in simp)
    ultimately show ?thesis using True by (auto split: option.splits sum.splits)
  next
    case False
    then show ?thesis using 2(2) [OF False] 2(3,4) by simp
  qed
qed simp

lemma dfsAll_settled:
  "dfsAll n reg ts s = Some (Inr s') \<Longrightarrow> settled reg s \<Longrightarrow> dfStack s = [] \<Longrightarrow> onPath reg s \<Longrightarrow>
     settled reg s' \<and> searched s s' \<and> (\<forall>t \<in> set ts. dfState s' t = Visited)"
proof (induction n reg ts s rule: dfsAll.induct)
  case (2 n reg t ts s)
  show ?case
  proof (cases "dfState s t = Unvisited")
    case True
    then obtain s1 where s1: "dfs n reg t s = Some (Inr s1)" "dfsAll n reg ts s1 = Some (Inr s')"
      using 2(3) by (auto split: option.splits sum.splits)
    have q: "searched s s1" "dfState s1 t = Visited" using dfs_searched(1) [OF s1(1) True] by simp_all
    have "settled reg s1" using dfs_settled(1) [OF s1(1) True 2(4)] .
    moreover have "dfStack s1 = []" "onPath reg s1" using searched_onPath [OF q(1) 2(6)] q(1) 2(5) by (simp_all add: searched_def)
    ultimately have w: "settled reg s'" "searched s1 s'" "\<forall>t \<in> set ts. dfState s' t = Visited"
      using 2(1) [OF True s1(1) refl s1(2)] by simp_all
    have "dfState s' t = Visited" using w(2) q(2) by (simp add: searched_def)
    then show ?thesis using w searched_trans [OF q(1) w(2)] by simp
  next
    case False
    have w: "settled reg s'" "searched s s'" "\<forall>t \<in> set ts. dfState s' t = Visited"
      using 2(2) [OF False] 2(3-6) False by simp_all
    have "dfState s t \<noteq> Visiting" using 2(5,6) by (simp add: onPath_def)
    then have "dfState s t = Visited" using False by (cases "dfState s t") simp_all
    then have "dfState s' t = Visited" using w(2) by (simp add: searched_def)
    then show ?thesis using w by simp
  qed
qed (simp add: searched_refl)

lemma dfsAll_reports_cycle:
  "dfsAll n reg ts s = Some (Inl p) \<Longrightarrow> dfStack s = [] \<Longrightarrow> onPath reg s \<Longrightarrow> \<exists>x. (x, x) \<in> (depEdges reg)\<^sup>+"
proof (induction n reg ts s rule: dfsAll.induct)
  case (2 n reg t ts s)
  show ?case
  proof (cases "dfState s t = Unvisited")
    case True
    show ?thesis
    proof (cases "dfs n reg t s = Some (Inl p)")
      case tr: True
      then show ?thesis using dfs_reports_cycle(1) [OF tr 2(5) True] 2(4) by simp
    next
      case False
      then obtain s1 where s1: "dfs n reg t s = Some (Inr s1)" "dfsAll n reg ts s1 = Some (Inl p)"
        using 2(3) True by (auto split: option.splits sum.splits)
      have q: "searched s s1" using dfs_searched(1) [OF s1(1) True] by simp
      then have "dfStack s1 = []" using 2(4) by (simp add: searched_def)
      then show ?thesis using 2(1) [OF True s1(1) refl s1(2)] searched_onPath [OF q 2(5)] by simp
    qed
  next
    case False
    then show ?thesis using 2(2) [OF False] 2(3-) by simp
  qed
qed simp

lemma registry_decides:
  assumes "set order = fst ` set (registryOf providers)"
  shows "(\<exists>path. newDependencyRegistry order providers = Some (Inl path)) \<and> \<not> acyclic (depEdges (registryOf providers)) \<or>
    newDependencyRegistry order providers = Some (Inr (registryOf providers)) \<and> acyclic (depEdges (registryOf providers))"
proof -
  let ?reg = "registryOf providers" and ?s = "\<lparr>dfState = (\<lambda>_. Unvisited), dfStack = []\<rparr>"
  have s: "settled ?reg ?s" "onPath ?reg ?s" by (simp_all add: settled_def onPath_def)
  have "unseen ?reg ?s = set (depTypes ?reg)" by (simp add: unseen_def)
  then have "card (unseen ?reg ?s) \<le> depFuel ?reg" by (simp add: depFuel_def card_length le_SucI)
  moreover have "set order \<subseteq> set (depTypes ?reg)" using assms by (auto simp: depTypes_def)
  ultimately obtain res where res: "dfsAll (depFuel ?reg) ?reg order ?s = Some res" using dfsAll_returns by blast
  show ?thesis
  proof (cases res)
    case (Inl p)
    then show ?thesis using dfsAll_reports_cycle [of _ ?reg order ?s p] s(2) res by (auto simp: newDependencyRegistry_def acyclic_def)
  next
    case (Inr s')
    then have d: "settled ?reg s'" "\<forall>t \<in> set order. dfState s' t = Visited" using dfsAll_settled [of _ ?reg order ?s s'] s res by auto
    have "(x, x) \<notin> (depEdges ?reg)\<^sup>+" for x
    proof
      assume c: "(x, x) \<in> (depEdges ?reg)\<^sup>+"
      then obtain u where "u \<in> set (subDeps ?reg x)" by (metis edge_iff tranclD)
      then have "x \<in> set order" using subDeps_types(1) assms by blast
      then show False using c d by (auto simp: settled_def)
    qed
    then show ?thesis using res Inr by (simp add: newDependencyRegistry_def acyclic_def)
  qed
qed

section \<open>Resolving\<close>

definition reach :: "'v registry \<Rightarrow> string \<Rightarrow> string set" where
  "reach reg t = {w. (t, w) \<in> (depEdges reg)\<^sup>+}"

lemma reach_types: "reach reg t \<subseteq> set (depTypes reg)"
proof
  fix w assume "w \<in> reach reg t"
  then obtain v where "w \<in> set (subDeps reg v)" by (auto simp: reach_def elim: tranclE)
  then show "w \<in> set (depTypes reg)" using subDeps_types(2) by blast
qed

lemma finite_reach [simp]: "finite (reach reg t)"
  using reach_types by (rule finite_subset) simp

lemma reach_less:
  assumes "acyclic (depEdges reg)" "u \<in> set (subDeps reg t)"
  shows "card (reach reg u) < card (reach reg t)"
proof (rule psubset_card_mono)
  have "(t, u) \<in> depEdges reg" using assms(2) by simp
  then have "reach reg u \<subseteq> reach reg t" "u \<in> reach reg t" by (auto simp: reach_def intro: trancl_into_trancl2)
  moreover have "u \<notin> reach reg u" using assms(1) by (simp add: reach_def acyclic_def)
  ultimately show "reach reg u \<subset> reach reg t" by blast
qed simp

lemma subDeps_spec: "map_of reg t = Some sp \<Longrightarrow> \<not> diMeta sp \<Longrightarrow> subDeps reg t = diDeps sp"
  by (simp add: subDeps_def)

lemma resolve_returns:
  assumes "acyclic (depEdges reg)"
  shows "card (reach reg t) < n \<Longrightarrow> resolve n reg md t sc \<noteq> None"
    and "\<forall>u \<in> set us. card (reach reg u) < n \<Longrightarrow> resolveSeq n reg md us sc \<noteq> None"
  using assms
proof (induction n reg md t sc and n reg md us sc rule: resolve_resolveSeq.induct)
  case (2 n reg md t sc)
  have sub: "\<forall>u \<in> set (diDeps sp). card (reach reg u) < n" if "map_of reg t = Some sp" "\<not> diMeta sp" for sp
    using reach_less [OF 2(4), of _ t] subDeps_spec [OF that] 2(3) by fastforce
  show ?case
  proof (cases "map_of (scopeCache sc) t")
    case None
    show ?thesis
    proof (cases "map_of reg t")
      case s: (Some sp)
      show ?thesis
      proof (cases "diMeta sp")
        case False
        have a: "resolveSeq n reg md (filter (isMetaType reg) (diDeps sp)) sc \<noteq> None"
          using 2(1) [OF None s False] sub [OF s False] 2(4) by simp
        have b: "resolveSeq n reg md (diDeps sp) sc1 \<noteq> None"
          if r: "resolveSeq n reg md (filter (isMetaType reg) (diDeps sp)) sc = Some (sc1, Inr vs)" for sc1 vs
          using 2(2) [OF None s False r refl refl] sub [OF s False] 2(4) by simp
        show ?thesis using None s False a b by (auto split: option.splits sum.splits)
      qed (use None s in \<open>auto split: sum.splits\<close>)
    qed (simp add: None)
  qed simp
next
  case (4 n reg md u us sc)
  have a: "resolve n reg md u sc \<noteq> None" using 4(1) 4(3,4) by simp
  have b: "resolveSeq n reg md us sc1 \<noteq> None" if r: "resolve n reg md u sc = Some (sc1, Inr v)" for sc1 v
    using 4(2) [OF r refl refl] 4(3,4) by simp
  show ?case using a b by (auto split: option.splits sum.splits)
qed auto

lemma resolve_cases [consumes 1, case_names cached unknown header provider]:
  assumes "resolve (Suc n) reg md t sc = Some (sc', res)"
  obtains (cached) v where "sc' = sc" "res = Inr v"
    | (unknown) err where "sc' = sc" "res = Inl err"
    | (header) v where "sc' = sc\<lparr>scopeCache := AList.update t v (scopeCache sc)\<rparr>" "res = Inr v"
    | (provider) sp where "map_of (scopeCache sc) t = None" "map_of reg t = Some sp" "\<not> diMeta sp"
proof (cases "map_of (scopeCache sc) t")
  case None
  show thesis
  proof (cases "map_of reg t")
    case (Some sp)
    show thesis
    proof (cases "diMeta sp")
      case True
      then have m: "(case resolveMeta md sp of Inl err \<Rightarrow> Some (sc, Inl err)
          | Inr v \<Rightarrow> Some (sc\<lparr>scopeCache := AList.update t v (scopeCache sc)\<rparr>, Inr v)) = Some (sc', res)"
        using assms None Some by simp
      show thesis
      proof (cases "resolveMeta md sp")
        case (Inl err)
        show thesis by (rule that(2) [of err]) (use m Inl in auto)
      next
        case (Inr v)
        show thesis by (rule that(3) [of v]) (use m Inr in auto)
      qed
    qed (use None Some that(4) in auto)
  qed (use assms None that(2) in auto)
qed (use assms that(1) in auto)

definition tidy :: "'v depScope \<Rightarrow> bool" where
  "tidy sc \<longleftrightarrow> distinct (scopeCalled sc) \<and> subseq (scopeCleanups sc) (scopeCalled sc)"

definition held :: "'v depScope \<Rightarrow> bool" where
  "held sc \<longleftrightarrow> set (scopeCalled sc) \<subseteq> fst ` set (scopeCache sc)"

text \<open>From one scope to a later one: no provider outside \<open>T\<close> was called, and while there is no error the results of all
  calls are held.\<close>

definition grew :: "string set \<Rightarrow> 'v depScope \<Rightarrow> 'v depScope \<Rightarrow> bool \<Rightarrow> bool" where
  "grew T sc sc' ok \<longleftrightarrow> tidy sc' \<and> (ok \<longrightarrow> held sc') \<and> set (scopeCalled sc') \<subseteq> set (scopeCalled sc) \<union> T"

lemma grew_trans: "grew T1 a b ok \<Longrightarrow> grew T2 b c ok' \<Longrightarrow> T1 \<subseteq> T \<Longrightarrow> T2 \<subseteq> T \<Longrightarrow> grew T a c ok'"
  unfolding grew_def by blast

lemma called_provider:
  assumes "grew (reach reg t) sc sc2 True" "held sc" "t \<notin> fst ` set (scopeCache sc)" "t \<notin> reach reg t"
    "callProvider t sp args sc2 = (sc', res)"
  shows "grew (insert t (reach reg t)) sc sc' (\<not> isl res)"
proof -
  have "t \<notin> set (scopeCalled sc2)" using assms(1-4) by (auto simp: grew_def held_def)
  then show ?thesis using assms(1,5)
    by (auto simp: callProvider_def Let_def grew_def tidy_def held_def dom_update split: sum.splits prod.splits if_splits)
qed

lemma resolve_once:
  assumes "acyclic (depEdges reg)"
  shows "resolve n reg md t sc = Some (sc', res) \<Longrightarrow> tidy sc \<Longrightarrow> held sc \<Longrightarrow> grew (insert t (reach reg t)) sc sc' (\<not> isl res)"
    and "resolveSeq n reg md us sc = Some (sc', ress) \<Longrightarrow> tidy sc \<Longrightarrow> held sc \<Longrightarrow>
      grew (\<Union>u \<in> set us. insert u (reach reg u)) sc sc' (\<not> isl ress)"
  using assms
proof (induction n reg md t sc and n reg md us sc arbitrary: sc' res and sc' ress rule: resolve_resolveSeq.induct)
  case (2 n reg md t sc)
  from 2(3) show ?case
  proof (cases rule: resolve_cases)
    case cached
    then show ?thesis using 2(4,5) by (auto simp: grew_def)
  next
    case unknown
    then show ?thesis using 2(4,5) by (auto simp: grew_def)
  next
    case header
    then show ?thesis using 2(4,5) by (auto simp: grew_def tidy_def held_def dom_update)
  next
    case (provider sp)
    have sub: "insert u (reach reg u) \<subseteq> reach reg t" if "u \<in> set (diDeps sp)" for u
      using that subDeps_spec [OF provider(2,3)] by (auto simp: reach_def intro: trancl_into_trancl2)
    have grow: "grew T a b ok \<Longrightarrow> T \<subseteq> reach reg t \<Longrightarrow> grew (insert t (reach reg t)) a b ok" for T a b ok
      by (auto simp: grew_def)
    have T1: "(\<Union>u \<in> set (filter (isMetaType reg) (diDeps sp)). insert u (reach reg u)) \<subseteq> reach reg t"
      and T2: "(\<Union>u \<in> set (diDeps sp). insert u (reach reg u)) \<subseteq> reach reg t" using sub by auto
    obtain sc1 r1 where r1: "resolveSeq n reg md (filter (isMetaType reg) (diDeps sp)) sc = Some (sc1, r1)"
      using 2(3) provider by (auto split: option.splits)
    have g1: "grew (\<Union>u \<in> set (filter (isMetaType reg) (diDeps sp)). insert u (reach reg u)) sc sc1 (\<not> isl r1)"
      using 2(1) [OF provider r1 2(4,5,6)] .
    show ?thesis
    proof (cases r1)
      case (Inl err)
      then show ?thesis using 2(3) provider r1 grow [OF g1 T1] by auto
    next
      case (Inr vs)
      then have h1: "tidy sc1" "held sc1" using g1 by (simp_all add: grew_def)
      obtain sc2 r2 where r2: "resolveSeq n reg md (diDeps sp) sc1 = Some (sc2, r2)"
        using 2(3) provider r1 Inr by (auto split: option.splits)
      have "grew (\<Union>u \<in> set (diDeps sp). insert u (reach reg u)) sc1 sc2 (\<not> isl r2)"
        using 2(2) [OF provider r1 refl Inr r2 h1 2(6)] .
      then have g2: "grew (reach reg t) sc sc2 (\<not> isl r2)" using grew_trans [OF g1 _ T1 T2] by simp
      have tn: "t \<notin> fst ` set (scopeCache sc)" "t \<notin> reach reg t"
        using provider(1) 2(6) by (auto simp: map_of_eq_None_iff reach_def acyclic_def)
      show ?thesis
      proof (cases r2)
        case (Inl err)
        then show ?thesis using 2(3) provider r1 Inr r2 grow [OF g2 order_refl] by auto
      next
        case i: (Inr args)
        then have "callProvider t sp args sc2 = (sc', res)" using 2(3) provider r1 Inr r2 by simp
        then show ?thesis using called_provider [of reg t sc sc2] g2 i 2(5) tn by simp
      qed
    qed
  qed
next
  case (4 n reg md u us sc)
  obtain sc1 r1 where r1: "resolve n reg md u sc = Some (sc1, r1)" using 4(3) by (auto split: option.splits)
  have g1: "grew (insert u (reach reg u)) sc sc1 (\<not> isl r1)" using 4(1) [OF r1 4(4,5,6)] .
  show ?case
  proof (cases r1)
    case (Inl err)
    then show ?thesis using 4(3) r1 g1 by (auto simp: grew_def)
  next
    case (Inr v)
    then have h1: "tidy sc1" "held sc1" using g1 by (simp_all add: grew_def)
    obtain r2 where r2: "resolveSeq n reg md us sc1 = Some (sc', r2)" "isl r2 \<longleftrightarrow> isl ress"
      using 4(3) r1 Inr by (auto split: option.splits sum.splits)
    have g2: "grew (\<Union>u \<in> set us. insert u (reach reg u)) sc1 sc' (\<not> isl r2)" using 4(2) [OF r1 refl Inr r2(1) h1 4(6)] .
    show ?thesis unfolding r2(2) [symmetric] by (rule grew_trans [OF g1 g2]) auto
  qed
qed (simp_all add: grew_def)

lemma scope_new: "tidy newDepScope" "held newDepScope"
  by (simp_all add: tidy_def held_def newDepScope_def)

lemma resolveAll_once:
  assumes "acyclic (depEdges reg)"
  obtains sc res where "resolveAll (depFuel reg) reg md types newDepScope = Some (sc, res)" "tidy sc"
    "set (scopeCalled sc) \<subseteq> (\<Union>t \<in> set types. insert t (reach reg t))"
proof -
  let ?n = "depFuel reg" and ?ms = "filter (isMetaType reg) types" and ?T = "\<Union>t \<in> set types. insert t (reach reg t)"
  have fuel: "card (reach reg t) < ?n" for t
    using card_mono [OF _ reach_types, of reg t] card_length [of "depTypes reg"] by (auto simp: depFuel_def)
  obtain sc1 r1 where r1: "resolveSeq ?n reg md ?ms newDepScope = Some (sc1, r1)"
    using resolve_returns(2) [OF assms, of ?ms ?n md newDepScope] fuel by auto
  have g1: "grew (\<Union>t \<in> set ?ms. insert t (reach reg t)) newDepScope sc1 (\<not> isl r1)"
    using resolve_once(2) [OF assms r1 scope_new] .
  show thesis
  proof (cases r1)
    case (Inl err)
    have "set (scopeCalled sc1) \<subseteq> ?T" using g1 by (auto simp: grew_def newDepScope_def)
    then show thesis using that [of sc1 "Inl err"] g1 r1 Inl by (simp add: resolveAll_def grew_def)
  next
    case (Inr vs)
    then have h: "tidy sc1" "held sc1" using g1 by (simp_all add: grew_def)
    obtain sc2 r2 where r2: "resolveSeq ?n reg md types sc1 = Some (sc2, r2)"
      using resolve_returns(2) [OF assms, of types ?n md sc1] fuel by auto
    have "grew ?T newDepScope sc2 (\<not> isl r2)" by (rule grew_trans [OF g1 resolve_once(2) [OF assms r2 h]]) auto
    then show thesis using that [of sc2 r2] r1 r2 Inr by (simp add: resolveAll_def grew_def newDepScope_def)
  qed
qed

text \<open>
  C34.  The registry is decided in any order of the map: providers are refused exactly when some type depends on
  itself through others, and both the search and the resolution of a call end within a recursion no deeper than the
  number of types.  With an accepted registry a call resolves any list of types, to values or to an error, calls
  each provider at most once and only those the types need, and \<^verbatim>\<open>close\<close> runs clean-ups at most once each, in the
  reverse order of the calls.
\<close>

theorem injection_ends_and_calls_once:
  assumes "set order = fst ` set (registryOf providers)"
  shows "if acyclic (depEdges (registryOf providers))
    then newDependencyRegistry order providers = Some (Inr (registryOf providers)) \<and>
      (\<forall>md types. \<exists>sc res. resolveAll (depFuel (registryOf providers)) (registryOf providers) md types newDepScope = Some (sc, res) \<and>
         distinct (scopeCalled sc) \<and> set (scopeCalled sc) \<subseteq> (\<Union>t \<in> set types. insert t (reach (registryOf providers) t)) \<and>
         subseq (rev (fst (scopeClose sc))) (scopeCalled sc))
    else \<exists>path. newDependencyRegistry order providers = Some (Inl path)"
proof (cases "acyclic (depEdges (registryOf providers))")
  case True
  have "\<exists>sc res. resolveAll (depFuel (registryOf providers)) (registryOf providers) md types newDepScope = Some (sc, res) \<and>
      distinct (scopeCalled sc) \<and> set (scopeCalled sc) \<subseteq> (\<Union>t \<in> set types. insert t (reach (registryOf providers) t)) \<and>
      subseq (rev (fst (scopeClose sc))) (scopeCalled sc)" for md types
    by (rule resolveAll_once [OF True, of md types]) (auto simp: tidy_def scopeClose_def)
  then show ?thesis using registry_decides [OF assms] True by simp
qed (use registry_decides [OF assms] in simp)

section \<open>An example\<close>

definition demoProviders :: "string depSpec option list" where
  "demoProviders =
    [Some \<lparr>diOut = ''Db'', diMeta = False, diKey = [], diRequired = False, diDefault = None, diZero = [], diConvert = Inr, diDeps = [],
       diCall = (\<lambda>_. Inr (''db'', True))\<rparr>,
     None,
     Some \<lparr>diOut = ''Repo'', diMeta = False, diKey = [], diRequired = False, diDefault = None, diZero = [], diConvert = Inr,
       diDeps = [''Db'', ''Db''], diCall = (\<lambda>args. Inr (concat args, True))\<rparr>]"

lemma demo_edges: "depEdges (registryOf demoProviders) = {(''Repo'', ''Db'')}"
  by (auto simp: depEdges_def subDeps_def registryOf_def demoProviders_def split: if_splits)

theorem injection_ends_and_calls_once_witness:
  "newDependencyRegistry [''Repo'', ''Db''] demoProviders = Some (Inr (registryOf demoProviders)) \<and>
   (\<exists>sc res. resolveAll (depFuel (registryOf demoProviders)) (registryOf demoProviders) [] [''Repo'', ''Db''] newDepScope = Some (sc, res) \<and>
      distinct (scopeCalled sc))"
proof -
  have "acyclic ({} :: (string \<times> string) set)" by (simp add: acyclic_def)
  then have "acyclic {(''Repo'', ''Db'')}" by (subst acyclic_insert) simp
  moreover have "set [''Repo'', ''Db''] = fst ` set (registryOf demoProviders)" by (auto simp: registryOf_def demoProviders_def)
  ultimately show ?thesis using injection_ends_and_calls_once [of "[''Repo'', ''Db'']" demoProviders] demo_edges
    by (simp only: if_True) blast
qed

end
