(* ===== verification/Spec2Isabelle.thy ===== *)
theory Spec2Isabelle
  imports Router_Expiry Router_Calls Http_Server Call_Order Client_Props Wire Server_Demo Injection_Props
begin

text \<open>
  A verification development for MeshCall: a Router for multiplexed RPC calls, written in Go
  (\<^verbatim>\<open>src/meshcall-router\<close>), and the Go runtime that clients and service instances are written with
  (\<^verbatim>\<open>src/meshcall-go\<close>).

  \<^bold>\<open>The program.\<close>  Service instances connect to a Router, authenticate, register services with their methods
  and balance policies, and answer calls.  Clients connect, authenticate and open calls; the Router checks
  permissions, chooses an instance (balancing, circuit breakers, limits), and forwards the frames of the call
  in both directions under credit-based flow control until a terminal frame, a deadline, a cancellation or a
  lost connection ends it.  Unary calls with an idempotency key join a call in flight or replay its result.
  HTTP requests become calls of virtual clients.  In the runtime a client opens calls over one of several
  endpoints with reconnection and retries, and a server runs sessions (one for each connection) and calls (one
  goroutine for each), registers with Routers or serves clients directly, drains and closes.

  \<^bold>\<open>The theories, the code they model, and what they show.\<close>

  Shared base:
  \<^item> \<open>Mesh_Prelude\<close>: base types, Go maps as association lists, 64-bit wrap-around, generic lemmas.
  \<^item> \<open>Go_Text\<close>, \<open>Json\<close>: what the sources use of Go's \<^verbatim>\<open>strings\<close>, \<^verbatim>\<open>strconv\<close>, \<^verbatim>\<open>hex\<close>, \<^verbatim>\<open>utf8\<close> and \<^verbatim>\<open>encoding/json\<close>,
    on bytes.
  \<^item> \<open>Codec\<close>, \<open>Compact\<close>: reading back what is written; marshalled text is compact already.

  The Router (\<^verbatim>\<open>internal/router\<close>, \<^verbatim>\<open>internal/contract\<close>):
  \<^item> \<open>Protocol\<close> (\<^verbatim>\<open>protocol.go\<close>): the frame and its decoder with every check, Router-made frames.
  \<^item> \<open>Outbox\<close> (\<^verbatim>\<open>queue.go\<close>): the send queue.  It implements the locale \<open>fifo_mux\<close>: order within each call, an exact
    byte account, progress and fairness.
  \<^item> \<open>Breaker\<close> (\<^verbatim>\<open>breaker.go\<close>): the circuit breaker as a state machine over results and time.
  \<^item> \<open>Deadline_Heap\<close> (\<^verbatim>\<open>deadline.go\<close> with \<^verbatim>\<open>container/heap\<close>): implements the locale \<open>deadline_queue\<close>; expiry takes exactly
    the due routes in order.
  \<^item> \<open>Names\<close> (\<^verbatim>\<open>validServiceName\<close>, \<^verbatim>\<open>allowedFrame\<close>): the scan is the documented grammar.
  \<^item> \<open>Auth\<close> (\<^verbatim>\<open>auth.go\<close>, tokens of \<^verbatim>\<open>management.go\<close>): accounts, keys, tokens and rules; tokens attenuate, identities need
    evidence, revocation is effective.
  \<^item> \<open>Router_State\<close>, \<open>Balance\<close> (\<^verbatim>\<open>balance.go\<close>), \<open>Dedup\<close> (\<^verbatim>\<open>dedup.go\<close>), \<open>Contract\<close> (\<^verbatim>\<open>internal/contract\<close>), \<open>Management\<close>
    (\<^verbatim>\<open>management.go\<close>), \<open>Router_Core\<close> (\<^verbatim>\<open>router.go\<close>, \<^verbatim>\<open>metrics.go\<close>): the state behind the Router's mutex, its records and
    stores, and one definition for each section the source runs under the mutex.
  \<^item> \<open>Router_Inv\<close>, \<open>Router_Ops\<close>, \<open>Router_Run\<close>, \<open>Router_Props\<close>, \<open>Router_Guarantees\<close>, \<open>Router_Expiry\<close>, \<open>Router_Calls\<close>: the invariant
    of the Router's books, that every operation keeps it, runs as an inductive relation, and what holds in every
    reachable state: exact counters and kept limits, enforced permissions, live pools, answers to everybody when
    the Router closes, a connection is lost or a deadline comes, isolation of calls as a refinement of a table of
    calls, and forwarding within credit.  \<open>Router_Demo\<close> is a concrete run for the examples.
  \<^item> \<open>Openapi\<close> (\<^verbatim>\<open>openapi.go\<close>), \<open>Http_Api\<close> (\<^verbatim>\<open>httpapi.go\<close>), \<open>Http_Props\<close>, \<open>Http_Server\<close>: HTTP calls as conversations of virtual clients;
    lines, envelopes, credit, slots, and that the whole server is a run of the Router.

  The Go runtime (\<^verbatim>\<open>meshcall-go\<close>):
  \<^item> \<open>Runtime\<close> (\<^verbatim>\<open>errors.go\<close>, \<^verbatim>\<open>frame.go\<close>, \<^verbatim>\<open>runtime.go\<close>, \<^verbatim>\<open>transport.go\<close>): errors, frames, credit windows, connections.
  \<^item> \<open>Client_Call\<close>, \<open>Client\<close>, \<open>Client_Props\<close> (\<^verbatim>\<open>client.go\<close>): calls and streams, endpoints, interceptors, retries; retries end within
    their budget, a pass over the endpoints finds a live one.
  \<^item> \<open>Server_Call\<close> (\<^verbatim>\<open>server.go\<close> from \<^verbatim>\<open>type session\<close> on): sessions and calls.
  \<^item> \<open>Flow\<close>, \<open>Call_Link\<close>, \<open>Call_Shape\<close>, \<open>Call_Flow\<close>, \<open>Call_Props\<close>, \<open>Call_Order\<close>: a call between client and server under every
    interleaving.  Both directions implement the locale \<open>credited_stream\<close>, so no end breaks the stream protocol or
    buffers more than the initial credit, and the output arrives in order and complete.
  \<^item> \<open>Wire\<close>: the frames of the runtime at the Router's decoder and at the other end.
  \<^item> \<open>Service_Decl\<close> (\<^verbatim>\<open>service.go\<close>, \<^verbatim>\<open>diagnostics.go\<close>), \<open>Server_Life\<close> (\<^verbatim>\<open>server.go\<close> up to \<^verbatim>\<open>Close\<close>), \<open>Server_Props\<close>, \<open>Server_Drain\<close>,
    \<open>Server_Demo\<close>: declaring services, links to Routers, draining and closing; declared services pass the Router's
    registration, and the count of calls in flight that \<^verbatim>\<open>Drain\<close> waits for is exact under every interleaving.
  \<^item> \<open>Injection\<close>, \<open>Injection_Props\<close> (\<^verbatim>\<open>di.go\<close>): the search for circular dependencies decides acyclicity, and resolution
    ends and calls each provider once.

  \<^bold>\<open>Conventions.\<close>  Objects with several references live in stores indexed by addresses.  Time, random numbers,
  what the network answers and the digests of Go's crypto packages are arguments.  What the source runs under one
  mutex, or in one goroutine between waits, is one definition; concurrency is the interleaving of these.  An
  operation that may wait returns \<open>Blocked\<close>; a run-time panic is a value.

  \<^bold>\<open>Bounds and fuel.\<close>  The JSON scanner takes the length of its text as fuel, which is enough because each step
  consumes a byte.  The search for cycles and the resolution of dependencies take the number of types, shown to be
  enough.  The receive loop of a stream takes fuel for the frames it skips; running out is still waiting, and the
  theorems about it hold for any fuel.  Other loops are structural or come with a termination proof.  Counters that
  can overflow in the source are kept at 64 bits (credit, sequence numbers, the HTTP bridge).

  \<^bold>\<open>Not modelled.\<close>  The WebSocket transport, sockets, files, logs, flags and process control (input and output
  only); the nesting limit of \<^verbatim>\<open>encoding/json\<close>, read deadlines and the rounding of \<^verbatim>\<open>float64\<close> (number formatting is a
  parameter, durations are exact rationals); the Prometheus text of the metrics; the code generators and skill files
  (text templates); the tools' wire client, the command line and the conformance scenarios (they drive the parts
  above); and in the runtime \<^verbatim>\<open>ReflectService\<close>, schemas, typed wrappers and HTTP handlers, which are reflection over
  Go types.
\<close>

end
